(* ===== verification/Reaper_Prelude.thy ===== *)
theory Reaper_Prelude
  imports Main "HOL-Library.Word" "HOL-Library.Code_Target_Nat"
begin

text \<open>
  Prelude of the ReaperCore development: names for the machine integer types the C sources
  use, the collections of facts the component proofs share, and the generic lemmas on lists,
  words, bytes and qword-addressed memory that several components need.
\<close>

unbundle bit_operations_syntax

section \<open>Machine types\<close>

type_synonym u8 = "8 word"
type_synonym u16 = "16 word"
type_synonym u32 = "32 word"
type_synonym u64 = "64 word"

text \<open>
  Physical memory is a function from physical byte addresses to bytes.  The higher-half direct
  map of the kernel is a fixed offset, so an access through \<open>phys_to_virt\<close> is an
  access at the physical address.
\<close>

type_synonym bmem = "nat \<Rightarrow> u8"

named_theorems reaper_frame \<open>which parts of a state an operation leaves alone\<close>
named_theorems reaper_inv \<open>operations preserve the invariant of their component\<close>

section \<open>Zeroing memory (kernel/include/utils.h)\<close>

text \<open>\<open>hyper_scrub\<close> counts qwords (\<^verbatim>\<open>rep stosq\<close>), \<open>fast_zero\<close> counts bytes.\<close>

definition hyper_scrub :: "nat \<Rightarrow> nat \<Rightarrow> bmem \<Rightarrow> bmem" where
  "hyper_scrub addr qwords m = (\<lambda>a. if addr \<le> a \<and> a < addr + 8 * qwords then 0 else m a)"

definition fast_zero :: "nat \<Rightarrow> nat \<Rightarrow> bmem \<Rightarrow> bmem" where
  "fast_zero addr bytes m = (\<lambda>a. if addr \<le> a \<and> a < addr + 8 * (bytes div 8) then 0 else m a)"

lemma hyper_scrub_apply:
  "hyper_scrub addr n m a = (if addr \<le> a \<and> a < addr + 8 * n then 0 else m a)"
  by (simp add: hyper_scrub_def)

lemma fast_zero_is_hyper_scrub: "fast_zero addr n m = hyper_scrub addr (n div 8) m"
  by (simp add: fast_zero_def hyper_scrub_def)

section \<open>Bytes\<close>

text \<open>The first \<open>n\<close> bytes of an integer in memory, least significant first.\<close>

definition le_bytes :: "nat \<Rightarrow> 'a::len word \<Rightarrow> u8 list" where
  "le_bytes n w = map (\<lambda>i. ucast (drop_bit (8 * i) w)) [0 ..< n]"

text \<open>Bytes and little-endian words in memory.\<close>

definition write_bytes :: "nat \<Rightarrow> u8 list \<Rightarrow> bmem \<Rightarrow> bmem" where
  "write_bytes a bs m = (\<lambda>x. if a \<le> x \<and> x < a + length bs then bs ! (x - a) else m x)"

definition read_word :: "nat \<Rightarrow> nat \<Rightarrow> bmem \<Rightarrow> u64" where
  "read_word a n m = foldr (\<lambda>i w. push_bit 8 w OR ucast (m (a + i))) [0 ..< n] 0"

text \<open>\<open>memcpy (buf + off, bytes)\<close> on a byte array.\<close>

definition splice :: "u8 list \<Rightarrow> nat \<Rightarrow> u8 list \<Rightarrow> u8 list" where
  "splice buf off bytes = take off buf @ bytes @ drop (off + length bytes) buf"

lemma length_le_bytes [simp]: "length (le_bytes n w) = n"
  by (simp add: le_bytes_def)

lemma le_bytes_inject:
  fixes v w :: "'a::len word"
  assumes "le_bytes n v = le_bytes n w" and "LENGTH('a) \<le> 8 * n"
  shows "v = w"
proof (rule bit_word_eqI)
  fix k assume "k < LENGTH('a)"
  then have k: "k div 8 < n" using assms(2) by linarith
  have "le_bytes n v ! (k div 8) = le_bytes n w ! (k div 8)" using assms(1) by simp
  then have "(ucast (drop_bit (8 * (k div 8)) v) :: u8) = ucast (drop_bit (8 * (k div 8)) w)"
    using k by (simp add: le_bytes_def)
  then have "bit (ucast (drop_bit (8 * (k div 8)) v) :: u8) (k mod 8)
      = bit (ucast (drop_bit (8 * (k div 8)) w) :: u8) (k mod 8)" by simp
  moreover have "8 * (k div 8) + k mod 8 = k" by simp
  ultimately show "bit v k = bit w k" by (simp add: bit_ucast_iff bit_drop_bit_eq)
qed

lemma length_splice: "off + length bytes \<le> length buf \<Longrightarrow> length (splice buf off bytes) = length buf"
  by (simp add: splice_def)

section \<open>Words\<close>

lemma xor_inject_right:
  fixes x y z :: "'a::len word"
  assumes "x XOR z = y XOR z"
  shows "x = y"
proof -
  have "(x XOR z) XOR z = (y XOR z) XOR z" using assms by simp
  then show "x = y" by (simp add: xor.assoc)
qed

lemma unat_u64_bound: "unat (w :: u64) < 2 ^ 64"
  using unsigned_less[of w] by (simp add: of_nat_less_iff[symmetric, where 'a = int] del: of_nat_less_iff)

lemma unat_u32_bound: "unat (w :: u32) < 2 ^ 32"
  using unsigned_less[of w] by (simp add: of_nat_less_iff[symmetric, where 'a = int] del: of_nat_less_iff)

section \<open>Lists\<close>

lemma fold_invariant:
  assumes "P s" and "\<And>x s. x \<in> set xs \<Longrightarrow> P s \<Longrightarrow> P (f x s)"
  shows "P (fold f xs s)"
  using assms by (induction xs arbitrary: s) auto

lemma fold_same_field:
  assumes "\<And>x s. g (f x s) = g s"
  shows "g (fold f xs s) = g s"
  using assms by (induction xs arbitrary: s) auto

end
