(* ===== verification/Pmm.thy ===== *)
theory Pmm
  imports Reaper_Prelude
begin

text \<open>
  Physical memory manager (\<^verbatim>\<open>src/kernel/pmm.c\<close>, \<^verbatim>\<open>src/kernel/include/pmm.h\<close>): the frame
  ledger (bitmap and metadata), the zoned buddy free lists, boot-time initialisation from the
  bootloader's memory map, allocation with temporal scouring, release with coalescing and
  ownership transfer.

  Frame indices are natural numbers; the places where the source narrows them to
  \<^verbatim>\<open>uint32_t\<close> (list heads and links) keep the 32-bit word.  The free lists are the
  source's singly linked chains through \<open>next_free_idx\<close>.  The walk of
  \<open>pmm_buddy_remove\<close> does not end on a cyclic chain: the model gives it one step per frame
  of the machine, and \<open>None\<close> is the walk that does not return.

  The security epoch that \<open>mode_get_security_epoch\<close> reads is an argument of the operations
  that read it.  Console output and the spinlock are not part of the state.
\<close>

section \<open>Data\<close>

datatype security_color_t = COLOR_VOID | COLOR_CASUAL | COLOR_SECURE | COLOR_LOCKDOWN | COLOR_GHOST

datatype pmm_zone_t = PMM_ZONE_DMA | PMM_ZONE_NORMAL | PMM_ZONE_HIGH | PMM_ZONE_ANY

datatype pmm_trust_t = PMM_TRUST_VERIFIED | PMM_TRUST_UNVERIFIED | PMM_TRUST_ANY

datatype pmm_profile_t = PMM_PROFILE_STRICT | PMM_PROFILE_COMPAT

record pmm_alloc_policy_t =
  pol_color :: security_color_t
  pol_owner_token :: u64
  pol_preferred_zone :: pmm_zone_t
  pol_trust_level :: pmm_trust_t
  pol_order :: nat

record frame_metadata =
  fm_owner_token :: u64
  fm_color :: security_color_t
  fm_state :: u8
  fm_flags :: u8
  fm_epoch :: u8
  fm_next_free_idx :: u32

record pmm_st =
  pm_bitmap :: "u8 list"
  pm_metadata :: "frame_metadata list"
  pm_total_frames :: nat
  pm_free_frames :: u64
  pm_hhdm_offset :: u64
  pm_max_address :: u64
  pm_heads :: "pmm_zone_t \<Rightarrow> nat \<Rightarrow> u32"
  pm_law9_temporal_scour_count :: u64
  pm_law9_same_epoch_zero_count :: u64
  pm_law9_marker_emitted :: bool
  pm_policy_marker_emitted :: bool
  pm_quarantine_frames :: u64
  pm_candidate_frames :: u64
  pm_reserved_ledger_frames :: u64
  pm_mem :: bmem

datatype limine_memmap_type =
    LIMINE_MEMMAP_USABLE | LIMINE_MEMMAP_BOOTLOADER_RECLAIMABLE | LIMINE_MEMMAP_OTHER

record limine_memmap_entry =
  me_base :: u64
  me_length :: u64
  me_type :: limine_memmap_type

definition PAGE_SIZE :: nat where "PAGE_SIZE = 4096"
definition FRAME_STATE_FREE :: u8 where "FRAME_STATE_FREE = 0x01"
definition PMM_STACK_END :: u32 where "PMM_STACK_END = 0xFFFFFFFF"
definition PMM_MIN_FREE_FRAMES :: u64 where "PMM_MIN_FREE_FRAMES = 128"
definition PMM_MAX_QUARANTINE_PERCENT :: u64 where "PMM_MAX_QUARANTINE_PERCENT = 35"
definition PMM_DMA_LIMIT_BYTES :: nat where "PMM_DMA_LIMIT_BYTES = 16 * 1024 * 1024"
definition PMM_HIGH_LIMIT_BYTES :: nat where "PMM_HIGH_LIMIT_BYTES = 4 * 1024 * 1024 * 1024"
definition PMM_BUDDY_MAX_ORDER :: nat where "PMM_BUDDY_MAX_ORDER = 10"
definition PMM_BUDDY_FLAG_HEAD :: u8 where "PMM_BUDDY_FLAG_HEAD = 0x80"
definition PMM_BUDDY_FLAG_ORDER :: u8 where "PMM_BUDDY_FLAG_ORDER = 0x0F"
definition pmm_profile :: pmm_profile_t where "pmm_profile = PMM_PROFILE_STRICT"

lemmas pmm_consts = PAGE_SIZE_def PMM_DMA_LIMIT_BYTES_def PMM_HIGH_LIMIT_BYTES_def
  PMM_BUDDY_MAX_ORDER_def

section \<open>Helpers\<close>

definition pmm_phys_to_virt :: "pmm_st \<Rightarrow> u64 \<Rightarrow> u64" where
  "pmm_phys_to_virt st phys = phys + pm_hhdm_offset st"

definition pmm_virt_to_phys :: "pmm_st \<Rightarrow> u64 \<Rightarrow> u64" where
  "pmm_virt_to_phys st virt = virt - pm_hhdm_offset st"

definition align_up_u64 :: "u64 \<Rightarrow> u64 \<Rightarrow> u64" where
  "align_up_u64 value alignment =
     (if alignment = 0 then value
      else let r = value mod alignment in
        if r = 0 then value
        else if value > (- 1) - (alignment - r) then - 1
        else value + (alignment - r))"

definition align_down_u64 :: "u64 \<Rightarrow> u64 \<Rightarrow> u64" where
  "align_down_u64 value alignment =
     (if alignment = 0 then value else value - (value mod alignment))"

definition u64_percent :: "u64 \<Rightarrow> u64 \<Rightarrow> u64" where
  "u64_percent part whole = (if whole = 0 then 0 else (part * 100) div whole)"

definition pmm_zone_from_phys :: "nat \<Rightarrow> pmm_zone_t" where
  "pmm_zone_from_phys phys =
     (if phys < PMM_DMA_LIMIT_BYTES then PMM_ZONE_DMA
      else if phys < PMM_HIGH_LIMIT_BYTES then PMM_ZONE_NORMAL
      else PMM_ZONE_HIGH)"

definition bitmap_set :: "nat \<Rightarrow> u8 list \<Rightarrow> u8 list" where
  "bitmap_set f bm = bm[f div 8 := (bm ! (f div 8)) OR push_bit (f mod 8) 1]"

definition bitmap_clear :: "nat \<Rightarrow> u8 list \<Rightarrow> u8 list" where
  "bitmap_clear f bm = bm[f div 8 := (bm ! (f div 8)) AND NOT (push_bit (f mod 8) 1)]"

definition bitmap_test :: "u8 list \<Rightarrow> nat \<Rightarrow> bool" where
  "bitmap_test bm f \<longleftrightarrow> (bm ! (f div 8)) AND push_bit (f mod 8) 1 \<noteq> 0"

definition pmm_block_pages :: "nat \<Rightarrow> nat" where
  "pmm_block_pages order = 2 ^ order"

definition pmm_zone_limit_frame :: "pmm_st \<Rightarrow> pmm_zone_t \<Rightarrow> nat" where
  "pmm_zone_limit_frame st zone =
     (if zone = PMM_ZONE_DMA then
        let limit = PMM_DMA_LIMIT_BYTES div PAGE_SIZE in
          if limit < pm_total_frames st then limit else pm_total_frames st
      else if zone = PMM_ZONE_NORMAL then
        let limit = PMM_HIGH_LIMIT_BYTES div PAGE_SIZE in
          if limit < pm_total_frames st then limit else pm_total_frames st
      else pm_total_frames st)"

definition pmm_block_is_head :: "pmm_st \<Rightarrow> nat \<Rightarrow> nat \<Rightarrow> bool" where
  "pmm_block_is_head st idx order =
     (if idx \<ge> pm_total_frames st then False
      else if fm_flags (pm_metadata st ! idx) AND PMM_BUDDY_FLAG_HEAD = 0 then False
      else fm_flags (pm_metadata st ! idx) AND PMM_BUDDY_FLAG_ORDER
             = word_of_nat order AND PMM_BUDDY_FLAG_ORDER)"

definition pmm_block_fits_zone :: "pmm_st \<Rightarrow> nat \<Rightarrow> nat \<Rightarrow> pmm_zone_t \<Rightarrow> bool" where
  "pmm_block_fits_zone st idx order zone \<longleftrightarrow>
     idx + pmm_block_pages order \<le> pmm_zone_limit_frame st zone"

text \<open>One write to a metadata entry.\<close>

definition md_update :: "nat \<Rightarrow> (frame_metadata \<Rightarrow> frame_metadata) \<Rightarrow> pmm_st \<Rightarrow> pmm_st" where
  "md_update f g st = st\<lparr>pm_metadata := (pm_metadata st)[f := g (pm_metadata st ! f)]\<rparr>"

definition set_frame_bitmap :: "bool \<Rightarrow> nat \<Rightarrow> pmm_st \<Rightarrow> pmm_st" where
  "set_frame_bitmap allocated f st =
     (if allocated
      then md_update f (\<lambda>m. m\<lparr>fm_state := 0\<rparr>)
             (st\<lparr>pm_bitmap := bitmap_set f (pm_bitmap st)\<rparr>)
      else md_update f (\<lambda>m. m\<lparr>fm_state := FRAME_STATE_FREE\<rparr>)
             (st\<lparr>pm_bitmap := bitmap_clear f (pm_bitmap st)\<rparr>))"

definition pmm_set_block_bitmap :: "nat \<Rightarrow> nat \<Rightarrow> bool \<Rightarrow> pmm_st \<Rightarrow> pmm_st" where
  "pmm_set_block_bitmap idx order allocated st =
     fold (set_frame_bitmap allocated) [idx ..< idx + pmm_block_pages order] st"

section \<open>Buddy free lists\<close>

definition set_head :: "pmm_zone_t \<Rightarrow> nat \<Rightarrow> u32 \<Rightarrow> pmm_st \<Rightarrow> pmm_st" where
  "set_head zone order h st =
     st\<lparr>pm_heads := (pm_heads st)(zone := (pm_heads st zone)(order := h))\<rparr>"

definition pmm_buddy_push :: "pmm_zone_t \<Rightarrow> nat \<Rightarrow> nat \<Rightarrow> pmm_st \<Rightarrow> pmm_st" where
  "pmm_buddy_push zone order idx st =
     set_head zone order (word_of_nat idx)
       (md_update idx
         (\<lambda>m. m\<lparr>fm_flags := PMM_BUDDY_FLAG_HEAD OR (word_of_nat order AND PMM_BUDDY_FLAG_ORDER),
               fm_next_free_idx := pm_heads st zone order\<rparr>) st)"

definition pmm_buddy_pop :: "pmm_zone_t \<Rightarrow> nat \<Rightarrow> pmm_st \<Rightarrow> u32 \<times> pmm_st" where
  "pmm_buddy_pop zone order st =
     (let head = pm_heads st zone order in
      if head = PMM_STACK_END then (PMM_STACK_END, st)
      else (head,
        md_update (unat head) (\<lambda>m. m\<lparr>fm_next_free_idx := PMM_STACK_END\<rparr>)
          (set_head zone order (fm_next_free_idx (pm_metadata st ! unat head)) st)))"

fun pmm_buddy_remove_loop ::
    "nat \<Rightarrow> pmm_zone_t \<Rightarrow> nat \<Rightarrow> nat \<Rightarrow> u32 \<Rightarrow> u32 \<Rightarrow> pmm_st \<Rightarrow> (bool \<times> pmm_st) option" where
  "pmm_buddy_remove_loop fuel zone order target prev cur st =
     (if cur = PMM_STACK_END then Some (False, st)
      else case fuel of
        0 \<Rightarrow> None
      | Suc fuel' \<Rightarrow>
        if unat cur = target then
          let nxt = fm_next_free_idx (pm_metadata st ! unat cur);
              st1 = (if prev = PMM_STACK_END then set_head zone order nxt st
                     else md_update (unat prev) (\<lambda>m. m\<lparr>fm_next_free_idx := nxt\<rparr>) st);
              st2 = md_update (unat cur)
                      (\<lambda>m. m\<lparr>fm_next_free_idx := PMM_STACK_END,
                            fm_flags := fm_flags m AND NOT PMM_BUDDY_FLAG_HEAD\<rparr>) st1
          in Some (True, st2)
        else pmm_buddy_remove_loop fuel' zone order target cur
               (fm_next_free_idx (pm_metadata st ! unat cur)) st)"

declare pmm_buddy_remove_loop.simps [simp del]

definition pmm_buddy_remove ::
    "pmm_zone_t \<Rightarrow> nat \<Rightarrow> nat \<Rightarrow> pmm_st \<Rightarrow> (bool \<times> pmm_st) option" where
  "pmm_buddy_remove zone order target st =
     pmm_buddy_remove_loop (pm_total_frames st) zone order target PMM_STACK_END
       (pm_heads st zone order) st"

text \<open>The largest order whose aligned, in-zone, completely free block starts at \<open>idx\<close>.\<close>

function buddy_best_order :: "pmm_st \<Rightarrow> pmm_zone_t \<Rightarrow> nat \<Rightarrow> nat \<Rightarrow> nat" where
  "buddy_best_order st zone idx best =
     (if best < PMM_BUDDY_MAX_ORDER then
        let candidate = best + 1; pages = pmm_block_pages candidate in
          if idx AND (pages - 1) \<noteq> 0 then best
          else if idx + pages > pm_total_frames st then best
          else if \<not> pmm_block_fits_zone st idx candidate zone then best
          else if \<not> list_all (\<lambda>f. \<not> bitmap_test (pm_bitmap st) f) [idx ..< idx + pages] then best
          else buddy_best_order st zone idx candidate
      else best)"
  by pat_completeness auto
termination
  by (relation "measure (\<lambda>(st, zone, idx, best). PMM_BUDDY_MAX_ORDER - best)") auto

declare buddy_best_order.simps [simp del]

function buddy_init_loop :: "nat \<Rightarrow> pmm_st \<Rightarrow> pmm_st" where
  "buddy_init_loop idx st =
     (if idx < pm_total_frames st then
        if bitmap_test (pm_bitmap st) idx then buddy_init_loop (idx + 1) st
        else let zone = pmm_zone_from_phys (idx * PAGE_SIZE);
                 best = buddy_best_order st zone idx 0
             in buddy_init_loop (idx + pmm_block_pages best) (pmm_buddy_push zone best idx st)
      else st)"
  by pat_completeness auto
termination
  by (relation "measure (\<lambda>(idx, st). pm_total_frames st - idx)")
     (auto simp: pmm_buddy_push_def set_head_def md_update_def pmm_block_pages_def
       intro: diff_less_mono2)

declare buddy_init_loop.simps [simp del]

definition pmm_buddy_init_from_free_frames :: "pmm_st \<Rightarrow> pmm_st" where
  "pmm_buddy_init_from_free_frames st =
     buddy_init_loop 0 (st\<lparr>pm_heads := (\<lambda>zone order. PMM_STACK_END)\<rparr>)"

fun buddy_split :: "pmm_zone_t \<Rightarrow> nat \<Rightarrow> nat \<Rightarrow> nat \<Rightarrow> pmm_st \<Rightarrow> pmm_st" where
  "buddy_split zone order idx cur st =
     (if cur > order then
        let cur' = cur - 1; buddy_idx = idx + pmm_block_pages cur' in
          buddy_split zone order idx cur'
            (pmm_buddy_push zone cur' buddy_idx (pmm_set_block_bitmap buddy_idx cur' False st))
      else st)"

declare buddy_split.simps [simp del]

text \<open>The inner loop over orders of one zone; \<open>None\<close> when every list from \<open>cur\<close> up is empty.\<close>

function buddy_alloc_zone :: "pmm_zone_t \<Rightarrow> nat \<Rightarrow> nat \<Rightarrow> pmm_st \<Rightarrow> (u64 \<times> pmm_st) option" where
  "buddy_alloc_zone zone order cur st =
     (if cur \<le> PMM_BUDDY_MAX_ORDER then
        let (head, st1) = pmm_buddy_pop zone cur st in
          if head = PMM_STACK_END then buddy_alloc_zone zone order (cur + 1) st1
          else
            let idx = unat head;
                st2 = buddy_split zone order idx cur st1;
                st3 = pmm_set_block_bitmap idx order True st2;
                st4 = md_update idx
                        (\<lambda>m. m\<lparr>fm_flags := word_of_nat order AND PMM_BUDDY_FLAG_ORDER,
                              fm_next_free_idx := PMM_STACK_END\<rparr>) st3
            in Some (word_of_nat idx * word_of_nat PAGE_SIZE,
                 st4\<lparr>pm_free_frames := pm_free_frames st4 - word_of_nat (pmm_block_pages order)\<rparr>)
      else None)"
  by pat_completeness auto
termination
  by (relation "measure (\<lambda>(zone, order, cur, st). PMM_BUDDY_MAX_ORDER + 1 - cur)") auto

declare buddy_alloc_zone.simps [simp del]

fun buddy_alloc_zones :: "pmm_zone_t list \<Rightarrow> nat \<Rightarrow> pmm_st \<Rightarrow> u64 \<times> pmm_st" where
  "buddy_alloc_zones [] order st = (0, st)"
| "buddy_alloc_zones (zone # zones) order st =
     (case buddy_alloc_zone zone order order st of
        Some r \<Rightarrow> r
      | None \<Rightarrow> buddy_alloc_zones zones order st)"

definition pmm_buddy_alloc_block :: "nat \<Rightarrow> pmm_zone_t \<Rightarrow> pmm_st \<Rightarrow> u64 \<times> pmm_st" where
  "pmm_buddy_alloc_block order preferred_zone st =
     buddy_alloc_zones
       (if preferred_zone = PMM_ZONE_ANY
        then [PMM_ZONE_NORMAL, PMM_ZONE_DMA, PMM_ZONE_HIGH] else [preferred_zone])
       order st"

function buddy_merge :: "pmm_zone_t \<Rightarrow> nat \<Rightarrow> nat \<Rightarrow> pmm_st \<Rightarrow> (nat \<times> nat \<times> pmm_st) option" where
  "buddy_merge zone order idx st =
     (if order < PMM_BUDDY_MAX_ORDER then
        let buddy_idx = idx XOR pmm_block_pages order in
          if buddy_idx \<ge> pm_total_frames st then Some (order, idx, st)
          else if \<not> pmm_block_fits_zone st buddy_idx order zone then Some (order, idx, st)
          else if \<not> pmm_block_is_head st buddy_idx order then Some (order, idx, st)
          else if bitmap_test (pm_bitmap st) buddy_idx then Some (order, idx, st)
          else case pmm_buddy_remove zone order buddy_idx st of
            None \<Rightarrow> None
          | Some (removed, st1) \<Rightarrow>
              if \<not> removed then Some (order, idx, st1)
              else buddy_merge zone (order + 1) (if buddy_idx < idx then buddy_idx else idx) st1
      else Some (order, idx, st))"
  by pat_completeness auto
termination
  by (relation "measure (\<lambda>(zone, order, idx, st). PMM_BUDDY_MAX_ORDER - order)") auto

declare buddy_merge.simps [simp del]

definition pmm_buddy_free_block :: "nat \<Rightarrow> nat \<Rightarrow> pmm_st \<Rightarrow> pmm_st option" where
  "pmm_buddy_free_block idx order st =
     (let zone = pmm_zone_from_phys (idx * PAGE_SIZE);
          st1 = pmm_set_block_bitmap idx order False st;
          st2 = st1\<lparr>pm_free_frames := pm_free_frames st1 + word_of_nat (pmm_block_pages order)\<rparr>
      in case buddy_merge zone order idx st2 of
           None \<Rightarrow> None
         | Some (order', idx', st3) \<Rightarrow> Some (pmm_buddy_push zone order' idx' st3))"

definition pmm_needs_temporal_scour :: "u8 \<Rightarrow> u64 \<Rightarrow> bool" where
  "pmm_needs_temporal_scour frame_epoch alloc_epoch \<longleftrightarrow> frame_epoch \<noteq> ucast alloc_epoch"

section \<open>Boot-time initialisation\<close>

definition sizeof_frame_metadata :: nat where "sizeof_frame_metadata = 16"

definition page64 :: u64 where "page64 = 4096"

text \<open>The scan for the highest address in use; \<open>Inl\<close> carries the fail-closed reason.\<close>

fun memmap_scan :: "limine_memmap_entry list \<Rightarrow> u64 \<Rightarrow> string + u64" where
  "memmap_scan [] acc = Inr acc"
| "memmap_scan (e # es) acc =
     (if me_length e = 0 then memmap_scan es acc
      else if me_base e > (- 1) - me_length e then Inl ''memmap_entry_overflow''
      else if me_type e = LIMINE_MEMMAP_USABLE \<or> me_type e = LIMINE_MEMMAP_BOOTLOADER_RECLAIMABLE
        then let fin = me_base e + me_length e in
          memmap_scan es (if fin > acc then fin else acc)
      else memmap_scan es acc)"

fun find_ledger :: "limine_memmap_entry list \<Rightarrow> u64 \<Rightarrow> u64 option" where
  "find_ledger [] needed = None"
| "find_ledger (e # es) needed =
     (if me_type e \<noteq> LIMINE_MEMMAP_USABLE \<or> me_length e = 0 then find_ledger es needed
      else
        let region_start = align_up_u64 (me_base e) page64;
            region_end = align_down_u64 (me_base e + me_length e) page64
        in if region_start = - 1 \<or> region_end \<le> region_start then find_ledger es needed
           else if region_end - region_start \<ge> needed then Some region_start
           else find_ledger es needed)"

definition void_metadata :: frame_metadata where
  "void_metadata = \<lparr>fm_owner_token = 0, fm_color = COLOR_VOID, fm_state = 0, fm_flags = 0,
     fm_epoch = 0, fm_next_free_idx = PMM_STACK_END\<rparr>"

definition release_boot_frame :: "u64 \<Rightarrow> u64 \<Rightarrow> nat \<Rightarrow> pmm_st \<Rightarrow> pmm_st" where
  "release_boot_frame ledger_phys needed addr st =
     (if addr \<ge> unat ledger_phys \<and> addr < unat (ledger_phys + needed) then st
      else let idx = addr div PAGE_SIZE in
        if idx < pm_total_frames st
        then md_update idx (\<lambda>m. m\<lparr>fm_state := FRAME_STATE_FREE\<rparr>)
               (st\<lparr>pm_bitmap := bitmap_clear idx (pm_bitmap st),
                   pm_free_frames := pm_free_frames st + 1\<rparr>)
        else st\<lparr>pm_quarantine_frames := pm_quarantine_frames st + 1\<rparr>)"

text \<open>The addresses of \<open>for (addr = start; addr < end; addr += PAGE_SIZE)\<close>, both ends page aligned.\<close>

definition page_addresses :: "u64 \<Rightarrow> u64 \<Rightarrow> nat list" where
  "page_addresses start fin =
     map (\<lambda>k. unat start + PAGE_SIZE * k) [0 ..< (unat fin - unat start + (PAGE_SIZE - 1)) div PAGE_SIZE]"

definition release_entry :: "u64 \<Rightarrow> u64 \<Rightarrow> limine_memmap_entry \<Rightarrow> pmm_st \<Rightarrow> pmm_st" where
  "release_entry ledger_phys needed e st =
     (if me_type e = LIMINE_MEMMAP_USABLE then
        let entry_end = me_base e + me_length e;
            start = align_up_u64 (me_base e) page64;
            fin = align_down_u64 entry_end page64
        in if start = - 1 \<or> fin \<le> start then st
           else fold (release_boot_frame ledger_phys needed) (page_addresses start fin)
             (st\<lparr>pm_candidate_frames := pm_candidate_frames st + (fin - start) div page64,
                 pm_quarantine_frames := pm_quarantine_frames st
                   + (start - me_base e) div page64 + (entry_end - fin) div page64\<rparr>)
      else st)"

text \<open>
  \<open>pmm_init\<close> on the bootloader's answers: \<open>Inl reason\<close> is the call to
  \<open>pmm_fail_closed\<close>, which panics.  The ledger itself (bitmap and metadata arrays) is kept
  in its own fields; the frames it occupies stay marked as used.
\<close>

definition pmm_init ::
    "limine_memmap_entry list option \<Rightarrow> u64 option \<Rightarrow> pmm_st \<Rightarrow> string + pmm_st" where
  "pmm_init memmap hhdm st0 =
     (case (memmap, hhdm) of
        (Some entries, Some off) \<Rightarrow>
          (case memmap_scan entries 0 of
             Inl r \<Rightarrow> Inl r
           | Inr max_addr \<Rightarrow>
             if max_addr < page64 then Inl ''no_usable_physical_address_space'' else
             let frames = max_addr div page64 in
             if frames = 0 then Inl ''zero_total_frames'' else
             let bitmap_size = (frames + 7) div 8 in
             if frames > (- 1) div word_of_nat sizeof_frame_metadata
               then Inl ''metadata_size_overflow'' else
             let metadata_size = frames * word_of_nat sizeof_frame_metadata in
             if bitmap_size > (- 1) - metadata_size then Inl ''ledger_size_overflow'' else
             let needed = align_up_u64 (bitmap_size + metadata_size) page64 in
             if needed = - 1 then Inl ''ledger_alignment_overflow'' else
             (case find_ledger entries needed of
                None \<Rightarrow> Inl ''ledger_region_not_found''
              | Some ledger_phys \<Rightarrow>
                let st1 = st0\<lparr>pm_hhdm_offset := off, pm_max_address := max_addr,
                            pm_total_frames := unat frames,
                            pm_reserved_ledger_frames := needed div page64,
                            pm_bitmap := replicate (unat bitmap_size) 0xFF,
                            pm_metadata := replicate (unat frames) void_metadata,
                            pm_free_frames := 0, pm_quarantine_frames := 0,
                            pm_candidate_frames := 0\<rparr>;
                    st2 = fold (release_entry ledger_phys needed) entries st1;
                    st3 = pmm_buddy_init_from_free_frames st2;
                    quarantine_pct = u64_percent (pm_quarantine_frames st3) (pm_candidate_frames st3)
                in if pm_free_frames st3 < PMM_MIN_FREE_FRAMES then Inl ''free_frame_floor_breach''
                   else if pmm_profile = PMM_PROFILE_STRICT
                           \<and> quarantine_pct > PMM_MAX_QUARANTINE_PERCENT
                     then Inl ''quarantine_ratio_exceeded''
                   else Inr st3))
      | _ \<Rightarrow> Inl ''missing_limine_memmap_or_hhdm'')"

section \<open>Allocation, release and transfer\<close>

definition alloc_frame ::
    "pmm_alloc_policy_t \<Rightarrow> u64 \<Rightarrow> u64 \<Rightarrow> nat \<Rightarrow> pmm_st \<Rightarrow> pmm_st" where
  "alloc_frame policy alloc_epoch phys i st =
     (let frame_idx = unat phys div PAGE_SIZE + i;
          frame_phys = unat phys + i * PAGE_SIZE;
          st1 = (if pmm_needs_temporal_scour (fm_epoch (pm_metadata st ! frame_idx)) alloc_epoch
                 then st\<lparr>pm_mem := hyper_scrub frame_phys (PAGE_SIZE div 8) (pm_mem st),
                         pm_law9_temporal_scour_count := pm_law9_temporal_scour_count st + 1,
                         pm_law9_marker_emitted := True\<rparr>
                 else st\<lparr>pm_mem := fast_zero frame_phys PAGE_SIZE (pm_mem st),
                         pm_law9_same_epoch_zero_count := pm_law9_same_epoch_zero_count st + 1\<rparr>)
      in md_update frame_idx
           (\<lambda>m. m\<lparr>fm_owner_token := pol_owner_token policy, fm_color := pol_color policy,
                 fm_state := 0, fm_epoch := ucast alloc_epoch,
                 fm_flags := (if i \<noteq> 0 then 0 else fm_flags m)\<rparr>) st1)"

definition pmm_alloc_ex ::
    "u64 \<Rightarrow> pmm_alloc_policy_t option \<Rightarrow> pmm_st \<Rightarrow> u64 \<times> pmm_st" where
  "pmm_alloc_ex epoch policy_opt st =
     (case policy_opt of
        None \<Rightarrow> (0, st)
      | Some policy \<Rightarrow>
        let st0 = st\<lparr>pm_policy_marker_emitted := True\<rparr> in
        if pol_order policy > PMM_BUDDY_MAX_ORDER then (0, st0)
        else if pol_trust_level policy = PMM_TRUST_UNVERIFIED \<and> pmm_profile = PMM_PROFILE_STRICT
          then (0, st0)
        else
          let (phys, st1) = pmm_buddy_alloc_block (pol_order policy) (pol_preferred_zone policy) st0
          in if phys = 0 then (0, st1)
             else (phys, fold (alloc_frame policy epoch phys)
                           [0 ..< pmm_block_pages (pol_order policy)] st1))"

definition pmm_alloc :: "u64 \<Rightarrow> security_color_t \<Rightarrow> u64 \<Rightarrow> pmm_st \<Rightarrow> u64 \<times> pmm_st" where
  "pmm_alloc epoch color owner st =
     pmm_alloc_ex epoch (Some \<lparr>pol_color = color, pol_owner_token = owner,
       pol_preferred_zone = PMM_ZONE_ANY, pol_trust_level = PMM_TRUST_VERIFIED, pol_order = 0\<rparr>) st"

definition free_frame :: "u64 \<Rightarrow> u64 \<Rightarrow> nat \<Rightarrow> pmm_st \<Rightarrow> pmm_st" where
  "free_frame free_epoch phys i st =
     (let frame_idx = unat phys div PAGE_SIZE + i;
          frame_phys = unat phys + i * PAGE_SIZE;
          c = fm_color (pm_metadata st ! frame_idx);
          st1 = st\<lparr>pm_mem := (if c = COLOR_SECURE \<or> c = COLOR_GHOST
                              then hyper_scrub frame_phys (PAGE_SIZE div 8) (pm_mem st)
                              else fast_zero frame_phys PAGE_SIZE (pm_mem st))\<rparr>
      in md_update frame_idx
           (\<lambda>m. m\<lparr>fm_owner_token := 0, fm_color := COLOR_VOID, fm_state := FRAME_STATE_FREE,
                 fm_epoch := ucast free_epoch, fm_flags := 0\<rparr>) st1)"

text \<open>\<open>None\<close> is a release that does not return (a cyclic free list).\<close>

definition pmm_free_ex :: "u64 \<Rightarrow> u64 \<Rightarrow> nat \<Rightarrow> pmm_st \<Rightarrow> pmm_st option" where
  "pmm_free_ex epoch phys order st =
     (let idx = unat phys div PAGE_SIZE in
      if idx \<ge> pm_total_frames st then Some st
      else if order > PMM_BUDDY_MAX_ORDER then Some st
      else pmm_buddy_free_block idx order
             (fold (free_frame epoch phys)
               (takeWhile (\<lambda>i. idx + i < pm_total_frames st) [0 ..< pmm_block_pages order]) st))"

definition pmm_free :: "u64 \<Rightarrow> u64 \<Rightarrow> pmm_st \<Rightarrow> pmm_st option" where
  "pmm_free epoch phys st = pmm_free_ex epoch phys 0 st"

definition pmm_transfer ::
    "u64 \<Rightarrow> u64 \<Rightarrow> u64 \<Rightarrow> security_color_t \<Rightarrow> u8 \<Rightarrow> pmm_st \<Rightarrow> bool \<times> pmm_st" where
  "pmm_transfer epoch phys new_owner new_color new_state st =
     (let idx = unat phys div PAGE_SIZE in
      if idx \<ge> pm_total_frames st \<or> bitmap_test (pm_bitmap st) idx = False then (False, st)
      else (True, md_update idx
        (\<lambda>m. m\<lparr>fm_owner_token := new_owner, fm_color := new_color, fm_state := new_state,
              fm_epoch := ucast epoch\<rparr>) st))"

definition pmm_stats :: "pmm_st \<Rightarrow> u64 \<times> u64" where
  "pmm_stats st = (word_of_nat (pm_total_frames st), pm_free_frames st)"

definition pmm_law9_stats :: "pmm_st \<Rightarrow> u64 \<times> u64" where
  "pmm_law9_stats st = (pm_law9_temporal_scour_count st, pm_law9_same_epoch_zero_count st)"

end
