(* ===== verification/Mode_Types.thy ===== *)
theory Mode_Types
  imports Pmm
begin

text \<open>
  The mode enumeration of \<^verbatim>\<open>src/kernel/include/mode.h\<close> and the tables on it.  A system
  call can cast any 32-bit value to \<open>mode_id_t\<close>; \<open>MODE_OTHER\<close> stands for the values
  that are not enumerators.
\<close>

datatype mode_id_t = MODE_VOID | MODE_CASUAL | MODE_SECURE | MODE_LOCKDOWN | MODE_GHOST | MODE_KERNEL
  | MODE_OTHER nat

definition MODE_COUNT :: nat where "MODE_COUNT = 6"

fun mode_val :: "mode_id_t \<Rightarrow> nat" where
  "mode_val MODE_VOID = 0"
| "mode_val MODE_CASUAL = 1"
| "mode_val MODE_SECURE = 2"
| "mode_val MODE_LOCKDOWN = 3"
| "mode_val MODE_GHOST = 4"
| "mode_val MODE_KERNEL = 5"
| "mode_val (MODE_OTHER n) = n"

definition mode_of_val :: "nat \<Rightarrow> mode_id_t" where
  "mode_of_val n =
     (if n = 0 then MODE_VOID else if n = 1 then MODE_CASUAL else if n = 2 then MODE_SECURE
      else if n = 3 then MODE_LOCKDOWN else if n = 4 then MODE_GHOST else if n = 5 then MODE_KERNEL
      else MODE_OTHER n)"

definition mode_wf :: "mode_id_t \<Rightarrow> bool" where
  "mode_wf m \<longleftrightarrow> (case m of MODE_OTHER n \<Rightarrow> MODE_COUNT \<le> n \<and> n < 2 ^ 32 | _ \<Rightarrow> True)"

fun mode_to_color :: "mode_id_t \<Rightarrow> security_color_t" where
  "mode_to_color MODE_VOID = COLOR_VOID"
| "mode_to_color MODE_CASUAL = COLOR_CASUAL"
| "mode_to_color MODE_SECURE = COLOR_SECURE"
| "mode_to_color MODE_LOCKDOWN = COLOR_LOCKDOWN"
| "mode_to_color MODE_GHOST = COLOR_GHOST"
| "mode_to_color MODE_KERNEL = COLOR_VOID"
| "mode_to_color (MODE_OTHER n) = COLOR_VOID"

fun mode_get_name :: "mode_id_t \<Rightarrow> string" where
  "mode_get_name MODE_VOID = ''VOID''"
| "mode_get_name MODE_CASUAL = ''CASUAL''"
| "mode_get_name MODE_SECURE = ''SECURE''"
| "mode_get_name MODE_LOCKDOWN = ''LOCKDOWN''"
| "mode_get_name MODE_GHOST = ''GHOST''"
| "mode_get_name MODE_KERNEL = ''UNKNOWN''"
| "mode_get_name (MODE_OTHER n) = ''UNKNOWN''"

lemma mode_of_val_inverse: "mode_wf m \<Longrightarrow> mode_of_val (mode_val m) = m"
  by (cases m) (auto simp: mode_of_val_def mode_wf_def MODE_COUNT_def)

lemma mode_val_inverse: "mode_val (mode_of_val n) = n"
  by (simp add: mode_of_val_def)

lemma mode_val_eq_iff: "mode_wf m \<Longrightarrow> mode_wf m' \<Longrightarrow> mode_val m = mode_val m' \<longleftrightarrow> m = m'"
  using mode_of_val_inverse by metis

end
