(* ===== verification/Fate.thy ===== *)
theory Fate
  imports Mode_Types
begin

text \<open>
  The fate string (\<^verbatim>\<open>src/kernel/mode.c\<close>): the 256-entry ring of hash-chained records of
  mode transitions, faults, lattice events and attestations, its append and read operations, and
  the boot record kept in CMOS.

  \<open>fate_head_index\<close> counts records; it is a natural number here (a 64-bit counter moved by
  one per record in the source).  The time stamp counter and the identity of the requestor are
  arguments of the logging operations.
\<close>

section \<open>Records\<close>

datatype transition_source_t = TRANSITION_SOURCE_KERNEL | TRANSITION_SOURCE_DAEMON
  | TRANSITION_SOURCE_USER

datatype fate_result_t = FATE_RESULT_ACCEPTED | FATE_RESULT_REJECTED

datatype fate_record_type_t = FATE_RECORD_TRANSITION | FATE_RECORD_FAULT | FATE_RECORD_LATTICE
  | FATE_RECORD_ATTEST

datatype fate_read_mode_t = FATE_READ_ALL | FATE_READ_TRANSITIONS | FATE_READ_FAULTS
  | FATE_READ_LATTICE | FATE_READ_ATTEST | FATE_READ_OTHER

fun source_val :: "transition_source_t \<Rightarrow> u8" where
  "source_val TRANSITION_SOURCE_KERNEL = 0"
| "source_val TRANSITION_SOURCE_DAEMON = 1"
| "source_val TRANSITION_SOURCE_USER = 2"

fun fate_result_val :: "fate_result_t \<Rightarrow> u8" where
  "fate_result_val FATE_RESULT_ACCEPTED = 0"
| "fate_result_val FATE_RESULT_REJECTED = 1"

fun record_type_val :: "fate_record_type_t \<Rightarrow> u8" where
  "record_type_val FATE_RECORD_TRANSITION = 0"
| "record_type_val FATE_RECORD_FAULT = 1"
| "record_type_val FATE_RECORD_LATTICE = 2"
| "record_type_val FATE_RECORD_ATTEST = 3"

definition MODE_HISTORY_SIZE :: nat where "MODE_HISTORY_SIZE = 256"

record mode_transition =
  mt_timestamp_tsc :: u64
  mt_prev_hash :: u64
  mt_curr_hash :: u64
  mt_requestor_pid :: u32
  mt_from_mode :: u8
  mt_to_mode :: u8
  mt_trigger_source :: u8
  mt_result_code :: u8
  mt_record_type :: u8
  mt_fault_vector :: u8
  mt_reserved0 :: u16
  mt_fault_error_code :: u32
  mt_fault_rip :: u64
  mt_fault_cr2 :: u64
  mt_fault_rsp :: u64
  mt_fault_cs :: u64
  mt_fault_rflags :: u64

definition zero_transition :: mode_transition where
  "zero_transition = \<lparr>mt_timestamp_tsc = 0, mt_prev_hash = 0, mt_curr_hash = 0, mt_requestor_pid = 0,
     mt_from_mode = 0, mt_to_mode = 0, mt_trigger_source = 0, mt_result_code = 0, mt_record_type = 0,
     mt_fault_vector = 0, mt_reserved0 = 0, mt_fault_error_code = 0, mt_fault_rip = 0, mt_fault_cr2 = 0,
     mt_fault_rsp = 0, mt_fault_cs = 0, mt_fault_rflags = 0\<rparr>"

text \<open>The packed 80-byte layout: the 16 bytes before \<open>curr_hash\<close>, the hash, the rest.\<close>

definition record_head_bytes :: "mode_transition \<Rightarrow> u8 list" where
  "record_head_bytes r = le_bytes 8 (mt_timestamp_tsc r) @ le_bytes 8 (mt_prev_hash r)"

definition record_tail_bytes :: "mode_transition \<Rightarrow> u8 list" where
  "record_tail_bytes r =
     le_bytes 4 (mt_requestor_pid r) @ [mt_from_mode r, mt_to_mode r, mt_trigger_source r, mt_result_code r,
       mt_record_type r, mt_fault_vector r] @ le_bytes 2 (mt_reserved0 r) @ le_bytes 4 (mt_fault_error_code r)
     @ le_bytes 8 (mt_fault_rip r) @ le_bytes 8 (mt_fault_cr2 r) @ le_bytes 8 (mt_fault_rsp r)
     @ le_bytes 8 (mt_fault_cs r) @ le_bytes 8 (mt_fault_rflags r)"

definition record_bytes :: "mode_transition \<Rightarrow> u8 list" where
  "record_bytes r = record_head_bytes r @ le_bytes 8 (mt_curr_hash r) @ record_tail_bytes r"

section \<open>FNV-1a\<close>

definition FNV_PRIME :: u64 where "FNV_PRIME = 0x100000001b3"
definition FNV_OFFSET :: u64 where "FNV_OFFSET = 0xcbf29ce484222325"

definition fnv_step :: "u8 \<Rightarrow> u64 \<Rightarrow> u64" where
  "fnv_step b h = (h XOR ucast b) * FNV_PRIME"

definition calculate_record_hash :: "mode_transition \<Rightarrow> mode_transition" where
  "calculate_record_hash r =
     (let p = record_bytes r;
          h = fold (\<lambda>i h. if i \<ge> 16 \<and> i < 24 then h else fnv_step (p ! i) h) [0 ..< 80] FNV_OFFSET
      in r\<lparr>mt_curr_hash := h\<rparr>)"

section \<open>The ring\<close>

record fate_st =
  ft_history :: "mode_transition list"
  ft_head_index :: nat
  ft_generation_id :: u64

definition fate_append_record :: "mode_transition \<Rightarrow> fate_st \<Rightarrow> fate_st" where
  "fate_append_record r st =
     (let idx = ft_head_index st mod MODE_HISTORY_SIZE;
          prev = (if ft_head_index st > 0
                  then mt_curr_hash (ft_history st ! ((ft_head_index st - 1) mod MODE_HISTORY_SIZE)) else 0);
          r' = calculate_record_hash (r\<lparr>mt_prev_hash := prev\<rparr>);
          head = ft_head_index st + 1
      in st\<lparr>ft_history := (ft_history st)[idx := r'], ft_head_index := head,
            ft_generation_id := (if head mod MODE_HISTORY_SIZE = 0 then ft_generation_id st + 1
                                 else ft_generation_id st)\<rparr>)"

record fate_ctx =
  fx_tsc :: u64
  fx_owner_pid :: "u32 option"

definition ctx_pid :: "fate_ctx \<Rightarrow> u32" where
  "ctx_pid fx = (case fx_owner_pid fx of Some pid \<Rightarrow> pid | None \<Rightarrow> 0)"

definition mode_u8 :: "mode_id_t \<Rightarrow> u8" where "mode_u8 m = word_of_nat (mode_val m)"

definition fate_log_transition_event ::
    "fate_ctx \<Rightarrow> mode_id_t \<Rightarrow> mode_id_t \<Rightarrow> transition_source_t \<Rightarrow> fate_result_t \<Rightarrow> u32 \<Rightarrow> fate_st \<Rightarrow> fate_st" where
  "fate_log_transition_event fx from_mode to_mode source result reason =
     fate_append_record (zero_transition\<lparr>mt_timestamp_tsc := fx_tsc fx, mt_from_mode := mode_u8 from_mode,
       mt_to_mode := mode_u8 to_mode, mt_trigger_source := source_val source,
       mt_result_code := fate_result_val result, mt_record_type := record_type_val FATE_RECORD_TRANSITION,
       mt_fault_error_code := reason, mt_requestor_pid := ctx_pid fx\<rparr>)"

definition mode_log_fault_event ::
    "fate_ctx \<Rightarrow> mode_id_t \<Rightarrow> u8 \<Rightarrow> u64 \<Rightarrow> u64 \<Rightarrow> u64 \<Rightarrow> u64 \<Rightarrow> u64 \<Rightarrow> u64 \<Rightarrow> bool \<Rightarrow> fate_st \<Rightarrow> fate_st" where
  "mode_log_fault_event fx current vector error_code rip cr2 rsp cs rflags from_user =
     fate_append_record (zero_transition\<lparr>mt_timestamp_tsc := fx_tsc fx,
       mt_record_type := record_type_val FATE_RECORD_FAULT,
       mt_result_code := fate_result_val FATE_RESULT_ACCEPTED, mt_fault_vector := vector,
       mt_fault_error_code := ucast error_code, mt_fault_rip := rip, mt_fault_cr2 := cr2,
       mt_fault_rsp := rsp, mt_fault_cs := cs, mt_fault_rflags := rflags,
       mt_from_mode := mode_u8 current, mt_to_mode := mode_u8 current,
       mt_trigger_source := source_val (if from_user then TRANSITION_SOURCE_USER else TRANSITION_SOURCE_KERNEL),
       mt_requestor_pid := (if from_user then ctx_pid fx else 0)\<rparr>)"

definition mode_log_lattice_event ::
    "fate_ctx \<Rightarrow> mode_id_t \<Rightarrow> u32 \<Rightarrow> u64 \<Rightarrow> u32 \<Rightarrow> bool \<Rightarrow> bool \<Rightarrow> fate_st \<Rightarrow> fate_st" where
  "mode_log_lattice_event fx current pid vaddr page_count is_source is_attach =
     fate_append_record (zero_transition\<lparr>mt_timestamp_tsc := fx_tsc fx,
       mt_record_type := record_type_val FATE_RECORD_LATTICE,
       mt_result_code := fate_result_val FATE_RESULT_ACCEPTED,
       mt_fault_vector := (if is_attach then 1 else 2), mt_fault_error_code := page_count,
       mt_fault_rip := (if is_source then 1 else 0), mt_fault_cr2 := vaddr,
       mt_from_mode := mode_u8 current, mt_to_mode := mode_u8 current,
       mt_trigger_source := source_val TRANSITION_SOURCE_KERNEL, mt_requestor_pid := pid\<rparr>)"

definition mode_log_sched_event ::
    "fate_ctx \<Rightarrow> mode_id_t \<Rightarrow> u32 \<Rightarrow> u8 \<Rightarrow> u32 \<Rightarrow> fate_result_t \<Rightarrow> fate_st \<Rightarrow> fate_st" where
  "mode_log_sched_event fx current pid event_code detail result =
     fate_append_record (zero_transition\<lparr>mt_timestamp_tsc := fx_tsc fx,
       mt_record_type := record_type_val FATE_RECORD_TRANSITION,
       mt_result_code := fate_result_val result,
       mt_trigger_source := source_val TRANSITION_SOURCE_KERNEL, mt_requestor_pid := pid,
       mt_from_mode := mode_u8 current, mt_to_mode := mode_u8 current,
       mt_fault_vector := event_code, mt_fault_error_code := detail\<rparr>)"

definition mode_log_law2_attestation ::
    "fate_ctx \<Rightarrow> mode_id_t \<Rightarrow> u8 \<Rightarrow> fate_result_t \<Rightarrow> u16 \<Rightarrow> u32 \<Rightarrow> fate_st \<Rightarrow> fate_st" where
  "mode_log_law2_attestation fx current day_id result reason_code detail =
     fate_append_record (zero_transition\<lparr>mt_timestamp_tsc := fx_tsc fx,
       mt_record_type := record_type_val FATE_RECORD_ATTEST,
       mt_result_code := fate_result_val result, mt_fault_vector := day_id,
       mt_fault_error_code := ucast reason_code, mt_fault_rip := ucast detail,
       mt_trigger_source := source_val TRANSITION_SOURCE_KERNEL,
       mt_from_mode := mode_u8 current, mt_to_mode := mode_u8 current, mt_requestor_pid := 0\<rparr>)"

fun fate_record_matches_filter :: "mode_transition \<Rightarrow> fate_read_mode_t \<Rightarrow> bool" where
  "fate_record_matches_filter r FATE_READ_ALL = True"
| "fate_record_matches_filter r FATE_READ_TRANSITIONS
     = (mt_record_type r = record_type_val FATE_RECORD_TRANSITION)"
| "fate_record_matches_filter r FATE_READ_FAULTS = (mt_record_type r = record_type_val FATE_RECORD_FAULT)"
| "fate_record_matches_filter r FATE_READ_LATTICE = (mt_record_type r = record_type_val FATE_RECORD_LATTICE)"
| "fate_record_matches_filter r FATE_READ_ATTEST = (mt_record_type r = record_type_val FATE_RECORD_ATTEST)"
| "fate_record_matches_filter r FATE_READ_OTHER = False"

fun history_loop :: "fate_st \<Rightarrow> fate_read_mode_t \<Rightarrow> nat \<Rightarrow> nat list \<Rightarrow> mode_transition list" where
  "history_loop st rm count [] = []"
| "history_loop st rm count (i # is) =
     (if count = 0 then []
      else let rec = ft_history st ! ((ft_head_index st - 1 - i + MODE_HISTORY_SIZE) mod MODE_HISTORY_SIZE) in
        if \<not> fate_record_matches_filter rec rm then history_loop st rm count is
        else rec # history_loop st rm (count - 1) is)"

definition mode_get_history_filtered :: "nat \<Rightarrow> fate_read_mode_t \<Rightarrow> fate_st \<Rightarrow> mode_transition list" where
  "mode_get_history_filtered count rm st =
     history_loop st rm count
       [0 ..< (if ft_head_index st < MODE_HISTORY_SIZE then ft_head_index st else MODE_HISTORY_SIZE)]"

definition mode_get_history :: "nat \<Rightarrow> fate_st \<Rightarrow> mode_transition list" where
  "mode_get_history count st = mode_get_history_filtered count FATE_READ_ALL st"

section \<open>The boot record\<close>

record mode_boot_record_t =
  br_magic :: u8
  br_version :: u8
  br_sequence :: u8
  br_mode :: u8
  br_valid :: u8
  br_checksum :: u8
  br_reserved0 :: u8
  br_reserved1 :: u8

type_synonym cmos = "u8 \<Rightarrow> u8"

definition MODE_BOOT_RECORD_MAGIC :: u8 where "MODE_BOOT_RECORD_MAGIC = 0x4D"
definition MODE_BOOT_RECORD_VERSION :: u8 where "MODE_BOOT_RECORD_VERSION = 0x01"

definition boot_record_default :: mode_boot_record_t where
  "boot_record_default = \<lparr>br_magic = MODE_BOOT_RECORD_MAGIC, br_version = MODE_BOOT_RECORD_VERSION,
     br_sequence = 0, br_mode = 1, br_valid = 0, br_checksum = 0, br_reserved0 = 0, br_reserved1 = 0\<rparr>"

definition boot_record_checksum :: "u8 \<Rightarrow> u8 \<Rightarrow> u8 \<Rightarrow> u8 \<Rightarrow> u8" where
  "boot_record_checksum version sequence mode valid =
     (let c = MODE_BOOT_RECORD_MAGIC XOR version XOR sequence XOR mode XOR valid XOR 0xA5;
          c' = push_bit 3 c OR drop_bit 5 c
      in c' XOR 0x5A)"

text \<open>CMOS registers \<open>0x40\<close> to \<open>0x47\<close>.\<close>

definition boot_record_load_persistent :: "cmos \<Rightarrow> mode_boot_record_t" where
  "boot_record_load_persistent cm = \<lparr>br_magic = cm 0x40, br_version = cm 0x41, br_sequence = cm 0x42,
     br_mode = cm 0x43, br_valid = cm 0x44, br_checksum = cm 0x45, br_reserved0 = cm 0x46,
     br_reserved1 = cm 0x47\<rparr>"

definition boot_record_store_persistent :: "mode_boot_record_t \<Rightarrow> cmos \<Rightarrow> cmos" where
  "boot_record_store_persistent br cm =
     cm(0x40 := br_magic br, 0x41 := br_version br, 0x42 := br_sequence br, 0x43 := br_mode br,
        0x44 := br_valid br, 0x45 := br_checksum br, 0x46 := br_reserved0 br, 0x47 := br_reserved1 br)"

definition boot_record_is_valid :: "mode_boot_record_t \<Rightarrow> bool" where
  "boot_record_is_valid br =
     (if br_magic br \<noteq> MODE_BOOT_RECORD_MAGIC then False
      else if br_version br \<noteq> MODE_BOOT_RECORD_VERSION then False
      else if br_valid br = 0 then False
      else br_checksum br = boot_record_checksum (br_version br) (br_sequence br) (br_mode br) (br_valid br))"

definition boot_record_store_mode ::
    "mode_id_t \<Rightarrow> mode_boot_record_t \<times> cmos \<Rightarrow> mode_boot_record_t \<times> cmos" where
  "boot_record_store_mode m s =
     (case s of (br, cm) \<Rightarrow>
      if mode_val m < mode_val MODE_CASUAL \<or> mode_val m > mode_val MODE_LOCKDOWN then (br, cm)
      else
        let br1 = br\<lparr>br_sequence := br_sequence br + 1, br_mode := mode_u8 m, br_valid := 1\<rparr>;
            br2 = br1\<lparr>br_checksum := boot_record_checksum (br_version br1) (br_sequence br1) (br_mode br1)
                       (br_valid br1)\<rparr>
        in (br2, boot_record_store_persistent br2 cm))"

definition boot_record_load_mode :: "mode_boot_record_t \<Rightarrow> mode_id_t option" where
  "boot_record_load_mode br =
     (if \<not> boot_record_is_valid br then None
      else if unat (br_mode br) < mode_val MODE_CASUAL \<or> unat (br_mode br) > mode_val MODE_LOCKDOWN then None
      else Some (mode_of_val (unat (br_mode br))))"

section \<open>Hashing\<close>

lemma fnv_mult_inject: "x * FNV_PRIME = y * FNV_PRIME \<Longrightarrow> x = y"
proof -
  assume "x * FNV_PRIME = y * FNV_PRIME"
  then have "x * (FNV_PRIME * 0xce965057aff6957b) = y * (FNV_PRIME * 0xce965057aff6957b)"
    by (simp flip: mult.assoc)
  moreover have "FNV_PRIME * 0xce965057aff6957b = 1" by (simp add: FNV_PRIME_def)
  ultimately show "x = y" by simp
qed

lemma fnv_step_inject: "fnv_step b h = fnv_step b h' \<Longrightarrow> h = h'"
  unfolding fnv_step_def by (drule fnv_mult_inject) (rule xor_inject_right)

lemma fnv_step_byte_inject: "fnv_step b h = fnv_step b' h \<Longrightarrow> b = b'"
proof -
  assume "fnv_step b h = fnv_step b' h"
  then have "h XOR ucast b = h XOR ucast b'" unfolding fnv_step_def by (rule fnv_mult_inject)
  then have "ucast b XOR h = (ucast b' XOR h :: u64)" by (simp add: xor.commute)
  then have "(ucast b :: u64) = ucast b'" by (rule xor_inject_right)
  then have eq: "bit (ucast b :: u64) n = bit (ucast b' :: u64) n" for n by (rule arg_cong)
  show "b = b'"
  proof (rule bit_word_eqI)
    fix n assume "n < LENGTH(8)"
    then show "bit b n = bit b' n" using eq[of n] by (simp add: bit_ucast_iff)
  qed
qed

lemma fold_fnv_inject: "fold fnv_step bs h = fold fnv_step bs h' \<Longrightarrow> h = h'"
  by (induction bs arbitrary: h h') (auto dest: fnv_step_inject)

lemma fold_fnv_single_byte:
  assumes "i < length bs" and "b \<noteq> bs ! i"
  shows "fold fnv_step (bs[i := b]) h \<noteq> fold fnv_step bs h"
proof -
  have split: "bs = take i bs @ bs ! i # drop (Suc i) bs" by (rule id_take_nth_drop[OF assms(1)])
  have upd: "bs[i := b] = take i bs @ b # drop (Suc i) bs" by (rule upd_conv_take_nth_drop[OF assms(1)])
  have at: "fold fnv_step bs h
      = fold fnv_step (drop (Suc i) bs) (fnv_step (bs ! i) (fold fnv_step (take i bs) h))"
    by (subst split) simp
  show ?thesis
  proof
    assume "fold fnv_step (bs[i := b]) h = fold fnv_step bs h"
    then have "fold fnv_step (drop (Suc i) bs) (fnv_step b (fold fnv_step (take i bs) h))
        = fold fnv_step (drop (Suc i) bs) (fnv_step (bs ! i) (fold fnv_step (take i bs) h))"
      unfolding upd at by simp
    then have "fnv_step b (fold fnv_step (take i bs) h) = fnv_step (bs ! i) (fold fnv_step (take i bs) h)"
      by (rule fold_fnv_inject)
    then show False using assms(2) fnv_step_byte_inject by blast
  qed
qed

definition hashed_bytes :: "mode_transition \<Rightarrow> u8 list" where
  "hashed_bytes r = record_head_bytes r @ record_tail_bytes r"

lemma record_lengths:
  "length (record_head_bytes r) = 16" "length (record_tail_bytes r) = 56" "length (record_bytes r) = 80"
  by (simp_all add: record_head_bytes_def record_tail_bytes_def record_bytes_def)

lemma fold_upt_nth:
  "b \<le> length p \<Longrightarrow> fold (\<lambda>i. f (p ! i)) [a ..< b] s = fold f (drop a (take b p)) s"
proof -
  assume "b \<le> length p"
  then have "drop a (take b p) = map ((!) p) [a ..< b]"
    by (intro nth_equalityI) auto
  then show ?thesis by (simp add: fold_map o_def)
qed

lemma record_hash_eq:
  "mt_curr_hash (calculate_record_hash r) = fold fnv_step (hashed_bytes r) FNV_OFFSET"
proof -
  let ?p = "record_bytes r"
  let ?f = "\<lambda>i h. if i \<ge> 16 \<and> i < 24 then h else fnv_step (?p ! i) h"
  have split: "[0 ..< 80] = [0 ..< 16] @ [16 ..< 24] @ [24 ..< (80 :: nat)]"
  proof -
    have "[0 ..< 16 + 64] = [0 ..< 16] @ [16 ..< 16 + (64 :: nat)]"
      "[16 ..< 24 + 56] = [16 ..< 24] @ [24 ..< 24 + (56 :: nat)]"
      by (rule upt_add_eq_append; simp)+
    moreover have "(16 :: nat) + 64 = 80" "(24 :: nat) + 56 = 80" by simp_all
    ultimately show ?thesis by (simp only:)
  qed
  have a: "fold ?f [0 ..< 16] h = fold fnv_step (record_head_bytes r) h" for h
  proof -
    have "fold ?f [0 ..< 16] h = fold (\<lambda>i. fnv_step (?p ! i)) [0 ..< 16] h"
      by (rule fold_cong) auto
    also have "\<dots> = fold fnv_step (drop 0 (take 16 ?p)) h"
      by (rule fold_upt_nth) (simp add: record_lengths)
    finally show ?thesis by (simp add: record_bytes_def record_lengths)
  qed
  have b: "fold ?f [16 ..< 24] h = h" for h
    by (rule fold_invariant[where P = "\<lambda>x. x = h"]) auto
  have c: "fold ?f [24 ..< 80] h = fold fnv_step (record_tail_bytes r) h" for h
  proof -
    have "fold ?f [24 ..< 80] h = fold (\<lambda>i. fnv_step (?p ! i)) [24 ..< 80] h"
      by (rule fold_cong) auto
    also have "\<dots> = fold fnv_step (drop 24 (take 80 ?p)) h"
      by (rule fold_upt_nth) (simp add: record_lengths)
    finally show ?thesis by (simp add: record_bytes_def record_lengths)
  qed
  show ?thesis
    unfolding calculate_record_hash_def Let_def split fold_append comp_apply a b c hashed_bytes_def
    by simp
qed

lemma hashed_bytes_curr_hash [simp]: "hashed_bytes (r\<lparr>mt_curr_hash := h\<rparr>) = hashed_bytes r"
  by (simp add: hashed_bytes_def record_head_bytes_def record_tail_bytes_def)

lemma calculate_record_hash_sel:
  "calculate_record_hash r = r\<lparr>mt_curr_hash := fold fnv_step (hashed_bytes r) FNV_OFFSET\<rparr>"
  using record_hash_eq[of r] by (simp add: calculate_record_hash_def Let_def)

section \<open>The ring as a log\<close>

text \<open>
  \<open>fate_rep st log\<close>: \<open>log\<close> is the sequence of all records ever appended, oldest first,
  and the ring holds the last 256 of them.
\<close>

definition fate_rep :: "fate_st \<Rightarrow> mode_transition list \<Rightarrow> bool" where
  "fate_rep st log \<longleftrightarrow> length (ft_history st) = MODE_HISTORY_SIZE \<and> ft_head_index st = length log \<and>
     (\<forall>k<length log. length log \<le> k + MODE_HISTORY_SIZE
        \<longrightarrow> ft_history st ! (k mod MODE_HISTORY_SIZE) = log ! k)"

definition log_chained :: "mode_transition list \<Rightarrow> bool" where
  "log_chained log \<longleftrightarrow> (\<forall>k<length log.
     mt_prev_hash (log ! k) = (if k = 0 then 0 else mt_curr_hash (log ! (k - 1))) \<and>
     mt_curr_hash (log ! k) = fold fnv_step (hashed_bytes (log ! k)) FNV_OFFSET)"

definition linked :: "mode_transition list \<Rightarrow> mode_transition \<Rightarrow> mode_transition" where
  "linked log r = calculate_record_hash
     (r\<lparr>mt_prev_hash := (if log = [] then 0 else mt_curr_hash (last log))\<rparr>)"

lemma mod_window_inject:
  fixes k m n :: nat
  assumes "k mod n = m mod n" and "k < m" and "m < k + n"
  shows False
proof -
  have "n dvd m - k" by (rule iffD1[OF mod_eq_dvd_iff_nat[OF less_imp_le[OF assms(2)]] assms(1)[symmetric]])
  then have "n \<le> m - k" by (rule dvd_imp_le) (use assms(2) in simp)
  then show False using assms(2,3) by linarith
qed

lemma append_rep:
  assumes rep: "fate_rep st log"
  shows "fate_rep (fate_append_record r st) (log @ [linked log r])"
proof -
  let ?n = MODE_HISTORY_SIZE and ?h = "length log"
  have n: "0 < ?n" by (simp add: MODE_HISTORY_SIZE_def)
  have len: "length (ft_history st) = ?n" and head: "ft_head_index st = ?h"
    and at: "\<And>k. k < ?h \<Longrightarrow> ?h \<le> k + ?n \<Longrightarrow> ft_history st ! (k mod ?n) = log ! k"
    using rep by (auto simp: fate_rep_def)
  have prev: "(if ft_head_index st > 0 then mt_curr_hash (ft_history st ! ((ft_head_index st - 1) mod ?n)) else 0)
      = (if log = [] then 0 else mt_curr_hash (last log))"
    using at[of "?h - 1"] n by (auto simp: head last_conv_nth)
  have hist: "ft_history (fate_append_record r st) = (ft_history st)[?h mod ?n := linked log r]"
    using prev by (simp add: fate_append_record_def Let_def head linked_def)
  have keep: "ft_history (fate_append_record r st) ! (k mod ?n) = (log @ [linked log r]) ! k"
    if "k < length (log @ [linked log r])" "length (log @ [linked log r]) \<le> k + ?n" for k
  proof (cases "k = ?h")
    case True
    then show ?thesis using hist len n by simp
  next
    case False
    then have "k mod ?n \<noteq> ?h mod ?n" using mod_window_inject[of k ?n ?h] that by auto
    then show ?thesis using hist at[of k] that False by (simp add: nth_append)
  qed
  then show ?thesis
    using len head hist by (auto simp: fate_rep_def fate_append_record_def Let_def)
qed

lemma append_chained:
  assumes "log_chained log"
  shows "log_chained (log @ [linked log r])"
  unfolding log_chained_def
proof (intro allI impI)
  fix k assume k: "k < length (log @ [linked log r])"
  show "mt_prev_hash ((log @ [linked log r]) ! k)
        = (if k = 0 then 0 else mt_curr_hash ((log @ [linked log r]) ! (k - 1))) \<and>
      mt_curr_hash ((log @ [linked log r]) ! k)
        = fold fnv_step (hashed_bytes ((log @ [linked log r]) ! k)) FNV_OFFSET"
  proof (cases "k = length log")
    case True
    then show ?thesis
      by (cases "log = []") (auto simp: linked_def calculate_record_hash_sel last_conv_nth nth_append)
  next
    case False
    then show ?thesis using assms k by (auto simp: log_chained_def nth_append)
  qed
qed

lemma history_loop_spec:
  assumes "\<And>i. i \<in> set is \<Longrightarrow>
    ft_history st ! ((ft_head_index st - 1 - i + MODE_HISTORY_SIZE) mod MODE_HISTORY_SIZE) = f i"
  shows "history_loop st rm count is
    = take count (filter (\<lambda>r. fate_record_matches_filter r rm) (map f is))"
  using assms by (induction "is" arbitrary: count) (auto simp: Let_def take_Cons')

lemma history_spec:
  assumes rep: "fate_rep st log"
  shows "mode_get_history_filtered count rm st
    = take count (filter (\<lambda>r. fate_record_matches_filter r rm) (take MODE_HISTORY_SIZE (rev log)))"
proof -
  let ?n = MODE_HISTORY_SIZE and ?h = "length log"
  have head: "ft_head_index st = ?h"
    and at: "\<And>k. k < ?h \<Longrightarrow> ?h \<le> k + ?n \<Longrightarrow> ft_history st ! (k mod ?n) = log ! k"
    using rep by (auto simp: fate_rep_def)
  have A: "ft_history st ! ((ft_head_index st - 1 - i + ?n) mod ?n) = rev log ! i"
    if "i \<in> set [0 ..< min ?h ?n]" for i
  proof -
    have i: "i < ?h" "i < ?n" using that by auto
    have "(?h - 1 - i + ?n) mod ?n = (?h - 1 - i) mod ?n" by simp
    moreover have "ft_history st ! ((?h - 1 - i) mod ?n) = log ! (?h - 1 - i)"
      by (rule at) (use i in linarith)+
    ultimately show ?thesis using i(1) by (simp add: head rev_nth)
  qed
  have E1: "history_loop st rm count [0 ..< min ?h ?n]
      = take count (filter (\<lambda>r. fate_record_matches_filter r rm) (map ((!) (rev log)) [0 ..< min ?h ?n]))"
    by (rule history_loop_spec) (rule A)
  have E2: "map ((!) (rev log)) [0 ..< min ?h ?n] = take ?n (rev log)"
    by (intro nth_equalityI) auto
  have E3: "(if ?h < ?n then ?h else ?n) = min ?h ?n" by simp
  show ?thesis unfolding mode_get_history_filtered_def head E3 E1 E2 ..
qed

section \<open>Boot record lemmas\<close>

lemma store_load_persistent: "boot_record_load_persistent (boot_record_store_persistent br cm) = br"
  by (simp add: boot_record_load_persistent_def boot_record_store_persistent_def)

definition storable :: "mode_id_t \<Rightarrow> bool" where
  "storable m \<longleftrightarrow> m = MODE_CASUAL \<or> m = MODE_SECURE \<or> m = MODE_LOCKDOWN"

lemma store_mode_valid:
  fixes cm :: cmos
  assumes "br_magic br = MODE_BOOT_RECORD_MAGIC" "br_version br = MODE_BOOT_RECORD_VERSION" "storable m"
  defines "s' \<equiv> boot_record_store_mode m (br, cm)"
  shows "boot_record_load_mode (boot_record_load_persistent (snd s')) = Some m"
    and "boot_record_load_persistent (snd s') = fst s'"
proof -
  have m: "mode_val m \<in> {1, 2, 3}" "mode_of_val (mode_val m) = m" "unat (mode_u8 m) = mode_val m"
    using assms(3) by (auto simp: storable_def mode_of_val_def mode_u8_def)
  show eq: "boot_record_load_persistent (snd s') = fst s'"
    using m(1) by (auto simp: s'_def boot_record_store_mode_def Let_def store_load_persistent)
  show "boot_record_load_mode (boot_record_load_persistent (snd s')) = Some m"
    unfolding eq using m assms(1,2)
    by (auto simp: s'_def boot_record_store_mode_def Let_def boot_record_load_mode_def boot_record_is_valid_def)
qed

lemma store_mode_magic:
  "br_magic (fst (boot_record_store_mode m s)) = br_magic (fst s)"
  "br_version (fst (boot_record_store_mode m s)) = br_version (fst s)"
  by (cases s; simp add: boot_record_store_mode_def Let_def)+

lemma stores_keep_magic:
  "br_magic (fst (fold boot_record_store_mode ms s)) = br_magic (fst s)"
  by (induction ms arbitrary: s) (simp_all add: store_mode_magic)

lemma rot3_inject:
  fixes c d :: u8
  assumes "push_bit 3 c OR drop_bit 5 c = push_bit 3 d OR drop_bit 5 d"
  shows "c = d"
proof (rule bit_word_eqI)
  fix n assume n: "n < LENGTH(8)"
  have eq: "bit (push_bit 3 c OR drop_bit 5 c) k = bit (push_bit 3 d OR drop_bit 5 d) k" for k
    using assms by (rule arg_cong)
  show "bit c n = bit d n"
  proof (cases "n < 5")
    case True
    then show ?thesis using eq[of "n + 3"] by (auto simp: bit_or_iff bit_push_bit_iff bit_drop_bit_eq dest: bit_imp_le_length)
  next
    case False
    then show ?thesis using eq[of "n - 5"] n
      by (auto simp: bit_or_iff bit_push_bit_iff bit_drop_bit_eq dest: bit_imp_le_length)
  qed
qed

lemma checksum_xor:
  "boot_record_checksum v s m va = boot_record_checksum v' s' m' va'
    \<Longrightarrow> v XOR s XOR m XOR va = v' XOR s' XOR m' XOR va'"
proof -
  define x y :: u8 where "x = v XOR s XOR m XOR va" and "y = v' XOR s' XOR m' XOR va'"
  have c: "MODE_BOOT_RECORD_MAGIC XOR v XOR s XOR m XOR va XOR 0xA5 = x XOR (MODE_BOOT_RECORD_MAGIC XOR 0xA5)"
    "MODE_BOOT_RECORD_MAGIC XOR v' XOR s' XOR m' XOR va' XOR 0xA5 = y XOR (MODE_BOOT_RECORD_MAGIC XOR 0xA5)"
    by (simp_all add: x_def y_def ac_simps)
  assume "boot_record_checksum v s m va = boot_record_checksum v' s' m' va'"
  then have "x XOR (MODE_BOOT_RECORD_MAGIC XOR 0xA5) = y XOR (MODE_BOOT_RECORD_MAGIC XOR 0xA5)"
    unfolding boot_record_checksum_def Let_def c by (rule rot3_inject[OF xor_inject_right])
  then show "v XOR s XOR m XOR va = v' XOR s' XOR m' XOR va'"
    unfolding x_def[symmetric] y_def[symmetric] by (rule xor_inject_right)
qed

section \<open>Properties\<close>

text \<open>
  C30: reading the history returns the log.  When the ring represents the log of all appended
  records, a filtered read of \<open>count\<close> entries returns the newest \<open>count\<close> matching
  records among the last 256, newest first; appending keeps the representation.
\<close>

theorem fate_history_refines_log:
  assumes "fate_rep st log"
  shows "mode_get_history_filtered count rm st
      = take count (filter (\<lambda>r. fate_record_matches_filter r rm) (take MODE_HISTORY_SIZE (rev log)))
    \<and> fate_rep (fate_append_record r st) (log @ [linked log r])"
  using history_spec[OF assms] append_rep[OF assms] by blast

definition sample_fate :: fate_st where
  "sample_fate = \<lparr>ft_history = replicate MODE_HISTORY_SIZE zero_transition, ft_head_index = 0,
     ft_generation_id = 0\<rparr>"

lemma sample_fate_rep: "fate_rep sample_fate []"
  by (simp add: sample_fate_def fate_rep_def)

theorem fate_history_refines_log_witness:
  "mode_get_history 5 (fate_append_record (zero_transition\<lparr>mt_to_mode := 1\<rparr>) sample_fate)
     = [linked [] (zero_transition\<lparr>mt_to_mode := 1\<rparr>)]"
  using fate_history_refines_log[OF append_rep[OF sample_fate_rep]]
  by (simp add: mode_get_history_def MODE_HISTORY_SIZE_def)

text \<open>
  C31: the record hash detects any change of a single byte.  If exactly one of the 72 hashed bytes
  of a record is altered, the stored hash no longer equals the recomputed one.
\<close>

theorem fate_hash_detects_byte_change:
  assumes "hashed_bytes r' = (hashed_bytes r)[i := b]" and "i < 72" and "b \<noteq> hashed_bytes r ! i"
  shows "mt_curr_hash (calculate_record_hash r') \<noteq> mt_curr_hash (calculate_record_hash r)"
  using fold_fnv_single_byte[of i "hashed_bytes r" b] assms
  by (simp add: record_hash_eq hashed_bytes_def record_lengths)

theorem fate_hash_detects_byte_change_witness:
  "mt_curr_hash (calculate_record_hash (zero_transition\<lparr>mt_result_code := 1\<rparr>))
     \<noteq> mt_curr_hash (calculate_record_hash zero_transition)"
  by (rule fate_hash_detects_byte_change[where i = 23 and b = 1]) (code_simp, simp, code_simp)



text \<open>
  C38: a boot record with a wrong magic byte is never repaired.  The record in memory is overwritten
  with what CMOS holds at boot, and storing modes never restores the magic: on a machine whose CMOS
  does not already hold it, no sequence of stored modes ever leaves a valid record.
\<close>

theorem boot_record_never_repaired:
  assumes "cm 0x40 \<noteq> MODE_BOOT_RECORD_MAGIC" and "fold boot_record_store_mode ms
      (boot_record_load_persistent cm, cm) = (br', cm')"
  shows "\<not> boot_record_is_valid br' \<and> boot_record_load_mode br' = None"
proof -
  have "br_magic br' = cm 0x40"
    using stores_keep_magic[of ms "(boot_record_load_persistent cm, cm)"] assms(2)
    by (simp add: boot_record_load_persistent_def)
  then show ?thesis using assms(1) by (simp add: boot_record_load_mode_def boot_record_is_valid_def)
qed

theorem boot_record_never_repaired_witness:
  "\<exists>br' cm'. fold boot_record_store_mode [MODE_SECURE, MODE_LOCKDOWN]
     (boot_record_load_persistent (\<lambda>_. 0xFF), \<lambda>_. 0xFF) = (br', cm') \<and> \<not> boot_record_is_valid br'"
proof -
  obtain br' cm' where run: "fold boot_record_store_mode [MODE_SECURE, MODE_LOCKDOWN]
     (boot_record_load_persistent (\<lambda>_. 0xFF), \<lambda>_. 0xFF) = (br', cm')" by fastforce
  then show ?thesis using boot_record_never_repaired[OF _ run] by (simp add: MODE_BOOT_RECORD_MAGIC_def)
qed

end
