(* ===== verification/Blake3.thy ===== *)
theory Blake3
  imports Reaper_Prelude
begin

text \<open>
  The BLAKE3 implementation of the kernel (\<^verbatim>\<open>src/kernel/blake3/\<close>): the portable
  compression function, chunk states, the subtree and chaining-value-stack machinery and the
  incremental hasher.  \<^verbatim>\<open>size_t\<close> lengths are natural numbers (lengths of the byte lists);
  32-bit state words and the 64-bit chunk counter keep their width.  The chaining-value stack is
  the list of its live 32-byte entries, so \<open>cv_stack_len\<close> is its length.
\<close>

section \<open>Constants\<close>

definition CHUNK_START :: u8 where "CHUNK_START = 1"
definition CHUNK_END :: u8 where "CHUNK_END = 2"
definition PARENT :: u8 where "PARENT = 4"
definition ROOT :: u8 where "ROOT = 8"
definition KEYED_HASH :: u8 where "KEYED_HASH = 16"
definition DERIVE_KEY_CONTEXT :: u8 where "DERIVE_KEY_CONTEXT = 32"
definition DERIVE_KEY_MATERIAL :: u8 where "DERIVE_KEY_MATERIAL = 64"

definition BLAKE3_BLOCK_LEN :: nat where "BLAKE3_BLOCK_LEN = 64"
definition BLAKE3_CHUNK_LEN :: nat where "BLAKE3_CHUNK_LEN = 1024"

lemmas blake3_lens = BLAKE3_BLOCK_LEN_def BLAKE3_CHUNK_LEN_def

definition IV :: "u32 list" where
  "IV = [0x6A09E667, 0xBB67AE85, 0x3C6EF372, 0xA54FF53A, 0x510E527F, 0x9B05688C, 0x1F83D9AB, 0x5BE0CD19]"

definition MSG_SCHEDULE :: "nat list list" where
  "MSG_SCHEDULE =
    [[0, 1, 2, 3, 4, 5, 6, 7, 8, 9, 10, 11, 12, 13, 14, 15],
     [2, 6, 3, 10, 7, 0, 4, 13, 1, 11, 12, 5, 9, 14, 15, 8],
     [3, 4, 10, 12, 13, 2, 7, 14, 6, 5, 9, 0, 11, 15, 8, 1],
     [10, 7, 12, 9, 14, 3, 13, 15, 4, 0, 11, 2, 5, 8, 1, 6],
     [12, 13, 9, 11, 15, 10, 14, 8, 7, 2, 5, 3, 0, 1, 6, 4],
     [9, 14, 11, 5, 8, 12, 15, 1, 13, 3, 0, 10, 2, 6, 4, 7],
     [11, 15, 5, 0, 1, 9, 8, 6, 14, 10, 2, 12, 3, 4, 7, 13]]"

section \<open>Helpers of blake3\_impl.h\<close>

function popcnt_loop :: "u64 \<Rightarrow> nat \<Rightarrow> nat" where
  "popcnt_loop x count = (if x \<noteq> 0 then popcnt_loop (x AND (x - 1)) (count + 1) else count)"
  by pat_completeness auto
termination
proof (relation "measure (\<lambda>(x, count). unat x)")
  fix x :: u64 and count :: nat
  assume x: "x \<noteq> 0"
  have "x AND (x - 1) \<le> x - 1" by (rule word_and_le1)
  also have "x - 1 < x" using x by (simp add: word_less_nat_alt unat_minus_one unat_gt_0)
  finally show "((x AND (x - 1), count + 1), x, count) \<in> measure (\<lambda>(x, count). unat x)"
    by (simp add: word_less_nat_alt)
qed simp

declare popcnt_loop.simps [simp del]

definition popcnt :: "u64 \<Rightarrow> nat" where
  "popcnt x = popcnt_loop x 0"

definition round_down_to_power_of_2 :: "nat \<Rightarrow> nat" where
  "round_down_to_power_of_2 x0 =
     (let x1 = x0 OR drop_bit 1 x0;
          x2 = x1 OR drop_bit 2 x1;
          x3 = x2 OR drop_bit 4 x2;
          x4 = x3 OR drop_bit 8 x3;
          x5 = x4 OR drop_bit 16 x4;
          x6 = x5 OR drop_bit 32 x5
      in x6 - drop_bit 1 x6)"

definition counter_low :: "u64 \<Rightarrow> u32" where "counter_low c = ucast c"
definition counter_high :: "u64 \<Rightarrow> u32" where "counter_high c = ucast (drop_bit 32 c)"

definition load32 :: "u8 list \<Rightarrow> u32" where
  "load32 p = push_bit 0 (ucast (p ! 0)) OR push_bit 8 (ucast (p ! 1))
     OR push_bit 16 (ucast (p ! 2)) OR push_bit 24 (ucast (p ! 3))"

definition load_key_words :: "u8 list \<Rightarrow> u32 list" where
  "load_key_words key = map (\<lambda>i. load32 (drop (i * 4) key)) [0 ..< 8]"

definition store32 :: "u32 \<Rightarrow> u8 list" where
  "store32 w = [ucast (drop_bit 0 w), ucast (drop_bit 8 w), ucast (drop_bit 16 w), ucast (drop_bit 24 w)]"

definition store_cv_words :: "u32 list \<Rightarrow> u8 list" where
  "store_cv_words cv = concat (map store32 cv)"

section \<open>Compression (blake3\_portable.c)\<close>

definition rotr32 :: "u32 \<Rightarrow> nat \<Rightarrow> u32" where
  "rotr32 w c = drop_bit c w OR push_bit (32 - c) w"

definition g :: "u32 list \<Rightarrow> nat \<Rightarrow> nat \<Rightarrow> nat \<Rightarrow> nat \<Rightarrow> u32 \<Rightarrow> u32 \<Rightarrow> u32 list" where
  "g s0 a b c d x y =
     (let s1 = s0[a := s0 ! a + s0 ! b + x];
          s2 = s1[d := rotr32 (s1 ! d XOR s1 ! a) 16];
          s3 = s2[c := s2 ! c + s2 ! d];
          s4 = s3[b := rotr32 (s3 ! b XOR s3 ! c) 12];
          s5 = s4[a := s4 ! a + s4 ! b + y];
          s6 = s5[d := rotr32 (s5 ! d XOR s5 ! a) 8];
          s7 = s6[c := s6 ! c + s6 ! d]
      in s7[b := rotr32 (s7 ! b XOR s7 ! c) 7])"

definition round_fn :: "u32 list \<Rightarrow> nat \<Rightarrow> u32 list \<Rightarrow> u32 list" where
  "round_fn msg r s0 =
     (let sch = MSG_SCHEDULE ! r; m = (\<lambda>i. msg ! (sch ! i));
          s1 = g s0 0 4 8 12 (m 0) (m 1);
          s2 = g s1 1 5 9 13 (m 2) (m 3);
          s3 = g s2 2 6 10 14 (m 4) (m 5);
          s4 = g s3 3 7 11 15 (m 6) (m 7);
          s5 = g s4 0 5 10 15 (m 8) (m 9);
          s6 = g s5 1 6 11 12 (m 10) (m 11);
          s7 = g s6 2 7 8 13 (m 12) (m 13)
      in g s7 3 4 9 14 (m 14) (m 15))"

definition compress_pre :: "u32 list \<Rightarrow> u8 list \<Rightarrow> nat \<Rightarrow> u64 \<Rightarrow> u8 \<Rightarrow> u32 list" where
  "compress_pre cv block block_len counter flags =
     (let block_words = map (\<lambda>i. load32 (drop (4 * i) block)) [0 ..< 16];
          init = take 8 cv @ take 4 IV
                 @ [counter_low counter, counter_high counter, word_of_nat block_len, ucast flags]
      in fold (round_fn block_words) [0 ..< 7] init)"

definition blake3_compress_in_place :: "u32 list \<Rightarrow> u8 list \<Rightarrow> nat \<Rightarrow> u64 \<Rightarrow> u8 \<Rightarrow> u32 list" where
  "blake3_compress_in_place cv block block_len counter flags =
     (let s = compress_pre cv block block_len counter flags
      in map (\<lambda>i. s ! i XOR s ! (i + 8)) [0 ..< 8])"

definition blake3_compress_xof :: "u32 list \<Rightarrow> u8 list \<Rightarrow> nat \<Rightarrow> u64 \<Rightarrow> u8 \<Rightarrow> u8 list" where
  "blake3_compress_xof cv block block_len counter flags =
     (let s = compress_pre cv block block_len counter flags
      in concat (map (\<lambda>i. store32 (s ! i XOR s ! (i + 8))) [0 ..< 8])
         @ concat (map (\<lambda>i. store32 (s ! (i + 8) XOR cv ! i)) [0 ..< 8]))"

definition blake3_xof_many :: "u32 list \<Rightarrow> u8 list \<Rightarrow> nat \<Rightarrow> u64 \<Rightarrow> u8 \<Rightarrow> nat \<Rightarrow> u8 list" where
  "blake3_xof_many cv block block_len counter flags outblocks =
     concat (map (\<lambda>i. blake3_compress_xof cv block block_len (counter + word_of_nat i) flags) [0 ..< outblocks])"

fun hash_one_loop :: "nat \<Rightarrow> u8 list \<Rightarrow> u64 \<Rightarrow> u8 \<Rightarrow> u8 \<Rightarrow> u8 \<Rightarrow> u32 list \<Rightarrow> u32 list" where
  "hash_one_loop 0 input counter flags flags_end block_flags cv = cv"
| "hash_one_loop (Suc n) input counter flags flags_end block_flags cv =
     hash_one_loop n (drop BLAKE3_BLOCK_LEN input) counter flags flags_end flags
       (blake3_compress_in_place cv (take BLAKE3_BLOCK_LEN input) BLAKE3_BLOCK_LEN counter
         (if n = 0 then block_flags OR flags_end else block_flags))"

definition hash_one_portable ::
    "u8 list \<Rightarrow> nat \<Rightarrow> u32 list \<Rightarrow> u64 \<Rightarrow> u8 \<Rightarrow> u8 \<Rightarrow> u8 \<Rightarrow> u8 list" where
  "hash_one_portable input blocks key counter flags flags_start flags_end =
     store_cv_words (hash_one_loop blocks input counter flags flags_end (flags OR flags_start) key)"

fun blake3_hash_many ::
    "u8 list list \<Rightarrow> nat \<Rightarrow> u32 list \<Rightarrow> u64 \<Rightarrow> bool \<Rightarrow> u8 \<Rightarrow> u8 \<Rightarrow> u8 \<Rightarrow> u8 list" where
  "blake3_hash_many [] blocks key counter inc flags flags_start flags_end = []"
| "blake3_hash_many (i # is) blocks key counter inc flags flags_start flags_end =
     hash_one_portable i blocks key counter flags flags_start flags_end
     @ blake3_hash_many is blocks key (if inc then counter + 1 else counter) inc flags flags_start flags_end"

section \<open>Chunk states (blake3.c)\<close>

record blake3_chunk_state =
  cs_cv :: "u32 list"
  cs_chunk_counter :: u64
  cs_buf :: "u8 list"
  cs_buf_len :: nat
  cs_blocks_compressed :: nat
  cs_flags :: u8

definition chunk_state_init :: "u32 list \<Rightarrow> u8 \<Rightarrow> blake3_chunk_state" where
  "chunk_state_init key flags = \<lparr>cs_cv = key, cs_chunk_counter = 0,
     cs_buf = replicate BLAKE3_BLOCK_LEN 0, cs_buf_len = 0, cs_blocks_compressed = 0, cs_flags = flags\<rparr>"

definition chunk_state_reset :: "u32 list \<Rightarrow> u64 \<Rightarrow> blake3_chunk_state \<Rightarrow> blake3_chunk_state" where
  "chunk_state_reset key chunk_counter cs = cs\<lparr>cs_cv := key, cs_chunk_counter := chunk_counter,
     cs_blocks_compressed := 0, cs_buf := replicate BLAKE3_BLOCK_LEN 0, cs_buf_len := 0\<rparr>"

definition chunk_state_len :: "blake3_chunk_state \<Rightarrow> nat" where
  "chunk_state_len cs = BLAKE3_BLOCK_LEN * cs_blocks_compressed cs + cs_buf_len cs"

definition chunk_state_fill_buf :: "u8 list \<Rightarrow> blake3_chunk_state \<Rightarrow> nat \<times> blake3_chunk_state" where
  "chunk_state_fill_buf input cs =
     (let want = BLAKE3_BLOCK_LEN - cs_buf_len cs;
          n = (if want > length input then length input else want)
      in (n, cs\<lparr>cs_buf := splice (cs_buf cs) (cs_buf_len cs) (take n input),
                cs_buf_len := cs_buf_len cs + n\<rparr>))"

definition chunk_state_maybe_start_flag :: "blake3_chunk_state \<Rightarrow> u8" where
  "chunk_state_maybe_start_flag cs = (if cs_blocks_compressed cs = 0 then CHUNK_START else 0)"

record output_t =
  out_input_cv :: "u32 list"
  out_counter :: u64
  out_block :: "u8 list"
  out_block_len :: nat
  out_flags :: u8

definition make_output :: "u32 list \<Rightarrow> u8 list \<Rightarrow> nat \<Rightarrow> u64 \<Rightarrow> u8 \<Rightarrow> output_t" where
  "make_output input_cv block block_len counter flags =
     \<lparr>out_input_cv = input_cv, out_counter = counter, out_block = block,
      out_block_len = block_len, out_flags = flags\<rparr>"

definition output_chaining_value :: "output_t \<Rightarrow> u8 list" where
  "output_chaining_value out =
     store_cv_words (blake3_compress_in_place (out_input_cv out) (out_block out) (out_block_len out)
       (out_counter out) (out_flags out))"

definition output_root_bytes :: "output_t \<Rightarrow> u64 \<Rightarrow> nat \<Rightarrow> u8 list" where
  "output_root_bytes out seek out_len =
     (if out_len = 0 then [] else
      let xof = (\<lambda>ctr. blake3_compress_xof (out_input_cv out) (out_block out) (out_block_len out) ctr
                   (out_flags out OR ROOT));
          ctr0 = seek div 64;
          off = unat (seek mod 64);
          bytes = (if out_len > 64 - off then 64 - off else out_len);
          part1 = (if off \<noteq> 0 then take bytes (drop off (xof ctr0)) else []);
          len1 = (if off \<noteq> 0 then out_len - bytes else out_len);
          ctr1 = (if off \<noteq> 0 then ctr0 + 1 else ctr0);
          part2 = (if len1 div 64 \<noteq> 0
                   then blake3_xof_many (out_input_cv out) (out_block out) (out_block_len out) ctr1
                          (out_flags out OR ROOT) (len1 div 64) else []);
          ctr2 = ctr1 + word_of_nat (len1 div 64);
          part3 = (if len1 mod 64 \<noteq> 0 then take (len1 mod 64) (xof ctr2) else [])
      in part1 @ part2 @ part3)"

definition compress_block :: "u8 list \<Rightarrow> blake3_chunk_state \<Rightarrow> blake3_chunk_state" where
  "compress_block block cs =
     cs\<lparr>cs_cv := blake3_compress_in_place (cs_cv cs) block BLAKE3_BLOCK_LEN (cs_chunk_counter cs)
                  (cs_flags cs OR chunk_state_maybe_start_flag cs),
        cs_blocks_compressed := cs_blocks_compressed cs + 1\<rparr>"

function chunk_state_blocks :: "u8 list \<Rightarrow> blake3_chunk_state \<Rightarrow> u8 list \<times> blake3_chunk_state" where
  "chunk_state_blocks input cs =
     (if length input > BLAKE3_BLOCK_LEN
      then chunk_state_blocks (drop BLAKE3_BLOCK_LEN input) (compress_block (take BLAKE3_BLOCK_LEN input) cs)
      else (input, cs))"
  by pat_completeness auto
termination by (relation "measure (\<lambda>(input, cs). length input)") (auto simp: blake3_lens)

declare chunk_state_blocks.simps [simp del]

definition chunk_state_update :: "u8 list \<Rightarrow> blake3_chunk_state \<Rightarrow> blake3_chunk_state" where
  "chunk_state_update input cs =
     (let (input1, cs1) =
        (if cs_buf_len cs > 0 then
           let (n, cs') = chunk_state_fill_buf input cs; input' = drop n input in
           if length input' > 0
           then (input', (compress_block (cs_buf cs') cs')
                   \<lparr>cs_buf_len := 0, cs_buf := replicate BLAKE3_BLOCK_LEN 0\<rparr>)
           else (input', cs')
         else (input, cs));
        (input2, cs2) = chunk_state_blocks input1 cs1
      in snd (chunk_state_fill_buf input2 cs2))"

definition chunk_state_output :: "blake3_chunk_state \<Rightarrow> output_t" where
  "chunk_state_output cs =
     make_output (cs_cv cs) (cs_buf cs) (cs_buf_len cs) (cs_chunk_counter cs)
       (cs_flags cs OR chunk_state_maybe_start_flag cs OR CHUNK_END)"

definition parent_output :: "u8 list \<Rightarrow> u32 list \<Rightarrow> u8 \<Rightarrow> output_t" where
  "parent_output block key flags = make_output key block BLAKE3_BLOCK_LEN 0 (flags OR PARENT)"

definition left_subtree_len :: "nat \<Rightarrow> nat" where
  "left_subtree_len input_len =
     round_down_to_power_of_2 ((input_len - 1) div BLAKE3_CHUNK_LEN) * BLAKE3_CHUNK_LEN"

section \<open>Subtrees\<close>

lemma or_nat_bound: "x < 2 ^ n \<Longrightarrow> x OR drop_bit k x < (2 :: nat) ^ n"
proof -
  assume x: "x < 2 ^ n"
  then have "drop_bit k x < 2 ^ n" by (simp add: drop_bit_eq_div le_less_trans[OF div_le_dividend])
  then show ?thesis using x by (metis take_bit_nat_eq_self_iff take_bit_or)
qed

lemma or_nat_ge: "x \<le> x OR (y :: nat)"
proof -
  have "int x \<le> int x OR int y" by (rule or_greater_eq) simp
  then show ?thesis by (metis of_nat_or_eq of_nat_le_iff)
qed

lemma round_down_bounds:
  assumes "0 < x"
  shows "1 \<le> round_down_to_power_of_2 x" and "round_down_to_power_of_2 x \<le> x"
proof -
  obtain m where m: "2 ^ m \<le> x" "x < 2 ^ Suc m"
    using ex_power_ivl1[of 2 x] assms by auto
  define smear where "smear k y = y OR drop_bit k y" for k and y :: nat
  have sm: "2 ^ m \<le> smear k y \<and> smear k y < 2 ^ Suc m" if "2 ^ m \<le> y" "y < 2 ^ Suc m" for k y
    using or_nat_bound[OF that(2), of k] or_nat_ge[of y "drop_bit k y"] that by (simp add: smear_def)
  define x6 where "x6 = smear 32 (smear 16 (smear 8 (smear 4 (smear 2 (smear 1 x)))))"
  have "2 ^ m \<le> x6 \<and> x6 < 2 ^ Suc m" unfolding x6_def using sm m by metis
  moreover have r: "round_down_to_power_of_2 x = x6 - x6 div 2"
    by (simp add: round_down_to_power_of_2_def x6_def smear_def Let_def drop_bit_Suc)
  ultimately show "1 \<le> round_down_to_power_of_2 x" "round_down_to_power_of_2 x \<le> x"
    using m zero_less_power[of "2::nat" m] by auto
qed

lemma left_subtree_bounds:
  assumes "BLAKE3_CHUNK_LEN < n"
  shows "0 < left_subtree_len n" and "left_subtree_len n < n"
proof -
  let ?c = "(n - 1) div 1024"
  have "0 < ?c" using assms by (simp add: blake3_lens div_greater_zero_iff)
  note b = round_down_bounds[OF this]
  have "round_down_to_power_of_2 ?c * 1024 \<le> ?c * 1024" using b(2) by simp
  also have "\<dots> \<le> n - 1" by simp
  finally have "left_subtree_len n \<le> n - 1" by (simp add: left_subtree_len_def blake3_lens)
  then show "left_subtree_len n < n" using assms by linarith
  show "0 < left_subtree_len n" using b(1) by (simp add: left_subtree_len_def blake3_lens)
qed

text \<open>With a SIMD degree of one, at most one whole chunk is hashed, and then a partial one.\<close>

definition compress_chunks_parallel :: "u8 list \<Rightarrow> u32 list \<Rightarrow> u64 \<Rightarrow> u8 \<Rightarrow> nat \<times> u8 list" where
  "compress_chunks_parallel input key chunk_counter flags =
     (let chunks = (if length input \<ge> BLAKE3_CHUNK_LEN then [take BLAKE3_CHUNK_LEN input] else []);
          pos = BLAKE3_CHUNK_LEN * length chunks;
          out = (if length chunks > 0
                 then blake3_hash_many chunks (BLAKE3_CHUNK_LEN div BLAKE3_BLOCK_LEN) key chunk_counter
                        True flags CHUNK_START CHUNK_END else [])
      in if length input > pos
         then let cs = chunk_state_update (drop pos input)
                (chunk_state_init key flags)\<lparr>cs_chunk_counter := chunk_counter + word_of_nat (length chunks)\<rparr>
              in (length chunks + 1, out @ output_chaining_value (chunk_state_output cs))
         else (length chunks, out))"

definition compress_parents_parallel :: "u8 list \<Rightarrow> nat \<Rightarrow> u32 list \<Rightarrow> u8 \<Rightarrow> nat \<times> u8 list" where
  "compress_parents_parallel cvs num key flags =
     (let p = min 2 (num div 2);
          parents = map (\<lambda>i. take 64 (drop (64 * i) cvs)) [0 ..< p];
          out = (if p > 0 then blake3_hash_many parents 1 key 0 False (flags OR PARENT) 0 0 else [])
      in if num > 2 * p then (p + 1, out @ take 32 (drop (64 * p) cvs)) else (p, out))"

function blake3_compress_subtree_wide :: "u8 list \<Rightarrow> u32 list \<Rightarrow> u64 \<Rightarrow> u8 \<Rightarrow> nat \<times> u8 list" where
  "blake3_compress_subtree_wide input key chunk_counter flags =
     (if length input \<le> BLAKE3_CHUNK_LEN then compress_chunks_parallel input key chunk_counter flags
      else
        let left_len = left_subtree_len (length input);
            degree = (if left_len > BLAKE3_CHUNK_LEN then 2 else 1);
            (left_n, left_out) = blake3_compress_subtree_wide (take left_len input) key chunk_counter flags;
            (right_n, right_out) = blake3_compress_subtree_wide (drop left_len input) key
               (chunk_counter + word_of_nat (left_len div BLAKE3_CHUNK_LEN)) flags;
            cv_array = splice (splice (replicate 128 0) 0 left_out) (degree * 32) right_out
        in if left_n = 1 then (2, take 64 cv_array)
           else compress_parents_parallel cv_array (left_n + right_n) key flags)"
  by pat_completeness auto
termination
  by (relation "measure (\<lambda>(input, key, c, f). length input)")
     (use left_subtree_bounds in \<open>auto simp: not_le min_def intro!: diff_less elim: less_trans[rotated]\<close>)

declare blake3_compress_subtree_wide.simps [simp del]

function parent_node_loop :: "nat \<Rightarrow> u8 list \<Rightarrow> u32 list \<Rightarrow> u8 \<Rightarrow> u8 list" where
  "parent_node_loop num cvs key flags =
     (if num > 2
      then let (num', out) = compress_parents_parallel cvs num key flags
           in parent_node_loop num' (splice cvs 0 (take (num' * 32) out)) key flags
      else cvs)"
  by pat_completeness auto
termination
  by (relation "measure (\<lambda>(num, cvs, key, flags). num)")
     (auto simp: compress_parents_parallel_def Let_def min_def split: if_splits)

declare parent_node_loop.simps [simp del]

definition compress_subtree_to_parent_node :: "u8 list \<Rightarrow> u32 list \<Rightarrow> u64 \<Rightarrow> u8 \<Rightarrow> u8 list" where
  "compress_subtree_to_parent_node input key chunk_counter flags =
     (let (num, cvs) = blake3_compress_subtree_wide input key chunk_counter flags
      in take 64 (parent_node_loop num cvs key flags))"

section \<open>The incremental hasher\<close>

record blake3_hasher =
  hs_key :: "u32 list"
  hs_chunk :: blake3_chunk_state
  hs_cv_stack :: "u8 list list"

definition hasher_init_base :: "u32 list \<Rightarrow> u8 \<Rightarrow> blake3_hasher" where
  "hasher_init_base key flags = \<lparr>hs_key = key, hs_chunk = chunk_state_init key flags, hs_cv_stack = []\<rparr>"

definition blake3_hasher_init :: blake3_hasher where
  "blake3_hasher_init = hasher_init_base IV 0"

definition blake3_hasher_init_keyed :: "u8 list \<Rightarrow> blake3_hasher" where
  "blake3_hasher_init_keyed key = hasher_init_base (load_key_words key) KEYED_HASH"

function merge_cv_loop :: "nat \<Rightarrow> u32 list \<Rightarrow> u8 \<Rightarrow> u8 list list \<Rightarrow> u8 list list" where
  "merge_cv_loop post key flags stack =
     (if length stack > post \<and> length stack \<ge> 2
      then let n = length stack; parent_node = stack ! (n - 2) @ stack ! (n - 1) in
        merge_cv_loop post key flags
          (take (n - 2) stack @ [output_chaining_value (parent_output parent_node key flags)])
      else stack)"
  by pat_completeness auto
termination
  by (relation "measure (\<lambda>(post, key, flags, stack). length stack)") auto

declare merge_cv_loop.simps [simp del]

definition hasher_merge_cv_stack :: "u64 \<Rightarrow> blake3_hasher \<Rightarrow> blake3_hasher" where
  "hasher_merge_cv_stack total_len h =
     h\<lparr>hs_cv_stack := merge_cv_loop (popcnt total_len) (hs_key h) (cs_flags (hs_chunk h)) (hs_cv_stack h)\<rparr>"

definition hasher_push_cv :: "u8 list \<Rightarrow> u64 \<Rightarrow> blake3_hasher \<Rightarrow> blake3_hasher" where
  "hasher_push_cv new_cv chunk_counter h =
     (let h1 = hasher_merge_cv_stack chunk_counter h
      in h1\<lparr>hs_cv_stack := hs_cv_stack h1 @ [new_cv]\<rparr>)"

function shrink_subtree :: "nat \<Rightarrow> nat \<Rightarrow> nat" where
  "shrink_subtree subtree_len count_so_far =
     (if (subtree_len - 1) AND count_so_far \<noteq> 0
      then shrink_subtree (subtree_len div 2) count_so_far else subtree_len)"
  by pat_completeness auto
termination
proof (relation "measure fst")
  fix n c :: nat
  assume "(n - 1) AND c \<noteq> 0"
  then have "n \<noteq> 0" by (cases n) auto
  then show "((n div 2, c), n, c) \<in> measure fst" by simp
qed simp

declare shrink_subtree.simps [simp del]

lemma shrink_subtree_bounds:
  "0 < n \<Longrightarrow> 0 < shrink_subtree n c \<and> shrink_subtree n c \<le> n"
proof (induction n c rule: shrink_subtree.induct)
  case (1 n c)
  show ?case
  proof (cases "(n - 1) AND c = 0")
    case True
    then show ?thesis using 1 by (subst (1 2) shrink_subtree.simps) simp
  next
    case False
    then have "n \<noteq> 1" by auto
    then have "0 < n div 2" using 1(2) by auto
    then have "0 < shrink_subtree (n div 2) c \<and> shrink_subtree (n div 2) c \<le> n div 2"
      using 1(1)[OF False] by simp
    then show ?thesis using False by (subst (1 2) shrink_subtree.simps) auto
  qed
qed

definition hash_one_chunk :: "u8 list \<Rightarrow> blake3_hasher \<Rightarrow> blake3_hasher" where
  "hash_one_chunk input h =
     (let cs = chunk_state_update input
           ((chunk_state_init (hs_key h) (cs_flags (hs_chunk h)))
              \<lparr>cs_chunk_counter := cs_chunk_counter (hs_chunk h)\<rparr>)
      in hasher_push_cv (output_chaining_value (chunk_state_output cs)) (cs_chunk_counter cs) h)"

definition hash_subtree :: "u8 list \<Rightarrow> u64 \<Rightarrow> blake3_hasher \<Rightarrow> blake3_hasher" where
  "hash_subtree input subtree_chunks h =
     (let c = cs_chunk_counter (hs_chunk h);
          cv_pair = compress_subtree_to_parent_node input (hs_key h) c (cs_flags (hs_chunk h))
      in hasher_push_cv (take 32 (drop 32 cv_pair)) (c + subtree_chunks div 2)
           (hasher_push_cv (take 32 cv_pair) c h))"

function update_subtrees :: "u8 list \<Rightarrow> blake3_hasher \<Rightarrow> u8 list \<times> blake3_hasher" where
  "update_subtrees input h =
     (if length input > BLAKE3_CHUNK_LEN then
        let count_so_far = unat (cs_chunk_counter (hs_chunk h) * word_of_nat BLAKE3_CHUNK_LEN);
            subtree_len = shrink_subtree (round_down_to_power_of_2 (length input)) count_so_far;
            subtree_chunks = word_of_nat (subtree_len div BLAKE3_CHUNK_LEN);
            h1 = (if subtree_len \<le> BLAKE3_CHUNK_LEN then hash_one_chunk (take subtree_len input) h
                  else hash_subtree (take subtree_len input) subtree_chunks h);
            h2 = h1\<lparr>hs_chunk := (hs_chunk h1)
                   \<lparr>cs_chunk_counter := cs_chunk_counter (hs_chunk h1) + subtree_chunks\<rparr>\<rparr>
        in update_subtrees (drop subtree_len input) h2
      else (input, h))"
  by pat_completeness auto
termination
proof (relation "measure (\<lambda>(input, h). length input)", goal_cases)
  case (2 input h count_so_far subtree_len subtree_chunks h1 h2)
  have "0 < length input" using 2(1) by (auto simp: blake3_lens)
  then have "0 < subtree_len"
    using shrink_subtree_bounds round_down_bounds(1) 2(3) by (metis less_le_trans zero_less_one)
  then show ?case using \<open>0 < length input\<close> by simp
qed simp

declare update_subtrees.simps [simp del]

definition blake3_hasher_update :: "u8 list \<Rightarrow> blake3_hasher \<Rightarrow> blake3_hasher" where
  "blake3_hasher_update input h =
     (if length input = 0 then h
      else
        let len = chunk_state_len (hs_chunk h);
            want = BLAKE3_CHUNK_LEN - len;
            n = (if want > length input then length input else want);
            h1 = h\<lparr>hs_chunk := chunk_state_update (take n input) (hs_chunk h)\<rparr>;
            rest = drop n input
        in if len > 0 \<and> length rest = 0 then h1
           else
             let (input1, h2) =
               (if len > 0 then
                  let cv = output_chaining_value (chunk_state_output (hs_chunk h1));
                      h' = hasher_push_cv cv (cs_chunk_counter (hs_chunk h1)) h1
                  in (rest, h'\<lparr>hs_chunk := chunk_state_reset (hs_key h')
                              (cs_chunk_counter (hs_chunk h') + 1) (hs_chunk h')\<rparr>)
                else (input, h));
               (input2, h3) = update_subtrees input1 h2
             in if length input2 > 0
                then hasher_merge_cv_stack (cs_chunk_counter (hs_chunk h3))
                       (h3\<lparr>hs_chunk := chunk_state_update input2 (hs_chunk h3)\<rparr>)
                else h3)"

fun fold_parents :: "u8 list list \<Rightarrow> u32 list \<Rightarrow> u8 \<Rightarrow> output_t \<Rightarrow> output_t" where
  "fold_parents [] key flags out = out"
| "fold_parents (cv # cvs) key flags out =
     fold_parents cvs key flags (parent_output (cv @ output_chaining_value out) key flags)"

definition blake3_hasher_finalize_seek :: "u64 \<Rightarrow> nat \<Rightarrow> blake3_hasher \<Rightarrow> u8 list" where
  "blake3_hasher_finalize_seek seek out_len h =
     (if out_len = 0 then []
      else
        let stack = hs_cv_stack h; flags = cs_flags (hs_chunk h) in
        if length stack = 0 then output_root_bytes (chunk_state_output (hs_chunk h)) seek out_len
        else
          let (remaining, out) =
            (if chunk_state_len (hs_chunk h) > 0
             then (length stack, chunk_state_output (hs_chunk h))
             else (length stack - 2,
                   parent_output (stack ! (length stack - 2) @ stack ! (length stack - 1)) (hs_key h) flags))
          in output_root_bytes (fold_parents (rev (take remaining stack)) (hs_key h) flags out) seek out_len)"

definition blake3_hasher_finalize :: "nat \<Rightarrow> blake3_hasher \<Rightarrow> u8 list" where
  "blake3_hasher_finalize out_len h = blake3_hasher_finalize_seek 0 out_len h"

definition blake3_hasher_init_derive_key_raw :: "u8 list \<Rightarrow> blake3_hasher" where
  "blake3_hasher_init_derive_key_raw ctxt =
     (let ctxt_key = blake3_hasher_finalize 32
            (blake3_hasher_update ctxt (hasher_init_base IV DERIVE_KEY_CONTEXT))
      in hasher_init_base (load_key_words ctxt_key) DERIVE_KEY_MATERIAL)"

definition blake3_hasher_reset :: "blake3_hasher \<Rightarrow> blake3_hasher" where
  "blake3_hasher_reset h = h\<lparr>hs_chunk := chunk_state_reset (hs_key h) 0 (hs_chunk h), hs_cv_stack := []\<rparr>"

section \<open>Incremental hashing of one chunk\<close>

text \<open>The chunk state that consuming \<open>bytes\<close> in one go would give.\<close>

function chunk_of :: "blake3_chunk_state \<Rightarrow> u8 list \<Rightarrow> blake3_chunk_state" where
  "chunk_of cs bytes =
     (if length bytes > BLAKE3_BLOCK_LEN
      then chunk_of (compress_block (take BLAKE3_BLOCK_LEN bytes) cs) (drop BLAKE3_BLOCK_LEN bytes)
      else cs\<lparr>cs_buf := bytes @ replicate (BLAKE3_BLOCK_LEN - length bytes) 0, cs_buf_len := length bytes\<rparr>)"
  by pat_completeness auto
termination by (relation "measure (\<lambda>(cs, bytes). length bytes)") (auto simp: blake3_lens)

declare chunk_of.simps [simp del]

definition empty_buf :: "blake3_chunk_state \<Rightarrow> bool" where
  "empty_buf cs \<longleftrightarrow> cs_buf cs = replicate BLAKE3_BLOCK_LEN 0 \<and> cs_buf_len cs = 0"

lemma empty_buf_compress [simp]: "empty_buf (compress_block b cs) = empty_buf cs"
  by (simp add: empty_buf_def compress_block_def)

lemma chunk_of_Nil: "empty_buf cs \<Longrightarrow> chunk_of cs [] = cs"
  by (subst chunk_of.simps) (simp add: empty_buf_def)

lemma chunk_blocks_fill:
  assumes "empty_buf cs"
  shows "(let (input', cs') = chunk_state_blocks input cs in snd (chunk_state_fill_buf input' cs'))
    = chunk_of cs input"
  using assms
proof (induction input cs rule: chunk_state_blocks.induct)
  case (1 input cs)
  show ?case
  proof (cases "length input > BLAKE3_BLOCK_LEN")
    case True
    then show ?thesis
      using 1 by (subst chunk_state_blocks.simps, subst chunk_of.simps) simp
  next
    case False
    then show ?thesis
      using 1(2) by (subst chunk_state_blocks.simps, subst chunk_of.simps)
        (simp add: chunk_state_fill_buf_def Let_def splice_def empty_buf_def not_less)
  qed
qed

lemma chunk_update_empty:
  "empty_buf cs \<Longrightarrow> chunk_state_update input cs = chunk_of cs input"
  using chunk_blocks_fill[of cs input] by (simp add: chunk_state_update_def empty_buf_def)

lemma chunk_update_small:
  assumes cs: "empty_buf cs" and b: "length bytes \<le> BLAKE3_BLOCK_LEN"
  shows "chunk_state_update input (chunk_of cs bytes) = chunk_of cs (bytes @ input)"
proof (cases "bytes = []")
  case True
  then show ?thesis using cs by (simp add: chunk_of_Nil chunk_update_empty)
next
  case ne: False
  let ?cs = "chunk_of cs bytes" and ?n = "BLAKE3_BLOCK_LEN - length bytes"
  have cs': "?cs = cs\<lparr>cs_buf := bytes @ replicate ?n 0, cs_buf_len := length bytes\<rparr>"
    using b by (subst chunk_of.simps) simp
  show ?thesis
  proof (cases "length input > ?n")
    case False
    then have sp: "splice (cs_buf ?cs) (length bytes) input
        = bytes @ input @ replicate (BLAKE3_BLOCK_LEN - length (bytes @ input)) 0"
      using b by (simp add: cs' splice_def)
    have fill: "chunk_state_fill_buf input ?cs = (length input,
        cs\<lparr>cs_buf := bytes @ input @ replicate (BLAKE3_BLOCK_LEN - length (bytes @ input)) 0,
           cs_buf_len := length (bytes @ input)\<rparr>)"
      using False sp unfolding chunk_state_fill_buf_def Let_def by (auto simp: cs')
    have "chunk_of cs (bytes @ input) =
        cs\<lparr>cs_buf := bytes @ input @ replicate (BLAKE3_BLOCK_LEN - length (bytes @ input)) 0,
           cs_buf_len := length (bytes @ input)\<rparr>"
      using False b by (subst chunk_of.simps) auto
    then show ?thesis
      using ne fill by (simp add: chunk_state_update_def chunk_state_blocks.simps[of "[]"]
          chunk_state_fill_buf_def splice_def cs' split: prod.split)
  next
    case True
    define blk where "blk = bytes @ take ?n input"
    define rest where "rest = drop ?n input"
    have fill: "chunk_state_fill_buf input ?cs = (?n, cs\<lparr>cs_buf := blk, cs_buf_len := BLAKE3_BLOCK_LEN\<rparr>)"
      using True b by (simp add: chunk_state_fill_buf_def Let_def cs' splice_def blk_def)
    have blk: "blk = take BLAKE3_BLOCK_LEN (bytes @ input)" and rest: "rest = drop BLAKE3_BLOCK_LEN (bytes @ input)"
      using b by (simp_all add: blk_def rest_def)
    have eq: "(compress_block blk (cs\<lparr>cs_buf := blk, cs_buf_len := BLAKE3_BLOCK_LEN\<rparr>))
        \<lparr>cs_buf_len := 0, cs_buf := replicate BLAKE3_BLOCK_LEN 0\<rparr> = compress_block blk cs"
      using cs by (simp add: compress_block_def empty_buf_def chunk_state_maybe_start_flag_def)
    have "chunk_state_update input ?cs = chunk_of (compress_block blk cs) rest"
      using ne fill eq True chunk_blocks_fill[of "compress_block blk cs" rest] cs
      by (simp add: chunk_state_update_def cs' rest_def)
    also have "\<dots> = chunk_of cs (bytes @ input)"
      using True blk rest by (subst (2) chunk_of.simps) auto
    finally show ?thesis .
  qed
qed

lemma chunk_update_append:
  "empty_buf cs \<Longrightarrow> chunk_state_update input (chunk_of cs bytes) = chunk_of cs (bytes @ input)"
proof (induction cs bytes rule: chunk_of.induct)
  case (1 cs bytes)
  show ?case
  proof (cases "length bytes > BLAKE3_BLOCK_LEN")
    case True
    then have "chunk_of cs (bytes @ input)
        = chunk_of (compress_block (take BLAKE3_BLOCK_LEN bytes) cs) (drop BLAKE3_BLOCK_LEN bytes @ input)"
      by (subst chunk_of.simps) simp
    moreover have "chunk_of cs bytes
        = chunk_of (compress_block (take BLAKE3_BLOCK_LEN bytes) cs) (drop BLAKE3_BLOCK_LEN bytes)"
      using True by (subst chunk_of.simps) simp
    ultimately show ?thesis using 1 True by simp
  next
    case False
    then show ?thesis using chunk_update_small 1(2) by simp
  qed
qed

lemma chunk_of_len:
  "chunk_state_len (chunk_of cs bytes) = BLAKE3_BLOCK_LEN * cs_blocks_compressed cs + length bytes"
proof (induction cs bytes rule: chunk_of.induct)
  case (1 cs bytes)
  then show ?case
    by (subst chunk_of.simps) (auto simp: chunk_state_len_def compress_block_def)
qed

lemma chunk_of_counter: "cs_chunk_counter (chunk_of cs bytes) = cs_chunk_counter cs"
proof (induction cs bytes rule: chunk_of.induct)
  case (1 cs bytes)
  then show ?case by (subst chunk_of.simps) (auto simp: compress_block_def)
qed

definition one_chunk :: "u8 list \<Rightarrow> blake3_hasher" where
  "one_chunk bytes = \<lparr>hs_key = IV, hs_chunk = chunk_of (chunk_state_init IV 0) bytes, hs_cv_stack = []\<rparr>"

lemma init_one_chunk: "blake3_hasher_init = one_chunk []"
  by (simp add: blake3_hasher_init_def hasher_init_base_def one_chunk_def chunk_of_Nil empty_buf_def
      chunk_state_init_def)

lemma update_one_chunk:
  assumes "length bytes + length input \<le> BLAKE3_CHUNK_LEN"
  shows "blake3_hasher_update input (one_chunk bytes) = one_chunk (bytes @ input)"
proof -
  let ?cs = "chunk_state_init IV 0"
  have e: "empty_buf ?cs" by (simp add: empty_buf_def chunk_state_init_def)
  have len: "chunk_state_len (chunk_of ?cs bytes) = length bytes"
    by (simp add: chunk_of_len chunk_state_init_def)
  have upd: "chunk_state_update input (chunk_of ?cs bytes) = chunk_of ?cs (bytes @ input)"
    by (rule chunk_update_append[OF e])
  show ?thesis
  proof (cases "bytes = []")
    case False
    have n: "(if BLAKE3_CHUNK_LEN - length bytes > length input then length input
        else BLAKE3_CHUNK_LEN - length bytes) = length input" using assms by auto
    show ?thesis
      using False len upd n by (auto simp: blake3_hasher_update_def one_chunk_def Let_def)
  next
    case True
    have "update_subtrees input (one_chunk []) = (input, one_chunk [])"
      using assms by (subst update_subtrees.simps) simp
    moreover have "popcnt 0 = 0" by (simp add: popcnt_def popcnt_loop.simps)
    moreover have "merge_cv_loop n key flags [] = []" for n key flags
      by (subst merge_cv_loop.simps) simp
    ultimately show ?thesis
      using True len upd
      by (simp add: blake3_hasher_update_def one_chunk_def Let_def hasher_merge_cv_stack_def)
  qed
qed

lemma updates_one_chunk:
  assumes "length bytes + length (concat pieces) \<le> BLAKE3_CHUNK_LEN"
  shows "fold blake3_hasher_update pieces (one_chunk bytes) = one_chunk (bytes @ concat pieces)"
  using assms by (induction pieces arbitrary: bytes) (simp_all add: update_one_chunk)

text \<open>Reference definition of the hash of at most one chunk.\<close>

definition blake3_ref :: "u8 list \<Rightarrow> u8 list" where
  "blake3_ref bytes = output_root_bytes (chunk_state_output (chunk_of (chunk_state_init IV 0) bytes)) 0 32"

lemma hasher_stream:
  assumes "length (concat pieces) \<le> BLAKE3_CHUNK_LEN"
  shows "blake3_hasher_finalize 32 (fold blake3_hasher_update pieces blake3_hasher_init)
    = blake3_ref (concat pieces)"
  using updates_one_chunk[of "[]" pieces] assms
  by (simp add: init_one_chunk blake3_hasher_finalize_def blake3_hasher_finalize_seek_def
      blake3_ref_def one_chunk_def)

lemma length_blake3_ref: "length (blake3_ref bytes) = 32"
proof -
  have "length (store32 w) = 4" for w by (simp add: store32_def)
  then have "length (blake3_compress_xof cv b l c f) = 64" for cv b l c f
    by (simp add: blake3_compress_xof_def length_concat Let_def o_def sum_list_triv)
  then show ?thesis by (simp add: blake3_ref_def output_root_bytes_def Let_def)
qed

section \<open>Properties\<close>

text \<open>
  C24: for inputs of at most one chunk, which covers every record and seed the kernel hashes, the
  incremental hasher computes the one-pass reference however the input is cut into pieces, and
  the digest has 32 bytes.
\<close>

theorem blake3_incremental_is_reference:
  assumes "length (concat pieces) \<le> BLAKE3_CHUNK_LEN"
  shows "blake3_hasher_finalize 32 (fold blake3_hasher_update pieces blake3_hasher_init)
      = blake3_ref (concat pieces)
    \<and> length (blake3_ref (concat pieces)) = 32"
  using hasher_stream[OF assms] length_blake3_ref by simp

theorem blake3_incremental_is_reference_witness:
  "blake3_hasher_finalize 32 (fold blake3_hasher_update [[1, 2], [], [3]] blake3_hasher_init)
     = blake3_ref [1, 2, 3]"
  using blake3_incremental_is_reference[of "[[1, 2], [], [3]]"] by (simp add: blake3_lens)

end
