(* ===== verification/Audit_Ring.thy ===== *)
theory Audit_Ring
  imports Mode_Types Blake3
begin

text \<open>
  The hash-chained audit lattice (\<^verbatim>\<open>src/kernel/audit.c\<close>,
  \<^verbatim>\<open>src/kernel/include/audit.h\<close>): a single-producer ring of 1024 records, each of which
  commits to its predecessor through BLAKE3.

  What \<open>audit_strike\<close> reads of the scheduler (the global tick, and the mode and thread id
  of the current thread when it has an owner) is the record \<open>audit_ctx\<close>.  The metadata
  union is its \<open>raw[4]\<close> view.
\<close>

section \<open>Data\<close>

definition AUDIT_LATTICE_CAPACITY :: nat where "AUDIT_LATTICE_CAPACITY = 1024"
definition AUDIT_RESERVED_SLOTS :: nat where "AUDIT_RESERVED_SLOTS = 2"
definition AUDIT_WRITE_THRESHOLD :: nat where
  "AUDIT_WRITE_THRESHOLD = AUDIT_LATTICE_CAPACITY - AUDIT_RESERVED_SLOTS"

lemmas audit_consts = AUDIT_LATTICE_CAPACITY_def AUDIT_RESERVED_SLOTS_def AUDIT_WRITE_THRESHOLD_def

datatype audit_event_t = AUDIT_EVENT_NONE | AUDIT_EVENT_THREAD_CREATE | AUDIT_EVENT_THREAD_DESTROY
  | AUDIT_EVENT_PHASE_SHIFT | AUDIT_EVENT_CAP_DENIED | AUDIT_EVENT_CAP_MINT | AUDIT_EVENT_SCHED_STALL
  | AUDIT_EVENT_OVERFLOW | AUDIT_EVENT_IOMMU_INVENTORY | AUDIT_EVENT_IOMMU_DEGRADED
  | AUDIT_EVENT_IOMMU_UNIT_DISCOVERED | AUDIT_EVENT_IOMMU_TOPOLOGY_REJECT

datatype audit_result_t = AUDIT_RESULT_OK | AUDIT_RESULT_DENIED | AUDIT_RESULT_ERROR

fun audit_event_val :: "audit_event_t \<Rightarrow> u16" where
  "audit_event_val AUDIT_EVENT_NONE = 0"
| "audit_event_val AUDIT_EVENT_THREAD_CREATE = 1"
| "audit_event_val AUDIT_EVENT_THREAD_DESTROY = 2"
| "audit_event_val AUDIT_EVENT_PHASE_SHIFT = 3"
| "audit_event_val AUDIT_EVENT_CAP_DENIED = 4"
| "audit_event_val AUDIT_EVENT_CAP_MINT = 5"
| "audit_event_val AUDIT_EVENT_SCHED_STALL = 6"
| "audit_event_val AUDIT_EVENT_OVERFLOW = 7"
| "audit_event_val AUDIT_EVENT_IOMMU_INVENTORY = 8"
| "audit_event_val AUDIT_EVENT_IOMMU_DEGRADED = 9"
| "audit_event_val AUDIT_EVENT_IOMMU_UNIT_DISCOVERED = 10"
| "audit_event_val AUDIT_EVENT_IOMMU_TOPOLOGY_REJECT = 11"

fun audit_result_val :: "audit_result_t \<Rightarrow> u16" where
  "audit_result_val AUDIT_RESULT_OK = 0"
| "audit_result_val AUDIT_RESULT_DENIED = 1"
| "audit_result_val AUDIT_RESULT_ERROR = 2"

type_synonym audit_meta_t = "u64 list"

definition zero_meta :: audit_meta_t where "zero_meta = [0, 0, 0, 0]"

definition sched_meta :: "u32 \<Rightarrow> u32 \<Rightarrow> audit_meta_t" where
  "sched_meta tid auth_status = [push_bit 32 (ucast auth_status) OR ucast tid, 0, 0, 0]"

definition cap_meta :: "u64 \<Rightarrow> u64 \<Rightarrow> audit_meta_t" where
  "cap_meta cap_addr rights = [cap_addr, rights, 0, 0]"

record audit_record_t =
  ar_timestamp :: u64
  ar_prev_hash :: "u8 list"
  ar_actor_id :: u64
  ar_target_id :: u64
  ar_event_type :: u16
  ar_result_code :: u16
  ar_gap_seq :: u32
  ar_metadata :: audit_meta_t
  ar_hash :: "u8 list"

record audit_lattice_t =
  al_head :: nat
  al_tail :: nat
  al_overflow_count :: u32
  al_records :: "audit_record_t list"

record audit_st =
  au_lattice :: "audit_lattice_t option"
  au_root_system_seed :: u64
  au_current_fate_seed :: u64
  au_last_hash :: "u8 list"

record audit_ctx =
  ax_tick :: u64
  ax_actor :: "(mode_id_t \<times> u32) option"

section \<open>Operations\<close>

definition blake3_hash_pieces :: "u8 list list \<Rightarrow> u8 list" where
  "blake3_hash_pieces pieces =
     blake3_hasher_finalize 32 (fold blake3_hasher_update pieces blake3_hasher_init)"

definition zero_record :: audit_record_t where
  "zero_record = \<lparr>ar_timestamp = 0, ar_prev_hash = replicate 32 0, ar_actor_id = 0, ar_target_id = 0,
     ar_event_type = 0, ar_result_code = 0, ar_gap_seq = 0, ar_metadata = zero_meta,
     ar_hash = replicate 32 0\<rparr>"

text \<open>
  \<open>lattice_ok\<close> is the outcome of the \<open>kmalloc\<close> call, \<open>rdrand\<close> the outcomes of
  the successive \<open>rdrand\<close> instructions, \<open>tsc\<close> the time stamp counter.  The result
  \<open>None\<close> is the panic.
\<close>

definition audit_seed :: "bool \<Rightarrow> u64 option list \<Rightarrow> u64 \<Rightarrow> u64" where
  "audit_seed has_rdrand rdrand tsc =
     (if has_rdrand then
        (case dropWhile (\<lambda>r. r = None) (take 10 rdrand) of
           Some v # _ \<Rightarrow> v | _ \<Rightarrow> tsc)
      else tsc)"

definition audit_init ::
    "bool \<Rightarrow> bool \<Rightarrow> u64 option list \<Rightarrow> u64 \<Rightarrow> audit_st \<Rightarrow> audit_st option" where
  "audit_init lattice_ok has_rdrand rdrand tsc st =
     (if \<not> lattice_ok then None
      else let seed = audit_seed has_rdrand rdrand tsc in
        Some (st\<lparr>au_lattice := Some \<lparr>al_head = 0, al_tail = 0, al_overflow_count = 0,
                   al_records = replicate AUDIT_LATTICE_CAPACITY zero_record\<rparr>,
                 au_root_system_seed := seed, au_current_fate_seed := seed,
                 au_last_hash := blake3_hash_pieces [le_bytes 8 seed]\<rparr>))"

definition u64_of_bytes :: "u8 list \<Rightarrow> u64" where
  "u64_of_bytes bs = fold (\<lambda>i w. w OR push_bit (8 * i) (ucast (bs ! i))) [0 ..< 8] 0"

definition audit_rotate_seed :: "mode_id_t \<Rightarrow> u64 \<Rightarrow> audit_st \<Rightarrow> audit_st" where
  "audit_rotate_seed reality_id epoch st =
     st\<lparr>au_current_fate_seed := u64_of_bytes (blake3_hash_pieces
          [le_bytes 8 (au_root_system_seed st), le_bytes 4 (word_of_nat (mode_val reality_id) :: u32),
           le_bytes 8 epoch])\<rparr>"

text \<open>What the record hash covers, in the order of the \<open>blake3_hasher_update\<close> calls.\<close>

definition record_pieces :: "u64 \<Rightarrow> audit_record_t \<Rightarrow> u8 list list" where
  "record_pieces seed r =
     [ar_prev_hash r, le_bytes 8 (ar_timestamp r), le_bytes 8 (ar_actor_id r), le_bytes 8 (ar_target_id r),
      le_bytes 2 (ar_event_type r), le_bytes 2 (ar_result_code r), le_bytes 4 (ar_gap_seq r),
      concat (map (le_bytes 8) (ar_metadata r)), le_bytes 8 seed]"

definition audit_distance :: "audit_lattice_t \<Rightarrow> nat" where
  "audit_distance al =
     (if al_tail al \<ge> al_head al then al_tail al - al_head al
      else AUDIT_LATTICE_CAPACITY - al_head al + al_tail al)"

definition actor_id :: "audit_ctx \<Rightarrow> u64" where
  "actor_id cx =
     (case ax_actor cx of
        Some (mode, tid) \<Rightarrow> push_bit 48 (word_of_nat (mode_val mode)) OR ucast tid
      | None \<Rightarrow> 0)"

text \<open>The part of \<open>audit_strike\<close> after the threshold test: write one record, or count it as lost.\<close>

definition audit_write ::
    "audit_ctx \<Rightarrow> audit_event_t \<Rightarrow> audit_result_t \<Rightarrow> u64 \<Rightarrow> audit_meta_t \<Rightarrow> audit_lattice_t
      \<Rightarrow> audit_st \<Rightarrow> audit_st" where
  "audit_write cx ev res target meta al st =
     (let next_tail = (al_tail al + 1) mod AUDIT_LATTICE_CAPACITY in
      if next_tail = al_head al
      then st\<lparr>au_lattice := Some (al\<lparr>al_overflow_count := al_overflow_count al + 1\<rparr>)\<rparr>
      else
        let r0 = \<lparr>ar_timestamp = ax_tick cx, ar_prev_hash = au_last_hash st, ar_actor_id = actor_id cx,
                  ar_target_id = target, ar_event_type = audit_event_val ev,
                  ar_result_code = audit_result_val res, ar_gap_seq = al_overflow_count al,
                  ar_metadata = meta, ar_hash = ar_hash (al_records al ! al_tail al)\<rparr>;
            h = blake3_hash_pieces (record_pieces (au_current_fate_seed st) r0)
        in st\<lparr>au_lattice := Some (al\<lparr>al_records := (al_records al)[al_tail al := r0\<lparr>ar_hash := h\<rparr>],
                                   al_tail := next_tail, al_overflow_count := 0\<rparr>),
              au_last_hash := h\<rparr>)"

definition audit_strike ::
    "audit_ctx \<Rightarrow> audit_event_t \<Rightarrow> audit_result_t \<Rightarrow> u64 \<Rightarrow> audit_meta_t \<Rightarrow> audit_st \<Rightarrow> audit_st" where
  "audit_strike cx ev res target meta st =
     (case au_lattice st of
        None \<Rightarrow> st
      | Some al \<Rightarrow>
        let distance = audit_distance al in
        if ev \<noteq> AUDIT_EVENT_OVERFLOW \<and> distance \<ge> AUDIT_WRITE_THRESHOLD then
          let st1 = (if al_overflow_count al = 0
                     then audit_write cx AUDIT_EVENT_OVERFLOW AUDIT_RESULT_ERROR (word_of_nat distance)
                            zero_meta al st
                     else st)
          in case au_lattice st1 of
               None \<Rightarrow> st1
             | Some al1 \<Rightarrow> st1\<lparr>au_lattice := Some (al1\<lparr>al_overflow_count := al_overflow_count al1 + 1\<rparr>)\<rparr>
        else audit_write cx ev res target meta al st)"

section \<open>Invariant and the abstract log\<close>

definition record_hash_ok :: "audit_record_t \<Rightarrow> bool" where
  "record_hash_ok r \<longleftrightarrow> length (ar_prev_hash r) = 32 \<and> length (ar_metadata r) = 4 \<and>
     (\<exists>seed. ar_hash r = blake3_ref (concat (record_pieces seed r)))"

text \<open>The unread records, oldest first.\<close>

definition pending :: "audit_lattice_t \<Rightarrow> audit_record_t list" where
  "pending al = map (\<lambda>k. al_records al ! ((al_head al + k) mod AUDIT_LATTICE_CAPACITY)) [0 ..< audit_distance al]"

definition chained :: "audit_record_t list \<Rightarrow> u8 list \<Rightarrow> bool" where
  "chained rs last_hash \<longleftrightarrow> (\<forall>r\<in>set rs. record_hash_ok r) \<and>
     (\<forall>i. Suc i < length rs \<longrightarrow> ar_prev_hash (rs ! Suc i) = ar_hash (rs ! i)) \<and>
     (rs \<noteq> [] \<longrightarrow> last_hash = ar_hash (last rs)) \<and> length last_hash = 32"

definition audit_inv :: "audit_st \<Rightarrow> bool" where
  "audit_inv st \<longleftrightarrow>
     (case au_lattice st of
        None \<Rightarrow> True
      | Some al \<Rightarrow> al_head al < AUDIT_LATTICE_CAPACITY \<and> al_tail al < AUDIT_LATTICE_CAPACITY \<and>
          length (al_records al) = AUDIT_LATTICE_CAPACITY \<and> chained (pending al) (au_last_hash st))"

lemma pending_overflow_count [simp]: "pending (al\<lparr>al_overflow_count := n\<rparr>) = pending al"
  by (simp add: pending_def audit_distance_def)

lemma hash_pieces_ref:
  "length (concat pieces) \<le> BLAKE3_CHUNK_LEN \<Longrightarrow> blake3_hash_pieces pieces = blake3_ref (concat pieces)"
  by (simp add: blake3_hash_pieces_def hasher_stream)

lemma record_pieces_length:
  "length (ar_prev_hash r) = 32 \<Longrightarrow> length (ar_metadata r) = 4 \<Longrightarrow> length (concat (record_pieces s r)) = 104"
proof -
  have "length (concat (map (le_bytes 8) ms)) = 8 * length ms" for ms :: "u64 list"
    by (induction ms) auto
  then show "length (ar_prev_hash r) = 32 \<Longrightarrow> length (ar_metadata r) = 4 \<Longrightarrow> ?thesis"
    by (simp add: record_pieces_def)
qed

lemma distance_mod:
  assumes "al_head al < AUDIT_LATTICE_CAPACITY" "al_tail al < AUDIT_LATTICE_CAPACITY"
  shows "audit_distance al < AUDIT_LATTICE_CAPACITY"
    and "(al_head al + audit_distance al) mod AUDIT_LATTICE_CAPACITY = al_tail al"
  using assms by (auto simp: audit_distance_def)

lemma distance_advance:
  assumes "al_head al < AUDIT_LATTICE_CAPACITY" "al_tail al < AUDIT_LATTICE_CAPACITY"
    and "(al_tail al + 1) mod AUDIT_LATTICE_CAPACITY \<noteq> al_head al"
  shows "audit_distance (al\<lparr>al_records := rs, al_tail := (al_tail al + 1) mod AUDIT_LATTICE_CAPACITY,
      al_overflow_count := n\<rparr>) = Suc (audit_distance al)"
  using assms by (auto simp: audit_distance_def audit_consts mod_Suc split: if_splits)

lemma pending_append:
  assumes "al_head al < AUDIT_LATTICE_CAPACITY" "al_tail al < AUDIT_LATTICE_CAPACITY"
    and "length (al_records al) = AUDIT_LATTICE_CAPACITY"
    and full: "(al_tail al + 1) mod AUDIT_LATTICE_CAPACITY \<noteq> al_head al"
  shows "pending (al\<lparr>al_records := (al_records al)[al_tail al := r],
      al_tail := (al_tail al + 1) mod AUDIT_LATTICE_CAPACITY, al_overflow_count := n\<rparr>) = pending al @ [r]"
proof -
  note D = distance_mod[OF assms(1,2)] and A = distance_advance[OF assms(1,2,4)]
  have "(al_head al + k) mod AUDIT_LATTICE_CAPACITY \<noteq> al_tail al" if "k < audit_distance al" for k
    using that D assms(1,2) unfolding audit_distance_def audit_consts
    by (auto split: if_splits simp: mod_if)
  then have "al_tail al \<noteq> (al_head al + k) mod AUDIT_LATTICE_CAPACITY" if "k < audit_distance al" for k
    using that by metis
  then show ?thesis
    using D assms(2,3) unfolding pending_def A by auto
qed


lemma chained_snoc:
  assumes "chained rs h" and "record_hash_ok r" and "rs \<noteq> [] \<Longrightarrow> ar_prev_hash r = h"
    and "length (ar_hash r) = 32"
  shows "chained (rs @ [r]) (ar_hash r)"
  unfolding chained_def
proof (intro conjI ballI allI impI)
  fix i assume i: "Suc i < length (rs @ [r])"
  show "ar_prev_hash ((rs @ [r]) ! Suc i) = ar_hash ((rs @ [r]) ! i)"
  proof (cases "Suc i = length rs")
    case True
    then have "rs \<noteq> []" "i = length rs - 1" by auto
    then show ?thesis using assms(1,3) True by (auto simp: chained_def nth_append last_conv_nth)
  next
    case False
    then show ?thesis using i assms(1) by (auto simp: chained_def nth_append)
  qed
qed (use assms in \<open>auto simp: chained_def\<close>)

text \<open>One write: the ring gains exactly the new record, or only the loss counter moves.\<close>

lemma audit_write_inv:
  fixes cx :: audit_ctx and ev :: audit_event_t and res :: audit_result_t and target :: u64
  assumes inv: "audit_inv st" and al: "au_lattice st = Some al" and meta: "length meta = 4"
  defines "st' \<equiv> audit_write cx ev res target meta al st"
  shows "audit_inv st' \<and> (\<exists>al'. au_lattice st' = Some al' \<and> al_head al' = al_head al \<and>
    (if (al_tail al + 1) mod AUDIT_LATTICE_CAPACITY = al_head al
     then pending al' = pending al \<and> al_overflow_count al' = al_overflow_count al + 1
     else al_overflow_count al' = 0 \<and> (\<exists>r. pending al' = pending al @ [r] \<and>
       ar_timestamp r = ax_tick cx \<and> ar_prev_hash r = au_last_hash st \<and> ar_actor_id r = actor_id cx \<and>
       ar_target_id r = target \<and> ar_event_type r = audit_event_val ev \<and>
       ar_result_code r = audit_result_val res \<and> ar_gap_seq r = al_overflow_count al \<and>
       ar_metadata r = meta \<and>
       ar_hash r = blake3_ref (concat (record_pieces (au_current_fate_seed st) r)))))"
proof (cases "(al_tail al + 1) mod AUDIT_LATTICE_CAPACITY = al_head al")
  case True
  then show ?thesis using inv al by (simp add: st'_def audit_write_def audit_inv_def)
next
  case False
  define r0 where "r0 = \<lparr>ar_timestamp = ax_tick cx, ar_prev_hash = au_last_hash st, ar_actor_id = actor_id cx,
                  ar_target_id = target, ar_event_type = audit_event_val ev,
                  ar_result_code = audit_result_val res, ar_gap_seq = al_overflow_count al,
                  ar_metadata = meta, ar_hash = ar_hash (al_records al ! al_tail al)\<rparr>"
  define h where "h = blake3_hash_pieces (record_pieces (au_current_fate_seed st) r0)"
  define r where "r = r0\<lparr>ar_hash := h\<rparr>"
  define al' where "al' = al\<lparr>al_records := (al_records al)[al_tail al := r],
      al_tail := (al_tail al + 1) mod AUDIT_LATTICE_CAPACITY, al_overflow_count := 0\<rparr>"
  have bounds: "al_head al < AUDIT_LATTICE_CAPACITY" "al_tail al < AUDIT_LATTICE_CAPACITY"
      "length (al_records al) = AUDIT_LATTICE_CAPACITY" and ch: "chained (pending al) (au_last_hash st)"
    using inv al by (auto simp: audit_inv_def)
  have st': "st' = st\<lparr>au_lattice := Some al', au_last_hash := h\<rparr>"
    using False by (simp add: st'_def audit_write_def Let_def r0_def h_def r_def al'_def)
  have same: "record_pieces s r = record_pieces s r0" for s by (simp add: record_pieces_def r_def)
  have "length (ar_prev_hash r0) = 32" using ch by (simp add: r0_def chained_def)
  then have "length (concat (record_pieces s r0)) \<le> BLAKE3_CHUNK_LEN" for s
    using record_pieces_length[of r0 s] meta by (simp add: r0_def blake3_lens)
  then have hr: "h = blake3_ref (concat (record_pieces (au_current_fate_seed st) r))"
    unfolding same h_def by (rule hash_pieces_ref)
  have rf: "ar_timestamp r = ax_tick cx" "ar_prev_hash r = au_last_hash st" "ar_actor_id r = actor_id cx"
    "ar_target_id r = target" "ar_event_type r = audit_event_val ev" "ar_result_code r = audit_result_val res"
    "ar_gap_seq r = al_overflow_count al" "ar_metadata r = meta" "ar_hash r = h"
    by (simp_all add: r_def r0_def)
  have pa: "pending al' = pending al @ [r]" unfolding al'_def by (rule pending_append[OF bounds False])
  have ok: "record_hash_ok r"
    unfolding record_hash_ok_def using hr ch meta by (auto simp: r_def r0_def chained_def)
  have "length h = 32" unfolding hr by (rule length_blake3_ref)
  then have "chained (pending al') h"
    unfolding pa using chained_snoc[OF ch ok] by (simp add: r_def r0_def)
  then have "audit_inv st'" using bounds by (simp add: st' audit_inv_def al'_def audit_consts)
  then show ?thesis
    using False pa rf hr by (auto simp: st' al'_def)
qed

lemma audit_strike_cases:
  assumes "au_lattice st = Some al"
  shows "audit_strike cx ev res target meta st =
    (if ev \<noteq> AUDIT_EVENT_OVERFLOW \<and> audit_distance al \<ge> AUDIT_WRITE_THRESHOLD then
       (let st1 = (if al_overflow_count al = 0
                     then audit_write cx AUDIT_EVENT_OVERFLOW AUDIT_RESULT_ERROR
                            (word_of_nat (audit_distance al)) zero_meta al st
                     else st)
        in case au_lattice st1 of
             None \<Rightarrow> st1
           | Some al1 \<Rightarrow> st1\<lparr>au_lattice := Some (al1\<lparr>al_overflow_count := al_overflow_count al1 + 1\<rparr>)\<rparr>)
     else audit_write cx ev res target meta al st)"
  using assms by (simp add: audit_strike_def)

lemma bump_overflow_inv:
  "audit_inv st \<Longrightarrow> au_lattice st = Some al
    \<Longrightarrow> audit_inv (st\<lparr>au_lattice := Some (al\<lparr>al_overflow_count := n\<rparr>)\<rparr>)"
  by (simp add: audit_inv_def)

lemma audit_strike_inv:
  assumes inv: "audit_inv st" and al: "au_lattice st = Some al" and meta: "length meta = 4"
  shows "audit_inv (audit_strike cx ev res target meta st) \<and>
    (\<exists>al' new. au_lattice (audit_strike cx ev res target meta st) = Some al' \<and>
       pending al' = pending al @ new \<and> length new \<le> 1)"
proof (cases "ev \<noteq> AUDIT_EVENT_OVERFLOW \<and> audit_distance al \<ge> AUDIT_WRITE_THRESHOLD")
  case False
  then show ?thesis
    using audit_write_inv[OF inv al meta, of cx ev res target]
    unfolding audit_strike_cases[OF al] by (auto split: if_splits)
next
  case True
  show ?thesis
  proof (cases "al_overflow_count al = 0")
    case False
    then show ?thesis
      using True inv al bump_overflow_inv[OF inv al] by (simp add: audit_strike_cases[OF al])
  next
    case zero: True
    define st1 where "st1 = audit_write cx AUDIT_EVENT_OVERFLOW AUDIT_RESULT_ERROR
        (word_of_nat (audit_distance al)) zero_meta al st"
    have "length zero_meta = 4" by (simp add: zero_meta_def)
    note W = audit_write_inv[OF inv al this, of cx AUDIT_EVENT_OVERFLOW AUDIT_RESULT_ERROR
        "word_of_nat (audit_distance al)", folded st1_def]
    obtain al1 new where W1: "audit_inv st1" "au_lattice st1 = Some al1" "pending al1 = pending al @ new"
        "length new \<le> 1"
      using W by (auto split: if_splits)
    show ?thesis
      using True zero W1 bump_overflow_inv[OF W1(1,2)]
      by (simp add: audit_strike_cases[OF al] st1_def[symmetric])
  qed
qed

text \<open>Two records with the same fields up to the hash have the same bytes, and conversely.\<close>

lemma concat_le_bytes_inject:
  fixes xs ys :: "u64 list"
  shows "length xs = length ys \<Longrightarrow> concat (map (le_bytes 8) xs) = concat (map (le_bytes 8) ys) \<Longrightarrow> xs = ys"
proof (induction xs ys rule: list_induct2)
  case (Cons x xs y ys)
  then have "le_bytes 8 x = le_bytes 8 y" "concat (map (le_bytes 8) xs) = concat (map (le_bytes 8) ys)" by auto
  then show ?case using Cons.IH le_bytes_inject[of 8 x y] by simp
qed simp

lemma record_bytes_inject:
  assumes "concat (record_pieces s r) = concat (record_pieces s' r')"
    and "length (ar_prev_hash r) = 32" "length (ar_prev_hash r') = 32"
    and "length (ar_metadata r) = 4" "length (ar_metadata r') = 4"
  shows "s = s' \<and> r\<lparr>ar_hash := h\<rparr> = r'\<lparr>ar_hash := h\<rparr>"
proof -
  have m: "length (concat (map (le_bytes 8) ms)) = 8 * length ms" for ms :: "u64 list"
    by (induction ms) auto
  have eqs: "ar_prev_hash r = ar_prev_hash r'" "le_bytes 8 (ar_timestamp r) = le_bytes 8 (ar_timestamp r')"
    "le_bytes 8 (ar_actor_id r) = le_bytes 8 (ar_actor_id r')"
    "le_bytes 8 (ar_target_id r) = le_bytes 8 (ar_target_id r')"
    "le_bytes 2 (ar_event_type r) = le_bytes 2 (ar_event_type r')"
    "le_bytes 2 (ar_result_code r) = le_bytes 2 (ar_result_code r')"
    "le_bytes 4 (ar_gap_seq r) = le_bytes 4 (ar_gap_seq r')"
    "concat (map (le_bytes 8) (ar_metadata r)) = concat (map (le_bytes 8) (ar_metadata r'))"
    "le_bytes 8 s = le_bytes 8 s'"
    using assms by (auto simp: record_pieces_def m)
  then have "ar_metadata r = ar_metadata r'" using concat_le_bytes_inject assms(4,5) by metis
  with eqs show ?thesis by (auto dest!: le_bytes_inject)
qed

lemma tamper_collision:
  assumes "record_hash_ok r" "record_hash_ok r'" "ar_hash r = ar_hash r'"
    and diff: "r\<lparr>ar_hash := []\<rparr> \<noteq> r'\<lparr>ar_hash := []\<rparr>"
  shows "\<exists>x y. x \<noteq> y \<and> length x = 104 \<and> length y = 104 \<and> blake3_ref x = blake3_ref y"
proof -
  obtain s s' where h: "ar_hash r = blake3_ref (concat (record_pieces s r))"
      "ar_hash r' = blake3_ref (concat (record_pieces s' r'))"
    and l: "length (ar_prev_hash r) = 32" "length (ar_metadata r) = 4"
      "length (ar_prev_hash r') = 32" "length (ar_metadata r') = 4"
    using assms(1,2) unfolding record_hash_ok_def by blast
  have "concat (record_pieces s r) \<noteq> concat (record_pieces s' r')"
    using record_bytes_inject[of s r s' r' "[]"] l diff by blast
  then show ?thesis using h assms(3) record_pieces_length l by metis
qed

section \<open>Any sequence of audit calls\<close>

datatype audit_call =
    Strike audit_ctx audit_event_t audit_result_t u64 audit_meta_t
  | Rotate mode_id_t u64

fun audit_step :: "audit_call \<Rightarrow> audit_st \<Rightarrow> audit_st" where
  "audit_step (Strike cx ev res target meta) st = audit_strike cx ev res target meta st"
| "audit_step (Rotate m epoch) st = audit_rotate_seed m epoch st"

fun call_ok :: "audit_call \<Rightarrow> bool" where
  "call_ok (Strike cx ev res target meta) \<longleftrightarrow> length meta = 4"
| "call_ok (Rotate m epoch) \<longleftrightarrow> True"

lemma audit_step_inv:
  assumes inv: "audit_inv st" and al: "au_lattice st = Some al" and ok: "call_ok c"
  shows "audit_inv (audit_step c st) \<and>
    (\<exists>al' new. au_lattice (audit_step c st) = Some al' \<and> pending al' = pending al @ new)"
proof (cases c)
  case (Strike cx ev res target meta)
  then show ?thesis using audit_strike_inv[OF inv al, of meta cx ev res target] ok by auto
next
  case (Rotate m epoch)
  then show ?thesis using inv al by (auto simp: audit_rotate_seed_def audit_inv_def)
qed

lemma audit_run_inv:
  assumes "audit_inv st" and "au_lattice st = Some al" and "\<forall>c\<in>set cs. call_ok c"
  shows "audit_inv (fold audit_step cs st) \<and>
    (\<exists>al' new. au_lattice (fold audit_step cs st) = Some al' \<and> pending al' = pending al @ new)"
  using assms
proof (induction cs arbitrary: st al)
  case (Cons c cs)
  obtain al1 new where s1: "audit_inv (audit_step c st)" "au_lattice (audit_step c st) = Some al1"
      "pending al1 = pending al @ new"
    using audit_step_inv[OF Cons.prems(1,2), of c] Cons.prems(3) by auto
  from Cons.IH[OF s1(1,2)] Cons.prems(3) s1(3) show ?case by auto
qed auto

lemma audit_init_inv:
  assumes "audit_init ok has_rdrand rdrand tsc st0 = Some st"
  shows "audit_inv st \<and> (\<exists>al. au_lattice st = Some al \<and> pending al = [])"
proof -
  have "length (blake3_hash_pieces [le_bytes 8 (s :: u64)]) = 32" for s
    using hash_pieces_ref[of "[le_bytes 8 s]"] by (simp add: blake3_lens length_blake3_ref)
  then show ?thesis
    using assms by (auto simp: audit_init_def Let_def audit_inv_def pending_def audit_distance_def
        audit_consts chained_def split: if_splits)
qed

lemma audit_pending_bound:
  assumes "audit_inv st" and "au_lattice st = Some al"
  shows "length (pending al) < AUDIT_LATTICE_CAPACITY"
  using assms distance_mod(1)[of al] by (simp add: audit_inv_def pending_def)

lemma full_ring_drops:
  assumes al: "au_lattice st = Some al" and full: "audit_distance al \<ge> AUDIT_WRITE_THRESHOLD"
    and ovf: "al_overflow_count al \<noteq> 0" and ev: "ev \<noteq> AUDIT_EVENT_OVERFLOW"
  shows "audit_strike cx ev res target meta st
    = st\<lparr>au_lattice := Some (al\<lparr>al_overflow_count := al_overflow_count al + 1\<rparr>)\<rparr>"
  using assms by (simp add: audit_strike_cases[OF al])

section \<open>Tampering with the whole chain\<close>

lemma chained_butlast:
  assumes "chained (rs @ [r]) h"
  shows "chained rs (ar_prev_hash r)" and "record_hash_ok r" and "h = ar_hash r"
proof -
  show ok: "record_hash_ok r" and "h = ar_hash r" using assms by (auto simp: chained_def)
  have "ar_prev_hash ((rs @ [r]) ! Suc i) = ar_hash ((rs @ [r]) ! i)" if "Suc i < length (rs @ [r])" for i
    using assms that by (simp add: chained_def)
  note step = this
  have "ar_prev_hash r = ar_hash (last rs)" if "rs \<noteq> []"
    using step[of "length rs - 1"] that by (simp add: nth_append last_conv_nth)
  moreover have "ar_prev_hash (rs ! Suc i) = ar_hash (rs ! i)" if "Suc i < length rs" for i
    using step[of i] that by (simp add: nth_append)
  ultimately show "chained rs (ar_prev_hash r)"
    using assms ok by (auto simp: chained_def record_hash_ok_def)
qed

lemma chain_tamper_collision:
  assumes "chained rs h" and "chained rs' h" and "length rs = length rs'" and "rs \<noteq> rs'"
  shows "\<exists>x y. x \<noteq> y \<and> length x = 104 \<and> length y = 104 \<and> blake3_ref x = blake3_ref y"
  using assms
proof (induction rs arbitrary: rs' h rule: rev_induct)
  case (snoc r rs)
  obtain rs0 r0 where rs': "rs' = rs0 @ [r0]" using snoc.prems(3) by (cases rs' rule: rev_cases) auto
  note A = chained_butlast[OF snoc.prems(1)] and B = chained_butlast[OF snoc.prems(2)[unfolded rs']]
  show ?case
  proof (cases "r\<lparr>ar_hash := []\<rparr> = r0\<lparr>ar_hash := []\<rparr>")
    case False
    then show ?thesis using tamper_collision[OF A(2) B(2)] A(3) B(3) by simp
  next
    case True
    then have "r = r0" using A(3) B(3) by (metis audit_record_t.surjective audit_record_t.update_convs(9))
    then show ?thesis using snoc.IH[OF A(1), of rs0] B(1) snoc.prems(3,4) by (simp add: rs')
  qed
qed simp

section \<open>A full ring\<close>

lemma full_ring_run:
  assumes "\<forall>c\<in>set cs. \<exists>cx ev res target meta. c = Strike cx ev res target meta \<and> ev \<noteq> AUDIT_EVENT_OVERFLOW"
    and "au_lattice st = Some al" and "audit_distance al \<ge> AUDIT_WRITE_THRESHOLD"
    and "al_overflow_count al \<noteq> 0" and "unat (al_overflow_count al) + length cs < 2 ^ 32"
  shows "fold audit_step cs st
    = st\<lparr>au_lattice := Some (al\<lparr>al_overflow_count := al_overflow_count al + word_of_nat (length cs)\<rparr>)\<rparr>"
  using assms
proof (induction cs arbitrary: st al)
  case (Cons c cs)
  let ?al = "al\<lparr>al_overflow_count := al_overflow_count al + 1\<rparr>"
  obtain cx ev res target meta where c: "c = Strike cx ev res target meta" "ev \<noteq> AUDIT_EVENT_OVERFLOW"
    using Cons.prems(1) by auto
  have one: "audit_step c st = st\<lparr>au_lattice := Some ?al\<rparr>"
    using full_ring_drops[OF Cons.prems(2,3,4) c(2)] by (simp add: c(1))
  have u: "unat (al_overflow_count al + 1) = unat (al_overflow_count al) + 1"
    using Cons.prems(5) by (simp add: unat_plus_if')
  have "al_overflow_count al + 1 \<noteq> 0" using u by (metis add_is_0 one_neq_zero unat_0)
  then have "fold audit_step cs (st\<lparr>au_lattice := Some ?al\<rparr>) =
    (st\<lparr>au_lattice := Some ?al\<rparr>)\<lparr>au_lattice := Some (?al\<lparr>al_overflow_count :=
       al_overflow_count ?al + word_of_nat (length cs)\<rparr>)\<rparr>"
    using Cons.prems u by (intro Cons.IH) (auto simp: audit_distance_def)
  then show ?case by (simp add: one add_ac)
qed simp

section \<open>Properties\<close>

text \<open>
  C22: the audit ring is an append-only hash chain.  From initialisation on, whatever sequence of
  strikes and seed rotations runs, the records present at any moment are a prefix of the records
  present later, each record's hash is the BLAKE3 reference hash of its predecessor's hash, its
  contents and a seed, and the ring never holds more than its capacity.
\<close>

theorem audit_ring_append_only:
  assumes "audit_init ok has_rdrand rdrand tsc st0 = Some st" and "\<forall>c\<in>set (cs1 @ cs2). call_ok c"
  shows "\<exists>al1 al2 new. au_lattice (fold audit_step cs1 st) = Some al1
    \<and> au_lattice (fold audit_step (cs1 @ cs2) st) = Some al2
    \<and> pending al2 = pending al1 @ new
    \<and> chained (pending al2) (au_last_hash (fold audit_step (cs1 @ cs2) st))
    \<and> length (pending al2) < AUDIT_LATTICE_CAPACITY"
proof -
  obtain al where i: "audit_inv st" "au_lattice st = Some al" using audit_init_inv[OF assms(1)] by blast
  obtain al1 where a: "audit_inv (fold audit_step cs1 st)" "au_lattice (fold audit_step cs1 st) = Some al1"
    using audit_run_inv[OF i, of cs1] assms(2) by auto
  obtain al2 new where b: "audit_inv (fold audit_step cs2 (fold audit_step cs1 st))"
      "au_lattice (fold audit_step cs2 (fold audit_step cs1 st)) = Some al2" "pending al2 = pending al1 @ new"
    using audit_run_inv[OF a, of cs2] assms(2) by auto
  then show ?thesis using a audit_pending_bound[OF b(1,2)] by (auto simp: audit_inv_def)
qed

theorem audit_ring_append_only_witness:
  "\<exists>st al1 al2 new. audit_init True False [] 5 \<lparr>au_lattice = None, au_root_system_seed = 0,
        au_current_fate_seed = 0, au_last_hash = []\<rparr> = Some st
    \<and> au_lattice (audit_step (Rotate MODE_SECURE 2) st) = Some al1
    \<and> au_lattice (audit_step (Strike \<lparr>ax_tick = 3, ax_actor = None\<rparr> AUDIT_EVENT_CAP_MINT AUDIT_RESULT_OK 9 zero_meta)
         (audit_step (Rotate MODE_SECURE 2) st)) = Some al2
    \<and> pending al2 = pending al1 @ new"
proof -
  obtain st where st: "audit_init True False [] 5 \<lparr>au_lattice = None, au_root_system_seed = 0,
        au_current_fate_seed = 0, au_last_hash = []\<rparr> = Some st"
    by (simp add: audit_init_def Let_def)
  show ?thesis
    using audit_ring_append_only[OF st, of "[Rotate MODE_SECURE 2]"
        "[Strike \<lparr>ax_tick = 3, ax_actor = None\<rparr> AUDIT_EVENT_CAP_MINT AUDIT_RESULT_OK 9 zero_meta]"] st
    by (auto simp: zero_meta_def)
qed



text \<open>
  C39: a full ring stops recording.  Nothing advances the read index, so once the ring has reached
  its write threshold and the overflow marker has been counted, no later event is recorded: the
  next (fewer than \<open>2^32\<close>) events only increase the overflow counter.
\<close>

theorem audit_full_ring_stops_recording:
  assumes "\<forall>c\<in>set cs. \<exists>cx ev res target meta. c = Strike cx ev res target meta \<and> ev \<noteq> AUDIT_EVENT_OVERFLOW"
    and "au_lattice st = Some al" and "audit_distance al \<ge> AUDIT_WRITE_THRESHOLD"
    and "al_overflow_count al \<noteq> 0" and "unat (al_overflow_count al) + length cs < 2 ^ 32"
  shows "fold audit_step cs st
    = st\<lparr>au_lattice := Some (al\<lparr>al_overflow_count := al_overflow_count al + word_of_nat (length cs)\<rparr>)\<rparr>"
  by (rule full_ring_run[OF assms])

theorem audit_full_ring_stops_recording_witness:
  "let al = \<lparr>al_head = 0, al_tail = 1023, al_overflow_count = 1, al_records = replicate 1024 zero_record\<rparr>;
       st = \<lparr>au_lattice = Some al, au_root_system_seed = 0, au_current_fate_seed = 0, au_last_hash = []\<rparr>
   in au_lattice (audit_step (Strike \<lparr>ax_tick = 3, ax_actor = None\<rparr> AUDIT_EVENT_CAP_DENIED AUDIT_RESULT_DENIED 9 zero_meta) st)
      = Some (al\<lparr>al_overflow_count := 2\<rparr>)"
  using audit_full_ring_stops_recording[where cs =
      "[Strike \<lparr>ax_tick = 3, ax_actor = None\<rparr> AUDIT_EVENT_CAP_DENIED AUDIT_RESULT_DENIED 9 zero_meta]"]
  by (simp add: Let_def audit_distance_def audit_consts)

end
