(* ===== verification/Resource_Pool.thy ===== *)
theory Resource_Pool
  imports Reaper_Prelude
begin

text \<open>
  The contract between an allocator of identifiers or frames and its clients.  A client that
  releases only what it holds is modelled by \<open>pool_run\<close>, which threads the allocator state and
  the list of held resources through a sequence of operations.  The client-side fact, proved once
  here, is that no resource is ever held twice.  The physical memory manager and the PCID
  allocator interpret the contract.
\<close>

datatype ('a, 'b, 'r) pool_op = Acquire 'a | Release 'b 'r

fun pool_step ::
    "('a \<Rightarrow> 's \<Rightarrow> 'r option \<times> 's) \<Rightarrow> ('b \<Rightarrow> 'r \<Rightarrow> 's \<Rightarrow> 's) \<Rightarrow> ('a, 'b, 'r) pool_op
      \<Rightarrow> 's \<times> 'r list \<Rightarrow> 's \<times> 'r list" where
  "pool_step alloc release (Acquire a) (s, held) =
     (case alloc a s of (Some r, s') \<Rightarrow> (s', r # held) | (None, s') \<Rightarrow> (s', held))"
| "pool_step alloc release (Release b r) (s, held) =
     (if r \<in> set held then (release b r s, remove1 r held) else (s, held))"

definition pool_run ::
    "('a \<Rightarrow> 's \<Rightarrow> 'r option \<times> 's) \<Rightarrow> ('b \<Rightarrow> 'r \<Rightarrow> 's \<Rightarrow> 's) \<Rightarrow> ('a, 'b, 'r) pool_op list
      \<Rightarrow> 's \<Rightarrow> 's \<times> 'r list" where
  "pool_run alloc release ops s = fold (pool_step alloc release) ops (s, [])"

locale resource_pool =
  fixes alloc :: "'a \<Rightarrow> 's \<Rightarrow> 'r option \<times> 's"
    and release :: "'b \<Rightarrow> 'r \<Rightarrow> 's \<Rightarrow> 's"
    and live :: "'s \<Rightarrow> 'r set"
    and pool_inv :: "'s \<Rightarrow> bool"
  assumes alloc_some:
      "pool_inv s \<Longrightarrow> alloc a s = (Some r, s') \<Longrightarrow> pool_inv s' \<and> r \<notin> live s \<and> live s' = insert r (live s)"
    and alloc_none: "pool_inv s \<Longrightarrow> alloc a s = (None, s') \<Longrightarrow> pool_inv s' \<and> live s \<subseteq> live s'"
    and release_live:
      "pool_inv s \<Longrightarrow> r \<in> live s \<Longrightarrow> pool_inv (release b r s) \<and> live (release b r s) = live s - {r}"
begin

definition holds_ok :: "'s \<times> 'r list \<Rightarrow> bool" where
  "holds_ok sh \<longleftrightarrow> pool_inv (fst sh) \<and> distinct (snd sh) \<and> set (snd sh) \<subseteq> live (fst sh)"

lemma step_ok:
  assumes "holds_ok sh"
  shows "holds_ok (pool_step alloc release op sh)"
proof -
  obtain s held where sh: "sh = (s, held)" by (cases sh)
  have H: "pool_inv s" "distinct held" "set held \<subseteq> live s" using assms by (simp_all add: holds_ok_def sh)
  show ?thesis
  proof (cases op)
    case (Acquire a)
    obtain o' s' where run: "alloc a s = (o', s')" by (cases "alloc a s")
    show ?thesis
    proof (cases o')
      case None
      then show ?thesis using run H alloc_none[of s a s'] by (auto simp: Acquire sh holds_ok_def)
    next
      case (Some r)
      then show ?thesis using run H alloc_some[of s a r s'] by (auto simp: Acquire sh holds_ok_def)
    qed
  next
    case (Release b r)
    then show ?thesis using H release_live[of s r b] by (auto simp: sh holds_ok_def)
  qed
qed

lemma run_ok:
  assumes "pool_inv s"
  shows "holds_ok (pool_run alloc release ops s)"
proof -
  have "holds_ok (fold (pool_step alloc release) ops sh)" if "holds_ok sh" for sh
    using that by (induction ops arbitrary: sh) (simp_all add: step_ok)
  then show ?thesis using assms by (simp add: pool_run_def holds_ok_def)
qed

lemma run_exclusive:
  assumes "pool_inv s" and "pool_run alloc release ops s = (s', held)"
  shows "pool_inv s' \<and> distinct held \<and> set held \<subseteq> live s'"
  using run_ok[OF assms(1), of ops] assms(2) by (simp add: holds_ok_def)

end

end
