(* ===== verification/Pcid.thy ===== *)
theory Pcid
  imports Mode_Types Resource_Pool
begin

text \<open>
  Process-context identifiers (\<^verbatim>\<open>src/kernel/pcid.c\<close>,
  \<^verbatim>\<open>src/kernel/include/pcid.h\<close>) and the address-space switch that uses them
  (\<open>vmm_switch\<close> of \<^verbatim>\<open>src/kernel/vmm.c\<close>).

  The four per-mode groups of fields of \<^verbatim>\<open>struct pcid_allocator\<close> are one record per mode.
  The translation cache is represented by \<open>pa_tlb\<close>: whether it may hold entries tagged with
  a PCID.  \<^verbatim>\<open>invpcid\<close> clears the tag, a load of CR3 sets it.
\<close>

section \<open>Data\<close>

definition PCID_KERNEL :: nat where "PCID_KERNEL = 0"
definition PCID_MAX :: nat where "PCID_MAX = 4095"
definition PCID_ERROR :: nat where "PCID_ERROR = 0xFFFF"
definition PCID_KERNEL_SECURE :: nat where "PCID_KERNEL_SECURE = 4095"
definition PCIDS_PER_USER_MODE :: nat where "PCIDS_PER_USER_MODE = 256"
definition PCIDS_FOR_KERNEL :: nat where "PCIDS_FOR_KERNEL = 1"
definition PCID_BASE_CASUAL :: nat where "PCID_BASE_CASUAL = PCIDS_FOR_KERNEL"
definition PCID_BASE_SECURE :: nat where "PCID_BASE_SECURE = PCID_BASE_CASUAL + PCIDS_PER_USER_MODE"
definition PCID_BASE_LOCKDOWN :: nat where "PCID_BASE_LOCKDOWN = PCID_BASE_SECURE + PCIDS_PER_USER_MODE"
definition PCID_BASE_GHOST :: nat where "PCID_BASE_GHOST = PCID_BASE_LOCKDOWN + PCIDS_PER_USER_MODE"

lemmas pcid_consts = PCID_KERNEL_def PCID_MAX_def PCID_ERROR_def PCID_KERNEL_SECURE_def
  PCIDS_PER_USER_MODE_def PCIDS_FOR_KERNEL_def PCID_BASE_CASUAL_def PCID_BASE_SECURE_def
  PCID_BASE_LOCKDOWN_def PCID_BASE_GHOST_def

record pcid_mode_st =
  pc_bitmap :: "u64 list"
  pc_next_hint :: nat
  pc_allocated_count :: u32
  pc_max_count :: u32
  pc_freed_count :: u32

record pcid_allocator =
  pa_mode :: "mode_id_t \<Rightarrow> pcid_mode_st"
  pa_total_allocations :: u32
  pa_total_reuses :: u32
  pa_total_tlb_scrubs :: u32
  pa_tlb :: "nat \<Rightarrow> bool"

section \<open>Operations\<close>

fun pcid_get_mode_base :: "mode_id_t \<Rightarrow> nat" where
  "pcid_get_mode_base MODE_CASUAL = PCID_BASE_CASUAL"
| "pcid_get_mode_base MODE_SECURE = PCID_BASE_SECURE"
| "pcid_get_mode_base MODE_LOCKDOWN = PCID_BASE_LOCKDOWN"
| "pcid_get_mode_base MODE_GHOST = PCID_BASE_GHOST"
| "pcid_get_mode_base MODE_KERNEL = PCID_KERNEL"
| "pcid_get_mode_base MODE_VOID = PCID_ERROR"
| "pcid_get_mode_base (MODE_OTHER n) = PCID_ERROR"

definition pcid_get_mode_count :: "mode_id_t \<Rightarrow> nat" where
  "pcid_get_mode_count m =
     (if m = MODE_KERNEL then PCIDS_FOR_KERNEL
      else if mode_val m \<ge> mode_val MODE_CASUAL \<and> mode_val m < mode_val MODE_KERNEL then PCIDS_PER_USER_MODE
      else 0)"

text \<open>The \<open>get_mode_*\<close> helpers return a pointer for the user modes and \<^verbatim>\<open>NULL\<close> otherwise.\<close>

fun has_mode_slot :: "mode_id_t \<Rightarrow> bool" where
  "has_mode_slot MODE_CASUAL = True"
| "has_mode_slot MODE_SECURE = True"
| "has_mode_slot MODE_LOCKDOWN = True"
| "has_mode_slot MODE_GHOST = True"
| "has_mode_slot _ = False"

definition bitmap_set_relative :: "nat \<Rightarrow> u64 list \<Rightarrow> u64 list" where
  "bitmap_set_relative i bm = bm[i div 64 := (bm ! (i div 64)) OR push_bit (i mod 64) 1]"

definition bitmap_clear_relative :: "nat \<Rightarrow> u64 list \<Rightarrow> u64 list" where
  "bitmap_clear_relative i bm = bm[i div 64 := (bm ! (i div 64)) AND NOT (push_bit (i mod 64) 1)]"

definition bitmap_test_relative :: "u64 list \<Rightarrow> nat \<Rightarrow> bool" where
  "bitmap_test_relative bm i \<longleftrightarrow> (bm ! (i div 64)) AND push_bit (i mod 64) 1 \<noteq> 0"

definition zero_mode_slot :: pcid_mode_st where
  "zero_mode_slot = \<lparr>pc_bitmap = replicate (PCIDS_PER_USER_MODE div 64) 0, pc_next_hint = 0,
     pc_allocated_count = 0, pc_max_count = 0, pc_freed_count = 0\<rparr>"

definition pcid_init :: "pcid_allocator \<Rightarrow> pcid_allocator" where
  "pcid_init st = st\<lparr>pa_mode := (\<lambda>_. zero_mode_slot), pa_total_allocations := 0, pa_total_reuses := 0,
     pa_total_tlb_scrubs := 0\<rparr>"

text \<open>The slot after the identifier with relative index \<open>i\<close> has been handed out.\<close>

definition pcid_take :: "nat \<Rightarrow> pcid_mode_st \<Rightarrow> pcid_mode_st" where
  "pcid_take i sl =
     (let n = pc_allocated_count sl + 1 in
      sl\<lparr>pc_bitmap := bitmap_set_relative i (pc_bitmap sl),
         pc_next_hint := (i + 1) mod PCIDS_PER_USER_MODE,
         pc_allocated_count := n,
         pc_max_count := (if n > pc_max_count sl then n else pc_max_count sl)\<rparr>)"

fun pcid_search :: "pcid_mode_st \<Rightarrow> nat list \<Rightarrow> nat option" where
  "pcid_search sl [] = None"
| "pcid_search sl (i # is) =
     (let idx = (pc_next_hint sl + i) mod PCIDS_PER_USER_MODE in
      if \<not> bitmap_test_relative (pc_bitmap sl) idx then Some idx else pcid_search sl is)"

definition pcid_alloc :: "mode_id_t \<Rightarrow> pcid_allocator \<Rightarrow> nat \<times> pcid_allocator" where
  "pcid_alloc m st =
     (if m = MODE_KERNEL then (PCID_KERNEL, st)
      else if \<not> has_mode_slot m \<or> pcid_get_mode_count m = 0 \<or> pcid_get_mode_base m = PCID_ERROR
        then (PCID_ERROR, st)
      else let sl = pa_mode st m in
        case pcid_search sl [0 ..< pcid_get_mode_count m] of
          None \<Rightarrow> (PCID_ERROR, st)
        | Some i \<Rightarrow>
            (pcid_get_mode_base m + i,
             st\<lparr>pa_mode := (pa_mode st)(m := pcid_take i sl),
                pa_total_reuses := (if pc_freed_count sl > 0 then pa_total_reuses st + 1
                                    else pa_total_reuses st),
                pa_total_allocations := pa_total_allocations st + 1\<rparr>))"

definition pcid_release :: "nat \<Rightarrow> pcid_mode_st \<Rightarrow> pcid_mode_st" where
  "pcid_release i sl =
     sl\<lparr>pc_bitmap := bitmap_clear_relative i (pc_bitmap sl),
        pc_allocated_count := (if pc_allocated_count sl > 0 then pc_allocated_count sl - 1
                               else pc_allocated_count sl),
        pc_freed_count := pc_freed_count sl + 1\<rparr>"

definition invpcid_single :: "nat \<Rightarrow> pcid_allocator \<Rightarrow> pcid_allocator" where
  "invpcid_single pcid st = st\<lparr>pa_tlb := (pa_tlb st)(pcid := False)\<rparr>"

definition pcid_free :: "nat \<Rightarrow> mode_id_t \<Rightarrow> pcid_allocator \<Rightarrow> pcid_allocator" where
  "pcid_free pcid m st =
     (if m = MODE_KERNEL then st
      else if pcid = PCID_ERROR then st
      else
        let base = pcid_get_mode_base m; count = pcid_get_mode_count m in
        if pcid < base \<or> pcid \<ge> base + count then st
        else if \<not> has_mode_slot m then st
        else
          let i = pcid - base in
          if bitmap_test_relative (pc_bitmap (pa_mode st m)) i then
            (invpcid_single pcid st)
              \<lparr>pa_total_tlb_scrubs := pa_total_tlb_scrubs st + 1,
               pa_mode := (pa_mode st)(m := pcid_release i (pa_mode st m))\<rparr>
          else st)"

section \<open>Switching address spaces (vmm.c)\<close>

record vmm_switch_st =
  vs_cr3 :: u64
  vs_pcid_enabled :: bool
  vs_pcid_switches :: u64
  vs_pcid_switch_flushes :: u64

text \<open>\<open>None\<close> is a kernel panic.\<close>

definition vmm_switch ::
    "u64 \<Rightarrow> nat \<Rightarrow> mode_id_t \<Rightarrow> vmm_switch_st \<Rightarrow> vmm_switch_st option" where
  "vmm_switch pml4_phys pcid m st =
     (if pcid > PCID_MAX then None
      else if pml4_phys AND 0xFFF \<noteq> 0 then None
      else if mode_val m \<le> mode_val MODE_VOID \<or> mode_val m > mode_val MODE_KERNEL then None
      else if (if m = MODE_KERNEL then pcid \<noteq> PCID_KERNEL \<and> pcid \<noteq> PCID_KERNEL_SECURE
               else pcid < pcid_get_mode_base m
                    \<or> pcid \<ge> pcid_get_mode_base m + pcid_get_mode_count m) then None
      else
        let base = pml4_phys AND NOT 0xFFF;
            cr3 = (if vs_pcid_enabled st
                   then (base OR (word_of_nat pcid AND 0xFFF)) OR (if m \<noteq> MODE_GHOST then push_bit 63 1 else 0)
                   else base)
        in Some (st\<lparr>vs_cr3 := cr3, vs_pcid_switches := vs_pcid_switches st + 1,
                   vs_pcid_switch_flushes := vs_pcid_switch_flushes st
                     + (if vs_pcid_enabled st \<and> m = MODE_GHOST then 1 else 0)\<rparr>))"

section \<open>Invariant\<close>

definition used_pcids :: "pcid_mode_st \<Rightarrow> nat set" where
  "used_pcids sl = {i. i < PCIDS_PER_USER_MODE \<and> bitmap_test_relative (pc_bitmap sl) i}"

definition pcid_slot_inv :: "pcid_mode_st \<Rightarrow> bool" where
  "pcid_slot_inv sl \<longleftrightarrow> length (pc_bitmap sl) = PCIDS_PER_USER_MODE div 64 \<and>
     pc_next_hint sl < PCIDS_PER_USER_MODE \<and> pc_allocated_count sl = word_of_nat (card (used_pcids sl))"

definition pcid_inv :: "pcid_allocator \<Rightarrow> bool" where
  "pcid_inv st \<longleftrightarrow> (\<forall>m. has_mode_slot m \<longrightarrow> pcid_slot_inv (pa_mode st m))"

text \<open>The identifiers handed out, over all modes.\<close>

definition live_pcids :: "pcid_allocator \<Rightarrow> (mode_id_t \<times> nat) set" where
  "live_pcids st = {(m, p). has_mode_slot m \<and> pcid_get_mode_base m \<le> p
     \<and> p - pcid_get_mode_base m \<in> used_pcids (pa_mode st m)}"

lemma finite_used [simp]: "finite (used_pcids sl)"
  by (rule finite_subset[of _ "{..<PCIDS_PER_USER_MODE}"]) (auto simp: used_pcids_def)

lemma card_used_le: "card (used_pcids sl) \<le> 256"
proof -
  have "card (used_pcids sl) \<le> card {..<PCIDS_PER_USER_MODE}"
    by (rule card_mono) (auto simp: used_pcids_def)
  then show ?thesis by (simp add: pcid_consts)
qed

lemma relative_bit: "bitmap_test_relative bm i = bit (bm ! (i div 64)) (i mod 64)"
  unfolding bitmap_test_relative_def
  by (metis and.commute and_zero_eq bit_iff_and_push_bit_not_eq_0)

lemma div_mod_eq64: "(f div 64 = g div 64 \<and> f mod 64 = g mod 64) = (f = (g :: nat))"
  by (metis div_mult_mod_eq)

lemma relative_set:
  assumes "i div 64 < length bm"
  shows "bitmap_test_relative (bitmap_set_relative i bm) j \<longleftrightarrow> j = i \<or> bitmap_test_relative bm j"
proof (cases "j div 64 = i div 64")
  case True
  then have "j = i \<longleftrightarrow> j mod 64 = i mod 64" using div_mod_eq64[of j i] by blast
  with True assms show ?thesis
    by (auto simp: relative_bit bitmap_set_relative_def bit_or_iff bit_exp_iff)
next
  case False
  then show ?thesis by (auto simp: relative_bit bitmap_set_relative_def)
qed

lemma relative_clear:
  assumes "i div 64 < length bm"
  shows "bitmap_test_relative (bitmap_clear_relative i bm) j \<longleftrightarrow> j \<noteq> i \<and> bitmap_test_relative bm j"
proof (cases "j div 64 = i div 64")
  case True
  then have "j = i \<longleftrightarrow> j mod 64 = i mod 64" using div_mod_eq64[of j i] by blast
  with True assms show ?thesis
    by (auto simp: relative_bit bitmap_clear_relative_def bit_and_iff bit_not_iff bit_exp_iff)
next
  case False
  then show ?thesis by (auto simp: relative_bit bitmap_clear_relative_def)
qed

lemma length_relative [simp]:
  "length (bitmap_set_relative i bm) = length bm" "length (bitmap_clear_relative i bm) = length bm"
  by (simp_all add: bitmap_set_relative_def bitmap_clear_relative_def)

lemma search_some:
  "pcid_search sl is = Some i \<Longrightarrow> i < PCIDS_PER_USER_MODE \<and> i \<notin> used_pcids sl"
  by (induction "is") (auto simp: Let_def used_pcids_def pcid_consts split: if_splits)

lemma search_none:
  "pcid_search sl is = None \<Longrightarrow> k \<in> set is
    \<Longrightarrow> bitmap_test_relative (pc_bitmap sl) ((pc_next_hint sl + k) mod PCIDS_PER_USER_MODE)"
  by (induction "is") (auto simp: Let_def split: if_splits)

lemma search_complete:
  assumes none: "pcid_search sl [0 ..< PCIDS_PER_USER_MODE] = None"
    and hint: "pc_next_hint sl < PCIDS_PER_USER_MODE"
  shows "used_pcids sl = {..<PCIDS_PER_USER_MODE}"
proof -
  have "bitmap_test_relative (pc_bitmap sl) i" if "i < PCIDS_PER_USER_MODE" for i
  proof -
    define k where "k = (i + PCIDS_PER_USER_MODE - pc_next_hint sl) mod PCIDS_PER_USER_MODE"
    have k: "k \<in> set [0 ..< PCIDS_PER_USER_MODE]" by (simp add: k_def pcid_consts)
    have "(pc_next_hint sl + k) mod PCIDS_PER_USER_MODE = i"
      using that hint by (simp add: k_def mod_add_right_eq)
    then show ?thesis using search_none[OF none k] by simp
  qed
  then show ?thesis by (auto simp: used_pcids_def)
qed

lemma slot_bitmap_bound:
  assumes "pcid_slot_inv sl" and "i < PCIDS_PER_USER_MODE"
  shows "i div 64 < length (pc_bitmap sl)"
  using assms by (simp add: pcid_slot_inv_def pcid_consts)

lemma take_used:
  assumes "pcid_slot_inv sl" and "i < PCIDS_PER_USER_MODE"
  shows "used_pcids (pcid_take i sl) = insert i (used_pcids sl)"
  using assms slot_bitmap_bound[OF assms] by (auto simp: used_pcids_def pcid_take_def Let_def relative_set)

lemma release_used:
  assumes "pcid_slot_inv sl" and "i < PCIDS_PER_USER_MODE"
  shows "used_pcids (pcid_release i sl) = used_pcids sl - {i}"
  using assms slot_bitmap_bound[OF assms] by (auto simp: used_pcids_def pcid_release_def relative_clear)

lemma take_inv:
  assumes inv: "pcid_slot_inv sl" and i: "i < PCIDS_PER_USER_MODE" "i \<notin> used_pcids sl"
  shows "pcid_slot_inv (pcid_take i sl)"
proof -
  have "card (used_pcids (pcid_take i sl)) = Suc (card (used_pcids sl))"
    using take_used[OF inv i(1)] i(2) by simp
  moreover have "pc_allocated_count (pcid_take i sl) = pc_allocated_count sl + 1"
      "length (pc_bitmap (pcid_take i sl)) = length (pc_bitmap sl)"
      "pc_next_hint (pcid_take i sl) < PCIDS_PER_USER_MODE"
    by (simp_all add: pcid_take_def Let_def PCIDS_PER_USER_MODE_def)
  ultimately show ?thesis using inv by (simp add: pcid_slot_inv_def)
qed

lemma release_inv:
  assumes inv: "pcid_slot_inv sl" and i: "i \<in> used_pcids sl"
  shows "pcid_slot_inv (pcid_release i sl)"
proof -
  have lt: "i < PCIDS_PER_USER_MODE" using i by (simp add: used_pcids_def)
  have c: "card (used_pcids (pcid_release i sl)) = card (used_pcids sl) - 1"
    using release_used[OF inv lt] i by simp
  have pos: "0 < card (used_pcids sl)" using i by (auto simp: card_gt_0_iff)
  have "word_of_nat (card (used_pcids sl)) \<noteq> (0 :: u32)"
    using pos card_used_le[of sl] by (simp add: word_of_nat_eq_0_iff nat_dvd_not_less)
  then have "pc_allocated_count (pcid_release i sl) = word_of_nat (card (used_pcids sl)) - 1"
    using inv by (simp add: pcid_release_def pcid_slot_inv_def word_gt_0)
  also have "\<dots> = word_of_nat (card (used_pcids (pcid_release i sl)))"
    unfolding c using pos by (simp add: of_nat_diff)
  finally show ?thesis using inv by (simp add: pcid_slot_inv_def pcid_release_def)
qed

lemma mode_slot_cases:
  assumes "has_mode_slot m"
  shows "m \<noteq> MODE_KERNEL" and "pcid_get_mode_count m = PCIDS_PER_USER_MODE" and "pcid_get_mode_base m \<noteq> PCID_ERROR"
  using assms by (cases m; simp add: pcid_get_mode_count_def pcid_consts)+

lemma base_disjoint:
  assumes "has_mode_slot m" "has_mode_slot m'" "i < 256" "j < 256"
    and "pcid_get_mode_base m + i = pcid_get_mode_base m' + j"
  shows "m = m' \<and> i = j"
  using assms by (cases m; cases m'; simp add: pcid_consts)

lemma alloc_spec:
  assumes inv: "pcid_inv st" and m: "has_mode_slot m" and run: "pcid_alloc m st = (p, st')"
  shows "pcid_inv st' \<and> pa_tlb st' = pa_tlb st \<and>
    (if p = PCID_ERROR then st' = st \<and> used_pcids (pa_mode st m) = {..<PCIDS_PER_USER_MODE}
     else pcid_get_mode_base m \<le> p \<and> p < pcid_get_mode_base m + PCIDS_PER_USER_MODE \<and> (m, p) \<notin> live_pcids st
          \<and> live_pcids st' = insert (m, p) (live_pcids st))"
proof -
  define sl where "sl = pa_mode st m"
  have isl: "pcid_slot_inv sl" using inv m by (simp add: pcid_inv_def sl_def)
  note M = mode_slot_cases[OF m]
  show ?thesis
  proof (cases "pcid_search sl [0 ..< PCIDS_PER_USER_MODE]")
    case None
    then have "p = PCID_ERROR" "st' = st" using run m M None by (auto simp: pcid_alloc_def sl_def PCIDS_PER_USER_MODE_def)
    moreover have "used_pcids sl = {..<PCIDS_PER_USER_MODE}"
      using search_complete[of sl] None isl by (simp add: pcid_slot_inv_def)
    ultimately show ?thesis using inv by (simp add: sl_def)
  next
    case (Some i)
    then have i: "i < PCIDS_PER_USER_MODE" "i \<notin> used_pcids sl" using search_some by auto
    have p: "p = pcid_get_mode_base m + i" and md: "pa_mode st' = (pa_mode st)(m := pcid_take i sl)"
      and tlb: "pa_tlb st' = pa_tlb st"
      using run m M Some by (auto simp: pcid_alloc_def sl_def Let_def PCIDS_PER_USER_MODE_def)
    have u: "used_pcids (pcid_take i sl) = insert i (used_pcids sl)"
      using take_used[OF isl] i by simp
    have "pcid_inv st'"
      using inv take_inv[OF isl _ i(2)] i(1) by (simp add: pcid_inv_def md)
    moreover have "p \<noteq> PCID_ERROR" using p i m by (cases m) (auto simp: pcid_consts)
    moreover have "(m, p) \<notin> live_pcids st" using i p by (auto simp: live_pcids_def sl_def)
    moreover have "live_pcids st' = insert (m, p) (live_pcids st)"
      using m u p by (auto simp: live_pcids_def md sl_def split: if_splits)
    ultimately show ?thesis using p i tlb by simp
  qed
qed

lemma free_spec:
  assumes inv: "pcid_inv st" and m: "has_mode_slot m"
  shows "pcid_inv (pcid_free p m st) \<and> live_pcids (pcid_free p m st) = live_pcids st - {(m, p)}
    \<and> ((m, p) \<in> live_pcids st \<longrightarrow> \<not> pa_tlb (pcid_free p m st) p)"
proof (cases "(m, p) \<in> live_pcids st")
  case False
  have "\<not> (pcid_get_mode_base m \<le> p \<and> p < pcid_get_mode_base m + PCIDS_PER_USER_MODE
      \<and> bitmap_test_relative (pc_bitmap (pa_mode st m)) (p - pcid_get_mode_base m))"
  proof
    assume A: "pcid_get_mode_base m \<le> p \<and> p < pcid_get_mode_base m + PCIDS_PER_USER_MODE
      \<and> bitmap_test_relative (pc_bitmap (pa_mode st m)) (p - pcid_get_mode_base m)"
    then have "p - pcid_get_mode_base m \<in> used_pcids (pa_mode st m)" by (auto simp: used_pcids_def)
    then have "(m, p) \<in> live_pcids st" using m A by (simp add: live_pcids_def)
    then show False using False by simp
  qed
  then have "pcid_free p m st = st"
    using mode_slot_cases(2)[OF m] by (auto simp: pcid_free_def Let_def)
  then show ?thesis using inv False by simp
next
  case True
  define i where "i = p - pcid_get_mode_base m"
  have p: "p = pcid_get_mode_base m + i" and i: "i \<in> used_pcids (pa_mode st m)"
    using True by (auto simp: live_pcids_def i_def)
  define sl where "sl = pa_mode st m"
  have isl: "pcid_slot_inv sl" using inv m by (simp add: pcid_inv_def sl_def)
  have lt: "i < PCIDS_PER_USER_MODE" and bit: "bitmap_test_relative (pc_bitmap sl) i"
    using i by (auto simp: used_pcids_def sl_def)
  note M = mode_slot_cases[OF m]
  have "p \<noteq> PCID_ERROR" using p lt m by (cases m) (auto simp: pcid_consts)
  then have run: "pcid_free p m st = (invpcid_single p st)
      \<lparr>pa_total_tlb_scrubs := pa_total_tlb_scrubs st + 1, pa_mode := (pa_mode st)(m := pcid_release i sl)\<rparr>"
    using M m p lt bit by (simp add: pcid_free_def Let_def sl_def)
  have u: "used_pcids (pcid_release i sl) = used_pcids sl - {i}"
    using release_used[OF isl] lt by simp
  have "pcid_inv (pcid_free p m st)"
    using inv release_inv[OF isl] i by (simp add: pcid_inv_def run sl_def invpcid_single_def)
  moreover have "live_pcids (pcid_free p m st) = live_pcids st - {(m, p)}"
  proof -
    have "\<forall>q. pcid_get_mode_base m \<le> q \<longrightarrow> (q = p \<longleftrightarrow> q - pcid_get_mode_base m = i)"
      using p by auto
    moreover have "pa_mode (pcid_free p m st) = (pa_mode st)(m := pcid_release i sl)" by (simp add: run)
    ultimately show ?thesis using u unfolding live_pcids_def sl_def by (auto split: if_splits)
  qed
  moreover have "\<not> pa_tlb (pcid_free p m st) p" by (simp add: run invpcid_single_def)
  ultimately show ?thesis by simp
qed

lemma live_pcids_unique:
  assumes "(m, p) \<in> live_pcids st" "(m', p) \<in> live_pcids st"
  shows "m = m'"
  using assms base_disjoint[of m m' "p - pcid_get_mode_base m" "p - pcid_get_mode_base m'"]
  by (auto simp: live_pcids_def used_pcids_def PCIDS_PER_USER_MODE_def)

lemma pcid_init_inv: "pcid_inv (pcid_init st) \<and> live_pcids (pcid_init st) = {}"
proof -
  have "\<not> bitmap_test_relative (pc_bitmap zero_mode_slot) i" if "i < PCIDS_PER_USER_MODE" for i
    using that by (simp add: bitmap_test_relative_def zero_mode_slot_def PCIDS_PER_USER_MODE_def)
  then have e: "used_pcids zero_mode_slot = {}" by (auto simp: used_pcids_def)
  then show ?thesis
    by (auto simp: pcid_inv_def pcid_init_def pcid_slot_inv_def live_pcids_def)
       (auto simp: zero_mode_slot_def PCIDS_PER_USER_MODE_def)
qed

text \<open>What a switch that does not panic leaves in CR3.\<close>

lemma switch_cr3:
  assumes "vmm_switch pml4 p m st = Some st'" and en: "vs_pcid_enabled st"
  shows "p \<le> PCID_MAX"
    and "vs_cr3 st' AND 0xFFF = word_of_nat p"
    and "vs_cr3 st' AND NOT 0xFFF AND NOT (push_bit 63 1) = pml4 AND NOT (push_bit 63 1)"
    and "bit (vs_cr3 st') 63 = (m \<noteq> MODE_GHOST \<or> bit pml4 63)"
proof -
  define nf :: u64 where "nf = push_bit 63 1"
  have nf: "bit nf k \<longleftrightarrow> k = 63" for k
    unfolding nf_def bit_push_bit_iff by (auto simp: bit_1_iff)
  have p: "p \<le> PCID_MAX" and al: "pml4 AND 0xFFF = 0"
    and cr3: "vs_cr3 st' = (pml4 AND NOT 0xFFF OR (word_of_nat p AND 0xFFF))
       OR (if m \<noteq> MODE_GHOST then nf else 0)"
    using assms unfolding nf_def by (auto simp: vmm_switch_def Let_def split: if_splits)
  show "p \<le> PCID_MAX" by (rule p)
  have m12: "(0xFFF :: u64) = mask 12" by (simp add: mask_eq_exp_minus_1)
  have lo: "12 \<le> k" if "bit pml4 k" for k
  proof (rule ccontr)
    assume "\<not> 12 \<le> k"
    then have "bit (pml4 AND mask 12) k" using that by (simp add: bit_and_iff bit_mask_iff)
    then show False using al m12 by simp
  qed
  have pb: "k < 12" if "bit (word_of_nat p :: u64) k" for k
  proof -
    have "p < 2 ^ 12" using p by (simp add: PCID_MAX_def)
    then have "take_bit 12 p = p" by (simp add: take_bit_nat_eq_self)
    moreover have "bit p k" using that by (simp add: bit_of_nat_iff)
    ultimately show ?thesis by (metis bit_take_bit_iff)
  qed
  have pw: "word_of_nat p AND 0xFFF = (word_of_nat p :: u64)"
    unfolding m12 by (rule bit_word_eqI) (auto simp: bit_and_iff bit_mask_iff dest: pb)
  show "vs_cr3 st' AND 0xFFF = word_of_nat p"
    unfolding cr3 pw m12 nf_def[symmetric]
    by (rule bit_word_eqI)
       (auto simp: bit_and_iff bit_or_iff bit_not_iff bit_mask_iff nf dest: pb lo)
  show "vs_cr3 st' AND NOT 0xFFF AND NOT (push_bit 63 1) = pml4 AND NOT (push_bit 63 1)"
    unfolding cr3 pw m12 nf_def[symmetric]
    by (rule bit_word_eqI)
       (auto simp: bit_and_iff bit_or_iff bit_not_iff bit_mask_iff nf dest: pb lo)
  show "bit (vs_cr3 st') 63 = (m \<noteq> MODE_GHOST \<or> bit pml4 63)"
    unfolding cr3 pw m12 nf_def[symmetric] using pb[of 63]
    by (auto simp: bit_and_iff bit_or_iff bit_not_iff bit_mask_iff nf)
qed

section \<open>The allocator as a pool of identifiers\<close>

definition pcid_acquire :: "mode_id_t \<Rightarrow> pcid_allocator \<Rightarrow> (mode_id_t \<times> nat) option \<times> pcid_allocator" where
  "pcid_acquire m st = (if \<not> has_mode_slot m then (None, st) else
     case pcid_alloc m st of (p, st') \<Rightarrow> (if p = PCID_ERROR then None else Some (m, p), st'))"

definition pcid_drop :: "unit \<Rightarrow> mode_id_t \<times> nat \<Rightarrow> pcid_allocator \<Rightarrow> pcid_allocator" where
  "pcid_drop u mp st = (case mp of (m, p) \<Rightarrow> pcid_free p m st)"

interpretation pcid_pool: resource_pool pcid_acquire pcid_drop live_pcids pcid_inv
proof unfold_locales
  fix st st' m and r :: "mode_id_t \<times> nat"
  assume inv: "pcid_inv st" and run: "pcid_acquire m st = (Some r, st')"
  then obtain p where m: "has_mode_slot m" and p: "pcid_alloc m st = (p, st')" "p \<noteq> PCID_ERROR" "r = (m, p)"
    by (auto simp: pcid_acquire_def split: if_splits prod.splits)
  then show "pcid_inv st' \<and> r \<notin> live_pcids st \<and> live_pcids st' = insert r (live_pcids st)"
    using alloc_spec[OF inv m p(1)] by simp
next
  fix st st' m
  assume inv: "pcid_inv st" and run: "pcid_acquire m st = (None, st')"
  then show "pcid_inv st' \<and> live_pcids st \<subseteq> live_pcids st'"
    using alloc_spec[OF inv, of m "fst (pcid_alloc m st)" "snd (pcid_alloc m st)"]
    by (auto simp: pcid_acquire_def split: if_splits prod.splits)
next
  fix st u and r :: "mode_id_t \<times> nat"
  assume inv: "pcid_inv st" and r: "r \<in> live_pcids st"
  obtain m p where mp: "r = (m, p)" by (cases r)
  then have "has_mode_slot m" using r by (simp add: live_pcids_def)
  then show "pcid_inv (pcid_drop u r st) \<and> live_pcids (pcid_drop u r st) = live_pcids st - {r}"
    using free_spec[OF inv] by (simp add: pcid_drop_def mp)
qed

section \<open>Properties\<close>

lemma distinct_pcids:
  assumes "distinct held" and "set held \<subseteq> live_pcids st"
  shows "distinct (map snd held)"
proof -
  have "inj_on snd (set held)"
    using assms(2) live_pcids_unique by (fastforce simp: inj_on_def)
  then show ?thesis using assms(1) by (simp add: distinct_map)
qed

text \<open>
  C27: address-space identifiers are exclusive across all modes.  After \<open>pcid_init\<close>, along any
  sequence of allocations for any modes and releases of held identifiers, no two holders have the
  same PCID, each PCID lies in the range of its mode, and none is a kernel PCID.
\<close>

theorem pcids_exclusive:
  assumes "pool_run pcid_acquire pcid_drop ops (pcid_init st) = (st', held)"
  shows "distinct (map snd held) \<and>
    (\<forall>(m, p)\<in>set held. pcid_get_mode_base m \<le> p \<and> p < pcid_get_mode_base m + PCIDS_PER_USER_MODE \<and>
       p \<noteq> PCID_KERNEL \<and> p \<noteq> PCID_KERNEL_SECURE)"
proof -
  have H: "distinct held" "set held \<subseteq> live_pcids st'"
    using pcid_pool.run_exclusive[OF conjunct1[OF pcid_init_inv] assms] by simp_all
  moreover have "pcid_get_mode_base m \<le> p \<and> p < pcid_get_mode_base m + PCIDS_PER_USER_MODE \<and>
       p \<noteq> PCID_KERNEL \<and> p \<noteq> PCID_KERNEL_SECURE" if "(m, p) \<in> live_pcids st'" for m p
    using that by (cases m) (auto simp: live_pcids_def used_pcids_def pcid_consts)
  ultimately show ?thesis using distinct_pcids by blast
qed

definition sample_pcids :: pcid_allocator where
  "sample_pcids = \<lparr>pa_mode = (\<lambda>_. zero_mode_slot), pa_total_allocations = 9, pa_total_reuses = 9,
     pa_total_tlb_scrubs = 9, pa_tlb = (\<lambda>_. True)\<rparr>"

lemma sample_pcids_run:
  "snd (pool_run pcid_acquire pcid_drop [Acquire MODE_CASUAL, Acquire MODE_GHOST, Acquire MODE_CASUAL,
     Release () (MODE_CASUAL, 1), Acquire MODE_CASUAL] (pcid_init sample_pcids))
   = [(MODE_CASUAL, 3), (MODE_CASUAL, 2), (MODE_GHOST, 769)]"
  by code_simp

theorem pcids_exclusive_witness:
  "\<exists>st'. pool_run pcid_acquire pcid_drop [Acquire MODE_CASUAL, Acquire MODE_GHOST, Acquire MODE_CASUAL,
     Release () (MODE_CASUAL, 1), Acquire MODE_CASUAL] (pcid_init sample_pcids)
     = (st', [(MODE_CASUAL, 3), (MODE_CASUAL, 2), (MODE_GHOST, 769)]) \<and> distinct [3, 2, 769 :: nat]"
proof -
  let ?r = "pool_run pcid_acquire pcid_drop [Acquire MODE_CASUAL, Acquire MODE_GHOST, Acquire MODE_CASUAL,
     Release () (MODE_CASUAL, 1), Acquire MODE_CASUAL] (pcid_init sample_pcids)"
  have run: "?r = (fst ?r, [(MODE_CASUAL, 3), (MODE_CASUAL, 2), (MODE_GHOST, 769)])"
    using sample_pcids_run by (metis prod.collapse)
  from pcids_exclusive[OF run] run show ?thesis by (intro exI[of _ "fst ?r"]) simp
qed



text \<open>
  C29: an address-space switch that does not panic loads exactly the requested page table and
  identifier, only an identifier that belongs to the mode, and requests that cached translations
  be kept (bit 63) exactly outside Ghost mode.
\<close>

theorem vmm_switch_loads_colored_cr3:
  assumes "vmm_switch pml4 p m st = Some st'" and "vs_pcid_enabled st" and "\<not> bit pml4 63"
  shows "vs_cr3 st' AND 0xFFF = word_of_nat p
    \<and> vs_cr3 st' AND NOT 0xFFF AND NOT (push_bit 63 1) = pml4
    \<and> bit (vs_cr3 st') 63 = (m \<noteq> MODE_GHOST)
    \<and> (if m = MODE_KERNEL then p = PCID_KERNEL \<or> p = PCID_KERNEL_SECURE
       else pcid_get_mode_base m \<le> p \<and> p < pcid_get_mode_base m + pcid_get_mode_count m)"
proof -
  define nf :: u64 where "nf = push_bit 63 1"
  have nf: "bit nf k \<longleftrightarrow> k = 63" for k
    unfolding nf_def bit_push_bit_iff by (auto simp: bit_1_iff)
  have "pml4 AND NOT nf = pml4"
    by (rule bit_word_eqI) (use assms(3) in \<open>auto simp: bit_and_iff bit_not_iff nf\<close>)
  moreover have "if m = MODE_KERNEL then p = PCID_KERNEL \<or> p = PCID_KERNEL_SECURE
       else pcid_get_mode_base m \<le> p \<and> p < pcid_get_mode_base m + pcid_get_mode_count m"
    using assms(1) by (auto simp: vmm_switch_def split: if_splits)
  ultimately show ?thesis
    using switch_cr3(2-4)[OF assms(1,2)] assms(3) unfolding nf_def by simp
qed

theorem vmm_switch_loads_colored_cr3_witness:
  "\<exists>st'. vmm_switch 0x7000 769 MODE_GHOST
       \<lparr>vs_cr3 = 0, vs_pcid_enabled = True, vs_pcid_switches = 0, vs_pcid_switch_flushes = 0\<rparr> = Some st'
     \<and> vs_cr3 st' AND 0xFFF = 769 \<and> \<not> bit (vs_cr3 st') 63"
proof -
  let ?st = "\<lparr>vs_cr3 = 0, vs_pcid_enabled = True, vs_pcid_switches = 0, vs_pcid_switch_flushes = 0\<rparr>"
  obtain st' where run: "vmm_switch 0x7000 769 MODE_GHOST ?st = Some st'"
    by (simp add: vmm_switch_def pcid_consts pcid_get_mode_count_def)
  then show ?thesis using vmm_switch_loads_colored_cr3[OF run] by simp
qed

end
