(* ===== verification/Mode.thy ===== *)
theory Mode
  imports Fate Audit_Ring Pcid
begin

text \<open>
  The mode state machine (\<^verbatim>\<open>src/kernel/mode.c\<close>): the compile, verify, apply and attest
  pipeline of a transition request, boot-time restoration, and the parts of other components
  that applying a transition drives: seed rotation and strike of the audit lattice, the
  scheduler's copy of mode and epoch (\<open>scheduler_on_mode_transition\<close>), the secure-context
  CR3 switches, the full TLB flush around Ghost mode, the protection-key register
  (\<^verbatim>\<open>src/kernel/pku.c\<close>) and the bleaching of the framebuffer
  (\<^verbatim>\<open>src/kernel/ocular.c\<close>).

  What a request reads of its surroundings (global tick, time stamp counter, current thread) is
  the record \<open>mode_ctx\<close>.
\<close>

section \<open>Data\<close>

datatype mode_reject_reason_t = MODE_REJECT_NONE | MODE_REJECT_TARGET_INVALID | MODE_REJECT_SOURCE_INVALID
  | MODE_REJECT_EDGE_ILLEGAL | MODE_REJECT_AUTH_REQUIRED | MODE_REJECT_SPECIAL_KEY_REQUIRED
  | MODE_REJECT_SYSTEM_PROMPT_REQUIRED | MODE_REJECT_COOLDOWN_ACTIVE | MODE_REJECT_DEESC_WINDOW_ACTIVE
  | MODE_REJECT_BOOT_POLICY | MODE_REJECT_AUTH_RETRY_LIMIT

fun reject_val :: "mode_reject_reason_t \<Rightarrow> u32" where
  "reject_val MODE_REJECT_NONE = 0"
| "reject_val MODE_REJECT_TARGET_INVALID = 1"
| "reject_val MODE_REJECT_SOURCE_INVALID = 2"
| "reject_val MODE_REJECT_EDGE_ILLEGAL = 3"
| "reject_val MODE_REJECT_AUTH_REQUIRED = 4"
| "reject_val MODE_REJECT_SPECIAL_KEY_REQUIRED = 5"
| "reject_val MODE_REJECT_SYSTEM_PROMPT_REQUIRED = 6"
| "reject_val MODE_REJECT_COOLDOWN_ACTIVE = 7"
| "reject_val MODE_REJECT_DEESC_WINDOW_ACTIVE = 8"
| "reject_val MODE_REJECT_BOOT_POLICY = 9"
| "reject_val MODE_REJECT_AUTH_RETRY_LIMIT = 10"

datatype envelope_deny_t = ENV_DENY_NONE | ENV_DENY_TARGET_INVALID | ENV_DENY_SOURCE_INVALID
  | ENV_DENY_EDGE_ILLEGAL

datatype envelope_class_t = ENV_CLASS_NONE | ENV_CLASS_BASELINE | ENV_CLASS_DEFENSIVE
  | ENV_CLASS_FAIL_CLOSED | ENV_CLASS_EPHEMERAL

definition MODE_AUTH_PASSWORD :: u32 where "MODE_AUTH_PASSWORD = 0x01"
definition MODE_AUTH_SPECIAL_KEY :: u32 where "MODE_AUTH_SPECIAL_KEY = 0x02"
definition MODE_AUTH_SYSTEM_PROMPT :: u32 where "MODE_AUTH_SYSTEM_PROMPT = 0x04"
definition MODE_AUTH_COOLDOWN_ELAPSED :: u32 where "MODE_AUTH_COOLDOWN_ELAPSED = 0x08"
definition MODE_AUTH_DEESC_ELAPSED :: u32 where "MODE_AUTH_DEESC_ELAPSED = 0x10"
definition MODE_AUTH_AUTOMATIC :: u32 where "MODE_AUTH_AUTOMATIC = 0x20"
definition MODE_AUTH_BOOT_INTENT :: u32 where "MODE_AUTH_BOOT_INTENT = 0x40"
definition MODE_AUTH_MANUAL :: u32 where "MODE_AUTH_MANUAL = 0x80"

lemmas mode_auth_bits = MODE_AUTH_PASSWORD_def MODE_AUTH_SPECIAL_KEY_def MODE_AUTH_SYSTEM_PROMPT_def
  MODE_AUTH_COOLDOWN_ELAPSED_def MODE_AUTH_DEESC_ELAPSED_def MODE_AUTH_AUTOMATIC_def
  MODE_AUTH_BOOT_INTENT_def MODE_AUTH_MANUAL_def

definition MODE_PROMPT_AUTH_RETRY_LIMIT :: u8 where "MODE_PROMPT_AUTH_RETRY_LIMIT = 3"
definition MODE_SECURE_COOLDOWN_TICKS :: u64 where "MODE_SECURE_COOLDOWN_TICKS = 2400"
definition MODE_LOCKDOWN_DEESC_TICKS :: u64 where "MODE_LOCKDOWN_DEESC_TICKS = 300"

record mode_st =
  ms_current :: mode_id_t
  ms_previous :: mode_id_t
  ms_mask :: u8
  ms_fate :: fate_st
  ms_transitions_total :: u64
  ms_transitions_auto :: u64
  ms_transitions_manual :: u64
  ms_security_epoch :: u64
  ms_envelope_txid :: u64
  ms_enter_tick :: "mode_id_t \<Rightarrow> u64"
  ms_prompt_auth_failures :: u8
  ms_boot_record :: mode_boot_record_t
  ms_cmos :: cmos
  ms_audit :: audit_st
  ms_sched_mode :: mode_id_t
  ms_sched_epoch :: u64
  ms_switch :: vmm_switch_st
  ms_pcid :: pcid_allocator
  ms_pkru :: "u32 option"
  ms_framebuffer :: "u8 list option"

record mode_ctx =
  mx_tick :: u64
  mx_tsc :: u64
  mx_thread :: "(u32 \<times> mode_id_t \<times> u32) option"

definition ctx_fate :: "mode_ctx \<Rightarrow> fate_ctx" where
  "ctx_fate cx = \<lparr>fx_tsc = mx_tsc cx, fx_owner_pid = map_option fst (mx_thread cx)\<rparr>"

definition ctx_audit :: "mode_ctx \<Rightarrow> audit_ctx" where
  "ctx_audit cx = \<lparr>ax_tick = mx_tick cx, ax_actor = map_option snd (mx_thread cx)\<rparr>"

record env_compiled_transition_t =
  ec_txid :: u64
  ec_from_mode :: mode_id_t
  ec_to_mode :: mode_id_t
  ec_source :: transition_source_t
  ec_auth_flags :: u32
  ec_reject_reason :: mode_reject_reason_t
  ec_from_class :: envelope_class_t
  ec_to_class :: envelope_class_t
  ec_requestor_pid :: u32
  ec_ghost_flush_required :: bool

record env_apply_snapshot_t =
  es_prev_mode :: mode_id_t
  es_current_mode :: mode_id_t
  es_mode_mask :: u8

section \<open>Compile\<close>

fun mode_to_envelope_class :: "mode_id_t \<Rightarrow> envelope_class_t" where
  "mode_to_envelope_class MODE_CASUAL = ENV_CLASS_BASELINE"
| "mode_to_envelope_class MODE_SECURE = ENV_CLASS_DEFENSIVE"
| "mode_to_envelope_class MODE_LOCKDOWN = ENV_CLASS_FAIL_CLOSED"
| "mode_to_envelope_class MODE_GHOST = ENV_CLASS_EPHEMERAL"
| "mode_to_envelope_class _ = ENV_CLASS_NONE"

fun mode_default_auth_flags :: "transition_source_t \<Rightarrow> u32" where
  "mode_default_auth_flags TRANSITION_SOURCE_USER =
     MODE_AUTH_PASSWORD OR MODE_AUTH_MANUAL OR MODE_AUTH_SPECIAL_KEY OR MODE_AUTH_COOLDOWN_ELAPSED"
| "mode_default_auth_flags TRANSITION_SOURCE_DAEMON =
     MODE_AUTH_PASSWORD OR MODE_AUTH_SYSTEM_PROMPT OR MODE_AUTH_COOLDOWN_ELAPSED OR MODE_AUTH_DEESC_ELAPSED"
| "mode_default_auth_flags TRANSITION_SOURCE_KERNEL =
     MODE_AUTH_AUTOMATIC OR MODE_AUTH_BOOT_INTENT OR MODE_AUTH_COOLDOWN_ELAPSED OR MODE_AUTH_DEESC_ELAPSED"

definition env_compile_transition ::
    "mode_ctx \<Rightarrow> mode_id_t \<Rightarrow> mode_id_t \<Rightarrow> transition_source_t \<Rightarrow> u32 \<Rightarrow> mode_st
      \<Rightarrow> env_compiled_transition_t \<times> mode_st" where
  "env_compile_transition cx current target source auth_flags st =
     (let txid = ms_envelope_txid st + 1 in
      (\<lparr>ec_txid = txid, ec_from_mode = current, ec_to_mode = target, ec_source = source,
        ec_auth_flags = auth_flags, ec_reject_reason = MODE_REJECT_NONE,
        ec_from_class = mode_to_envelope_class current, ec_to_class = mode_to_envelope_class target,
        ec_requestor_pid = (case mx_thread cx of Some (pid, _) \<Rightarrow> pid | None \<Rightarrow> 0),
        ec_ghost_flush_required = (target = MODE_GHOST \<or> current = MODE_GHOST)\<rparr>,
       st\<lparr>ms_envelope_txid := txid\<rparr>))"

section \<open>Verify\<close>

text \<open>The outcome of the policy check; \<open>Reboot\<close> is the call that does not return.\<close>

datatype verify_outcome =
    Allow mode_st
  | Deny envelope_deny_t mode_reject_reason_t mode_st
  | Reboot mode_st

definition auth_has :: "u32 \<Rightarrow> u32 \<Rightarrow> bool" where
  "auth_has flags b \<longleftrightarrow> flags AND b \<noteq> 0"

text \<open>A refused password on the daemon path counts, and the third one stores Lockdown and reboots.\<close>

definition prompt_auth_failure :: "mode_st \<Rightarrow> verify_outcome" where
  "prompt_auth_failure st =
     (let n = ms_prompt_auth_failures st + 1; st1 = st\<lparr>ms_prompt_auth_failures := n\<rparr> in
      if n \<ge> MODE_PROMPT_AUTH_RETRY_LIMIT
      then (case boot_record_store_mode MODE_LOCKDOWN (ms_boot_record st1, ms_cmos st1) of
              (br, cm) \<Rightarrow> Reboot (st1\<lparr>ms_boot_record := br, ms_cmos := cm\<rparr>))
      else Deny ENV_DENY_EDGE_ILLEGAL MODE_REJECT_AUTH_REQUIRED st1)"

definition env_verify_transition ::
    "u64 \<Rightarrow> env_compiled_transition_t \<Rightarrow> mode_st \<Rightarrow> verify_outcome" where
  "env_verify_transition tick_now c st =
     (let src = ec_source c; fl = ec_auth_flags c; from = ec_from_mode c; to = ec_to_mode c;
          kernel_override = (src = TRANSITION_SOURCE_KERNEL \<and> auth_has fl MODE_AUTH_AUTOMATIC);
          illegal = (\<lambda>r. Deny ENV_DENY_EDGE_ILLEGAL r st);
          user_daemon_or_override =
            (src = TRANSITION_SOURCE_USER \<or> src = TRANSITION_SOURCE_DAEMON \<or> kernel_override)
      in
      if mode_val to < mode_val MODE_CASUAL \<or> mode_val to > mode_val MODE_GHOST
        then Deny ENV_DENY_TARGET_INVALID MODE_REJECT_TARGET_INVALID st
      else if mode_val from > mode_val MODE_GHOST
        then Deny ENV_DENY_SOURCE_INVALID MODE_REJECT_SOURCE_INVALID st
      else if from = MODE_VOID then
        (if to = MODE_CASUAL then Allow st
         else if auth_has fl MODE_AUTH_BOOT_INTENT \<and> to = MODE_SECURE then Allow st
         else if auth_has fl MODE_AUTH_BOOT_INTENT \<and> to = MODE_LOCKDOWN then Allow st
         else illegal MODE_REJECT_BOOT_POLICY)
      else if from = MODE_CASUAL \<and> to = MODE_SECURE then
        (if \<not> (src = TRANSITION_SOURCE_USER \<or> src = TRANSITION_SOURCE_DAEMON \<or> src = TRANSITION_SOURCE_KERNEL)
         then illegal MODE_REJECT_EDGE_ILLEGAL else Allow st)
      else if from = MODE_CASUAL \<and> to = MODE_LOCKDOWN then
        (if \<not> user_daemon_or_override then illegal MODE_REJECT_EDGE_ILLEGAL
         else if \<not> (auth_has fl MODE_AUTH_PASSWORD \<or> kernel_override) then
           (if src = TRANSITION_SOURCE_DAEMON then prompt_auth_failure st
            else illegal MODE_REJECT_AUTH_REQUIRED)
         else if src = TRANSITION_SOURCE_DAEMON \<and> \<not> auth_has fl MODE_AUTH_SYSTEM_PROMPT
           then illegal MODE_REJECT_SYSTEM_PROMPT_REQUIRED
         else Allow st)
      else if from = MODE_CASUAL \<and> to = MODE_GHOST then
        (if src \<noteq> TRANSITION_SOURCE_USER then illegal MODE_REJECT_EDGE_ILLEGAL
         else if \<not> auth_has fl MODE_AUTH_PASSWORD \<and> \<not> kernel_override then illegal MODE_REJECT_AUTH_REQUIRED
         else Allow st)
      else if from = MODE_SECURE \<and> to = MODE_CASUAL then
        (if \<not> user_daemon_or_override then illegal MODE_REJECT_EDGE_ILLEGAL
         else if tick_now - ms_enter_tick st MODE_SECURE < MODE_SECURE_COOLDOWN_TICKS
                 \<and> \<not> auth_has fl MODE_AUTH_COOLDOWN_ELAPSED then illegal MODE_REJECT_COOLDOWN_ACTIVE
         else if \<not> auth_has fl MODE_AUTH_PASSWORD \<and> \<not> kernel_override then illegal MODE_REJECT_AUTH_REQUIRED
         else Allow st)
      else if from = MODE_SECURE \<and> to = MODE_LOCKDOWN then
        (if \<not> user_daemon_or_override then illegal MODE_REJECT_EDGE_ILLEGAL
         else if \<not> auth_has fl MODE_AUTH_PASSWORD \<and> \<not> kernel_override then illegal MODE_REJECT_AUTH_REQUIRED
         else Allow st)
      else if from = MODE_SECURE \<and> to = MODE_GHOST then
        (if \<not> (src = TRANSITION_SOURCE_USER \<or> src = TRANSITION_SOURCE_DAEMON \<or> src = TRANSITION_SOURCE_KERNEL)
         then illegal MODE_REJECT_EDGE_ILLEGAL else Allow st)
      else if from = MODE_LOCKDOWN \<and> to = MODE_SECURE then
        (if \<not> user_daemon_or_override then illegal MODE_REJECT_EDGE_ILLEGAL
         else if src = TRANSITION_SOURCE_USER \<and> \<not> kernel_override then
           (if \<not> auth_has fl MODE_AUTH_SPECIAL_KEY then illegal MODE_REJECT_SPECIAL_KEY_REQUIRED
            else Allow st)
         else if tick_now - ms_enter_tick st MODE_LOCKDOWN < MODE_LOCKDOWN_DEESC_TICKS
                 \<and> \<not> auth_has fl MODE_AUTH_DEESC_ELAPSED then illegal MODE_REJECT_DEESC_WINDOW_ACTIVE
         else if \<not> auth_has fl MODE_AUTH_PASSWORD \<or> \<not> auth_has fl MODE_AUTH_SYSTEM_PROMPT then
           (if kernel_override then Allow st else illegal MODE_REJECT_SYSTEM_PROMPT_REQUIRED)
         else Allow st)
      else if from = MODE_GHOST \<and> to = MODE_SECURE then
        (if \<not> (src = TRANSITION_SOURCE_USER \<or> kernel_override) then illegal MODE_REJECT_EDGE_ILLEGAL
         else if \<not> auth_has fl MODE_AUTH_PASSWORD \<and> \<not> kernel_override then illegal MODE_REJECT_AUTH_REQUIRED
         else Allow st)
      else if from = MODE_GHOST \<and> to = MODE_LOCKDOWN then
        (if \<not> (src = TRANSITION_SOURCE_KERNEL \<or> src = TRANSITION_SOURCE_DAEMON)
         then illegal MODE_REJECT_EDGE_ILLEGAL else Allow st)
      else illegal MODE_REJECT_EDGE_ILLEGAL)"

section \<open>Apply\<close>

text \<open>\<^verbatim>\<open>pku.c\<close>: one key enabled, all others access and write disabled.\<close>

definition pkru_for_reality :: "mode_id_t \<Rightarrow> u32" where
  "pkru_for_reality m =
     (let all_off = fold (\<lambda>i p. p OR push_bit (2 * i) 0x3) [0 ..< 16] 0;
          enable = (\<lambda>key. all_off AND NOT (push_bit (2 * key) 0x3))
      in case m of
           MODE_CASUAL \<Rightarrow> enable 1
         | MODE_SECURE \<Rightarrow> enable 2
         | MODE_LOCKDOWN \<Rightarrow> enable 3
         | MODE_GHOST \<Rightarrow> enable 4
         | _ \<Rightarrow> 0xFFFFFFFF)"

text \<open>The static flag of \<^verbatim>\<open>pku.c\<close> that gates every PKRU write; no code sets it.\<close>

definition pkru_enforcement_active :: bool where "pkru_enforcement_active = False"

text \<open>\<open>ms_pkru\<close> is \<open>None\<close> on a processor without protection keys.\<close>

definition pkru_set_reality :: "mode_id_t \<Rightarrow> mode_st \<Rightarrow> mode_st" where
  "pkru_set_reality m st =
     (if ms_pkru st = None then st
      else if \<not> pkru_enforcement_active then st
      else st\<lparr>ms_pkru := Some (pkru_for_reality m)\<rparr>)"

definition sched_mode_valid :: "mode_id_t \<Rightarrow> bool" where
  "sched_mode_valid m \<longleftrightarrow> mode_val m < MODE_COUNT"

definition scheduler_on_mode_transition :: "mode_id_t \<Rightarrow> u64 \<Rightarrow> mode_st \<Rightarrow> mode_st" where
  "scheduler_on_mode_transition to_mode epoch st =
     (if \<not> sched_mode_valid to_mode then st
      else st\<lparr>ms_sched_mode := to_mode, ms_sched_epoch := epoch\<rparr>)"

text \<open>Bit 63 of CR3 always reads as zero.\<close>

definition read_cr3 :: "vmm_switch_st \<Rightarrow> u64" where
  "read_cr3 vs = vs_cr3 vs AND NOT (push_bit 63 1)"

definition secure_context :: "nat \<Rightarrow> mode_st \<Rightarrow> mode_st option" where
  "secure_context pcid st =
     map_option (\<lambda>vs. st\<lparr>ms_switch := vs\<rparr>)
       (vmm_switch (read_cr3 (ms_switch st) AND NOT 0xFFF) pcid MODE_KERNEL (ms_switch st))"

definition mode_enter_secure_context :: "mode_st \<Rightarrow> mode_st option" where
  "mode_enter_secure_context st = secure_context PCID_KERNEL_SECURE st"

definition mode_exit_secure_context :: "mode_st \<Rightarrow> mode_st option" where
  "mode_exit_secure_context st = secure_context PCID_KERNEL st"

definition invpcid_flush_all :: "mode_st \<Rightarrow> mode_st" where
  "invpcid_flush_all st = st\<lparr>ms_pcid := (ms_pcid st)\<lparr>pa_tlb := (\<lambda>_. False)\<rparr>\<rparr>"

text \<open>\<open>hyper_scrub(fb_ptr, fb_size / 8)\<close> on the bytes of the framebuffer, when there is one.\<close>

definition bleach_bytes :: "u8 list \<Rightarrow> u8 list" where
  "bleach_bytes fb = replicate (8 * (length fb div 8)) 0 @ drop (8 * (length fb div 8)) fb"

definition ocular_bleach :: "mode_st \<Rightarrow> mode_st" where
  "ocular_bleach st = st\<lparr>ms_framebuffer := map_option bleach_bytes (ms_framebuffer st)\<rparr>"

definition env_commit_mode :: "u64 \<Rightarrow> env_compiled_transition_t \<Rightarrow> mode_st \<Rightarrow> mode_st" where
  "env_commit_mode tick c st =
     (let to = ec_to_mode c in
      st\<lparr>ms_previous := ms_current st, ms_current := to,
         ms_mask := ucast (push_bit (mode_val to) (1 :: u32)),
         ms_enter_tick := (ms_enter_tick st)(to := tick),
         ms_prompt_auth_failures := (if to = MODE_LOCKDOWN then 0 else ms_prompt_auth_failures st),
         ms_transitions_total := ms_transitions_total st + 1,
         ms_transitions_auto := ms_transitions_auto st
           + (if ec_source c = TRANSITION_SOURCE_KERNEL then 1 else 0),
         ms_transitions_manual := ms_transitions_manual st
           + (if ec_source c = TRANSITION_SOURCE_KERNEL then 0 else 1),
         ms_security_epoch := ms_security_epoch st + 1\<rparr>)"

definition env_audit_transition ::
    "mode_ctx \<Rightarrow> env_compiled_transition_t \<Rightarrow> mode_id_t \<Rightarrow> mode_st \<Rightarrow> mode_st" where
  "env_audit_transition cx c current st =
     (let to = ec_to_mode c in
      st\<lparr>ms_audit :=
        audit_strike (ctx_audit cx) AUDIT_EVENT_PHASE_SHIFT AUDIT_RESULT_OK
          (push_bit 32 (word_of_nat (mode_val to)) OR word_of_nat (mode_val current))
          (sched_meta (ucast (source_val (ec_source c))) (ec_auth_flags c))
          (audit_rotate_seed to (ms_security_epoch st) (ms_audit st))\<rparr>)"

definition env_apply_transition ::
    "mode_ctx \<Rightarrow> env_compiled_transition_t \<Rightarrow> mode_st
      \<Rightarrow> (bool \<times> env_apply_snapshot_t \<times> mode_st) option" where
  "env_apply_transition cx c st =
     (let current = ms_current st;
          snapshot = \<lparr>es_prev_mode = ms_previous st, es_current_mode = current,
                      es_mode_mask = ms_mask st\<rparr>;
          st1 = env_commit_mode (mx_tick cx) c st;
          st2 = pkru_set_reality (ec_to_mode c) st1;
          st3 = env_audit_transition cx c current st2;
          st4 = scheduler_on_mode_transition (ec_to_mode c) (ms_security_epoch st3) st3
      in case mode_enter_secure_context st4 of
           None \<Rightarrow> None
         | Some st5 \<Rightarrow>
           let st6 = (if ec_ghost_flush_required c then invpcid_flush_all st5 else st5)
           in map_option (\<lambda>st7. (True, snapshot, st7)) (mode_exit_secure_context (ocular_bleach st6)))"

definition env_rollback_transition :: "env_apply_snapshot_t \<Rightarrow> mode_st \<Rightarrow> mode_st" where
  "env_rollback_transition snapshot st =
     st\<lparr>ms_previous := es_prev_mode snapshot, ms_current := es_current_mode snapshot,
        ms_mask := es_mode_mask snapshot\<rparr>"

section \<open>Requests\<close>

datatype request_outcome =
    Returned int mode_st
  | Rebooted mode_st
  | Panicked

definition store_boot_mode :: "mode_id_t \<Rightarrow> mode_st \<Rightarrow> mode_st" where
  "store_boot_mode m st =
     (case boot_record_store_mode m (ms_boot_record st, ms_cmos st) of
        (br, cm) \<Rightarrow> st\<lparr>ms_boot_record := br, ms_cmos := cm\<rparr>)"

definition log_transition ::
    "mode_ctx \<Rightarrow> mode_id_t \<Rightarrow> mode_id_t \<Rightarrow> transition_source_t \<Rightarrow> fate_result_t \<Rightarrow> mode_reject_reason_t
      \<Rightarrow> mode_st \<Rightarrow> mode_st" where
  "log_transition cx from to source res reason st =
     st\<lparr>ms_fate := fate_log_transition_event (ctx_fate cx) from to source res (reject_val reason) (ms_fate st)\<rparr>"

definition mode_request_transition_ex ::
    "mode_ctx \<Rightarrow> mode_id_t \<Rightarrow> transition_source_t \<Rightarrow> u32 \<Rightarrow> mode_st \<Rightarrow> request_outcome" where
  "mode_request_transition_ex cx target source auth_flags st =
     (let current = ms_current st in
      if current = target then Returned 0 st
      else
        let (c, st1) = env_compile_transition cx current target source auth_flags st in
        case env_verify_transition (mx_tick cx) c st1 of
          Reboot st2 \<Rightarrow> Rebooted st2
        | Deny d reason st2 \<Rightarrow>
            Returned (- 1) (log_transition cx current target source FATE_RESULT_REJECTED reason st2)
        | Allow st2 \<Rightarrow>
            (case env_apply_transition cx c st2 of
               None \<Rightarrow> Panicked
             | Some (apply_ok, snapshot, st3) \<Rightarrow>
               if \<not> apply_ok then
                 Returned (- 1) (log_transition cx current target source FATE_RESULT_REJECTED
                   MODE_REJECT_EDGE_ILLEGAL (env_rollback_transition snapshot st3))
               else
               let st4 = log_transition cx current target source FATE_RESULT_ACCEPTED MODE_REJECT_NONE st3
               in Returned 0
                    (if target = MODE_CASUAL \<or> target = MODE_SECURE \<or> target = MODE_LOCKDOWN
                     then store_boot_mode target st4 else st4)))"

definition mode_request_transition ::
    "mode_ctx \<Rightarrow> mode_id_t \<Rightarrow> transition_source_t \<Rightarrow> mode_st \<Rightarrow> request_outcome" where
  "mode_request_transition cx target source st =
     mode_request_transition_ex cx target source (mode_default_auth_flags source) st"

text \<open>
  The boot sequence.  The whole state structure is zeroed, the boot record is read back from
  CMOS, the machine enters Casual and then the stored mode.
\<close>

definition mode_state_zero :: "mode_st \<Rightarrow> mode_st" where
  "mode_state_zero st = st\<lparr>ms_current := MODE_VOID, ms_previous := MODE_VOID, ms_mask := 0,
     ms_fate := \<lparr>ft_history = replicate MODE_HISTORY_SIZE zero_transition, ft_head_index = 0,
                 ft_generation_id = 0\<rparr>,
     ms_transitions_total := 0, ms_transitions_auto := 0, ms_transitions_manual := 0,
     ms_security_epoch := 0, ms_envelope_txid := 0, ms_enter_tick := (\<lambda>_. 0),
     ms_prompt_auth_failures := 0\<rparr>"

definition after_request :: "(mode_st \<Rightarrow> request_outcome) \<Rightarrow> request_outcome \<Rightarrow> request_outcome" where
  "after_request k r = (case r of Returned _ st \<Rightarrow> k st | Rebooted st \<Rightarrow> Rebooted st | Panicked \<Rightarrow> Panicked)"

definition mode_init :: "mode_ctx \<Rightarrow> mode_st \<Rightarrow> request_outcome" where
  "mode_init cx st =
     (if ms_current st \<noteq> MODE_VOID then Returned 0 st
      else
        let st0 = mode_state_zero st;
            st1 = st0\<lparr>ms_boot_record := boot_record_load_persistent (ms_cmos st),
                      ms_enter_tick := (ms_enter_tick st0)(MODE_VOID := mx_tick cx)\<rparr>;
            boot_auth = MODE_AUTH_AUTOMATIC OR MODE_AUTH_BOOT_INTENT
        in after_request
             (\<lambda>st2. case boot_record_load_mode (ms_boot_record st2) of
                Some m \<Rightarrow>
                  if m \<noteq> MODE_CASUAL \<and> (m = MODE_SECURE \<or> m = MODE_LOCKDOWN)
                  then mode_request_transition_ex cx m TRANSITION_SOURCE_KERNEL boot_auth st2
                  else Returned 0 st2
              | None \<Rightarrow> Returned 0 st2)
             (mode_request_transition_ex cx MODE_CASUAL TRANSITION_SOURCE_KERNEL boot_auth st1))"

definition mode_is_secure :: "mode_st \<Rightarrow> bool" where
  "mode_is_secure st \<longleftrightarrow> ms_current st = MODE_SECURE \<or> ms_current st = MODE_LOCKDOWN"

end
