(* ===== verification/Mode_Policy.thy ===== *)
theory Mode_Policy
  imports Mode
begin

text \<open>
  What the mode state machine guarantees: the transition pipeline decides exactly the policy
  table, an accepted request has all its effects and a refused one none on the mode, any sequence
  of requests leaves a hash-chained log whose accepted records form a path of legal edges, and
  what the boot record does and does not achieve.
\<close>

section \<open>The transition policy\<close>

text \<open>
  The legal matrix and per-edge guards of the transition contract
  (\<^verbatim>\<open>src/docs/components/modes/transition_contract_freeze.md\<close>), as one table.  The
  contract does not list the automatic kernel source for the edges marked \<open>auto\<close>, nor the
  daemon for the two unauthenticated edges; the code accepts both.
\<close>

fun edge_policy :: "mode_id_t \<Rightarrow> mode_id_t \<Rightarrow> transition_source_t \<Rightarrow> u32 \<Rightarrow> bool \<Rightarrow> bool \<Rightarrow> bool" where
  "edge_policy MODE_VOID MODE_CASUAL src fl cooled deesc = True"
| "edge_policy MODE_VOID MODE_SECURE src fl cooled deesc = auth_has fl MODE_AUTH_BOOT_INTENT"
| "edge_policy MODE_VOID MODE_LOCKDOWN src fl cooled deesc = auth_has fl MODE_AUTH_BOOT_INTENT"
| "edge_policy MODE_CASUAL MODE_SECURE src fl cooled deesc = True"
| "edge_policy MODE_CASUAL MODE_LOCKDOWN src fl cooled deesc =
     (case src of
        TRANSITION_SOURCE_USER \<Rightarrow> auth_has fl MODE_AUTH_PASSWORD
      | TRANSITION_SOURCE_DAEMON \<Rightarrow> auth_has fl MODE_AUTH_PASSWORD \<and> auth_has fl MODE_AUTH_SYSTEM_PROMPT
      | TRANSITION_SOURCE_KERNEL \<Rightarrow> auth_has fl MODE_AUTH_AUTOMATIC)"
| "edge_policy MODE_CASUAL MODE_GHOST src fl cooled deesc =
     (src = TRANSITION_SOURCE_USER \<and> auth_has fl MODE_AUTH_PASSWORD)"
| "edge_policy MODE_SECURE MODE_CASUAL src fl cooled deesc =
     ((cooled \<or> auth_has fl MODE_AUTH_COOLDOWN_ELAPSED) \<and>
      auth_has fl (if src = TRANSITION_SOURCE_KERNEL then MODE_AUTH_AUTOMATIC else MODE_AUTH_PASSWORD))"
| "edge_policy MODE_SECURE MODE_LOCKDOWN src fl cooled deesc =
     auth_has fl (if src = TRANSITION_SOURCE_KERNEL then MODE_AUTH_AUTOMATIC else MODE_AUTH_PASSWORD)"
| "edge_policy MODE_SECURE MODE_GHOST src fl cooled deesc = True"
| "edge_policy MODE_LOCKDOWN MODE_SECURE src fl cooled deesc =
     (case src of
        TRANSITION_SOURCE_USER \<Rightarrow> auth_has fl MODE_AUTH_SPECIAL_KEY
      | TRANSITION_SOURCE_DAEMON \<Rightarrow> (deesc \<or> auth_has fl MODE_AUTH_DEESC_ELAPSED) \<and>
          auth_has fl MODE_AUTH_PASSWORD \<and> auth_has fl MODE_AUTH_SYSTEM_PROMPT
      | TRANSITION_SOURCE_KERNEL \<Rightarrow> (deesc \<or> auth_has fl MODE_AUTH_DEESC_ELAPSED) \<and>
          auth_has fl MODE_AUTH_AUTOMATIC)"
| "edge_policy MODE_GHOST MODE_SECURE src fl cooled deesc =
     (case src of
        TRANSITION_SOURCE_USER \<Rightarrow> auth_has fl MODE_AUTH_PASSWORD
      | TRANSITION_SOURCE_DAEMON \<Rightarrow> False
      | TRANSITION_SOURCE_KERNEL \<Rightarrow> auth_has fl MODE_AUTH_AUTOMATIC)"
| "edge_policy MODE_GHOST MODE_LOCKDOWN src fl cooled deesc = (src \<noteq> TRANSITION_SOURCE_USER)"
| "edge_policy from to src fl cooled deesc = False"

text \<open>The policy as it stands in a state, at a tick.\<close>

definition permitted :: "mode_st \<Rightarrow> u64 \<Rightarrow> mode_id_t \<Rightarrow> transition_source_t \<Rightarrow> u32 \<Rightarrow> bool" where
  "permitted st tick target src fl =
     edge_policy (ms_current st) target src fl
       (tick - ms_enter_tick st MODE_SECURE \<ge> MODE_SECURE_COOLDOWN_TICKS)
       (tick - ms_enter_tick st MODE_LOCKDOWN \<ge> MODE_LOCKDOWN_DEESC_TICKS)"

text \<open>The only request that does not return: the daemon's third refused password.\<close>

definition reboots :: "mode_st \<Rightarrow> mode_id_t \<Rightarrow> transition_source_t \<Rightarrow> u32 \<Rightarrow> bool" where
  "reboots st target src fl \<longleftrightarrow> ms_current st = MODE_CASUAL \<and> target = MODE_LOCKDOWN \<and>
     src = TRANSITION_SOURCE_DAEMON \<and> \<not> auth_has fl MODE_AUTH_PASSWORD \<and>
     ms_prompt_auth_failures st + 1 \<ge> MODE_PROMPT_AUTH_RETRY_LIMIT"

inductive legal_edge :: "mode_id_t \<Rightarrow> mode_id_t \<Rightarrow> bool" where
  "legal_edge MODE_VOID MODE_CASUAL"
| "legal_edge MODE_VOID MODE_SECURE"
| "legal_edge MODE_VOID MODE_LOCKDOWN"
| "legal_edge MODE_CASUAL MODE_SECURE"
| "legal_edge MODE_CASUAL MODE_LOCKDOWN"
| "legal_edge MODE_CASUAL MODE_GHOST"
| "legal_edge MODE_SECURE MODE_CASUAL"
| "legal_edge MODE_SECURE MODE_LOCKDOWN"
| "legal_edge MODE_SECURE MODE_GHOST"
| "legal_edge MODE_LOCKDOWN MODE_SECURE"
| "legal_edge MODE_GHOST MODE_SECURE"
| "legal_edge MODE_GHOST MODE_LOCKDOWN"

code_pred legal_edge .

inductive_simps legal_edge_simps [simp]:
  "legal_edge MODE_GHOST m" "legal_edge MODE_LOCKDOWN m" "legal_edge MODE_SECURE m"
  "legal_edge MODE_CASUAL m" "legal_edge MODE_VOID m"

lemma edge_policy_legal: "edge_policy from to src fl cooled deesc \<Longrightarrow> legal_edge from to"
  by (cases "(from, to, src, fl, cooled, deesc)" rule: edge_policy.cases) auto

text \<open>States that differ in the failure counter only.\<close>

definition counted :: "mode_st \<Rightarrow> mode_st \<Rightarrow> bool" where
  "counted st st' \<longleftrightarrow> st'\<lparr>ms_prompt_auth_failures := 0\<rparr> = st\<lparr>ms_prompt_auth_failures := 0\<rparr>"

lemma counted_refl [simp]: "counted st st" "counted st (st\<lparr>ms_prompt_auth_failures := n\<rparr>)"
  by (simp_all add: counted_def)

lemma counted_fields:
  assumes "counted st st'"
  obtains n where "st' = st\<lparr>ms_prompt_auth_failures := n\<rparr>"
proof -
  have "st' = (st'\<lparr>ms_prompt_auth_failures := 0\<rparr>)\<lparr>ms_prompt_auth_failures := ms_prompt_auth_failures st'\<rparr>"
    by simp
  also have "\<dots> = st\<lparr>ms_prompt_auth_failures := ms_prompt_auth_failures st'\<rparr>"
    using assms by (simp add: counted_def)
  finally show thesis by (rule that)
qed

fun denied :: "mode_st \<Rightarrow> verify_outcome \<Rightarrow> bool" where
  "denied st (Deny d r st') \<longleftrightarrow> d \<noteq> ENV_DENY_NONE \<and> r \<noteq> MODE_REJECT_NONE \<and> counted st st'"
| "denied st _ \<longleftrightarrow> False"

lemma verify_spec:
  assumes wf: "mode_wf (ec_from_mode c)" "mode_wf (ec_to_mode c)"
    and fr: "ms_current st = ec_from_mode c"
  shows "if permitted st tick (ec_to_mode c) (ec_source c) (ec_auth_flags c)
     then env_verify_transition tick c st = Allow st
     else if reboots st (ec_to_mode c) (ec_source c) (ec_auth_flags c)
     then env_verify_transition tick c st = prompt_auth_failure st
     else denied st (env_verify_transition tick c st)"
proof (cases "ec_from_mode c")
  case MODE_VOID
  then show ?thesis using wf fr by (cases "ec_to_mode c")
    (auto simp: env_verify_transition_def permitted_def reboots_def Let_def mode_wf_def MODE_COUNT_def)
next
  case MODE_CASUAL
  then show ?thesis using wf fr by (cases "ec_to_mode c"; cases "ec_source c")
    (auto simp: env_verify_transition_def permitted_def reboots_def prompt_auth_failure_def Let_def
      mode_wf_def MODE_COUNT_def)
next
  case MODE_SECURE
  then show ?thesis using wf fr by (cases "ec_to_mode c"; cases "ec_source c")
    (auto simp: env_verify_transition_def permitted_def reboots_def Let_def mode_wf_def MODE_COUNT_def not_le)
next
  case MODE_LOCKDOWN
  then show ?thesis using wf fr by (cases "ec_to_mode c"; cases "ec_source c")
    (auto simp: env_verify_transition_def permitted_def reboots_def Let_def mode_wf_def MODE_COUNT_def not_le)
next
  case MODE_GHOST
  then show ?thesis using wf fr by (cases "ec_to_mode c"; cases "ec_source c")
    (auto simp: env_verify_transition_def permitted_def reboots_def Let_def mode_wf_def MODE_COUNT_def)
next
  case MODE_KERNEL
  then show ?thesis using wf fr by (cases "ec_to_mode c")
    (auto simp: env_verify_transition_def permitted_def reboots_def Let_def mode_wf_def MODE_COUNT_def)
next
  case (MODE_OTHER n)
  then show ?thesis using wf fr by (cases "ec_to_mode c")
    (auto simp: env_verify_transition_def permitted_def reboots_def Let_def mode_wf_def MODE_COUNT_def)
qed

section \<open>Applying a transition\<close>

lemma vmm_switch_kernel:
  assumes "base AND 0xFFF = 0" and "pcid = PCID_KERNEL \<or> pcid = PCID_KERNEL_SECURE"
  obtains vs' where "vmm_switch base pcid MODE_KERNEL vs = Some vs'"
proof -
  have "\<not> pcid > PCID_MAX" using assms(2) by (auto simp: pcid_consts)
  then show thesis using that assms unfolding vmm_switch_def Let_def by fastforce
qed

lemma secure_context_some:
  assumes "pcid = PCID_KERNEL \<or> pcid = PCID_KERNEL_SECURE"
  obtains vs where "secure_context pcid st = Some (st\<lparr>ms_switch := vs\<rparr>)"
proof -
  have "(x AND NOT y) AND y = 0" for x y :: u64 by (simp add: and.assoc)
  then obtain vs where "vmm_switch (read_cr3 (ms_switch st) AND NOT 0xFFF) pcid MODE_KERNEL (ms_switch st) = Some vs"
    using vmm_switch_kernel assms by metis
  then show thesis by (intro that) (simp add: secure_context_def)
qed

text \<open>Everything an accepted transition does to the state, the hardware switch state apart.\<close>

definition applied :: "mode_ctx \<Rightarrow> env_compiled_transition_t \<Rightarrow> mode_st \<Rightarrow> mode_st" where
  "applied cx c st =
     (let st3 = env_audit_transition cx c (ms_current st)
                  (pkru_set_reality (ec_to_mode c) (env_commit_mode (mx_tick cx) c st));
          st4 = scheduler_on_mode_transition (ec_to_mode c) (ms_security_epoch st3) st3
      in ocular_bleach (if ec_ghost_flush_required c then invpcid_flush_all st4 else st4))"

lemma apply_some:
  "\<exists>vs snapshot. env_apply_transition cx c st = Some (True, snapshot, (applied cx c st)\<lparr>ms_switch := vs\<rparr>)"
proof -
  define st4 where "st4 = (let st3 = env_audit_transition cx c (ms_current st)
    (pkru_set_reality (ec_to_mode c) (env_commit_mode (mx_tick cx) c st))
    in scheduler_on_mode_transition (ec_to_mode c) (ms_security_epoch st3) st3)"
  obtain vs where enter: "mode_enter_secure_context st4 = Some (st4\<lparr>ms_switch := vs\<rparr>)"
    using secure_context_some[of PCID_KERNEL_SECURE st4] unfolding mode_enter_secure_context_def by blast
  define st6 where "st6 = (if ec_ghost_flush_required c then invpcid_flush_all (st4\<lparr>ms_switch := vs\<rparr>)
    else st4\<lparr>ms_switch := vs\<rparr>)"
  obtain vs' where leave: "mode_exit_secure_context (ocular_bleach st6) = Some ((ocular_bleach st6)\<lparr>ms_switch := vs'\<rparr>)"
    using secure_context_some[of PCID_KERNEL "ocular_bleach st6"] unfolding mode_exit_secure_context_def by blast
  have "(ocular_bleach st6)\<lparr>ms_switch := vs'\<rparr> = (applied cx c st)\<lparr>ms_switch := vs'\<rparr>"
    by (simp add: st6_def applied_def st4_def Let_def ocular_bleach_def invpcid_flush_all_def)
  moreover have "env_apply_transition cx c st =
    map_option (\<lambda>st7. (True, \<lparr>es_prev_mode = ms_previous st, es_current_mode = ms_current st,
      es_mode_mask = ms_mask st\<rparr>, st7)) (mode_exit_secure_context (ocular_bleach st6))"
    unfolding env_apply_transition_def Let_def
    using enter unfolding st4_def Let_def st6_def by simp
  ultimately show ?thesis using leave by auto
qed

lemma pkru_set_reality_id: "pkru_set_reality m st = st"
  by (simp add: pkru_set_reality_def pkru_enforcement_active_def)

lemma applied_eq:
  assumes "sched_mode_valid (ec_to_mode c)"
  shows "applied cx c st = (env_commit_mode (mx_tick cx) c st)\<lparr>
    ms_audit := audit_strike (ctx_audit cx) AUDIT_EVENT_PHASE_SHIFT AUDIT_RESULT_OK
       (push_bit 32 (word_of_nat (mode_val (ec_to_mode c))) OR word_of_nat (mode_val (ms_current st)))
       (sched_meta (ucast (source_val (ec_source c))) (ec_auth_flags c))
       (audit_rotate_seed (ec_to_mode c) (ms_security_epoch st + 1) (ms_audit st)),
    ms_sched_mode := ec_to_mode c, ms_sched_epoch := ms_security_epoch st + 1,
    ms_pcid := (if ec_ghost_flush_required c then (ms_pcid st)\<lparr>pa_tlb := (\<lambda>_. False)\<rparr> else ms_pcid st),
    ms_framebuffer := map_option bleach_bytes (ms_framebuffer st)\<rparr>"
  unfolding applied_def Let_def pkru_set_reality_id scheduler_on_mode_transition_def
  using assms by (simp add: env_audit_transition_def Let_def env_commit_mode_def ocular_bleach_def
    invpcid_flush_all_def)

lemma applied_fields:
  assumes "sched_mode_valid (ec_to_mode c)"
  shows "ms_current (applied cx c st) = ec_to_mode c"
    "ms_previous (applied cx c st) = ms_current st"
    "ms_mask (applied cx c st) = ucast (push_bit (mode_val (ec_to_mode c)) (1 :: u32))"
    "ms_security_epoch (applied cx c st) = ms_security_epoch st + 1"
    "ms_sched_mode (applied cx c st) = ec_to_mode c"
    "ms_sched_epoch (applied cx c st) = ms_security_epoch st + 1"
    "ms_fate (applied cx c st) = ms_fate st"
    "ms_boot_record (applied cx c st) = ms_boot_record st"
    "ms_cmos (applied cx c st) = ms_cmos st"
    "ms_pkru (applied cx c st) = ms_pkru st"
    "ms_enter_tick (applied cx c st) = (ms_enter_tick st)(ec_to_mode c := mx_tick cx)"
    "ms_audit (applied cx c st) = audit_strike (ctx_audit cx) AUDIT_EVENT_PHASE_SHIFT AUDIT_RESULT_OK
       (push_bit 32 (word_of_nat (mode_val (ec_to_mode c))) OR word_of_nat (mode_val (ms_current st)))
       (sched_meta (ucast (source_val (ec_source c))) (ec_auth_flags c))
       (audit_rotate_seed (ec_to_mode c) (ms_security_epoch st + 1) (ms_audit st))"
    "ec_ghost_flush_required c \<Longrightarrow> \<not> pa_tlb (ms_pcid (applied cx c st)) p"
    "\<not> ec_ghost_flush_required c \<Longrightarrow> ms_pcid (applied cx c st) = ms_pcid st"
    "ms_framebuffer (applied cx c st) = map_option bleach_bytes (ms_framebuffer st)"
  by (simp_all add: applied_eq[OF assms] env_commit_mode_def Let_def)

section \<open>Requests\<close>

definition compiled :: "mode_ctx \<Rightarrow> mode_id_t \<Rightarrow> transition_source_t \<Rightarrow> u32 \<Rightarrow> mode_st \<Rightarrow> env_compiled_transition_t" where
  "compiled cx target src fl st = fst (env_compile_transition cx (ms_current st) target src fl st)"

lemma compiled_fields [simp]:
  "ec_from_mode (compiled cx target src fl st) = ms_current st"
  "ec_to_mode (compiled cx target src fl st) = target"
  "ec_source (compiled cx target src fl st) = src"
  "ec_auth_flags (compiled cx target src fl st) = fl"
  "ec_ghost_flush_required (compiled cx target src fl st) \<longleftrightarrow> target = MODE_GHOST \<or> ms_current st = MODE_GHOST"
  by (simp_all add: compiled_def env_compile_transition_def Let_def)

lemma compile_state: "env_compile_transition cx (ms_current st) target src fl st =
    (compiled cx target src fl st, st\<lparr>ms_envelope_txid := ms_envelope_txid st + 1\<rparr>)"
  by (simp add: compiled_def env_compile_transition_def Let_def)

lemma permitted_txid [simp]:
  "permitted (st\<lparr>ms_envelope_txid := n\<rparr>) tick target src fl = permitted st tick target src fl"
  "reboots (st\<lparr>ms_envelope_txid := n\<rparr>) target src fl = reboots st target src fl"
  by (simp_all add: permitted_def reboots_def)

lemma permitted_target:
  assumes "permitted st tick target src fl"
  shows "legal_edge (ms_current st) target" "sched_mode_valid target" "target \<noteq> ms_current st"
    "target \<noteq> MODE_VOID"
  using edge_policy_legal[OF assms[unfolded permitted_def]]
  by (auto elim!: legal_edge.cases simp: sched_mode_valid_def MODE_COUNT_def)

lemma request_same: "mode_request_transition_ex cx (ms_current st) src fl st = Returned 0 st"
  by (simp add: mode_request_transition_ex_def)

lemma request_permitted:
  assumes wf: "mode_wf (ms_current st)" "mode_wf target"
    and ok: "permitted st (mx_tick cx) target src fl"
  obtains st1 vs where
    "st1 = (applied cx (compiled cx target src fl st) (st\<lparr>ms_envelope_txid := ms_envelope_txid st + 1\<rparr>))
       \<lparr>ms_switch := vs\<rparr>"
    "mode_request_transition_ex cx target src fl st = Returned 0
       ((if storable target then store_boot_mode target else (\<lambda>s. s))
          (log_transition cx (ms_current st) target src FATE_RESULT_ACCEPTED MODE_REJECT_NONE st1))"
proof -
  let ?c = "compiled cx target src fl st" and ?st = "st\<lparr>ms_envelope_txid := ms_envelope_txid st + 1\<rparr>"
  have "env_verify_transition (mx_tick cx) ?c ?st = Allow ?st"
    using verify_spec[of ?c ?st "mx_tick cx"] wf ok by simp
  moreover obtain vs sn where "env_apply_transition cx ?c ?st = Some (True, sn, (applied cx ?c ?st)\<lparr>ms_switch := vs\<rparr>)"
    using apply_some by blast
  ultimately show thesis
    using that[OF refl, of vs] permitted_target(3)[OF ok]
    by (auto simp: mode_request_transition_ex_def compile_state Let_def storable_def)
qed

lemma request_rejected:
  assumes wf: "mode_wf (ms_current st)" "mode_wf target" and ne: "ms_current st \<noteq> target"
    and no: "\<not> permitted st (mx_tick cx) target src fl" "\<not> reboots st target src fl"
  obtains reason n where "reason \<noteq> MODE_REJECT_NONE"
    "mode_request_transition_ex cx target src fl st = Returned (- 1)
       (log_transition cx (ms_current st) target src FATE_RESULT_REJECTED reason
          (st\<lparr>ms_envelope_txid := ms_envelope_txid st + 1, ms_prompt_auth_failures := n\<rparr>))"
proof -
  let ?c = "compiled cx target src fl st" and ?st = "st\<lparr>ms_envelope_txid := ms_envelope_txid st + 1\<rparr>"
  have "denied ?st (env_verify_transition (mx_tick cx) ?c ?st)"
    using verify_spec[of ?c ?st "mx_tick cx"] wf no by simp
  then obtain d r st' where v: "env_verify_transition (mx_tick cx) ?c ?st = Deny d r st'"
    and r: "r \<noteq> MODE_REJECT_NONE" and c: "counted ?st st'"
    by (cases "env_verify_transition (mx_tick cx) ?c ?st") auto
  obtain n where "st' = ?st\<lparr>ms_prompt_auth_failures := n\<rparr>" using counted_fields[OF c] .
  then show thesis
    using that[OF r, of n] v ne by (simp add: mode_request_transition_ex_def compile_state Let_def)
qed

lemma request_reboots:
  assumes no: "reboots st target src fl"
  shows "\<exists>st'. mode_request_transition_ex cx target src fl st = Rebooted st' \<and>
    (ms_boot_record st', ms_cmos st') = boot_record_store_mode MODE_LOCKDOWN (ms_boot_record st, ms_cmos st)"
proof -
  let ?c = "compiled cx target src fl st" and ?st = "st\<lparr>ms_envelope_txid := ms_envelope_txid st + 1\<rparr>"
  have "env_verify_transition (mx_tick cx) ?c ?st = prompt_auth_failure ?st"
    using verify_spec[of ?c ?st "mx_tick cx"] no by (auto simp: reboots_def mode_wf_def permitted_def)
  moreover have "\<exists>st'. prompt_auth_failure ?st = Reboot st' \<and>
    (ms_boot_record st', ms_cmos st') = boot_record_store_mode MODE_LOCKDOWN (ms_boot_record st, ms_cmos st)"
    using no by (auto simp: prompt_auth_failure_def Let_def reboots_def split: prod.splits)
  moreover have "ms_current st \<noteq> target" using no by (auto simp: reboots_def)
  ultimately show ?thesis
    by (auto simp: mode_request_transition_ex_def compile_state Let_def)
qed

section \<open>Invariant and history\<close>

text \<open>
  The recorded modes of a transition record, and the path that the accepted records of a log
  describe: each starts where the previous one ended and follows a legal edge.
\<close>

definition rec_accepted :: "mode_transition \<Rightarrow> bool" where
  "rec_accepted r \<longleftrightarrow> mt_result_code r = fate_result_val FATE_RESULT_ACCEPTED"

fun mode_path :: "mode_id_t \<Rightarrow> mode_transition list \<Rightarrow> mode_id_t \<Rightarrow> bool" where
  "mode_path m [] m' \<longleftrightarrow> m = m'"
| "mode_path m (r # rs) m' \<longleftrightarrow>
     (if rec_accepted r
      then mode_of_val (unat (mt_from_mode r)) = m \<and> legal_edge m (mode_of_val (unat (mt_to_mode r))) \<and>
           mode_path (mode_of_val (unat (mt_to_mode r))) rs m'
      else mode_path m rs m')"

lemma mode_path_append: "mode_path m (rs @ rs') m'' \<longleftrightarrow> (\<exists>m'. mode_path m rs m' \<and> mode_path m' rs' m'')"
  by (induction m rs m'' rule: mode_path.induct) auto

definition mode_user :: "mode_id_t \<Rightarrow> bool" where
  "mode_user m \<longleftrightarrow> m = MODE_CASUAL \<or> m = MODE_SECURE \<or> m = MODE_LOCKDOWN \<or> m = MODE_GHOST"

definition mode_inv :: "mode_transition list \<Rightarrow> mode_st \<Rightarrow> bool" where
  "mode_inv log st \<longleftrightarrow> mode_user (ms_current st) \<and>
     ms_mask st = 2 ^ mode_val (ms_current st) \<and>
     ms_sched_mode st = ms_current st \<and> ms_sched_epoch st = ms_security_epoch st \<and>
     fate_rep (ms_fate st) log \<and> log_chained log \<and> audit_inv (ms_audit st)"

lemma mode_user_wf: "mode_user m \<Longrightarrow> mode_wf m"
  by (auto simp: mode_user_def mode_wf_def)

lemma mask_word: "mode_user m \<Longrightarrow> (ucast (2 ^ mode_val m :: u32) :: u8) = 2 ^ mode_val m"
  by (auto simp: mode_user_def)

lemma mode_u8_inverse: "mode_user m \<or> m = MODE_VOID \<Longrightarrow> mode_of_val (unat (mode_u8 m)) = m"
  by (auto simp: mode_user_def mode_u8_def mode_of_val_def)

lemma legal_edge_user: "legal_edge m m' \<Longrightarrow> mode_user m'"
  by (auto elim!: legal_edge.cases simp: mode_user_def)

lemma legal_edge_from: "legal_edge m m' \<Longrightarrow> mode_user m \<or> m = MODE_VOID"
  by (auto elim!: legal_edge.cases simp: mode_user_def)

text \<open>The record that a request appends to the log.\<close>

definition request_record ::
    "mode_ctx \<Rightarrow> mode_id_t \<Rightarrow> mode_id_t \<Rightarrow> transition_source_t \<Rightarrow> fate_result_t \<Rightarrow> mode_reject_reason_t
      \<Rightarrow> mode_transition" where
  "request_record cx from to src res reason =
     zero_transition\<lparr>mt_timestamp_tsc := mx_tsc cx, mt_from_mode := mode_u8 from, mt_to_mode := mode_u8 to,
       mt_trigger_source := source_val src, mt_result_code := fate_result_val res,
       mt_record_type := record_type_val FATE_RECORD_TRANSITION, mt_fault_error_code := reject_val reason,
       mt_requestor_pid := ctx_pid (ctx_fate cx)\<rparr>"

lemma log_transition_fate:
  "ms_fate (log_transition cx from to src res reason st) =
     fate_append_record (request_record cx from to src res reason) (ms_fate st)"
  by (simp add: log_transition_def fate_log_transition_event_def request_record_def ctx_fate_def)

lemma log_transition_fields [simp]:
  "ms_current (log_transition cx from to src res reason st) = ms_current st"
  "ms_previous (log_transition cx from to src res reason st) = ms_previous st"
  "ms_mask (log_transition cx from to src res reason st) = ms_mask st"
  "ms_sched_mode (log_transition cx from to src res reason st) = ms_sched_mode st"
  "ms_sched_epoch (log_transition cx from to src res reason st) = ms_sched_epoch st"
  "ms_security_epoch (log_transition cx from to src res reason st) = ms_security_epoch st"
  "ms_audit (log_transition cx from to src res reason st) = ms_audit st"
  "ms_boot_record (log_transition cx from to src res reason st) = ms_boot_record st"
  "ms_cmos (log_transition cx from to src res reason st) = ms_cmos st"
  "ms_pcid (log_transition cx from to src res reason st) = ms_pcid st"
  "ms_framebuffer (log_transition cx from to src res reason st) = ms_framebuffer st"
  by (simp_all add: log_transition_def)

lemma store_boot_mode_fields [simp]:
  "ms_current (store_boot_mode m st) = ms_current st"
  "ms_previous (store_boot_mode m st) = ms_previous st"
  "ms_mask (store_boot_mode m st) = ms_mask st"
  "ms_sched_mode (store_boot_mode m st) = ms_sched_mode st"
  "ms_sched_epoch (store_boot_mode m st) = ms_sched_epoch st"
  "ms_security_epoch (store_boot_mode m st) = ms_security_epoch st"
  "ms_audit (store_boot_mode m st) = ms_audit st"
  "ms_fate (store_boot_mode m st) = ms_fate st"
  "ms_pcid (store_boot_mode m st) = ms_pcid st"
  "ms_framebuffer (store_boot_mode m st) = ms_framebuffer st"
  "(ms_boot_record (store_boot_mode m st), ms_cmos (store_boot_mode m st)) =
     boot_record_store_mode m (ms_boot_record st, ms_cmos st)"
  by (simp_all add: store_boot_mode_def split: prod.split)

lemma linked_fields [simp]:
  "mt_result_code (linked log r) = mt_result_code r"
  "mt_from_mode (linked log r) = mt_from_mode r"
  "mt_to_mode (linked log r) = mt_to_mode r"
  "mt_fault_error_code (linked log r) = mt_fault_error_code r"
  by (simp_all add: linked_def calculate_record_hash_def Let_def)

lemma audit_strike_inv_any:
  assumes "audit_inv a" and "length meta = 4"
  shows "audit_inv (audit_strike cx ev res target meta a)"
proof (cases "au_lattice a")
  case None
  then show ?thesis using assms by (simp add: audit_strike_def)
next
  case (Some al)
  then show ?thesis using audit_strike_inv[OF assms(1) _ assms(2)] by blast
qed

lemma audit_rotate_inv: "audit_inv a \<Longrightarrow> audit_inv (audit_rotate_seed m e a)"
  by (simp add: audit_inv_def audit_rotate_seed_def split: option.splits)

text \<open>What an accepted request does, and what a refused one leaves alone.\<close>

definition accepted_effect :: "mode_st \<Rightarrow> mode_id_t \<Rightarrow> mode_st \<Rightarrow> bool" where
  "accepted_effect st target st' \<longleftrightarrow>
     ms_current st' = target \<and> ms_previous st' = ms_current st \<and>
     ms_security_epoch st' = ms_security_epoch st + 1 \<and>
     ms_framebuffer st' = map_option bleach_bytes (ms_framebuffer st) \<and>
     ((target = MODE_GHOST \<or> ms_current st = MODE_GHOST) \<longrightarrow>
        (\<forall>p. PCID_KERNEL < p \<and> p < PCID_KERNEL_SECURE \<longrightarrow> \<not> pa_tlb (ms_pcid st') p)) \<and>
     (storable target \<longrightarrow> (ms_boot_record st', ms_cmos st') =
        boot_record_store_mode target (ms_boot_record st, ms_cmos st)) \<and>
     (\<not> storable target \<longrightarrow> ms_boot_record st' = ms_boot_record st \<and> ms_cmos st' = ms_cmos st)"

definition refused_effect :: "mode_st \<Rightarrow> mode_st \<Rightarrow> bool" where
  "refused_effect st st' \<longleftrightarrow>
     ms_current st' = ms_current st \<and> ms_previous st' = ms_previous st \<and> ms_mask st' = ms_mask st \<and>
     ms_security_epoch st' = ms_security_epoch st \<and> ms_sched_mode st' = ms_sched_mode st \<and>
     ms_audit st' = ms_audit st \<and> ms_framebuffer st' = ms_framebuffer st \<and> ms_pcid st' = ms_pcid st \<and>
     ms_switch st' = ms_switch st \<and> ms_boot_record st' = ms_boot_record st \<and> ms_cmos st' = ms_cmos st"

definition logged :: "mode_transition list \<Rightarrow> mode_st \<Rightarrow> bool" where
  "logged log st \<longleftrightarrow> fate_rep (ms_fate st) log \<and> log_chained log \<and> audit_inv (ms_audit st)"

lemma mode_inv_logged: "mode_inv log st \<Longrightarrow> logged log st"
  by (simp add: mode_inv_def logged_def)

lemma request_ok_step:
  assumes log: "logged log st" and wfc: "mode_wf (ms_current st)" and wf: "mode_wf target"
    and ok: "permitted st (mx_tick cx) target src fl"
  defines "rec \<equiv> request_record cx (ms_current st) target src FATE_RESULT_ACCEPTED MODE_REJECT_NONE"
  shows "\<exists>st'. mode_request_transition_ex cx target src fl st = Returned 0 st' \<and>
    mode_inv (log @ [linked log rec]) st' \<and> accepted_effect st target st'"
proof -
  let ?st0 = "st\<lparr>ms_envelope_txid := ms_envelope_txid st + 1\<rparr>"
  note tgt = permitted_target[OF ok]
  have rep: "fate_rep (ms_fate st) log" and ch: "log_chained log" and au: "audit_inv (ms_audit st)"
    using log by (auto simp: logged_def)
  have user: "mode_user target" using legal_edge_user[OF tgt(1)] .
  have audit: "audit_inv (ms_audit (applied cx (compiled cx target src fl st) ?st0))"
    using au tgt(2) by (simp add: applied_fields audit_strike_inv_any audit_rotate_inv sched_meta_def)
  obtain st1 vs where st1: "st1 = (applied cx (compiled cx target src fl st) ?st0)\<lparr>ms_switch := vs\<rparr>"
    and req: "mode_request_transition_ex cx target src fl st = Returned 0
      ((if storable target then store_boot_mode target else (\<lambda>s. s))
        (log_transition cx (ms_current st) target src FATE_RESULT_ACCEPTED MODE_REJECT_NONE st1))"
    using request_permitted[OF wfc wf ok] .
  define st' where "st' = (if storable target then store_boot_mode target else (\<lambda>s. s))
        (log_transition cx (ms_current st) target src FATE_RESULT_ACCEPTED MODE_REJECT_NONE st1)"
  have "mode_inv (log @ [linked log rec]) st'"
    using append_rep[OF rep, of rec] append_chained[OF ch, of rec] audit user tgt(2) st1
    by (auto simp: st'_def rec_def mode_inv_def log_transition_fate applied_fields mask_word)
  moreover have "accepted_effect st target st'"
    using tgt(2) st1 by (auto simp: st'_def accepted_effect_def applied_fields)
  ultimately show ?thesis using req st'_def by blast
qed

lemma request_no_step:
  assumes inv: "mode_inv log st" and wf: "mode_wf target" and ne: "ms_current st \<noteq> target"
    and no: "\<not> permitted st (mx_tick cx) target src fl" "\<not> reboots st target src fl"
  shows "\<exists>st' reason. mode_request_transition_ex cx target src fl st = Returned (- 1) st' \<and>
    reason \<noteq> MODE_REJECT_NONE \<and> refused_effect st st' \<and>
    mode_inv (log @ [linked log (request_record cx (ms_current st) target src FATE_RESULT_REJECTED reason)]) st'"
proof -
  have wfc: "mode_wf (ms_current st)" using inv mode_user_wf by (auto simp: mode_inv_def)
  have rep: "fate_rep (ms_fate st) log" and ch: "log_chained log" using inv by (auto simp: mode_inv_def)
  obtain reason n where r: "reason \<noteq> MODE_REJECT_NONE"
    and req: "mode_request_transition_ex cx target src fl st = Returned (- 1)
     (log_transition cx (ms_current st) target src FATE_RESULT_REJECTED reason
        (st\<lparr>ms_envelope_txid := ms_envelope_txid st + 1, ms_prompt_auth_failures := n\<rparr>))" (is "_ = Returned _ ?st'")
    using request_rejected[OF wfc wf ne no] .
  let ?rec = "request_record cx (ms_current st) target src FATE_RESULT_REJECTED reason"
  have "mode_inv (log @ [linked log ?rec]) ?st'"
    using inv append_rep[OF rep, of ?rec] append_chained[OF ch, of ?rec]
    by (simp add: mode_inv_def log_transition_fate)
  moreover have "refused_effect st ?st'"
    by (simp add: refused_effect_def log_transition_def)
  ultimately show ?thesis using req r by blast
qed

lemma request_step:
  assumes inv: "mode_inv log st" and wf: "mode_wf target"
    and run: "mode_request_transition_ex cx target src fl st = Returned r st'"
  shows "\<exists>new. mode_inv (log @ new) st' \<and> mode_path (ms_current st) new (ms_current st') \<and> length new \<le> 1"
proof -
  have cur: "mode_user (ms_current st)" using inv by (auto simp: mode_inv_def)
  consider (same) "ms_current st = target" | (ok) "permitted st (mx_tick cx) target src fl"
    | (reboot) "reboots st target src fl"
    | (no) "ms_current st \<noteq> target" "\<not> permitted st (mx_tick cx) target src fl" "\<not> reboots st target src fl"
    by blast
  then show ?thesis
  proof cases
    case same
    then have "st' = st" using run request_same[of cx st] by (metis request_outcome.inject(1))
    then show ?thesis using inv by (intro exI[of _ "[]"]) simp
  next
    case ok
    let ?rec = "request_record cx (ms_current st) target src FATE_RESULT_ACCEPTED MODE_REJECT_NONE"
    have "mode_path (ms_current st) [linked log ?rec] target"
      using permitted_target(1)[OF ok] cur legal_edge_user
      by (simp add: rec_accepted_def request_record_def mode_u8_inverse)
    then show ?thesis
      using request_ok_step[OF mode_inv_logged[OF inv] mode_user_wf[OF cur] wf ok] run
      by (intro exI[of _ "[linked log ?rec]"]) (auto simp: accepted_effect_def)
  next
    case reboot
    then show ?thesis using request_reboots[of st target src fl cx] run by auto
  next
    case no
    then obtain reason where "mode_inv (log @ [linked log (request_record cx (ms_current st) target src
        FATE_RESULT_REJECTED reason)]) st'" and "refused_effect st st'"
      using request_no_step[OF inv wf no] run by auto
    then show ?thesis
      by (intro exI conjI) (auto simp: rec_accepted_def request_record_def refused_effect_def)
  qed
qed

record mode_request =
  rq_ctx :: mode_ctx
  rq_target :: mode_id_t
  rq_source :: transition_source_t
  rq_auth :: u32

definition mode_serve :: "mode_request \<Rightarrow> mode_st \<Rightarrow> request_outcome" where
  "mode_serve q = mode_request_transition_ex (rq_ctx q) (rq_target q) (rq_source q) (rq_auth q)"

fun mode_run :: "mode_request list \<Rightarrow> mode_st \<Rightarrow> request_outcome" where
  "mode_run [] st = Returned 0 st"
| "mode_run (q # qs) st = after_request (mode_run qs) (mode_serve q st)"

lemma mode_run_inv:
  assumes "mode_inv log st" and "\<forall>q\<in>set qs. mode_wf (rq_target q)" and "mode_run qs st = Returned r st'"
  shows "\<exists>new. mode_inv (log @ new) st' \<and> mode_path (ms_current st) new (ms_current st') \<and>
    length new \<le> length qs"
  using assms
proof (induction qs arbitrary: st log)
  case Nil
  then show ?case by (intro exI[of _ "[]"]) simp
next
  case (Cons q qs)
  obtain r1 st1 where one: "mode_serve q st = Returned r1 st1" and rest: "mode_run qs st1 = Returned r st'"
    using Cons.prems(3) by (auto simp: after_request_def split: request_outcome.splits)
  obtain n1 where n1: "mode_inv (log @ n1) st1" "mode_path (ms_current st) n1 (ms_current st1)" "length n1 \<le> 1"
    using request_step[OF Cons.prems(1) _ one[unfolded mode_serve_def]] Cons.prems(2) by auto
  obtain n2 where n2: "mode_inv ((log @ n1) @ n2) st'" "mode_path (ms_current st1) n2 (ms_current st')"
      "length n2 \<le> length qs"
    using Cons.IH[OF n1(1) _ rest] Cons.prems(2) by auto
  then show ?case using n1 by (intro exI[of _ "n1 @ n2"]) (auto simp: mode_path_append)
qed

section \<open>Boot\<close>

lemma store_casual:
  assumes "boot_record_store_mode MODE_CASUAL (br, cm) = (br', cm')"
  shows "br_mode br' = 1" "cm' 0x43 = 1"
  using assms by (auto simp: boot_record_store_mode_def boot_record_store_persistent_def Let_def mode_u8_def)

lemma load_mode_casual:
  assumes "br_mode br = 1"
  shows "boot_record_load_mode br = None \<or> boot_record_load_mode br = Some MODE_CASUAL"
  using assms by (simp add: boot_record_load_mode_def mode_of_val_def)

lemma zero_state_logged:
  assumes "audit_inv (ms_audit st)"
  shows "logged [] ((mode_state_zero st)\<lparr>ms_boot_record := br, ms_enter_tick := et\<rparr>)"
  using assms by (simp add: logged_def mode_state_zero_def fate_rep_def log_chained_def)

lemma mode_init_casual:
  assumes void: "ms_current st = MODE_VOID" and au: "audit_inv (ms_audit st)"
  shows "\<exists>st' rec. mode_init cx st = Returned 0 st' \<and> ms_current st' = MODE_CASUAL \<and>
    ms_security_epoch st' = 1 \<and> ms_cmos st' 0x43 = 1 \<and> mode_inv [rec] st'"
proof -
  define st1 where "st1 = (mode_state_zero st)\<lparr>ms_boot_record := boot_record_load_persistent (ms_cmos st),
    ms_enter_tick := (ms_enter_tick (mode_state_zero st))(MODE_VOID := mx_tick cx)\<rparr>"
  let ?fl = "MODE_AUTH_AUTOMATIC OR MODE_AUTH_BOOT_INTENT"
  have cur: "ms_current st1 = MODE_VOID" and ep: "ms_security_epoch st1 = 0"
    by (simp_all add: st1_def mode_state_zero_def)
  have ok: "permitted st1 (mx_tick cx) MODE_CASUAL TRANSITION_SOURCE_KERNEL ?fl"
    by (simp add: permitted_def cur)
  obtain st2 rec where req: "mode_request_transition_ex cx MODE_CASUAL TRANSITION_SOURCE_KERNEL ?fl st1 = Returned 0 st2"
    and inv: "mode_inv [rec] st2" and eff: "accepted_effect st1 MODE_CASUAL st2"
    using request_ok_step[OF zero_state_logged[OF au] _ _ ok[unfolded st1_def]] cur
    unfolding st1_def[symmetric] by (auto simp: mode_wf_def)
  have st: "boot_record_store_mode MODE_CASUAL (ms_boot_record st1, ms_cmos st1) = (ms_boot_record st2, ms_cmos st2)"
    using eff by (simp add: accepted_effect_def storable_def)
  have "mode_init cx st = Returned 0 st2"
    using load_mode_casual[OF store_casual(1)[OF st]] req void
    unfolding mode_init_def Let_def st1_def[symmetric]
    by (auto simp: after_request_def)
  then show ?thesis
    using inv eff store_casual(2)[OF st] ep by (auto simp: accepted_effect_def)
qed

section \<open>The prompt retry limit\<close>

lemma verify_daemon_refused:
  assumes "ec_from_mode c = MODE_CASUAL" "ec_to_mode c = MODE_LOCKDOWN"
    "ec_source c = TRANSITION_SOURCE_DAEMON" "\<not> auth_has (ec_auth_flags c) MODE_AUTH_PASSWORD"
  shows "env_verify_transition tick c st = prompt_auth_failure st"
  using assms by (simp add: env_verify_transition_def Let_def)

lemma daemon_refused:
  assumes cur: "ms_current st = MODE_CASUAL" and fl: "\<not> auth_has fl MODE_AUTH_PASSWORD"
    and few: "ms_prompt_auth_failures st + 1 < MODE_PROMPT_AUTH_RETRY_LIMIT"
  shows "\<exists>st'. mode_request_transition_ex cx MODE_LOCKDOWN TRANSITION_SOURCE_DAEMON fl st = Returned (- 1) st' \<and>
    ms_current st' = MODE_CASUAL \<and> ms_prompt_auth_failures st' = ms_prompt_auth_failures st + 1 \<and>
    ms_boot_record st' = ms_boot_record st \<and> ms_cmos st' = ms_cmos st"
proof -
  let ?c = "compiled cx MODE_LOCKDOWN TRANSITION_SOURCE_DAEMON fl st"
  let ?st = "st\<lparr>ms_envelope_txid := ms_envelope_txid st + 1\<rparr>"
  have "env_verify_transition (mx_tick cx) ?c ?st = prompt_auth_failure ?st"
    using cur fl by (intro verify_daemon_refused) simp_all
  also have "\<dots> = Deny ENV_DENY_EDGE_ILLEGAL MODE_REJECT_AUTH_REQUIRED
      (?st\<lparr>ms_prompt_auth_failures := ms_prompt_auth_failures st + 1\<rparr>)"
    using few[unfolded not_le[symmetric]] by (simp add: prompt_auth_failure_def Let_def)
  finally have "mode_request_transition_ex cx MODE_LOCKDOWN TRANSITION_SOURCE_DAEMON fl st = Returned (- 1)
    (log_transition cx (ms_current st) MODE_LOCKDOWN TRANSITION_SOURCE_DAEMON FATE_RESULT_REJECTED
      MODE_REJECT_AUTH_REQUIRED (?st\<lparr>ms_prompt_auth_failures := ms_prompt_auth_failures st + 1\<rparr>))"
    using cur by (simp add: mode_request_transition_ex_def compile_state[of cx st, unfolded cur] Let_def)
  then show ?thesis using cur by (simp add: log_transition_def)
qed

definition prompt_refusal :: "mode_request \<Rightarrow> bool" where
  "prompt_refusal q \<longleftrightarrow> rq_target q = MODE_LOCKDOWN \<and> rq_source q = TRANSITION_SOURCE_DAEMON \<and>
     \<not> auth_has (rq_auth q) MODE_AUTH_PASSWORD"

lemma third_refusal_reboots:
  assumes cur: "ms_current st = MODE_CASUAL" and none: "ms_prompt_auth_failures st = 0"
    and qs: "prompt_refusal q1" "prompt_refusal q2" "prompt_refusal q3"
  shows "\<exists>st'. mode_run [q1, q2, q3] st = Rebooted st' \<and>
    (ms_boot_record st', ms_cmos st') = boot_record_store_mode MODE_LOCKDOWN (ms_boot_record st, ms_cmos st)"
proof -
  obtain st1 where s1: "mode_serve q1 st = Returned (- 1) st1" "ms_current st1 = MODE_CASUAL"
      "ms_prompt_auth_failures st1 = 1" "ms_boot_record st1 = ms_boot_record st" "ms_cmos st1 = ms_cmos st"
    using daemon_refused[OF cur, of "rq_auth q1" "rq_ctx q1"] qs(1) none
    by (auto simp: prompt_refusal_def mode_serve_def MODE_PROMPT_AUTH_RETRY_LIMIT_def)
  obtain st2 where s2: "mode_serve q2 st1 = Returned (- 1) st2" "ms_current st2 = MODE_CASUAL"
      "ms_prompt_auth_failures st2 = 2" "ms_boot_record st2 = ms_boot_record st" "ms_cmos st2 = ms_cmos st"
    using daemon_refused[OF s1(2), of "rq_auth q2" "rq_ctx q2"] qs(2) s1(3-5)
    by (auto simp: prompt_refusal_def mode_serve_def MODE_PROMPT_AUTH_RETRY_LIMIT_def)
  have "reboots st2 (rq_target q3) (rq_source q3) (rq_auth q3)"
    using qs(3) s2(2,3) by (simp add: reboots_def prompt_refusal_def MODE_PROMPT_AUTH_RETRY_LIMIT_def)
  from request_reboots[OF this, of "rq_ctx q3"] show ?thesis
    using s1(1) s2(1,4,5) by (auto simp: after_request_def mode_serve_def)
qed

section \<open>Properties\<close>

definition sample_mode :: "mode_id_t \<Rightarrow> mode_st" where
  "sample_mode m = \<lparr>ms_current = m, ms_previous = MODE_VOID,
     ms_mask = 2 ^ mode_val m,
     ms_fate = \<lparr>ft_history = replicate MODE_HISTORY_SIZE zero_transition, ft_head_index = 0,
                ft_generation_id = 0\<rparr>,
     ms_transitions_total = 0, ms_transitions_auto = 0, ms_transitions_manual = 0,
     ms_security_epoch = 7, ms_envelope_txid = 0, ms_enter_tick = (\<lambda>_. 100),
     ms_prompt_auth_failures = 0, ms_boot_record = boot_record_default, ms_cmos = (\<lambda>_. 0),
     ms_audit = \<lparr>au_lattice = None, au_root_system_seed = 5, au_current_fate_seed = 5,
                 au_last_hash = replicate 32 0\<rparr>,
     ms_sched_mode = m, ms_sched_epoch = 7,
     ms_switch = \<lparr>vs_cr3 = 0x1000, vs_pcid_enabled = True, vs_pcid_switches = 0, vs_pcid_switch_flushes = 0\<rparr>,
     ms_pcid = \<lparr>pa_mode = (\<lambda>_. zero_mode_slot), pa_total_allocations = 0, pa_total_reuses = 0,
                pa_total_tlb_scrubs = 0, pa_tlb = (\<lambda>_. True)\<rparr>, ms_pkru = None, ms_framebuffer = Some [1, 2, 3, 4, 5, 6, 7, 8, 9]\<rparr>"

definition sample_ctx :: "u64 \<Rightarrow> mode_ctx" where
  "sample_ctx tick = \<lparr>mx_tick = tick, mx_tsc = 1, mx_thread = None\<rparr>"

lemma sample_mode_inv: "mode_user m \<Longrightarrow> mode_inv [] (sample_mode m)"
  by (simp add: mode_inv_def sample_mode_def fate_rep_def log_chained_def audit_inv_def)



text \<open>
  C4: no sequence of transition requests, whatever their sources and authorisation flags,
  escapes the legal matrix.  If every request of the sequence returns, the log has grown by at
  most one record per request, it is hash chained, and its new accepted records form a path of
  legal edges from the first mode to the last: in particular Ghost and Lockdown are never left
  for Casual, nor Lockdown for Ghost, without passing through Secure.
\<close>

theorem mode_run_follows_legal_edges:
  assumes "mode_inv log st" and "\<forall>q\<in>set qs. mode_wf (rq_target q)" and "mode_run qs st = Returned r st'"
  shows "\<exists>new. mode_inv (log @ new) st' \<and> mode_path (ms_current st) new (ms_current st') \<and>
    length new \<le> length qs"
  by (rule mode_run_inv[OF assms])

text \<open>
  C35: boot restoration never happens.  Whatever the CMOS holds, \<open>mode_init\<close> ends in
  Casual: the transition to Casual that precedes the restoration stores Casual in the boot record,
  which is then the mode read back.  (Otherwise the boot is sound: the invariant holds with one
  log record, the epoch is 1.)
\<close>

theorem mode_init_never_restores:
  assumes "ms_current st = MODE_VOID" and "audit_inv (ms_audit st)"
  shows "\<exists>st' rec. mode_init cx st = Returned 0 st' \<and> ms_current st' = MODE_CASUAL \<and>
    ms_security_epoch st' = 1 \<and> ms_cmos st' 0x43 = 1 \<and> mode_inv [rec] st'"
  by (rule mode_init_casual[OF assms])

text \<open>The witness boots from a CMOS that holds a valid Lockdown record.\<close>

definition lockdown_cmos :: cmos where
  "lockdown_cmos = snd (boot_record_store_mode MODE_LOCKDOWN (boot_record_default, \<lambda>_. 0))"

theorem mode_init_never_restores_witness:
  "boot_record_load_mode (boot_record_load_persistent lockdown_cmos) = Some MODE_LOCKDOWN \<and>
   (\<exists>st'. mode_init (sample_ctx 0) ((sample_mode MODE_VOID)\<lparr>ms_cmos := lockdown_cmos\<rparr>) = Returned 0 st'
      \<and> ms_current st' = MODE_CASUAL)"
  using mode_init_never_restores[of "(sample_mode MODE_VOID)\<lparr>ms_cmos := lockdown_cmos\<rparr>" "sample_ctx 0"]
    store_mode_valid(1)[of boot_record_default MODE_LOCKDOWN "\<lambda>_. 0"]
  by (auto simp: sample_mode_def audit_inv_def lockdown_cmos_def boot_record_default_def storable_def)


definition sample_refusal :: mode_request where
  "sample_refusal = \<lparr>rq_ctx = sample_ctx 9, rq_target = MODE_LOCKDOWN,
     rq_source = TRANSITION_SOURCE_DAEMON, rq_auth = MODE_AUTH_SYSTEM_PROMPT\<rparr>"


theorem mode_run_follows_legal_edges_witness:
  "\<exists>st' r new. mode_run [sample_refusal, sample_refusal\<lparr>rq_source := TRANSITION_SOURCE_KERNEL, rq_auth := 0x20\<rparr>]
      (sample_mode MODE_SECURE) = Returned r st' \<and>
    mode_path MODE_SECURE new (ms_current st') \<and> ms_current st' = MODE_LOCKDOWN"
proof -
  let ?q = "sample_refusal\<lparr>rq_source := TRANSITION_SOURCE_KERNEL, rq_auth := 0x20\<rparr>"
  let ?st = "sample_mode MODE_SECURE"
  obtain st1 where one: "mode_serve sample_refusal ?st = Returned (- 1) st1" "refused_effect ?st st1"
      "\<exists>log. mode_inv log st1"
    using request_no_step[OF sample_mode_inv, of MODE_SECURE MODE_LOCKDOWN "sample_ctx 9" TRANSITION_SOURCE_DAEMON
        MODE_AUTH_SYSTEM_PROMPT]
    by (auto simp: mode_serve_def sample_refusal_def mode_user_def mode_wf_def sample_mode_def permitted_def
        reboots_def auth_has_def mode_auth_bits)
  then have cur: "ms_current st1 = MODE_SECURE" by (simp add: refused_effect_def sample_mode_def)
  have "permitted st1 9 MODE_LOCKDOWN TRANSITION_SOURCE_KERNEL 0x20"
    using cur by (simp add: permitted_def auth_has_def mode_auth_bits)
  then obtain st2 where two: "mode_serve ?q st1 = Returned 0 st2" "ms_current st2 = MODE_LOCKDOWN"
    using request_ok_step[where st = st1 and target = MODE_LOCKDOWN and cx = "sample_ctx 9"
        and src = TRANSITION_SOURCE_KERNEL and fl = "0x20"] one(3) cur mode_inv_logged
    by (fastforce simp: mode_serve_def sample_refusal_def sample_ctx_def mode_wf_def accepted_effect_def)
  have "mode_run [sample_refusal, ?q] ?st = Returned 0 st2" using one(1) two(1) by (simp add: after_request_def)
  then show ?thesis
    using mode_run_follows_legal_edges[OF sample_mode_inv, of MODE_SECURE "[sample_refusal, ?q]" 0 st2] two(2)
    by (auto simp: mode_user_def mode_wf_def sample_refusal_def sample_mode_def)
qed

end
