(* ===== verification/Capability.thy ===== *)
theory Capability
  imports Audit_Ring "HOL-Library.Monad_Syntax"
begin

text \<open>
  The capability system (\<^verbatim>\<open>src/kernel/capability.c\<close>, \<^verbatim>\<open>capability.h\<close>).
  Identities and C-Nodes live in stores indexed by address; a null pointer is \<open>None\<close>, and a
  cell that has been released (zeroed and returned to its slab) is the zero identity, whose magic
  is invalid.

  What an operation reads of its surroundings is the record \<open>cap_env\<close>: the current mode mask,
  the audit context, what lies behind a C-Node slot index beyond the array (\<open>cap_slot_is_empty\<close>
  does not check its index), and the scheduling-authority object at an address.  The address the
  slab allocator returns is an argument of the operations that allocate.  Calls into other
  components that change no capability state (\<open>kfree\<close>, \<open>lattice_destroy\<close>, the
  scheduler's revocation hooks, zeroing an endpoint frame) are recorded, in order, in the trace
  \<open>ca_trace\<close>.  Pointer walks are partial functions: \<open>None\<close> is a walk that does not end.
\<close>

section \<open>Data\<close>

datatype cap_type_t = CAP_TYPE_NONE | CAP_TYPE_GENESIS | CAP_TYPE_CNODE | CAP_TYPE_RAM | CAP_TYPE_THREAD
  | CAP_TYPE_ENDPOINT | CAP_TYPE_PCID | CAP_TYPE_PAGETABLE | CAP_TYPE_LATTICE | CAP_TYPE_AUDITOR
  | CAP_TYPE_SCHED_AUTH_ROOT | CAP_TYPE_SCHED_AUTH_THREAD | CAP_TYPE_REALITY_CTRL | CAP_TYPE_AUDIT_WRITE
  | CAP_TYPE_SCHED_AUTH | CAP_TYPE_SPAWN_AUTH

fun cap_type_val :: "cap_type_t \<Rightarrow> nat" where
  "cap_type_val CAP_TYPE_NONE = 0"
| "cap_type_val CAP_TYPE_GENESIS = 1"
| "cap_type_val CAP_TYPE_CNODE = 2"
| "cap_type_val CAP_TYPE_RAM = 3"
| "cap_type_val CAP_TYPE_THREAD = 4"
| "cap_type_val CAP_TYPE_ENDPOINT = 5"
| "cap_type_val CAP_TYPE_PCID = 6"
| "cap_type_val CAP_TYPE_PAGETABLE = 7"
| "cap_type_val CAP_TYPE_LATTICE = 8"
| "cap_type_val CAP_TYPE_AUDITOR = 9"
| "cap_type_val CAP_TYPE_SCHED_AUTH_ROOT = 10"
| "cap_type_val CAP_TYPE_SCHED_AUTH_THREAD = 11"
| "cap_type_val CAP_TYPE_REALITY_CTRL = 12"
| "cap_type_val CAP_TYPE_AUDIT_WRITE = 13"
| "cap_type_val CAP_TYPE_SCHED_AUTH = 14"
| "cap_type_val CAP_TYPE_SPAWN_AUTH = 15"

definition CAP_MAX_TYPES :: nat where "CAP_MAX_TYPES = 16"

definition CAP_RIGHT_READ :: u16 where "CAP_RIGHT_READ = 0x01"
definition CAP_RIGHT_WRITE :: u16 where "CAP_RIGHT_WRITE = 0x02"
definition CAP_RIGHT_GRANT :: u16 where "CAP_RIGHT_GRANT = 0x04"
definition CAP_RIGHT_INVOKE :: u16 where "CAP_RIGHT_INVOKE = 0x08"
definition CAP_RIGHT_EXECUTE :: u16 where "CAP_RIGHT_EXECUTE = 0x10"

definition CAP_MODE_VALID_MASK :: u8 where "CAP_MODE_VALID_MASK = 0x1F"
definition CAP_IDENT_MAGIC :: u32 where "CAP_IDENT_MAGIC = 0x43415049"
definition SCHED_AUTH_MAGIC :: u32 where "SCHED_AUTH_MAGIC = 0x53415554"
definition CNODE_SLOTS :: nat where "CNODE_SLOTS = 128"

record cap_identity =
  ci_object_ptr :: u64
  ci_type :: u8
  ci_allowed_modes :: u8
  ci_rights :: u16
  ci_badge :: u32
  ci_birth_epoch :: u64
  ci_parent_epoch_start :: u64
  ci_parent :: "nat option"
  ci_revocation_epoch :: u64
  ci_ref_count :: u32
  ci_first_child :: "nat option"
  ci_next_sibling :: "nat option"
  ci_prev_sibling :: "nat option"
  ci_magic :: u32

definition zero_identity :: cap_identity where
  "zero_identity = \<lparr>ci_object_ptr = 0, ci_type = 0, ci_allowed_modes = 0, ci_rights = 0, ci_badge = 0,
     ci_birth_epoch = 0, ci_parent_epoch_start = 0, ci_parent = None, ci_revocation_epoch = 0,
     ci_ref_count = 0, ci_first_child = None, ci_next_sibling = None, ci_prev_sibling = None, ci_magic = 0\<rparr>"

record cap_metrics_t =
  cm_lookup_ok :: u64
  cm_lookup_miss :: u64
  cm_insert_ok :: u64
  cm_insert_fail :: u64
  cm_delete_ok :: u64
  cm_mint_ok :: u64
  cm_mint_fail :: u64
  cm_copy_ok :: u64
  cm_copy_fail :: u64
  cm_retype_ok :: u64
  cm_retype_fail :: u64
  cm_revoke_ops :: u64
  cm_identities_freed :: u64
  cm_policy_deny :: u64

definition zero_metrics :: cap_metrics_t where
  "zero_metrics = \<lparr>cm_lookup_ok = 0, cm_lookup_miss = 0, cm_insert_ok = 0, cm_insert_fail = 0,
     cm_delete_ok = 0, cm_mint_ok = 0, cm_mint_fail = 0, cm_copy_ok = 0, cm_copy_fail = 0,
     cm_retype_ok = 0, cm_retype_fail = 0, cm_revoke_ops = 0, cm_identities_freed = 0, cm_policy_deny = 0\<rparr>"

type_synonym cnode_t = "nat option list"

datatype cap_effect =
    Kfree u64
  | LatticeDestroy u64
  | FreeIdentity nat
  | FreeCnode nat
  | ZeroEndpoint u64
  | RevokeProcess nat
  | RevokeThread nat

record cap_st =
  ca_ident :: "nat \<Rightarrow> cap_identity"
  ca_cnode :: "nat \<Rightarrow> cnode_t option"
  ca_epoch :: u64
  ca_genesis_exhausted :: bool
  ca_metrics :: cap_metrics_t
  ca_audit :: audit_st
  ca_trace :: "cap_effect list"

record sched_auth_ref =
  sa_magic :: u32
  sa_owner_process :: "nat option"
  sa_bound_thread :: "nat option"

record cap_env =
  ce_mode_mask :: u8
  ce_audit_ctx :: audit_ctx
  ce_oob_null :: "nat \<Rightarrow> nat \<Rightarrow> bool"
  ce_auth :: "u64 \<Rightarrow> sched_auth_ref option"

section \<open>Accessors\<close>

definition metric :: "(cap_metrics_t \<Rightarrow> cap_metrics_t) \<Rightarrow> cap_st \<Rightarrow> cap_st" where
  "metric f st = st\<lparr>ca_metrics := f (ca_metrics st)\<rparr>"

definition upd_ident :: "nat \<Rightarrow> (cap_identity \<Rightarrow> cap_identity) \<Rightarrow> cap_st \<Rightarrow> cap_st" where
  "upd_ident a f st = st\<lparr>ca_ident := (ca_ident st)(a := f (ca_ident st a))\<rparr>"

definition set_slot :: "nat \<Rightarrow> nat \<Rightarrow> nat option \<Rightarrow> cap_st \<Rightarrow> cap_st" where
  "set_slot root i v st =
     st\<lparr>ca_cnode := (ca_cnode st)(root := map_option (\<lambda>cn. cn[i := v]) (ca_cnode st root))\<rparr>"

definition slot :: "cap_st \<Rightarrow> nat \<Rightarrow> nat \<Rightarrow> nat option" where
  "slot st root i = (case ca_cnode st root of None \<Rightarrow> None | Some cn \<Rightarrow> cn ! i)"

definition emit :: "cap_effect \<Rightarrow> cap_st \<Rightarrow> cap_st" where
  "emit e st = st\<lparr>ca_trace := ca_trace st @ [e]\<rparr>"

section \<open>Operations\<close>

definition cap_is_valid_type :: "u16 \<Rightarrow> bool" where
  "cap_is_valid_type ty \<longleftrightarrow> unat ty > cap_type_val CAP_TYPE_NONE \<and> unat ty < CAP_MAX_TYPES"

definition cap_allowed_modes_nonzero :: "u8 \<Rightarrow> bool" where
  "cap_allowed_modes_nonzero modes \<longleftrightarrow> modes \<noteq> 0"

definition cap_allowed_modes_valid :: "u8 \<Rightarrow> bool" where
  "cap_allowed_modes_valid modes =
     (if \<not> cap_allowed_modes_nonzero modes then False else modes AND NOT CAP_MODE_VALID_MASK = 0)"

definition cap_identity_is_valid :: "cap_st \<Rightarrow> nat option \<Rightarrow> bool" where
  "cap_identity_is_valid st p =
     (case p of None \<Rightarrow> False | Some a \<Rightarrow> ci_magic (ca_ident st a) = CAP_IDENT_MAGIC)"

text \<open>The index is not checked against the number of slots.\<close>

definition cap_slot_is_empty :: "cap_env \<Rightarrow> nat \<Rightarrow> nat \<Rightarrow> cap_st \<Rightarrow> bool" where
  "cap_slot_is_empty env root cptr st =
     (if cptr < CNODE_SLOTS then slot st root cptr = None else ce_oob_null env root cptr)"

definition cap_get_metrics :: "cap_st \<Rightarrow> cap_metrics_t" where
  "cap_get_metrics st = ca_metrics st"

definition cap_reset_metrics :: "cap_st \<Rightarrow> cap_st" where
  "cap_reset_metrics st = st\<lparr>ca_metrics := zero_metrics\<rparr>"

definition cap_genesis_is_exhausted :: "cap_st \<Rightarrow> bool" where
  "cap_genesis_is_exhausted st = ca_genesis_exhausted st"

definition cap_genesis_exhaust :: "cap_st \<Rightarrow> bool \<times> cap_st" where
  "cap_genesis_exhaust st =
     (if ca_genesis_exhausted st then (False, st) else (True, st\<lparr>ca_genesis_exhausted := True\<rparr>))"

text \<open>\<open>cell\<close> is the result of \<open>slab_alloc(identity_cache)\<close>.\<close>

definition cap_identity_create ::
    "nat option \<Rightarrow> u64 \<Rightarrow> u16 \<Rightarrow> u16 \<Rightarrow> u32 \<Rightarrow> u8 \<Rightarrow> cap_st \<Rightarrow> nat option \<times> cap_st" where
  "cap_identity_create cell obj ty rights badge allowed_modes st =
     (if \<not> cap_is_valid_type ty then (None, st)
      else if \<not> cap_allowed_modes_valid allowed_modes then (None, st)
      else case cell of
          None \<Rightarrow> (None, st)
        | Some a \<Rightarrow>
            (Some a, upd_ident a (\<lambda>_. zero_identity\<lparr>ci_object_ptr := obj, ci_type := ucast ty,
               ci_rights := rights, ci_badge := badge, ci_allowed_modes := allowed_modes,
               ci_birth_epoch := ca_epoch st, ci_magic := CAP_IDENT_MAGIC\<rparr>) st))"

definition cnode_create :: "nat option \<Rightarrow> cap_st \<Rightarrow> nat option \<times> cap_st" where
  "cnode_create cell st =
     (case cell of None \<Rightarrow> (None, st)
      | Some a \<Rightarrow> (Some a, st\<lparr>ca_cnode := (ca_cnode st)(a \<mapsto> replicate CNODE_SLOTS None)\<rparr>))"

text \<open>The walk up the lineage, and how it ended.\<close>

datatype alive_walk_t = WalkAlive | WalkParentInvalid | WalkEpochMismatch u64

partial_function (option) alive_walk :: "cap_st \<Rightarrow> nat \<Rightarrow> nat option \<Rightarrow> alive_walk_t option" where
  "alive_walk st child parent =
     (case parent of
        None \<Rightarrow> Some WalkAlive
      | Some p \<Rightarrow>
          if \<not> cap_identity_is_valid st (Some p) then Some WalkParentInvalid
          else if ci_revocation_epoch (ca_ident st p) \<noteq> ci_parent_epoch_start (ca_ident st child)
          then Some (WalkEpochMismatch (ci_revocation_epoch (ca_ident st p)))
          else alive_walk st p (ci_parent (ca_ident st p)))"

definition cap_identity_is_alive :: "nat \<Rightarrow> cap_st \<Rightarrow> (bool \<times> cap_st) option" where
  "cap_identity_is_alive a st =
     (if \<not> cap_identity_is_valid st (Some a) then Some (False, st)
      else if ci_revocation_epoch (ca_ident st a) \<noteq> 0 then Some (False, st)
      else do {
        w \<leftarrow> alive_walk st a (ci_parent (ca_ident st a));
        Some (case w of
            WalkAlive \<Rightarrow> (True, st)
          | WalkParentInvalid \<Rightarrow>
              (False, upd_ident a (\<lambda>i. i\<lparr>ci_revocation_epoch := ca_epoch st\<rparr>) st)
          | WalkEpochMismatch r \<Rightarrow>
              let st1 = (if r = 0 then st\<lparr>ca_epoch := ca_epoch st + 1\<rparr> else st);
                  e = (if r = 0 then ca_epoch st + 1 else r)
              in (False, upd_ident a (\<lambda>i. i\<lparr>ci_revocation_epoch := e\<rparr>) st1))
      })"

definition lookup_miss :: "cap_st \<Rightarrow> nat option \<times> cap_st" where
  "lookup_miss st = (None, metric (\<lambda>m. m\<lparr>cm_lookup_miss := cm_lookup_miss m + 1\<rparr>) st)"

definition audit_cap ::
    "cap_env \<Rightarrow> audit_event_t \<Rightarrow> audit_result_t \<Rightarrow> u8 \<Rightarrow> u32 \<Rightarrow> u64 \<Rightarrow> u16 \<Rightarrow> cap_st \<Rightarrow> cap_st" where
  "audit_cap env ev res ty badge obj rights st =
     st\<lparr>ca_audit := audit_strike (ce_audit_ctx env) ev res (push_bit 32 (ucast ty) OR ucast badge)
       (cap_meta obj (ucast rights)) (ca_audit st)\<rparr>"

definition cap_lookup :: "cap_env \<Rightarrow> nat option \<Rightarrow> nat \<Rightarrow> cap_st \<Rightarrow> (nat option \<times> cap_st) option" where
  "cap_lookup env root cptr st =
     (case root of
        None \<Rightarrow> Some (lookup_miss st)
      | Some r \<Rightarrow>
          if cptr \<ge> CNODE_SLOTS then Some (lookup_miss st)
          else case slot st r cptr of
              None \<Rightarrow> Some (lookup_miss st)
            | Some a \<Rightarrow>
                if \<not> cap_identity_is_valid st (Some a) then Some (lookup_miss st)
                else do {
                  (alive, st1) \<leftarrow> cap_identity_is_alive a st;
                  Some (let i = ca_ident st1 a in
                    if \<not> alive then lookup_miss st1
                    else if \<not> cap_allowed_modes_valid (ci_allowed_modes i) then lookup_miss st1
                    else if ce_mode_mask env AND ci_allowed_modes i = 0 then
                      lookup_miss (audit_cap env AUDIT_EVENT_CAP_DENIED AUDIT_RESULT_DENIED (ci_type i)
                        (ci_badge i) (ci_object_ptr i) (ci_rights i) st1)
                    else (Some a, metric (\<lambda>m. m\<lparr>cm_lookup_ok := cm_lookup_ok m + 1\<rparr>) st1))
                })"

definition insert_fail :: "cap_st \<Rightarrow> int \<times> cap_st" where
  "insert_fail st = (- 1, metric (\<lambda>m. m\<lparr>cm_insert_fail := cm_insert_fail m + 1\<rparr>) st)"

definition cap_insert :: "nat option \<Rightarrow> nat \<Rightarrow> nat option \<Rightarrow> cap_st \<Rightarrow> int \<times> cap_st" where
  "cap_insert root cptr ident st =
     (case (root, ident) of
        (Some r, Some a) \<Rightarrow>
          if cptr \<ge> CNODE_SLOTS \<or> \<not> cap_identity_is_valid st (Some a) then insert_fail st
          else if slot st r cptr \<noteq> None then insert_fail st
          else (0, metric (\<lambda>m. m\<lparr>cm_insert_ok := cm_insert_ok m + 1\<rparr>)
                 (upd_ident a (\<lambda>i. i\<lparr>ci_ref_count := ci_ref_count i + 1\<rparr>) (set_slot r cptr (Some a) st)))
      | _ \<Rightarrow> insert_fail st)"

definition cap_unlink_from_parent :: "nat \<Rightarrow> cap_st \<Rightarrow> cap_st" where
  "cap_unlink_from_parent a st =
     (case ci_parent (ca_ident st a) of
        None \<Rightarrow> st
      | Some p \<Rightarrow>
          let i = ca_ident st a;
              st1 = (case ci_prev_sibling i of
                  Some q \<Rightarrow> upd_ident q (\<lambda>x. x\<lparr>ci_next_sibling := ci_next_sibling i\<rparr>) st
                | None \<Rightarrow> upd_ident p (\<lambda>x. x\<lparr>ci_first_child := ci_next_sibling i\<rparr>) st);
              st2 = (case ci_next_sibling (ca_ident st1 a) of
                  Some n \<Rightarrow> upd_ident n (\<lambda>x. x\<lparr>ci_prev_sibling := ci_prev_sibling (ca_ident st1 a)\<rparr>) st1
                | None \<Rightarrow> st1)
          in upd_ident a (\<lambda>x. x\<lparr>ci_parent := None, ci_next_sibling := None, ci_prev_sibling := None\<rparr>) st2)"

definition release_object :: "nat \<Rightarrow> cap_st \<Rightarrow> cap_st" where
  "release_object a st =
     (let i = ca_ident st a; ty = unat (ci_type i) in
      if ty = cap_type_val CAP_TYPE_LATTICE then emit (LatticeDestroy (ci_object_ptr i)) st
      else if ty \<in> {cap_type_val CAP_TYPE_RAM, cap_type_val CAP_TYPE_CNODE, cap_type_val CAP_TYPE_THREAD,
                    cap_type_val CAP_TYPE_ENDPOINT, cap_type_val CAP_TYPE_PCID, cap_type_val CAP_TYPE_PAGETABLE,
                    cap_type_val CAP_TYPE_AUDITOR, cap_type_val CAP_TYPE_SCHED_AUTH_ROOT,
                    cap_type_val CAP_TYPE_SCHED_AUTH_THREAD}
      then emit (Kfree (ci_object_ptr i)) st
      else st)"

definition free_one :: "nat \<Rightarrow> cap_st \<Rightarrow> cap_st" where
  "free_one a st =
     (let st1 = cap_unlink_from_parent a (release_object a st);
          st2 = upd_ident a (\<lambda>_. zero_identity) st1
      in metric (\<lambda>m. m\<lparr>cm_identities_freed := cm_identities_freed m + 1\<rparr>) (emit (FreeIdentity a) st2))"

partial_function (option) cap_identity_free :: "nat \<Rightarrow> cap_st \<Rightarrow> cap_st option" where
  "cap_identity_free a st =
     (if \<not> cap_identity_is_valid st (Some a) then Some st
      else
        let parent = ci_parent (ca_ident st a); st1 = free_one a st in
        case parent of
          None \<Rightarrow> Some st1
        | Some p \<Rightarrow>
            if cap_identity_is_valid st1 (Some p) \<and> ci_ref_count (ca_ident st1 p) = 0
               \<and> ci_first_child (ca_ident st1 p) = None
            then cap_identity_free p st1
            else Some st1)"

definition cap_delete :: "nat option \<Rightarrow> nat \<Rightarrow> cap_st \<Rightarrow> cap_st option" where
  "cap_delete root cptr st =
     (case root of
        None \<Rightarrow> Some st
      | Some r \<Rightarrow>
          if cptr \<ge> CNODE_SLOTS then Some st
          else case slot st r cptr of
              None \<Rightarrow> Some st
            | Some a \<Rightarrow>
                let st1 = set_slot r cptr None st;
                    old_ref = ci_ref_count (ca_ident st1 a);
                    st2 = metric (\<lambda>m. m\<lparr>cm_delete_ok := cm_delete_ok m + 1\<rparr>)
                            (upd_ident a (\<lambda>i. i\<lparr>ci_ref_count := ci_ref_count i - 1\<rparr>) st1)
                in if old_ref = 1 \<and> ci_first_child (ca_ident st2 a) = None
                   then cap_identity_free a st2
                   else Some st2)"

fun delete_slots :: "nat \<Rightarrow> nat list \<Rightarrow> cap_st \<Rightarrow> cap_st option" where
  "delete_slots r [] st = Some st"
| "delete_slots r (i # is) st = do { st1 \<leftarrow> cap_delete (Some r) i st; delete_slots r is st1 }"

definition cnode_destroy :: "nat option \<Rightarrow> cap_st \<Rightarrow> cap_st option" where
  "cnode_destroy cn st =
     (case cn of
        None \<Rightarrow> Some st
      | Some r \<Rightarrow> do {
          st1 \<leftarrow> delete_slots r [0 ..< CNODE_SLOTS] st;
          Some (emit (FreeCnode r) (st1\<lparr>ca_cnode := (ca_cnode st1)(r := None)\<rparr>))
        })"

definition copy_fail :: "cap_st \<Rightarrow> int \<times> cap_st" where
  "copy_fail st = (- 1, metric (\<lambda>m. m\<lparr>cm_copy_fail := cm_copy_fail m + 1\<rparr>) st)"

definition cap_copy :: "cap_env \<Rightarrow> nat option \<Rightarrow> nat \<Rightarrow> nat \<Rightarrow> cap_st \<Rightarrow> (int \<times> cap_st) option" where
  "cap_copy env root src_cptr dst_cptr st = do {
     (ident, st1) \<leftarrow> cap_lookup env root src_cptr st;
     Some (case ident of
         None \<Rightarrow> copy_fail st1
       | Some a \<Rightarrow>
           if ci_rights (ca_ident st1 a) AND CAP_RIGHT_GRANT = 0 then copy_fail st1
           else case cap_insert root dst_cptr (Some a) st1 of (r, st2) \<Rightarrow>
             if r \<noteq> 0 then copy_fail st2
             else (0, metric (\<lambda>m. m\<lparr>cm_copy_ok := cm_copy_ok m + 1\<rparr>) st2))
   }"

text \<open>Prepending a new child to the parent's list of children.\<close>

definition link_child :: "nat \<Rightarrow> nat \<Rightarrow> cap_st \<Rightarrow> cap_st" where
  "link_child p c st =
     (let st1 = upd_ident c (\<lambda>i. i\<lparr>ci_parent := Some p,
                  ci_parent_epoch_start := ci_revocation_epoch (ca_ident st p),
                  ci_next_sibling := ci_first_child (ca_ident st p)\<rparr>) st;
          st2 = (case ci_first_child (ca_ident st1 p) of
              Some f \<Rightarrow> upd_ident f (\<lambda>i. i\<lparr>ci_prev_sibling := Some c\<rparr>) st1
            | None \<Rightarrow> st1)
      in upd_ident p (\<lambda>i. i\<lparr>ci_first_child := Some c\<rparr>) st2)"

definition retype_fail :: "cap_st \<Rightarrow> int \<times> cap_st" where
  "retype_fail st = (- 1, metric (\<lambda>m. m\<lparr>cm_retype_fail := cm_retype_fail m + 1\<rparr>) st)"

definition cap_retype ::
    "cap_env \<Rightarrow> nat option \<Rightarrow> nat option \<Rightarrow> nat \<Rightarrow> nat \<Rightarrow> u16 \<Rightarrow> u32 \<Rightarrow> cap_st \<Rightarrow> (int \<times> cap_st) option" where
  "cap_retype env cell root src_cptr dst_cptr new_type badge st = do {
     (found, st1) \<leftarrow> cap_lookup env root src_cptr st;
     (case (found, root) of
         (Some p, Some r) \<Rightarrow>
           let i = ca_ident st1 p in
           if ci_rights i AND CAP_RIGHT_GRANT = 0 then Some (retype_fail st1)
           else if unat (ci_type i) \<noteq> cap_type_val CAP_TYPE_RAM \<or>
                   (unat new_type \<noteq> cap_type_val CAP_TYPE_PAGETABLE \<and> unat new_type \<noteq> cap_type_val CAP_TYPE_ENDPOINT)
             then Some (retype_fail st1)
           else if \<not> cap_slot_is_empty env r dst_cptr st1 then Some (retype_fail st1)
           else
             let st2 = (if unat new_type = cap_type_val CAP_TYPE_ENDPOINT
                        then emit (ZeroEndpoint (ci_object_ptr i)) st1 else st1)
             in case cap_identity_create cell (ci_object_ptr i) new_type (ci_rights i) badge (ci_allowed_modes i) st2 of
                  (None, st3) \<Rightarrow> Some (retype_fail st3)
                | (Some c, st3) \<Rightarrow>
                    (case cap_insert root dst_cptr (Some c) (link_child p c st3) of (res, st4) \<Rightarrow>
                      if res \<noteq> 0 then do { st5 \<leftarrow> cap_identity_free c st4; Some (retype_fail st5) }
                      else Some (0, metric (\<lambda>m. m\<lparr>cm_retype_ok := cm_retype_ok m + 1\<rparr>) st4))
       | _ \<Rightarrow> Some (retype_fail st1))
   }"

definition mint_fail :: "cap_st \<Rightarrow> int \<times> cap_st" where
  "mint_fail st = (- 1, metric (\<lambda>m. m\<lparr>cm_mint_fail := cm_mint_fail m + 1\<rparr>) st)"

definition mint_deny :: "cap_st \<Rightarrow> int \<times> cap_st" where
  "mint_deny st = mint_fail (metric (\<lambda>m. m\<lparr>cm_policy_deny := cm_policy_deny m + 1\<rparr>) st)"

definition cap_mint ::
    "cap_env \<Rightarrow> nat option \<Rightarrow> nat option \<Rightarrow> nat \<Rightarrow> nat \<Rightarrow> u16 \<Rightarrow> u32 \<Rightarrow> u8 \<Rightarrow> cap_st \<Rightarrow> (int \<times> cap_st) option" where
  "cap_mint env cell root src_cptr dst_cptr new_rights badge allowed_modes st = do {
     (found, st1) \<leftarrow> cap_lookup env root src_cptr st;
     (case (found, root) of
         (Some p, Some r) \<Rightarrow>
           let i = ca_ident st1 p; effective_modes = ci_allowed_modes i AND allowed_modes in
           if ci_rights i AND CAP_RIGHT_GRANT = 0 then Some (mint_fail st1)
           else if new_rights AND ci_rights i \<noteq> new_rights then
             Some (mint_deny (audit_cap env AUDIT_EVENT_CAP_DENIED AUDIT_RESULT_DENIED (ci_type i) badge
               (ci_object_ptr i) new_rights st1))
           else if \<not> cap_allowed_modes_valid allowed_modes then Some (mint_deny st1)
           else if effective_modes = 0 \<or> \<not> cap_slot_is_empty env r dst_cptr st1 then Some (mint_deny st1)
           else
             (case cap_identity_create cell (ci_object_ptr i) (ucast (ci_type i)) new_rights badge effective_modes st1 of
                  (None, st2) \<Rightarrow> Some (mint_fail st2)
                | (Some c, st2) \<Rightarrow>
                    (case cap_insert root dst_cptr (Some c) (link_child p c st2) of (res, st3) \<Rightarrow>
                      if res \<noteq> 0 then do { st4 \<leftarrow> cap_identity_free c st3; Some (mint_fail st4) }
                      else
                        let ch = ca_ident st3 c in
                        Some (0, metric (\<lambda>m. m\<lparr>cm_mint_ok := cm_mint_ok m + 1\<rparr>)
                          (audit_cap env AUDIT_EVENT_CAP_MINT AUDIT_RESULT_OK (ci_type ch) badge
                            (ci_object_ptr ch) (ci_rights ch) st3))))
       | _ \<Rightarrow> Some (mint_fail st1))
   }"

definition revoke_mark :: "cap_env \<Rightarrow> u64 \<Rightarrow> nat \<Rightarrow> cap_st \<Rightarrow> cap_st" where
  "revoke_mark env epoch a st =
     (let st1 = upd_ident a (\<lambda>i. i\<lparr>ci_revocation_epoch := epoch\<rparr>) st;
          ty = unat (ci_type (ca_ident st1 a))
      in if ty = cap_type_val CAP_TYPE_SCHED_AUTH_ROOT \<or> ty = cap_type_val CAP_TYPE_SCHED_AUTH_THREAD then
           (case ce_auth env (ci_object_ptr (ca_ident st1 a)) of
              None \<Rightarrow> st1
            | Some auth \<Rightarrow>
                if sa_magic auth \<noteq> SCHED_AUTH_MAGIC then st1
                else if ty = cap_type_val CAP_TYPE_SCHED_AUTH_ROOT then
                  (case sa_owner_process auth of Some p \<Rightarrow> emit (RevokeProcess p) st1 | None \<Rightarrow> st1)
                else (case sa_bound_thread auth of Some t \<Rightarrow> emit (RevokeThread t) st1 | None \<Rightarrow> st1))
         else st1)"

text \<open>The loop over the children of \<open>cap_revoke_tree\<close>, each child first with its own subtree.\<close>

partial_function (option) revoke_children ::
    "cap_env \<Rightarrow> u64 \<Rightarrow> nat option \<Rightarrow> cap_st \<Rightarrow> cap_st option" where
  "revoke_children env epoch child st =
     (case child of
        None \<Rightarrow> Some st
      | Some c \<Rightarrow> do {
          st1 \<leftarrow> revoke_children env epoch (ci_first_child (ca_ident st c)) st;
          let st2 = revoke_mark env epoch c st1;
          revoke_children env epoch (ci_next_sibling (ca_ident st2 c)) st2
        })"

definition cap_revoke_tree :: "cap_env \<Rightarrow> nat \<Rightarrow> u64 \<Rightarrow> cap_st \<Rightarrow> cap_st option" where
  "cap_revoke_tree env a epoch st = do {
     st1 \<leftarrow> revoke_children env epoch (ci_first_child (ca_ident st a)) st;
     Some (revoke_mark env epoch a st1)
   }"

definition cap_revoke :: "cap_env \<Rightarrow> nat option \<Rightarrow> nat \<Rightarrow> cap_st \<Rightarrow> cap_st option" where
  "cap_revoke env root cptr st = do {
     (found, st1) \<leftarrow> cap_lookup env root cptr st;
     (case found of
         None \<Rightarrow> Some st1
       | Some a \<Rightarrow> do {
           let my_epoch = ca_epoch st1 + 1;
           st2 \<leftarrow> cap_revoke_tree env a my_epoch (st1\<lparr>ca_epoch := my_epoch\<rparr>);
           Some (metric (\<lambda>m. m\<lparr>cm_revoke_ops := cm_revoke_ops m + 1\<rparr>) st2)
         })
   }"

text \<open>\<open>cspace\<close> is the keyring of the process, if both exist.\<close>

definition process_has_capability_at ::
    "cap_env \<Rightarrow> nat option \<Rightarrow> nat \<Rightarrow> cap_type_t \<Rightarrow> u16 \<Rightarrow> cap_st \<Rightarrow> (bool \<times> cap_st) option" where
  "process_has_capability_at env cspace sl expected_type required_rights st =
     (case cspace of
        None \<Rightarrow> Some (False, st)
      | Some r \<Rightarrow> do {
          (found, st1) \<leftarrow> cap_lookup env (Some r) sl st;
          Some (case found of
              None \<Rightarrow> (False, st1)
            | Some a \<Rightarrow>
                if unat (ci_type (ca_ident st1 a)) \<noteq> cap_type_val expected_type then (False, st1)
                else if ci_rights (ca_ident st1 a) AND required_rights \<noteq> required_rights then (False, st1)
                else (True, st1))
        })"

end
