(* ===== verification/Linked_List.thy ===== *)
theory Linked_List
  imports Reaper_Prelude
begin

text \<open>
  Intrusive linked lists.  The second part holds the singly linked queues of the scheduler and of message passing.

  Doubly linked lists.  The pointers are two functions on addresses; \<open>links nx pv prev start xs fin\<close>
  says that following \<open>nx\<close> from \<open>start\<close> visits \<open>xs\<close> and arrives at \<open>fin\<close>, with the back
  pointers in agreement.  The capability lineage and the slab lists are instances.
\<close>

fun links :: "('a \<Rightarrow> 'a option) \<Rightarrow> ('a \<Rightarrow> 'a option) \<Rightarrow> 'a option \<Rightarrow> 'a option \<Rightarrow> 'a list \<Rightarrow> 'a option \<Rightarrow> bool" where
  "links nx pv prev start [] fin \<longleftrightarrow> start = fin"
| "links nx pv prev start (a # as) fin \<longleftrightarrow> start = Some a \<and> pv a = prev \<and> links nx pv (Some a) (nx a) as fin"

definition lastp :: "'a option \<Rightarrow> 'a list \<Rightarrow> 'a option" where
  "lastp prev xs = (if xs = [] then prev else Some (last xs))"

lemma links_append:
  "links nx pv prev start (xs @ ys) fin \<longleftrightarrow>
     (\<exists>m. links nx pv prev start xs m \<and> links nx pv (lastp prev xs) m ys fin)"
  by (induction xs arbitrary: prev start) (auto simp: lastp_def)

lemma links_cong:
  assumes "\<And>x. x \<in> set xs \<Longrightarrow> nx' x = nx x \<and> pv' x = pv x"
  shows "links nx' pv' prev start xs fin = links nx pv prev start xs fin"
  using assms by (induction xs arbitrary: prev start) auto

lemma links_head: "links nx pv prev start xs fin \<Longrightarrow> start = (if xs = [] then fin else Some (hd xs))"
  by (cases xs) auto

lemma links_around:
  assumes "links nx pv prev start (ys @ a # zs) fin"
  shows "pv a = lastp prev ys" and "links nx pv prev start ys (Some a)" and "links nx pv (Some a) (nx a) zs fin"
  using assms by (auto simp: links_append)

lemma links_set_fin:
  assumes "links nx pv prev start xs fin" and "distinct xs" and "xs \<noteq> []"
    and "nx' (last xs) = fin'" and "pv' (last xs) = pv (last xs)"
    and "\<And>x. x \<in> set xs \<Longrightarrow> x \<noteq> last xs \<Longrightarrow> nx' x = nx x \<and> pv' x = pv x"
  shows "links nx' pv' prev start xs fin'"
proof -
  obtain ys y where xs: "xs = ys @ [y]" using assms(3) by (cases xs rule: rev_cases) auto
  then have "links nx' pv' prev start ys m = links nx pv prev start ys m" for m
    using assms(2,6) by (intro links_cong) auto
  then show ?thesis using assms(1,4,5) by (auto simp: xs links_append)
qed

lemma links_set_prev:
  assumes "links nx pv prev (Some z) (z # zs) fin" and "pv' z = prev'" and "nx' z = nx z"
    and "\<And>x. x \<in> set zs \<Longrightarrow> nx' x = nx x \<and> pv' x = pv x"
  shows "links nx' pv' prev' (Some z) (z # zs) fin"
  using assms links_cong[of zs nx' nx pv' pv] by simp

text \<open>A new first element.\<close>

lemma links_push:
  assumes d: "links nx pv None start xs None" and dist: "distinct (a # xs)"
    and a: "nx' a = start" "pv' a = None"
    and nx: "\<And>x. x \<in> set xs \<Longrightarrow> nx' x = nx x" and pv: "\<And>x. x \<in> set xs \<Longrightarrow> pv' x = (if start = Some x then Some a else pv x)"
  shows "links nx' pv' None (Some a) (a # xs) None"
proof (cases xs)
  case (Cons z zs)
  have st: "start = Some z" using links_head[OF d] Cons by simp
  have "links nx' pv' (Some a) (Some z) (z # zs) None"
    by (rule links_set_prev[of nx pv None]) (use d Cons st nx pv dist in auto)
  then show ?thesis using a st Cons by simp
qed (use a links_head[OF d] in simp)

text \<open>Taking \<open>a\<close> out.\<close>

lemma links_remove:
  assumes d: "links nx pv None start (ys @ a # zs) None" and dist: "distinct (ys @ a # zs)"
    and nx: "\<And>x. x \<in> set (ys @ zs) \<Longrightarrow> nx' x = (if pv a = Some x then nx a else nx x)"
    and pv: "\<And>x. x \<in> set (ys @ zs) \<Longrightarrow> pv' x = (if nx a = Some x then pv a else pv x)"
  shows "links nx' pv' None (if pv a = None then nx a else start) (ys @ zs) None"
proof -
  note A = links_around[OF d]
  have prev: "pv a = lastp None ys" and next_a: "nx a = (if zs = [] then None else Some (hd zs))"
    using A(1) links_head[OF A(3)] by auto
  have tail: "links nx' pv' (lastp None ys) (nx a) zs None"
  proof (cases zs)
    case (Cons z zs')
    have same: "nx' x = nx x" if "x \<in> set zs" for x
    proof -
      have "lastp None ys \<noteq> Some x" using that dist by (auto simp: lastp_def disjoint_iff)
      then show ?thesis using nx[of x] prev that by simp
    qed
    have "pv' x = pv x" if "x \<in> set zs'" for x
    proof -
      have "z \<noteq> x" using that dist Cons by auto
      then show ?thesis using pv[of x] next_a Cons that by simp
    qed
    then show ?thesis
      using A(3) links_set_prev[of nx pv "Some a" z zs' None pv' "lastp None ys" nx'] same pv[of z] dist next_a prev Cons
      by auto
  qed (simp add: next_a)
  show ?thesis
  proof (cases "ys = []")
    case True
    then show ?thesis using tail prev by (simp add: lastp_def)
  next
    case False
    have out: "nx a \<noteq> Some x" if "x \<in> set ys" for x
      using that dist next_a hd_in_set[of zs] by (auto simp: disjoint_iff)
    have prev': "pv a = Some (last ys)" using prev False by (simp add: lastp_def)
    have "links nx' pv' None start ys (nx a)"
    proof (rule links_set_fin[OF A(2) _ False])
      show "distinct ys" using dist by simp
      show "nx' (last ys) = nx a" using nx[of "last ys"] prev' False by simp
      show "pv' (last ys) = pv (last ys)" using pv[of "last ys"] out False by simp
      show "nx' x = nx x \<and> pv' x = pv x" if "x \<in> set ys" "x \<noteq> last ys" for x
        using nx[of x] pv[of x] out[OF that(1)] that prev' by simp
    qed
    then show ?thesis using tail prev False by (auto simp: links_append lastp_def)
  qed
qed

lemma links_first:
  assumes "links nx pv None start (ys @ a # zs) fin" and "distinct (ys @ a # zs)"
  shows "pv a = None \<longleftrightarrow> ys = []" and "start = Some a \<longleftrightarrow> ys = []"
proof -
  show "pv a = None \<longleftrightarrow> ys = []" using links_around(1)[OF assms(1)] by (simp add: lastp_def)
  show "start = Some a \<longleftrightarrow> ys = []" using links_head[OF assms(1)] assms(2) by (cases ys) auto
qed

section \<open>Singly linked queues\<close>

text \<open>\<open>path nx start xs\<close>: following \<open>nx\<close> from \<open>start\<close> visits \<open>xs\<close> and ends.\<close>

fun path :: "('a \<Rightarrow> 'a option) \<Rightarrow> 'a option \<Rightarrow> 'a list \<Rightarrow> bool" where
  "path nx start [] \<longleftrightarrow> start = None"
| "path nx start (x # xs) \<longleftrightarrow> start = Some x \<and> path nx (nx x) xs"

text \<open>A queue with a pointer to its first and to its last element.\<close>

definition queue :: "('a \<Rightarrow> 'a option) \<Rightarrow> 'a option \<Rightarrow> 'a option \<Rightarrow> 'a list \<Rightarrow> bool" where
  "queue nx h t xs \<longleftrightarrow> path nx h xs \<and> t = lastp None xs \<and> distinct xs"

lemma path_cong: "(\<And>x. x \<in> set xs \<Longrightarrow> nx' x = nx x) \<Longrightarrow> path nx' start xs = path nx start xs"
  by (induction xs arbitrary: start) auto

lemma queue_cong: "(\<And>x. x \<in> set xs \<Longrightarrow> nx' x = nx x) \<Longrightarrow> queue nx' h t xs = queue nx h t xs"
  unfolding queue_def by (simp cong: path_cong)

lemma queue_head: "queue nx h t xs \<Longrightarrow> h = (if xs = [] then None else Some (hd xs))"
  by (cases xs) (auto simp: queue_def)

lemma queue_tail: "queue nx h t xs \<Longrightarrow> t = (if xs = [] then None else Some (last xs))"
  by (auto simp: queue_def lastp_def)

lemma queue_Nil [simp]: "queue nx None None []"
  by (simp add: queue_def lastp_def)

lemma queue_distinct: "queue nx h t xs \<Longrightarrow> distinct xs"
  by (simp add: queue_def)

lemma path_behind: "path nx start (xs @ y # zs) \<Longrightarrow> path nx (nx y) zs"
  by (induction xs arbitrary: start) auto

lemma path_relink:
  assumes "path nx start (xs @ ys)" and "xs \<noteq> []" and "nx' (last xs) = start'"
    and "\<And>x. x \<in> set xs \<Longrightarrow> x \<noteq> last xs \<Longrightarrow> nx' x = nx x" and "path nx' start' zs" and "distinct xs"
  shows "path nx' start (xs @ zs)"
  using assms
proof (induction xs arbitrary: start)
  case (Cons a xs)
  show ?case
  proof (cases "xs = []")
    case False
    have "path nx' (nx a) (xs @ zs)"
      by (rule Cons.IH) (use Cons.prems False in auto)
    moreover have "a \<noteq> last xs" using Cons.prems(6) False last_in_set[OF False] by (metis distinct.simps(2))
    then have "nx' a = nx a" using Cons.prems(4)[of a] False by simp
    ultimately show ?thesis using Cons.prems(1) by simp
  qed (use Cons.prems in auto)
qed simp

lemma queue_push:
  assumes q: "queue nx h t xs" and x: "x \<notin> set xs" and nx: "nx' x = None" "xs \<noteq> [] \<Longrightarrow> nx' (last xs) = Some x"
    and same: "\<And>y. y \<in> set xs \<Longrightarrow> y \<noteq> last xs \<Longrightarrow> nx' y = nx y"
  shows "queue nx' (if xs = [] then Some x else h) (Some x) (xs @ [x])"
proof (cases "xs = []")
  case False
  have "path nx' h (xs @ [x])"
    by (rule path_relink[of nx h xs "[]"]) (use q nx same False in \<open>auto simp: queue_def\<close>)
  then show ?thesis using q x False by (simp add: queue_def lastp_def)
qed (simp add: queue_def lastp_def nx)

lemma queue_push_head:
  assumes q: "queue nx h t xs" and x: "x \<notin> set xs" and nx: "nx' x = h" and same: "\<And>y. y \<in> set xs \<Longrightarrow> nx' y = nx y"
  shows "queue nx' (Some x) (if t = None then Some x else t) (x # xs)"
proof -
  have "path nx' h xs" using q path_cong[of xs nx' nx] same by (simp add: queue_def)
  then show ?thesis using q x nx by (auto simp: queue_def lastp_def)
qed

lemma queue_pop:
  assumes q: "queue nx h t (x # xs)" and same: "\<And>y. y \<in> set xs \<Longrightarrow> nx' y = nx y"
  shows "queue nx' (nx x) (if nx x = None then None else t) xs"
proof -
  have p: "path nx (nx x) xs" using q by (simp add: queue_def)
  then have "nx x = None \<longleftrightarrow> xs = []" by (cases xs) auto
  then show ?thesis using q p path_cong[of xs nx' nx] same by (auto simp: queue_def lastp_def)
qed

lemma queue_remove:
  assumes q: "queue nx h t (ys @ x # zs)"
    and nx: "ys \<noteq> [] \<Longrightarrow> nx' (last ys) = nx x" and same: "\<And>y. y \<in> set (ys @ zs) \<Longrightarrow> ys = [] \<or> y \<noteq> last ys \<Longrightarrow> nx' y = nx y"
  shows "queue nx' (if ys = [] then nx x else h) (if t = Some x then lastp None ys else t) (ys @ zs)"
proof -
  have d: "distinct (ys @ x # zs)" and p: "path nx h (ys @ x # zs)" using q by (auto simp: queue_def)
  have same': "nx' y = nx y" if "y \<in> set zs" for y
  proof -
    have "ys = [] \<or> y \<noteq> last ys" using that d last_in_set[of ys] by (metis disjoint_iff distinct_append list.set_intros(2))
    then show ?thesis using same[of y] that by simp
  qed
  then have pz': "path nx' (nx x) zs"
    using path_behind[OF p] path_cong[of zs nx' nx "nx x"] by simp
  have "path nx' (if ys = [] then nx x else h) (ys @ zs)"
  proof (cases "ys = []")
    case False
    then show ?thesis using path_relink[of nx h ys "x # zs" nx' "nx x" zs] p pz' nx same d by auto
  qed (simp add: pz')
  moreover have "(if t = Some x then lastp None ys else t) = lastp None (ys @ zs)"
    using q d by (auto simp: queue_def lastp_def split: if_splits)
  ultimately show ?thesis using d by (simp add: queue_def)
qed

end
