(* ===== verification/Capability_Inv.thy ===== *)
theory Capability_Inv
  imports Capability Linked_List
begin

text \<open>
  The lineage invariant of the capability store and what it gives: every pointer walk ends, no
  slot dangles, reference counts are exact, authority only shrinks along the lineage, revocation
  reaches exactly the descendants.
\<close>

section \<open>The lineage as lists of children\<close>

type_synonym children = "nat \<Rightarrow> nat list"

definition valid_at :: "cap_st \<Rightarrow> nat \<Rightarrow> bool" where
  "valid_at st a \<longleftrightarrow> ci_magic (ca_ident st a) = CAP_IDENT_MAGIC"

lemma is_valid_Some [simp]: "cap_identity_is_valid st (Some a) = valid_at st a"
  and is_valid_None [simp]: "cap_identity_is_valid st None = False"
  by (simp_all add: cap_identity_is_valid_def valid_at_def)

text \<open>The children of an identity are a doubly linked list through the sibling pointers.\<close>

abbreviation dll :: "(nat \<Rightarrow> cap_identity) \<Rightarrow> nat option \<Rightarrow> nat option \<Rightarrow> nat list \<Rightarrow> nat option \<Rightarrow> bool" where
  "dll h \<equiv> links (\<lambda>a. ci_next_sibling (h a)) (\<lambda>a. ci_prev_sibling (h a))"

abbreviation siblings :: "(nat \<Rightarrow> cap_identity) \<Rightarrow> nat option \<Rightarrow> nat list \<Rightarrow> bool" where
  "siblings h start xs \<equiv> dll h None start xs None"

definition attenuates :: "cap_identity \<Rightarrow> cap_identity \<Rightarrow> bool" where
  "attenuates c p \<longleftrightarrow> ci_rights c AND ci_rights p = ci_rights c \<and>
     ci_allowed_modes c AND ci_allowed_modes p = ci_allowed_modes c \<and>
     ci_object_ptr c = ci_object_ptr p \<and>
     (ci_type c = ci_type p \<or>
      unat (ci_type p) = cap_type_val CAP_TYPE_RAM \<and>
      unat (ci_type c) \<in> {cap_type_val CAP_TYPE_PAGETABLE, cap_type_val CAP_TYPE_ENDPOINT})"

definition lineage_inv :: "cap_st \<Rightarrow> children \<Rightarrow> (nat \<Rightarrow> nat) \<Rightarrow> nat \<Rightarrow> bool" where
  "lineage_inv st K rank N \<longleftrightarrow>
     (\<forall>p. valid_at st p \<longrightarrow> siblings (ca_ident st) (ci_first_child (ca_ident st p)) (K p) \<and> distinct (K p)) \<and>
     (\<forall>p a. valid_at st p \<longrightarrow> a \<in> set (K p) \<longrightarrow> valid_at st a \<and> ci_parent (ca_ident st a) = Some p) \<and>
     (\<forall>a. valid_at st a \<longrightarrow> rank a < N \<and> ci_parent_epoch_start (ca_ident st a) = 0 \<and>
        (case ci_parent (ca_ident st a) of
           None \<Rightarrow> ci_prev_sibling (ca_ident st a) = None \<and> ci_next_sibling (ca_ident st a) = None
         | Some p \<Rightarrow> valid_at st p \<and> a \<in> set (K p) \<and> rank p < rank a \<and>
             attenuates (ca_ident st a) (ca_ident st p)))"

text \<open>The slots that refer to an identity.\<close>

definition refs :: "cap_st \<Rightarrow> nat \<Rightarrow> (nat \<times> nat) set" where
  "refs st a = {(r, i). i < CNODE_SLOTS \<and> slot st r i = Some a}"

definition slots_inv :: "cap_st \<Rightarrow> bool" where
  "slots_inv st \<longleftrightarrow> finite (dom (ca_cnode st)) \<and> card (dom (ca_cnode st)) < 2 ^ 25 \<and>
     (\<forall>r cn. ca_cnode st r = Some cn \<longrightarrow> length cn = CNODE_SLOTS) \<and>
     (\<forall>r i a. i < CNODE_SLOTS \<longrightarrow> slot st r i = Some a \<longrightarrow> valid_at st a) \<and>
     (\<forall>a. valid_at st a \<longrightarrow> ci_ref_count (ca_ident st a) = word_of_nat (card (refs st a)))"

definition cap_inv :: "cap_st \<Rightarrow> bool" where
  "cap_inv st \<longleftrightarrow> (\<exists>K rank N. lineage_inv st K rank N) \<and> slots_inv st"


lemmas lineage_invD = lineage_inv_def[THEN iffD1, THEN conjunct1, rule_format]
  lineage_inv_def[THEN iffD1, THEN conjunct2, THEN conjunct1, rule_format]
  lineage_inv_def[THEN iffD1, THEN conjunct2, THEN conjunct2, rule_format]

section \<open>Updates that keep the lineage\<close>

text \<open>An identity without the fields that revocation and reference counting change.\<close>

definition core :: "cap_identity \<Rightarrow> cap_identity" where
  "core i = i\<lparr>ci_revocation_epoch := 0, ci_ref_count := 0\<rparr>"

lemma core_sel:
  "ci_object_ptr (core i) = ci_object_ptr i" "ci_type (core i) = ci_type i"
  "ci_allowed_modes (core i) = ci_allowed_modes i" "ci_rights (core i) = ci_rights i"
  "ci_parent_epoch_start (core i) = ci_parent_epoch_start i" "ci_parent (core i) = ci_parent i"
  "ci_first_child (core i) = ci_first_child i" "ci_next_sibling (core i) = ci_next_sibling i"
  "ci_prev_sibling (core i) = ci_prev_sibling i" "ci_magic (core i) = ci_magic i"
  by (simp_all add: core_def)

lemma core_fields:
  assumes "core i = core j"
  shows "ci_object_ptr i = ci_object_ptr j" "ci_type i = ci_type j" "ci_allowed_modes i = ci_allowed_modes j"
    "ci_rights i = ci_rights j" "ci_parent_epoch_start i = ci_parent_epoch_start j" "ci_parent i = ci_parent j"
    "ci_first_child i = ci_first_child j" "ci_next_sibling i = ci_next_sibling j"
    "ci_prev_sibling i = ci_prev_sibling j" "ci_magic i = ci_magic j"
  by (simp_all only: core_sel[of i, symmetric] core_sel[of j, symmetric] assms)

definition same_core :: "cap_st \<Rightarrow> cap_st \<Rightarrow> bool" where
  "same_core st st' \<longleftrightarrow> (\<forall>a. core (ca_ident st' a) = core (ca_ident st a))"

lemma same_core_refl [simp]: "same_core st st"
  by (simp add: same_core_def)

lemma same_core_trans: "same_core st st1 \<Longrightarrow> same_core st1 st2 \<Longrightarrow> same_core st st2"
  by (simp add: same_core_def)

lemma same_core_valid: "same_core st st' \<Longrightarrow> valid_at st' a = valid_at st a"
  using core_fields(10) by (metis same_core_def valid_at_def)

lemma same_core_lineage:
  assumes same: "same_core st st'" and inv: "lineage_inv st K rank N"
  shows "lineage_inv st' K rank N"
proof -
  note F = core_fields[OF same[unfolded same_core_def, rule_format]]
  have v: "valid_at st' a = valid_at st a" for a using same_core_valid[OF same] .
  have d: "dll (ca_ident st') p s xs f = dll (ca_ident st) p s xs f" for p s xs f
    by (rule links_cong) (simp add: F)
  have at: "attenuates (ca_ident st' a) (ca_ident st' b) = attenuates (ca_ident st a) (ca_ident st b)" for a b
    by (simp add: attenuates_def F)
  show ?thesis using inv unfolding lineage_inv_def v d at F .
qed

lemma same_core_upd:
  assumes "\<And>i. core (f i) = core i"
  shows "same_core st (upd_ident a f st)"
  using assms by (simp add: same_core_def upd_ident_def)

section \<open>Liveness of an identity\<close>

definition parent_rel :: "cap_st \<Rightarrow> (nat \<times> nat) set" where
  "parent_rel st = {(a, p). ci_parent (ca_ident st a) = Some p}"

text \<open>An identity is alive when neither it nor any ancestor has been revoked.\<close>

definition alive :: "cap_st \<Rightarrow> nat \<Rightarrow> bool" where
  "alive st a \<longleftrightarrow> valid_at st a \<and> (\<forall>p. (a, p) \<in> (parent_rel st)\<^sup>* \<longrightarrow> ci_revocation_epoch (ca_ident st p) = 0)"

lemma parent_rel_step:
  "(\<forall>p. (a, p) \<in> (parent_rel st)\<^sup>* \<longrightarrow> P p) \<longleftrightarrow>
     P a \<and> (case ci_parent (ca_ident st a) of None \<Rightarrow> True | Some q \<Rightarrow> (\<forall>p. (q, p) \<in> (parent_rel st)\<^sup>* \<longrightarrow> P p))"
proof (cases "ci_parent (ca_ident st a)")
  case None
  then have "(a, p) \<in> (parent_rel st)\<^sup>* \<longleftrightarrow> p = a" for p
    by (auto simp: parent_rel_def elim: converse_rtranclE)
  then show ?thesis by (simp add: None)
next
  case (Some q)
  then have "(a, p) \<in> (parent_rel st)\<^sup>* \<longleftrightarrow> p = a \<or> (q, p) \<in> (parent_rel st)\<^sup>*" for p
    by (auto simp: parent_rel_def elim: converse_rtranclE intro: converse_rtrancl_into_rtrancl)
  then show ?thesis by (auto simp: Some)
qed

lemma alive_unfold:
  assumes "lineage_inv st K rank N" and "valid_at st a"
  shows "alive st a \<longleftrightarrow> ci_revocation_epoch (ca_ident st a) = 0 \<and>
    (case ci_parent (ca_ident st a) of None \<Rightarrow> True | Some p \<Rightarrow> alive st p)"
  using parent_rel_step[of a st "\<lambda>p. ci_revocation_epoch (ca_ident st p) = 0"] lineage_invD(3)[OF assms]
  by (auto simp: alive_def assms(2) split: option.splits)

text \<open>The walk always ends; its verdict is liveness of the ancestors.\<close>

lemma alive_walk_spec:
  assumes inv: "lineage_inv st K rank N" and "valid_at st a"
  shows "\<exists>w. alive_walk st a (ci_parent (ca_ident st a)) = Some w \<and>
    (if (case ci_parent (ca_ident st a) of None \<Rightarrow> True | Some p \<Rightarrow> alive st p) then w = WalkAlive
     else \<exists>r. w = WalkEpochMismatch r \<and> r \<noteq> 0)"
  using assms(2)
proof (induction "rank a" arbitrary: a rule: less_induct)
  case less
  show ?case
  proof (cases "ci_parent (ca_ident st a)")
    case None
    then show ?thesis by (simp add: alive_walk.simps)
  next
    case (Some p)
    note D = lineage_invD(3)[OF inv less.prems] Some
    have p: "valid_at st p" "rank p < rank a" using D by auto
    have e: "ci_parent_epoch_start (ca_ident st a) = 0" using D by simp
    show ?thesis
    proof (cases "ci_revocation_epoch (ca_ident st p) = 0")
      case True
      then show ?thesis using less.hyps[OF p(2,1)] alive_unfold[OF inv p(1)] Some p(1) e
        by (simp add: alive_walk.simps[of st a])
    next
      case False
      then show ?thesis using alive_unfold[OF inv p(1)] Some p(1) e
        by (simp add: alive_walk.simps[of st a])
    qed
  qed
qed

lemma is_alive_spec:
  assumes inv: "lineage_inv st K rank N"
  shows "\<exists>st'. cap_identity_is_alive a st = Some (alive st a, st') \<and>
    (st' = st \<or> \<not> alive st a \<and> (\<exists>r. r \<noteq> 0 \<and> st' = upd_ident a (\<lambda>i. i\<lparr>ci_revocation_epoch := r\<rparr>) st))"
proof (cases "valid_at st a \<and> ci_revocation_epoch (ca_ident st a) = 0")
  case False
  then show ?thesis
    using alive_unfold[OF inv] by (auto simp: cap_identity_is_alive_def alive_def)
next
  case True
  then obtain w where w: "alive_walk st a (ci_parent (ca_ident st a)) = Some w"
    "if alive st a then w = WalkAlive else \<exists>r. w = WalkEpochMismatch r \<and> r \<noteq> 0"
    using alive_walk_spec[OF inv] alive_unfold[OF inv] by auto
  then show ?thesis
    using True by (cases "alive st a") (auto simp: cap_identity_is_alive_def)
qed

section \<open>Lookup\<close>

text \<open>A lookup changes counters, the audit ring, and at most marks one dead identity as revoked.\<close>

definition lookup_frame :: "cap_st \<Rightarrow> cap_st \<Rightarrow> bool" where
  "lookup_frame st st' \<longleftrightarrow> ca_cnode st' = ca_cnode st \<and> ca_epoch st' = ca_epoch st \<and>
     ca_trace st' = ca_trace st \<and> ca_genesis_exhausted st' = ca_genesis_exhausted st \<and>
     (ca_ident st' = ca_ident st \<or>
      (\<exists>a r. \<not> alive st a \<and> r \<noteq> 0 \<and> ca_ident st' = (ca_ident st)(a := (ca_ident st a)\<lparr>ci_revocation_epoch := r\<rparr>)))"

definition usable :: "cap_env \<Rightarrow> cap_st \<Rightarrow> nat \<Rightarrow> bool" where
  "usable env st a \<longleftrightarrow> alive st a \<and> cap_allowed_modes_valid (ci_allowed_modes (ca_ident st a)) \<and>
     ce_mode_mask env AND ci_allowed_modes (ca_ident st a) \<noteq> 0"

lemma lookup_spec:
  assumes inv: "lineage_inv st K rank N"
  shows "\<exists>st'. cap_lookup env root cptr st =
      Some (case root of None \<Rightarrow> None | Some r \<Rightarrow>
              if cptr < CNODE_SLOTS then
                (case slot st r cptr of None \<Rightarrow> None | Some a \<Rightarrow> if usable env st a then Some a else None)
              else None, st') \<and> lookup_frame st st' \<and>
      (\<forall>r a. root = Some r \<longrightarrow> cptr < CNODE_SLOTS \<longrightarrow> slot st r cptr = Some a \<longrightarrow> usable env st a \<longrightarrow>
         ca_ident st' = ca_ident st)"
proof (cases "\<exists>r a. root = Some r \<and> cptr < CNODE_SLOTS \<and> slot st r cptr = Some a \<and> valid_at st a")
  case False
  then have "cap_lookup env root cptr st = Some (lookup_miss st)"
    by (auto simp: cap_lookup_def split: option.splits)
  then show ?thesis
    using False by (auto simp: lookup_miss_def metric_def lookup_frame_def usable_def alive_def split: option.splits)
next
  case True
  then obtain r a where ra: "root = Some r" "cptr < CNODE_SLOTS" "slot st r cptr = Some a" "valid_at st a" by blast
  obtain st' where st': "cap_identity_is_alive a st = Some (alive st a, st')"
    "st' = st \<or> \<not> alive st a \<and> (\<exists>x. x \<noteq> 0 \<and> st' = upd_ident a (\<lambda>i. i\<lparr>ci_revocation_epoch := x\<rparr>) st)"
    using is_alive_spec[OF inv, of a] by blast
  show ?thesis
  proof (cases "alive st a")
    case True
    then show ?thesis using ra st'
      by (auto simp: cap_lookup_def usable_def lookup_miss_def metric_def audit_cap_def lookup_frame_def Let_def)
  next
    case False
    then have "cap_lookup env root cptr st = Some (lookup_miss st')" using ra st' by (simp add: cap_lookup_def)
    moreover have "lookup_frame st (snd (lookup_miss st'))"
      using st'(2) False by (auto simp: lookup_frame_def lookup_miss_def metric_def upd_ident_def) blast
    ultimately show ?thesis using ra False by (auto simp: lookup_miss_def usable_def)
  qed
qed

lemma lookup_frame_core: "lookup_frame st st' \<Longrightarrow> same_core st st'"
  by (auto simp: lookup_frame_def same_core_def core_def)

section \<open>Slots and reference counts\<close>

lemma slot_set_slot:
  assumes "slots_inv st" and "r \<in> dom (ca_cnode st)" and "i < CNODE_SLOTS"
  shows "slot (set_slot r i v st) r' j = (if r' = r \<and> j = i then v else slot st r' j)"
  using assms by (auto simp: slot_def set_slot_def slots_inv_def nth_list_update split: option.splits)

lemma slot_upd_ident [simp]: "slot (upd_ident a f st) = slot st"
  by (simp add: slot_def upd_ident_def fun_eq_iff)

lemma slot_metric [simp]: "slot (metric f st) = slot st" "ca_ident (metric f st) = ca_ident st"
    "ca_cnode (metric f st) = ca_cnode st" "ca_trace (metric f st) = ca_trace st"
  by (simp_all add: slot_def metric_def fun_eq_iff)

lemma refs_bound:
  assumes "slots_inv st"
  shows "finite (refs st a)" and "card (refs st a) < 2 ^ 32"
proof -
  have sub: "refs st a \<subseteq> dom (ca_cnode st) \<times> {..<CNODE_SLOTS}"
    by (auto simp: refs_def slot_def split: option.splits)
  have fin: "finite (dom (ca_cnode st) \<times> {..<CNODE_SLOTS})" using assms by (simp add: slots_inv_def)
  show "finite (refs st a)" using finite_subset[OF sub fin] .
  have "card (refs st a) \<le> card (dom (ca_cnode st)) * 128"
    using card_mono[OF fin sub] by (simp add: card_cartesian_product CNODE_SLOTS_def)
  then show "card (refs st a) < 2 ^ 32" using assms by (simp add: slots_inv_def)
qed

lemma slots_cong:
  assumes "slots_inv st" and "ca_cnode st' = ca_cnode st"
    and "\<And>a. valid_at st a \<Longrightarrow> valid_at st' a"
    and "\<And>a. valid_at st' a \<Longrightarrow> ci_ref_count (ca_ident st' a) = word_of_nat (card (refs st a))"
  shows "slots_inv st'"
proof -
  have "slot st' = slot st" using assms(2) by (simp add: slot_def fun_eq_iff)
  then have "refs st' = refs st" by (simp add: refs_def fun_eq_iff)
  then show ?thesis using assms \<open>slot st' = slot st\<close> by (auto simp: slots_inv_def)
qed

lemma slots_same_core:
  assumes "slots_inv st" and "ca_cnode st' = ca_cnode st" and "same_core st st'"
    and "\<And>a. ci_ref_count (ca_ident st' a) = ci_ref_count (ca_ident st a)"
  shows "slots_inv st'"
  using assms same_core_valid[OF assms(3)] by (intro slots_cong[OF assms(1,2)]) (auto simp: slots_inv_def)

lemma inv_same_core:
  assumes inv: "cap_inv st" and cn: "ca_cnode st' = ca_cnode st" and same: "same_core st st'"
    and rc: "\<And>a. ci_ref_count (ca_ident st' a) = ci_ref_count (ca_ident st a)"
  shows "cap_inv st'"
proof -
  have "slots_inv st'" using inv slots_same_core[OF _ cn same rc] by (simp add: cap_inv_def)
  then show ?thesis using inv same_core_lineage[OF same] unfolding cap_inv_def by blast
qed

lemma inv_metric: "cap_inv st \<Longrightarrow> cap_inv (metric f st)"
  by (rule inv_same_core) (simp_all add: same_core_def)

lemma lookup_inv:
  assumes "cap_inv st" and "lookup_frame st st'"
  shows "cap_inv st'"
  using assms(2) by (intro inv_same_core[OF assms(1) _ lookup_frame_core[OF assms(2)]]) (auto simp: lookup_frame_def)

lemma card_1_word:
  assumes "n < 2 ^ 32" and "word_of_nat n = (1 :: u32)"
  shows "n = 1"
proof -
  have "unat (word_of_nat n :: u32) = n" using assms(1) by (simp add: unat_of_nat)
  then show ?thesis using assms(2) by (metis unat_1)
qed

text \<open>Writing a reference into an empty slot and counting it.\<close>

lemma add_ref_inv:
  assumes inv: "cap_inv st" and r: "r \<in> dom (ca_cnode st)" and i: "i < CNODE_SLOTS"
    and free: "slot st r i = None" and a: "valid_at st a"
  defines "st' \<equiv> upd_ident a (\<lambda>x. x\<lparr>ci_ref_count := ci_ref_count x + 1\<rparr>) (set_slot r i (Some a) st)"
  shows "cap_inv st'" and "same_core st st'"
    and "slot st' r' j = (if r' = r \<and> j = i then Some a else slot st r' j)"
proof -
  have s: "slots_inv st" using inv by (simp add: cap_inv_def)
  show sl: "slot st' r' j = (if r' = r \<and> j = i then Some a else slot st r' j)" for r' j
    using slot_set_slot[OF s r i] by (simp add: st'_def)
  have id: "ca_ident st' = (ca_ident st)(a := (ca_ident st a)\<lparr>ci_ref_count := ci_ref_count (ca_ident st a) + 1\<rparr>)"
    by (simp add: st'_def upd_ident_def set_slot_def)
  show core: "same_core st st'" by (simp add: same_core_def id core_def)
  have rf: "refs st' b = (if b = a then insert (r, i) (refs st a) else refs st b)" for b
    using i free by (auto simp: refs_def sl split: if_splits)
  have new: "(r, i) \<notin> refs st a" using free by (simp add: refs_def)
  have dom: "dom (ca_cnode st') = dom (ca_cnode st)" using r by (auto simp: st'_def upd_ident_def set_slot_def)
  have "slots_inv st'"
    unfolding slots_inv_def dom
  proof (intro conjI allI impI)
    show "finite (dom (ca_cnode st))" "card (dom (ca_cnode st)) < 2 ^ 25" using s by (auto simp: slots_inv_def)
  next
    fix x cn assume "ca_cnode st' x = Some cn"
    then show "length cn = CNODE_SLOTS"
      using s by (auto simp: slots_inv_def st'_def upd_ident_def set_slot_def split: if_splits)
  next
    fix x j b assume "j < CNODE_SLOTS" "slot st' x j = Some b"
    then show "valid_at st' b" using s a same_core_valid[OF core] by (auto simp: slots_inv_def sl split: if_splits)
  next
    fix b assume "valid_at st' b"
    then have v: "valid_at st b" using same_core_valid[OF core] by simp
    then show "ci_ref_count (ca_ident st' b) = word_of_nat (card (refs st' b))"
      using s new refs_bound(1)[OF s, of a] by (auto simp: slots_inv_def rf id add.commute)
  qed
  then show "cap_inv st'" using inv same_core_lineage[OF core] unfolding cap_inv_def by blast
qed

text \<open>Clearing a slot and discounting the reference.\<close>

lemma drop_ref_inv:
  assumes inv: "cap_inv st" and r: "r \<in> dom (ca_cnode st)" and i: "i < CNODE_SLOTS"
    and at: "slot st r i = Some a"
  defines "st' \<equiv> upd_ident a (\<lambda>x. x\<lparr>ci_ref_count := ci_ref_count x - 1\<rparr>) (set_slot r i None st)"
  shows "cap_inv st'" and "same_core st st'"
    and "slot st' r' j = (if r' = r \<and> j = i then None else slot st r' j)"
    and "refs st' a = refs st a - {(r, i)}" and "(r, i) \<in> refs st a"
proof -
  have s: "slots_inv st" using inv by (simp add: cap_inv_def)
  have a: "valid_at st a" using s i at by (auto simp: slots_inv_def)
  show sl: "slot st' r' j = (if r' = r \<and> j = i then None else slot st r' j)" for r' j
    using slot_set_slot[OF s r i] by (simp add: st'_def)
  have id: "ca_ident st' = (ca_ident st)(a := (ca_ident st a)\<lparr>ci_ref_count := ci_ref_count (ca_ident st a) - 1\<rparr>)"
    by (simp add: st'_def upd_ident_def set_slot_def)
  show core: "same_core st st'" by (simp add: same_core_def id core_def)
  have rf: "refs st' b = (if b = a then refs st a - {(r, i)} else refs st b)" for b
    using i at by (auto simp: refs_def sl split: if_splits)
  then show "refs st' a = refs st a - {(r, i)}" by simp
  show old: "(r, i) \<in> refs st a" using at i by (simp add: refs_def)
  have card: "card (refs st a) = Suc (card (refs st a - {(r, i)}))"
    using card_Suc_Diff1[OF refs_bound(1)[OF s] old] by simp
  have dom: "dom (ca_cnode st') = dom (ca_cnode st)" using r by (auto simp: st'_def upd_ident_def set_slot_def)
  have "slots_inv st'"
    unfolding slots_inv_def dom
  proof (intro conjI allI impI)
    show "finite (dom (ca_cnode st))" "card (dom (ca_cnode st)) < 2 ^ 25" using s by (auto simp: slots_inv_def)
  next
    fix x cn assume "ca_cnode st' x = Some cn"
    then show "length cn = CNODE_SLOTS"
      using s by (auto simp: slots_inv_def st'_def upd_ident_def set_slot_def split: if_splits)
  next
    fix x j b assume "j < CNODE_SLOTS" "slot st' x j = Some b"
    then show "valid_at st' b" using s same_core_valid[OF core] by (auto simp: slots_inv_def sl split: if_splits)
  next
    fix b assume "valid_at st' b"
    then have v: "valid_at st b" using same_core_valid[OF core] by simp
    then show "ci_ref_count (ca_ident st' b) = word_of_nat (card (refs st' b))"
      using s card by (auto simp: slots_inv_def rf id)
  qed
  then show "cap_inv st'" using inv same_core_lineage[OF core] unfolding cap_inv_def by blast
qed

section \<open>Releasing an identity\<close>

definition unlinked :: "(nat \<Rightarrow> cap_identity) \<Rightarrow> nat \<Rightarrow> nat \<Rightarrow> cap_identity" where
  "unlinked h a x =
     (if x = a then zero_identity
      else if ci_parent (h a) = None then h x
      else (h x)\<lparr>ci_next_sibling := (if ci_prev_sibling (h a) = Some x then ci_next_sibling (h a) else ci_next_sibling (h x)),
                 ci_prev_sibling := (if ci_next_sibling (h a) = Some x then ci_prev_sibling (h a) else ci_prev_sibling (h x)),
                 ci_first_child := (if ci_parent (h a) = Some x \<and> ci_prev_sibling (h a) = None
                                    then ci_next_sibling (h a) else ci_first_child (h x))\<rparr>)"

lemma emit_sel [simp]: "ca_ident (emit e st) = ca_ident st" "ca_cnode (emit e st) = ca_cnode st"
    "slot (emit e st) = slot st" "ca_trace (emit e st) = ca_trace st @ [e]"
  by (simp_all add: emit_def slot_def fun_eq_iff)

lemma release_object_sel [simp]:
  "ca_ident (release_object a st) = ca_ident st" "ca_cnode (release_object a st) = ca_cnode st"
  by (simp_all add: release_object_def Let_def)

lemma upd_ident_sel [simp]: "ca_ident (upd_ident a f st) = (ca_ident st)(a := f (ca_ident st a))"
    "ca_cnode (upd_ident a f st) = ca_cnode st" "ca_trace (upd_ident a f st) = ca_trace st"
  by (simp_all add: upd_ident_def)

lemma free_one_ident:
  assumes "ci_prev_sibling (ca_ident st a) \<noteq> Some a" "ci_next_sibling (ca_ident st a) \<noteq> Some a"
    "ci_parent (ca_ident st a) \<noteq> Some a"
    and "ci_prev_sibling (ca_ident st a) \<noteq> ci_next_sibling (ca_ident st a) \<or> ci_next_sibling (ca_ident st a) = None"
    and "ci_parent (ca_ident st a) \<noteq> None \<Longrightarrow> ci_parent (ca_ident st a) \<noteq> ci_next_sibling (ca_ident st a)"
  shows "ca_ident (free_one a st) = unlinked (ca_ident st) a"
  using assms
  by (auto simp: free_one_def cap_unlink_from_parent_def unlinked_def Let_def fun_eq_iff
      split: option.splits)

lemma free_one_cnode [simp]: "ca_cnode (free_one a st) = ca_cnode st"
  by (auto simp: free_one_def cap_unlink_from_parent_def Let_def split: option.splits)

lemma unlinked_sel:
  assumes "x \<noteq> a"
  shows "ci_magic (unlinked h a x) = ci_magic (h x)" "ci_parent (unlinked h a x) = ci_parent (h x)"
    "ci_parent_epoch_start (unlinked h a x) = ci_parent_epoch_start (h x)"
    "ci_rights (unlinked h a x) = ci_rights (h x)" "ci_allowed_modes (unlinked h a x) = ci_allowed_modes (h x)"
    "ci_object_ptr (unlinked h a x) = ci_object_ptr (h x)" "ci_type (unlinked h a x) = ci_type (h x)"
    "ci_revocation_epoch (unlinked h a x) = ci_revocation_epoch (h x)"
    "ci_ref_count (unlinked h a x) = ci_ref_count (h x)"
  using assms by (simp_all add: unlinked_def)

text \<open>Where a node sits among its siblings.\<close>

lemma sibling_facts:
  assumes inv: "lineage_inv st K rank N" and a: "valid_at st a" and p: "ci_parent (ca_ident st a) = Some p"
  obtains ys zs where "K p = ys @ a # zs" and "distinct (ys @ a # zs)"
    and "siblings (ca_ident st) (ci_first_child (ca_ident st p)) (ys @ a # zs)"
    and "ci_prev_sibling (ca_ident st a) = lastp None ys"
    and "ci_next_sibling (ca_ident st a) = (if zs = [] then None else Some (hd zs))"
proof -
  have v: "valid_at st p" and "a \<in> set (K p)" using lineage_invD(3)[OF inv a] p by auto
  then obtain ys zs where K: "K p = ys @ a # zs" by (metis split_list)
  have d: "siblings (ca_ident st) (ci_first_child (ca_ident st p)) (ys @ a # zs)" and "distinct (ys @ a # zs)"
    using lineage_invD(1)[OF inv v] K by auto
  then show thesis using that[OF K] links_around[OF d] links_head[OF links_around(3)[OF d]] by auto
qed

lemma neighbour_parent:
  assumes inv: "lineage_inv st K rank N" and a: "valid_at st a" and p: "ci_parent (ca_ident st a) = Some p"
    and x: "ci_prev_sibling (ca_ident st a) = Some x \<or> ci_next_sibling (ca_ident st a) = Some x"
  shows "ci_parent (ca_ident st x) = Some p"
proof -
  obtain ys zs where S: "K p = ys @ a # zs" "ci_prev_sibling (ca_ident st a) = lastp None ys"
      "ci_next_sibling (ca_ident st a) = (if zs = [] then None else Some (hd zs))"
    using sibling_facts[OF inv a p] by metis
  have "x \<in> set (K p)"
    using S x last_in_set[of ys] hd_in_set[of zs] by (auto simp: lastp_def split: if_splits)
  moreover have "valid_at st p" using lineage_invD(3)[OF inv a] p by simp
  ultimately show ?thesis using lineage_invD(2)[OF inv] by blast
qed

lemma unlinked_siblings:
  assumes inv: "lineage_inv st K rank N" and a: "valid_at st a" and x: "x \<noteq> a"
    and p: "ci_parent (ca_ident st x) \<noteq> ci_parent (ca_ident st a) \<or> ci_parent (ca_ident st a) = None"
  shows "ci_next_sibling (unlinked (ca_ident st) a x) = ci_next_sibling (ca_ident st x) \<and>
    ci_prev_sibling (unlinked (ca_ident st) a x) = ci_prev_sibling (ca_ident st x)"
  using neighbour_parent[OF inv a, of _ x] p x
  by (cases "ci_parent (ca_ident st a)") (auto simp: unlinked_def)

lemma free_one_lineage:
  assumes inv: "lineage_inv st K rank N" and a: "valid_at st a" and leaf: "K a = []"
  shows "\<exists>K'. lineage_inv (free_one a st) K' rank N \<and> ca_ident (free_one a st) = unlinked (ca_ident st) a \<and>
    (\<forall>x. valid_at (free_one a st) x = (valid_at st x \<and> x \<noteq> a)) \<and>
    (\<forall>p. K' p = remove1 a (K p))"
proof -
  let ?h = "ca_ident st"
  define K' where "K' p = remove1 a (K p)" for p
  have ident: "ca_ident (free_one a st) = unlinked ?h a"
  proof (cases "ci_parent (?h a)")
    case None
    then show ?thesis using lineage_invD(3)[OF inv a] by (intro free_one_ident) auto
  next
    case (Some p)
    then obtain ys zs where S: "K p = ys @ a # zs" "distinct (ys @ a # zs)"
        "ci_prev_sibling (?h a) = lastp None ys" "ci_next_sibling (?h a) = (if zs = [] then None else Some (hd zs))"
      using sibling_facts[OF inv a] by metis
    have "p \<noteq> a" using lineage_invD(3)[OF inv a] Some by auto
    moreover have "hd zs \<noteq> p" if "zs \<noteq> []"
    proof
      assume "hd zs = p"
      then have "p \<in> set (K p)" using that S(1) by auto
      moreover have "valid_at st p" using lineage_invD(3)[OF inv a] Some by simp
      ultimately have "ci_parent (?h p) = Some p" using lineage_invD(2)[OF inv] by blast
      then show False using lineage_invD(3)[OF inv \<open>valid_at st p\<close>] by simp
    qed
    moreover have "last ys \<noteq> hd zs" if "ys \<noteq> []" "zs \<noteq> []"
      using that S(2) last_in_set[of ys] hd_in_set[of zs] by (metis disjoint_iff distinct_append list.set_intros(2))
    ultimately show ?thesis using S Some
      by (intro free_one_ident) (auto simp: lastp_def split: if_splits)
  qed
  have valid: "valid_at (free_one a st) x = (valid_at st x \<and> x \<noteq> a)" for x
    unfolding valid_at_def ident by (simp add: unlinked_def zero_identity_def CAP_IDENT_MAGIC_def)
  have other: "a \<notin> set (K p)" if "valid_at st p" "ci_parent (?h a) \<noteq> Some p" for p
    using that lineage_invD(2)[OF inv] by auto
  have sib: "siblings (unlinked ?h a) (ci_first_child (unlinked ?h a p)) (K' p)"
    if p: "valid_at st p" "p \<noteq> a" for p
  proof (cases "ci_parent (?h a) = Some p")
    case True
    then obtain ys zs where S: "K p = ys @ a # zs" "distinct (ys @ a # zs)"
        "siblings ?h (ci_first_child (?h p)) (ys @ a # zs)"
      using sibling_facts[OF inv a] by metis
    have "K' p = ys @ zs" using S(1,2) by (simp add: K'_def remove1_append)
    moreover have "ci_next_sibling (unlinked ?h a x) = (if ci_prev_sibling (?h a) = Some x then ci_next_sibling (?h a) else ci_next_sibling (?h x))"
        "ci_prev_sibling (unlinked ?h a x) = (if ci_next_sibling (?h a) = Some x then ci_prev_sibling (?h a) else ci_prev_sibling (?h x))"
      if "x \<in> set (ys @ zs)" for x
      using that S(2) True by (auto simp: unlinked_def)
    moreover have "ci_first_child (unlinked ?h a p) = (if ci_prev_sibling (?h a) = None then ci_next_sibling (?h a) else ci_first_child (?h p))"
      using True p(2) by (simp add: unlinked_def)
    ultimately show ?thesis using links_remove[OF S(3,2)] by simp
  next
    case False
    have eq: "K' p = K p" using other[OF p(1) False] by (simp add: K'_def remove1_idem)
    have "dll (unlinked ?h a) None s (K p) None = siblings ?h s (K p)" for s
    proof (rule links_cong)
      fix x assume x: "x \<in> set (K p)"
      have "x \<noteq> a" using other[OF p(1) False] x by auto
      moreover have "ci_parent (?h x) = Some p" using lineage_invD(2)[OF inv p(1) x] by simp
      ultimately show "ci_next_sibling (unlinked ?h a x) = ci_next_sibling (?h x) \<and>
          ci_prev_sibling (unlinked ?h a x) = ci_prev_sibling (?h x)"
        using unlinked_siblings[OF inv a, of x] False by auto
    qed
    moreover have "ci_first_child (unlinked ?h a p) = ci_first_child (?h p)"
      using False p(2) by (simp add: unlinked_def)
    ultimately show ?thesis using lineage_invD(1)[OF inv p(1)] eq by simp
  qed
  have inv': "lineage_inv (free_one a st) K' rank N"
    unfolding lineage_inv_def valid ident
  proof (intro conjI allI impI)
    fix p assume p: "valid_at st p \<and> p \<noteq> a"
    show "siblings (unlinked ?h a) (ci_first_child (unlinked ?h a p)) (K' p)" using sib p by blast
    show "distinct (K' p)" using lineage_invD(1)[OF inv] p by (simp add: K'_def distinct_remove1)
  next
    fix p b assume p: "valid_at st p \<and> p \<noteq> a" and b: "b \<in> set (K' p)"
    have "distinct (K p)" using lineage_invD(1)[OF inv] p by simp
    then have b': "b \<in> set (K p)" "b \<noteq> a" using b by (auto simp: K'_def)
    then show "valid_at st b" "b \<noteq> a" using lineage_invD(2)[OF inv] p by blast+
    show "ci_parent (unlinked ?h a b) = Some p" using lineage_invD(2)[OF inv] p b' by (simp add: unlinked_sel)
  next
    fix b assume b: "valid_at st b \<and> b \<noteq> a"
    note D = lineage_invD(3)[OF inv conjunct1[OF b]]
    show "rank b < N" "ci_parent_epoch_start (unlinked ?h a b) = 0" using D b by (auto simp: unlinked_sel)
    show "case ci_parent (unlinked ?h a b) of
        None \<Rightarrow> ci_prev_sibling (unlinked ?h a b) = None \<and> ci_next_sibling (unlinked ?h a b) = None
      | Some p \<Rightarrow> (valid_at st p \<and> p \<noteq> a) \<and> b \<in> set (K' p) \<and> rank p < rank b \<and>
          attenuates (unlinked ?h a b) (unlinked ?h a p)"
    proof (cases "ci_parent (?h b)")
      case None
      then have "ci_next_sibling (unlinked ?h a b) = ci_next_sibling (?h b) \<and>
          ci_prev_sibling (unlinked ?h a b) = ci_prev_sibling (?h b)"
        using unlinked_siblings[OF inv a, of b] b by auto
      then show ?thesis using D None b by (simp add: unlinked_sel)
    next
      case (Some p)
      have "p \<noteq> a" using D Some leaf by auto
      then show ?thesis using D Some b by (auto simp: unlinked_sel K'_def attenuates_def)
    qed
  qed
  then show ?thesis using ident valid K'_def by blast
qed

lemma valid_frame [simp]: "valid_at (metric f st) = valid_at st" "valid_at (emit e st) = valid_at st"
  by (simp_all add: valid_at_def fun_eq_iff)

lemma first_child_None:
  assumes "lineage_inv st K rank N" and "valid_at st a"
  shows "ci_first_child (ca_ident st a) = None \<longleftrightarrow> K a = []"
  using links_head[OF conjunct1[OF lineage_invD(1)[OF assms]]] by auto

text \<open>What releasing identities keeps of those that survive.\<close>

definition payload :: "cap_identity \<Rightarrow> cap_identity" where
  "payload i = i\<lparr>ci_first_child := None, ci_next_sibling := None, ci_prev_sibling := None\<rparr>"

definition survives :: "cap_st \<Rightarrow> cap_st \<Rightarrow> bool" where
  "survives st st' \<longleftrightarrow> ca_cnode st' = ca_cnode st \<and> ca_epoch st' = ca_epoch st \<and>
     (\<forall>x. valid_at st' x \<longrightarrow> valid_at st x \<and> payload (ca_ident st' x) = payload (ca_ident st x))"

lemma payload_sel:
  "ci_object_ptr (payload i) = ci_object_ptr i" "ci_type (payload i) = ci_type i"
  "ci_allowed_modes (payload i) = ci_allowed_modes i" "ci_rights (payload i) = ci_rights i"
  "ci_parent (payload i) = ci_parent i" "ci_revocation_epoch (payload i) = ci_revocation_epoch i"
  "ci_ref_count (payload i) = ci_ref_count i" "ci_badge (payload i) = ci_badge i"
  by (simp_all add: payload_def)

lemma payload_fields:
  assumes "payload i = payload j"
  shows "ci_object_ptr i = ci_object_ptr j" "ci_type i = ci_type j"
  "ci_allowed_modes i = ci_allowed_modes j" "ci_rights i = ci_rights j"
  "ci_parent i = ci_parent j" "ci_revocation_epoch i = ci_revocation_epoch j"
  "ci_ref_count i = ci_ref_count j" "ci_badge i = ci_badge j"
  by (simp_all only: payload_sel[of i, symmetric] payload_sel[of j, symmetric] assms)

lemma survives_refl [simp]: "survives st st"
  by (simp add: survives_def)

lemma survives_trans: "survives st st1 \<Longrightarrow> survives st1 st2 \<Longrightarrow> survives st st2"
  by (simp add: survives_def)

lemma free_one_epoch [simp]: "ca_epoch (free_one a st) = ca_epoch st"
  by (auto simp: free_one_def cap_unlink_from_parent_def Let_def release_object_def emit_def metric_def upd_ident_def
      split: option.splits)

lemma slots_shrink:
  assumes s: "slots_inv st" and same: "survives st st'"
    and gone: "\<And>x. valid_at st x \<Longrightarrow> \<not> valid_at st' x \<Longrightarrow> refs st x = {}"
  shows "slots_inv st'"
proof -
  have cn: "ca_cnode st' = ca_cnode st" using same by (simp add: survives_def)
  then have sl: "slot st' = slot st" by (simp add: slot_def fun_eq_iff)
  then have rf: "refs st' = refs st" by (simp add: refs_def fun_eq_iff)
  have "valid_at st' a" if "i < CNODE_SLOTS" "slot st r i = Some a" for r i a
    using s gone[of a] that by (force simp: slots_inv_def refs_def)
  moreover have "ci_ref_count (ca_ident st' a) = word_of_nat (card (refs st a))" if "valid_at st' a" for a
    using that same s payload_fields(7) by (metis survives_def slots_inv_def)
  ultimately show ?thesis using s by (simp add: slots_inv_def cn sl rf)
qed

lemma free_one_inv:
  assumes inv: "lineage_inv st K rank N" and s: "slots_inv st" and a: "valid_at st a"
    and leaf: "ci_first_child (ca_ident st a) = None" and unref: "refs st a = {}"
  shows "\<exists>K'. lineage_inv (free_one a st) K' rank N" and "slots_inv (free_one a st)" and "survives st (free_one a st)"
    and "valid_at (free_one a st) x = (valid_at st x \<and> x \<noteq> a)"
proof -
  have "K a = []" using first_child_None[OF inv a] leaf by simp
  then obtain K' where K': "lineage_inv (free_one a st) K' rank N"
      "ca_ident (free_one a st) = unlinked (ca_ident st) a"
      and v: "\<And>x. valid_at (free_one a st) x = (valid_at st x \<and> x \<noteq> a)"
    using free_one_lineage[OF inv a] by blast
  show "\<exists>K'. lineage_inv (free_one a st) K' rank N" using K'(1) by blast
  show "valid_at (free_one a st) x = (valid_at st x \<and> x \<noteq> a)" by (rule v)
  show sv: "survives st (free_one a st)"
    by (auto simp: survives_def v K'(2) payload_def unlinked_def)
  show "slots_inv (free_one a st)" using slots_shrink[OF s sv] unref v by auto
qed

text \<open>
  Releasing an unreferenced leaf ends, keeps the invariant, and releases only identities on its
  path to the root that nothing refers to.
\<close>

lemma identity_free_spec:
  assumes inv: "lineage_inv st K rank N" and s: "slots_inv st" and a: "valid_at st a"
    and leaf: "ci_first_child (ca_ident st a) = None" and unref: "refs st a = {}"
  shows "\<exists>st'. cap_identity_free a st = Some st' \<and> cap_inv st' \<and> survives st st' \<and> \<not> valid_at st' a \<and>
    (\<forall>x. valid_at st x \<longrightarrow> \<not> valid_at st' x \<longrightarrow> refs st x = {} \<and> (a, x) \<in> (parent_rel st)\<^sup>*)"
  using assms
proof (induction "rank a" arbitrary: a st K rule: less_induct)
  case less
  note F = free_one_inv[OF less.prems]
  obtain K' where K': "lineage_inv (free_one a st) K' rank N" using F(1) by blast
  have one: "cap_inv (free_one a st)" using K' F(2) by (auto simp: cap_inv_def)
  show ?case
  proof (cases "\<exists>p. ci_parent (ca_ident st a) = Some p \<and> valid_at (free_one a st) p \<and>
      ci_ref_count (ca_ident (free_one a st) p) = 0 \<and> ci_first_child (ca_ident (free_one a st) p) = None")
    case False
    then have "cap_identity_free a st = Some (free_one a st)"
      using less.prems(3) by (auto simp: cap_identity_free.simps[of a] Let_def split: option.split)
    then show ?thesis using one F(3,4) less.prems(5) by auto
  next
    case True
    then obtain p where p: "ci_parent (ca_ident st a) = Some p" "valid_at (free_one a st) p"
      "ci_ref_count (ca_ident (free_one a st) p) = 0" "ci_first_child (ca_ident (free_one a st) p) = None" by blast
    have "rank p < rank a" using lineage_invD(3)[OF less.prems(1,3)] p(1) by simp
    have rf: "refs (free_one a st) = refs st" by (simp add: refs_def slot_def fun_eq_iff)
    have "word_of_nat (card (refs (free_one a st) p)) = (0 :: u32)"
      using p(2,3) F(2) by (simp add: slots_inv_def)
    then have "card (refs (free_one a st) p) = 0"
      using refs_bound(2)[OF F(2), of p] by (auto simp: word_of_nat_eq_0_iff dest: dvd_imp_le)
    then have un: "refs (free_one a st) p = {}" using refs_bound(1)[OF F(2)] by simp
    obtain st' where st': "cap_identity_free p (free_one a st) = Some st'" "cap_inv st'"
        "survives (free_one a st) st'" "\<not> valid_at st' p"
        "\<And>x. valid_at (free_one a st) x \<Longrightarrow> \<not> valid_at st' x \<Longrightarrow>
           refs (free_one a st) x = {} \<and> (p, x) \<in> (parent_rel (free_one a st))\<^sup>*"
      using less.hyps[OF \<open>rank p < rank a\<close> K' F(2) p(2,4) un] by blast
    have run: "cap_identity_free a st = Some st'"
      using less.prems(3) p st'(1) by (simp add: cap_identity_free.simps[of a] Let_def)
    have sub: "(parent_rel (free_one a st))\<^sup>* \<subseteq> (parent_rel st)\<^sup>*"
    proof (rule rtrancl_mono, safe)
      fix x y assume "(x, y) \<in> parent_rel (free_one a st)"
      moreover have "ca_ident (free_one a st) = unlinked (ca_ident st) a"
        using free_one_lineage[OF less.prems(1,3)] first_child_None[OF less.prems(1,3)] less.prems(4) by blast
      ultimately show "(x, y) \<in> parent_rel st"
        by (cases "x = a") (auto simp: parent_rel_def unlinked_sel, simp add: unlinked_def zero_identity_def)
    qed
    have "\<not> valid_at st' a" using st'(3) F(4) by (auto simp: survives_def)
    moreover have "refs st x = {} \<and> (a, x) \<in> (parent_rel st)\<^sup>*" if x: "valid_at st x" "\<not> valid_at st' x" for x
    proof (cases "x = a")
      case False
      then have "valid_at (free_one a st) x" using F(4) x(1) by simp
      note R = st'(5)[OF this x(2)]
      have "(p, x) \<in> (parent_rel st)\<^sup>*" using R sub by blast
      moreover have "(a, p) \<in> parent_rel st" using p(1) by (simp add: parent_rel_def)
      ultimately have "(a, x) \<in> (parent_rel st)\<^sup>*" by (rule converse_rtrancl_into_rtrancl[rotated])
      then show ?thesis using R rf by simp
    qed (use less.prems(5) in simp)
    ultimately show ?thesis using run st'(2) survives_trans[OF F(3) st'(3)] by (intro exI[of _ st']) simp
  qed
qed

lemma survives_alive:
  assumes "cap_inv st" and "cap_inv st'" and sv: "survives st st'" and "valid_at st' a"
  shows "alive st' a = alive st a"
proof -
  obtain K rank N where inv: "lineage_inv st K rank N" using assms(1) by (auto simp: cap_inv_def)
  obtain K' rank' N' where inv': "lineage_inv st' K' rank' N'" using assms(2) by (auto simp: cap_inv_def)
  show ?thesis using assms(4)
  proof (induction "rank' a" arbitrary: a rule: less_induct)
    case less
    have v: "valid_at st a" "payload (ca_ident st' a) = payload (ca_ident st a)"
      using sv less.prems by (auto simp: survives_def)
    show ?case
      using alive_unfold[OF inv v(1)] alive_unfold[OF inv' less.prems] payload_fields(5,6)[OF v(2)]
        lineage_invD(3)[OF inv' less.prems] less.hyps
      by (auto split: option.splits)
  qed
qed

section \<open>Deleting from a slot\<close>

text \<open>What a deletion, or a sequence of them, keeps: no slot is filled and no identity is altered but for its count.\<close>

definition bare :: "cap_identity \<Rightarrow> cap_identity" where
  "bare i = (payload i)\<lparr>ci_ref_count := 0\<rparr>"

lemma bare_sel:
  "ci_object_ptr (bare i) = ci_object_ptr i" "ci_type (bare i) = ci_type i"
  "ci_allowed_modes (bare i) = ci_allowed_modes i" "ci_rights (bare i) = ci_rights i"
  "ci_parent (bare i) = ci_parent i" "ci_revocation_epoch (bare i) = ci_revocation_epoch i"
  by (simp_all add: bare_def payload_def)

lemma bare_fields:
  assumes "bare i = bare j"
  shows "ci_object_ptr i = ci_object_ptr j" "ci_type i = ci_type j"
    "ci_allowed_modes i = ci_allowed_modes j" "ci_rights i = ci_rights j"
    "ci_parent i = ci_parent j" "ci_revocation_epoch i = ci_revocation_epoch j"
  by (simp_all only: bare_sel[of i, symmetric] bare_sel[of j, symmetric] assms)

definition shrinks :: "cap_st \<Rightarrow> cap_st \<Rightarrow> bool" where
  "shrinks st st' \<longleftrightarrow> dom (ca_cnode st') \<subseteq> dom (ca_cnode st) \<and>
     (\<forall>r i a. i < CNODE_SLOTS \<longrightarrow> slot st' r i = Some a \<longrightarrow> slot st r i = Some a) \<and>
     (\<forall>x. valid_at st' x \<longrightarrow> valid_at st x \<and> bare (ca_ident st' x) = bare (ca_ident st x))"

lemma shrinks_refl [simp]: "shrinks st st"
  by (simp add: shrinks_def)

lemma shrinks_trans: "shrinks st st1 \<Longrightarrow> shrinks st1 st2 \<Longrightarrow> shrinks st st2"
  unfolding shrinks_def by (metis subset_trans)

lemma survives_shrinks: "survives st st' \<Longrightarrow> shrinks st st'"
  by (auto simp: survives_def shrinks_def bare_def slot_def)

lemma delete_spec:
  assumes inv: "cap_inv st" and r: "r \<in> dom (ca_cnode st)"
  shows "\<exists>st'. cap_delete (Some r) i st = Some st' \<and> cap_inv st' \<and> shrinks st st' \<and>
    dom (ca_cnode st') = dom (ca_cnode st) \<and> (i < CNODE_SLOTS \<longrightarrow> slot st' r i = None)"
proof (cases "i < CNODE_SLOTS \<and> slot st r i \<noteq> None")
  case False
  then show ?thesis using inv by (auto simp: cap_delete_def split: option.splits)
next
  case True
  then obtain a where i: "i < CNODE_SLOTS" and a: "slot st r i = Some a" by auto
  define st1 where "st1 = upd_ident a (\<lambda>x. x\<lparr>ci_ref_count := ci_ref_count x - 1\<rparr>) (set_slot r i None st)"
  define st2 where "st2 = metric (\<lambda>m. m\<lparr>cm_delete_ok := cm_delete_ok m + 1\<rparr>) st1"
  note D = drop_ref_inv[OF inv r i a, folded st1_def]
  have s: "slots_inv st" and v: "valid_at st a" using inv i a by (auto simp: cap_inv_def slots_inv_def)
  have two: "ca_ident st2 = ca_ident st1" "ca_cnode st2 = ca_cnode st1" "slot st2 = slot st1"
    by (simp_all add: st2_def)
  have inv2: "cap_inv st2" using inv_metric[OF D(1)] by (simp add: st2_def)
  have rf: "refs st2 a = refs st a - {(r, i)}" using D(4) by (simp add: refs_def two)
  have core2: "same_core st st2" using D(2) by (simp add: same_core_def two)
  have v2: "valid_at st2 a" using v same_core_valid[OF core2] by simp
  have sh: "shrinks st st2" "dom (ca_cnode st2) = dom (ca_cnode st)" "slot st2 r i = None"
  proof -
    show d: "dom (ca_cnode st2) = dom (ca_cnode st)"
      using r by (auto simp: two st1_def set_slot_def)
    show "slot st2 r i = None" by (simp add: two D(3))
    have "bare (ca_ident st2 x) = bare (ca_ident st x)" for x
      by (simp add: two st1_def bare_def payload_def set_slot_def)
    then show "shrinks st st2"
      using d same_core_valid[OF core2] by (auto simp: shrinks_def two D(3) split: if_splits)
  qed
  have "ci_first_child (ca_ident st1 a) = ci_first_child (ca_ident st a)" by (simp add: st1_def set_slot_def)
  then have step: "cap_delete (Some r) i st =
      (if ci_ref_count (ca_ident st a) = 1 \<and> ci_first_child (ca_ident st2 a) = None
       then cap_identity_free a st2 else Some st2)"
    using i a by (simp add: cap_delete_def Let_def st1_def[symmetric] st2_def[symmetric] two) (auto simp: set_slot_def)
  show ?thesis
  proof (cases "ci_ref_count (ca_ident st a) = 1 \<and> ci_first_child (ca_ident st2 a) = None")
    case False
    then show ?thesis using step inv2 sh by auto
  next
    case True
    then have "word_of_nat (card (refs st a)) = (1 :: u32)" using s v by (simp add: slots_inv_def)
    then have "card (refs st a) = 1" using card_1_word refs_bound(2)[OF s] by blast
    then have "refs st a = {(r, i)}" using D(5) by (auto simp: card_1_singleton_iff)
    then have un: "refs st2 a = {}" using rf by simp
    obtain K rank N where K: "lineage_inv st2 K rank N" "slots_inv st2" using inv2 by (auto simp: cap_inv_def)
    obtain st' where st': "cap_identity_free a st2 = Some st'" "cap_inv st'" "survives st2 st'"
      using identity_free_spec[OF K v2 conjunct2[OF True] un] by blast
    then have "ca_cnode st' = ca_cnode st2" by (simp add: survives_def)
    then show ?thesis
      using step True st' sh shrinks_trans[OF sh(1) survives_shrinks[OF st'(3)]] by (auto simp: slot_def)
  qed
qed

lemma delete_slots_spec:
  assumes "cap_inv st" and "r \<in> dom (ca_cnode st)" and "set is \<subseteq> {..<CNODE_SLOTS}"
  shows "\<exists>st'. delete_slots r is st = Some st' \<and> cap_inv st' \<and> shrinks st st' \<and>
    dom (ca_cnode st') = dom (ca_cnode st) \<and> (\<forall>i\<in>set is. slot st' r i = None)"
  using assms
proof (induction "is" arbitrary: st)
  case (Cons i "is")
  obtain st1 where st1: "cap_delete (Some r) i st = Some st1" "cap_inv st1" "shrinks st st1"
      "dom (ca_cnode st1) = dom (ca_cnode st)" "slot st1 r i = None"
    using delete_spec[OF Cons.prems(1,2), of i] Cons.prems(3) by auto
  obtain st' where st': "delete_slots r is st1 = Some st'" "cap_inv st'" "shrinks st1 st'"
      "dom (ca_cnode st') = dom (ca_cnode st1)" "\<forall>i\<in>set is. slot st' r i = None"
    using Cons.IH[OF st1(2)] Cons.prems st1(4) by auto
  have "slot st' r i = None"
    using st'(3) st1(5) Cons.prems(3) by (cases "slot st' r i") (auto simp: shrinks_def)
  then show ?case using st1 st' shrinks_trans by auto
qed simp

lemma drop_cnode_inv:
  assumes inv: "cap_inv st" and empty: "\<forall>i<CNODE_SLOTS. slot st r i = None"
  defines "st' \<equiv> st\<lparr>ca_cnode := (ca_cnode st)(r := None)\<rparr>"
  shows "cap_inv st'" and "shrinks st st'"
proof -
  have s: "slots_inv st" using inv by (simp add: cap_inv_def)
  have sl: "slot st' x i = slot st x i" if "i < CNODE_SLOTS" for x i
    using empty that by (auto simp: slot_def st'_def split: option.splits)
  then have rf: "refs st' = refs st" by (auto simp: refs_def fun_eq_iff)
  have v: "valid_at st' = valid_at st" by (simp add: valid_at_def st'_def fun_eq_iff)
  have "dom (ca_cnode st') \<subseteq> dom (ca_cnode st)" "ca_ident st' = ca_ident st" by (auto simp: st'_def)
  then show "shrinks st st'" using sl by (simp add: shrinks_def v)
  have "card (dom (ca_cnode st) - {r}) < 2 ^ 25" using s card_Diff1_le[of "dom (ca_cnode st)" r]
    by (simp add: slots_inv_def)
  then have "slots_inv st'" using s sl by (auto simp: slots_inv_def v rf) (auto simp: st'_def split: if_splits)
  moreover have "same_core st st'" by (simp add: same_core_def st'_def)
  ultimately show "cap_inv st'" using inv same_core_lineage unfolding cap_inv_def by blast
qed

lemma inv_emit: "cap_inv st \<Longrightarrow> cap_inv (emit e st)"
  by (rule inv_same_core) (simp_all add: same_core_def)

lemma destroy_spec:
  assumes inv: "cap_inv st" and r: "r \<in> dom (ca_cnode st)"
  shows "\<exists>st'. cnode_destroy (Some r) st = Some st' \<and> cap_inv st' \<and> shrinks st st' \<and>
    dom (ca_cnode st') = dom (ca_cnode st) - {r}"
proof -
  obtain st1 where st1: "delete_slots r [0 ..< CNODE_SLOTS] st = Some st1" "cap_inv st1" "shrinks st st1"
      "dom (ca_cnode st1) = dom (ca_cnode st)" "\<forall>i<CNODE_SLOTS. slot st1 r i = None"
    using delete_slots_spec[OF inv r, of "[0 ..< CNODE_SLOTS]"] by (auto simp: lessThan_atLeast0)
  note D = drop_cnode_inv[OF st1(2,5)]
  have "shrinks st (emit (FreeCnode r) (st1\<lparr>ca_cnode := (ca_cnode st1)(r := None)\<rparr>))"
    using shrinks_trans[OF st1(3) D(2)] by (simp add: shrinks_def)
  then show ?thesis using st1 inv_emit[OF D(1)] by (simp add: cnode_destroy_def)
qed

section \<open>Creating and linking identities\<close>

text \<open>A fresh cell that becomes a root.\<close>

lemma fresh_root_inv:
  assumes inv: "cap_inv st" and new: "\<not> valid_at st c" and i: "ci_magic i = CAP_IDENT_MAGIC"
    "ci_ref_count i = 0" "ci_parent i = None" "ci_parent_epoch_start i = 0" "ci_first_child i = None"
    "ci_next_sibling i = None" "ci_prev_sibling i = None"
  shows "cap_inv (upd_ident c (\<lambda>_. i) st)"
proof -
  let ?st = "upd_ident c (\<lambda>_. i) st"
  obtain K rank N where K: "lineage_inv st K rank N" and s: "slots_inv st" using inv by (auto simp: cap_inv_def)
  have v: "valid_at ?st x = (x = c \<or> valid_at st x)" for x using i(1) by (simp add: valid_at_def)
  have nk: "c \<notin> set (K p)" if "valid_at st p" for p using lineage_invD(2)[OF K that] new by blast
  have d: "dll (ca_ident ?st) p s (K q) f = dll (ca_ident st) p s (K q) f" if "valid_at st q" for p s q f
    using nk[OF that] by (intro links_cong) auto
  have "lineage_inv ?st (K(c := [])) (rank(c := 0)) (Suc N)"
    unfolding lineage_inv_def v
  proof (intro conjI allI impI)
    fix p assume p: "p = c \<or> valid_at st p"
    show "siblings (ca_ident ?st) (ci_first_child (ca_ident ?st p)) ((K(c := [])) p)"
      using p new d lineage_invD(1)[OF K] i by (cases "p = c") auto
    show "distinct ((K(c := [])) p)" using p lineage_invD(1)[OF K] by auto
  next
    fix p a assume p: "p = c \<or> valid_at st p" and a: "a \<in> set ((K(c := [])) p)"
    then have "p \<noteq> c" "valid_at st p" "a \<in> set (K p)" by (auto split: if_splits)
    then show "a = c \<or> valid_at st a" "ci_parent (ca_ident ?st a) = Some p"
      using lineage_invD(2)[OF K] nk by auto
  next
    fix a assume a: "a = c \<or> valid_at st a"
    have "ci_parent (ca_ident st a) \<noteq> Some c" if "a \<noteq> c" using lineage_invD(3)[OF K, of a] a that new by auto
    then show "(rank(c := 0)) a < Suc N" "ci_parent_epoch_start (ca_ident ?st a) = 0"
      "case ci_parent (ca_ident ?st a) of
        None \<Rightarrow> ci_prev_sibling (ca_ident ?st a) = None \<and> ci_next_sibling (ca_ident ?st a) = None
      | Some p \<Rightarrow> (p = c \<or> valid_at st p) \<and> a \<in> set ((K(c := [])) p) \<and> (rank(c := 0)) p < (rank(c := 0)) a \<and>
          attenuates (ca_ident ?st a) (ca_ident ?st p)"
      using a lineage_invD(3)[OF K, of a] i new by (cases "a = c"; force split: option.splits)+
  qed
  moreover have "refs st c = {}" using s new by (auto simp: refs_def slots_inv_def)
  then have "slots_inv ?st" using s i by (intro slots_cong[OF s]) (auto simp: v slots_inv_def)
  ultimately show ?thesis unfolding cap_inv_def by blast
qed

text \<open>Linking a root without children below another identity.\<close>

definition linked :: "(nat \<Rightarrow> cap_identity) \<Rightarrow> nat \<Rightarrow> nat \<Rightarrow> nat \<Rightarrow> cap_identity" where
  "linked h p c x =
     (if x = c then (h c)\<lparr>ci_parent := Some p, ci_parent_epoch_start := ci_revocation_epoch (h p),
                         ci_next_sibling := ci_first_child (h p)\<rparr>
      else if x = p then (h p)\<lparr>ci_first_child := Some c\<rparr>
      else if ci_first_child (h p) = Some x then (h x)\<lparr>ci_prev_sibling := Some c\<rparr> else h x)"

lemma link_child_ident:
  assumes "p \<noteq> c" and "ci_first_child (ca_ident st p) \<noteq> Some c" and "ci_first_child (ca_ident st p) \<noteq> Some p"
  shows "ca_ident (link_child p c st) = linked (ca_ident st) p c"
  using assms by (auto simp: link_child_def linked_def Let_def fun_eq_iff split: option.splits)

lemma link_child_frame [simp]: "ca_cnode (link_child p c st) = ca_cnode st" "ca_epoch (link_child p c st) = ca_epoch st"
    "ca_trace (link_child p c st) = ca_trace st" "slot (link_child p c st) = slot st"
  by (auto simp: link_child_def Let_def upd_ident_def slot_def fun_eq_iff split: option.splits)

lemma linked_sel:
  "ci_magic (linked h p c x) = ci_magic (h x)" "ci_rights (linked h p c x) = ci_rights (h x)"
  "ci_allowed_modes (linked h p c x) = ci_allowed_modes (h x)" "ci_object_ptr (linked h p c x) = ci_object_ptr (h x)"
  "ci_type (linked h p c x) = ci_type (h x)" "ci_revocation_epoch (linked h p c x) = ci_revocation_epoch (h x)"
  "ci_ref_count (linked h p c x) = ci_ref_count (h x)"
  "ci_parent (linked h p c x) = (if x = c then Some p else ci_parent (h x))"
  "ci_parent_epoch_start (linked h p c x) = (if x = c then ci_revocation_epoch (h p) else ci_parent_epoch_start (h x))"
  by (simp_all add: linked_def)

lemma linked_attenuates: "attenuates (linked h p c x) (linked h p c y) = attenuates (h x) (h y)"
  by (simp add: attenuates_def linked_sel)

lemma link_facts:
  assumes K: "lineage_inv st K rank N" and p: "valid_at st p" and c: "valid_at st c" "ci_parent (ca_ident st c) = None"
  shows "ci_first_child (ca_ident st p) = (if K p = [] then None else Some (hd (K p)))"
    and "ci_first_child (ca_ident st p) \<noteq> Some c" and "ci_first_child (ca_ident st p) \<noteq> Some p"
proof -
  show hd: "ci_first_child (ca_ident st p) = (if K p = [] then None else Some (hd (K p)))"
    using links_head[of _ _ None _ "K p" None] lineage_invD(1)[OF K p] by blast
  have "ci_parent (ca_ident st (hd (K p))) = Some p" if "K p \<noteq> []" using lineage_invD(2)[OF K p] that by simp
  then show "ci_first_child (ca_ident st p) \<noteq> Some c" "ci_first_child (ca_ident st p) \<noteq> Some p"
    using hd c lineage_invD(3)[OF K p] by auto
qed

lemma link_siblings:
  assumes K: "lineage_inv st K rank N" and p: "valid_at st p" and c: "valid_at st c" "ci_parent (ca_ident st c) = None"
    "ci_first_child (ca_ident st c) = None" "p \<noteq> c" and q: "valid_at st q"
  shows "siblings (linked (ca_ident st) p c) (ci_first_child (linked (ca_ident st) p c q)) ((K(p := c # K p)) q)"
proof -
  let ?h = "ca_ident st" and ?h' = "linked (ca_ident st) p c"
  note L = link_facts[OF K p c(1,2)]
  have nc: "c \<notin> set (K q)" if "valid_at st q" for q using lineage_invD(2)[OF K that] c(2) by force
  have np: "q \<notin> set (K q)" if "valid_at st q" for q using lineage_invD(2)[OF K that] lineage_invD(3)[OF K that] by force
  show ?thesis
  proof (cases "q = p")
    case True
    have x: "x \<noteq> c" "x \<noteq> p" if "x \<in> set (K p)" for x using that nc[OF p] np[OF p] by auto
    have "ci_prev_sibling (?h c) = None" using lineage_invD(3)[OF K c(1)] c(2) by simp
    then have "siblings ?h' (Some c) (c # K p)"
      using lineage_invD(1)[OF K p] nc[OF p] x
      by (intro links_push[of "\<lambda>a. ci_next_sibling (?h a)" "\<lambda>a. ci_prev_sibling (?h a)" "ci_first_child (?h p)"])
        (auto simp: linked_def)
    then show ?thesis using True c by (simp add: linked_def)
  next
    case False
    have "dll ?h' None s (K q) None = siblings ?h s (K q)" for s
    proof (rule links_cong)
      fix x assume x: "x \<in> set (K q)"
      have "ci_parent (?h x) = Some q" using lineage_invD(2)[OF K q x] by simp
      then have "ci_first_child (?h p) \<noteq> Some x"
        using L(1) False lineage_invD(2)[OF K p, of "hd (K p)"] by auto
      moreover have "x \<noteq> c" using nc[OF q] x by blast
      ultimately show "ci_next_sibling (?h' x) = ci_next_sibling (?h x) \<and> ci_prev_sibling (?h' x) = ci_prev_sibling (?h x)"
        by (simp add: linked_def)
    qed
    moreover have "ci_first_child (?h' q) = ci_first_child (?h q)" using False by (simp add: linked_def)
    ultimately show ?thesis using lineage_invD(1)[OF K q] False by simp
  qed
qed

lemma link_inv:
  assumes inv: "cap_inv st" and p: "valid_at st p" "ci_revocation_epoch (ca_ident st p) = 0"
    and c: "valid_at st c" "ci_parent (ca_ident st c) = None" "ci_first_child (ca_ident st c) = None" "p \<noteq> c"
    and att: "attenuates (ca_ident st c) (ca_ident st p)"
  shows "cap_inv (link_child p c st)" and "ca_ident (link_child p c st) = linked (ca_ident st) p c"
proof -
  let ?h = "ca_ident st" and ?h' = "linked (ca_ident st) p c"
  obtain K rank N where K: "lineage_inv st K rank N" and s: "slots_inv st" using inv by (auto simp: cap_inv_def)
  show id: "ca_ident (link_child p c st) = ?h'" using link_child_ident link_facts[OF K p(1) c(1,2)] c(4) by simp
  have v: "valid_at (link_child p c st) = valid_at st" by (simp add: valid_at_def id linked_sel fun_eq_iff)
  have kc: "K c = []" using first_child_None[OF K c(1)] c(3) by simp
  have "lineage_inv (link_child p c st) (K(p := c # K p)) (rank(c := Suc (rank p))) (Suc N)"
    unfolding lineage_inv_def v id
  proof (intro conjI allI impI)
    fix q assume q: "valid_at st q"
    show "siblings ?h' (ci_first_child (?h' q)) ((K(p := c # K p)) q)" using link_siblings[OF K p(1) c q] .
    have "c \<notin> set (K p)" using lineage_invD(2)[OF K p(1)] c(2) by force
    then show "distinct ((K(p := c # K p)) q)" using lineage_invD(1)[OF K] q by auto
  next
    fix q a assume q: "valid_at st q" and a: "a \<in> set ((K(p := c # K p)) q)"
    have "a \<noteq> c" if "a \<in> set (K q)" using lineage_invD(2)[OF K q that] c(2) by auto
    then show "valid_at st a" "ci_parent (?h' a) = Some q"
      using a c(1) lineage_invD(2)[OF K q] by (auto simp: linked_sel split: if_splits)
  next
    fix a assume a: "valid_at st a"
    note D = lineage_invD(3)[OF K a]
    show "(rank(c := Suc (rank p))) a < Suc N" using D lineage_invD(3)[OF K p(1)] by auto
    show "ci_parent_epoch_start (?h' a) = 0" using D p(2) by (simp add: linked_sel)
    have "ci_parent (?h a) \<noteq> Some c" using D kc by auto
    then show "case ci_parent (?h' a) of
        None \<Rightarrow> ci_prev_sibling (?h' a) = None \<and> ci_next_sibling (?h' a) = None
      | Some q \<Rightarrow> valid_at st q \<and> a \<in> set ((K(p := c # K p)) q) \<and>
          (rank(c := Suc (rank p))) q < (rank(c := Suc (rank p))) a \<and> attenuates (?h' a) (?h' q)"
    proof (cases "ci_parent (?h' a)")
      case None
      then have n: "a \<noteq> c" "ci_parent (?h a) = None" by (auto simp: linked_sel split: if_splits)
      have "ci_first_child (?h p) \<noteq> Some a"
        using link_facts(1)[OF K p(1) c(1,2)] lineage_invD(2)[OF K p(1), of "hd (K p)"] n(2) by auto
      then show ?thesis using D n None by (auto simp: linked_def)
    next
      case (Some q)
      then show ?thesis using D p(1) c(2,4) att \<open>ci_parent (?h a) \<noteq> Some c\<close>
        by (auto simp: linked_sel(8) linked_attenuates split: if_splits)
    qed
  qed
  moreover have "slots_inv (link_child p c st)"
    using s by (intro slots_cong[OF s]) (auto simp: v id linked_sel slots_inv_def)
  ultimately show "cap_inv (link_child p c st)" unfolding cap_inv_def by blast
qed

end
