(* ===== verification/Capability_Ops.thy ===== *)
theory Capability_Ops
  imports Capability_Inv
begin

text \<open>
  The operations on capabilities against the lineage invariant: each of them ends, keeps the
  invariant, and grants no authority that was not there.
\<close>

section \<open>Insertion and derivation\<close>

lemma insert_spec:
  assumes inv: "cap_inv st" and r: "r \<in> dom (ca_cnode st)" and a: "valid_at st a"
  shows "\<exists>st'. cap_insert (Some r) i (Some a) st =
      ((if i < CNODE_SLOTS \<and> slot st r i = None then 0 else - 1), st') \<and> cap_inv st' \<and> same_core st st' \<and>
    (\<forall>x. ci_revocation_epoch (ca_ident st' x) = ci_revocation_epoch (ca_ident st x)) \<and>
    dom (ca_cnode st') = dom (ca_cnode st) \<and> ca_epoch st' = ca_epoch st \<and> ca_trace st' = ca_trace st \<and>
    (if i < CNODE_SLOTS \<and> slot st r i = None
     then \<forall>r' j. slot st' r' j = (if r' = r \<and> j = i then Some a else slot st r' j)
     else ca_ident st' = ca_ident st \<and> ca_cnode st' = ca_cnode st)"
proof (cases "i < CNODE_SLOTS \<and> slot st r i = None")
  case False
  then have "cap_insert (Some r) i (Some a) st = insert_fail st" by (auto simp: cap_insert_def)
  then show ?thesis using inv_metric[OF inv] False by (auto simp: insert_fail_def same_core_def metric_def)
next
  case True
  define st1 where "st1 = upd_ident a (\<lambda>x. x\<lparr>ci_ref_count := ci_ref_count x + 1\<rparr>) (set_slot r i (Some a) st)"
  note A = add_ref_inv[OF inv r conjunct1[OF True] conjunct2[OF True] a, folded st1_def]
  have "cap_insert (Some r) i (Some a) st = (0, metric (\<lambda>m. m\<lparr>cm_insert_ok := cm_insert_ok m + 1\<rparr>) st1)"
    using True a by (simp add: cap_insert_def st1_def)
  moreover have "ci_revocation_epoch (ca_ident st1 x) = ci_revocation_epoch (ca_ident st x)" for x
    by (simp add: st1_def set_slot_def)
  moreover have "dom (ca_cnode st1) = dom (ca_cnode st)" "ca_epoch st1 = ca_epoch st" "ca_trace st1 = ca_trace st"
    using r by (auto simp: st1_def set_slot_def upd_ident_def)
  ultimately show ?thesis using True inv_metric[OF A(1)] A(2,3) by (simp add: same_core_def metric_def slot_def)
qed

lemma same_core_alive:
  assumes "same_core st st'" and "\<And>x. ci_revocation_epoch (ca_ident st' x) = ci_revocation_epoch (ca_ident st x)"
  shows "alive st' a = alive st a"
proof -
  have "ci_parent (ca_ident st' x) = ci_parent (ca_ident st x)" for x
    by (rule core_fields(6)) (use assms(1) in \<open>simp add: same_core_def\<close>)
  then have "parent_rel st' = parent_rel st" by (simp add: parent_rel_def)
  then show ?thesis using same_core_valid[OF assms(1)] by (simp add: alive_def assms(2))
qed

text \<open>
  Authority only moves or shrinks: everything alive afterwards was alive before with the same
  object, type, rights and modes, or is one of the new identities \<open>C\<close> and attenuates an identity
  that was alive before.
\<close>

definition same_auth :: "cap_identity \<Rightarrow> cap_identity \<Rightarrow> bool" where
  "same_auth i j \<longleftrightarrow> ci_object_ptr i = ci_object_ptr j \<and> ci_type i = ci_type j \<and>
     ci_rights i = ci_rights j \<and> ci_allowed_modes i = ci_allowed_modes j"

definition no_gain :: "nat set \<Rightarrow> cap_st \<Rightarrow> cap_st \<Rightarrow> bool" where
  "no_gain C st st' \<longleftrightarrow> (\<forall>x. alive st' x \<longrightarrow>
     alive st x \<and> same_auth (ca_ident st' x) (ca_ident st x) \<or>
     x \<in> C \<and> (\<exists>p. alive st p \<and> attenuates (ca_ident st' x) (ca_ident st p)))"

lemma no_gain_refl [simp]: "no_gain C st st"
  by (simp add: no_gain_def same_auth_def)

lemma no_gain_same:
  assumes "no_gain C st st1" and "\<And>x. alive st2 x \<Longrightarrow> alive st1 x \<and> same_auth (ca_ident st2 x) (ca_ident st1 x)"
  shows "no_gain C st st2"
  using assms unfolding no_gain_def same_auth_def attenuates_def by metis

lemma same_core_auth: "same_core st st' \<Longrightarrow> same_auth (ca_ident st' x) (ca_ident st x)"
  using core_fields[of "ca_ident st' x" "ca_ident st x"] by (simp add: same_core_def same_auth_def)

lemma ancestors_valid:
  assumes inv: "lineage_inv st K rank N" and "(x, p) \<in> (parent_rel st)\<^sup>*" and x: "valid_at st x"
  shows "valid_at st p" and "rank p \<le> rank x"
proof -
  from assms(2) have "valid_at st p \<and> rank p \<le> rank x"
  proof induction
    case (step y z)
    then have "ci_parent (ca_ident st y) = Some z" by (simp add: parent_rel_def)
    then show ?case using lineage_invD(3)[OF inv, of y] step.IH by auto
  qed (simp add: x)
  then show "valid_at st p" and "rank p \<le> rank x" by auto
qed

lemma lookup_alive:
  assumes inv: "cap_inv st" and fr: "lookup_frame st st'"
  shows "alive st' x = alive st x"
proof (cases "ca_ident st' = ca_ident st")
  case True
  then show ?thesis by (simp add: alive_def valid_at_def parent_rel_def)
next
  case False
  then obtain a r where a: "\<not> alive st a" "r \<noteq> 0"
      "ca_ident st' = (ca_ident st)(a := (ca_ident st a)\<lparr>ci_revocation_epoch := r\<rparr>)"
    using fr by (auto simp: lookup_frame_def)
  have p: "parent_rel st' = parent_rel st" by (auto simp: parent_rel_def a(3) split: if_splits)
  have v: "valid_at st' y = valid_at st y" for y by (simp add: valid_at_def a(3))
  show ?thesis
  proof (cases "(x, a) \<in> (parent_rel st)\<^sup>*")
    case True
    obtain K rank N where "lineage_inv st K rank N" using inv by (auto simp: cap_inv_def)
    then have "valid_at st a" if "valid_at st x" using ancestors_valid(1) True that by blast
    then have "\<not> alive st x" using a(1) True unfolding alive_def by (meson rtrancl_trans)
    moreover have "ci_revocation_epoch (ca_ident st' a) \<noteq> 0" using a(2,3) by simp
    then have "\<not> alive st' x" using True unfolding alive_def p by blast
    ultimately show ?thesis by simp
  next
    case False
    then have "ca_ident st' q = ca_ident st q" if "(x, q) \<in> (parent_rel st)\<^sup>*" for q using that a(3) by auto
    then show ?thesis by (auto simp: alive_def p v)
  qed
qed

text \<open>The body that \<open>cap_mint\<close> and \<open>cap_retype\<close> share: a fresh child below \<open>p\<close>.\<close>

lemma derive_link:
  assumes inv: "cap_inv st" and p: "alive st p" and new: "\<not> valid_at st c"
    and i: "ci_magic i = CAP_IDENT_MAGIC" "ci_ref_count i = 0" "ci_parent i = None" "ci_parent_epoch_start i = 0"
      "ci_first_child i = None" "ci_next_sibling i = None" "ci_prev_sibling i = None" "ci_revocation_epoch i = 0"
    and att: "attenuates i (ca_ident st p)"
  defines "st1 \<equiv> link_child p c (upd_ident c (\<lambda>_. i) st)"
  shows "cap_inv st1" and "valid_at st1 c" and "ci_first_child (ca_ident st1 c) = None" and "refs st1 c = {}"
    and "no_gain {c} st st1" and "alive st1 c" and "same_auth (ca_ident st1 c) i"
    and "ca_cnode st1 = ca_cnode st" and "ci_parent (ca_ident st1 c) = Some p"
    and "\<And>x. x \<noteq> c \<Longrightarrow> alive st1 x = alive st x"
proof -
  let ?st = "upd_ident c (\<lambda>_. i) st"
  have v: "valid_at ?st x = (x = c \<or> valid_at st x)" for x using i(1) by (simp add: valid_at_def)
  have vp: "valid_at st p" "ci_revocation_epoch (ca_ident st p) = 0" using p by (auto simp: alive_def)
  then have pc: "p \<noteq> c" using new by auto
  have "cap_inv ?st" using fresh_root_inv[OF inv new i(1-7)] .
  note L = link_inv[OF this, of p c, folded st1_def]
  show inv1: "cap_inv st1" using L(1) vp pc v i att by simp
  have id: "ca_ident st1 = linked (ca_ident ?st) p c" using L(2) vp pc v i att by simp
  have v1: "valid_at st1 x = (x = c \<or> valid_at st x)" for x
    using v[of x] by (simp add: valid_at_def id linked_sel del: upd_ident_sel)
  then show "valid_at st1 c" by simp
  show "ci_first_child (ca_ident st1 c) = None" using i pc by (simp add: id linked_def)
  show cn: "ca_cnode st1 = ca_cnode st" by (simp add: st1_def)
  have "slots_inv st" using inv by (simp add: cap_inv_def)
  then show "refs st1 c = {}" using new by (auto simp: refs_def slots_inv_def st1_def)
  show par: "ci_parent (ca_ident st1 c) = Some p" by (simp add: id linked_sel)
  have other: "same_auth (ca_ident st1 x) (ca_ident st x) \<and> ci_parent (ca_ident st1 x) = ci_parent (ca_ident st x) \<and>
      ci_revocation_epoch (ca_ident st1 x) = ci_revocation_epoch (ca_ident st x)" if "x \<noteq> c" for x
    using that by (simp add: id same_auth_def linked_sel)
  show auth: "same_auth (ca_ident st1 c) i" by (simp add: id linked_sel same_auth_def)
  obtain K rank N where K: "lineage_inv st K rank N" using inv by (auto simp: cap_inv_def)
  obtain K1 rank1 N1 where K1: "lineage_inv st1 K1 rank1 N1" using inv1 by (auto simp: cap_inv_def)
  have al: "alive st1 x = alive st x" if "x \<noteq> c" "valid_at st x" for x
    using that
  proof (induction "rank x" arbitrary: x rule: less_induct)
    case less
    have "valid_at st1 x" using v1 less.prems by simp
    moreover have "q \<noteq> c \<and> valid_at st q \<and> rank q < rank x" if "ci_parent (ca_ident st x) = Some q" for q
      using lineage_invD(3)[OF K less.prems(2)] that new by auto
    ultimately show ?case
      using alive_unfold[OF K less.prems(2)] alive_unfold[OF K1, of x] other[OF less.prems(1)] less.hyps
      by (auto split: option.splits)
  qed
  then show al': "alive st1 x = alive st x" if "x \<noteq> c" for x
    using that v1 by (auto simp: alive_def)
  show "alive st1 c" using alive_unfold[OF K1, of c] v1 par al vp(1) pc p i by (simp add: id linked_sel)
  show "no_gain {c} st st1"
    unfolding no_gain_def
  proof (intro allI impI)
    fix x assume "alive st1 x"
    then show "alive st x \<and> same_auth (ca_ident st1 x) (ca_ident st x) \<or>
        x \<in> {c} \<and> (\<exists>q. alive st q \<and> attenuates (ca_ident st1 x) (ca_ident st q))"
      using al'[of x] other[of x] p att auth
      by (cases "x = c") (auto simp: same_auth_def attenuates_def intro!: exI[of _ p])
  qed
qed

lemma derive_insert:
  assumes inv: "cap_inv st" and r: "r \<in> dom (ca_cnode st)" and c: "valid_at st c"
    "ci_first_child (ca_ident st c) = None" "refs st c = {}"
  obtains st' where "cap_insert (Some r) i (Some c) st = (0, st')" and "i < CNODE_SLOTS" "slot st r i = None"
      and "cap_inv st'" and "same_core st st'" and "\<And>x. alive st' x = alive st x"
      and "dom (ca_cnode st') = dom (ca_cnode st)" and "slot st' r i = Some c"
  | st' st'' where "cap_insert (Some r) i (Some c) st = (- 1, st')" and "\<not> (i < CNODE_SLOTS \<and> slot st r i = None)"
      and "cap_identity_free c st' = Some st''" and "cap_inv st''" and "dom (ca_cnode st'') = dom (ca_cnode st)"
      and "\<And>x. alive st'' x \<Longrightarrow> x \<noteq> c \<and> alive st x \<and> same_auth (ca_ident st'' x) (ca_ident st x)"
proof -
  obtain st' where I: "cap_insert (Some r) i (Some c) st = ((if i < CNODE_SLOTS \<and> slot st r i = None then 0 else - 1), st')"
      "cap_inv st'" "same_core st st'" "\<And>x. ci_revocation_epoch (ca_ident st' x) = ci_revocation_epoch (ca_ident st x)"
      "dom (ca_cnode st') = dom (ca_cnode st)"
      "if i < CNODE_SLOTS \<and> slot st r i = None
       then \<forall>r' j. slot st' r' j = (if r' = r \<and> j = i then Some c else slot st r' j)
       else ca_ident st' = ca_ident st \<and> ca_cnode st' = ca_cnode st"
    using insert_spec[OF inv r c(1), of i] by blast
  note al = same_core_alive[OF I(3,4)]
  show thesis
  proof (cases "i < CNODE_SLOTS \<and> slot st r i = None")
    case True
    then show thesis using that(1)[of st'] I al by simp
  next
    case False
    then have same: "ca_ident st' = ca_ident st" "ca_cnode st' = ca_cnode st" using I(6) by auto
    obtain K rank N where K: "lineage_inv st' K rank N" and s: "slots_inv st'" using I(2) by (auto simp: cap_inv_def)
    have v: "valid_at st' c" "ci_first_child (ca_ident st' c) = None" "refs st' c = {}"
      using c by (auto simp: valid_at_def same refs_def slot_def)
    obtain st'' where F: "cap_identity_free c st' = Some st''" "cap_inv st''" "survives st' st''" "\<not> valid_at st'' c"
      using identity_free_spec[OF K s v] by blast
    have "x \<noteq> c \<and> alive st x \<and> same_auth (ca_ident st'' x) (ca_ident st x)" if "alive st'' x" for x
    proof -
      have vx: "valid_at st'' x" using that by (simp add: alive_def)
      have pl: "payload (ca_ident st'' x) = payload (ca_ident st x)" using F(3) vx by (simp add: survives_def same)
      have "same_auth (ca_ident st'' x) (ca_ident st x)" by (simp add: same_auth_def payload_fields[OF pl])
      then show ?thesis using survives_alive[OF I(2) F(2,3) vx] al that vx F(4) by auto
    qed
    then show thesis using that(2)[of st' st''] I(1,5) False F by (simp add: survives_def)
  qed
qed

section \<open>Minting\<close>

text \<open>When \<open>cap_mint\<close> succeeds.\<close>

definition mint_ok :: "cap_env \<Rightarrow> nat option \<Rightarrow> nat \<Rightarrow> nat \<Rightarrow> nat \<Rightarrow> u16 \<Rightarrow> u8 \<Rightarrow> cap_st \<Rightarrow> bool" where
  "mint_ok env cell r src dst new_rights modes st \<longleftrightarrow>
     cell \<noteq> None \<and> src < CNODE_SLOTS \<and> dst < CNODE_SLOTS \<and> slot st r dst = None \<and>
     cap_allowed_modes_valid modes \<and>
     (\<exists>p. slot st r src = Some p \<and> usable env st p \<and>
        ci_rights (ca_ident st p) AND CAP_RIGHT_GRANT \<noteq> 0 \<and>
        new_rights AND ci_rights (ca_ident st p) = new_rights \<and>
        ci_allowed_modes (ca_ident st p) AND modes \<noteq> 0 \<and>
        cap_is_valid_type (ucast (ci_type (ca_ident st p))))"

lemma and_valid_modes:
  assumes "cap_allowed_modes_valid m" and "k AND m \<noteq> 0"
  shows "cap_allowed_modes_valid (k AND m)"
proof -
  have "m AND NOT CAP_MODE_VALID_MASK = 0"
    using assms(1) by (simp add: cap_allowed_modes_valid_def split: if_splits)
  then have "(k AND m) AND NOT CAP_MODE_VALID_MASK = 0" by (simp add: and.assoc)
  then show ?thesis using assms(2) by (simp add: cap_allowed_modes_valid_def cap_allowed_modes_nonzero_def)
qed

lemma ucast_type [simp]: "ucast (ucast (t :: u8) :: u16) = t"
  by (rule bit_eqI) (auto simp: bit_simps)

lemma audit_cap_frame [simp]:
  "ca_ident (audit_cap env ev res ty b ob ri st) = ca_ident st" "ca_cnode (audit_cap env ev res ty b ob ri st) = ca_cnode st"
  "slot (audit_cap env ev res ty b ob ri st) = slot st" "ca_trace (audit_cap env ev res ty b ob ri st) = ca_trace st"
  by (simp_all add: audit_cap_def slot_def fun_eq_iff)

text \<open>States that agree on identities and C-Nodes.\<close>

definition same_store :: "cap_st \<Rightarrow> cap_st \<Rightarrow> bool" where
  "same_store st st' \<longleftrightarrow> ca_ident st' = ca_ident st \<and> ca_cnode st' = ca_cnode st"

lemma same_store_facts:
  assumes "same_store st st'"
  shows "cap_inv st' = cap_inv st" and "alive st' = alive st" and "slot st' = slot st" and "no_gain C st0 st' = no_gain C st0 st"
    and "dom (ca_cnode st') = dom (ca_cnode st)" and "ca_ident st' = ca_ident st" and "no_gain C st' st0 = no_gain C st st0"
    and "usable env st' = usable env st"
proof -
  have id: "ca_ident st' = ca_ident st" and cn: "ca_cnode st' = ca_cnode st" using assms by (auto simp: same_store_def)
  show al: "alive st' = alive st" by (simp add: alive_def valid_at_def parent_rel_def id fun_eq_iff)
  show "slot st' = slot st" by (simp add: slot_def cn fun_eq_iff)
  show "no_gain C st0 st' = no_gain C st0 st" "no_gain C st' st0 = no_gain C st st0" by (simp_all add: no_gain_def al id)
  show "usable env st' = usable env st" by (simp add: usable_def al id fun_eq_iff)
  show "cap_inv st' = cap_inv st"
    using inv_same_core[of st st'] inv_same_core[of st' st] by (auto simp: id cn same_core_def)
qed (use assms in \<open>simp_all add: same_store_def\<close>)

lemma same_store_simps [simp]:
  "same_store st (metric f st)" "same_store st (emit e st)" "same_store st (audit_cap env ev res ty b ob ri st)"
  by (simp_all add: same_store_def)

lemma same_store_fail [simp]:
  "same_store st (snd (mint_fail st))" "same_store st (snd (mint_deny st))" "same_store st (snd (retype_fail st))"
  "same_store st (snd (copy_fail st))" "fst (mint_fail st) = - 1" "fst (mint_deny st) = - 1" "fst (retype_fail st) = - 1"
  "fst (copy_fail st) = - 1"
  by (simp_all add: same_store_def mint_fail_def mint_deny_def retype_fail_def copy_fail_def)

lemma create_ok:
  assumes "cap_is_valid_type ty" and "cap_allowed_modes_valid m"
  shows "cap_identity_create (Some c) obj ty rights badge m st =
    (Some c, upd_ident c (\<lambda>_. zero_identity\<lparr>ci_object_ptr := obj, ci_type := ucast ty, ci_rights := rights, ci_badge := badge,
       ci_allowed_modes := m, ci_birth_epoch := ca_epoch st, ci_magic := CAP_IDENT_MAGIC\<rparr>) st)"
  using assms by (simp add: cap_identity_create_def)

lemma create_fail:
  assumes "cell = None \<or> \<not> cap_is_valid_type ty \<or> \<not> cap_allowed_modes_valid m"
  shows "cap_identity_create cell obj ty rights badge m st = (None, st)"
  using assms by (auto simp: cap_identity_create_def split: option.splits)

lemma lookup_cases:
  assumes inv: "cap_inv st"
  obtains a st' where "cap_lookup env (Some r) i st = Some (Some a, st')" and "i < CNODE_SLOTS" "slot st r i = Some a"
      "usable env st a" and "cap_inv st'" and "same_store st st'"
  | st' where "cap_lookup env (Some r) i st = Some (None, st')" and "\<not> (\<exists>a. i < CNODE_SLOTS \<and> slot st r i = Some a \<and> usable env st a)"
      and "cap_inv st'" and "no_gain {} st st'" and "ca_cnode st' = ca_cnode st"
proof -
  obtain K rank N where "lineage_inv st K rank N" using inv by (auto simp: cap_inv_def)
  then obtain st' where L: "cap_lookup env (Some r) i st = Some (if i < CNODE_SLOTS then
          (case slot st r i of None \<Rightarrow> None | Some a \<Rightarrow> if usable env st a then Some a else None) else None, st')"
      "lookup_frame st st'" "\<And>a. i < CNODE_SLOTS \<Longrightarrow> slot st r i = Some a \<Longrightarrow> usable env st a \<Longrightarrow> ca_ident st' = ca_ident st"
    using lookup_spec[of st K rank N env "Some r" i] by auto
  have inv': "cap_inv st'" and cn: "ca_cnode st' = ca_cnode st"
    using lookup_inv[OF inv L(2)] L(2) by (auto simp: lookup_frame_def)
  show thesis
  proof (cases "\<exists>a. i < CNODE_SLOTS \<and> slot st r i = Some a \<and> usable env st a")
    case True
    then show thesis using that(1)[of _ st'] L(1,3) inv' cn by (auto simp: same_store_def)
  next
    case False
    have "no_gain {} st st'"
      by (rule no_gain_same[OF no_gain_refl])
        (use lookup_alive[OF inv L(2)] same_core_auth[OF lookup_frame_core[OF L(2)]] in auto)
    then show thesis using that(2)[of st'] L(1) False inv' cn by (auto split: option.splits)
  qed
qed

lemma no_gain_mono: "no_gain C st st' \<Longrightarrow> C \<subseteq> D \<Longrightarrow> no_gain D st st'"
  unfolding no_gain_def by blast

definition new_ident :: "u64 \<Rightarrow> u16 \<Rightarrow> u16 \<Rightarrow> u32 \<Rightarrow> u8 \<Rightarrow> u64 \<Rightarrow> cap_identity" where
  "new_ident obj ty rights badge m e = zero_identity\<lparr>ci_object_ptr := obj, ci_type := ucast ty, ci_rights := rights,
     ci_badge := badge, ci_allowed_modes := m, ci_birth_epoch := e, ci_magic := CAP_IDENT_MAGIC\<rparr>"

lemma new_ident_sel [simp]:
  "ci_magic (new_ident obj ty ri b m e) = CAP_IDENT_MAGIC" "ci_ref_count (new_ident obj ty ri b m e) = 0"
  "ci_parent (new_ident obj ty ri b m e) = None" "ci_parent_epoch_start (new_ident obj ty ri b m e) = 0"
  "ci_first_child (new_ident obj ty ri b m e) = None" "ci_next_sibling (new_ident obj ty ri b m e) = None"
  "ci_prev_sibling (new_ident obj ty ri b m e) = None" "ci_revocation_epoch (new_ident obj ty ri b m e) = 0"
  "ci_rights (new_ident obj ty ri b m e) = ri" "ci_allowed_modes (new_ident obj ty ri b m e) = m"
  "ci_object_ptr (new_ident obj ty ri b m e) = obj" "ci_type (new_ident obj ty ri b m e) = ucast ty"
  by (simp_all add: new_ident_def zero_identity_def)

lemmas create_ok' = create_ok[folded new_ident_def]

lemma derive_spec:
  assumes inv: "cap_inv st" and p: "alive st p" and new: "\<not> valid_at st c" and r: "r \<in> dom (ca_cnode st)"
    and att: "attenuates (new_ident obj ty ri b m e) (ca_ident st p)"
  obtains st2 where "cap_insert (Some r) dst (Some c) (link_child p c (upd_ident c (\<lambda>_. new_ident obj ty ri b m e) st)) = (0, st2)"
      "dst < CNODE_SLOTS" "slot st r dst = None" "cap_inv st2" "no_gain {c} st st2" "dom (ca_cnode st2) = dom (ca_cnode st)"
      "slot st2 r dst = Some c" "alive st2 c" "same_auth (ca_ident st2 c) (new_ident obj ty ri b m e)"
      "ci_parent (ca_ident st2 c) = Some p"
  | st2 st3 where "cap_insert (Some r) dst (Some c) (link_child p c (upd_ident c (\<lambda>_. new_ident obj ty ri b m e) st)) = (- 1, st2)"
      "\<not> (dst < CNODE_SLOTS \<and> slot st r dst = None)" "cap_identity_free c st2 = Some st3" "cap_inv st3"
      "no_gain {} st st3" "dom (ca_cnode st3) = dom (ca_cnode st)"
proof -
  let ?i = "new_ident obj ty ri b m e"
  define st1 where "st1 = link_child p c (upd_ident c (\<lambda>_. ?i) st)"
  note D = derive_link[OF inv p new new_ident_sel(1-8) att, folded st1_def]
  have r1: "r \<in> dom (ca_cnode st1)" and sl: "slot st1 = slot st" using r D(8) by (auto simp: st1_def)
  show thesis
  proof (rule derive_insert[OF D(1) r1 D(2,3,4), of dst])
    fix st2 assume I: "cap_insert (Some r) dst (Some c) st1 = (0, st2)" "dst < CNODE_SLOTS" "slot st1 r dst = None"
      "cap_inv st2" "same_core st1 st2" "\<And>x. alive st2 x = alive st1 x" "dom (ca_cnode st2) = dom (ca_cnode st1)"
      "slot st2 r dst = Some c"
    have auth: "same_auth (ca_ident st2 x) (ca_ident st1 x)" for x by (rule same_core_auth[OF I(5)])
    have "no_gain {c} st st2" by (rule no_gain_same[OF D(5)]) (use I(6) auth in auto)
    moreover have "same_auth (ca_ident st2 c) ?i" using auth[of c] D(7) by (simp add: same_auth_def)
    moreover have "ci_parent (ca_ident st2 c) = ci_parent (ca_ident st1 c)"
      by (rule core_fields(6)) (use I(5) in \<open>simp add: same_core_def\<close>)
    ultimately show thesis using that(1)[of st2] I D(6,8,9) sl unfolding st1_def by simp
  next
    fix st2 st3 assume I: "cap_insert (Some r) dst (Some c) st1 = (- 1, st2)"
      "\<not> (dst < CNODE_SLOTS \<and> slot st1 r dst = None)" "cap_identity_free c st2 = Some st3" "cap_inv st3"
      "dom (ca_cnode st3) = dom (ca_cnode st1)"
      "\<And>x. alive st3 x \<Longrightarrow> x \<noteq> c \<and> alive st1 x \<and> same_auth (ca_ident st3 x) (ca_ident st1 x)"
    have "no_gain {c} st st3" by (rule no_gain_same[OF D(5)]) (use I(6) in auto)
    then have "no_gain {} st st3" using I(6) by (auto simp: no_gain_def)
    then show thesis using that(2)[of st2 st3] I D(8) sl unfolding st1_def by simp
  qed
qed

text \<open>The guards of \<open>cap_mint\<close> after its lookup.\<close>

definition mint_guard :: "cap_env \<Rightarrow> nat \<Rightarrow> nat \<Rightarrow> u16 \<Rightarrow> u8 \<Rightarrow> nat \<Rightarrow> cap_st \<Rightarrow> bool" where
  "mint_guard env r dst new_rights modes p st \<longleftrightarrow>
     ci_rights (ca_ident st p) AND CAP_RIGHT_GRANT \<noteq> 0 \<and>
     new_rights AND ci_rights (ca_ident st p) = new_rights \<and> cap_allowed_modes_valid modes \<and>
     ci_allowed_modes (ca_ident st p) AND modes \<noteq> 0 \<and> cap_slot_is_empty env r dst st \<and>
     cap_is_valid_type (ucast (ci_type (ca_ident st p)))"

lemma mint_guard_fail:
  assumes "cap_lookup env (Some r) src st = Some (Some p, st1)"
    and "\<not> (\<exists>c. cell = Some c \<and> mint_guard env r dst new_rights modes p st1)"
  shows "\<exists>st'. cap_mint env cell (Some r) src dst new_rights badge modes st = Some (- 1, st') \<and> same_store st1 st'"
proof -
  have c: "cap_identity_create cell obj ty ri b m st1 = (None, st1)"
    if "cell = None \<or> \<not> cap_is_valid_type ty" for obj ty ri b m
    using create_fail[of cell ty m] that by blast
  show ?thesis using assms c[of "ucast (ci_type (ca_ident st1 p))"]
    by (auto simp: cap_mint_def mint_guard_def Let_def mint_fail_def mint_deny_def same_store_def)
qed

lemma mint_guard_ok:
  assumes "cap_lookup env (Some r) src st = Some (Some p, st1)" and "cell = Some c"
    and g: "mint_guard env r dst new_rights modes p st1"
  shows "cap_mint env cell (Some r) src dst new_rights badge modes st =
    (case cap_insert (Some r) dst (Some c) (link_child p c (upd_ident c (\<lambda>_. new_ident (ci_object_ptr (ca_ident st1 p))
         (ucast (ci_type (ca_ident st1 p))) new_rights badge (ci_allowed_modes (ca_ident st1 p) AND modes) (ca_epoch st1)) st1))
     of (res, st3) \<Rightarrow>
      if res \<noteq> 0 then do { st4 \<leftarrow> cap_identity_free c st3; Some (mint_fail st4) }
      else let ch = ca_ident st3 c in
        Some (0, metric (\<lambda>m. m\<lparr>cm_mint_ok := cm_mint_ok m + 1\<rparr>)
          (audit_cap env AUDIT_EVENT_CAP_MINT AUDIT_RESULT_OK (ci_type ch) badge (ci_object_ptr ch) (ci_rights ch) st3)))"
proof -
  have m: "cap_allowed_modes_valid (ci_allowed_modes (ca_ident st1 p) AND modes)"
    using g and_valid_modes by (auto simp: mint_guard_def)
  show ?thesis using assms create_ok'[OF _ m] by (simp add: cap_mint_def mint_guard_def Let_def)
qed

lemma mint_spec:
  assumes inv: "cap_inv st" and r: "r \<in> dom (ca_cnode st)" and fresh: "\<And>c. cell = Some c \<Longrightarrow> \<not> valid_at st c"
  shows "\<exists>res st'. cap_mint env cell (Some r) src dst new_rights badge modes st = Some (res, st') \<and>
    cap_inv st' \<and> no_gain (set_option cell) st st' \<and> dom (ca_cnode st') = dom (ca_cnode st) \<and>
    (res = 0 \<longleftrightarrow> mint_ok env cell r src dst new_rights modes st) \<and>
    (res = 0 \<longrightarrow> (\<exists>p c. cell = Some c \<and> slot st r src = Some p \<and> slot st' r dst = Some c \<and> alive st' c \<and>
       ci_parent (ca_ident st' c) = Some p \<and> ci_rights (ca_ident st' c) = new_rights \<and>
       ci_allowed_modes (ca_ident st' c) = ci_allowed_modes (ca_ident st p) AND modes \<and>
       ci_type (ca_ident st' c) = ci_type (ca_ident st p) \<and> ci_object_ptr (ca_ident st' c) = ci_object_ptr (ca_ident st p)))"
    (is "\<exists>res st'. ?P res st'")
proof (rule lookup_cases[OF inv, of env r src])
  fix st1 assume L: "cap_lookup env (Some r) src st = Some (None, st1)"
    "\<not> (\<exists>a. src < CNODE_SLOTS \<and> slot st r src = Some a \<and> usable env st a)"
    "cap_inv st1" "no_gain {} st st1" "ca_cnode st1 = ca_cnode st"
  then have "cap_mint env cell (Some r) src dst new_rights badge modes st = Some (mint_fail st1)"
    by (simp add: cap_mint_def)
  moreover have "\<not> mint_ok env cell r src dst new_rights modes st" using L(2) by (auto simp: mint_ok_def)
  moreover note same_store_facts[OF same_store_fail(1)[of st1]]
  ultimately show ?thesis using L no_gain_mono[OF L(4)]
    by (intro exI[of _ "-1"] exI[of _ "snd (mint_fail st1)"]) (simp add: mint_fail_def)
next
  fix p st1 assume L: "cap_lookup env (Some r) src st = Some (Some p, st1)" "src < CNODE_SLOTS" "slot st r src = Some p"
    "usable env st p" "cap_inv st1" "same_store st st1"
  note S = same_store_facts[OF L(6)]
  have id: "ca_ident st1 = ca_ident st" using S by simp
  show ?thesis
  proof (cases "\<exists>c. cell = Some c \<and> mint_guard env r dst new_rights modes p st1")
    case False
    then obtain st' where M: "cap_mint env cell (Some r) src dst new_rights badge modes st = Some (- 1, st')" "same_store st1 st'"
      using mint_guard_fail[OF L(1)] by blast
    have "\<not> mint_ok env cell r src dst new_rights modes st"
      using False L(2,3) S by (auto simp: mint_ok_def mint_guard_def cap_slot_is_empty_def)
    then show ?thesis using M S same_store_facts[OF M(2)] inv by auto
  next
    case True
    then obtain c where c: "cell = Some c" and g: "mint_guard env r dst new_rights modes p st1" by blast
    let ?n = "new_ident (ci_object_ptr (ca_ident st1 p)) (ucast (ci_type (ca_ident st1 p))) new_rights badge
      (ci_allowed_modes (ca_ident st1 p) AND modes) (ca_epoch st1)"
    have new: "\<not> valid_at st1 c" using fresh[OF c] by (simp add: valid_at_def id)
    have al: "alive st1 p" using L(4) S by (simp add: usable_def)
    have att: "attenuates ?n (ca_ident st1 p)"
      using g by (simp add: attenuates_def mint_guard_def ac_simps)
    have r1: "r \<in> dom (ca_cnode st1)" using r S by simp
    note M = mint_guard_ok[OF L(1) c g]
    show ?thesis
    proof (rule derive_spec[OF L(5) al new r1 att, of dst])
      fix st2 assume D: "cap_insert (Some r) dst (Some c) (link_child p c (upd_ident c (\<lambda>_. ?n) st1)) = (0, st2)"
        "dst < CNODE_SLOTS" "slot st1 r dst = None" "cap_inv st2" "no_gain {c} st1 st2" "dom (ca_cnode st2) = dom (ca_cnode st1)"
        "slot st2 r dst = Some c" "alive st2 c" "same_auth (ca_ident st2 c) ?n" "ci_parent (ca_ident st2 c) = Some p"
      obtain st' where st': "cap_mint env cell (Some r) src dst new_rights badge modes st = Some (0, st')" "same_store st2 st'"
        using M D(1) by (auto simp: Let_def same_store_def)
      have ok: "mint_ok env cell r src dst new_rights modes st"
        using g c D(2,3) L(2,3,4) S by (auto simp: mint_ok_def mint_guard_def)
      show ?thesis using st'(1) ok D S c L(3) same_store_facts[OF st'(2)] by (simp add: same_auth_def)
    next
      fix st2 st3 assume D: "cap_insert (Some r) dst (Some c) (link_child p c (upd_ident c (\<lambda>_. ?n) st1)) = (- 1, st2)"
        "\<not> (dst < CNODE_SLOTS \<and> slot st1 r dst = None)" "cap_identity_free c st2 = Some st3" "cap_inv st3"
        "no_gain {} st1 st3" "dom (ca_cnode st3) = dom (ca_cnode st1)"
      have "cap_mint env cell (Some r) src dst new_rights badge modes st = Some (- 1, snd (mint_fail st3))"
        using M D(1,3) by (simp add: mint_fail_def)
      moreover have "\<not> mint_ok env cell r src dst new_rights modes st" using D(2) S by (auto simp: mint_ok_def)
      ultimately show ?thesis
        using D S same_store_facts[OF same_store_fail(1)[of st3]] no_gain_mono[OF D(5)] by simp
    qed
  qed
qed

section \<open>Retyping and copying\<close>

definition retype_guard :: "cap_env \<Rightarrow> nat \<Rightarrow> nat \<Rightarrow> u16 \<Rightarrow> nat \<Rightarrow> cap_st \<Rightarrow> bool" where
  "retype_guard env r dst new_type p st \<longleftrightarrow>
     ci_rights (ca_ident st p) AND CAP_RIGHT_GRANT \<noteq> 0 \<and>
     unat (ci_type (ca_ident st p)) = cap_type_val CAP_TYPE_RAM \<and>
     unat new_type \<in> {cap_type_val CAP_TYPE_PAGETABLE, cap_type_val CAP_TYPE_ENDPOINT} \<and>
     cap_slot_is_empty env r dst st \<and> cap_allowed_modes_valid (ci_allowed_modes (ca_ident st p))"

definition retype_ok :: "cap_env \<Rightarrow> nat option \<Rightarrow> nat \<Rightarrow> nat \<Rightarrow> nat \<Rightarrow> u16 \<Rightarrow> cap_st \<Rightarrow> bool" where
  "retype_ok env cell r src dst new_type st \<longleftrightarrow>
     cell \<noteq> None \<and> src < CNODE_SLOTS \<and> dst < CNODE_SLOTS \<and> slot st r dst = None \<and>
     unat new_type \<in> {cap_type_val CAP_TYPE_PAGETABLE, cap_type_val CAP_TYPE_ENDPOINT} \<and>
     (\<exists>p. slot st r src = Some p \<and> usable env st p \<and> ci_rights (ca_ident st p) AND CAP_RIGHT_GRANT \<noteq> 0 \<and>
        unat (ci_type (ca_ident st p)) = cap_type_val CAP_TYPE_RAM)"

text \<open>The state in which \<open>cap_retype\<close> creates the child: a new endpoint's frame has been zeroed.\<close>

definition retype_prep :: "u16 \<Rightarrow> nat \<Rightarrow> cap_st \<Rightarrow> cap_st" where
  "retype_prep new_type p st =
     (if unat new_type = cap_type_val CAP_TYPE_ENDPOINT then emit (ZeroEndpoint (ci_object_ptr (ca_ident st p))) st else st)"

lemma retype_prep_store [simp]: "same_store st (retype_prep t p st)" "ca_ident (retype_prep t p st) = ca_ident st"
    "ca_epoch (retype_prep t p st) = ca_epoch st"
  by (simp_all add: retype_prep_def same_store_def emit_def)

lemma valid_retype: "unat t \<in> {cap_type_val CAP_TYPE_PAGETABLE, cap_type_val CAP_TYPE_ENDPOINT} \<Longrightarrow> cap_is_valid_type t"
  by (auto simp: cap_is_valid_type_def CAP_MAX_TYPES_def)

lemma retype_guard_fail:
  assumes "cap_lookup env (Some r) src st = Some (Some p, st1)"
    and "\<not> (\<exists>c. cell = Some c \<and> retype_guard env r dst new_type p st1)"
  shows "\<exists>st'. cap_retype env cell (Some r) src dst new_type badge st = Some (- 1, st') \<and> same_store st1 st'"
proof -
  have c: "cap_identity_create cell obj ty ri b m st2 = (None, st2)"
    if "cell = None \<or> \<not> cap_allowed_modes_valid m" for obj ty ri b m st2
    using create_fail[of cell ty m] that by blast
  show ?thesis
    using assms c[of "ci_allowed_modes (ca_ident st1 p)"]
    by (auto simp: cap_retype_def retype_guard_def Let_def retype_fail_def same_store_def emit_def)
qed

lemma retype_guard_ok:
  assumes "cap_lookup env (Some r) src st = Some (Some p, st1)" and "cell = Some c"
    and g: "retype_guard env r dst new_type p st1"
  shows "cap_retype env cell (Some r) src dst new_type badge st =
    (case cap_insert (Some r) dst (Some c) (link_child p c (upd_ident c (\<lambda>_. new_ident (ci_object_ptr (ca_ident st1 p))
         new_type (ci_rights (ca_ident st1 p)) badge (ci_allowed_modes (ca_ident st1 p)) (ca_epoch st1))
         (retype_prep new_type p st1)))
     of (res, st4) \<Rightarrow>
      if res \<noteq> 0 then do { st5 \<leftarrow> cap_identity_free c st4; Some (retype_fail st5) }
      else Some (0, metric (\<lambda>m. m\<lparr>cm_retype_ok := cm_retype_ok m + 1\<rparr>) st4))"
proof -
  have t: "cap_is_valid_type new_type" and m: "cap_allowed_modes_valid (ci_allowed_modes (ca_ident st1 p))"
    using g valid_retype by (auto simp: retype_guard_def)
  show ?thesis
    using assms by (auto simp: cap_retype_def retype_guard_def retype_prep_def create_ok'[OF t m] Let_def emit_def)
qed

lemma retype_spec:
  assumes inv: "cap_inv st" and r: "r \<in> dom (ca_cnode st)" and fresh: "\<And>c. cell = Some c \<Longrightarrow> \<not> valid_at st c"
  shows "\<exists>res st'. cap_retype env cell (Some r) src dst new_type badge st = Some (res, st') \<and>
    cap_inv st' \<and> no_gain (set_option cell) st st' \<and> dom (ca_cnode st') = dom (ca_cnode st) \<and>
    (res = 0 \<longleftrightarrow> retype_ok env cell r src dst new_type st) \<and>
    (res = 0 \<longrightarrow> (\<exists>p c. cell = Some c \<and> slot st r src = Some p \<and> slot st' r dst = Some c \<and> alive st' c \<and>
       ci_parent (ca_ident st' c) = Some p \<and> ci_rights (ca_ident st' c) = ci_rights (ca_ident st p) \<and>
       ci_allowed_modes (ca_ident st' c) = ci_allowed_modes (ca_ident st p) \<and>
       ci_type (ca_ident st' c) = ucast new_type \<and> ci_object_ptr (ca_ident st' c) = ci_object_ptr (ca_ident st p)))"
proof (rule lookup_cases[OF inv, of env r src])
  fix st1 assume L: "cap_lookup env (Some r) src st = Some (None, st1)"
    "\<not> (\<exists>a. src < CNODE_SLOTS \<and> slot st r src = Some a \<and> usable env st a)"
    "cap_inv st1" "no_gain {} st st1" "ca_cnode st1 = ca_cnode st"
  then have "cap_retype env cell (Some r) src dst new_type badge st = Some (retype_fail st1)"
    by (simp add: cap_retype_def)
  moreover have "\<not> retype_ok env cell r src dst new_type st" using L(2) by (auto simp: retype_ok_def)
  moreover note same_store_facts[OF same_store_fail(3)[of st1]]
  ultimately show ?thesis using L no_gain_mono[OF L(4)]
    by (intro exI[of _ "-1"] exI[of _ "snd (retype_fail st1)"]) (simp add: retype_fail_def)
next
  fix p st1 assume L: "cap_lookup env (Some r) src st = Some (Some p, st1)" "src < CNODE_SLOTS" "slot st r src = Some p"
    "usable env st p" "cap_inv st1" "same_store st st1"
  note S = same_store_facts[OF L(6)] and S' = same_store_facts[OF retype_prep_store(1)[of st1 new_type p]]
  have um: "cap_allowed_modes_valid (ci_allowed_modes (ca_ident st1 p))" using L(4) S by (simp add: usable_def)
  show ?thesis
  proof (cases "\<exists>c. cell = Some c \<and> retype_guard env r dst new_type p st1")
    case False
    then obtain st' where M: "cap_retype env cell (Some r) src dst new_type badge st = Some (- 1, st')" "same_store st1 st'"
      using retype_guard_fail[OF L(1)] by blast
    have "\<not> retype_ok env cell r src dst new_type st"
      using False L(2,3) S um by (auto simp: retype_ok_def retype_guard_def cap_slot_is_empty_def)
    then show ?thesis using M S same_store_facts[OF M(2)] inv by auto
  next
    case True
    then obtain c where c: "cell = Some c" and g: "retype_guard env r dst new_type p st1" by blast
    let ?st = "retype_prep new_type p st1"
    let ?n = "new_ident (ci_object_ptr (ca_ident st1 p)) new_type (ci_rights (ca_ident st1 p)) badge
      (ci_allowed_modes (ca_ident st1 p)) (ca_epoch st1)"
    have pre: "cap_inv ?st" "alive ?st p" "\<not> valid_at ?st c" "r \<in> dom (ca_cnode ?st)"
      using L(4,5) S S' fresh[OF c] r by (auto simp: usable_def valid_at_def)
    have "unat (ucast new_type :: u8) = unat new_type"
      using g by (auto simp: retype_guard_def unsigned_ucast_eq)
    then have att: "attenuates ?n (ca_ident ?st p)" using g by (auto simp: attenuates_def retype_guard_def)
    note M = retype_guard_ok[OF L(1) c g]
    show ?thesis
    proof (rule derive_spec[OF pre att, of dst])
      fix st2 assume D: "cap_insert (Some r) dst (Some c) (link_child p c (upd_ident c (\<lambda>_. ?n) ?st)) = (0, st2)"
        "dst < CNODE_SLOTS" "slot ?st r dst = None" "cap_inv st2" "no_gain {c} ?st st2" "dom (ca_cnode st2) = dom (ca_cnode ?st)"
        "slot st2 r dst = Some c" "alive st2 c" "same_auth (ca_ident st2 c) ?n" "ci_parent (ca_ident st2 c) = Some p"
      obtain st' where st': "cap_retype env cell (Some r) src dst new_type badge st = Some (0, st')" "same_store st2 st'"
        using M D(1) by (auto simp: same_store_def)
      have ok: "retype_ok env cell r src dst new_type st"
        using g c D(2,3) L(2,3,4) S S' by (auto simp: retype_ok_def retype_guard_def)
      show ?thesis using st'(1) ok D S S' c L(3) same_store_facts[OF st'(2)] by (simp add: same_auth_def)
    next
      fix st2 st3 assume D: "cap_insert (Some r) dst (Some c) (link_child p c (upd_ident c (\<lambda>_. ?n) ?st)) = (- 1, st2)"
        "\<not> (dst < CNODE_SLOTS \<and> slot ?st r dst = None)" "cap_identity_free c st2 = Some st3" "cap_inv st3"
        "no_gain {} ?st st3" "dom (ca_cnode st3) = dom (ca_cnode ?st)"
      have "cap_retype env cell (Some r) src dst new_type badge st = Some (- 1, snd (retype_fail st3))"
        using M D(1,3) by (simp add: retype_fail_def)
      moreover have "\<not> retype_ok env cell r src dst new_type st" using D(2) S S' by (auto simp: retype_ok_def)
      ultimately show ?thesis
        using D S S' same_store_facts[OF same_store_fail(3)[of st3]] no_gain_mono[OF D(5)] by simp
    qed
  qed
qed

lemma copy_spec:
  assumes inv: "cap_inv st" and r: "r \<in> dom (ca_cnode st)"
  shows "\<exists>res st'. cap_copy env (Some r) src dst st = Some (res, st') \<and> cap_inv st' \<and> no_gain {} st st' \<and>
    dom (ca_cnode st') = dom (ca_cnode st)"
proof (rule lookup_cases[OF inv, of env r src])
  fix st1 assume L: "cap_lookup env (Some r) src st = Some (None, st1)" "cap_inv st1" "no_gain {} st st1"
    "ca_cnode st1 = ca_cnode st"
  then show ?thesis using same_store_facts[OF same_store_fail(4)[of st1]] by (simp add: cap_copy_def copy_fail_def)
next
  fix p st1 assume L: "cap_lookup env (Some r) src st = Some (Some p, st1)" "usable env st p" "cap_inv st1" "same_store st st1"
  note S = same_store_facts[OF L(4)]
  have r1: "r \<in> dom (ca_cnode st1)" and v: "valid_at st1 p" using r S L(2) by (auto simp: usable_def alive_def valid_at_def)
  obtain res st2 where I: "cap_insert (Some r) dst (Some p) st1 = (res, st2)" "cap_inv st2" "same_core st1 st2"
      "\<And>x. ci_revocation_epoch (ca_ident st2 x) = ci_revocation_epoch (ca_ident st1 x)"
      "dom (ca_cnode st2) = dom (ca_cnode st1)"
    using insert_spec[OF L(3) r1 v, of dst] by blast
  have "no_gain {} st1 st2"
    by (rule no_gain_same[OF no_gain_refl]) (use same_core_alive[OF I(3,4)] same_core_auth[OF I(3)] in auto)
  then show ?thesis
    using L(1,3) I S same_store_facts[OF same_store_fail(4)[of st1]] same_store_facts[OF same_store_fail(4)[of st2]]
      same_store_facts[OF same_store_simps(1)[of st2 "\<lambda>m. m\<lparr>cm_copy_ok := cm_copy_ok m + 1\<rparr>"]]
    by (simp add: cap_copy_def copy_fail_def)
qed

section \<open>Revocation\<close>

definition desc :: "cap_st \<Rightarrow> nat \<Rightarrow> nat set" where
  "desc st a = {x. valid_at st x \<and> (x, a) \<in> (parent_rel st)\<^sup>*}"

text \<open>Every identity of \<open>S\<close> is marked with the epoch \<open>e\<close>; nothing else changes.\<close>

definition marked :: "u64 \<Rightarrow> nat set \<Rightarrow> cap_st \<Rightarrow> cap_st \<Rightarrow> bool" where
  "marked e S st st' \<longleftrightarrow> ca_cnode st' = ca_cnode st \<and> ca_epoch st' = ca_epoch st \<and>
     (\<forall>x. ca_ident st' x = (if x \<in> S then (ca_ident st x)\<lparr>ci_revocation_epoch := e\<rparr> else ca_ident st x))"

lemma marked_refl: "marked e {} st st"
  by (simp add: marked_def)

lemma marked_trans: "marked e S st st1 \<Longrightarrow> marked e T st1 st2 \<Longrightarrow> marked e (S \<union> T) st st2"
  by (simp add: marked_def)

lemma marked_core: "marked e S st st' \<Longrightarrow> same_core st st'"
  by (simp add: marked_def same_core_def core_def)

lemma marked_frame:
  assumes "marked e S st st'"
  shows "valid_at st' = valid_at st" and "parent_rel st' = parent_rel st" and "desc st' = desc st"
    and "ci_next_sibling (ca_ident st' x) = ci_next_sibling (ca_ident st x)"
proof -
  show v: "valid_at st' = valid_at st" using assms by (simp add: marked_def valid_at_def fun_eq_iff)
  have "ci_parent (ca_ident st' x) = ci_parent (ca_ident st x)" for x using assms by (simp add: marked_def)
  then show p: "parent_rel st' = parent_rel st" by (simp add: parent_rel_def)
  show "desc st' = desc st" by (simp add: desc_def v p fun_eq_iff)
  show "ci_next_sibling (ca_ident st' x) = ci_next_sibling (ca_ident st x)" using assms by (simp add: marked_def)
qed

lemma revoke_mark_marked: "marked e {a} st (revoke_mark env e a st)"
  by (auto simp: revoke_mark_def marked_def Let_def upd_ident_def emit_def split: option.splits)

lemma desc_unfold:
  assumes inv: "lineage_inv st K rank N" and p: "valid_at st p"
  shows "desc st p = insert p (\<Union>c\<in>set (K p). desc st c)"
proof -
  have "x = p \<or> (\<exists>c\<in>set (K p). (x, c) \<in> (parent_rel st)\<^sup>*)" if "(x, p) \<in> (parent_rel st)\<^sup>*" "valid_at st x" for x
    using that(1)
  proof (cases rule: rtranclE)
    case (step y)
    have "valid_at st y" using ancestors_valid(1)[OF inv step(1) that(2)] .
    then have "y \<in> set (K p)" using lineage_invD(3)[OF inv, of y] step(2) by (simp add: parent_rel_def)
    then show ?thesis using step(1) by blast
  qed simp
  moreover have "(c, p) \<in> parent_rel st" if "c \<in> set (K p)" for c
    using lineage_invD(2)[OF inv p that] by (simp add: parent_rel_def)
  ultimately show ?thesis using p unfolding desc_def by (auto intro: rtrancl_into_rtrancl)
qed

text \<open>The recursion of \<open>cap_revoke_tree\<close> ends and marks exactly the descendants.\<close>

lemma revoke_children_spec:
  assumes "lineage_inv st K rank N" and "dll (ca_ident st) pv start xs None"
    and "\<And>x. x \<in> set xs \<Longrightarrow> valid_at st x \<and> k \<le> rank x"
  shows "\<exists>st'. revoke_children env e start st = Some st' \<and> marked e (\<Union>x\<in>set xs. desc st x) st st'"
  using assms
proof (induction "N - k" arbitrary: k st pv start xs rule: less_induct)
  case less
  from less.prems show ?case
  proof (induction xs arbitrary: st pv start)
    case Nil
    then show ?case by (simp add: revoke_children.simps marked_refl)
  next
    case (Cons c cs)
    note inv = Cons.prems(1)
    have c: "valid_at st c" "k \<le> rank c" "start = Some c" using Cons.prems by auto
    have "rank c < N" using lineage_invD(3)[OF inv c(1)] by simp
    then have lt: "N - Suc (rank c) < N - k" using c(2) by simp
    have kids: "valid_at st x \<and> Suc (rank c) \<le> rank x" if "x \<in> set (K c)" for x
      using lineage_invD(2)[OF inv c(1) that] lineage_invD(3)[OF inv, of x] by auto
    obtain st1 where st1: "revoke_children env e (ci_first_child (ca_ident st c)) st = Some st1"
        "marked e (\<Union>x\<in>set (K c). desc st x) st st1"
      using less.hyps[OF lt inv conjunct1[OF lineage_invD(1)[OF inv c(1)]]] kids by blast
    define st2 where "st2 = revoke_mark env e c st1"
    have m2: "marked e (desc st c) st st2"
      using marked_trans[OF st1(2) revoke_mark_marked[of e c st1 env]] desc_unfold[OF inv c(1)] by (simp add: st2_def)
    note F = marked_frame[OF m2]
    have inv2: "lineage_inv st2 K rank N" using same_core_lineage[OF marked_core[OF m2] inv] .
    have rest: "dll (ca_ident st2) (Some c) (ci_next_sibling (ca_ident st2 c)) cs None"
    proof -
      have "dll (ca_ident st2) (Some c) s cs None = dll (ca_ident st) (Some c) s cs None" for s
        using m2 by (intro links_cong) (simp add: marked_def)
      then show ?thesis using Cons.prems(2) F(4) by simp
    qed
    have "valid_at st2 x \<and> k \<le> rank x" if "x \<in> set cs" for x using Cons.prems(3)[of x] that F(1) by simp
    then obtain st3 where st3: "revoke_children env e (ci_next_sibling (ca_ident st2 c)) st2 = Some st3"
        "marked e (\<Union>x\<in>set cs. desc st2 x) st2 st3"
      using Cons.IH[OF inv2 rest] by blast
    have "revoke_children env e start st = Some st3"
      using st1 st3 c(3) by (simp add: revoke_children.simps[of env e "Some c"] st2_def)
    then show ?case using marked_trans[OF m2 st3(2)] F(3) by auto
  qed
qed

lemma revoke_tree_spec:
  assumes inv: "lineage_inv st K rank N" and a: "valid_at st a"
  shows "\<exists>st'. cap_revoke_tree env a e st = Some st' \<and> marked e (desc st a) st st'"
proof -
  have "valid_at st x \<and> 0 \<le> rank x" if "x \<in> set (K a)" for x using lineage_invD(2)[OF inv a that] by simp
  then obtain st1 where st1: "revoke_children env e (ci_first_child (ca_ident st a)) st = Some st1"
      "marked e (\<Union>x\<in>set (K a). desc st x) st st1"
    using revoke_children_spec[OF inv conjunct1[OF lineage_invD(1)[OF inv a]]] by blast
  then show ?thesis
    using marked_trans[OF st1(2) revoke_mark_marked[of e a st1 env]] desc_unfold[OF inv a]
    by (simp add: cap_revoke_tree_def)
qed

lemma marked_alive:
  assumes m: "marked e (desc st a) st st'" and e: "e \<noteq> 0" and inv: "cap_inv st"
  shows "alive st' x \<longleftrightarrow> alive st x \<and> x \<notin> desc st a"
proof -
  note F = marked_frame[OF m]
  obtain K rank N where K: "lineage_inv st K rank N" using inv by (auto simp: cap_inv_def)
  have rev: "ci_revocation_epoch (ca_ident st' y) = (if y \<in> desc st a then e else ci_revocation_epoch (ca_ident st y))" for y
    using m by (simp add: marked_def)
  have up: "x \<in> desc st a" if "valid_at st x" "(x, y) \<in> (parent_rel st)\<^sup>*" "y \<in> desc st a" for y
    using that by (auto simp: desc_def)
  have "alive st' x \<longleftrightarrow> valid_at st x \<and> (\<forall>p. (x, p) \<in> (parent_rel st)\<^sup>* \<longrightarrow> p \<notin> desc st a \<and> ci_revocation_epoch (ca_ident st p) = 0)"
    unfolding alive_def F(1,2) rev using e by auto
  then show ?thesis unfolding alive_def using up by blast
qed

lemma revoke_spec:
  assumes inv: "cap_inv st" and e: "ca_epoch st + 1 \<noteq> 0"
  shows "\<exists>st'. cap_revoke env (Some r) i st = Some st' \<and> cap_inv st' \<and> no_gain {} st st' \<and> ca_cnode st' = ca_cnode st \<and>
    (\<forall>x. alive st' x \<longleftrightarrow> alive st x \<and>
       \<not> (\<exists>a. i < CNODE_SLOTS \<and> slot st r i = Some a \<and> usable env st a \<and> x \<in> desc st a))"
proof (rule lookup_cases[OF inv, of env r i])
  fix st1 assume L: "cap_lookup env (Some r) i st = Some (None, st1)"
    "\<not> (\<exists>a. i < CNODE_SLOTS \<and> slot st r i = Some a \<and> usable env st a)"
    "cap_inv st1" "no_gain {} st st1" "ca_cnode st1 = ca_cnode st"
  obtain K rank N where K: "lineage_inv st K rank N" using inv by (auto simp: cap_inv_def)
  have "lookup_frame st st1" using lookup_spec[OF K, of env "Some r" i] L(1) by auto
  then have "alive st1 x = alive st x" for x by (rule lookup_alive[OF inv])
  then show ?thesis using L by (auto simp: cap_revoke_def)
next
  fix a st1 assume L: "cap_lookup env (Some r) i st = Some (Some a, st1)" "i < CNODE_SLOTS" "slot st r i = Some a"
    "usable env st a" "cap_inv st1" "same_store st st1"
  note S = same_store_facts[OF L(6)]
  obtain K rank N where K: "lineage_inv st K rank N" using inv by (auto simp: cap_inv_def)
  have ep: "ca_epoch st1 = ca_epoch st" using lookup_spec[OF K, of env "Some r" i] L(1) by (auto simp: lookup_frame_def)
  define st2 where "st2 = st1\<lparr>ca_epoch := ca_epoch st1 + 1\<rparr>"
  have S2: "same_store st1 st2" by (simp add: same_store_def st2_def)
  note T = same_store_facts[OF S2]
  have inv2: "cap_inv st2" using T L(5) by simp
  then obtain K rank N where K2: "lineage_inv st2 K rank N" by (auto simp: cap_inv_def)
  have v: "valid_at st2 a" using L(4) S T by (simp add: usable_def alive_def valid_at_def)
  obtain st3 where st3: "cap_revoke_tree env a (ca_epoch st1 + 1) st2 = Some st3" "marked (ca_epoch st1 + 1) (desc st2 a) st2 st3"
    using revoke_tree_spec[OF K2 v] by blast
  have al: "alive st3 x \<longleftrightarrow> alive st x \<and> x \<notin> desc st a" for x
    using marked_alive[OF st3(2) _ inv2] e ep S T by (simp add: desc_def parent_rel_def valid_at_def)
  have inv3: "cap_inv st3"
    using st3(2) by (intro inv_same_core[OF inv2 _ marked_core[OF st3(2)]]) (auto simp: marked_def)
  have "no_gain {} st2 st3"
    by (rule no_gain_same[OF no_gain_refl]) (use al S T same_core_auth[OF marked_core[OF st3(2)]] in auto)
  then have ng: "no_gain {} st st3" using S T by simp
  let ?st = "metric (\<lambda>m. m\<lparr>cm_revoke_ops := cm_revoke_ops m + 1\<rparr>) st3"
  have "cap_revoke env (Some r) i st = Some ?st"
    using L(1) st3(1) by (simp add: cap_revoke_def st2_def)
  moreover have "ca_cnode st3 = ca_cnode st" using st3(2) S2 L(6) by (simp add: marked_def same_store_def)
  ultimately show ?thesis
    using inv3 ng al L(2,3,4) same_store_facts[OF same_store_simps(1)[of st3 "\<lambda>m. m\<lparr>cm_revoke_ops := cm_revoke_ops m + 1\<rparr>"]]
    by auto
qed

end
