(* ===== verification/Capability_Run.thy ===== *)
theory Capability_Run
  imports Capability_Ops
begin

text \<open>
  Sequences of capability operations: the operations as commands, runs of them, and the properties
  that hold after every run.
\<close>

section \<open>Operations as commands\<close>

datatype cap_op =
    OpCreate "nat option" u64 u16 u16 u32 u8
  | OpCnode "nat option"
  | OpLookup nat nat
  | OpInsert nat nat nat
  | OpCopy nat nat nat
  | OpMint "nat option" nat nat nat u16 u32 u8
  | OpRetype "nat option" nat nat nat u16 u32
  | OpDelete nat nat
  | OpRevoke nat nat
  | OpDestroy nat

fun cap_exec :: "cap_env \<Rightarrow> cap_op \<Rightarrow> cap_st \<Rightarrow> cap_st option" where
  "cap_exec env (OpCreate cell obj ty rights badge modes) st = Some (snd (cap_identity_create cell obj ty rights badge modes st))"
| "cap_exec env (OpCnode cell) st = Some (snd (cnode_create cell st))"
| "cap_exec env (OpLookup r i) st = map_option snd (cap_lookup env (Some r) i st)"
| "cap_exec env (OpInsert r i a) st = Some (snd (cap_insert (Some r) i (Some a) st))"
| "cap_exec env (OpCopy r src dst) st = map_option snd (cap_copy env (Some r) src dst st)"
| "cap_exec env (OpMint cell r src dst rights badge modes) st =
     map_option snd (cap_mint env cell (Some r) src dst rights badge modes st)"
| "cap_exec env (OpRetype cell r src dst ty badge) st = map_option snd (cap_retype env cell (Some r) src dst ty badge st)"
| "cap_exec env (OpDelete r i) st = cap_delete (Some r) i st"
| "cap_exec env (OpRevoke r i) st = cap_revoke env (Some r) i st"
| "cap_exec env (OpDestroy r) st = cnode_destroy (Some r) st"

text \<open>
  What the callers and the slab allocator provide: C-Node pointers refer to existing C-Nodes, an
  allocated cell is not in use, fewer than \<open>2 ^ 25\<close> C-Nodes exist at a time (they would fill 32 GiB), and the
  64-bit revocation epoch has not wrapped around.
\<close>

fun op_ok :: "cap_op \<Rightarrow> cap_st \<Rightarrow> bool" where
  "op_ok (OpCreate cell obj ty rights badge modes) st = (case cell of None \<Rightarrow> True | Some c \<Rightarrow> \<not> valid_at st c)"
| "op_ok (OpCnode cell) st = (case cell of None \<Rightarrow> True | Some c \<Rightarrow>
     ca_cnode st c = None \<and> Suc (card (dom (ca_cnode st))) < 2 ^ 25)"
| "op_ok (OpLookup r i) st = (ca_cnode st r \<noteq> None)"
| "op_ok (OpInsert r i a) st = (ca_cnode st r \<noteq> None)"
| "op_ok (OpCopy r src dst) st = (ca_cnode st r \<noteq> None)"
| "op_ok (OpMint cell r src dst rights badge modes) st =
     (ca_cnode st r \<noteq> None \<and> (case cell of None \<Rightarrow> True | Some c \<Rightarrow> \<not> valid_at st c))"
| "op_ok (OpRetype cell r src dst ty badge) st =
     (ca_cnode st r \<noteq> None \<and> (case cell of None \<Rightarrow> True | Some c \<Rightarrow> \<not> valid_at st c))"
| "op_ok (OpDelete r i) st = (ca_cnode st r \<noteq> None)"
| "op_ok (OpRevoke r i) st = (ca_cnode st r \<noteq> None \<and> ca_epoch st + 1 \<noteq> 0)"
| "op_ok (OpDestroy r) st = (ca_cnode st r \<noteq> None)"

fun cap_run :: "(cap_env \<times> cap_op) list \<Rightarrow> cap_st \<Rightarrow> cap_st option" where
  "cap_run [] st = Some st"
| "cap_run ((env, op) # ops) st = do { st1 \<leftarrow> cap_exec env op st; cap_run ops st1 }"

fun ops_ok :: "(cap_env \<times> cap_op) list \<Rightarrow> cap_st \<Rightarrow> bool" where
  "ops_ok [] st = True"
| "ops_ok ((env, op) # ops) st = (op_ok op st \<and> (case cap_exec env op st of None \<Rightarrow> True | Some st1 \<Rightarrow> ops_ok ops st1))"

definition grants :: "cap_op \<Rightarrow> bool" where
  "grants op \<longleftrightarrow> (case op of OpCreate cell obj ty rights badge modes \<Rightarrow> True | _ \<Rightarrow> False)"

definition cap_start :: "audit_st \<Rightarrow> cap_st" where
  "cap_start au = \<lparr>ca_ident = (\<lambda>_. zero_identity), ca_cnode = Map.empty, ca_epoch = 1, ca_genesis_exhausted = False,
     ca_metrics = zero_metrics, ca_audit = au, ca_trace = []\<rparr>"

section \<open>Every operation ends and keeps the invariant\<close>

lemma shrinks_alive:
  assumes "cap_inv st" and "cap_inv st'" and sv: "shrinks st st'" and "valid_at st' a"
  shows "alive st' a = alive st a"
proof -
  obtain K rank N where inv: "lineage_inv st K rank N" using assms(1) by (auto simp: cap_inv_def)
  obtain K' rank' N' where inv': "lineage_inv st' K' rank' N'" using assms(2) by (auto simp: cap_inv_def)
  show ?thesis using assms(4)
  proof (induction "rank' a" arbitrary: a rule: less_induct)
    case less
    have v: "valid_at st a" "bare (ca_ident st' a) = bare (ca_ident st a)"
      using sv less.prems by (auto simp: shrinks_def)
    show ?case
      using alive_unfold[OF inv v(1)] alive_unfold[OF inv' less.prems] bare_fields(5,6)[OF v(2)]
        lineage_invD(3)[OF inv' less.prems] less.hyps
      by (auto split: option.splits)
  qed
qed

lemma shrinks_no_gain:
  assumes "cap_inv st" and "cap_inv st'" and sv: "shrinks st st'"
  shows "no_gain C st st'"
proof (rule no_gain_same[OF no_gain_refl])
  fix x assume al: "alive st' x"
  then have v: "valid_at st' x" by (simp add: alive_def)
  then have "bare (ca_ident st' x) = bare (ca_ident st x)" using sv by (simp add: shrinks_def)
  note F = bare_fields[OF this]
  show "alive st x \<and> same_auth (ca_ident st' x) (ca_ident st x)"
    using shrinks_alive[OF assms v] al by (simp add: same_auth_def F)
qed

lemma create_inv:
  assumes inv: "cap_inv st" and "\<And>c. cell = Some c \<Longrightarrow> \<not> valid_at st c"
  shows "cap_inv (snd (cap_identity_create cell obj ty rights badge m st))"
proof (cases "cell = None \<or> \<not> cap_is_valid_type ty \<or> \<not> cap_allowed_modes_valid m")
  case True
  then show ?thesis using create_fail inv by simp
next
  case False
  then obtain c where c: "cell = Some c" by auto
  then show ?thesis using False create_ok' fresh_root_inv[OF inv assms(2)[OF c]] by simp
qed

lemma cnode_create_inv:
  assumes inv: "cap_inv st" and ok: "op_ok (OpCnode cell) st"
  shows "cap_inv (snd (cnode_create cell st))" and "no_gain C st (snd (cnode_create cell st))"
proof -
  let ?st = "snd (cnode_create cell st)"
  have id: "ca_ident ?st = ca_ident st" by (simp add: cnode_create_def split: option.split)
  then have al: "alive ?st = alive st" by (simp add: alive_def valid_at_def parent_rel_def fun_eq_iff)
  show "no_gain C st ?st" by (simp add: no_gain_def al id same_auth_def)
  show "cap_inv ?st"
  proof (cases cell)
    case None
    then show ?thesis using inv by (simp add: cnode_create_def)
  next
    case (Some c)
    have s: "slots_inv st" using inv by (simp add: cap_inv_def)
    have new: "ca_cnode st c = None" "Suc (card (dom (ca_cnode st))) < 2 ^ 25" using ok Some by auto
    have cn: "ca_cnode ?st = (ca_cnode st)(c \<mapsto> replicate CNODE_SLOTS None)" by (simp add: cnode_create_def Some)
    have sl: "slot ?st r i = slot st r i" if "i < CNODE_SLOTS" for r i using that new by (simp add: slot_def cn)
    then have rf: "refs ?st = refs st" by (auto simp: refs_def fun_eq_iff)
    have v: "valid_at ?st = valid_at st" by (simp add: valid_at_def id fun_eq_iff)
    have d: "finite (dom (ca_cnode ?st))" "card (dom (ca_cnode ?st)) < 2 ^ 25"
      using s new by (auto simp: cn slots_inv_def domIff)
    have "length x = CNODE_SLOTS" if "ca_cnode ?st r = Some x" for r x
      using s that by (auto simp: cn slots_inv_def split: if_splits)
    then have "slots_inv ?st" using s d sl unfolding slots_inv_def v rf id by metis
    moreover have "same_core st ?st" by (simp add: same_core_def id)
    ultimately show ?thesis using inv same_core_lineage unfolding cap_inv_def by blast
  qed
qed

lemma exec_spec:
  assumes inv: "cap_inv st" and ok: "op_ok op st"
  shows "\<exists>st'. cap_exec env op st = Some st' \<and> cap_inv st' \<and> (grants op \<or> (\<exists>C. no_gain C st st'))"
proof (cases op)
  case (OpCreate cell obj ty rights badge modes)
  then show ?thesis using create_inv[OF inv, of cell] ok by (auto simp: grants_def split: option.splits)
next
  case (OpCnode cell)
  then show ?thesis using cnode_create_inv[OF inv, of cell] ok by auto
next
  case (OpLookup r i)
  show ?thesis by (rule lookup_cases[OF inv, of env r i]) (auto simp: OpLookup same_store_facts)
next
  case (OpInsert r i a)
  then have r: "r \<in> dom (ca_cnode st)" using ok by auto
  show ?thesis
  proof (cases "valid_at st a")
    case True
    obtain st' where I: "snd (cap_insert (Some r) i (Some a) st) = st'" "cap_inv st'" "same_core st st'"
        "\<And>x. ci_revocation_epoch (ca_ident st' x) = ci_revocation_epoch (ca_ident st x)"
      using insert_spec[OF inv r True, of i] by auto
    have "no_gain {} st st'"
      by (rule no_gain_same[OF no_gain_refl]) (use same_core_alive[OF I(3,4)] same_core_auth[OF I(3)] in auto)
    then show ?thesis using I OpInsert by auto
  next
    case False
    then have "cap_insert (Some r) i (Some a) st = insert_fail st" by (simp add: cap_insert_def)
    then show ?thesis
      using OpInsert inv same_store_facts[OF same_store_simps(1)[of st "\<lambda>m. m\<lparr>cm_insert_fail := cm_insert_fail m + 1\<rparr>"]]
      by (auto simp: insert_fail_def intro: no_gain_refl)
  qed
next
  case (OpCopy r src dst)
  then have "r \<in> dom (ca_cnode st)" using ok by auto
  then show ?thesis using copy_spec[OF inv, of r env src dst] OpCopy by auto
next
  case (OpMint cell r src dst rights badge modes)
  then have "r \<in> dom (ca_cnode st)" "\<And>c. cell = Some c \<Longrightarrow> \<not> valid_at st c" using ok by auto
  then show ?thesis using mint_spec[OF inv, of r cell env src dst rights badge modes] OpMint by auto
next
  case (OpRetype cell r src dst ty badge)
  then have "r \<in> dom (ca_cnode st)" "\<And>c. cell = Some c \<Longrightarrow> \<not> valid_at st c" using ok by auto
  then show ?thesis using retype_spec[OF inv, of r cell env src dst ty badge] OpRetype by auto
next
  case (OpDelete r i)
  then have "r \<in> dom (ca_cnode st)" using ok by auto
  then show ?thesis using delete_spec[OF inv, of r i] shrinks_no_gain[OF inv] OpDelete by auto
next
  case (OpRevoke r i)
  then show ?thesis using revoke_spec[OF inv, of env r i] ok by auto
next
  case (OpDestroy r)
  then have "r \<in> dom (ca_cnode st)" using ok by auto
  then show ?thesis using destroy_spec[OF inv, of r] shrinks_no_gain[OF inv] OpDestroy by auto
qed

lemma cap_start_inv: "cap_inv (cap_start au)"
  by (simp add: cap_inv_def lineage_inv_def slots_inv_def valid_at_def cap_start_def zero_identity_def CAP_IDENT_MAGIC_def
      slot_def)

lemma run_inv:
  assumes "cap_inv st" and "ops_ok ops st"
  shows "\<exists>st'. cap_run ops st = Some st' \<and> cap_inv st'"
  using assms
proof (induction ops arbitrary: st)
  case (Cons x ops)
  obtain env op where x: "x = (env, op)" by (cases x)
  obtain st1 where "cap_exec env op st = Some st1" "cap_inv st1"
    using exec_spec[OF Cons.prems(1), of op env] Cons.prems(2) x by auto
  then show ?case using Cons.IH[of st1] Cons.prems(2) x by simp
qed simp

text \<open>One identity carries no more authority than another over the same object.\<close>

definition within :: "cap_identity \<Rightarrow> cap_identity \<Rightarrow> bool" where
  "within i j \<longleftrightarrow> ci_object_ptr i = ci_object_ptr j \<and> ci_rights i AND ci_rights j = ci_rights i \<and>
     ci_allowed_modes i AND ci_allowed_modes j = ci_allowed_modes i"

lemma within_trans:
  assumes "within i j" and "within j k"
  shows "within i k"
proof -
  have "(ci_rights i AND ci_rights j) AND ci_rights k = ci_rights i AND (ci_rights j AND ci_rights k)"
    "(ci_allowed_modes i AND ci_allowed_modes j) AND ci_allowed_modes k =
      ci_allowed_modes i AND (ci_allowed_modes j AND ci_allowed_modes k)" by (simp_all only: and.assoc)
  then show ?thesis using assms by (simp add: within_def)
qed

lemma withinI: "same_auth i j \<Longrightarrow> within i j" "attenuates i j \<Longrightarrow> within i j"
  by (simp_all add: same_auth_def attenuates_def within_def)

lemma no_gain_within:
  assumes "no_gain C st st'" and "alive st' x"
  shows "\<exists>p. alive st p \<and> within (ca_ident st' x) (ca_ident st p)"
  using assms withinI unfolding no_gain_def by blast

lemma run_within:
  assumes "cap_inv st" and "ops_ok ops st" and "\<forall>(env, op)\<in>set ops. \<not> grants op" and "cap_run ops st = Some st'"
    and "alive st' x"
  shows "\<exists>p. alive st p \<and> within (ca_ident st' x) (ca_ident st p)"
  using assms
proof (induction ops arbitrary: st)
  case Nil
  then show ?case by (auto simp: within_def)
next
  case (Cons y ops)
  obtain env op where y: "y = (env, op)" by (cases y)
  obtain st1 C where st1: "cap_exec env op st = Some st1" "cap_inv st1" "no_gain C st st1"
    using exec_spec[OF Cons.prems(1), of op env] Cons.prems(2,3) y by auto
  obtain q where "alive st1 q" "within (ca_ident st' x) (ca_ident st1 q)"
    using Cons.IH[OF st1(2)] Cons.prems st1(1) y by auto
  then show ?case using no_gain_within[OF st1(3)] within_trans by blast
qed

section \<open>What lookups see\<close>

definition lookup_result :: "cap_env \<Rightarrow> nat \<Rightarrow> nat \<Rightarrow> cap_st \<Rightarrow> nat option option" where
  "lookup_result env r i st = map_option fst (cap_lookup env (Some r) i st)"

lemma lookup_result_eq:
  assumes "cap_inv st"
  shows "lookup_result env r i st = Some (if i < CNODE_SLOTS then
    (case slot st r i of None \<Rightarrow> None | Some a \<Rightarrow> if usable env st a then Some a else None) else None)"
proof -
  obtain K rank N where K: "lineage_inv st K rank N" using assms by (auto simp: cap_inv_def)
  show ?thesis using lookup_spec[OF K, of env "Some r" i] by (auto simp: lookup_result_def)
qed

lemma revoke_usable:
  assumes "no_gain {} st st'" and "\<And>x. alive st' x \<longleftrightarrow> alive st x \<and> x \<notin> D"
  shows "usable env st' x \<longleftrightarrow> usable env st x \<and> x \<notin> D"
proof -
  have "ci_allowed_modes (ca_ident st' x) = ci_allowed_modes (ca_ident st x)" if "alive st' x"
    using assms(1) that by (auto simp: no_gain_def same_auth_def)
  then show ?thesis using assms(2) by (auto simp: usable_def)
qed

section \<open>Objects released by a deletion\<close>

definition released_types :: "nat set" where
  "released_types = {cap_type_val CAP_TYPE_RAM, cap_type_val CAP_TYPE_CNODE, cap_type_val CAP_TYPE_THREAD,
     cap_type_val CAP_TYPE_ENDPOINT, cap_type_val CAP_TYPE_PCID, cap_type_val CAP_TYPE_PAGETABLE,
     cap_type_val CAP_TYPE_AUDITOR, cap_type_val CAP_TYPE_SCHED_AUTH_ROOT, cap_type_val CAP_TYPE_SCHED_AUTH_THREAD}"

lemma unlink_trace [simp]: "ca_trace (cap_unlink_from_parent a st) = ca_trace st"
  by (auto simp: cap_unlink_from_parent_def Let_def split: option.splits)

lemma free_one_trace:
  "\<exists>ys. ca_trace (free_one a st) = ca_trace st @ ys"
  "unat (ci_type (ca_ident st a)) \<in> released_types \<Longrightarrow>
     ca_trace (free_one a st) = ca_trace st @ [Kfree (ci_object_ptr (ca_ident st a)), FreeIdentity a]"
  by (auto simp: free_one_def release_object_def Let_def released_types_def)

lemma free_trace:
  assumes "cap_identity_free a st = Some st'"
  shows "\<exists>ys. ca_trace st' = ca_trace st @ ys"
  using assms
proof (induction rule: cap_identity_free.raw_induct[rotated 1, consumes 1])
  case (1 free a st st')
  obtain ys where ys: "ca_trace (free_one a st) = ca_trace st @ ys" using free_one_trace(1) by blast
  show ?case
  proof (cases "\<exists>p. free p (free_one a st) = Some st'")
    case True
    then obtain zs where "ca_trace st' = ca_trace (free_one a st) @ zs" using 1(1) by blast
    then show ?thesis using ys by simp
  next
    case False
    then show ?thesis using 1(2) ys by (auto simp: Let_def split: option.splits if_splits)
  qed
qed

lemma free_released:
  assumes "cap_identity_free a st = Some st'" and "valid_at st a" and "unat (ci_type (ca_ident st a)) \<in> released_types"
  shows "\<exists>ys. ca_trace st' = ca_trace st @ Kfree (ci_object_ptr (ca_ident st a)) # ys"
proof -
  have "\<exists>zs. ca_trace st' = ca_trace (free_one a st) @ zs"
    using assms(1,2) free_trace[of _ "free_one a st" st']
    by (auto simp: cap_identity_free.simps[of a] Let_def split: option.splits if_splits)
  then show ?thesis using free_one_trace(2)[OF assms(3)] by auto
qed

lemma delete_last_ref:
  assumes inv: "cap_inv st" and i: "i < CNODE_SLOTS" and at: "slot st r i = Some a" and only: "refs st a = {(r, i)}"
    and leaf: "ci_first_child (ca_ident st a) = None" and ty: "unat (ci_type (ca_ident st a)) \<in> released_types"
  shows "\<exists>st'. cap_delete (Some r) i st = Some st' \<and> \<not> valid_at st' a \<and>
    (\<exists>ys. ca_trace st' = ca_trace st @ Kfree (ci_object_ptr (ca_ident st a)) # ys) \<and>
    (\<forall>p. p \<noteq> a \<longrightarrow> refs st p \<noteq> {} \<longrightarrow> valid_at st' p \<and> alive st' p = alive st p \<and> refs st' p = refs st p \<and>
       same_auth (ca_ident st' p) (ca_ident st p))"
proof -
  have r: "r \<in> dom (ca_cnode st)" using at by (auto simp: slot_def split: option.splits)
  define st1 where "st1 = upd_ident a (\<lambda>x. x\<lparr>ci_ref_count := ci_ref_count x - 1\<rparr>) (set_slot r i None st)"
  define st2 where "st2 = metric (\<lambda>m. m\<lparr>cm_delete_ok := cm_delete_ok m + 1\<rparr>) st1"
  note D = drop_ref_inv[OF inv r i at, folded st1_def]
  have s: "slots_inv st" and v: "valid_at st a" using inv i at by (auto simp: cap_inv_def slots_inv_def)
  have one: "ci_ref_count (ca_ident st a) = 1" using s v only by (simp add: slots_inv_def)
  have id2: "ca_ident st2 = (ca_ident st)(a := (ca_ident st a)\<lparr>ci_ref_count := ci_ref_count (ca_ident st a) - 1\<rparr>)"
    by (simp add: st2_def st1_def set_slot_def)
  have tr: "ca_trace st2 = ca_trace st" by (simp add: st2_def st1_def set_slot_def)
  have inv2: "cap_inv st2" using inv_metric[OF D(1)] by (simp add: st2_def)
  have rf: "refs st2 x = (if x = a then {} else refs st x)" for x
    using only at by (auto simp: refs_def st2_def D(3) split: if_splits)
  have v2: "valid_at st2 x = valid_at st x" for x by (simp add: valid_at_def id2)
  obtain K rank N where K: "lineage_inv st2 K rank N" "slots_inv st2" using inv2 by (auto simp: cap_inv_def)
  obtain st' where F: "cap_identity_free a st2 = Some st'" "cap_inv st'" "survives st2 st'" "\<not> valid_at st' a"
      "\<And>x. valid_at st2 x \<Longrightarrow> \<not> valid_at st' x \<Longrightarrow> refs st2 x = {}"
    using identity_free_spec[OF K, of a] v leaf by (auto simp: v2 rf id2)
  have "cap_delete (Some r) i st = Some st'"
    using i at one leaf F(1)
    by (simp add: cap_delete_def Let_def st1_def[symmetric] st2_def[symmetric]) (simp add: st1_def set_slot_def)
  moreover have "\<exists>ys. ca_trace st' = ca_trace st @ Kfree (ci_object_ptr (ca_ident st a)) # ys"
    using free_released[OF F(1)] v ty tr by (simp add: v2 id2)
  moreover have "valid_at st' p \<and> alive st' p = alive st p \<and> refs st' p = refs st p \<and>
      same_auth (ca_ident st' p) (ca_ident st p)" if p: "p \<noteq> a" "refs st p \<noteq> {}" for p
  proof -
    have "valid_at st p" using p(2) s by (auto simp: refs_def slots_inv_def)
    then have vp: "valid_at st' p" using F(5)[of p] p rf v2 by auto
    have "alive st2 p = alive st p" using same_core_alive[of st st2] by (simp add: id2 same_core_def core_def)
    moreover have pl: "payload (ca_ident st' p) = payload (ca_ident st2 p)" using F(3) vp by (simp add: survives_def)
    moreover have "ca_cnode st' = ca_cnode st2" using F(3) by (simp add: survives_def)
    then have "refs st' p = refs st2 p" by (simp add: refs_def slot_def)
    ultimately show ?thesis
      using survives_alive[OF inv2 F(2,3) vp] vp p rf payload_fields(1-4)[OF pl] by (simp add: same_auth_def id2)
  qed
  ultimately show ?thesis using F(4) by blast
qed

section \<open>A sample run\<close>

lemma alive_walk_None [simp]: "alive_walk st c None = Some WalkAlive"
  by (simp add: alive_walk.simps)

definition sample_env :: cap_env where
  "sample_env = \<lparr>ce_mode_mask = 1, ce_audit_ctx = \<lparr>ax_tick = 0, ax_actor = None\<rparr>,
     ce_oob_null = (\<lambda>_ _. False), ce_auth = (\<lambda>_. None)\<rparr>"

definition sample_audit :: audit_st where
  "sample_audit = \<lparr>au_lattice = None, au_root_system_seed = 0, au_current_fate_seed = 0, au_last_hash = []\<rparr>"

definition sample_ops :: "(cap_env \<times> cap_op) list" where
  "sample_ops = [(sample_env, OpCnode (Some 9)), (sample_env, OpCreate (Some 2) 0x9000 3 0x1F 0 1),
     (sample_env, OpInsert 9 2 2), (sample_env, OpMint (Some 3) 9 2 4 1 7 1)]"

lemmas cap_run_eval = cnode_create_def cap_identity_create_def cap_is_valid_type_def CAP_MAX_TYPES_def
  cap_allowed_modes_valid_def cap_allowed_modes_nonzero_def CAP_MODE_VALID_MASK_def upd_ident_def zero_identity_def
  cap_insert_def valid_at_def CNODE_SLOTS_def slot_def set_slot_def CAP_IDENT_MAGIC_def metric_def cap_lookup_def
  cap_identity_is_alive_def lookup_miss_def CAP_RIGHT_GRANT_def cap_slot_is_empty_def link_child_def audit_cap_def
  insert_fail_def mint_fail_def cap_mint_def

lemma sample_ok: "ops_ok sample_ops (cap_start sample_audit)"
  by (simp add: sample_ops_def cap_start_def sample_env_def cap_run_eval Let_def)

definition sample_st :: cap_st where
  "sample_st = the (cap_run sample_ops (cap_start sample_audit))"

lemma sample_run: "cap_run sample_ops (cap_start sample_audit) = Some sample_st" and sample_inv: "cap_inv sample_st"
  using run_inv[OF cap_start_inv sample_ok] by (auto simp: sample_st_def)

lemma sample_slots:
  "ca_cnode sample_st = [9 \<mapsto> (replicate 128 None)[2 := Some 2, 4 := Some 3]]"
  by (simp add: sample_st_def sample_ops_def cap_start_def sample_env_def cap_run_eval Let_def)

lemma sample_idents:
  "ca_ident sample_st 2 = zero_identity\<lparr>ci_object_ptr := 0x9000, ci_type := 3, ci_rights := 0x1F, ci_allowed_modes := 1,
     ci_birth_epoch := 1, ci_ref_count := 1, ci_first_child := Some 3, ci_magic := CAP_IDENT_MAGIC\<rparr>"
  "ca_ident sample_st 3 = zero_identity\<lparr>ci_object_ptr := 0x9000, ci_type := 3, ci_rights := 1, ci_badge := 7,
     ci_allowed_modes := 1, ci_birth_epoch := 1, ci_parent := Some 2, ci_ref_count := 1, ci_magic := CAP_IDENT_MAGIC\<rparr>"
  "ca_epoch sample_st = 1" "\<not> valid_at sample_st 5"
  by (simp_all add: sample_st_def sample_ops_def cap_start_def sample_env_def cap_run_eval Let_def)

lemma sample_slot: "slot sample_st 9 2 = Some 2" "slot sample_st 9 4 = Some 3" "slot sample_st 9 6 = None"
    "i < CNODE_SLOTS \<Longrightarrow> slot sample_st r i = Some a \<Longrightarrow> r = 9 \<and> (i = 2 \<and> a = 2 \<or> i = 4 \<and> a = 3)"
  by (auto simp: slot_def sample_slots nth_list_update CNODE_SLOTS_def split: if_splits option.splits)

lemma sample_alive: "alive sample_st 2" "alive sample_st 3"
proof -
  obtain K rank N where K: "lineage_inv sample_st K rank N" using sample_inv by (auto simp: cap_inv_def)
  have v: "valid_at sample_st 2" "valid_at sample_st 3"
    by (simp_all add: valid_at_def sample_idents)
  show two: "alive sample_st 2" using alive_unfold[OF K v(1)] by (simp add: sample_idents zero_identity_def)
  then show "alive sample_st 3" using alive_unfold[OF K v(2)] by (simp add: sample_idents zero_identity_def)
qed

lemma sample_usable: "usable sample_env sample_st 2" "usable sample_env sample_st 3"
  by (simp_all add: usable_def sample_alive sample_idents sample_env_def cap_allowed_modes_valid_def
      cap_allowed_modes_nonzero_def CAP_MODE_VALID_MASK_def)

section \<open>Properties\<close>

text \<open>
  C5: every sequence of capability operations ends, on every branch, in a state in which each
  occupied C-Node slot holds a live allocation whose reference count is exactly the number of slots
  that hold it, the parent of an identity is an allocated identity over the same object with at least
  its rights and modes, and the walk up the lineage ends.
\<close>

theorem cap_run_integrity:
  assumes "ops_ok ops (cap_start au)"
  shows "\<exists>st. cap_run ops (cap_start au) = Some st \<and>
    (\<forall>r i a. i < CNODE_SLOTS \<longrightarrow> slot st r i = Some a \<longrightarrow>
       valid_at st a \<and> unat (ci_ref_count (ca_ident st a)) = card (refs st a)) \<and>
    (\<forall>a. valid_at st a \<longrightarrow> alive_walk st a (ci_parent (ca_ident st a)) \<noteq> None) \<and>
    (\<forall>a p. valid_at st a \<longrightarrow> ci_parent (ca_ident st a) = Some p \<longrightarrow>
       valid_at st p \<and> attenuates (ca_ident st a) (ca_ident st p))"
proof -
  obtain st where st: "cap_run ops (cap_start au) = Some st" "cap_inv st"
    using run_inv[OF cap_start_inv assms] by blast
  obtain K rank N where K: "lineage_inv st K rank N" and s: "slots_inv st" using st(2) by (auto simp: cap_inv_def)
  have "unat (ci_ref_count (ca_ident st a)) = card (refs st a)" if "valid_at st a" for a
    using s refs_bound(2)[OF s, of a] that by (simp add: slots_inv_def unat_of_nat)
  moreover have "valid_at st a" if "i < CNODE_SLOTS" "slot st r i = Some a" for r i a
    using s that by (auto simp: slots_inv_def)
  moreover have "alive_walk st a (ci_parent (ca_ident st a)) \<noteq> None" if "valid_at st a" for a
    using alive_walk_spec[OF K that] by auto
  moreover have "valid_at st p \<and> attenuates (ca_ident st a) (ca_ident st p)"
    if "valid_at st a" "ci_parent (ca_ident st a) = Some p" for a p
    using lineage_invD(3)[OF K that(1)] that(2) by simp
  ultimately show ?thesis using st(1) by blast
qed

theorem cap_run_integrity_witness:
  "\<exists>st. cap_run sample_ops (cap_start sample_audit) = Some st \<and> slot st 9 4 = Some 3 \<and> valid_at st 3 \<and>
    unat (ci_ref_count (ca_ident st 3)) = card (refs st 3)"
proof -
  have "4 < CNODE_SLOTS" by (simp add: CNODE_SLOTS_def)
  then show ?thesis using cap_run_integrity[OF sample_ok] sample_run sample_slot(2) by (metis option.inject)
qed

text \<open>
  C7: no sequence of operations that creates no root identity yields authority that was not there:
  whatever is alive afterwards is over the object of an identity that was alive before, with a subset of its rights and
  of its modes.
\<close>

theorem cap_run_no_escalation:
  assumes "cap_inv st" and "ops_ok ops st" and "list_all (\<lambda>(env, op). \<not> grants op) ops"
    and "cap_run ops st = Some st'" and "alive st' x"
  shows "\<exists>p. alive st p \<and> ci_object_ptr (ca_ident st' x) = ci_object_ptr (ca_ident st p) \<and>
    ci_rights (ca_ident st' x) AND ci_rights (ca_ident st p) = ci_rights (ca_ident st' x) \<and>
    ci_allowed_modes (ca_ident st' x) AND ci_allowed_modes (ca_ident st p) = ci_allowed_modes (ca_ident st' x)"
  using run_within[OF assms(1,2) _ assms(4,5)] assms(3) by (auto simp: within_def list_all_iff)

lemma sample_mint_ok: "mint_ok sample_env (Some 5) 9 2 6 3 1 sample_st"
  using sample_usable(1)
  by (simp add: mint_ok_def sample_slot sample_idents CNODE_SLOTS_def CAP_RIGHT_GRANT_def cap_is_valid_type_def
      CAP_MAX_TYPES_def cap_allowed_modes_valid_def cap_allowed_modes_nonzero_def CAP_MODE_VALID_MASK_def)

lemma sample_mint:
  "\<exists>st'. cap_mint sample_env (Some 5) (Some 9) 2 6 3 8 1 sample_st = Some (0, st') \<and> alive st' 5"
  using mint_spec[OF sample_inv, of 9 "Some 5" sample_env 2 6 3 8 1] sample_mint_ok
  by (auto simp: sample_slots sample_idents)

theorem cap_run_no_escalation_witness:
  "\<exists>st' p. cap_run [(sample_env, OpMint (Some 5) 9 2 6 3 8 1)] sample_st = Some st' \<and> alive st' 5 \<and> alive sample_st p \<and>
     ci_rights (ca_ident st' 5) AND ci_rights (ca_ident sample_st p) = ci_rights (ca_ident st' 5)"
proof -
  obtain st' where st': "cap_mint sample_env (Some 5) (Some 9) 2 6 3 8 1 sample_st = Some (0, st')" "alive st' 5"
    using sample_mint by blast
  let ?ops = "[(sample_env, OpMint (Some 5) 9 2 6 3 8 1)]"
  have "cap_run ?ops sample_st = Some st'" "ops_ok ?ops sample_st" using st'(1) by (simp_all add: sample_slots sample_idents)
  then show ?thesis using cap_run_no_escalation[OF sample_inv, of ?ops st' 5] st'(2) by (auto simp: grants_def)
qed

text \<open>
  C6: revoking a capability makes every lookup, from any C-Node, of it and of everything derived from it fail;
  every other lookup gives what it gave before.
\<close>

theorem cap_revoke_exact:
  assumes "cap_inv st" and "ca_epoch st + 1 \<noteq> 0" and "i < CNODE_SLOTS" and "slot st r i = Some a"
    and "lookup_result env r i st = Some (Some a)"
  shows "\<exists>st'. cap_revoke env (Some r) i st = Some st' \<and> cap_inv st' \<and>
    (\<forall>env' r' j. lookup_result env' r' j st' =
       (if \<exists>x\<in>desc st a. j < CNODE_SLOTS \<and> slot st r' j = Some x then Some None else lookup_result env' r' j st))"
proof -
  have us: "usable env st a" using lookup_result_eq[OF assms(1), of env r i] assms(3-5) by (auto split: if_splits)
  obtain st' where R: "cap_revoke env (Some r) i st = Some st'" "cap_inv st'" "no_gain {} st st'" "ca_cnode st' = ca_cnode st"
      "\<And>x. alive st' x \<longleftrightarrow> alive st x \<and> x \<notin> desc st a"
    using revoke_spec[OF assms(1,2), of env r i] assms(3,4) us by auto
  note U = revoke_usable[OF R(3,5)]
  have "slot st' = slot st" by (simp add: slot_def R(4) fun_eq_iff)
  then have "lookup_result env' r' j st' =
       (if \<exists>x\<in>desc st a. j < CNODE_SLOTS \<and> slot st r' j = Some x then Some None else lookup_result env' r' j st)" for env' r' j
    by (auto simp: lookup_result_eq[OF R(2)] lookup_result_eq[OF assms(1)] U split: option.splits)
  then show ?thesis using R(1,2) by blast
qed

theorem cap_revoke_exact_witness:
  "\<exists>st'. cap_revoke sample_env (Some 9) 2 sample_st = Some st' \<and> lookup_result sample_env 9 4 sample_st = Some (Some 3) \<and>
    lookup_result sample_env 9 4 st' = Some None \<and> lookup_result sample_env 9 2 st' = Some None"
proof -
  have "(3, 2) \<in> parent_rel sample_st" by (simp add: parent_rel_def sample_idents zero_identity_def)
  then have d: "2 \<in> desc sample_st 2" "3 \<in> desc sample_st 2" using sample_alive by (auto simp: desc_def alive_def)
  have l: "lookup_result sample_env 9 2 sample_st = Some (Some 2)" "lookup_result sample_env 9 4 sample_st = Some (Some 3)"
    by (simp_all add: lookup_result_eq[OF sample_inv] sample_slot sample_usable CNODE_SLOTS_def)
  show ?thesis
    using cap_revoke_exact[OF sample_inv _ _ sample_slot(1) l(1)] d l(2)
    by (auto simp: sample_idents sample_slot CNODE_SLOTS_def)
qed

text \<open>
  C25: minting succeeds exactly when the source slot holds a usable capability with the grant right whose rights
  include the requested ones and whose modes meet the requested ones, the destination is an empty slot in range and a
  cell is available; the child is then alive below its parent with exactly the requested
  rights and the common modes, over the parent's object, and nothing else gains authority.
\<close>

theorem cap_mint_exact:
  assumes "cap_inv st" and "ca_cnode st r \<noteq> None" and "\<not> valid_at st c"
  shows "\<exists>res st'. cap_mint env (Some c) (Some r) src dst new_rights badge modes st = Some (res, st') \<and>
    cap_inv st' \<and> no_gain {c} st st' \<and> (res = 0 \<longleftrightarrow> mint_ok env (Some c) r src dst new_rights modes st) \<and>
    (res = 0 \<longrightarrow> (\<exists>p. slot st r src = Some p \<and> slot st' r dst = Some c \<and> alive st' c \<and>
       ci_parent (ca_ident st' c) = Some p \<and> ci_rights (ca_ident st' c) = new_rights \<and>
       ci_allowed_modes (ca_ident st' c) = ci_allowed_modes (ca_ident st p) AND modes \<and>
       ci_type (ca_ident st' c) = ci_type (ca_ident st p) \<and> ci_object_ptr (ca_ident st' c) = ci_object_ptr (ca_ident st p)))"
  using mint_spec[OF assms(1), of r "Some c" env src dst new_rights badge modes] assms(2,3) by auto

theorem cap_mint_exact_witness:
  "\<exists>st'. cap_mint sample_env (Some 5) (Some 9) 2 6 3 8 1 sample_st = Some (0, st') \<and> slot st' 9 6 = Some 5 \<and>
     ci_rights (ca_ident st' 5) = 3 \<and> ci_object_ptr (ca_ident st' 5) = 0x9000"
  using cap_mint_exact[OF sample_inv, of 9 5 sample_env 2 6 3 8 1] sample_mint_ok
  by (auto simp: sample_slots sample_idents sample_slot)

text \<open>
  C26: a lookup always ends, and returns the identity in the slot exactly when the index is in
  range, neither the identity nor any of its ancestors is revoked, and the current mode is among its
  allowed modes; it leaves every C-Node and the liveness of every identity as they were.
\<close>

theorem cap_lookup_exact:
  assumes "cap_inv st"
  shows "\<exists>res st'. cap_lookup env (Some r) i st = Some (res, st') \<and>
    (\<forall>a. res = Some a \<longleftrightarrow> i < CNODE_SLOTS \<and> slot st r i = Some a \<and> usable env st a) \<and>
    ca_cnode st' = ca_cnode st \<and> (\<forall>x. alive st' x = alive st x)"
proof -
  obtain K rank N where K: "lineage_inv st K rank N" using assms by (auto simp: cap_inv_def)
  obtain st' where L: "cap_lookup env (Some r) i st = Some (if i < CNODE_SLOTS then
          (case slot st r i of None \<Rightarrow> None | Some a \<Rightarrow> if usable env st a then Some a else None) else None, st')"
      "lookup_frame st st'"
    using lookup_spec[OF K, of env "Some r" i] by auto
  then show ?thesis using lookup_alive[OF assms L(2)] by (auto simp: lookup_frame_def split: option.splits)
qed

theorem cap_lookup_exact_witness:
  "\<exists>st'. cap_lookup sample_env (Some 9) 4 sample_st = Some (Some 3, st') \<and> ca_cnode st' = ca_cnode sample_st"
  using cap_lookup_exact[OF sample_inv, of sample_env 9 4] sample_slot(2) sample_usable(2) by (auto simp: CNODE_SLOTS_def)

text \<open>
  C37: deleting the only reference to a derived capability without children passes the object it shares with its parent
  to \<open>kfree\<close>, although the parent is still held in a slot, still alive, and still names that object.
\<close>

theorem cap_delete_frees_parent_object:
  assumes "cap_inv st" and "i < CNODE_SLOTS" and "slot st r i = Some c" and "refs st c = {(r, i)}"
    and "ci_first_child (ca_ident st c) = None" and "unat (ci_type (ca_ident st c)) \<in> released_types"
    and "ci_parent (ca_ident st c) = Some p" and "alive st p" and "refs st p \<noteq> {}"
  shows "\<exists>st' ys. cap_delete (Some r) i st = Some st' \<and>
    ca_trace st' = ca_trace st @ Kfree (ci_object_ptr (ca_ident st p)) # ys \<and>
    alive st' p \<and> refs st' p = refs st p \<and> ci_object_ptr (ca_ident st' p) = ci_object_ptr (ca_ident st p)"
proof -
  obtain K rank N where K: "lineage_inv st K rank N" and s: "slots_inv st" using assms(1) by (auto simp: cap_inv_def)
  have "valid_at st c" using s assms(2,3) by (auto simp: slots_inv_def)
  then have "ci_object_ptr (ca_ident st c) = ci_object_ptr (ca_ident st p)" "p \<noteq> c"
    using lineage_invD(3)[OF K, of c] assms(7) by (auto simp: attenuates_def)
  then show ?thesis using delete_last_ref[OF assms(1-6)] assms(8,9) by (auto simp: same_auth_def)
qed

theorem cap_delete_frees_parent_object_witness:
  "\<exists>st' ys. cap_delete (Some 9) 4 sample_st = Some st' \<and> ca_trace st' = ca_trace sample_st @ Kfree 0x9000 # ys \<and>
     alive st' 2 \<and> ci_object_ptr (ca_ident st' 2) = 0x9000"
proof -
  have lt: "2 < CNODE_SLOTS" "4 < CNODE_SLOTS" by (simp_all add: CNODE_SLOTS_def)
  have sub: "(r, i) \<in> refs sample_st 3 \<Longrightarrow> r = 9 \<and> i = 4" "(r, i) \<in> refs sample_st 2 \<Longrightarrow> r = 9 \<and> i = 2" for r i
    using sample_slot(4)[of i r 3] sample_slot(4)[of i r 2] by (simp_all add: refs_def)
  have "(9, 4) \<in> refs sample_st 3" "(9, 2) \<in> refs sample_st 2" using lt sample_slot(1,2) by (simp_all add: refs_def)
  moreover have "refs sample_st 3 \<subseteq> {(9, 4)}" by (rule subrelI) (drule sub(1), simp)
  moreover have "refs sample_st 2 \<subseteq> {(9, 2)}" by (rule subrelI) (drule sub(2), simp)
  ultimately have rf: "refs sample_st 3 = {(9, 4)}" "refs sample_st 2 = {(9, 2)}" by blast+
  have "4 < CNODE_SLOTS" by (simp add: CNODE_SLOTS_def)
  from cap_delete_frees_parent_object[OF sample_inv this sample_slot(2) rf(1), of 2] show ?thesis
    using sample_alive(1) rf(2) by (auto simp: sample_idents zero_identity_def released_types_def)
qed

end
