(* ===== verification/Pmm_Buddy.thy ===== *)
theory Pmm_Buddy
  imports Pmm
begin

text \<open>
  The invariant of the buddy allocator of \<^verbatim>\<open>src/kernel/pmm.c\<close>, on the functional
  view of the ledger: list heads, link and flag of each frame, and the set of frames whose bitmap
  bit is clear.  The chains are abstracted to the lists \<open>L zone order\<close>; \<open>H\<close> is the
  set of free frames that an operation holds in its hands between two list updates.
\<close>

section \<open>Chains and blocks\<close>

type_synonym buddy_lists = "pmm_zone_t \<Rightarrow> nat \<Rightarrow> nat list"

fun chain :: "(nat \<Rightarrow> u32) \<Rightarrow> u32 \<Rightarrow> nat list \<Rightarrow> bool" where
  "chain nx h [] \<longleftrightarrow> h = PMM_STACK_END"
| "chain nx h (i # is) \<longleftrightarrow> h = word_of_nat i \<and> chain nx (nx i) is"

definition block_frames :: "nat \<Rightarrow> nat \<Rightarrow> nat set" where
  "block_frames ord i = {i ..< i + 2 ^ ord}"

definition frame_zone :: "nat \<Rightarrow> pmm_zone_t" where
  "frame_zone i = pmm_zone_from_phys (i * PAGE_SIZE)"

definition head_flag :: "nat \<Rightarrow> u8" where
  "head_flag ord = PMM_BUDDY_FLAG_HEAD OR (word_of_nat ord AND PMM_BUDDY_FLAG_ORDER)"

definition block_ok :: "nat \<Rightarrow> pmm_zone_t \<Rightarrow> nat \<Rightarrow> nat \<Rightarrow> bool" where
  "block_ok T z ord i \<longleftrightarrow>
     ord \<le> PMM_BUDDY_MAX_ORDER \<and> 2 ^ ord dvd i \<and> i + 2 ^ ord \<le> T \<and> frame_zone i = z"

definition lists_frames :: "buddy_lists \<Rightarrow> nat set" where
  "lists_frames L = (\<Union>z. \<Union>ord. \<Union>i\<in>set (L z ord). block_frames ord i)"

definition lists_disjoint :: "buddy_lists \<Rightarrow> bool" where
  "lists_disjoint L \<longleftrightarrow>
     (\<forall>z ord i z' ord' i'. i \<in> set (L z ord) \<longrightarrow> i' \<in> set (L z' ord') \<longrightarrow>
        (z, ord, i) \<noteq> (z', ord', i') \<longrightarrow> block_frames ord i \<inter> block_frames ord' i' = {})"

definition buddy_inv ::
    "nat \<Rightarrow> (pmm_zone_t \<Rightarrow> nat \<Rightarrow> u32) \<Rightarrow> (nat \<Rightarrow> u32) \<Rightarrow> (nat \<Rightarrow> u8) \<Rightarrow> nat set
      \<Rightarrow> buddy_lists \<Rightarrow> nat set \<Rightarrow> bool" where
  "buddy_inv T hds nx fl F L H \<longleftrightarrow>
     T < 2 ^ 32 - 1 \<and>
     (\<forall>z ord. chain nx (hds z ord) (L z ord)) \<and>
     (\<forall>z ord. distinct (L z ord)) \<and>
     (\<forall>z ord. \<forall>i\<in>set (L z ord). block_ok T z ord i \<and> fl i = head_flag ord) \<and>
     lists_disjoint L \<and> lists_frames L \<inter> H = {} \<and> F = lists_frames L \<union> H"

definition set_list :: "buddy_lists \<Rightarrow> pmm_zone_t \<Rightarrow> nat \<Rightarrow> nat list \<Rightarrow> buddy_lists" where
  "set_list L z ord xs = L(z := (L z)(ord := xs))"

lemma set_list_apply [simp]:
  "set_list L z ord xs z' ord' = (if z' = z \<and> ord' = ord then xs else L z' ord')"
  by (simp add: set_list_def)

lemma set_list_same [simp]: "set_list L z ord (L z ord) = L"
  by (auto simp: fun_eq_iff)

lemma head_in_block [simp]: "i \<in> block_frames ord i"
  by (simp add: block_frames_def)

lemma block_frames_nonempty [simp]: "block_frames ord i \<noteq> {}"
  using head_in_block by blast

lemma finite_block_frames [simp]: "finite (block_frames ord i)"
  by (simp add: block_frames_def)

lemma card_block_frames [simp]: "card (block_frames ord i) = 2 ^ ord"
  by (simp add: block_frames_def)

lemma block_split:
  "block_frames (Suc ord) i = block_frames ord i \<union> block_frames ord (i + 2 ^ ord)"
  "block_frames ord i \<inter> block_frames ord (i + 2 ^ ord) = {}"
  by (auto simp: block_frames_def)

lemma chain_upd: "i \<notin> set xs \<Longrightarrow> chain (nx(i := v)) h xs = chain nx h xs"
  by (induction xs arbitrary: h) auto

lemma stack_end_neq:
  assumes "i < 2 ^ 32 - 1"
  shows "word_of_nat i \<noteq> PMM_STACK_END" and "unat (word_of_nat i :: u32) = i"
proof -
  show u: "unat (word_of_nat i :: u32) = i"
    using assms by (simp add: unat_of_nat)
  have "unat PMM_STACK_END = 2 ^ 32 - 1"
    by (simp add: PMM_STACK_END_def)
  then show "word_of_nat i \<noteq> PMM_STACK_END"
    using u assms by (metis less_irrefl)
qed

lemma buddy_invD:
  assumes "buddy_inv T hds nx fl F L H"
  shows "T < 2 ^ 32 - 1" and "chain nx (hds z ord) (L z ord)" and "distinct (L z ord)"
    and "i \<in> set (L z ord) \<Longrightarrow> block_ok T z ord i" and "i \<in> set (L z ord) \<Longrightarrow> fl i = head_flag ord"
    and "lists_disjoint L" and "lists_frames L \<inter> H = {}" and "F = lists_frames L \<union> H"
  using assms by (auto simp: buddy_inv_def)

lemma in_lists_frames: "i \<in> set (L z ord) \<Longrightarrow> f \<in> block_frames ord i \<Longrightarrow> f \<in> lists_frames L"
  by (auto simp: lists_frames_def)

lemma block_disjoint_lists:
  assumes "block_frames ord i \<inter> lists_frames L = {}" and "i' \<in> set (L z' ord')"
  shows "i' \<noteq> i" and "block_frames ord i \<inter> block_frames ord' i' = {}"
proof -
  show *: "block_frames ord i \<inter> block_frames ord' i' = {}"
    using assms in_lists_frames by blast
  show "i' \<noteq> i" using * head_in_block by blast
qed

lemma lists_frames_cons:
  "lists_frames (set_list L z ord (i # L z ord)) = lists_frames L \<union> block_frames ord i"
  by (fastforce simp: lists_frames_def split: if_splits)

lemma lists_disjoint_cons:
  assumes "lists_disjoint L" and "block_frames ord i \<inter> lists_frames L = {}"
  shows "lists_disjoint (set_list L z ord (i # L z ord))"
  using assms block_disjoint_lists(2)[OF assms(2)]
  unfolding lists_disjoint_def
  by (auto split: if_splits) (blast | metis Int_commute)+

section \<open>Abstract list operations\<close>

lemma abs_push:
  assumes I: "buddy_inv T hds nx fl F L H" and ok: "block_ok T z ord i"
    and sub: "block_frames ord i \<subseteq> H"
  shows "buddy_inv T (hds(z := (hds z)(ord := word_of_nat i))) (nx(i := hds z ord))
           (fl(i := head_flag ord)) F (set_list L z ord (i # L z ord)) (H - block_frames ord i)"
proof -
  note D = buddy_invD[OF I]
  have dj: "block_frames ord i \<inter> lists_frames L = {}" using D(7) sub by blast
  have ni: "i \<notin> set (L z' ord')" for z' ord'
    using block_disjoint_lists(1)[OF dj] by blast
  have "lists_disjoint (set_list L z ord (i # L z ord))"
    by (rule lists_disjoint_cons[OF D(6) dj])
  moreover have "F = lists_frames L \<union> block_frames ord i \<union> (H - block_frames ord i)"
    using D(8) sub by blast
  ultimately show ?thesis
    using D(1-5,7) ni ok
    by (auto simp: buddy_inv_def lists_frames_cons chain_upd)
qed

lemma lists_frames_uncons:
  assumes "lists_disjoint L" and "distinct (L z ord)" and "i \<in> set (L z ord)"
  shows "lists_frames (set_list L z ord (remove1 i (L z ord))) = lists_frames L - block_frames ord i"
    (is "lists_frames ?L' = _")
proof -
  have mem: "j \<in> set (?L' z' ord') \<longleftrightarrow> j \<in> set (L z' ord') \<and> (z', ord', j) \<noteq> (z, ord, i)"
    for j z' ord' using assms(2) by auto
  have "f \<notin> block_frames ord i" if "j \<in> set (?L' z' ord')" and "f \<in> block_frames ord' j" for j z' ord' f
    using that assms(1,3) mem[of j z' ord'] unfolding lists_disjoint_def by blast
  then show ?thesis
    using mem assms(3) unfolding lists_frames_def by (auto simp del: set_list_apply) blast+
qed

lemma remove1_list_subset:
  "j \<in> set (set_list L z ord (remove1 i (L z ord)) z' ord') \<Longrightarrow> j \<in> set (L z' ord')"
  using set_remove1_subset[of i "L z ord"] by (auto split: if_splits)

lemma lists_disjoint_remove1:
  "lists_disjoint L \<Longrightarrow> lists_disjoint (set_list L z ord (remove1 i (L z ord)))"
  using remove1_list_subset unfolding lists_disjoint_def by metis

lemma abs_take:
  assumes I: "buddy_inv T hds nx fl F L H" and mem: "i \<in> set (L z ord)"
    and ch: "\<And>z' ord'. chain nx' (hds' z' ord') (set_list L z ord (remove1 i (L z ord)) z' ord')"
    and fl': "\<And>j. j \<noteq> i \<Longrightarrow> fl' j = fl j"
  shows "buddy_inv T hds' nx' fl' F (set_list L z ord (remove1 i (L z ord))) (H \<union> block_frames ord i)"
proof -
  note D = buddy_invD[OF I]
  let ?L' = "set_list L z ord (remove1 i (L z ord))"
  have fr: "lists_frames ?L' = lists_frames L - block_frames ord i"
    by (rule lists_frames_uncons[OF D(6) D(3) mem])
  have sub: "block_frames ord i \<subseteq> lists_frames L" using mem in_lists_frames by blast
  note mem' = remove1_list_subset[of _ L z ord i]
  have ne: "j \<noteq> i" if "j \<in> set (?L' z' ord')" for j z' ord'
    using fr that in_lists_frames[of j ?L'] by (metis DiffE head_in_block)
  show ?thesis
    unfolding buddy_inv_def
  proof (intro conjI allI ballI)
    show "distinct (?L' z' ord')" for z' ord' using D(3) by simp
    show "block_ok T z' ord' j" if "j \<in> set (?L' z' ord')" for z' ord' j
      using D(4) mem'[OF that] by blast
    show "fl' j = head_flag ord'" if "j \<in> set (?L' z' ord')" for z' ord' j
      using D(5) mem'[OF that] fl' ne[OF that] by metis
    show "lists_disjoint ?L'" by (rule lists_disjoint_remove1[OF D(6)])
    show "lists_frames ?L' \<inter> (H \<union> block_frames ord i) = {}" using fr D(7) by blast
    show "F = lists_frames ?L' \<union> (H \<union> block_frames ord i)" using fr D(8) sub by blast
  qed (use D(1) ch in auto)
qed

section \<open>The functional view of the ledger\<close>

definition nx_of :: "pmm_st \<Rightarrow> nat \<Rightarrow> u32" where
  "nx_of st i = fm_next_free_idx (pm_metadata st ! i)"

definition fl_of :: "pmm_st \<Rightarrow> nat \<Rightarrow> u8" where
  "fl_of st i = fm_flags (pm_metadata st ! i)"

definition free_set :: "pmm_st \<Rightarrow> nat set" where
  "free_set st = {f. f < pm_total_frames st \<and> \<not> bitmap_test (pm_bitmap st) f}"

definition ledger_wf :: "pmm_st \<Rightarrow> bool" where
  "ledger_wf st \<longleftrightarrow> length (pm_metadata st) = pm_total_frames st
     \<and> length (pm_bitmap st) = (pm_total_frames st + 7) div 8"

definition lists_inv :: "pmm_st \<Rightarrow> buddy_lists \<Rightarrow> nat set \<Rightarrow> bool" where
  "lists_inv st L H \<longleftrightarrow> ledger_wf st \<and>
     buddy_inv (pm_total_frames st) (pm_heads st) (nx_of st) (fl_of st) (free_set st) L H"

lemma finite_free_set [simp]: "finite (free_set st)"
  by (rule finite_subset[of _ "{..<pm_total_frames st}"]) (auto simp: free_set_def)

lemma bitmap_bit:
  fixes w :: u8
  shows "w AND push_bit n 1 \<noteq> 0 \<longleftrightarrow> bit w n"
  by (metis and.commute and_zero_eq bit_iff_and_push_bit_not_eq_0)

lemma bitmap_test_iff: "bitmap_test bm f = bit (bm ! (f div 8)) (f mod 8)"
  unfolding bitmap_test_def by (rule bitmap_bit)

lemma div_mod_eq8: "(f div 8 = g div 8 \<and> f mod 8 = g mod 8) = (f = (g :: nat))"
  by (metis div_mult_mod_eq)

lemma bitmap_test_set:
  assumes "f div 8 < length bm"
  shows "bitmap_test (bitmap_set f bm) g \<longleftrightarrow> g = f \<or> bitmap_test bm g"
proof (cases "g div 8 = f div 8")
  case True
  then have "g = f \<longleftrightarrow> g mod 8 = f mod 8" using div_mod_eq8[of g f] by blast
  with True assms show ?thesis
    by (auto simp: bitmap_test_iff bitmap_set_def bit_or_iff bit_exp_iff)
next
  case False
  then show ?thesis by (auto simp: bitmap_test_iff bitmap_set_def)
qed

lemma bitmap_test_clear:
  assumes "f div 8 < length bm"
  shows "bitmap_test (bitmap_clear f bm) g \<longleftrightarrow> g \<noteq> f \<and> bitmap_test bm g"
proof (cases "g div 8 = f div 8")
  case True
  then have "g = f \<longleftrightarrow> g mod 8 = f mod 8" using div_mod_eq8[of g f] by blast
  with True assms show ?thesis
    by (auto simp: bitmap_test_iff bitmap_clear_def bit_and_iff bit_not_iff bit_exp_iff)
next
  case False
  then show ?thesis by (auto simp: bitmap_test_iff bitmap_clear_def)
qed

lemma length_bitmap_ops [simp]:
  "length (bitmap_set f bm) = length bm" "length (bitmap_clear f bm) = length bm"
  by (simp_all add: bitmap_set_def bitmap_clear_def)

text \<open>Writes to metadata and heads touch nothing else.\<close>

lemma md_update_sel [simp]:
  "pm_bitmap (md_update f g st) = pm_bitmap st"
  "pm_total_frames (md_update f g st) = pm_total_frames st"
  "pm_free_frames (md_update f g st) = pm_free_frames st"
  "pm_heads (md_update f g st) = pm_heads st"
  "pm_mem (md_update f g st) = pm_mem st"
  "length (pm_metadata (md_update f g st)) = length (pm_metadata st)"
  by (simp_all add: md_update_def)

lemma set_head_sel [simp]:
  "pm_bitmap (set_head z ord h st) = pm_bitmap st"
  "pm_total_frames (set_head z ord h st) = pm_total_frames st"
  "pm_free_frames (set_head z ord h st) = pm_free_frames st"
  "pm_heads (set_head z ord h st) = (pm_heads st)(z := (pm_heads st z)(ord := h))"
  "pm_mem (set_head z ord h st) = pm_mem st"
  "pm_metadata (set_head z ord h st) = pm_metadata st"
  by (simp_all add: set_head_def)

lemma md_update_nth:
  "f < length (pm_metadata st) \<Longrightarrow> pm_metadata (md_update f g st) ! i =
     (if i = f then g (pm_metadata st ! f) else pm_metadata st ! i)"
  by (simp add: md_update_def nth_list_update)

lemma ledger_wf_md_update [simp]: "ledger_wf (md_update f g st) = ledger_wf st"
  by (simp add: ledger_wf_def)

lemma ledger_wf_set_head [simp]: "ledger_wf (set_head z ord h st) = ledger_wf st"
  by (simp add: ledger_wf_def)

lemma free_set_md_update [simp]: "free_set (md_update f g st) = free_set st"
  by (simp add: free_set_def)

lemma free_set_set_head [simp]: "free_set (set_head z ord h st) = free_set st"
  by (simp add: free_set_def)

lemma nx_fl_set_head [simp]:
  "nx_of (set_head z ord h st) = nx_of st" "fl_of (set_head z ord h st) = fl_of st"
  by (simp_all add: nx_of_def fl_of_def fun_eq_iff)

lemma nx_fl_md_update:
  assumes "ledger_wf st" "f < pm_total_frames st"
  shows "nx_of (md_update f g st) = (nx_of st)(f := fm_next_free_idx (g (pm_metadata st ! f)))"
    and "fl_of (md_update f g st) = (fl_of st)(f := fm_flags (g (pm_metadata st ! f)))"
  using assms by (auto simp: nx_of_def fl_of_def fun_eq_iff md_update_nth ledger_wf_def)

lemma set_frame_bitmap_sel [simp]:
  "pm_total_frames (set_frame_bitmap b f st) = pm_total_frames st"
  "pm_free_frames (set_frame_bitmap b f st) = pm_free_frames st"
  "pm_heads (set_frame_bitmap b f st) = pm_heads st"
  "pm_mem (set_frame_bitmap b f st) = pm_mem st"
  "length (pm_metadata (set_frame_bitmap b f st)) = length (pm_metadata st)"
  "length (pm_bitmap (set_frame_bitmap b f st)) = length (pm_bitmap st)"
  by (simp_all add: set_frame_bitmap_def)

lemma set_frame_bitmap_view:
  assumes "ledger_wf st" "f < pm_total_frames st"
  shows "ledger_wf (set_frame_bitmap b f st)"
    and "nx_of (set_frame_bitmap b f st) = nx_of st"
    and "fl_of (set_frame_bitmap b f st) = fl_of st"
    and "free_set (set_frame_bitmap b f st) = (if b then free_set st - {f} else insert f (free_set st))"
proof -
  have f8: "f div 8 < length (pm_bitmap st)" and fm: "f < length (pm_metadata st)"
    using assms by (auto simp: ledger_wf_def)
  show "ledger_wf (set_frame_bitmap b f st)"
    using assms by (simp add: ledger_wf_def)
  show "nx_of (set_frame_bitmap b f st) = nx_of st" "fl_of (set_frame_bitmap b f st) = fl_of st"
    using fm by (auto simp: nx_of_def fl_of_def fun_eq_iff set_frame_bitmap_def md_update_nth)
  show "free_set (set_frame_bitmap b f st) = (if b then free_set st - {f} else insert f (free_set st))"
    using f8 assms(2)
    by (auto simp: free_set_def set_frame_bitmap_def bitmap_test_set bitmap_test_clear)
qed

lemma set_block_bitmap_sel [simp]:
  "pm_total_frames (pmm_set_block_bitmap i ord b st) = pm_total_frames st"
  "pm_free_frames (pmm_set_block_bitmap i ord b st) = pm_free_frames st"
  "pm_heads (pmm_set_block_bitmap i ord b st) = pm_heads st"
  "pm_mem (pmm_set_block_bitmap i ord b st) = pm_mem st"
  unfolding pmm_set_block_bitmap_def by (simp_all add: fold_same_field)

lemma fold_set_frame_bitmap_view:
  assumes "ledger_wf st" "\<forall>f\<in>set fs. f < pm_total_frames st"
  shows "ledger_wf (fold (set_frame_bitmap b) fs st)
    \<and> nx_of (fold (set_frame_bitmap b) fs st) = nx_of st
    \<and> fl_of (fold (set_frame_bitmap b) fs st) = fl_of st
    \<and> free_set (fold (set_frame_bitmap b) fs st)
        = (if b then free_set st - set fs else free_set st \<union> set fs)"
  using assms
  by (induction fs arbitrary: st) (auto simp: set_frame_bitmap_view)

lemma set_block_bitmap_view:
  assumes "ledger_wf st" "i + 2 ^ ord \<le> pm_total_frames st"
  shows "ledger_wf (pmm_set_block_bitmap i ord b st)"
    and "nx_of (pmm_set_block_bitmap i ord b st) = nx_of st"
    and "fl_of (pmm_set_block_bitmap i ord b st) = fl_of st"
    and "free_set (pmm_set_block_bitmap i ord b st)
           = (if b then free_set st - block_frames ord i else free_set st \<union> block_frames ord i)"
  using fold_set_frame_bitmap_view[of st "[i..<i + 2 ^ ord]" b] assms
  by (auto simp: pmm_set_block_bitmap_def pmm_block_pages_def block_frames_def)

section \<open>Buddy arithmetic\<close>

lemma xor_pow2:
  fixes i :: nat
  shows "i XOR 2 ^ n = (if bit i n then i - 2 ^ n else i + 2 ^ n)"
proof (cases "bit i n")
  case True
  have "i XOR 2 ^ n = unset_bit n i"
    using True flip_bit_eq_xor[of n i] flip_bit_eq_if[of n i] by simp
  moreover have "set_bit n (unset_bit n i) = i"
    using True by (intro bit_eqI) (auto simp: bit_simps)
  moreover have "set_bit n (unset_bit n i) = unset_bit n i + 2 ^ n"
    by (simp add: set_bit_eq bit_simps)
  ultimately show ?thesis using True by simp
next
  case False
  then show ?thesis using flip_bit_eq_xor[of n i] flip_bit_eq_if[of n i] by (simp add: set_bit_eq)
qed

lemma aligned_bit_dvd:
  fixes i :: nat
  assumes "2 ^ n dvd i"
  shows "bit i n \<longleftrightarrow> \<not> 2 ^ Suc n dvd i"
proof -
  obtain q where "i = 2 ^ n * q" using assms ..
  then have "bit i n \<longleftrightarrow> odd q" by (simp add: bit_iff_odd)
  moreover have "2 ^ Suc n dvd i \<longleftrightarrow> even q" using \<open>i = _\<close> by simp
  ultimately show ?thesis by simp
qed

lemma buddy_cases:
  fixes i :: nat
  assumes "2 ^ n dvd i"
  obtains (lower) "i XOR 2 ^ n = i + 2 ^ n" "2 ^ Suc n dvd i"
    | (upper) j where "i = j + 2 ^ n" "i XOR 2 ^ n = j" "2 ^ Suc n dvd j"
proof (cases "bit i n")
  case False
  then show ?thesis using assms lower aligned_bit_dvd xor_pow2 by metis
next
  case True
  obtain q where q: "i = 2 ^ n * q" using assms ..
  then have "odd q" using True by (simp add: bit_iff_odd)
  then obtain k where "q = 2 * k + 1" by (elim oddE)
  then have "i = 2 ^ Suc n * k + 2 ^ n" using q by (simp add: algebra_simps)
  moreover have "i XOR 2 ^ n = i - 2 ^ n" using True xor_pow2 by simp
  ultimately show ?thesis by (intro upper[of "2 ^ Suc n * k"]) auto
qed

lemma frame_zone_cases:
  "frame_zone i = (if i < 4096 then PMM_ZONE_DMA else if i < 1048576 then PMM_ZONE_NORMAL
     else PMM_ZONE_HIGH)"
  by (auto simp: frame_zone_def pmm_zone_from_phys_def pmm_consts)

lemma aligned_same_side:
  fixes i c :: nat
  assumes "2 ^ n dvd i" and "2 ^ n dvd c" and "i < c"
  shows "i + 2 ^ n \<le> c"
  using assms by (metis add.commute dvd_imp_le dvd_minus_self le_diff_conv2 less_imp_le nat_neq_iff
    zero_less_diff dvd_diff_nat)

lemma pow2_dvd_boundary:
  assumes "n \<le> 10"
  shows "(2::nat) ^ n dvd 4096" and "(2::nat) ^ n dvd 1048576"
proof -
  have "(2::nat) ^ n dvd 2 ^ 12" by (rule le_imp_power_dvd) (use assms in simp)
  moreover have "(2::nat) ^ n dvd 2 ^ 20" by (rule le_imp_power_dvd) (use assms in simp)
  ultimately show "(2::nat) ^ n dvd 4096" "(2::nat) ^ n dvd 1048576" by simp_all
qed

lemma frame_zone_block:
  assumes "2 ^ n dvd i" and "n \<le> 10" and "f \<in> block_frames n i"
  shows "frame_zone f = frame_zone i"
  using aligned_same_side[OF assms(1) pow2_dvd_boundary(1)[OF assms(2)]]
    aligned_same_side[OF assms(1) pow2_dvd_boundary(2)[OF assms(2)]] assms(3)
  by (auto simp: frame_zone_cases block_frames_def)

lemma block_ok_fits:
  assumes "block_ok (pm_total_frames st) z n i"
  shows "pmm_block_fits_zone st i n z"
  using assms aligned_same_side[OF _ pow2_dvd_boundary(1)[of n], of i]
    aligned_same_side[OF _ pow2_dvd_boundary(2)[of n], of i]
  by (auto simp: block_ok_def frame_zone_cases pmm_block_fits_zone_def pmm_zone_limit_frame_def
      pmm_consts pmm_block_pages_def Let_def split: if_splits)

lemma block_ok_lower:
  assumes "block_ok T z (Suc n) i"
  shows "block_ok T z n i" and "block_ok T z n (i + 2 ^ n)"
proof -
  have n: "Suc n \<le> 10" and d: "2 ^ Suc n dvd i" using assms by (auto simp: block_ok_def pmm_consts)
  have d': "2 ^ n dvd i" using d by (auto elim: dvd_mult_right)
  have "frame_zone (i + 2 ^ n) = frame_zone i"
    by (rule frame_zone_block[OF d n]) (simp add: block_frames_def)
  then show "block_ok T z n i" and "block_ok T z n (i + 2 ^ n)"
    using assms d' by (auto simp: block_ok_def)
qed

lemma block_ok_merge:
  assumes "block_ok T z n i" and "i + 2 ^ n + 2 ^ n \<le> T" and "2 ^ Suc n dvd i" and "n < 10"
  shows "block_ok T z (Suc n) i"
  using assms by (auto simp: block_ok_def pmm_consts)

lemma head_flag_decode:
  assumes "n \<le> 10"
  shows "head_flag n AND PMM_BUDDY_FLAG_HEAD \<noteq> 0"
    and "head_flag n AND PMM_BUDDY_FLAG_ORDER = word_of_nat n AND PMM_BUDDY_FLAG_ORDER"
proof -
  have "n \<in> {0, 1, 2, 3, 4, 5, 6, 7, 8, 9, 10}" using assms by (simp; arith)
  then show "head_flag n AND PMM_BUDDY_FLAG_HEAD \<noteq> 0"
    and "head_flag n AND PMM_BUDDY_FLAG_ORDER = word_of_nat n AND PMM_BUDDY_FLAG_ORDER"
    by (auto simp: head_flag_def PMM_BUDDY_FLAG_HEAD_def PMM_BUDDY_FLAG_ORDER_def)
qed

section \<open>The list operations of the source\<close>

definition own_of :: "pmm_st \<Rightarrow> nat \<Rightarrow> u64 \<times> security_color_t \<times> u8" where
  "own_of st i = (fm_owner_token (pm_metadata st ! i), fm_color (pm_metadata st ! i),
     fm_epoch (pm_metadata st ! i))"

text \<open>What the buddy layer never touches: sizes, the free counter, memory contents, ownership.\<close>

definition same_rest :: "pmm_st \<Rightarrow> pmm_st \<Rightarrow> bool" where
  "same_rest st st' \<longleftrightarrow> pm_total_frames st' = pm_total_frames st \<and> pm_free_frames st' = pm_free_frames st
     \<and> pm_mem st' = pm_mem st \<and> own_of st' = own_of st
     \<and> length (pm_metadata st') = length (pm_metadata st)
     \<and> length (pm_bitmap st') = length (pm_bitmap st)"

lemma same_rest_refl [simp]: "same_rest st st"
  by (simp add: same_rest_def)

lemma same_rest_trans: "same_rest st st' \<Longrightarrow> same_rest st' st'' \<Longrightarrow> same_rest st st''"
  by (simp add: same_rest_def)

lemma own_of_md_update:
  assumes "\<And>m. fm_owner_token (g m) = fm_owner_token m" "\<And>m. fm_color (g m) = fm_color m"
    "\<And>m. fm_epoch (g m) = fm_epoch m"
  shows "own_of (md_update f g st) = own_of st"
  using assms
  by (cases "f < length (pm_metadata st)") (auto simp: own_of_def fun_eq_iff md_update_def nth_list_update list_update_beyond)

lemma same_rest_md_update:
  assumes "\<And>m. fm_owner_token (g m) = fm_owner_token m" "\<And>m. fm_color (g m) = fm_color m"
    "\<And>m. fm_epoch (g m) = fm_epoch m"
  shows "same_rest st (md_update f g st)"
  using own_of_md_update[of g f st] assms by (simp add: same_rest_def)

lemma same_rest_set_head: "same_rest st (set_head z ord h st)"
  by (simp add: same_rest_def own_of_def fun_eq_iff)

lemma same_rest_set_frame_bitmap: "same_rest st (set_frame_bitmap b f st)"
  using own_of_md_update[of "fm_state_update (\<lambda>_. 0)" f "st\<lparr>pm_bitmap := bitmap_set f (pm_bitmap st)\<rparr>"]
    own_of_md_update[of "fm_state_update (\<lambda>_. FRAME_STATE_FREE)" f "st\<lparr>pm_bitmap := bitmap_clear f (pm_bitmap st)\<rparr>"]
  by (auto simp: same_rest_def set_frame_bitmap_def own_of_def fun_eq_iff)

lemma same_rest_set_block_bitmap: "same_rest st (pmm_set_block_bitmap i ord b st)"
  unfolding pmm_set_block_bitmap_def
  by (rule fold_invariant[where P = "same_rest st"])
     (auto intro: same_rest_trans same_rest_set_frame_bitmap)

lemma same_rest_push: "same_rest st (pmm_buddy_push z ord i st)"
  unfolding pmm_buddy_push_def
  by (rule same_rest_trans[OF same_rest_md_update same_rest_set_head]) simp_all

lemma push_inv:
  assumes I: "lists_inv st L H" and ok: "block_ok (pm_total_frames st) z ord i"
    and sub: "block_frames ord i \<subseteq> H"
  shows "lists_inv (pmm_buddy_push z ord i st) (set_list L z ord (i # L z ord)) (H - block_frames ord i)"
proof -
  have wf: "ledger_wf st" using I by (simp add: lists_inv_def)
  have i: "i < pm_total_frames st" using ok
    by (auto simp: block_ok_def intro: less_le_trans[of i "i + 2 ^ ord"])
  show ?thesis
    using abs_push[OF _ ok sub] I
    by (simp add: lists_inv_def pmm_buddy_push_def nx_fl_md_update[OF wf i] head_flag_def)
qed

lemma pop_empty:
  assumes "lists_inv st L H" and "L z ord = []"
  shows "pmm_buddy_pop z ord st = (PMM_STACK_END, st)"
proof -
  have "chain (nx_of st) (pm_heads st z ord) (L z ord)"
    using assms(1) buddy_invD(2) unfolding lists_inv_def by blast
  then show ?thesis using assms(2) by (simp add: pmm_buddy_pop_def)
qed

lemma list_member_bound:
  assumes "lists_inv st L H" and "i \<in> set (L z ord)"
  shows "i < pm_total_frames st" and "i < 2 ^ 32 - 1"
proof -
  have I: "buddy_inv (pm_total_frames st) (pm_heads st) (nx_of st) (fl_of st) (free_set st) L H"
    using assms by (simp add: lists_inv_def)
  show "i < pm_total_frames st"
    using buddy_invD(4)[OF I assms(2)] by (auto simp: block_ok_def intro: less_le_trans[of i "i + 2 ^ ord"])
  then show "i < 2 ^ 32 - 1" using buddy_invD(1)[OF I] by linarith
qed

lemma pop_inv:
  assumes I: "lists_inv st L H" and L: "L z ord = i # xs"
  obtains st' where "pmm_buddy_pop z ord st = (word_of_nat i, st')"
    and "lists_inv st' (set_list L z ord xs) (H \<union> block_frames ord i)"
    and "same_rest st st'"
proof -
  have wf: "ledger_wf st" and B: "buddy_inv (pm_total_frames st) (pm_heads st) (nx_of st)
      (fl_of st) (free_set st) L H"
    using I by (auto simp: lists_inv_def)
  have mem: "i \<in> set (L z ord)" using L by simp
  note bnd = list_member_bound[OF I mem] and D = buddy_invD[OF B]
  have hd: "pm_heads st z ord = word_of_nat i" and ch: "chain (nx_of st) (nx_of st i) xs"
    using D(2)[of z ord] L by auto
  have neq: "word_of_nat i \<noteq> PMM_STACK_END" and un: "unat (word_of_nat i :: u32) = i"
    using stack_end_neq[OF bnd(2)] by auto
  let ?st1 = "set_head z ord (nx_of st i) st"
  let ?st' = "md_update i (\<lambda>m. m\<lparr>fm_next_free_idx := PMM_STACK_END\<rparr>) ?st1"
  have rem: "remove1 i (L z ord) = xs" using L by simp
  have nin: "i \<notin> set (set_list L z ord xs z' ord')" for z' ord'
  proof -
    have "lists_frames (set_list L z ord xs) = lists_frames L - block_frames ord i"
      using lists_frames_uncons[OF D(6) D(3) mem] rem by simp
    then show ?thesis using in_lists_frames by (metis DiffE head_in_block)
  qed
  have fl: "fl_of ?st' = fl_of st"
    using nx_fl_md_update(2)[of ?st1 i] wf bnd(1) by (auto simp: fl_of_def fun_eq_iff)
  have nx: "nx_of ?st' = (nx_of st)(i := PMM_STACK_END)"
    using nx_fl_md_update(1)[of ?st1 i] wf bnd(1) by simp
  have "chain ((nx_of st)(i := PMM_STACK_END)) (pm_heads ?st' z' ord') (set_list L z ord xs z' ord')"
    for z' ord' using ch D(2)[of z' ord'] nin[of z' ord'] by (auto simp: chain_upd)
  then have "lists_inv ?st' (set_list L z ord xs) (H \<union> block_frames ord i)"
    using abs_take[OF B mem, of "nx_of ?st'" "pm_heads ?st'" "fl_of ?st'"] wf
    by (simp add: lists_inv_def rem fl nx)
  moreover have "pmm_buddy_pop z ord st = (word_of_nat i, ?st')"
    using hd neq un by (simp add: pmm_buddy_pop_def nx_of_def)
  moreover have "same_rest st ?st'"
    by (rule same_rest_trans[OF same_rest_set_head same_rest_md_update]) simp_all
  ultimately show ?thesis using that by blast
qed

section \<open>Unlinking from the middle of a chain\<close>

definition unlink :: "pmm_zone_t \<Rightarrow> nat \<Rightarrow> nat \<Rightarrow> u32 \<Rightarrow> pmm_st \<Rightarrow> pmm_st" where
  "unlink z ord i prev st =
     md_update i (\<lambda>m. m\<lparr>fm_next_free_idx := PMM_STACK_END,
                        fm_flags := fm_flags m AND NOT PMM_BUDDY_FLAG_HEAD\<rparr>)
       (if prev = PMM_STACK_END then set_head z ord (nx_of st i) st
        else md_update (unat prev) (\<lambda>m. m\<lparr>fm_next_free_idx := nx_of st i\<rparr>) st)"

lemma chain_unlink:
  assumes "chain nx h (xs @ y # ys)" and "distinct (xs @ y # ys)" and "xs \<noteq> []"
  shows "chain (nx(last xs := nx y)) h (xs @ ys)"
  using assms
proof (induction xs arbitrary: h)
  case (Cons x xs)
  show ?case
  proof (cases "xs = []")
    case True
    then show ?thesis using Cons.prems chain_upd[of x ys nx "nx y"] by (simp add: fun_upd_def)
  next
    case False
    then have "chain (nx(last xs := nx y)) (nx x) (xs @ ys)"
      by (intro Cons.IH) (use Cons.prems in auto)
    moreover have "x \<noteq> last xs" using Cons.prems False by auto
    ultimately show ?thesis using Cons.prems False by (simp add: fun_upd_def)
  qed
qed simp

lemma remove_loop_miss:
  assumes "chain (nx_of st) cur ys" and "\<forall>y\<in>set ys. y < 2 ^ 32 - 1" and "length ys \<le> fuel"
    and "i \<notin> set ys"
  shows "pmm_buddy_remove_loop fuel z ord i prev cur st = Some (False, st)"
  using assms
proof (induction ys arbitrary: fuel prev cur)
  case Nil
  then show ?case by (subst pmm_buddy_remove_loop.simps) simp
next
  case (Cons y ys)
  then obtain fuel' where fuel: "fuel = Suc fuel'" by (cases fuel) auto
  have y: "word_of_nat y \<noteq> PMM_STACK_END" "unat (word_of_nat y :: u32) = y"
    using stack_end_neq Cons.prems by auto
  show ?case
    using Cons y fuel by (subst pmm_buddy_remove_loop.simps) (auto simp: nx_of_def)
qed

lemma remove_loop_hit:
  assumes "chain (nx_of st) cur (xs @ i # ys)" and "\<forall>y\<in>set (xs @ i # ys). y < 2 ^ 32 - 1"
    and "length (xs @ i # ys) \<le> fuel" and "i \<notin> set xs"
  shows "pmm_buddy_remove_loop fuel z ord i prev cur st =
     Some (True, unlink z ord i (if xs = [] then prev else word_of_nat (last xs)) st)"
  using assms
proof (induction xs arbitrary: fuel prev cur)
  case Nil
  then obtain fuel' where "fuel = Suc fuel'" by (cases fuel) auto
  then show ?case
    using Nil stack_end_neq[of i]
    by (subst pmm_buddy_remove_loop.simps) (auto simp: unlink_def nx_of_def Let_def)
next
  case (Cons y xs)
  then obtain fuel' where fuel: "fuel = Suc fuel'" by (cases fuel) auto
  have y: "word_of_nat y \<noteq> PMM_STACK_END" "unat (word_of_nat y :: u32) = y"
    using stack_end_neq Cons.prems by auto
  show ?case
    using Cons y fuel by (subst pmm_buddy_remove_loop.simps) (auto simp: nx_of_def)
qed

lemma same_rest_unlink: "same_rest st (unlink z ord i prev st)"
proof -
  have "same_rest st (if prev = PMM_STACK_END then set_head z ord (nx_of st i) st
        else md_update (unat prev) (\<lambda>m. m\<lparr>fm_next_free_idx := nx_of st i\<rparr>) st)"
    by (simp add: same_rest_set_head same_rest_md_update)
  then show ?thesis
    unfolding unlink_def by (rule same_rest_trans) (simp add: same_rest_md_update)
qed

lemma list_length_bound:
  assumes "lists_inv st L H"
  shows "length (L z ord) \<le> pm_total_frames st"
proof -
  have "distinct (L z ord)"
    using assms buddy_invD(3) unfolding lists_inv_def by blast
  moreover have "set (L z ord) \<subseteq> {..<pm_total_frames st}"
    using list_member_bound(1)[OF assms] by auto
  ultimately show ?thesis
    by (metis card_lessThan card_mono distinct_card finite_lessThan)
qed

lemma unlink_view:
  assumes wf: "ledger_wf st" and i: "i < pm_total_frames st"
    and prev: "prev \<noteq> PMM_STACK_END \<Longrightarrow> unat prev < pm_total_frames st"
  shows "ledger_wf (unlink z ord i prev st)" and "free_set (unlink z ord i prev st) = free_set st"
    and "j \<noteq> i \<Longrightarrow> fl_of (unlink z ord i prev st) j = fl_of st j"
    and "nx_of (unlink z ord i prev st)
      = (if prev = PMM_STACK_END then nx_of st else (nx_of st)(unat prev := nx_of st i))(i := PMM_STACK_END)"
    and "pm_heads (unlink z ord i prev st)
      = (if prev = PMM_STACK_END then (pm_heads st)(z := (pm_heads st z)(ord := nx_of st i)) else pm_heads st)"
  using wf i prev
  by (auto simp: unlink_def nx_fl_md_update fl_of_def) (simp_all add: fl_of_def md_update_nth ledger_wf_def)

lemma remove_inv:
  assumes I: "lists_inv st L H" and mem: "i \<in> set (L z ord)"
  obtains st' where "pmm_buddy_remove z ord i st = Some (True, st')"
    and "lists_inv st' (set_list L z ord (remove1 i (L z ord))) (H \<union> block_frames ord i)"
    and "same_rest st st'"
proof -
  have wf: "ledger_wf st" and B: "buddy_inv (pm_total_frames st) (pm_heads st) (nx_of st)
      (fl_of st) (free_set st) L H"
    using I by (auto simp: lists_inv_def)
  note D = buddy_invD[OF B] and bnd = list_member_bound[OF I]
  obtain xs ys where L: "L z ord = xs @ i # ys" and nin: "i \<notin> set xs"
    using mem by (meson split_list_first)
  have rem: "remove1 i (L z ord) = xs @ ys" using L nin by (simp add: remove1_append)
  define prev where "prev = (if xs = [] then PMM_STACK_END else word_of_nat (last xs) :: u32)"
  define st' where "st' = unlink z ord i prev st"
  have run: "pmm_buddy_remove z ord i st = Some (True, st')"
    unfolding pmm_buddy_remove_def st'_def prev_def
    using remove_loop_hit[of st "pm_heads st z ord" xs i ys "pm_total_frames st" z ord PMM_STACK_END]
      D(2)[of z ord] L bnd(2)[of _ z ord] list_length_bound[OF I, of z ord] nin by auto
  have lastb: "xs \<noteq> [] \<Longrightarrow> last xs < 2 ^ 32 - 1 \<and> last xs < pm_total_frames st"
    using bnd[of "last xs" z ord] L by simp
  have prev: "prev = PMM_STACK_END \<longleftrightarrow> xs = []" "xs \<noteq> [] \<Longrightarrow> unat prev = last xs"
    using stack_end_neq[of "last xs"] lastb by (auto simp: prev_def)
  note V = unlink_view[where prev = prev and z = z and ord = ord, OF wf bnd(1)[OF mem]]
  have pv: "prev \<noteq> PMM_STACK_END \<Longrightarrow> unat prev < pm_total_frames st"
    using prev lastb by simp
  have out: "j \<notin> set (L z' ord')" if "j \<in> set (L z ord)" "(z', ord') \<noteq> (z, ord)" for j z' ord'
    using D(6) that unfolding lists_disjoint_def by (metis Int_iff empty_iff head_in_block prod.inject)
  have "chain (nx_of st') (pm_heads st' z' ord') (set_list L z ord (remove1 i (L z ord)) z' ord')" for z' ord'
  proof (cases "(z', ord') = (z, ord)")
    case False
    have "last xs \<notin> set (L z' ord')" if "xs \<noteq> []" using out[of "last xs"] False that L by simp
    then show ?thesis
      using False V(4,5)[OF pv] D(2)[of z' ord'] out[OF mem False] prev
      by (auto simp: st'_def chain_upd)
  next
    case True
    have iny: "i \<notin> set (xs @ ys)" using D(3)[of z ord] L by auto
    have ch: "chain (nx_of st) (pm_heads st z ord) (xs @ i # ys)" using D(2)[of z ord] L by simp
    show ?thesis
    proof (cases "xs = []")
      case True
      then show ?thesis using \<open>(z', ord') = _\<close> V(4,5)[OF pv] ch prev iny rem
        by (simp add: st'_def chain_upd)
    next
      case False
      have "chain ((nx_of st)(last xs := nx_of st i)) (pm_heads st z ord) (xs @ ys)"
        using chain_unlink[OF ch _ False] D(3)[of z ord] L by simp
      then show ?thesis using \<open>(z', ord') = _\<close> V(4,5)[OF pv] prev iny False rem
        by (simp add: st'_def chain_upd)
    qed
  qed
  then have "lists_inv st' (set_list L z ord (remove1 i (L z ord))) (H \<union> block_frames ord i)"
    using abs_take[OF B mem, of "nx_of st'" "pm_heads st'" "fl_of st'"] V(1-3)[OF pv]
      same_rest_unlink[of st z ord i prev]
    by (simp add: lists_inv_def st'_def same_rest_def)
  then show ?thesis using that run same_rest_unlink st'_def by blast
qed

lemma remove_miss:
  assumes I: "lists_inv st L H" and "i \<notin> set (L z ord)"
  shows "pmm_buddy_remove z ord i st = Some (False, st)"
proof -
  have "chain (nx_of st) (pm_heads st z ord) (L z ord)"
    using I buddy_invD(2) unfolding lists_inv_def by blast
  then show ?thesis
    unfolding pmm_buddy_remove_def
    using remove_loop_miss list_member_bound(2)[OF I] list_length_bound[OF I] assms(2) by blast
qed

section \<open>Coalescing\<close>

definition coalesced :: "buddy_lists \<Rightarrow> bool" where
  "coalesced L \<longleftrightarrow> (\<forall>z ord. ord < PMM_BUDDY_MAX_ORDER \<longrightarrow>
     (\<forall>i\<in>set (L z ord). i XOR 2 ^ ord \<notin> set (L z ord)))"

lemma xor_self_inverse: "(i XOR 2 ^ n) XOR 2 ^ n = (i :: nat)" "i XOR 2 ^ n \<noteq> (i :: nat)"
proof -
  show "(i XOR 2 ^ n) XOR 2 ^ n = (i :: nat)" by (simp add: xor.assoc)
  have "bit (i XOR 2 ^ n) n \<noteq> bit i n" by (simp add: bit_xor_iff bit_exp_iff)
  then show "i XOR 2 ^ n \<noteq> (i :: nat)" by auto
qed

lemma coalesced_remove1: "coalesced L \<Longrightarrow> coalesced (set_list L z ord (remove1 i (L z ord)))"
  using remove1_list_subset unfolding coalesced_def by metis

lemma coalesced_cons:
  assumes "coalesced L" and "ord < PMM_BUDDY_MAX_ORDER \<Longrightarrow> i XOR 2 ^ ord \<notin> set (L z ord)"
  shows "coalesced (set_list L z ord (i # L z ord))"
  using assms xor_self_inverse unfolding coalesced_def
  by (auto split: if_splits)

section \<open>Allocation\<close>

lemma lists_inv_free_frames [simp]:
  "lists_inv (st\<lparr>pm_free_frames := n\<rparr>) L H = lists_inv st L H"
proof -
  have "nx_of (st\<lparr>pm_free_frames := n\<rparr>) = nx_of st" "fl_of (st\<lparr>pm_free_frames := n\<rparr>) = fl_of st"
    by (auto simp: nx_of_def fl_of_def)
  then show ?thesis by (simp add: lists_inv_def ledger_wf_def free_set_def)
qed

lemma lists_inv_buddy:
  assumes "lists_inv st L H"
  shows "buddy_inv (pm_total_frames st) (pm_heads st) (nx_of st) (fl_of st) (free_set st) L H"
    and "ledger_wf st"
  using assms by (auto simp: lists_inv_def)

lemma lists_inv_held_free: "lists_inv st L H \<Longrightarrow> H \<subseteq> free_set st"
  using buddy_invD(8)[OF lists_inv_buddy(1)] by blast

lemma lists_inv_mark_free:
  assumes I: "lists_inv st L H" and "i + 2 ^ ord \<le> pm_total_frames st"
    and "block_frames ord i \<inter> lists_frames L = {}"
  shows "lists_inv (pmm_set_block_bitmap i ord False st) L (H \<union> block_frames ord i)"
  using lists_inv_buddy[OF I] assms(2,3) set_block_bitmap_view[of st i ord False]
  by (auto simp: lists_inv_def buddy_inv_def)

lemma lists_inv_mark_used:
  assumes I: "lists_inv st L H" and "i + 2 ^ ord \<le> pm_total_frames st"
    and "block_frames ord i \<inter> lists_frames L = {}"
  shows "lists_inv (pmm_set_block_bitmap i ord True st) L (H - block_frames ord i)"
  using lists_inv_buddy[OF I] assms(2,3) set_block_bitmap_view[of st i ord True]
  by (auto simp: lists_inv_def buddy_inv_def)

lemma lists_inv_md_update:
  assumes I: "lists_inv st L H" and f: "f < pm_total_frames st" and out: "f \<notin> lists_frames L"
  shows "lists_inv (md_update f g st) L H"
proof -
  note B = lists_inv_buddy[OF I]
  have "f \<notin> set (L z ord)" for z ord using out in_lists_frames[of f L z ord f] by auto
  then show ?thesis
    using B nx_fl_md_update[OF B(2) f, of g]
    by (auto simp: lists_inv_def buddy_inv_def chain_upd)
qed

lemma split_inv:
  assumes "lists_inv st L (block_frames cur i)" and "coalesced L"
    and "block_ok (pm_total_frames st) z cur i" and "ord \<le> cur"
  shows "\<exists>L'. lists_inv (buddy_split z ord i cur st) L' (block_frames ord i) \<and> coalesced L'
    \<and> same_rest st (buddy_split z ord i cur st) \<and> free_set (buddy_split z ord i cur st) = free_set st"
  using assms
proof (induction z ord i cur st arbitrary: L rule: buddy_split.induct)
  case (1 z ord i cur st)
  show ?case
  proof (cases "cur > ord")
    case False
    with 1 show ?thesis by (subst (1 2 3) buddy_split.simps) auto
  next
    case True
    define c where "c = cur - 1"
    have cur: "cur = Suc c" using True by (simp add: c_def)
    let ?b = "i + 2 ^ c"
    let ?st1 = "pmm_set_block_bitmap ?b c False st"
    let ?st2 = "pmm_buddy_push z c ?b ?st1"
    have ok: "block_ok (pm_total_frames st) z c i" "block_ok (pm_total_frames st) z c ?b"
      using block_ok_lower 1(4) cur by auto
    have sub: "block_frames c ?b \<subseteq> block_frames cur i" using block_split(1) cur by auto
    have rng: "?b + 2 ^ c \<le> pm_total_frames st" using ok(2) by (simp add: block_ok_def)
    have dj: "lists_frames L \<inter> block_frames cur i = {}"
      using buddy_invD(7)[OF lists_inv_buddy(1)[OF 1(2)]] .
    have I1: "lists_inv ?st1 L (block_frames cur i)"
      using lists_inv_mark_free[OF 1(2) rng] sub dj by (metis Un_absorb2 disjoint_iff subsetD)
    have I2: "lists_inv ?st2 (set_list L z c (?b # L z c)) (block_frames c i)"
      using push_inv[OF I1 _ sub] ok(2) block_split[of c i] cur
      by (simp add: Diff_Un Un_Diff Diff_triv)
    have fs: "free_set ?st1 = free_set st"
      using set_block_bitmap_view(4)[OF lists_inv_buddy(2)[OF 1(2)] rng, of False]
        lists_inv_held_free[OF 1(2)] sub by auto
    have "free_set ?st2 = free_set ?st1" by (simp add: pmm_buddy_push_def)
    have sr: "same_rest st ?st2"
      using same_rest_trans[OF same_rest_set_block_bitmap same_rest_push] .
    have dvd: "2 ^ Suc c dvd i" using 1(4) cur by (simp add: block_ok_def)
    have "?b XOR 2 ^ c = i"
      using dvd by (metis aligned_bit_dvd dvd_mult_right power_Suc xor_pow2 xor_self_inverse(1))
    moreover have "i \<notin> set (L z c)"
      using dj in_lists_frames[of i L z c i] head_in_block[of i cur] by auto
    ultimately have co: "coalesced (set_list L z c (?b # L z c))"
      using coalesced_cons[OF 1(3)] by simp
    have T2: "pm_total_frames ?st2 = pm_total_frames st" using sr by (simp add: same_rest_def)
    have "\<exists>L'. lists_inv (buddy_split z ord i c ?st2) L' (block_frames ord i) \<and> coalesced L'
      \<and> same_rest ?st2 (buddy_split z ord i c ?st2) \<and> free_set (buddy_split z ord i c ?st2) = free_set ?st2"
      using 1(1)[OF True c_def _ I2 co] ok(1) T2 True cur
      by (simp add: pmm_block_pages_def)
    moreover have "buddy_split z ord i cur st = buddy_split z ord i c ?st2"
      using True by (subst buddy_split.simps) (simp add: c_def pmm_block_pages_def Let_def)
    ultimately show ?thesis
      using sr fs \<open>free_set ?st2 = _\<close> same_rest_trans by (metis (no_types, lifting))
  qed
qed

text \<open>
  What a successful block allocation gives: an aligned, previously free block of the zone, taken
  out of the lists and of the free set, everything else untouched.
\<close>

definition block_taken ::
    "pmm_st \<Rightarrow> pmm_zone_t \<Rightarrow> nat \<Rightarrow> nat \<Rightarrow> pmm_st \<Rightarrow> buddy_lists \<Rightarrow> bool" where
  "block_taken st z ord i st' L' \<longleftrightarrow>
     block_ok (pm_total_frames st) z ord i \<and> block_frames ord i \<subseteq> free_set st \<and>
     lists_inv st' L' {} \<and> coalesced L' \<and> free_set st' = free_set st - block_frames ord i \<and>
     pm_free_frames st' = pm_free_frames st - 2 ^ ord \<and>
     same_rest st (st'\<lparr>pm_free_frames := pm_free_frames st\<rparr>)"

lemma word_of_nat_pages: "word_of_nat (pmm_block_pages ord) = (2 ^ ord :: u64)"
  by (simp add: pmm_block_pages_def)

lemma split_and_take:
  assumes I: "lists_inv st L (block_frames cur i)" and co: "coalesced L"
    and ok: "block_ok (pm_total_frames st) z cur i" and le: "ord \<le> cur"
  defines "st2 \<equiv> buddy_split z ord i cur st"
  defines "st3 \<equiv> pmm_set_block_bitmap i ord True st2"
  defines "st4 \<equiv> md_update i (\<lambda>m. m\<lparr>fm_flags := word_of_nat ord AND PMM_BUDDY_FLAG_ORDER,
                              fm_next_free_idx := PMM_STACK_END\<rparr>) st3"
  shows "\<exists>L'. block_taken st z ord i
    (st4\<lparr>pm_free_frames := pm_free_frames st4 - word_of_nat (pmm_block_pages ord)\<rparr>) L'"
proof -
  obtain L' where I2: "lists_inv st2 L' (block_frames ord i)" and co': "coalesced L'"
    and sr: "same_rest st st2" and fs: "free_set st2 = free_set st"
    using split_inv[OF I co ok le] unfolding st2_def by blast
  have ok': "block_ok (pm_total_frames st) z ord i"
  proof -
    have "(2::nat) ^ ord \<le> 2 ^ cur" using le by (rule power_increasing) simp
    then have "i + 2 ^ ord \<le> pm_total_frames st" using ok unfolding block_ok_def by linarith
    moreover have "(2::nat) ^ ord dvd 2 ^ cur" using le by (rule le_imp_power_dvd)
    ultimately show ?thesis using ok le unfolding block_ok_def by (auto intro: dvd_trans)
  qed
  have T: "pm_total_frames st2 = pm_total_frames st" using sr by (simp add: same_rest_def)
  have rng: "i + 2 ^ ord \<le> pm_total_frames st2" using ok' T by (simp add: block_ok_def)
  then have it: "i < pm_total_frames st3"
    by (simp add: st3_def) (metis add_lessD1 le_add1 le_eq_less_or_eq less_add_same_cancel1
        order_less_le_trans zero_less_numeral zero_less_power)
  have dj: "lists_frames L' \<inter> block_frames ord i = {}"
    using buddy_invD(7)[OF lists_inv_buddy(1)[OF I2]] .
  have I3: "lists_inv st3 L' {}"
    using lists_inv_mark_used[OF I2 rng] dj unfolding st3_def by (simp add: Int_commute)
  have I4: "lists_inv st4 L' {}"
    unfolding st4_def by (rule lists_inv_md_update[OF I3 it]) (use dj head_in_block in blast)
  have fs3: "free_set st3 = free_set st - block_frames ord i"
    using set_block_bitmap_view(4)[OF lists_inv_buddy(2)[OF I2] rng] fs by (simp add: st3_def)
  have sr4: "same_rest st st4"
    unfolding st4_def st3_def
    by (rule same_rest_trans[OF same_rest_trans[OF sr same_rest_set_block_bitmap] same_rest_md_update])
       simp_all
  have "block_frames ord i \<subseteq> free_set st" using lists_inv_held_free[OF I2] fs by simp
  then show ?thesis
    using ok' I4 co' fs3 sr4 unfolding block_taken_def
    by (auto simp: word_of_nat_pages same_rest_def free_set_def own_of_def st4_def fun_eq_iff)
qed

lemma alloc_zone_inv:
  assumes I: "lists_inv st L {}" and co: "coalesced L" and "ord \<le> cur"
  shows "case buddy_alloc_zone z ord cur st of
      None \<Rightarrow> (\<forall>c. cur \<le> c \<and> c \<le> PMM_BUDDY_MAX_ORDER \<longrightarrow> L z c = [])
    | Some (phys, st') \<Rightarrow>
        \<exists>i L'. phys = word_of_nat i * word_of_nat PAGE_SIZE \<and> block_taken st z ord i st' L'"
  using assms
proof (induction "PMM_BUDDY_MAX_ORDER + 1 - cur" arbitrary: cur)
  case 0
  then show ?case by (subst buddy_alloc_zone.simps) auto
next
  case (Suc n)
  then have le: "cur \<le> PMM_BUDDY_MAX_ORDER" by simp
  show ?case
  proof (cases "L z cur")
    case Nil
    have "buddy_alloc_zone z ord cur st = buddy_alloc_zone z ord (cur + 1) st"
      using le pop_empty[OF Suc.prems(1) Nil] by (subst buddy_alloc_zone.simps) simp
    moreover have "case buddy_alloc_zone z ord (cur + 1) st of
      None \<Rightarrow> (\<forall>c. cur + 1 \<le> c \<and> c \<le> PMM_BUDDY_MAX_ORDER \<longrightarrow> L z c = [])
    | Some (phys, st') \<Rightarrow>
        \<exists>i L'. phys = word_of_nat i * word_of_nat PAGE_SIZE \<and> block_taken st z ord i st' L'"
      by (rule Suc.hyps(1)) (use Suc in auto)
    ultimately show ?thesis
      using Nil by (auto split: option.splits simp: le_eq_less_or_eq[of cur] Suc_le_eq)
  next
    case (Cons i xs)
    obtain st1 where pop: "pmm_buddy_pop z cur st = (word_of_nat i, st1)"
      and I1: "lists_inv st1 (set_list L z cur xs) (block_frames cur i)" and sr: "same_rest st st1"
      using pop_inv[OF Suc.prems(1) Cons] by auto
    have mem: "i \<in> set (L z cur)" using Cons by simp
    have u: "word_of_nat i \<noteq> PMM_STACK_END" "unat (word_of_nat i :: u32) = i"
      using stack_end_neq list_member_bound(2)[OF Suc.prems(1) mem] by auto
    have "coalesced (set_list L z cur xs)"
      using coalesced_remove1[OF co, of z cur i] Cons by simp
    moreover have "block_ok (pm_total_frames st1) z cur i"
      using buddy_invD(4)[OF lists_inv_buddy(1)[OF Suc.prems(1)] mem] sr by (simp add: same_rest_def)
    moreover have "free_set st1 = free_set st"
      using pop u sr by (auto simp: pmm_buddy_pop_def Let_def split: if_splits)
    ultimately show ?thesis
      using split_and_take[OF I1 _ _ \<open>ord \<le> cur\<close>] le pop u sr
      by (subst buddy_alloc_zone.simps) (simp add: Let_def block_taken_def same_rest_def, blast)
  qed
qed

lemma alloc_zones_inv:
  assumes I: "lists_inv st L {}" and co: "coalesced L"
  shows "(\<exists>z\<in>set zs. \<exists>i L'. fst (buddy_alloc_zones zs ord st) = word_of_nat i * word_of_nat PAGE_SIZE
              \<and> block_taken st z ord i (snd (buddy_alloc_zones zs ord st)) L')
    \<or> buddy_alloc_zones zs ord st = (0, st) \<and> (\<forall>z\<in>set zs. \<forall>c. ord \<le> c \<and> c \<le> PMM_BUDDY_MAX_ORDER \<longrightarrow> L z c = [])"
proof (induction zs)
  case (Cons z zs)
  show ?case
    using alloc_zone_inv[OF I co order_refl, of ord z] Cons
    by (cases "buddy_alloc_zone z ord ord st") auto
qed simp

section \<open>Completeness: an aligned free block is always found\<close>

lemma block_frames_div:
  assumes "2 ^ n dvd i"
  shows "f \<in> block_frames n i \<longleftrightarrow> f div 2 ^ n = i div 2 ^ n"
proof -
  obtain q where q: "i = 2 ^ n * q" using assms ..
  have "f div 2 ^ n = q \<longleftrightarrow> 2 ^ n * q \<le> f \<and> f < 2 ^ n * q + 2 ^ n"
    by (metis add.commute div_nat_eqI mult.commute mult_Suc dividend_less_times_div
        times_div_less_eq_dividend zero_less_numeral zero_less_power)
  then show ?thesis using q by (auto simp: block_frames_def)
qed

lemma div_coarser:
  fixes f g :: nat
  assumes "m \<le> n" and "f div 2 ^ m = g div 2 ^ m"
  shows "f div 2 ^ n = g div 2 ^ n"
proof -
  have "(2::nat) ^ n = 2 ^ m * 2 ^ (n - m)" using assms(1) by (simp flip: power_add)
  then show ?thesis using assms(2) by (simp add: div_mult2_eq)
qed

lemma block_nested:
  assumes "m \<le> n" "2 ^ m dvd i" "2 ^ n dvd j" "f \<in> block_frames m i" "f \<in> block_frames n j"
  shows "block_frames m i \<subseteq> block_frames n j"
  using assms div_coarser[OF assms(1)] block_frames_div[OF assms(2)] block_frames_div[OF assms(3)]
  by (metis subsetI)

lemma buddy_same_parent:
  fixes i :: nat
  assumes "2 ^ n dvd i"
  shows "(i XOR 2 ^ n) div 2 ^ Suc n = i div 2 ^ Suc n" and "2 ^ n dvd i XOR 2 ^ n"
  using assms
proof (atomize (full), cases rule: buddy_cases)
  case lower
  then have "i + 2 ^ n \<in> block_frames (Suc n) i" by (simp add: block_frames_def)
  with lower show "(i XOR 2 ^ n) div 2 ^ Suc n = i div 2 ^ Suc n \<and> 2 ^ n dvd i XOR 2 ^ n"
    using block_frames_div assms by auto
next
  case (upper j)
  then have "i \<in> block_frames (Suc n) j" by (simp add: block_frames_def)
  with upper show "(i XOR 2 ^ n) div 2 ^ Suc n = i div 2 ^ Suc n \<and> 2 ^ n dvd i XOR 2 ^ n"
    using block_frames_div[OF upper(3)] by (auto elim: dvd_mult_right)
qed

lemma free_frame_covered:
  assumes I: "lists_inv st L {}" and f: "f \<in> free_set st"
  obtains c j where "j \<in> set (L (frame_zone f) c)" and "f \<in> block_frames c j"
    and "2 ^ c dvd j" and "c \<le> 10"
proof -
  note D = buddy_invD[OF lists_inv_buddy(1)[OF I]]
  obtain z c j where m: "j \<in> set (L z c)" "f \<in> block_frames c j"
    using f D(8) by (auto simp: lists_frames_def)
  have ok: "block_ok (pm_total_frames st) z c j" by (rule D(4)[OF m(1)])
  then have "frame_zone f = z"
    using frame_zone_block[of c j f] m(2) by (auto simp: block_ok_def pmm_consts)
  then show ?thesis using that m ok by (auto simp: block_ok_def pmm_consts)
qed

lemma coalesced_complete:
  assumes I: "lists_inv st L {}" and co: "coalesced L"
    and ok: "block_ok (pm_total_frames st) z ord i" and fr: "block_frames ord i \<subseteq> free_set st"
  shows "\<exists>c. ord \<le> c \<and> c \<le> PMM_BUDDY_MAX_ORDER \<and> L z c \<noteq> []"
proof (rule ccontr)
  assume none: "\<not> ?thesis"
  note D = buddy_invD[OF lists_inv_buddy(1)[OF I]]
  have di: "2 ^ ord dvd i" and o10: "ord \<le> 10" and zi: "frame_zone i = z"
    using ok by (auto simp: block_ok_def pmm_consts)
  define P where "P c \<longleftrightarrow> (\<exists>j\<in>set (L z c). \<exists>f\<in>block_frames ord i. f \<in> block_frames c j)" for c
  have cover: "\<exists>c j. j \<in> set (L z c) \<and> f \<in> block_frames c j \<and> 2 ^ c dvd j \<and> c < ord"
    if f: "f \<in> block_frames ord i" for f
  proof -
    have "frame_zone f = z" using frame_zone_block[OF di o10 f] zi by simp
    then obtain c j where "j \<in> set (L z c)" "f \<in> block_frames c j" "2 ^ c dvd j" "c \<le> 10"
      using free_frame_covered[OF I] fr f by (metis subsetD)
    then show ?thesis using none by (metis PMM_BUDDY_MAX_ORDER_def empty_iff list.set(1) not_le)
  qed
  have "\<exists>c. P c" using cover[of i] head_in_block unfolding P_def by blast
  then obtain c where c: "P c" and least: "\<And>c'. P c' \<Longrightarrow> c \<le> c'"
    by (metis LeastI_ex Least_le)
  obtain j f where j: "j \<in> set (L z c)" and f: "f \<in> block_frames ord i" "f \<in> block_frames c j"
    using c by (auto simp: P_def)
  have okj: "block_ok (pm_total_frames st) z c j" by (rule D(4)[OF j])
  then have dj: "2 ^ c dvd j" and c10: "c \<le> PMM_BUDDY_MAX_ORDER" by (auto simp: block_ok_def)
  have co': "c < ord" using none j c10 by (metis empty_iff list.set(1) not_le)
  define b where "b = j XOR 2 ^ c"
  have b: "b div 2 ^ Suc c = j div 2 ^ Suc c" "2 ^ c dvd b"
    using buddy_same_parent[OF dj] by (auto simp: b_def)
  have jin: "j \<in> block_frames ord i"
    using block_nested[OF _ dj di f(2,1)] co' head_in_block by (metis less_imp_le subsetD)
  have bin: "b \<in> block_frames ord i"
    using jin div_coarser[OF _ b(1), of ord] co' block_frames_div[OF di] by auto
  obtain c2 k where k: "k \<in> set (L z c2)" "b \<in> block_frames c2 k" "2 ^ c2 dvd k"
    using cover[OF bin] by blast
  have "c \<le> c2" using least k bin unfolding P_def by blast
  show False
  proof (cases "c2 = c")
    case True
    have "k = b" using k b(2) block_frames_div[OF k(3)] True by (metis dvd_div_mult_self)
    moreover have "c < PMM_BUDDY_MAX_ORDER" using co' o10 by (simp add: pmm_consts)
    ultimately show False using co j k(1) True unfolding coalesced_def b_def by blast
  next
    case False
    then have "j \<in> block_frames c2 k"
      using \<open>c \<le> c2\<close> k(2) block_frames_div[OF k(3)] div_coarser[OF _ b(1), of c2] by auto
    then show False using D(6) j k(1) False unfolding lists_disjoint_def
      by (metis disjoint_iff head_in_block prod.inject)
  qed
qed

section \<open>Release and coalescing\<close>

lemma merge_guard:
  assumes I: "lists_inv st L H" and mem: "b \<in> set (L z ord)"
  shows "b < pm_total_frames st" and "pmm_block_fits_zone st b ord z" and "pmm_block_is_head st b ord"
    and "\<not> bitmap_test (pm_bitmap st) b"
proof -
  note D = buddy_invD[OF lists_inv_buddy(1)[OF I]]
  show b: "b < pm_total_frames st" by (rule list_member_bound(1)[OF I mem])
  show "pmm_block_fits_zone st b ord z" by (rule block_ok_fits[OF D(4)[OF mem]])
  have "ord \<le> 10" using D(4)[OF mem] by (simp add: block_ok_def pmm_consts)
  then show "pmm_block_is_head st b ord"
    using D(5)[OF mem] head_flag_decode b by (simp add: pmm_block_is_head_def fl_of_def)
  have "b \<in> free_set st" using D(8) in_lists_frames[of b L z ord b] mem by simp
  then show "\<not> bitmap_test (pm_bitmap st) b" by (simp add: free_set_def)
qed

definition merged_ok ::
    "pmm_st \<Rightarrow> pmm_zone_t \<Rightarrow> nat \<Rightarrow> nat \<Rightarrow> pmm_st \<Rightarrow> buddy_lists \<Rightarrow> bool" where
  "merged_ok st z ord i st' L' \<longleftrightarrow> lists_inv st' L' (block_frames ord i) \<and> coalesced L' \<and>
     block_ok (pm_total_frames st) z ord i \<and> same_rest st st' \<and> free_set st' = free_set st \<and>
     (ord < PMM_BUDDY_MAX_ORDER \<longrightarrow> i XOR 2 ^ ord \<notin> set (L' z ord))"

lemma merge_step:
  assumes ok: "block_ok T z ord i" and okb: "block_ok T z ord (i XOR 2 ^ ord)"
    and lt: "ord < PMM_BUDDY_MAX_ORDER"
  defines "p \<equiv> (if i XOR 2 ^ ord < i then i XOR 2 ^ ord else i)"
  shows "block_ok T z (Suc ord) p"
    and "block_frames (Suc ord) p = block_frames ord i \<union> block_frames ord (i XOR 2 ^ ord)"
proof -
  have d: "2 ^ ord dvd i" using ok by (simp add: block_ok_def)
  from d have "block_ok T z (Suc ord) p \<and>
      block_frames (Suc ord) p = block_frames ord i \<union> block_frames ord (i XOR 2 ^ ord)"
  proof (cases rule: buddy_cases)
    case lower
    then show ?thesis using ok okb lt block_split(1)[of ord i]
      by (auto simp: p_def block_ok_def pmm_consts)
  next
    case (upper j)
    then show ?thesis using ok okb lt block_split(1)[of ord j]
      by (auto simp: p_def block_ok_def pmm_consts)
  qed
  then show "block_ok T z (Suc ord) p"
    and "block_frames (Suc ord) p = block_frames ord i \<union> block_frames ord (i XOR 2 ^ ord)" by auto
qed

lemma merge_inv:
  assumes "lists_inv st L (block_frames ord i)" and "coalesced L"
    and "block_ok (pm_total_frames st) z ord i"
  shows "\<exists>ord' i' st' L'. buddy_merge z ord i st = Some (ord', i', st') \<and> merged_ok st z ord' i' st' L'"
  using assms
proof (induction z ord i st arbitrary: L rule: buddy_merge.induct)
  case (1 z ord i st)
  define b where "b = i XOR 2 ^ ord"
  have stop: ?case if "buddy_merge z ord i st = Some (ord, i, st)"
    and "ord < PMM_BUDDY_MAX_ORDER \<Longrightarrow> b \<notin> set (L z ord)"
    using that 1(2-4) by (auto simp: merged_ok_def b_def)
  show ?case
  proof (cases "ord < PMM_BUDDY_MAX_ORDER \<and> b \<in> set (L z ord)")
    case False
    then show ?thesis
    proof (cases "ord < PMM_BUDDY_MAX_ORDER")
      case True
      have "pmm_buddy_remove z ord b st = Some (False, st)"
        using remove_miss[OF 1(2)] True False by blast
      then have "buddy_merge z ord i st = Some (ord, i, st)"
        using True by (subst buddy_merge.simps) (simp add: b_def pmm_block_pages_def Let_def)
      then show ?thesis using True False stop by blast
    next
      case F: False
      then have "buddy_merge z ord i st = Some (ord, i, st)" by (subst buddy_merge.simps) simp
      then show ?thesis using F stop by blast
    qed
  next
    case True
    note G = merge_guard[OF 1(2), of b z ord]
    obtain st1 where rm: "pmm_buddy_remove z ord b st = Some (True, st1)"
      and I1: "lists_inv st1 (set_list L z ord (remove1 b (L z ord)))
                 (block_frames ord i \<union> block_frames ord b)"
      and sr: "same_rest st st1"
      using remove_inv[OF 1(2)] True by blast
    have okb: "block_ok (pm_total_frames st) z ord (i XOR 2 ^ ord)"
      using buddy_invD(4)[OF lists_inv_buddy(1)[OF 1(2)]] True by (simp add: b_def)
    let ?p = "if b < i then b else i"
    note M = merge_step[OF 1(4) okb, folded b_def]
    have T: "pm_total_frames st1 = pm_total_frames st" using sr by (simp add: same_rest_def)
    have fs: "free_set st1 = free_set st"
      using buddy_invD(8)[OF lists_inv_buddy(1)[OF I1]] buddy_invD(8)[OF lists_inv_buddy(1)[OF 1(2)]]
        lists_frames_uncons[OF buddy_invD(6)[OF lists_inv_buddy(1)[OF 1(2)]]
          buddy_invD(3)[OF lists_inv_buddy(1)[OF 1(2)]], of b z ord] True in_lists_frames[of b L z ord]
      by auto
    have rec: "buddy_merge z ord i st = buddy_merge z (ord + 1) ?p st1"
      using True G rm by (subst buddy_merge.simps) (simp add: b_def pmm_block_pages_def Let_def)
    have "\<exists>ord' i' st' L'. buddy_merge z (ord + 1) ?p st1 = Some (ord', i', st') \<and>
        merged_ok st1 z ord' i' st' L'"
      using True G rm I1 M T coalesced_remove1[OF 1(3)]
      by (intro 1(1)[of b "(True, st1)" True st1]) (auto simp: b_def pmm_block_pages_def)
    then show ?thesis
      using rec sr T fs unfolding merged_ok_def by (metis (no_types, lifting) same_rest_trans)
  qed
qed

lemma free_block_inv:
  assumes I: "lists_inv st L {}" and co: "coalesced L"
    and ok: "block_ok (pm_total_frames st) (frame_zone i) ord i"
    and used: "block_frames ord i \<inter> free_set st = {}"
  shows "\<exists>st' L'. pmm_buddy_free_block i ord st = Some st' \<and> lists_inv st' L' {} \<and> coalesced L'
    \<and> free_set st' = free_set st \<union> block_frames ord i
    \<and> pm_free_frames st' = pm_free_frames st + 2 ^ ord
    \<and> same_rest st (st'\<lparr>pm_free_frames := pm_free_frames st\<rparr>)"
proof -
  let ?z = "frame_zone i"
  define st1 where "st1 = pmm_set_block_bitmap i ord False st"
  define st2 where "st2 = st1\<lparr>pm_free_frames := pm_free_frames st1 + word_of_nat (pmm_block_pages ord)\<rparr>"
  have rng: "i + 2 ^ ord \<le> pm_total_frames st" using ok by (simp add: block_ok_def)
  have dj: "block_frames ord i \<inter> lists_frames L = {}"
    using used buddy_invD(8)[OF lists_inv_buddy(1)[OF I]] by blast
  have I2: "lists_inv st2 L (block_frames ord i)"
    using lists_inv_mark_free[OF I rng dj] by (simp add: st2_def st1_def)
  have fs2: "free_set st2 = free_set st \<union> block_frames ord i"
    using set_block_bitmap_view(4)[OF lists_inv_buddy(2)[OF I] rng, of False]
    by (simp add: st2_def st1_def free_set_def)
  have ok2: "block_ok (pm_total_frames st2) ?z ord i" using ok by (simp add: st2_def st1_def)
  obtain ord' i' st3 L3 where mg: "buddy_merge ?z ord i st2 = Some (ord', i', st3)"
    and m: "merged_ok st2 ?z ord' i' st3 L3"
    using merge_inv[OF I2 co ok2] by blast
  let ?st4 = "pmm_buddy_push ?z ord' i' st3"
  have T3: "pm_total_frames st3 = pm_total_frames st2" using m by (simp add: merged_ok_def same_rest_def)
  have I4: "lists_inv ?st4 (set_list L3 ?z ord' (i' # L3 ?z ord')) {}"
    using push_inv[of st3 L3 "block_frames ord' i'" ?z ord' i'] m T3 by (simp add: merged_ok_def)
  have co4: "coalesced (set_list L3 ?z ord' (i' # L3 ?z ord'))"
    using coalesced_cons[of L3 ord' i' ?z] m by (auto simp: merged_ok_def)
  have fs4: "free_set ?st4 = free_set st \<union> block_frames ord i"
    using m fs2 by (simp add: merged_ok_def pmm_buddy_push_def)
  have sr: "same_rest st2 ?st4"
    using m same_rest_trans[OF _ same_rest_push] by (auto simp: merged_ok_def)
  have run: "pmm_buddy_free_block i ord st = Some ?st4"
    using mg by (simp add: pmm_buddy_free_block_def Let_def st1_def st2_def frame_zone_def)
  have sr1: "same_rest st st1" by (simp add: st1_def same_rest_set_block_bitmap)
  have "pm_free_frames ?st4 = pm_free_frames st + 2 ^ ord"
    using sr sr1 by (simp add: same_rest_def st2_def word_of_nat_pages)
  moreover have "same_rest st (?st4\<lparr>pm_free_frames := pm_free_frames st\<rparr>)"
    using sr sr1 by (auto simp: same_rest_def st2_def own_of_def fun_eq_iff)
  ultimately show ?thesis using run I4 co4 fs4 by blast
qed

section \<open>Building the lists at boot\<close>

lemma and_pow2_minus_1: "(i :: nat) AND (2 ^ n - 1) = 0 \<longleftrightarrow> 2 ^ n dvd i"
proof -
  have "i AND (2 ^ n - 1) = i mod 2 ^ n"
    using take_bit_eq_mask[of n i] by (simp add: mask_eq_exp_minus_1 take_bit_eq_mod)
  then show ?thesis by (simp add: mod_eq_0_iff_dvd)
qed

definition blk_free :: "pmm_st \<Rightarrow> pmm_zone_t \<Rightarrow> nat \<Rightarrow> nat \<Rightarrow> bool" where
  "blk_free st z ord i \<longleftrightarrow> block_ok (pm_total_frames st) z ord i \<and> block_frames ord i \<subseteq> free_set st"

lemma best_order_step:
  assumes "blk_free st z best i" and "best < PMM_BUDDY_MAX_ORDER"
  shows "\<not> (i AND (pmm_block_pages (best + 1) - 1) \<noteq> 0 \<or> i + pmm_block_pages (best + 1) > pm_total_frames st
      \<or> \<not> pmm_block_fits_zone st i (best + 1) z
      \<or> \<not> list_all (\<lambda>f. \<not> bitmap_test (pm_bitmap st) f) [i ..< i + pmm_block_pages (best + 1)])
    \<longleftrightarrow> blk_free st z (Suc best) i"
proof -
  have sub: "block_frames (Suc best) i \<subseteq> free_set st \<longleftrightarrow>
      list_all (\<lambda>f. \<not> bitmap_test (pm_bitmap st) f) [i ..< i + pmm_block_pages (best + 1)]"
    if "i + 2 ^ Suc best \<le> pm_total_frames st"
    using that by (auto simp: block_frames_def free_set_def list_all_iff pmm_block_pages_def)
  have "blk_free st z (Suc best) i \<longleftrightarrow> 2 ^ Suc best dvd i \<and> i + 2 ^ Suc best \<le> pm_total_frames st
      \<and> list_all (\<lambda>f. \<not> bitmap_test (pm_bitmap st) f) [i ..< i + pmm_block_pages (best + 1)]"
    using assms sub by (auto simp: blk_free_def block_ok_def)
  moreover have "pmm_block_fits_zone st i (Suc best) z" if "blk_free st z (Suc best) i"
    using that block_ok_fits by (auto simp: blk_free_def)
  ultimately show ?thesis
    using and_pow2_minus_1[of i "Suc best"] by (auto simp: pmm_block_pages_def)
qed

lemma best_order_spec:
  assumes "blk_free st z best i"
  shows "blk_free st z (buddy_best_order st z i best) i
    \<and> (buddy_best_order st z i best < PMM_BUDDY_MAX_ORDER
        \<longrightarrow> \<not> blk_free st z (Suc (buddy_best_order st z i best)) i)"
  using assms
proof (induction st z i best rule: buddy_best_order.induct)
  case (1 st z i best)
  show ?case
  proof (cases "best < PMM_BUDDY_MAX_ORDER \<and> blk_free st z (Suc best) i")
    case True
    then have "buddy_best_order st z i best = buddy_best_order st z i (Suc best)"
      using best_order_step[OF 1(2)] by (subst buddy_best_order.simps) (auto simp: Let_def)
    moreover have "blk_free st z (buddy_best_order st z i (Suc best)) i
        \<and> (buddy_best_order st z i (Suc best) < PMM_BUDDY_MAX_ORDER
        \<longrightarrow> \<not> blk_free st z (Suc (buddy_best_order st z i (Suc best))) i)"
      using 1(1)[of "Suc best" "pmm_block_pages (Suc best)"] True best_order_step[OF 1(2)] by simp
    ultimately show ?thesis by simp
  next
    case False
    then have "buddy_best_order st z i best = best"
      using best_order_step[OF 1(2)] by (subst buddy_best_order.simps) (auto simp: Let_def)
    then show ?thesis using False 1(2) by simp
  qed
qed

definition init_inv :: "pmm_st \<Rightarrow> buddy_lists \<Rightarrow> nat \<Rightarrow> bool" where
  "init_inv st L idx \<longleftrightarrow> lists_inv st L {f \<in> free_set st. idx \<le> f} \<and> coalesced L \<and>
     (\<forall>z ord. \<forall>i\<in>set (L z ord). i < idx \<and>
        (ord < PMM_BUDDY_MAX_ORDER \<longrightarrow> \<not> blk_free st z (Suc ord) i))"

lemma init_push:
  assumes I: "init_inv st L idx" and bf: "blk_free st z best idx"
    and mx: "best < PMM_BUDDY_MAX_ORDER \<Longrightarrow> \<not> blk_free st z (Suc best) idx"
  defines "st' \<equiv> pmm_buddy_push z best idx st"
  shows "init_inv st' (set_list L z best (idx # L z best)) (idx + 2 ^ best)"
    and "free_set st' = free_set st" and "same_rest st st'"
proof -
  show fs: "free_set st' = free_set st" by (simp add: st'_def pmm_buddy_push_def)
  show sr: "same_rest st st'" by (simp add: st'_def same_rest_push)
  have bf': "blk_free st' = blk_free st" using fs sr by (simp add: blk_free_def fun_eq_iff same_rest_def)
  have LI: "lists_inv st L {f \<in> free_set st. idx \<le> f}" using I by (simp add: init_inv_def)
  have ok: "block_ok (pm_total_frames st) z best idx" and sub: "block_frames best idx \<subseteq> free_set st"
    using bf by (auto simp: blk_free_def)
  have H: "{f \<in> free_set st. idx \<le> f} - block_frames best idx = {f \<in> free_set st'. idx + 2 ^ best \<le> f}"
    using fs by (auto simp: block_frames_def)
  have "lists_inv st' (set_list L z best (idx # L z best)) {f \<in> free_set st'. idx + 2 ^ best \<le> f}"
  proof -
    have "block_frames best idx \<subseteq> {f \<in> free_set st. idx \<le> f}"
      using sub by (auto simp: block_frames_def)
    then show ?thesis using push_inv[OF LI ok] H by (simp add: st'_def)
  qed
  moreover have "idx XOR 2 ^ best \<notin> set (L z best)" if lt: "best < PMM_BUDDY_MAX_ORDER"
  proof
    assume mem: "idx XOR 2 ^ best \<in> set (L z best)"
    have "2 ^ best dvd idx" using ok by (simp add: block_ok_def)
    then show False
    proof (cases rule: buddy_cases)
      case lower
      then show False using mem I unfolding init_inv_def by (metis add_lessD1 less_irrefl)
    next
      case (upper j)
      have okj: "block_ok (pm_total_frames st) z best j"
        and jf: "block_frames best j \<subseteq> free_set st"
        using buddy_invD(4,8)[OF lists_inv_buddy(1)[OF LI]] mem upper(2) in_lists_frames[of j L z best]
        by (auto simp: set_eq_iff)
      have "blk_free st z (Suc best) j"
        using okj jf ok sub upper lt block_split(1)[of best j] unfolding blk_free_def
        by (auto simp: block_ok_def)
      then show False using mem upper(2) I lt unfolding init_inv_def by blast
    qed
  qed
  then have "coalesced (set_list L z best (idx # L z best))"
    using coalesced_cons I unfolding init_inv_def by metis
  ultimately show "init_inv st' (set_list L z best (idx # L z best)) (idx + 2 ^ best)"
    using I mx unfolding init_inv_def bf' by (fastforce split: if_splits)
qed

lemma init_loop_inv:
  assumes "init_inv st L idx"
  shows "\<exists>L'. lists_inv (buddy_init_loop idx st) L' {} \<and> coalesced L'
    \<and> free_set (buddy_init_loop idx st) = free_set st \<and> same_rest st (buddy_init_loop idx st)"
  using assms
proof (induction idx st arbitrary: L rule: buddy_init_loop.induct)
  case (1 idx st)
  show ?case
  proof (cases "idx < pm_total_frames st")
    case False
    then have "{f \<in> free_set st. idx \<le> f} = {}" by (auto simp: free_set_def)
    then have "lists_inv st L {} \<and> coalesced L" using 1(3) unfolding init_inv_def by metis
    then show ?thesis using False by (subst (1 2 3) buddy_init_loop.simps) auto
  next
    case lt: True
    show ?thesis
    proof (cases "bitmap_test (pm_bitmap st) idx")
      case True
      then have "{f \<in> free_set st. idx \<le> f} = {f \<in> free_set st. Suc idx \<le> f}"
        by (auto simp: free_set_def Suc_le_eq order.order_iff_strict)
      then have "init_inv st L (idx + 1)" using 1(3) unfolding init_inv_def by (auto simp: less_Suc_eq)
      then show ?thesis
        using 1(1)[OF lt True] lt True by (subst (1 2 3) buddy_init_loop.simps) auto
    next
      case False
      define z where "z = frame_zone idx"
      define best where "best = buddy_best_order st z idx 0"
      have "blk_free st z 0 idx"
        using lt False by (auto simp: blk_free_def block_ok_def z_def block_frames_def free_set_def)
      note B = best_order_spec[OF this, folded best_def]
      note P = init_push[OF 1(3) conjunct1[OF B]]
      let ?st' = "pmm_buddy_push z best idx st"
      have rec: "buddy_init_loop idx st = buddy_init_loop (idx + 2 ^ best) ?st'"
        using lt False by (subst buddy_init_loop.simps)
          (simp add: Let_def z_def best_def frame_zone_def pmm_block_pages_def)
      have "\<exists>L'. lists_inv (buddy_init_loop (idx + 2 ^ best) ?st') L' {} \<and> coalesced L'
          \<and> free_set (buddy_init_loop (idx + 2 ^ best) ?st') = free_set ?st'
          \<and> same_rest ?st' (buddy_init_loop (idx + 2 ^ best) ?st')"
        using 1(2)[OF lt False refl refl] P(1) B
        by (simp add: z_def best_def frame_zone_def pmm_block_pages_def)
      then show ?thesis
        unfolding rec using P(2,3) B by (metis same_rest_trans)
    qed
  qed
qed

definition pmm_inv :: "pmm_st \<Rightarrow> bool" where
  "pmm_inv st \<longleftrightarrow> (\<exists>L. lists_inv st L {} \<and> coalesced L)
     \<and> pm_free_frames st = word_of_nat (card (free_set st))"

lemma buddy_init_inv:
  assumes wf: "ledger_wf st" and T: "pm_total_frames st < 2 ^ 32 - 1"
    and cnt: "pm_free_frames st = word_of_nat (card (free_set st))"
  shows "pmm_inv (pmm_buddy_init_from_free_frames st)"
    and "free_set (pmm_buddy_init_from_free_frames st) = free_set st"
proof -
  define st0 where "st0 = st\<lparr>pm_heads := (\<lambda>z ord. PMM_STACK_END)\<rparr>"
  have fs: "free_set st0 = free_set st" by (simp add: st0_def free_set_def)
  have "lists_inv st0 (\<lambda>z ord. []) {f \<in> free_set st0. 0 \<le> f}"
    using wf T by (auto simp: lists_inv_def buddy_inv_def st0_def ledger_wf_def lists_disjoint_def lists_frames_def)
  then have "init_inv st0 (\<lambda>z ord. []) 0" by (simp add: init_inv_def coalesced_def)
  from init_loop_inv[OF this] show "pmm_inv (pmm_buddy_init_from_free_frames st)"
    and "free_set (pmm_buddy_init_from_free_frames st) = free_set st"
    using cnt fs unfolding pmm_inv_def pmm_buddy_init_from_free_frames_def st0_def[symmetric]
    by (auto simp: same_rest_def st0_def)
qed

end
