(* ===== verification/Pmm_Alloc.thy ===== *)
theory Pmm_Alloc
  imports Pmm_Buddy Resource_Pool
begin

text \<open>
  Correctness of the allocator's entry points: \<open>pmm_alloc_ex\<close>, \<open>pmm_free_ex\<close>,
  \<open>pmm_init\<close> and \<open>pmm_transfer\<close>, stated on the invariant \<open>pmm_inv\<close> of
  the buddy lists.
\<close>

section \<open>Scouring and stamping a block\<close>

lemma alloc_frame_sel [simp]:
  "pm_total_frames (alloc_frame pol e phys i st) = pm_total_frames st"
  "pm_free_frames (alloc_frame pol e phys i st) = pm_free_frames st"
  "free_set (alloc_frame pol e phys i st) = free_set st"
  "pm_mem (alloc_frame pol e phys i st)
     = hyper_scrub (unat phys + i * PAGE_SIZE) (PAGE_SIZE div 8) (pm_mem st)"
  by (simp_all add: alloc_frame_def Let_def fast_zero_is_hyper_scrub free_set_def)

lemma free_frame_sel [simp]:
  "pm_total_frames (free_frame e phys i st) = pm_total_frames st"
  "pm_free_frames (free_frame e phys i st) = pm_free_frames st"
  "free_set (free_frame e phys i st) = free_set st"
  "pm_mem (free_frame e phys i st)
     = hyper_scrub (unat phys + i * PAGE_SIZE) (PAGE_SIZE div 8) (pm_mem st)"
  by (simp_all add: free_frame_def Let_def fast_zero_is_hyper_scrub free_set_def)

lemma lists_inv_other_fields [simp]:
  "lists_inv (st\<lparr>pm_mem := m\<rparr>) L H = lists_inv st L H"
  "lists_inv (st\<lparr>pm_law9_temporal_scour_count := c\<rparr>) L H = lists_inv st L H"
  "lists_inv (st\<lparr>pm_law9_same_epoch_zero_count := c\<rparr>) L H = lists_inv st L H"
  "lists_inv (st\<lparr>pm_law9_marker_emitted := b\<rparr>) L H = lists_inv st L H"
  "lists_inv (st\<lparr>pm_policy_marker_emitted := b\<rparr>) L H = lists_inv st L H"
  by (simp_all add: lists_inv_def ledger_wf_def free_set_def nx_of_def [abs_def] fl_of_def [abs_def])

lemma alloc_frame_inv:
  assumes "lists_inv st L H" and "unat phys div PAGE_SIZE + i < pm_total_frames st"
    and "unat phys div PAGE_SIZE + i \<notin> lists_frames L"
  shows "lists_inv (alloc_frame pol e phys i st) L H"
  using assms by (auto simp: alloc_frame_def Let_def intro!: lists_inv_md_update)

lemma free_frame_inv:
  assumes "lists_inv st L H" and "unat phys div PAGE_SIZE + i < pm_total_frames st"
    and "unat phys div PAGE_SIZE + i \<notin> lists_frames L"
  shows "lists_inv (free_frame e phys i st) L H"
  using assms by (auto simp: free_frame_def Let_def intro!: lists_inv_md_update)

lemma own_of_alloc_frame:
  assumes "ledger_wf st" and "unat phys div PAGE_SIZE + i < pm_total_frames st"
  shows "own_of (alloc_frame pol e phys i st) = (own_of st)
     (unat phys div PAGE_SIZE + i := (pol_owner_token pol, pol_color pol, ucast e))"
  using assms
  by (auto simp: alloc_frame_def Let_def own_of_def fun_eq_iff md_update_def ledger_wf_def nth_list_update)

lemma own_of_free_frame:
  assumes "ledger_wf st" and "unat phys div PAGE_SIZE + i < pm_total_frames st"
  shows "own_of (free_frame e phys i st) = (own_of st)
     (unat phys div PAGE_SIZE + i := (0, COLOR_VOID, ucast e))"
  using assms
  by (auto simp: free_frame_def Let_def own_of_def fun_eq_iff md_update_def ledger_wf_def nth_list_update)

text \<open>Both loops write one frame after the other; the effect is that of one block-wide write.\<close>

definition block_written ::
    "pmm_st \<Rightarrow> u64 \<Rightarrow> nat \<Rightarrow> u64 \<times> security_color_t \<times> u8 \<Rightarrow> pmm_st \<Rightarrow> bool" where
  "block_written st phys n owner st' \<longleftrightarrow>
     (let base = unat phys div PAGE_SIZE in
      (\<forall>a. pm_mem st' a = (if unat phys \<le> a \<and> a < unat phys + n * PAGE_SIZE then 0 else pm_mem st a)) \<and>
      (\<forall>f. own_of st' f = (if base \<le> f \<and> f < base + n then owner else own_of st f)))"

locale block_writer =
  fixes wr :: "nat \<Rightarrow> pmm_st \<Rightarrow> pmm_st" and phys :: u64
    and owner :: "u64 \<times> security_color_t \<times> u8"
  assumes write_total: "pm_total_frames (wr i st) = pm_total_frames st"
    and write_count: "pm_free_frames (wr i st) = pm_free_frames st"
    and write_free: "free_set (wr i st) = free_set st"
    and write_mem: "pm_mem (wr i st)
      = hyper_scrub (unat phys + i * PAGE_SIZE) (PAGE_SIZE div 8) (pm_mem st)"
    and write_inv: "lists_inv st L H \<Longrightarrow> unat phys div PAGE_SIZE + i < pm_total_frames st
      \<Longrightarrow> unat phys div PAGE_SIZE + i \<notin> lists_frames L \<Longrightarrow> lists_inv (wr i st) L H"
    and write_own: "ledger_wf st \<Longrightarrow> unat phys div PAGE_SIZE + i < pm_total_frames st
      \<Longrightarrow> own_of (wr i st) = (own_of st)(unat phys div PAGE_SIZE + i := owner)"
begin

lemma write_block:
  assumes I: "lists_inv st L H" and rng: "unat phys div PAGE_SIZE + n \<le> pm_total_frames st"
    and out: "\<forall>k<n. unat phys div PAGE_SIZE + k \<notin> lists_frames L"
  shows "lists_inv (fold wr [0..<n] st) L H \<and> block_written st phys n owner (fold wr [0..<n] st)
    \<and> free_set (fold wr [0..<n] st) = free_set st
    \<and> pm_total_frames (fold wr [0..<n] st) = pm_total_frames st
    \<and> pm_free_frames (fold wr [0..<n] st) = pm_free_frames st"
  using rng out
proof (induction n)
  case 0
  then show ?case using I by (auto simp: block_written_def Let_def)
next
  case (Suc n)
  let ?s = "fold wr [0..<n] st"
  have IH: "lists_inv ?s L H" "block_written st phys n owner ?s" "free_set ?s = free_set st"
    "pm_total_frames ?s = pm_total_frames st" "pm_free_frames ?s = pm_free_frames st"
    using Suc by auto
  have lt: "unat phys div PAGE_SIZE + n < pm_total_frames ?s" using Suc.prems IH(4) by simp
  have "block_written st phys (Suc n) owner (wr n ?s)"
    using IH(2) write_mem[of n ?s] write_own[OF lists_inv_buddy(2)[OF IH(1)] lt]
    by (auto simp: block_written_def Let_def hyper_scrub_apply PAGE_SIZE_def)
  then show ?case
    using write_inv[OF IH(1) lt] Suc.prems IH write_total write_count write_free by simp
qed

end

interpretation alloc_writer: block_writer "alloc_frame pol e phys" phys
    "(pol_owner_token pol, pol_color pol, ucast e)" for pol e phys
  by unfold_locales (simp_all add: alloc_frame_inv own_of_alloc_frame)

interpretation free_writer: block_writer "free_frame e phys" phys "(0, COLOR_VOID, ucast e)" for e phys
  by unfold_locales (simp_all add: free_frame_inv own_of_free_frame)

section \<open>The allocator entry points\<close>

definition policy_zones :: "pmm_zone_t \<Rightarrow> pmm_zone_t list" where
  "policy_zones z = (if z = PMM_ZONE_ANY then [PMM_ZONE_NORMAL, PMM_ZONE_DMA, PMM_ZONE_HIGH] else [z])"

definition policy_accepted :: "pmm_alloc_policy_t \<Rightarrow> bool" where
  "policy_accepted pol \<longleftrightarrow>
     pol_order pol \<le> PMM_BUDDY_MAX_ORDER \<and> pol_trust_level pol \<noteq> PMM_TRUST_UNVERIFIED"

text \<open>The contract of a successful allocation.\<close>

definition allocated ::
    "u64 \<Rightarrow> pmm_alloc_policy_t \<Rightarrow> pmm_st \<Rightarrow> u64 \<Rightarrow> pmm_st \<Rightarrow> bool" where
  "allocated epoch pol st phys st' \<longleftrightarrow>
     (let i = unat phys div PAGE_SIZE; ord = pol_order pol in
      unat phys = i * PAGE_SIZE \<and> pm_total_frames st' = pm_total_frames st \<and>
      frame_zone i \<in> set (policy_zones (pol_preferred_zone pol)) \<and>
      block_ok (pm_total_frames st) (frame_zone i) ord i \<and>
      block_frames ord i \<subseteq> free_set st \<and>
      free_set st' = free_set st - block_frames ord i \<and>
      block_written st phys (2 ^ ord) (pol_owner_token pol, pol_color pol, ucast epoch) st')"

lemma page_address_unat:
  assumes "i < 2 ^ 32"
  shows "unat (word_of_nat i * word_of_nat PAGE_SIZE :: u64) = i * PAGE_SIZE"
proof -
  have "i * PAGE_SIZE < 2 ^ 64" using assms by (simp add: PAGE_SIZE_def)
  then show ?thesis by (simp add: unat_of_nat flip: of_nat_mult)
qed

lemma free_set_bound: "f \<in> free_set st \<Longrightarrow> f < pm_total_frames st"
  by (simp add: free_set_def)

lemma pmm_inv_bound: "pmm_inv st \<Longrightarrow> pm_total_frames st < 2 ^ 32 - 1"
  using buddy_invD(1)[OF lists_inv_buddy(1)] by (auto simp: pmm_inv_def)

lemma count_remove:
  assumes "B \<subseteq> free_set st" and "card B = 2 ^ n"
  shows "word_of_nat (card (free_set st - B)) = word_of_nat (card (free_set st)) - (2 ^ n :: u64)"
proof -
  have "2 ^ n \<le> card (free_set st)" using assms card_mono[of "free_set st" B] by simp
  then show ?thesis
    using assms by (simp add: card_Diff_subset finite_subset[OF assms(1)] of_nat_diff)
qed

lemma count_add:
  assumes "B \<inter> free_set st = {}" and "finite B" and "card B = 2 ^ n"
  shows "word_of_nat (card (free_set st \<union> B)) = word_of_nat (card (free_set st)) + (2 ^ n :: u64)"
  using assms by (simp add: card_Un_disjoint Int_commute)

lemma pmm_inv_marker [simp]: "pmm_inv (st\<lparr>pm_policy_marker_emitted := b\<rparr>) = pmm_inv st"
  by (simp add: pmm_inv_def free_set_def)

lemma alloc_block_cases:
  assumes inv: "pmm_inv st"
  obtains (none) "pmm_buddy_alloc_block ord z st = (0, st)"
      "\<And>z' i. z' \<in> set (policy_zones z) \<Longrightarrow> block_ok (pm_total_frames st) z' ord i
         \<Longrightarrow> \<not> block_frames ord i \<subseteq> free_set st"
  | (some) z' i st' L' where "pmm_buddy_alloc_block ord z st = (word_of_nat i * word_of_nat PAGE_SIZE, st')"
      "z' \<in> set (policy_zones z)" "block_taken st z' ord i st' L'"
proof -
  obtain L where L: "lists_inv st L {}" "coalesced L" using inv by (auto simp: pmm_inv_def)
  show ?thesis
    using alloc_zones_inv[OF L, of "policy_zones z" ord]
  proof (elim disjE)
    assume "\<exists>z'\<in>set (policy_zones z). \<exists>i L'.
       fst (buddy_alloc_zones (policy_zones z) ord st) = word_of_nat i * word_of_nat PAGE_SIZE
       \<and> block_taken st z' ord i (snd (buddy_alloc_zones (policy_zones z) ord st)) L'"
    then show thesis
      using some by (auto simp: pmm_buddy_alloc_block_def policy_zones_def prod_eq_iff)
  next
    assume A: "buddy_alloc_zones (policy_zones z) ord st = (0, st) \<and>
      (\<forall>z'\<in>set (policy_zones z). \<forall>c. ord \<le> c \<and> c \<le> PMM_BUDDY_MAX_ORDER \<longrightarrow> L z' c = [])"
    then have "pmm_buddy_alloc_block ord z st = (0, st)"
      by (simp add: pmm_buddy_alloc_block_def policy_zones_def split: if_splits)
    then show thesis using none coalesced_complete[OF L] A by blast
  qed
qed

lemma block_taken_inv:
  assumes "block_taken st z ord i st' L'" and "pmm_inv st"
  shows "pmm_inv st'"
  using assms count_remove[of "block_frames ord i" st ord]
  by (auto simp: pmm_inv_def block_taken_def)

lemma block_taken_written:
  fixes epoch :: u64
  assumes bt: "block_taken st z (pol_order pol) i st1 L" and inv: "pmm_inv st"
    and z: "z \<in> set (policy_zones (pol_preferred_zone pol))"
  defines "phys \<equiv> word_of_nat i * word_of_nat PAGE_SIZE"
  defines "st' \<equiv> fold (alloc_frame pol epoch phys) [0..<2 ^ pol_order pol] st1"
  shows "pmm_inv st'" and "allocated epoch pol st phys st'"
proof -
  let ?ord = "pol_order pol"
  have ok: "block_ok (pm_total_frames st) z ?ord i" and sub: "block_frames ?ord i \<subseteq> free_set st"
    and I1: "lists_inv st1 L {}" and co: "coalesced L"
    and fs1: "free_set st1 = free_set st - block_frames ?ord i"
    and sr: "same_rest st (st1\<lparr>pm_free_frames := pm_free_frames st\<rparr>)"
    using bt by (auto simp: block_taken_def)
  have T1: "pm_total_frames st1 = pm_total_frames st" "pm_mem st1 = pm_mem st" "own_of st1 = own_of st"
    using sr by (auto simp: same_rest_def own_of_def fun_eq_iff)
  have "i < pm_total_frames st" using sub free_set_bound head_in_block by blast
  then have u: "unat phys = i * PAGE_SIZE" and d: "unat phys div PAGE_SIZE = i"
    using page_address_unat[of i] pmm_inv_bound[OF inv] by (auto simp: phys_def PAGE_SIZE_def)
  have rng: "unat phys div PAGE_SIZE + 2 ^ ?ord \<le> pm_total_frames st1"
    using ok T1 d by (simp add: block_ok_def)
  have "lists_frames L \<inter> block_frames ?ord i = {}"
    using buddy_invD(8)[OF lists_inv_buddy(1)[OF I1]] fs1 by auto
  then have out: "\<forall>k<2 ^ ?ord. unat phys div PAGE_SIZE + k \<notin> lists_frames L"
    using d by (auto simp: block_frames_def disjoint_iff)
  note W = alloc_writer.write_block[OF I1 rng out, where pol = pol and e = epoch, folded st'_def]
  show "pmm_inv st'"
    using W co block_taken_inv[OF bt inv] by (auto simp: pmm_inv_def)
  have "block_written st phys (2 ^ ?ord) (pol_owner_token pol, pol_color pol, ucast epoch) st'"
    using W T1 unfolding block_written_def Let_def by simp
  moreover have "frame_zone i = z" using ok by (simp add: block_ok_def)
  ultimately show "allocated epoch pol st phys st'"
    using W u d ok sub fs1 z T1(1) unfolding allocated_def Let_def by simp
qed

lemma allocated_marker:
  "allocated epoch pol (st\<lparr>pm_policy_marker_emitted := b\<rparr>) phys st' = allocated epoch pol st phys st'"
  by (simp add: allocated_def block_written_def free_set_def own_of_def Let_def)

lemma alloc_ex_accepted:
  assumes "policy_accepted pol"
  shows "pmm_alloc_ex epoch (Some pol) st =
    (let (phys, st1) = pmm_buddy_alloc_block (pol_order pol) (pol_preferred_zone pol)
                         (st\<lparr>pm_policy_marker_emitted := True\<rparr>)
     in if phys = 0 then (0, st1)
        else (phys, fold (alloc_frame pol epoch phys) [0 ..< 2 ^ pol_order pol] st1))"
  using assms unfolding pmm_block_pages_def [symmetric]
  by (simp add: pmm_alloc_ex_def policy_accepted_def)

lemma alloc_ex_rejected:
  assumes "\<not> policy_accepted pol"
  shows "pmm_alloc_ex epoch (Some pol) st = (0, st\<lparr>pm_policy_marker_emitted := True\<rparr>)"
  using assms by (auto simp: pmm_alloc_ex_def policy_accepted_def pmm_profile_def Let_def)

lemma alloc_ex_inv:
  assumes inv: "pmm_inv st" and run: "pmm_alloc_ex epoch (Some pol) st = (phys, st')"
  shows "pmm_inv st' \<and> (phys \<noteq> 0 \<longrightarrow> policy_accepted pol \<and> allocated epoch pol st phys st')"
proof (cases "policy_accepted pol")
  case False
  then show ?thesis using assms by (auto simp: alloc_ex_rejected)
next
  case acc: True
  define st0 where "st0 = st\<lparr>pm_policy_marker_emitted := True\<rparr>"
  have inv0: "pmm_inv st0" using inv by (simp add: st0_def)
  from inv0 show ?thesis
  proof (cases rule: alloc_block_cases[where ord = "pol_order pol" and z = "pol_preferred_zone pol"])
    case none
    then show ?thesis using run acc inv0 by (simp add: alloc_ex_accepted st0_def)
  next
    case (some z i st1 L)
    show ?thesis
      using block_taken_written[OF some(3) inv0 some(2), of epoch] some(1) run acc
        block_taken_inv[OF some(3) inv0]
      by (auto simp: alloc_ex_accepted allocated_marker st0_def split: if_splits)
  qed
qed

lemma alloc_ex_complete:
  assumes inv: "pmm_inv st" and acc: "policy_accepted pol" and zero: "0 \<notin> free_set st"
    and z: "z \<in> set (policy_zones (pol_preferred_zone pol))"
    and ok: "block_ok (pm_total_frames st) z (pol_order pol) i"
    and fr: "block_frames (pol_order pol) i \<subseteq> free_set st"
  shows "fst (pmm_alloc_ex epoch (Some pol) st) \<noteq> 0"
proof -
  define st0 where "st0 = st\<lparr>pm_policy_marker_emitted := True\<rparr>"
  have inv0: "pmm_inv st0" and same: "free_set st0 = free_set st" "pm_total_frames st0 = pm_total_frames st"
    using inv by (simp_all add: st0_def free_set_def)
  from inv0 show ?thesis
  proof (cases rule: alloc_block_cases[where ord = "pol_order pol" and z = "pol_preferred_zone pol"])
    case none
    then show ?thesis using z ok fr same by auto
  next
    case (some z' j st1 L)
    have "j \<in> free_set st" using some(3) same head_in_block by (auto simp: block_taken_def)
    then have "j \<noteq> 0" "j < 2 ^ 32"
      using zero free_set_bound[of j st] pmm_inv_bound[OF inv] by (auto intro: gr0I)
    then have "unat (word_of_nat j * word_of_nat PAGE_SIZE :: u64) \<noteq> 0"
      using page_address_unat[of j] by (simp add: PAGE_SIZE_def)
    then have "word_of_nat j * word_of_nat PAGE_SIZE \<noteq> (0 :: u64)" by (metis unat_0)
    then show ?thesis using some(1) acc by (simp add: alloc_ex_accepted st0_def)
  qed
qed

text \<open>The contract of a release.\<close>

definition released :: "u64 \<Rightarrow> nat \<Rightarrow> pmm_st \<Rightarrow> u64 \<Rightarrow> pmm_st \<Rightarrow> bool" where
  "released epoch ord st phys st' \<longleftrightarrow>
     free_set st' = free_set st \<union> block_frames ord (unat phys div PAGE_SIZE) \<and>
     pm_free_frames st' = pm_free_frames st + 2 ^ ord \<and> pm_total_frames st' = pm_total_frames st \<and>
     block_written st phys (2 ^ ord) (0, COLOR_VOID, ucast epoch) st'"

lemma free_ex_inv:
  assumes inv: "pmm_inv st"
    and ok: "block_ok (pm_total_frames st) (frame_zone (unat phys div PAGE_SIZE)) ord (unat phys div PAGE_SIZE)"
    and used: "block_frames ord (unat phys div PAGE_SIZE) \<inter> free_set st = {}"
  shows "\<exists>st'. pmm_free_ex epoch phys ord st = Some st' \<and> pmm_inv st' \<and> released epoch ord st phys st'"
proof -
  define i where "i = unat phys div PAGE_SIZE"
  obtain L where L: "lists_inv st L {}" "coalesced L" using inv by (auto simp: pmm_inv_def)
  have rng: "i + 2 ^ ord \<le> pm_total_frames st" and o10: "ord \<le> PMM_BUDDY_MAX_ORDER"
    using ok by (auto simp: block_ok_def i_def)
  have lt: "i < pm_total_frames st"
    by (rule less_le_trans[OF _ rng]) simp
  have tw: "takeWhile (\<lambda>k. i + k < pm_total_frames st) [0 ..< pmm_block_pages ord] = [0 ..< 2 ^ ord]"
    using rng by (auto simp: pmm_block_pages_def takeWhile_eq_all_conv)
  define st1 where "st1 = fold (free_frame epoch phys) [0..<2 ^ ord] st"
  have out: "\<forall>k<2 ^ ord. unat phys div PAGE_SIZE + k \<notin> lists_frames L"
    using used buddy_invD(8)[OF lists_inv_buddy(1)[OF L(1)]] by (auto simp: block_frames_def disjoint_iff)
  note W = free_writer.write_block[OF L(1) _ out, where e = epoch, folded i_def st1_def]
  have W1: "lists_inv st1 L {}" "block_written st phys (2 ^ ord) (0, COLOR_VOID, ucast epoch) st1"
    "free_set st1 = free_set st" "pm_total_frames st1 = pm_total_frames st"
    "pm_free_frames st1 = pm_free_frames st"
    using W rng by auto
  obtain st' L' where fb: "pmm_buddy_free_block i ord st1 = Some st'" "lists_inv st' L' {}" "coalesced L'"
    "free_set st' = free_set st1 \<union> block_frames ord i" "pm_free_frames st' = pm_free_frames st1 + 2 ^ ord"
    "same_rest st1 (st'\<lparr>pm_free_frames := pm_free_frames st1\<rparr>)"
    using free_block_inv[OF W1(1) L(2)] ok used W1(3,4) unfolding i_def by metis
  have "pmm_free_ex epoch phys ord st = Some st'"
    using fb(1) lt o10 tw by (simp add: pmm_free_ex_def Let_def i_def st1_def)
  moreover have "pmm_inv st'"
    using fb W1 inv count_add[of "block_frames ord i" st ord] used
    by (auto simp: pmm_inv_def i_def)
  moreover have "block_written st phys (2 ^ ord) (0, COLOR_VOID, ucast epoch) st'"
    using W1(2) fb(6) by (auto simp: block_written_def same_rest_def own_of_def fun_eq_iff)
  moreover have "pm_total_frames st' = pm_total_frames st" using fb(6) W1(4) by (simp add: same_rest_def)
  ultimately show ?thesis using fb W1 by (auto simp: released_def i_def)
qed

section \<open>Boot-time initialisation\<close>

definition entry_range :: "limine_memmap_entry \<Rightarrow> u64 \<times> u64" where
  "entry_range e = (align_up_u64 (me_base e) page64, align_down_u64 (me_base e + me_length e) page64)"

text \<open>The frames that an entry of the memory map offers to the allocator.\<close>

definition entry_frames :: "limine_memmap_entry \<Rightarrow> nat set" where
  "entry_frames e =
     (let (start, fin) = entry_range e in
      if me_type e = LIMINE_MEMMAP_USABLE \<and> start \<noteq> - 1 \<and> start < fin
      then (\<lambda>a. a div PAGE_SIZE) ` set (page_addresses start fin) else {})"

text \<open>The bootloader promises that usable entries do not overlap.\<close>

fun usable_disjoint :: "limine_memmap_entry list \<Rightarrow> bool" where
  "usable_disjoint [] \<longleftrightarrow> True"
| "usable_disjoint (e # es) \<longleftrightarrow>
     (\<forall>e'\<in>set es. entry_frames e \<inter> entry_frames e' = {}) \<and> usable_disjoint es"

definition ledger_frames :: "u64 \<Rightarrow> u64 \<Rightarrow> nat set" where
  "ledger_frames ledger needed =
     {f. unat ledger \<le> f * PAGE_SIZE \<and> f * PAGE_SIZE < unat (ledger + needed)}"

definition boot_counted :: "pmm_st \<Rightarrow> bool" where
  "boot_counted st \<longleftrightarrow> ledger_wf st \<and> pm_free_frames st = word_of_nat (card (free_set st))"

lemma release_frame_counted:
  assumes "boot_counted st" and "a div PAGE_SIZE \<notin> free_set st"
  shows "boot_counted (release_boot_frame l n a st)"
    and "free_set (release_boot_frame l n a st) =
      (if \<not> (unat l \<le> a \<and> a < unat (l + n)) \<and> a div PAGE_SIZE < pm_total_frames st
       then insert (a div PAGE_SIZE) (free_set st) else free_set st)"
    and "pm_total_frames (release_boot_frame l n a st) = pm_total_frames st"
proof -
  show fs: "free_set (release_boot_frame l n a st) =
      (if \<not> (unat l \<le> a \<and> a < unat (l + n)) \<and> a div PAGE_SIZE < pm_total_frames st
       then insert (a div PAGE_SIZE) (free_set st) else free_set st)"
    using assms(1) bitmap_test_clear[of "a div PAGE_SIZE" "pm_bitmap st"]
    by (auto simp: release_boot_frame_def Let_def free_set_def boot_counted_def ledger_wf_def)
  show "pm_total_frames (release_boot_frame l n a st) = pm_total_frames st"
    by (simp add: release_boot_frame_def Let_def)
  have "ledger_wf (release_boot_frame l n a st)"
    using assms(1) by (auto simp: release_boot_frame_def Let_def boot_counted_def ledger_wf_def)
  moreover have "pm_free_frames (release_boot_frame l n a st) =
      word_of_nat (card (free_set (release_boot_frame l n a st)))"
    unfolding fs using assms by (auto simp: release_boot_frame_def Let_def boot_counted_def)
  ultimately show "boot_counted (release_boot_frame l n a st)" by (simp add: boot_counted_def)
qed

lemma release_frames_counted:
  fixes l n :: u64
  assumes "boot_counted st" and "distinct (map (\<lambda>a. a div PAGE_SIZE) as)"
    and "(\<lambda>a. a div PAGE_SIZE) ` set as \<inter> free_set st = {}" and "\<forall>a\<in>set as. PAGE_SIZE dvd a"
  defines "st' \<equiv> fold (release_boot_frame l n) as st"
  shows "boot_counted st' \<and> pm_total_frames st' = pm_total_frames st \<and> free_set st \<subseteq> free_set st' \<and>
    free_set st' \<subseteq> free_set st \<union> ((\<lambda>a. a div PAGE_SIZE) ` set as - ledger_frames l n)"
  unfolding st'_def using assms(1-4)
proof (induction as arbitrary: st)
  case (Cons a as)
  note R = release_frame_counted[OF Cons.prems(1), of a l n]
  let ?s = "release_boot_frame l n a st"
  have aa: "a div PAGE_SIZE * PAGE_SIZE = a" using Cons.prems(4) by simp
  have "boot_counted ?s" "(\<lambda>a. a div PAGE_SIZE) ` set as \<inter> free_set ?s = {}"
    using R Cons.prems by auto
  from Cons.IH[OF this(1) _ this(2)] have "boot_counted (fold (release_boot_frame l n) as ?s) \<and>
     pm_total_frames (fold (release_boot_frame l n) as ?s) = pm_total_frames ?s \<and>
     free_set ?s \<subseteq> free_set (fold (release_boot_frame l n) as ?s) \<and>
     free_set (fold (release_boot_frame l n) as ?s)
       \<subseteq> free_set ?s \<union> ((\<lambda>a. a div PAGE_SIZE) ` set as - ledger_frames l n)"
    using Cons.prems by simp
  moreover have "free_set ?s \<subseteq> free_set st \<union> ({a div PAGE_SIZE} - ledger_frames l n)"
    using R(2) Cons.prems aa by (auto simp: ledger_frames_def)
  moreover have "free_set st \<subseteq> free_set ?s" using R(2) Cons.prems by auto
  moreover have "pm_total_frames ?s = pm_total_frames st" using R(3) Cons.prems by simp
  ultimately show ?case by auto
qed auto

lemma page_addresses_distinct: "distinct (map (\<lambda>a. a div PAGE_SIZE) (page_addresses s e))"
  by (auto simp: page_addresses_def distinct_map inj_on_def PAGE_SIZE_def)

lemma round_up_nat:
  fixes x n :: nat
  assumes "0 < n"
  shows "(x + (n - 1)) div n * n = (if x mod n = 0 then x else x + (n - x mod n))"
proof (cases "x mod n = 0")
  case True
  then obtain q where "x = n * q" by auto
  then show ?thesis using assms div_mult_self4[of n q "n - 1"] by simp
next
  case False
  define q m where "q = x div n" and "m = x mod n"
  have x: "x = n * q + m" by (simp add: q_def m_def)
  have m: "0 < m" "m < n" using False assms by (auto simp: m_def)
  have "x + (n - 1) = n * Suc q + (m - 1)" using x m by simp
  then have "(x + (n - 1)) div n = Suc q + (m - 1) div n"
    using assms div_mult_self4[of n "Suc q" "m - 1"] by simp
  also have "\<dots> = Suc q" using m by simp
  finally show ?thesis using x m False by (simp add: m_def[symmetric] algebra_simps)
qed

lemma align_up_unat:
  assumes "align_up_u64 v page64 \<noteq> - 1"
  shows "unat (align_up_u64 v page64) = (unat v + 4095) div 4096 * 4096"
proof -
  let ?r = "v mod 4096" and ?d = "4096 - v mod 4096"
  have r: "unat ?r = unat v mod 4096" by (simp add: unat_mod)
  show ?thesis
  proof (cases "?r = 0")
    case True
    then have "unat v mod 4096 = 0" using r by (metis unat_0)
    then have "(unat v + 4095) div 4096 * 4096 = unat v"
      using round_up_nat[of 4096 "unat v"] by simp
    with True show ?thesis by (simp add: align_up_u64_def page64_def)
  next
    case False
    have "?r < 4096" by (simp add: word_less_nat_alt r)
    then have d: "unat ?d = 4096 - unat v mod 4096"
      using unat_sub[of ?r 4096] r by (simp add: less_imp_le)
    have "\<not> v > - 1 - ?d" and eq: "align_up_u64 v page64 = v + ?d"
      using assms False by (auto simp: align_up_u64_def page64_def Let_def split: if_splits)
    then have "unat v \<le> unat (- 1 - ?d)" by (simp add: word_le_nat_alt not_less)
    moreover have "unat (- 1 - ?d) = 2 ^ 64 - 1 - unat ?d"
      using unat_sub[of ?d "- 1"] by (simp add: unsigned_minus_1_eq_mask mask_eq_exp_minus_1)
    ultimately have "unat v + unat ?d < 2 ^ 64" using d by simp
    then have "unat (v + ?d) = unat v + unat ?d" by (simp add: unat_plus_if')
    moreover have "unat v mod 4096 \<noteq> 0" using False r by (metis unat_eq_zero)
    then have "(unat v + 4095) div 4096 * 4096 = unat v + (4096 - unat v mod 4096)"
      using round_up_nat[of 4096 "unat v"] by simp
    ultimately show ?thesis using eq d by simp
  qed
qed

lemma align_down_unat: "unat (align_down_u64 v page64) = unat v div 4096 * 4096"
proof -
  have "v mod 4096 \<le> v" by (simp add: word_le_nat_alt unat_mod)
  then have "unat (v - v mod 4096) = unat v - unat v mod 4096" by (simp add: unat_sub unat_mod)
  then show ?thesis by (simp add: align_down_u64_def page64_def minus_mod_eq_div_mult)
qed

lemma release_entry_counted:
  assumes "boot_counted st" and "entry_frames e \<inter> free_set st = {}"
  shows "boot_counted (release_entry l n e st) \<and> pm_total_frames (release_entry l n e st) = pm_total_frames st
    \<and> free_set st \<subseteq> free_set (release_entry l n e st)
    \<and> free_set (release_entry l n e st) \<subseteq> free_set st \<union> (entry_frames e - ledger_frames l n)"
proof -
  obtain s f where sf: "entry_range e = (s, f)" by fastforce
  show ?thesis
  proof (cases "me_type e = LIMINE_MEMMAP_USABLE \<and> s \<noteq> - 1 \<and> s < f")
    case False
    then have "release_entry l n e st = st"
      using sf by (auto simp: release_entry_def entry_range_def Let_def)
    then show ?thesis using assms(1) by auto
  next
    case True
    define st1 where "st1 = st\<lparr>pm_candidate_frames := pm_candidate_frames st + (f - s) div page64,
                 pm_quarantine_frames := pm_quarantine_frames st
                   + (s - me_base e) div page64 + (me_base e + me_length e - f) div page64\<rparr>"
    have run: "release_entry l n e st = fold (release_boot_frame l n) (page_addresses s f) st1"
      using True sf by (auto simp: release_entry_def entry_range_def Let_def st1_def)
    have same: "boot_counted st1" "free_set st1 = free_set st" "pm_total_frames st1 = pm_total_frames st"
      using assms(1) by (auto simp: st1_def boot_counted_def ledger_wf_def free_set_def)
    have ef: "entry_frames e = (\<lambda>a. a div PAGE_SIZE) ` set (page_addresses s f)"
      using True sf by (simp add: entry_frames_def)
    have "PAGE_SIZE dvd unat s"
      using align_up_unat[of "me_base e"] True sf by (auto simp: entry_range_def PAGE_SIZE_def)
    then have "\<forall>a\<in>set (page_addresses s f). PAGE_SIZE dvd a"
      by (auto simp: page_addresses_def)
    from release_frames_counted[OF same(1) page_addresses_distinct _ this, of l n] assms(2)
    show ?thesis unfolding run same ef by blast
  qed
qed

lemma release_entries_counted:
  assumes "boot_counted st" and "usable_disjoint es" and "\<forall>e\<in>set es. entry_frames e \<inter> free_set st = {}"
  shows "boot_counted (fold (release_entry l n) es st)
    \<and> pm_total_frames (fold (release_entry l n) es st) = pm_total_frames st
    \<and> free_set (fold (release_entry l n) es st)
        \<subseteq> free_set st \<union> ((\<Union>e\<in>set es. entry_frames e) - ledger_frames l n)"
  using assms
proof (induction es arbitrary: st)
  case (Cons e es)
  let ?s = "release_entry l n e st"
  note R = release_entry_counted[OF Cons.prems(1), of e l n]
  have "boot_counted ?s" "\<forall>e'\<in>set es. entry_frames e' \<inter> free_set ?s = {}"
    using R Cons.prems by (simp, fastforce)
  from Cons.IH[OF this(1) _ this(2)] R Cons.prems show ?case by auto
qed simp

lemma boot_state_counted:
  assumes "T \<le> 8 * B" "B = (T + 7) div 8"
  shows "free_set (st\<lparr>pm_total_frames := T, pm_bitmap := replicate B 0xFF, pm_free_frames := c\<rparr>) = {}"
proof -
  have "bitmap_test (replicate B 0xFF) f" if "f < T" for f
  proof -
    have "f div 8 < B" using that assms by auto
    moreover have "bit (0xFF :: u8) (f mod 8)"
    proof -
      have "f mod 8 < 8" by simp
      then have "f mod 8 \<in> {0, 1, 2, 3, 4, 5, 6, 7}" by (simp; arith)
      then show ?thesis by (elim insertE) simp_all
    qed
    ultimately show ?thesis by (simp add: bitmap_test_iff)
  qed
  then show ?thesis by (auto simp: free_set_def)
qed

lemma total_frames_buddy_init:
  "pm_total_frames (pmm_buddy_init_from_free_frames st) = pm_total_frames st"
proof -
  have "pm_total_frames (buddy_init_loop idx s) = pm_total_frames s" for idx s
  proof (induction idx s rule: buddy_init_loop.induct)
    case (1 idx s)
    then show ?case
      by (subst buddy_init_loop.simps) (simp add: Let_def pmm_buddy_push_def)
  qed
  then show ?thesis by (simp add: pmm_buddy_init_from_free_frames_def)
qed

lemma find_ledger_bound:
  "find_ledger es needed = Some l \<Longrightarrow> unat (l + needed) = unat l + unat needed"
proof (induction es needed rule: find_ledger.induct)
  case (2 e es needed)
  let ?s = "align_up_u64 (me_base e) page64" and ?f = "align_down_u64 (me_base e + me_length e) page64"
  show ?case
  proof (cases "me_type e = LIMINE_MEMMAP_USABLE \<and> me_length e \<noteq> 0 \<and> ?s \<noteq> - 1 \<and> ?s < ?f
      \<and> ?f - ?s \<ge> needed")
    case True
    then have l: "l = ?s" using 2(4) by (auto simp: Let_def not_le[symmetric] split: if_splits)
    have "unat needed \<le> unat (?f - ?s)" "unat (?f - ?s) = unat ?f - unat ?s" "unat ?s < unat ?f"
      using True by (auto simp: word_le_nat_alt word_less_nat_alt unat_sub)
    moreover have "unat ?f < 2 ^ 64" by (rule unat_u64_bound)
    ultimately have "unat l + unat needed < 2 ^ 64" unfolding l by linarith
    then show ?thesis by (simp add: unat_plus_if')
  next
    case False
    then show ?thesis using 2 by (auto simp: Let_def not_less split: if_splits)
  qed
qed simp

text \<open>Success of \<open>pmm_init\<close>, with its intermediate values named.\<close>

lemma pmm_init_success:
  assumes "pmm_init (Some es) (Some off) st0 = Inr st"
  obtains max_addr l needed st1 where
    "memmap_scan es 0 = Inr max_addr"
    "unat needed \<ge> (unat (max_addr div page64) + 7) div 8 + 16 * unat (max_addr div page64)"
    "find_ledger es needed = Some l"
    "ledger_wf st1" "pm_total_frames st1 = unat (max_addr div page64)" "free_set st1 = {}"
    "pm_free_frames st1 = 0"
    "st = pmm_buddy_init_from_free_frames (fold (release_entry l needed) es st1)"
    "PMM_MIN_FREE_FRAMES \<le> pm_free_frames st"
proof -
  obtain max_addr where scan: "memmap_scan es 0 = Inr max_addr"
    using assms by (auto simp: pmm_init_def split: sum.splits)
  define frames where "frames = max_addr div page64"
  define bs where "bs = (frames + 7) div 8"
  define ms where "ms = frames * 16"
  define needed where "needed = align_up_u64 (bs + ms) page64"
  note defs = frames_def[symmetric] bs_def[symmetric] ms_def[symmetric] needed_def[symmetric]
  have big: "\<not> frames > (- 1) div 16" and fit: "\<not> bs > (- 1) - ms" and al: "needed \<noteq> - 1"
    using assms scan by (auto simp: pmm_init_def Let_def sizeof_frame_metadata_def defs split: if_splits)
  obtain l where led: "find_ledger es needed = Some l"
    using assms scan big fit al
    by (auto simp: pmm_init_def Let_def sizeof_frame_metadata_def defs split: if_splits option.splits)
  define st1 where "st1 = st0\<lparr>pm_hhdm_offset := off, pm_max_address := max_addr,
                            pm_total_frames := unat frames,
                            pm_reserved_ledger_frames := needed div page64,
                            pm_bitmap := replicate (unat bs) 0xFF,
                            pm_metadata := replicate (unat frames) void_metadata,
                            pm_free_frames := 0, pm_quarantine_frames := 0,
                            pm_candidate_frames := 0\<rparr>"
  have st: "st = pmm_buddy_init_from_free_frames (fold (release_entry l needed) es st1)"
    and floor: "PMM_MIN_FREE_FRAMES \<le> pm_free_frames st"
    using assms scan big fit al led
    by (auto simp: pmm_init_def Let_def sizeof_frame_metadata_def defs st1_def[symmetric] not_less
        split: if_splits)
  have fr: "unat frames < 2 ^ 52"
    using unat_u64_bound[of max_addr] by (simp add: frames_def page64_def unat_div less_mult_imp_div_less)
  then have "unat (frames + 7) = unat frames + 7" by (simp add: unat_plus_if')
  then have ubs: "unat bs = (unat frames + 7) div 8" by (simp add: bs_def unat_div)
  have ums: "unat ms = 16 * unat frames"
    using fr by (simp add: ms_def unat_mult_lem[THEN iffD1])
  have "unat (bs + ms) = unat bs + unat ms"
  proof -
    have "unat bs + unat ms \<le> 17 * unat frames + 7" using ubs ums by simp
    also have "\<dots> < 2 ^ 64" using fr by simp
    finally have "unat bs + unat ms < 2 ^ 64" .
    then show ?thesis by (simp add: unat_plus_if')
  qed
  moreover have "unat needed = (unat (bs + ms) + 4095) div 4096 * 4096"
    using align_up_unat al by (simp add: needed_def)
  then have "unat (bs + ms) \<le> unat needed"
    using round_up_nat[of 4096 "unat (bs + ms)"] by (simp split: if_splits)
  ultimately have "unat needed \<ge> (unat frames + 7) div 8 + 16 * unat frames" using ubs ums by simp
  moreover have "free_set st1 = {}"
    using boot_state_counted[of "unat frames" "unat bs"] ubs
    by (simp add: st1_def free_set_def)
  moreover have "ledger_wf st1" by (simp add: ledger_wf_def st1_def ubs)
  ultimately show ?thesis
    using that[OF scan _ led _ _ _ _ st floor] by (simp add: frames_def st1_def)
qed

definition ledger_region :: "u64 \<Rightarrow> u64 \<Rightarrow> nat set" where
  "ledger_region l needed = {f. unat l \<le> f * PAGE_SIZE \<and> f * PAGE_SIZE < unat l + unat needed}"

lemma init_establishes:
  assumes run: "pmm_init (Some es) (Some off) st0 = Inr st"
    and disj: "usable_disjoint es" and T: "pm_total_frames st < 2 ^ 32 - 1"
  shows "pmm_inv st \<and> PMM_MIN_FREE_FRAMES \<le> pm_free_frames st
    \<and> free_set st \<subseteq> (\<Union>e\<in>set es. entry_frames e)
    \<and> (\<exists>l needed. find_ledger es needed = Some l
         \<and> unat needed \<ge> (pm_total_frames st + 7) div 8 + 16 * pm_total_frames st
         \<and> free_set st \<inter> ledger_region l needed = {})"
proof -
  obtain max_addr l needed st1 where
    needed: "unat needed \<ge> (unat (max_addr div page64) + 7) div 8 + 16 * unat (max_addr div page64)"
    and led: "find_ledger es needed = Some l"
    and s1: "ledger_wf st1" "pm_total_frames st1 = unat (max_addr div page64)" "free_set st1 = {}"
      "pm_free_frames st1 = 0"
    and st: "st = pmm_buddy_init_from_free_frames (fold (release_entry l needed) es st1)"
    and fl: "PMM_MIN_FREE_FRAMES \<le> pm_free_frames st"
    by (rule pmm_init_success[OF run])
  let ?s2 = "fold (release_entry l needed) es st1"
  have "boot_counted st1" using s1 by (simp add: boot_counted_def)
  note R = release_entries_counted[OF this disj, of l needed]
  have R2: "boot_counted ?s2" "pm_total_frames ?s2 = pm_total_frames st1"
      "free_set ?s2 \<subseteq> (\<Union>e\<in>set es. entry_frames e) - ledger_frames l needed"
    using R s1(3) by auto
  have tot: "pm_total_frames st = pm_total_frames ?s2"
    by (simp add: st total_frames_buddy_init)
  have B: "pmm_inv st" "free_set st = free_set ?s2"
    using buddy_init_inv[of ?s2] R2(1) T tot by (auto simp: st boot_counted_def)
  have "ledger_frames l needed = ledger_region l needed"
    using find_ledger_bound[OF led] by (simp add: ledger_frames_def ledger_region_def)
  then have "free_set st \<inter> ledger_region l needed = {}" using B R2 by auto
  moreover have "free_set st \<subseteq> (\<Union>e\<in>set es. entry_frames e)" using B R2 by auto
  ultimately show ?thesis using B(1) fl led needed tot R2(2) s1(2) by auto
qed

section \<open>Consequences for the entry points\<close>

lemma alloc_ex_count:
  assumes "pmm_inv st" and "pmm_inv st'" and "allocated e pol st phys st'"
  shows "pm_free_frames st' = pm_free_frames st - 2 ^ pol_order pol"
  using assms count_remove[of "block_frames (pol_order pol) (unat phys div PAGE_SIZE)" st "pol_order pol"]
  by (auto simp: pmm_inv_def allocated_def Let_def)

lemma alloc_free_roundtrip:
  assumes inv: "pmm_inv st" and run: "pmm_alloc_ex e1 (Some pol) st = (phys, st')" and nz: "phys \<noteq> 0"
  shows "\<exists>st''. pmm_free_ex e2 phys (pol_order pol) st' = Some st'' \<and> pmm_inv st''
    \<and> free_set st'' = free_set st \<and> pm_free_frames st'' = pm_free_frames st"
proof -
  have inv': "pmm_inv st'" and al: "allocated e1 pol st phys st'"
    using alloc_ex_inv[OF inv run] nz by auto
  obtain st'' where "pmm_free_ex e2 phys (pol_order pol) st' = Some st''" "pmm_inv st''"
      "released e2 (pol_order pol) st' phys st''"
    using free_ex_inv[OF inv', of phys "pol_order pol" e2] al by (auto simp: allocated_def Let_def)
  then show ?thesis
    using al alloc_ex_count[OF inv inv' al] by (auto simp: released_def allocated_def Let_def)
qed

lemma transfer_inv:
  assumes "pmm_inv st" and "pmm_transfer epoch phys owner color state st = (ok, st')"
  shows "pmm_inv st' \<and> free_set st' = free_set st \<and> pm_mem st' = pm_mem st
    \<and> ok = (unat phys div PAGE_SIZE < pm_total_frames st \<and> unat phys div PAGE_SIZE \<notin> free_set st)
    \<and> own_of st' = (if ok then (own_of st)(unat phys div PAGE_SIZE := (owner, color, ucast epoch))
                    else own_of st)"
proof (cases ok)
  case False
  then show ?thesis using assms by (auto simp: pmm_transfer_def Let_def free_set_def split: if_splits)
next
  case True
  let ?i = "unat phys div PAGE_SIZE"
  obtain L where L: "lists_inv st L {}" "coalesced L" using assms(1) by (auto simp: pmm_inv_def)
  have i: "?i < pm_total_frames st" "?i \<notin> free_set st"
    and st': "st' = md_update ?i (\<lambda>m. m\<lparr>fm_owner_token := owner, fm_color := color, fm_state := state,
              fm_epoch := ucast epoch\<rparr>) st"
    using assms(2) True by (auto simp: pmm_transfer_def Let_def free_set_def split: if_splits)
  have "?i \<notin> lists_frames L" using i(2) buddy_invD(8)[OF lists_inv_buddy(1)[OF L(1)]] by blast
  then have "lists_inv st' L {}" unfolding st' by (rule lists_inv_md_update[OF L(1) i(1)])
  then have "pmm_inv st'" using assms(1) L(2) unfolding st' pmm_inv_def by auto
  moreover have "own_of st' = (own_of st)(?i := (owner, color, ucast epoch))"
    using i(1) lists_inv_buddy(2)[OF L(1)]
    by (auto simp: st' own_of_def fun_eq_iff md_update_nth ledger_wf_def)
  ultimately show ?thesis using True i unfolding st' by simp
qed

lemma alloc_frame_zero:
  assumes inv: "pmm_inv st" and fs: "free_set st = {0}"
  shows "\<exists>st'. pmm_alloc epoch color owner st = (0, st') \<and> free_set st' = {}
    \<and> pm_free_frames st' = pm_free_frames st - 1"
proof -
  define pol where "pol = \<lparr>pol_color = color, pol_owner_token = owner,
       pol_preferred_zone = PMM_ZONE_ANY, pol_trust_level = PMM_TRUST_VERIFIED, pol_order = 0\<rparr>"
  define st0 where "st0 = st\<lparr>pm_policy_marker_emitted := True\<rparr>"
  have acc: "policy_accepted pol" by (simp add: policy_accepted_def pol_def)
  have run: "pmm_alloc epoch color owner st = pmm_alloc_ex epoch (Some pol) st"
    by (simp add: pmm_alloc_def pol_def)
  have inv0: "pmm_inv st0" and fs0: "free_set st0 = {0}" using inv fs by (simp_all add: st0_def free_set_def)
  have T: "0 < pm_total_frames st0" using fs0 free_set_bound[of 0 st0] by simp
  from inv0 show ?thesis
  proof (cases rule: alloc_block_cases[where ord = 0 and z = PMM_ZONE_ANY])
    case none
    have "block_ok (pm_total_frames st0) PMM_ZONE_DMA 0 0"
      using T by (simp add: block_ok_def frame_zone_cases)
    then show ?thesis using none(2)[of PMM_ZONE_DMA 0] fs0 by (simp add: policy_zones_def block_frames_def)
  next
    case (some z i st' L)
    then have "i = 0" and "free_set st' = {}" and "pm_free_frames st' = pm_free_frames st - 1"
      using fs0 by (auto simp: block_taken_def block_frames_def st0_def)
    then show ?thesis
      using some(1) acc run by (auto simp: alloc_ex_accepted pol_def st0_def)
  qed
qed

lemma release_frame_counters:
  "pm_free_frames (release_boot_frame l n a st) = pm_free_frames st
     + of_bool (\<not> (unat l \<le> a \<and> a < unat (l + n)) \<and> a div PAGE_SIZE < pm_total_frames st)"
  "pm_quarantine_frames (release_boot_frame l n a st) = pm_quarantine_frames st
     + of_bool (\<not> (unat l \<le> a \<and> a < unat (l + n)) \<and> \<not> a div PAGE_SIZE < pm_total_frames st)"
  "pm_candidate_frames (release_boot_frame l n a st) = pm_candidate_frames st"
  "pm_total_frames (release_boot_frame l n a st) = pm_total_frames st"
  by (auto simp: release_boot_frame_def Let_def md_update_def)

lemma release_frames_counters:
  "pm_free_frames (fold (release_boot_frame l n) as st) = pm_free_frames st + word_of_nat (length (filter
     (\<lambda>a. \<not> (unat l \<le> a \<and> a < unat (l + n)) \<and> a div PAGE_SIZE < pm_total_frames st) as))"
  "pm_quarantine_frames (fold (release_boot_frame l n) as st) = pm_quarantine_frames st + word_of_nat (length (filter
     (\<lambda>a. \<not> (unat l \<le> a \<and> a < unat (l + n)) \<and> \<not> a div PAGE_SIZE < pm_total_frames st) as))"
  "pm_candidate_frames (fold (release_boot_frame l n) as st) = pm_candidate_frames st"
  by (induction as arbitrary: st) (simp_all add: release_frame_counters)

lemma buddy_init_counters:
  "pm_free_frames (pmm_buddy_init_from_free_frames st) = pm_free_frames st"
  "pm_quarantine_frames (pmm_buddy_init_from_free_frames st) = pm_quarantine_frames st"
  "pm_candidate_frames (pmm_buddy_init_from_free_frames st) = pm_candidate_frames st"
proof -
  have "pm_free_frames (buddy_init_loop idx s) = pm_free_frames s
    \<and> pm_quarantine_frames (buddy_init_loop idx s) = pm_quarantine_frames s
    \<and> pm_candidate_frames (buddy_init_loop idx s) = pm_candidate_frames s" for idx s
  proof (induction idx s rule: buddy_init_loop.induct)
    case (1 idx s)
    then show ?case
      by (subst (1 2 3) buddy_init_loop.simps) (simp add: Let_def pmm_buddy_push_def set_head_def md_update_def)
  qed
  then show "pm_free_frames (pmm_buddy_init_from_free_frames st) = pm_free_frames st"
  "pm_quarantine_frames (pmm_buddy_init_from_free_frames st) = pm_quarantine_frames st"
  "pm_candidate_frames (pmm_buddy_init_from_free_frames st) = pm_candidate_frames st"
    by (auto simp: pmm_buddy_init_from_free_frames_def)
qed

section \<open>A small machine\<close>

definition sample_ledger :: pmm_st where
  "sample_ledger = \<lparr>pm_bitmap = [0x01], pm_metadata = replicate 8 void_metadata, pm_total_frames = 8,
     pm_free_frames = 7, pm_hhdm_offset = 0xffff800000000000, pm_max_address = 0x8000,
     pm_heads = (\<lambda>_ _. PMM_STACK_END), pm_law9_temporal_scour_count = 0,
     pm_law9_same_epoch_zero_count = 0, pm_law9_marker_emitted = False,
     pm_policy_marker_emitted = False, pm_quarantine_frames = 0, pm_candidate_frames = 7,
     pm_reserved_ledger_frames = 1, pm_mem = (\<lambda>_. 0xAA)\<rparr>"

definition sample_pmm :: pmm_st where
  "sample_pmm = pmm_buddy_init_from_free_frames sample_ledger"

lemma free_set_filter:
  "free_set st = set (filter (\<lambda>f. \<not> bitmap_test (pm_bitmap st) f) [0..<pm_total_frames st])"
  by (auto simp: free_set_def)

lemma sample_ledger_free: "free_set sample_ledger = {1, 2, 3, 4, 5, 6, 7}"
  unfolding free_set_filter by code_simp

lemma sample_pmm_inv: "pmm_inv sample_pmm" and sample_pmm_free: "free_set sample_pmm = {1, 2, 3, 4, 5, 6, 7}"
proof -
  have "card (free_set sample_ledger) = 7" by (simp add: sample_ledger_free)
  then have c: "pm_free_frames sample_ledger = word_of_nat (card (free_set sample_ledger))"
    by (simp add: sample_ledger_def)
  have "ledger_wf sample_ledger" "pm_total_frames sample_ledger < 2 ^ 32 - 1"
    by (simp_all add: sample_ledger_def ledger_wf_def)
  from buddy_init_inv[OF this c] show "pmm_inv sample_pmm" "free_set sample_pmm = {1, 2, 3, 4, 5, 6, 7}"
    by (simp_all add: sample_pmm_def sample_ledger_free)
qed

definition sample_policy :: pmm_alloc_policy_t where
  "sample_policy = \<lparr>pol_color = COLOR_SECURE, pol_owner_token = 42, pol_preferred_zone = PMM_ZONE_ANY,
     pol_trust_level = PMM_TRUST_VERIFIED, pol_order = 1\<rparr>"

lemma sample_alloc: "fst (pmm_alloc_ex 3 (Some sample_policy) sample_pmm) = 0x2000"
  by code_simp

lemma sample_pmm_total: "pm_total_frames sample_pmm = 8"
  by (simp add: sample_pmm_def total_frames_buddy_init sample_ledger_def)

text \<open>A machine whose only free frame is frame 0.\<close>

definition zero_ledger :: pmm_st where
  "zero_ledger = sample_ledger\<lparr>pm_bitmap := [0xFE], pm_free_frames := 1\<rparr>"

definition zero_pmm :: pmm_st where
  "zero_pmm = pmm_buddy_init_from_free_frames zero_ledger"

lemma zero_pmm_inv: "pmm_inv zero_pmm" and zero_pmm_free: "free_set zero_pmm = {0}"
proof -
  have f: "free_set zero_ledger = {0}" unfolding free_set_filter by code_simp
  have "ledger_wf zero_ledger" "pm_total_frames zero_ledger < 2 ^ 32 - 1"
    by (simp_all add: zero_ledger_def sample_ledger_def ledger_wf_def)
  from buddy_init_inv[OF this] f show "pmm_inv zero_pmm" "free_set zero_pmm = {0}"
    by (simp_all add: zero_pmm_def zero_ledger_def)
qed

text \<open>A bootloader memory map with 144 usable frames.\<close>

definition boot_memmap :: "limine_memmap_entry list" where
  "boot_memmap = [\<lparr>me_base = 0x0, me_length = 0x1000, me_type = LIMINE_MEMMAP_OTHER\<rparr>,
    \<lparr>me_base = 0x1000, me_length = 0x90000, me_type = LIMINE_MEMMAP_USABLE\<rparr>]"

lemma boot_scan: "memmap_scan boot_memmap 0 = Inr 0x91000" by code_simp
lemma boot_find: "find_ledger boot_memmap 0x1000 = Some 0x1000" by code_simp

lemma boot_pages: "length (filter (\<lambda>a. \<not> (unat (0x1000::u64) \<le> a \<and> a < unat (0x1000 + 0x1000 :: u64)) \<and> a div PAGE_SIZE < 145)
    (page_addresses 0x1000 0x91000)) = 143"
  "filter (\<lambda>a. \<not> (unat (0x1000::u64) \<le> a \<and> a < unat (0x1000 + 0x1000 :: u64)) \<and> \<not> a div PAGE_SIZE < 145)
    (page_addresses 0x1000 0x91000) = []"
proof -
  have p: "page_addresses 0x1000 0x91000 = 4096 # map (\<lambda>k. 4096 + 4096 * k) [1..<144]"
    by (simp add: page_addresses_def PAGE_SIZE_def upt_conv_Cons)
  show "length (filter (\<lambda>a. \<not> (unat (0x1000::u64) \<le> a \<and> a < unat (0x1000 + 0x1000 :: u64)) \<and> a div PAGE_SIZE < 145)
    (page_addresses 0x1000 0x91000)) = 143"
   unfolding p by (simp add: filter_map o_def PAGE_SIZE_def filter_True)
  show "filter (\<lambda>a. \<not> (unat (0x1000::u64) \<le> a \<and> a < unat (0x1000 + 0x1000 :: u64)) \<and> \<not> a div PAGE_SIZE < 145)
    (page_addresses 0x1000 0x91000) = []"
   unfolding p by (simp add: filter_map o_def PAGE_SIZE_def filter_False)
qed

lemma boot_range: "align_up_u64 4096 4096 = 4096" "align_down_u64 593920 4096 = 593920"
  "align_up_u64 2339 4096 = 4096" by code_simp+

lemma boot_run: "\<exists>st. pmm_init (Some boot_memmap) (Some 0xffff800000000000) sample_ledger = Inr st
   \<and> pm_total_frames st = 145"
proof -
  define st1 where "st1 = sample_ledger\<lparr>pm_hhdm_offset := 0xffff800000000000, pm_max_address := 0x91000,
      pm_total_frames := 145, pm_reserved_ledger_frames := 1, pm_bitmap := replicate 19 0xFF,
      pm_metadata := replicate 145 void_metadata, pm_free_frames := 0, pm_quarantine_frames := 0,
      pm_candidate_frames := 0\<rparr>"
  define st2 where "st2 = fold (release_entry 0x1000 0x1000) boot_memmap st1"
  have st2: "st2 = fold (release_boot_frame 0x1000 0x1000) (page_addresses 0x1000 0x91000)
      (st1\<lparr>pm_candidate_frames := 144, pm_quarantine_frames := 0\<rparr>)"
    by (simp add: st2_def boot_memmap_def release_entry_def Let_def page64_def boot_range st1_def)
  have cnt: "pm_free_frames st2 = 143" "pm_quarantine_frames st2 = 0" "pm_candidate_frames st2 = 144"
    unfolding st2 using boot_pages by (simp_all add: release_frames_counters st1_def)
  have "pmm_init (Some boot_memmap) (Some 0xffff800000000000) sample_ledger
      = Inr (pmm_buddy_init_from_free_frames st2)"
    using cnt by (simp add: pmm_init_def boot_scan page64_def sizeof_frame_metadata_def boot_range boot_find
        st1_def[symmetric] st2_def[symmetric] buddy_init_counters u64_percent_def
        PMM_MIN_FREE_FRAMES_def PMM_MAX_QUARANTINE_PERCENT_def)
  moreover have "pm_total_frames st2 = 145"
    unfolding st2 using fold_same_field[of pm_total_frames "release_boot_frame 0x1000 0x1000"]
    by (simp add: release_frame_counters st1_def)
  ultimately show ?thesis by (simp add: total_frames_buddy_init)
qed

section \<open>The manager as a pool of frames\<close>

definition frame_alloc :: "u64 \<times> security_color_t \<times> u64 \<Rightarrow> pmm_st \<Rightarrow> u64 option \<times> pmm_st" where
  "frame_alloc a st = (case a of (epoch, color, owner) \<Rightarrow>
     case pmm_alloc epoch color owner st of (phys, st') \<Rightarrow> (if phys = 0 then None else Some phys, st'))"

definition frame_release :: "u64 \<Rightarrow> u64 \<Rightarrow> pmm_st \<Rightarrow> pmm_st" where
  "frame_release epoch phys st = (case pmm_free epoch phys st of Some st' \<Rightarrow> st' | None \<Rightarrow> st)"

definition used_frames :: "pmm_st \<Rightarrow> u64 set" where
  "used_frames st = {p. unat p mod PAGE_SIZE = 0 \<and> unat p div PAGE_SIZE < pm_total_frames st \<and>
     unat p div PAGE_SIZE \<notin> free_set st}"

lemma alloc_free_set:
  assumes inv: "pmm_inv st" and run: "pmm_alloc_ex epoch (Some pol) st = (phys, st')"
  shows "free_set st' \<subseteq> free_set st \<and> pm_total_frames st' = pm_total_frames st \<and> (phys = 0 \<longrightarrow> pm_mem st' = pm_mem st)"
proof (cases "policy_accepted pol")
  case False
  then show ?thesis using assms by (auto simp: alloc_ex_rejected free_set_def)
next
  case acc: True
  define st0 where "st0 = st\<lparr>pm_policy_marker_emitted := True\<rparr>"
  have inv0: "pmm_inv st0" and same: "free_set st0 = free_set st" "pm_total_frames st0 = pm_total_frames st"
    using inv by (simp_all add: st0_def free_set_def)
  show ?thesis
  proof (cases "phys = 0")
    case False
    then show ?thesis using alloc_ex_inv[OF assms] by (auto simp: allocated_def Let_def)
  next
    case True
    from inv0 show ?thesis
    proof (cases rule: alloc_block_cases[where ord = "pol_order pol" and z = "pol_preferred_zone pol"])
      case none
      then show ?thesis using run acc same by (auto simp: alloc_ex_accepted st0_def)
    next
      case (some z i st1 L)
      have "free_set st1 \<subseteq> free_set st" "pm_total_frames st1 = pm_total_frames st" "pm_mem st1 = pm_mem st"
        using some(3) same by (auto simp: block_taken_def same_rest_def st0_def)
      then show ?thesis using some(1) run acc True
        by (auto simp: alloc_ex_accepted st0_def split: if_splits)
    qed
  qed
qed

lemma same_frame:
  fixes p q :: u64
  assumes "unat p mod PAGE_SIZE = 0" "unat q mod PAGE_SIZE = 0" "unat p div PAGE_SIZE = unat q div PAGE_SIZE"
  shows "p = q"
proof -
  have "unat p = unat q" using assms by (metis div_mult_mod_eq)
  then show ?thesis by (simp add: word_unat_eq_iff)
qed

interpretation frame_pool: resource_pool frame_alloc frame_release used_frames pmm_inv
proof unfold_locales
  fix st st' :: pmm_st and a and r :: u64
  assume inv: "pmm_inv st" and run: "frame_alloc a st = (Some r, st')"
  obtain epoch color owner where a: "a = (epoch, color, owner)" by (cases a) auto
  define pol where "pol = \<lparr>pol_color = color, pol_owner_token = owner,
       pol_preferred_zone = PMM_ZONE_ANY, pol_trust_level = PMM_TRUST_VERIFIED, pol_order = 0\<rparr>"
  have ex: "pmm_alloc_ex epoch (Some pol) st = (r, st')" and r: "r \<noteq> 0"
    using run by (auto simp: frame_alloc_def a pmm_alloc_def pol_def split: prod.splits if_splits)
  have "pmm_inv st'" and al: "allocated epoch pol st r st'" using alloc_ex_inv[OF inv ex] r by auto
  let ?i = "unat r div PAGE_SIZE"
  have i: "unat r = ?i * PAGE_SIZE" "?i \<in> free_set st" "free_set st' = free_set st - {?i}"
      "pm_total_frames st' = pm_total_frames st"
    using al by (auto simp: allocated_def Let_def block_frames_def pol_def)
  moreover have m: "unat r mod PAGE_SIZE = 0" using i(1) by (metis mod_mult_self2_is_0)
  ultimately have "used_frames st' = insert r (used_frames st)"
    using free_set_bound[OF i(2)] same_frame[of _ r] by (auto simp: used_frames_def)
  then show "pmm_inv st' \<and> r \<notin> used_frames st \<and> used_frames st' = insert r (used_frames st)"
    using \<open>pmm_inv st'\<close> i(2) by (simp add: used_frames_def)
next
  fix st st' :: pmm_st and a :: "u64 \<times> security_color_t \<times> u64"
  assume inv: "pmm_inv st" and run: "frame_alloc a st = (None, st')"
  obtain epoch color owner where a: "a = (epoch, color, owner)" by (cases a) auto
  obtain pol where ex: "pmm_alloc_ex epoch (Some pol) st = (0, st')"
    using run by (auto simp: frame_alloc_def a pmm_alloc_def split: prod.splits if_splits)
  show "pmm_inv st' \<and> used_frames st \<subseteq> used_frames st'"
    using alloc_ex_inv[OF inv ex] alloc_free_set[OF inv ex] by (auto simp: used_frames_def)
next
  fix st :: pmm_st and r b :: u64
  assume inv: "pmm_inv st" and r: "r \<in> used_frames st"
  let ?i = "unat r div PAGE_SIZE"
  have ok: "block_ok (pm_total_frames st) (frame_zone ?i) 0 ?i" and "block_frames 0 ?i \<inter> free_set st = {}"
    using r by (auto simp: used_frames_def block_ok_def block_frames_def)
  then obtain st' where run: "pmm_free b r st = Some st'" and inv': "pmm_inv st'" and rel: "released b 0 st r st'"
    using free_ex_inv[OF inv, of r 0 b] by (auto simp: pmm_free_def)
  have "used_frames st' = used_frames st - {r}"
    using rel r same_frame[of _ r] by (auto simp: used_frames_def released_def block_frames_def)
  then show "pmm_inv (frame_release b r st) \<and> used_frames (frame_release b r st) = used_frames st - {r}"
    using run inv' by (simp add: frame_release_def)
qed

section \<open>The bytes of a frame\<close>

definition page :: "nat \<Rightarrow> nat set" where
  "page s = {s ..< s + PAGE_SIZE}"

lemma page_disjoint:
  assumes "s mod PAGE_SIZE = 0" and "t mod PAGE_SIZE = 0" and "s \<noteq> t"
  shows "page s \<inter> page t = {}"
proof -
  obtain a b where ab: "s = PAGE_SIZE * a" "t = PAGE_SIZE * b" using assms(1,2) by (meson dvdE mod_eq_0_iff_dvd)
  then have "Suc a \<le> b \<or> Suc b \<le> a" using assms(3) by (cases a b rule: linorder_cases) auto
  then have "s + PAGE_SIZE \<le> t \<or> t + PAGE_SIZE \<le> s"
    using ab mult_le_mono2[of "Suc a" b PAGE_SIZE] mult_le_mono2[of "Suc b" a PAGE_SIZE] by auto
  then show ?thesis by (auto simp: page_def)
qed

lemma pmm_mem_frame [simp]: "pmm_inv (pm\<lparr>pm_mem := m\<rparr>) = pmm_inv pm" "used_frames (pm\<lparr>pm_mem := m\<rparr>) = used_frames pm"
  by (simp_all add: pmm_inv_def used_frames_def free_set_def)

lemma pmm_alloc_frame:
  assumes inv: "pmm_inv pm" and run: "pmm_alloc e col ow pm = (phys, pm')"
  shows "pmm_inv pm'" and "used_frames pm \<subseteq> used_frames pm'"
    and "phys \<noteq> 0 \<Longrightarrow> phys \<notin> used_frames pm \<and> phys \<in> used_frames pm'"
    and "w \<in> used_frames pm \<Longrightarrow> x \<in> page (unat w) \<Longrightarrow> pm_mem pm' x = pm_mem pm x"
proof -
  have fa: "frame_alloc (e, col, ow) pm = (if phys = 0 then None else Some phys, pm')"
    using run by (simp add: frame_alloc_def)
  show "pmm_inv pm'" and "used_frames pm \<subseteq> used_frames pm'" and new: "phys \<noteq> 0 \<Longrightarrow> phys \<notin> used_frames pm \<and> phys \<in> used_frames pm'"
    using fa frame_pool.alloc_some[OF inv, of "(e, col, ow)" phys pm'] frame_pool.alloc_none[OF inv, of "(e, col, ow)" pm']
    by (cases "phys = 0"; auto)+
  obtain pol where ex: "pmm_alloc_ex e (Some pol) pm = (phys, pm')" and ord: "pol_order pol = 0"
    using run by (auto simp: pmm_alloc_def)
  show "pm_mem pm' x = pm_mem pm x" if w: "w \<in> used_frames pm" and x: "x \<in> page (unat w)"
  proof (cases "phys = 0")
    case True
    then show ?thesis using alloc_free_set[OF inv ex] by simp
  next
    case False
    have "allocated e pol pm phys pm'" using alloc_ex_inv[OF inv ex] False by simp
    then have m: "pm_mem pm' x = (if x \<in> page (unat phys) then 0 else pm_mem pm x)"
      by (simp add: allocated_def block_written_def Let_def ord page_def)
    have "unat w \<noteq> unat phys" using new[OF False] w by (auto simp: word_unat_eq_iff[symmetric])
    then have "page (unat w) \<inter> page (unat phys) = {}"
      by (rule page_disjoint[rotated 2]) (use w new[OF False] in \<open>auto simp: used_frames_def\<close>)
    then show ?thesis using m x by auto
  qed
qed

section \<open>Properties\<close>

text \<open>
  C1: allocation is sound.  From a state that satisfies the invariant, \<open>pmm_alloc_ex\<close>
  leaves a state that satisfies it, whatever the policy; and when it returns an address, the
  policy was acceptable and the block is page aligned, naturally aligned, inside the machine, in
  a zone the policy allows, was entirely free before and is entirely used after, every byte of it
  is zero, its frames carry the caller's token, colour and the current epoch, and no other byte of
  memory and no other frame's ownership has changed.
\<close>

theorem pmm_alloc_ex_sound:
  assumes "pmm_inv st" and "pmm_alloc_ex epoch (Some pol) st = (phys, st')"
  shows "pmm_inv st' \<and> (phys \<noteq> 0 \<longrightarrow> policy_accepted pol \<and> allocated epoch pol st phys st')"
  by (rule alloc_ex_inv[OF assms])

theorem pmm_alloc_ex_sound_witness:
  "\<exists>st'. pmm_alloc_ex 3 (Some sample_policy) sample_pmm = (0x2000, st') \<and> pmm_inv st'
     \<and> allocated 3 sample_policy sample_pmm 0x2000 st'"
proof -
  obtain phys st' where run: "pmm_alloc_ex 3 (Some sample_policy) sample_pmm = (phys, st')" by fastforce
  then have "phys = 0x2000" using sample_alloc by simp
  then show ?thesis using pmm_alloc_ex_sound[OF sample_pmm_inv run] run by simp
qed



text \<open>
  C2: release is correct and returns.  For a block that is inside the machine, naturally
  aligned and not free, \<open>pmm_free_ex\<close> terminates, keeps the invariant, adds exactly the
  frames of the block to the free set and their number to the counter, zeroes the block and
  clears its ownership.
\<close>

theorem pmm_free_ex_sound:
  assumes "pmm_inv st"
    and "block_ok (pm_total_frames st) (frame_zone (unat phys div PAGE_SIZE)) ord (unat phys div PAGE_SIZE)"
    and "block_frames ord (unat phys div PAGE_SIZE) \<inter> free_set st = {}"
  shows "\<exists>st'. pmm_free_ex epoch phys ord st = Some st' \<and> pmm_inv st' \<and> released epoch ord st phys st'"
  by (rule free_ex_inv[OF assms])

theorem pmm_free_ex_sound_witness:
  "\<exists>st'. pmm_free_ex 5 0 0 sample_pmm = Some st' \<and> pmm_inv st' \<and> released 5 0 sample_pmm 0 st'"
  by (rule pmm_free_ex_sound)
     (auto simp: sample_pmm_inv sample_pmm_free sample_pmm_total block_ok_def block_frames_def pmm_consts)

text \<open>
  C32: round trip.  Releasing what \<open>pmm_alloc_ex\<close> returned, with the same order, gives
  back exactly the free frames and the free-frame counter that there were before the allocation.
\<close>

theorem pmm_alloc_free_roundtrip:
  assumes "pmm_inv st" and "pmm_alloc_ex e1 (Some pol) st = (phys, st')" and "phys \<noteq> 0"
  shows "\<exists>st''. pmm_free_ex e2 phys (pol_order pol) st' = Some st'' \<and> pmm_inv st''
    \<and> free_set st'' = free_set st \<and> pm_free_frames st'' = pm_free_frames st"
  by (rule alloc_free_roundtrip[OF assms])

theorem pmm_alloc_free_roundtrip_witness:
  "\<exists>st' st''. pmm_alloc_ex 3 (Some sample_policy) sample_pmm = (0x2000, st')
     \<and> pmm_free_ex 4 0x2000 1 st' = Some st'' \<and> free_set st'' = free_set sample_pmm"
proof -
  let ?st' = "snd (pmm_alloc_ex 3 (Some sample_policy) sample_pmm)"
  have run: "pmm_alloc_ex 3 (Some sample_policy) sample_pmm = (0x2000, ?st')"
    using sample_alloc by (metis prod.collapse)
  then show ?thesis
    using pmm_alloc_free_roundtrip[OF sample_pmm_inv run, of 4] by (auto simp: sample_policy_def)
qed

text \<open>
  C20: boot.  When \<open>pmm_init\<close> succeeds on a memory map whose usable entries do not overlap
  and that spans fewer than \<open>2^32 - 1\<close> frames, the allocator invariant holds, at least 128
  frames are free, every free frame lies completely inside a usable entry, and the bitmap and
  metadata ledger was placed in a region large enough for it none of whose frames is free.
\<close>

theorem pmm_init_establishes_invariant:
  assumes "pmm_init (Some es) (Some off) st0 = Inr st" and "usable_disjoint es"
    and "pm_total_frames st < 2 ^ 32 - 1"
  shows "pmm_inv st \<and> PMM_MIN_FREE_FRAMES \<le> pm_free_frames st
    \<and> free_set st \<subseteq> (\<Union>e\<in>set es. entry_frames e)
    \<and> (\<exists>l needed. find_ledger es needed = Some l
         \<and> unat needed \<ge> (pm_total_frames st + 7) div 8 + 16 * pm_total_frames st
         \<and> free_set st \<inter> ledger_region l needed = {})"
  by (rule init_establishes[OF assms])

theorem pmm_init_establishes_invariant_witness:
  "\<exists>st. pmm_init (Some boot_memmap) (Some 0xffff800000000000) sample_ledger = Inr st \<and> pmm_inv st"
proof -
  obtain st where run: "pmm_init (Some boot_memmap) (Some 0xffff800000000000) sample_ledger = Inr st"
    and T: "pm_total_frames st = 145" using boot_run by blast
  have "usable_disjoint boot_memmap" by (simp add: boot_memmap_def entry_frames_def)
  then show ?thesis using pmm_init_establishes_invariant[OF run] run T by simp
qed

text \<open>
  C40: frame 0 is lost.  When frame 0 is the only free frame, \<open>pmm_alloc\<close> reports failure
  (its address is the failure value) but has taken the frame out of the free lists: the free set
  becomes empty, the counter drops, and the caller has nothing to release.
\<close>

theorem pmm_alloc_loses_frame_zero:
  assumes "pmm_inv st" and "free_set st = {0}"
  shows "\<exists>st'. pmm_alloc epoch color owner st = (0, st') \<and> free_set st' = {}
    \<and> pm_free_frames st' = pm_free_frames st - 1"
  by (rule alloc_frame_zero[OF assms])

theorem pmm_alloc_loses_frame_zero_witness:
  "\<exists>st'. pmm_alloc 1 COLOR_CASUAL 7 zero_pmm = (0, st') \<and> free_set st' = {}"
  using pmm_alloc_loses_frame_zero[OF zero_pmm_inv zero_pmm_free] by metis

text \<open>
  Ownership transfer.  \<open>pmm_transfer\<close> succeeds exactly on frames of the machine that
  are in use; it then changes the owner, colour and epoch of that frame only, and in every case
  the allocator invariant and the free set are kept.
\<close>

theorem pmm_transfer_sound:
  assumes "pmm_inv st" and "pmm_transfer epoch phys owner color state st = (ok, st')"
  shows "pmm_inv st' \<and> free_set st' = free_set st \<and> pm_mem st' = pm_mem st
    \<and> ok = (unat phys div PAGE_SIZE < pm_total_frames st \<and> unat phys div PAGE_SIZE \<notin> free_set st)
    \<and> own_of st' = (if ok then (own_of st)(unat phys div PAGE_SIZE := (owner, color, ucast epoch))
                    else own_of st)"
  by (rule transfer_inv[OF assms])

theorem pmm_transfer_sound_witness:
  "\<exists>st'. pmm_transfer 2 0x10 77 COLOR_GHOST 4 sample_pmm = (True, st') \<and> pmm_inv st'
     \<and> own_of st' 0 = (77, COLOR_GHOST, 2)"
proof -
  obtain ok st' where run: "pmm_transfer 2 0x10 77 COLOR_GHOST 4 sample_pmm = (ok, st')" by fastforce
  from pmm_transfer_sound[OF sample_pmm_inv run] show ?thesis
    using run by (auto simp: sample_pmm_free sample_pmm_total PAGE_SIZE_def)
qed

text \<open>
  C21: no frame is ever held twice.  Along any sequence of \<open>pmm_alloc\<close> calls and releases
  of held frames, with any owners, colours and epochs, the frames held are pairwise distinct, all
  in use, and the allocator invariant is kept.
\<close>

theorem pmm_frames_exclusive:
  assumes "pmm_inv st" and "pool_run frame_alloc frame_release ops st = (st', held)"
  shows "pmm_inv st' \<and> distinct held \<and> set held \<subseteq> used_frames st'"
  by (rule frame_pool.run_exclusive[OF assms])

theorem pmm_frames_exclusive_witness:
  "\<exists>st' held. pool_run frame_alloc frame_release
     [Acquire (1, COLOR_CASUAL, 7), Acquire (1, COLOR_GHOST, 8), Acquire (2, COLOR_SECURE, 9)] sample_pmm = (st', held)
     \<and> distinct held \<and> pmm_inv st'"
proof -
  obtain st' held where run: "pool_run frame_alloc frame_release
     [Acquire (1, COLOR_CASUAL, 7), Acquire (1, COLOR_GHOST, 8), Acquire (2, COLOR_SECURE, 9)] sample_pmm = (st', held)"
    by fastforce
  then show ?thesis using pmm_frames_exclusive[OF sample_pmm_inv run] by blast
qed

text \<open>The direct-map conversions are inverse to each other, wrap-around included.\<close>

theorem pmm_direct_map_roundtrip:
  "pmm_virt_to_phys st (pmm_phys_to_virt st phys) = phys
   \<and> pmm_phys_to_virt st (pmm_virt_to_phys st virt) = virt"
  by (simp add: pmm_virt_to_phys_def pmm_phys_to_virt_def)

end
