(* ===== verification/Slab.thy ===== *)
theory Slab
  imports Pmm_Alloc Mode_Types
begin

text \<open>
  The slab allocator (\<^verbatim>\<open>src/kernel/slab.c\<close>, \<^verbatim>\<open>slab.h\<close>) and the kernel heap on top of
  it (\<^verbatim>\<open>src/kernel/kmalloc.c\<close>), both on the physical memory manager.

  Pointers into the direct map are physical byte addresses: the map is a fixed page-aligned offset.
  The header at the start of a page is a typed view of the page (\<open>page_view\<close>): a slab
  header, the header of a large allocation, or neither; object payloads are bytes of the memory of
  the physical memory manager.  A page that goes back to the physical memory manager is zeroed there and
  loses its view.  Caches are a store indexed by address.

  The current mode and security epoch are arguments.  An operation returns a value and a state,
  panics, or does not return (\<open>Hang\<close>: a walk through a cyclic list).  \<open>Forged\<close> is a release that takes
  client bytes for a slab header (\<open>forged_header\<close>): what follows depends on the pointers read from them.
\<close>

section \<open>Data\<close>

definition SLAB_NAME_MAX :: nat where "SLAB_NAME_MAX = 32"
definition SLAB_BITMAP_WORDS :: nat where "SLAB_BITMAP_WORDS = 4"
definition SLAB_MAX_OBJECTS :: nat where "SLAB_MAX_OBJECTS = SLAB_BITMAP_WORDS * 64"
definition SLAB_MAGIC :: u32 where "SLAB_MAGIC = 0x534C4142"
definition SLAB_REDZONE_CANARY :: u64 where "SLAB_REDZONE_CANARY = 0xD00DFEEDCAFEBEEF"
definition SLAB_POISON_BYTE :: u8 where "SLAB_POISON_BYTE = 0xA5"
definition sizeof_slab :: nat where "sizeof_slab = 72"
definition sizeof_slab_cache :: nat where "sizeof_slab_cache = 328"

definition SLAB_MODE_MASK :: "mode_id_t \<Rightarrow> u32" where
  "SLAB_MODE_MASK mode = push_bit (mode_val mode) 1"

datatype slab_state_t = SLAB_STATE_FREE | SLAB_STATE_PARTIAL | SLAB_STATE_FULL
datatype slab_lifetime_t = SLAB_LIFETIME_DEFAULT | SLAB_LIFETIME_TRANSIENT | SLAB_LIFETIME_PERSISTENT
datatype slab_audit_t = SLAB_AUDIT_NONE | SLAB_AUDIT_BASIC | SLAB_AUDIT_STRICT

record slab_policy_t =
  sp_mode_mask :: u8
  sp_scrub_on_alloc :: bool
  sp_scrub_on_free :: bool
  sp_scrub_on_annihilate :: bool
  sp_poison_on_free :: bool
  sp_enable_redzone :: bool
  sp_lifetime_class :: slab_lifetime_t
  sp_audit_class :: slab_audit_t
  sp_min_partial_slabs :: u16

record slab_metrics_t =
  sm_alloc_ok :: u64
  sm_alloc_fail :: u64
  sm_free_ok :: u64
  sm_policy_denied :: u64
  sm_invalid_free :: u64
  sm_double_free :: u64
  sm_cache_miss :: u64
  sm_slab_new :: u64
  sm_slab_reclaimed :: u64
  sm_slabs_annihilated :: u64

record slab =
  sl_next :: "nat option"
  sl_prev :: "nat option"
  sl_cache :: "nat option"
  sl_mode_id :: nat
  sl_state :: slab_state_t
  sl_free_hint :: u16
  sl_in_use_count :: u16
  sl_max_objects :: u16
  sl_magic :: u32
  sl_free_bitmap :: "u64 list"

record slab_cache_t =
  sc_name :: string
  sc_requested_size :: u64
  sc_object_size :: u64
  sc_alignment :: u64
  sc_free_slabs :: "nat \<Rightarrow> nat option"
  sc_partial_slabs :: "nat \<Rightarrow> nat option"
  sc_full_slabs :: "nat \<Rightarrow> nat option"
  sc_next :: "nat option"
  sc_policy :: slab_policy_t
  sc_metrics :: slab_metrics_t
  sc_total_objects :: u64
  sc_total_pages :: u64

datatype page_view = RawPage | SlabPage slab | LargePage nat u32

definition KMALLOC_BUCKET_COUNT :: nat where "KMALLOC_BUCKET_COUNT = 9"
definition KMALLOC_LARGE_MAGIC :: u32 where "KMALLOC_LARGE_MAGIC = 0x4B4D4C47"
definition sizeof_kmalloc_large_header :: nat where "sizeof_kmalloc_large_header = 12"

definition bucket_sizes :: "u64 list" where
  "bucket_sizes = [16, 32, 64, 128, 256, 512, 1024, 2048, 4032]"

record slab_st =
  ss_pmm :: pmm_st
  ss_page :: "nat \<Rightarrow> page_view"
  ss_cache :: "nat \<Rightarrow> slab_cache_t"
  ss_global_cache_list :: "nat option"
  ss_buckets :: "nat option list"

datatype 'a kout = Ret 'a slab_st | Panic string | Forged | Hang

fun kbind :: "'a kout \<Rightarrow> ('a \<Rightarrow> slab_st \<Rightarrow> 'b kout) \<Rightarrow> 'b kout" where
  "kbind (Ret a st) f = f a st"
| "kbind (Panic s) f = Panic s"
| "kbind Forged f = Forged"
| "kbind Hang f = Hang"

text \<open>Time and mode as an operation sees them.\<close>

record slab_env =
  se_mode :: mode_id_t
  se_epoch :: u64

section \<open>Access\<close>

definition zero_slab :: slab where
  "zero_slab = \<lparr>sl_next = None, sl_prev = None, sl_cache = None, sl_mode_id = 0, sl_state = SLAB_STATE_FREE,
     sl_free_hint = 0, sl_in_use_count = 0, sl_max_objects = 0, sl_magic = 0, sl_free_bitmap = replicate SLAB_BITMAP_WORDS 0\<rparr>"

definition slab_at :: "slab_st \<Rightarrow> nat \<Rightarrow> slab" where
  "slab_at st s = (case ss_page st s of SlabPage h \<Rightarrow> h | _ \<Rightarrow> zero_slab)"

definition upd_slab :: "nat \<Rightarrow> (slab \<Rightarrow> slab) \<Rightarrow> slab_st \<Rightarrow> slab_st" where
  "upd_slab s f st = st\<lparr>ss_page := (ss_page st)(s := SlabPage (f (slab_at st s)))\<rparr>"

definition upd_cache :: "nat \<Rightarrow> (slab_cache_t \<Rightarrow> slab_cache_t) \<Rightarrow> slab_st \<Rightarrow> slab_st" where
  "upd_cache c f st = st\<lparr>ss_cache := (ss_cache st)(c := f (ss_cache st c))\<rparr>"

definition upd_metrics :: "nat \<Rightarrow> (slab_metrics_t \<Rightarrow> slab_metrics_t) \<Rightarrow> slab_st \<Rightarrow> slab_st" where
  "upd_metrics c f st = upd_cache c (\<lambda>k. k\<lparr>sc_metrics := f (sc_metrics k)\<rparr>) st"

definition upd_mem :: "(bmem \<Rightarrow> bmem) \<Rightarrow> slab_st \<Rightarrow> slab_st" where
  "upd_mem f st = st\<lparr>ss_pmm := (ss_pmm st)\<lparr>pm_mem := f (pm_mem (ss_pmm st))\<rparr>\<rparr>"

text \<open>\<open>fast_zero(s, PAGE_SIZE)\<close> on a page with a slab header.\<close>

definition zero_page :: "nat \<Rightarrow> slab_st \<Rightarrow> slab_st" where
  "zero_page s st = upd_slab s (\<lambda>_. zero_slab) (upd_mem (fast_zero s PAGE_SIZE) st)"

text \<open>The three list heads of a cache as lenses.\<close>

datatype slab_list = FreeList | PartialList | FullList

fun get_head :: "slab_list \<Rightarrow> slab_cache_t \<Rightarrow> nat \<Rightarrow> nat option" where
  "get_head FreeList k m = sc_free_slabs k m"
| "get_head PartialList k m = sc_partial_slabs k m"
| "get_head FullList k m = sc_full_slabs k m"

fun set_list_head :: "slab_list \<Rightarrow> nat \<Rightarrow> nat option \<Rightarrow> slab_cache_t \<Rightarrow> slab_cache_t" where
  "set_list_head FreeList m v k = k\<lparr>sc_free_slabs := (sc_free_slabs k)(m := v)\<rparr>"
| "set_list_head PartialList m v k = k\<lparr>sc_partial_slabs := (sc_partial_slabs k)(m := v)\<rparr>"
| "set_list_head FullList m v k = k\<lparr>sc_full_slabs := (sc_full_slabs k)(m := v)\<rparr>"

definition head_of :: "slab_list \<Rightarrow> nat \<Rightarrow> nat \<Rightarrow> slab_st \<Rightarrow> nat option" where
  "head_of l c m st = get_head l (ss_cache st c) m"

definition set_head_of :: "slab_list \<Rightarrow> nat \<Rightarrow> nat \<Rightarrow> nat option \<Rightarrow> slab_st \<Rightarrow> slab_st" where
  "set_head_of l c m v st = upd_cache c (set_list_head l m v) st"

section \<open>Helpers\<close>

definition slab_all_mode_mask :: u8 where
  "slab_all_mode_mask = fold (\<lambda>i mask. mask OR push_bit i 1) [0 ..< min MODE_COUNT 8] 0"

definition slab_policy_allows_mode :: "slab_cache_t option \<Rightarrow> mode_id_t \<Rightarrow> bool" where
  "slab_policy_allows_mode cache mode =
     (case cache of None \<Rightarrow> False
      | Some k \<Rightarrow> if mode_val mode \<ge> MODE_COUNT then False
                  else (ucast (sp_mode_mask (sc_policy k)) AND SLAB_MODE_MASK mode) \<noteq> 0)"

definition list_push :: "slab_list \<Rightarrow> nat \<Rightarrow> nat \<Rightarrow> nat \<Rightarrow> slab_st \<Rightarrow> slab_st" where
  "list_push l c m s st =
     (let h = head_of l c m st;
          st1 = upd_slab s (\<lambda>x. x\<lparr>sl_prev := None, sl_next := h\<rparr>) st;
          st2 = (case h of Some t \<Rightarrow> upd_slab t (\<lambda>x. x\<lparr>sl_prev := Some s\<rparr>) st1 | None \<Rightarrow> st1)
      in set_head_of l c m (Some s) st2)"

definition list_remove :: "slab_list \<Rightarrow> nat \<Rightarrow> nat \<Rightarrow> nat \<Rightarrow> slab_st \<Rightarrow> slab_st" where
  "list_remove l c m s st =
     (let st1 = (case sl_prev (slab_at st s) of
                   Some p \<Rightarrow> upd_slab p (\<lambda>x. x\<lparr>sl_next := sl_next (slab_at st s)\<rparr>) st | None \<Rightarrow> st);
          st2 = (case sl_next (slab_at st1 s) of
                   Some n \<Rightarrow> upd_slab n (\<lambda>x. x\<lparr>sl_prev := sl_prev (slab_at st1 s)\<rparr>) st1 | None \<Rightarrow> st1);
          st3 = (if head_of l c m st2 = Some s then set_head_of l c m (sl_next (slab_at st2 s)) st2 else st2)
      in upd_slab s (\<lambda>x. x\<lparr>sl_next := None, sl_prev := None\<rparr>) st3)"

definition slot_free :: "u64 list \<Rightarrow> nat \<Rightarrow> bool" where
  "slot_free bm i \<longleftrightarrow> bm ! (i div 64) AND push_bit (i mod 64) 1 \<noteq> 0"

text \<open>The slot and the new hint.\<close>

definition bitmap_find_free_slot :: "slab \<Rightarrow> (nat \<times> u16) option" where
  "bitmap_find_free_slot s =
     (let mx = unat (sl_max_objects s);
          start = (if sl_free_hint s \<ge> sl_max_objects s then 0 else unat (sl_free_hint s))
      in map_option (\<lambda>n. let idx = (start + n) mod mx in (idx, word_of_nat ((idx + 1) mod mx)))
           (List.find (\<lambda>n. slot_free (sl_free_bitmap s) ((start + n) mod mx)) [0 ..< mx]))"

definition bitmap_mark_used :: "nat \<Rightarrow> slab \<Rightarrow> slab" where
  "bitmap_mark_used idx s = s\<lparr>sl_free_bitmap := (sl_free_bitmap s)[idx div 64 :=
      sl_free_bitmap s ! (idx div 64) AND NOT (push_bit (idx mod 64) 1)],
    sl_in_use_count := sl_in_use_count s + 1\<rparr>"

definition bitmap_mark_free :: "nat \<Rightarrow> slab \<Rightarrow> slab" where
  "bitmap_mark_free idx s = s\<lparr>sl_free_bitmap := (sl_free_bitmap s)[idx div 64 :=
      sl_free_bitmap s ! (idx div 64) OR push_bit (idx mod 64) 1],
    sl_in_use_count := sl_in_use_count s - 1\<rparr>"

definition has_redzone :: "slab_cache_t \<Rightarrow> bool" where
  "has_redzone k \<longleftrightarrow> sp_enable_redzone (sc_policy k) \<and> \<not> sc_object_size k < sc_requested_size k + 8"

definition slab_set_redzone :: "nat \<Rightarrow> nat \<Rightarrow> slab_st \<Rightarrow> slab_st" where
  "slab_set_redzone c obj st =
     (let k = ss_cache st c in
      if has_redzone k
      then upd_mem (write_bytes (obj + unat (sc_requested_size k)) (le_bytes 8 SLAB_REDZONE_CANARY)) st else st)"

definition slab_check_redzone :: "nat \<Rightarrow> nat \<Rightarrow> slab_st \<Rightarrow> bool" where
  "slab_check_redzone c obj st =
     (let k = ss_cache st c in
      \<not> has_redzone k \<or>
      read_word (obj + unat (sc_requested_size k)) 8 (pm_mem (ss_pmm st)) = SLAB_REDZONE_CANARY)"

section \<open>Operations\<close>

definition slab_allocate_page :: "slab_env \<Rightarrow> nat \<Rightarrow> slab_st \<Rightarrow> nat option \<times> slab_st" where
  "slab_allocate_page env c st =
     (case pmm_alloc (se_epoch env) (mode_to_color (se_mode env)) 0 (ss_pmm st) of (phys, pm) \<Rightarrow>
        let st1 = st\<lparr>ss_pmm := pm\<rparr> in
        if phys = 0 then (None, st1)
        else
          let s = unat phys;
              q = (PAGE_SIZE - sizeof_slab) div unat (sc_object_size (ss_cache st c));
              mx0 = (word_of_nat q :: u16);
              mx = (if unat mx0 > SLAB_MAX_OBJECTS then word_of_nat SLAB_MAX_OBJECTS else mx0);
              bm = fold (\<lambda>i b. b[i div 64 := b ! (i div 64) OR push_bit (i mod 64) 1]) [0 ..< unat mx]
                     (replicate SLAB_BITMAP_WORDS 0);
              st2 = upd_slab s (\<lambda>x. x\<lparr>sl_cache := Some c, sl_mode_id := mode_val (se_mode env), sl_state := SLAB_STATE_FREE,
                      sl_free_hint := 0, sl_in_use_count := 0, sl_max_objects := mx, sl_magic := SLAB_MAGIC,
                      sl_free_bitmap := bm\<rparr>) (zero_page s st1)
          in (Some s, upd_cache c (\<lambda>k. k\<lparr>sc_total_pages := sc_total_pages k + 1\<rparr>)
                (upd_metrics c (\<lambda>m. m\<lparr>sm_slab_new := sm_slab_new m + 1\<rparr>) st2)))"

definition slab_default_policy :: slab_policy_t where
  "slab_default_policy = \<lparr>sp_mode_mask = slab_all_mode_mask, sp_scrub_on_alloc = True, sp_scrub_on_free = False,
     sp_scrub_on_annihilate = True, sp_poison_on_free = False, sp_enable_redzone = False,
     sp_lifetime_class = SLAB_LIFETIME_DEFAULT, sp_audit_class = SLAB_AUDIT_BASIC, sp_min_partial_slabs = 1\<rparr>"

definition slab_get_metrics :: "nat option \<Rightarrow> slab_st \<Rightarrow> slab_metrics_t option" where
  "slab_get_metrics cache st = map_option (\<lambda>c. sc_metrics (ss_cache st c)) cache"

text \<open>The slab to allocate from, on the partial list of the mode.\<close>

definition slab_pick :: "slab_env \<Rightarrow> nat \<Rightarrow> slab_st \<Rightarrow> nat option \<times> slab_st" where
  "slab_pick env c st =
     (let m = mode_val (se_mode env) in
      case head_of PartialList c m st of
        Some s \<Rightarrow> (Some s, st)
      | None \<Rightarrow>
        (case head_of FreeList c m st of
           Some s \<Rightarrow> (Some s, list_push PartialList c m s
                        (upd_slab s (\<lambda>x. x\<lparr>sl_state := SLAB_STATE_PARTIAL\<rparr>) (list_remove FreeList c m s st)))
         | None \<Rightarrow>
           (case slab_allocate_page env c (upd_metrics c (\<lambda>m. m\<lparr>sm_cache_miss := sm_cache_miss m + 1\<rparr>) st) of
              (None, st1) \<Rightarrow> (None, upd_metrics c (\<lambda>m. m\<lparr>sm_alloc_fail := sm_alloc_fail m + 1\<rparr>) st1)
            | (Some s, st1) \<Rightarrow> (Some s, list_push PartialList c m s
                        (upd_slab s (\<lambda>x. x\<lparr>sl_state := SLAB_STATE_PARTIAL\<rparr>) st1)))))"

text \<open>Taking a free slot of a partial slab.\<close>

definition slab_take :: "slab_env \<Rightarrow> nat \<Rightarrow> nat \<Rightarrow> slab_st \<Rightarrow> nat option kout" where
  "slab_take env c s st =
     (let m = mode_val (se_mode env) in
      case bitmap_find_free_slot (slab_at st s) of
        None \<Rightarrow> Panic ''SLAB: Partial slab has no free slot''
      | Some (idx, hint) \<Rightarrow>
          let st1 = upd_slab s (\<lambda>x. bitmap_mark_used idx (x\<lparr>sl_free_hint := hint\<rparr>)) st;
              st2 = upd_metrics c (\<lambda>m. m\<lparr>sm_alloc_ok := sm_alloc_ok m + 1\<rparr>)
                      (upd_cache c (\<lambda>k. k\<lparr>sc_total_objects := sc_total_objects k + 1\<rparr>) st1);
              st3 = (if sl_in_use_count (slab_at st2 s) = sl_max_objects (slab_at st2 s)
                     then list_push FullList c m s
                            (upd_slab s (\<lambda>x. x\<lparr>sl_state := SLAB_STATE_FULL\<rparr>) (list_remove PartialList c m s st2))
                     else st2);
              obj = s + sizeof_slab + idx * unat (sc_object_size (ss_cache st3 c));
              st4 = (if sp_scrub_on_alloc (sc_policy (ss_cache st3 c))
                     then upd_mem (fast_zero obj (unat (sc_object_size (ss_cache st3 c)))) st3 else st3)
          in Ret (Some obj) (slab_set_redzone c obj st4))"

definition slab_alloc :: "slab_env \<Rightarrow> nat option \<Rightarrow> slab_st \<Rightarrow> nat option kout" where
  "slab_alloc env cache st =
     (case cache of
        None \<Rightarrow> Ret None st
      | Some c \<Rightarrow>
          if \<not> slab_policy_allows_mode (Some (ss_cache st c)) (se_mode env)
          then Ret None (upd_metrics c (\<lambda>m. m\<lparr>sm_policy_denied := sm_policy_denied m + 1\<rparr>) st)
          else (case slab_pick env c st of
                  (None, st1) \<Rightarrow> Ret None st1
                | (Some s, st1) \<Rightarrow> slab_take env c s st1))"

definition slab_validate_object_ptr :: "slab_cache_t \<Rightarrow> nat \<Rightarrow> slab \<Rightarrow> nat \<Rightarrow> nat option" where
  "slab_validate_object_ptr k s h obj =
     (let payload = s + sizeof_slab in
      if obj < payload then None
      else
        let off = obj - payload; sz = unat (sc_object_size k) in
        if off mod sz \<noteq> 0 then None
        else if off div sz \<ge> unat (sl_max_objects h) then None
        else Some (off div sz))"

text \<open>Counting up to \<open>n\<close> slabs of a list.\<close>

fun count_slabs :: "nat \<Rightarrow> nat option \<Rightarrow> slab_st \<Rightarrow> nat" where
  "count_slabs 0 it st = 0"
| "count_slabs (Suc n) it st =
     (case it of None \<Rightarrow> 0 | Some s \<Rightarrow> Suc (count_slabs n (sl_next (slab_at st s)) st))"

text \<open>\<open>pmm_free\<close> zeroes the page, so the page has no view afterwards.\<close>

definition return_page :: "slab_env \<Rightarrow> nat \<Rightarrow> slab_st \<Rightarrow> unit kout" where
  "return_page env s st =
     (case pmm_free (se_epoch env) (word_of_nat s) (ss_pmm st) of
        None \<Rightarrow> Hang
      | Some pm \<Rightarrow> Ret () (st\<lparr>ss_pmm := pm, ss_page := (ss_page st)(s := RawPage)\<rparr>))"

text \<open>The release of an empty slab at the end of \<open>slab_free\<close>.\<close>

definition slab_retire :: "slab_env \<Rightarrow> nat \<Rightarrow> nat \<Rightarrow> slab_st \<Rightarrow> unit kout" where
  "slab_retire env c s st =
     (let m = sl_mode_id (slab_at st s);
          st1 = list_remove PartialList c m s st;
          pol = sc_policy (ss_cache st1 c);
          mn = unat (sp_min_partial_slabs pol)
      in if mn > 0 \<and> count_slabs mn (head_of FreeList c m st1) st1 < mn
         then Ret () (list_push FreeList c m s (upd_slab s (\<lambda>x. x\<lparr>sl_state := SLAB_STATE_FREE\<rparr>) st1))
         else
           let st2 = (if sp_scrub_on_annihilate pol then zero_page s st1 else st1);
               st3 = upd_cache c (\<lambda>k. k\<lparr>sc_total_pages := (if sc_total_pages k > 0 then sc_total_pages k - 1 else sc_total_pages k)\<rparr>) st2
           in return_page env s (upd_metrics c (\<lambda>m. m\<lparr>sm_slab_reclaimed := sm_slab_reclaimed m + 1\<rparr>) st3))"

definition page_base :: "nat \<Rightarrow> nat" where
  "page_base addr = addr - addr mod PAGE_SIZE"

text \<open>The bytes of a page that is no slab have the magic number where a slab header has it.\<close>

definition forged_header :: "nat \<Rightarrow> slab_st \<Rightarrow> bool" where
  "forged_header s st =
     (case ss_page st s of SlabPage h \<Rightarrow> False | _ \<Rightarrow> read_word (s + 32) 4 (pm_mem (ss_pmm st)) = ucast SLAB_MAGIC)"

definition slab_free :: "slab_env \<Rightarrow> nat option \<Rightarrow> nat option \<Rightarrow> slab_st \<Rightarrow> unit kout" where
  "slab_free env cache obj st =
     (case (cache, obj) of
        (Some c, Some a) \<Rightarrow>
          let s = page_base a in
          if forged_header s st then Forged
          else if sl_magic (slab_at st s) \<noteq> SLAB_MAGIC \<or> sl_cache (slab_at st s) \<noteq> Some c
          then Panic ''SLAB: Cross-cache or invalid free attempt''
          else (case slab_validate_object_ptr (ss_cache st c) s (slab_at st s) a of
              None \<Rightarrow> Panic ''SLAB: Invalid free pointer shape''
            | Some idx \<Rightarrow>
                if slot_free (sl_free_bitmap (slab_at st s)) idx then Panic ''SLAB: Double free''
                else if sp_enable_redzone (sc_policy (ss_cache st c)) \<and> \<not> slab_check_redzone c a st
                then Panic ''SLAB: Redzone canary corruption detected''
                else
                  let k = ss_cache st c;
                      was_full = (sl_state (slab_at st s) = SLAB_STATE_FULL);
                      st1 = (if sp_scrub_on_free (sc_policy k)
                             then upd_mem (fast_zero a (unat (sc_object_size k))) st
                             else if sp_poison_on_free (sc_policy k)
                             then upd_mem (write_bytes a (replicate (unat (sc_requested_size k)) SLAB_POISON_BYTE)) st
                             else st);
                      st2 = upd_slab s (bitmap_mark_free idx) st1;
                      st3 = upd_metrics c (\<lambda>m. m\<lparr>sm_free_ok := sm_free_ok m + 1\<rparr>)
                              (upd_cache c (\<lambda>k. k\<lparr>sc_total_objects :=
                                 (if sc_total_objects k > 0 then sc_total_objects k - 1 else sc_total_objects k)\<rparr>) st2);
                      m = sl_mode_id (slab_at st3 s);
                      st4 = (if was_full
                             then list_push PartialList c m s
                                    (upd_slab s (\<lambda>x. x\<lparr>sl_state := SLAB_STATE_PARTIAL\<rparr>) (list_remove FullList c m s st3))
                             else st3)
                  in if sl_in_use_count (slab_at st4 s) = 0 then slab_retire env c s st4 else Ret () st4)
      | _ \<Rightarrow> Ret () st)"

text \<open>
  The header is read after the page has been scrubbed.  The walk is given one step per slab of the
  list; \<open>Hang\<close> is a walk that does not end.
\<close>

fun slab_annihilate_list :: "nat \<Rightarrow> slab_env \<Rightarrow> nat \<Rightarrow> nat option \<Rightarrow> slab_st \<Rightarrow> unit kout" where
  "slab_annihilate_list 0 env c cur st = (case cur of None \<Rightarrow> Ret () st | Some s \<Rightarrow> Hang)"
| "slab_annihilate_list (Suc n) env c cur st =
     (case cur of
        None \<Rightarrow> Ret () st
      | Some s \<Rightarrow>
          let nxt = sl_next (slab_at st s);
              st1 = (if sp_scrub_on_annihilate (sc_policy (ss_cache st c)) then zero_page s st else st);
              used = ucast (sl_in_use_count (slab_at st1 s));
              st2 = upd_cache c (\<lambda>k. k\<lparr>sc_total_objects := (if sc_total_objects k \<ge> used then sc_total_objects k - used else 0)\<rparr>) st1;
              st3 = upd_cache c (\<lambda>k. k\<lparr>sc_total_pages := (if sc_total_pages k > 0 then sc_total_pages k - 1 else sc_total_pages k)\<rparr>) st2;
              st4 = upd_metrics c (\<lambda>m. m\<lparr>sm_slabs_annihilated := sm_slabs_annihilated m + 1\<rparr>) st3
          in kbind (return_page env s st4) (\<lambda>_ st5. slab_annihilate_list n env c nxt st5))"

definition slab_annihilate :: "nat \<Rightarrow> slab_env \<Rightarrow> nat option \<Rightarrow> nat \<Rightarrow> slab_st \<Rightarrow> unit kout" where
  "slab_annihilate fuel env cache m st =
     (case cache of
        None \<Rightarrow> Ret () st
      | Some c \<Rightarrow>
          if m \<ge> MODE_COUNT then Ret () st
          else kbind (slab_annihilate_list fuel env c (head_of FreeList c m st) st) (\<lambda>_ st1.
               kbind (slab_annihilate_list fuel env c (head_of PartialList c m st1) st1) (\<lambda>_ st2.
               kbind (slab_annihilate_list fuel env c (head_of FullList c m st2) st2) (\<lambda>_ st3.
               Ret () (set_head_of FullList c m None (set_head_of PartialList c m None (set_head_of FreeList c m None st3)))))))"

section \<open>The kernel heap\<close>

fun order_loop :: "nat \<Rightarrow> nat \<Rightarrow> nat \<Rightarrow> nat \<Rightarrow> nat" where
  "order_loop 0 span order pages = order"
| "order_loop (Suc n) span order pages =
     (if span < pages \<and> order < 31 then order_loop n (2 * span) (order + 1) pages else order)"

definition pages_to_order :: "nat \<Rightarrow> nat" where
  "pages_to_order pages = order_loop 31 1 0 pages"

definition kmalloc_large :: "slab_env \<Rightarrow> u64 \<Rightarrow> slab_st \<Rightarrow> nat option kout" where
  "kmalloc_large env sz st =
     (let total = word_of_nat sizeof_kmalloc_large_header + sz;
          pages = (total + word_of_nat PAGE_SIZE - 1) div word_of_nat PAGE_SIZE;
          order = pages_to_order (unat pages)
      in case pmm_alloc_ex (se_epoch env) (Some \<lparr>pol_color = mode_to_color (se_mode env), pol_owner_token = 0,
                pol_preferred_zone = PMM_ZONE_ANY, pol_trust_level = PMM_TRUST_ANY, pol_order = order\<rparr>) (ss_pmm st)
         of (phys, pm) \<Rightarrow>
           let st1 = st\<lparr>ss_pmm := pm\<rparr> in
           if phys = 0 then Ret None st1
           else
             let h = unat phys;
                 st2 = upd_mem (fast_zero h (PAGE_SIZE * 2 ^ order)) st1
             in Ret (Some (h + sizeof_kmalloc_large_header))
                  (st2\<lparr>ss_page := (ss_page st2)(h := LargePage order (ucast sz))\<rparr>))"

definition kmalloc :: "slab_env \<Rightarrow> u64 \<Rightarrow> slab_st \<Rightarrow> nat option kout" where
  "kmalloc env sz st =
     (if sz = 0 then Ret None st
      else case List.find (\<lambda>i. sz \<le> bucket_sizes ! i) [0 ..< KMALLOC_BUCKET_COUNT] of
          Some i \<Rightarrow> slab_alloc env (ss_buckets st ! i) st
        | None \<Rightarrow> kmalloc_large env sz st)"

definition kzalloc :: "slab_env \<Rightarrow> u64 \<Rightarrow> slab_st \<Rightarrow> nat option kout" where
  "kzalloc env sz st =
     kbind (kmalloc env sz st) (\<lambda>ptr st1.
       case ptr of None \<Rightarrow> Ret None st1
       | Some a \<Rightarrow> Ret (Some a) (upd_mem (write_bytes a (replicate (unat sz) 0)) st1))"

definition kfree :: "slab_env \<Rightarrow> nat option \<Rightarrow> slab_st \<Rightarrow> unit kout" where
  "kfree env ptr st =
     (case ptr of
        None \<Rightarrow> Ret () st
      | Some a \<Rightarrow>
          let s = page_base a; mem = pm_mem (ss_pmm st);
              forged = (forged_header s st \<and> read_word (s + 16) 8 mem \<noteq> 0)
          in case ss_page st s of
              SlabPage h \<Rightarrow> if sl_magic h = SLAB_MAGIC \<and> sl_cache h \<noteq> None then slab_free env (sl_cache h) (Some a) st else Ret () st
            | LargePage order sz \<Rightarrow>
                if forged then Forged
                else (case pmm_free_ex (se_epoch env) (word_of_nat s) order (ss_pmm st) of
                        None \<Rightarrow> Hang
                      | Some pm \<Rightarrow> Ret () (st\<lparr>ss_pmm := pm, ss_page := (ss_page st)(s := RawPage)\<rparr>))
            | RawPage \<Rightarrow>
                if forged then Forged
                else if read_word s 4 mem = ucast KMALLOC_LARGE_MAGIC
                then (case pmm_free_ex (se_epoch env) (word_of_nat s) (unat (mem (s + 4))) (ss_pmm st) of
                        None \<Rightarrow> Hang | Some pm \<Rightarrow> Ret () (st\<lparr>ss_pmm := pm\<rparr>))
                else Ret () st)"

section \<open>Creating caches\<close>

definition round_up_size :: "u64 \<Rightarrow> u64 \<Rightarrow> u64" where
  "round_up_size sz align = (if sz mod align \<noteq> 0 then (sz + align) - sz mod align else sz)"

definition zero_slab_metrics :: slab_metrics_t where
  "zero_slab_metrics = \<lparr>sm_alloc_ok = 0, sm_alloc_fail = 0, sm_free_ok = 0, sm_policy_denied = 0, sm_invalid_free = 0, sm_double_free = 0,
     sm_cache_miss = 0, sm_slab_new = 0, sm_slab_reclaimed = 0, sm_slabs_annihilated = 0\<rparr>"

text \<open>Requested size, object size and alignment of a new cache.\<close>

definition cache_geometry :: "u64 \<Rightarrow> u64 \<Rightarrow> slab_policy_t option \<Rightarrow> u64 \<times> u64 \<times> u64" where
  "cache_geometry sz align policy =
     (let al = (if align < 8 then 8 else align);
          rq = round_up_size sz al;
          ob = (case policy of Some p \<Rightarrow> if sp_enable_redzone p then round_up_size (rq + 8) al else rq | None \<Rightarrow> rq)
      in (rq, ob, al))"

definition slab_create_cache_ex ::
    "slab_env \<Rightarrow> string option \<Rightarrow> u64 \<Rightarrow> u64 \<Rightarrow> slab_policy_t option \<Rightarrow> slab_st \<Rightarrow> nat option kout" where
  "slab_create_cache_ex env name sz align policy st =
     (case name of
        None \<Rightarrow> Ret None st
      | Some nm \<Rightarrow>
          if sz = 0 then Ret None st
          else kbind (kmalloc env (word_of_nat sizeof_slab_cache) st) (\<lambda>ptr st1.
            let (cell, st2) = (case ptr of
                Some a \<Rightarrow> (Some a, st1)
              | None \<Rightarrow> (case pmm_alloc (se_epoch env) COLOR_VOID 0 (ss_pmm st1) of (phys, pm) \<Rightarrow>
                  (if phys = 0 then None else Some (unat phys), st1\<lparr>ss_pmm := pm\<rparr>)))
            in case cell of
                None \<Rightarrow> Ret None st2
              | Some c \<Rightarrow>
                  let st3 = upd_mem (fast_zero c sizeof_slab_cache) st2;
                      (rq, ob, al) = cache_geometry sz align policy
                  in if ob + word_of_nat sizeof_slab > word_of_nat PAGE_SIZE then Ret None st3
                     else
                       let pol = (case policy of
                             Some p \<Rightarrow> if sp_mode_mask p = 0 then p\<lparr>sp_mode_mask := slab_all_mode_mask\<rparr> else p
                           | None \<Rightarrow> slab_default_policy);
                           k = \<lparr>sc_name = take (SLAB_NAME_MAX - 1) nm, sc_requested_size = rq, sc_object_size = ob,
                                sc_alignment = al, sc_free_slabs = (\<lambda>_. None), sc_partial_slabs = (\<lambda>_. None),
                                sc_full_slabs = (\<lambda>_. None), sc_next = ss_global_cache_list st3, sc_policy = pol,
                                sc_metrics = zero_slab_metrics, sc_total_objects = 0, sc_total_pages = 0\<rparr>
                       in Ret (Some c) (st3\<lparr>ss_cache := (ss_cache st3)(c := k), ss_global_cache_list := Some c\<rparr>)))"

definition slab_create_cache :: "slab_env \<Rightarrow> string option \<Rightarrow> u64 \<Rightarrow> u64 \<Rightarrow> slab_st \<Rightarrow> nat option kout" where
  "slab_create_cache env name sz align st = slab_create_cache_ex env name sz align None st"

definition kmalloc_policy :: slab_policy_t where
  "kmalloc_policy = slab_default_policy\<lparr>sp_scrub_on_alloc := True, sp_scrub_on_free := True,
     sp_scrub_on_annihilate := True, sp_audit_class := SLAB_AUDIT_STRICT, sp_min_partial_slabs := 1\<rparr>"

fun init_buckets :: "slab_env \<Rightarrow> nat list \<Rightarrow> slab_st \<Rightarrow> unit kout" where
  "init_buckets env [] st = Ret () st"
| "init_buckets env (i # is) st =
     kbind (slab_create_cache_ex env (Some ''kmalloc-bucket'') (bucket_sizes ! i) 16 (Some kmalloc_policy) st)
       (\<lambda>c st1. init_buckets env is (st1\<lparr>ss_buckets := (ss_buckets st1)[i := c]\<rparr>))"

definition kmalloc_init :: "slab_env \<Rightarrow> slab_st \<Rightarrow> unit kout" where
  "kmalloc_init env st = init_buckets env [0 ..< KMALLOC_BUCKET_COUNT] st"

definition slab_init :: "slab_env \<Rightarrow> slab_st \<Rightarrow> unit kout" where
  "slab_init env st = kmalloc_init env (st\<lparr>ss_global_cache_list := None\<rparr>)"

text \<open>The walk over all caches, with one step per cache.\<close>

fun annihilate_caches :: "nat \<Rightarrow> nat \<Rightarrow> slab_env \<Rightarrow> nat option \<Rightarrow> nat \<Rightarrow> slab_st \<Rightarrow> unit kout" where
  "annihilate_caches 0 fuel env cur m st = (case cur of None \<Rightarrow> Ret () st | Some c \<Rightarrow> Hang)"
| "annihilate_caches (Suc n) fuel env cur m st =
     (case cur of
        None \<Rightarrow> Ret () st
      | Some c \<Rightarrow> kbind (slab_annihilate fuel env (Some c) m st)
                    (\<lambda>_ st1. annihilate_caches n fuel env (sc_next (ss_cache st1 c)) m st1))"

definition slab_annihilate_all :: "nat \<Rightarrow> nat \<Rightarrow> slab_env \<Rightarrow> nat \<Rightarrow> slab_st \<Rightarrow> unit kout" where
  "slab_annihilate_all caches fuel env m st =
     (if m \<ge> MODE_COUNT then Ret () st
      else annihilate_caches caches fuel env (ss_global_cache_list st) m st)"

end
