(* ===== verification/Slab_Inv.thy ===== *)
theory Slab_Inv
  imports Slab Linked_List
begin

text \<open>
  The lists of slabs and the slot bitmaps: the intrusive lists of every cache and mode refine HOL lists under
  \<open>list_push\<close> and \<open>list_remove\<close>, and marking a slot changes the set of used slots by one.
\<close>

section \<open>Headers\<close>

abbreviation nx :: "slab_st \<Rightarrow> nat \<Rightarrow> nat option" where "nx st x \<equiv> sl_next (slab_at st x)"
abbreviation pv :: "slab_st \<Rightarrow> nat \<Rightarrow> nat option" where "pv st x \<equiv> sl_prev (slab_at st x)"

definition is_slab :: "slab_st \<Rightarrow> nat \<Rightarrow> bool" where
  "is_slab st x \<longleftrightarrow> (case ss_page st x of SlabPage h \<Rightarrow> True | _ \<Rightarrow> False)"

lemma slab_at_upd [simp]: "slab_at (upd_slab s f st) x = (if x = s then f (slab_at st s) else slab_at st x)"
  by (simp add: slab_at_def upd_slab_def)

lemma is_slab_upd [simp]: "is_slab (upd_slab s f st) x = (x = s \<or> is_slab st x)"
  by (simp add: is_slab_def upd_slab_def)

lemma upd_slab_sel [simp]: "ss_cache (upd_slab s f st) = ss_cache st" "ss_pmm (upd_slab s f st) = ss_pmm st"
    "ss_buckets (upd_slab s f st) = ss_buckets st" "head_of l c m (upd_slab s f st) = head_of l c m st"
    "ss_global_cache_list (upd_slab s f st) = ss_global_cache_list st"
  by (simp_all add: upd_slab_def head_of_def)

lemma upd_cache_sel [simp]: "slab_at (upd_cache c f st) = slab_at st" "is_slab (upd_cache c f st) = is_slab st"
    "ss_page (upd_cache c f st) = ss_page st" "ss_pmm (upd_cache c f st) = ss_pmm st"
    "ss_buckets (upd_cache c f st) = ss_buckets st"
    "ss_cache (upd_cache c f st) = (ss_cache st)(c := f (ss_cache st c))"
  by (simp_all add: upd_cache_def slab_at_def is_slab_def fun_eq_iff)

lemma upd_mem_sel [simp]: "slab_at (upd_mem f st) = slab_at st" "is_slab (upd_mem f st) = is_slab st"
    "ss_page (upd_mem f st) = ss_page st" "ss_cache (upd_mem f st) = ss_cache st"
    "ss_buckets (upd_mem f st) = ss_buckets st" "head_of l c m (upd_mem f st) = head_of l c m st"
  by (simp_all add: upd_mem_def slab_at_def is_slab_def head_of_def fun_eq_iff)

text \<open>A header without its links.\<close>

definition unlink :: "slab \<Rightarrow> slab" where
  "unlink h = h\<lparr>sl_next := None, sl_prev := None\<rparr>"

lemma unlink_sel:
  "sl_cache (unlink h) = sl_cache h" "sl_mode_id (unlink h) = sl_mode_id h" "sl_state (unlink h) = sl_state h"
  "sl_free_hint (unlink h) = sl_free_hint h" "sl_in_use_count (unlink h) = sl_in_use_count h"
  "sl_max_objects (unlink h) = sl_max_objects h" "sl_magic (unlink h) = sl_magic h"
  "sl_free_bitmap (unlink h) = sl_free_bitmap h"
  by (simp_all add: unlink_def)

lemma unlink_fields:
  assumes "unlink h = unlink h'"
  shows "sl_cache h = sl_cache h'" "sl_mode_id h = sl_mode_id h'" "sl_state h = sl_state h'"
    "sl_free_hint h = sl_free_hint h'" "sl_in_use_count h = sl_in_use_count h'"
    "sl_max_objects h = sl_max_objects h'" "sl_magic h = sl_magic h'" "sl_free_bitmap h = sl_free_bitmap h'"
  by (simp_all only: unlink_sel[of h, symmetric] unlink_sel[of h', symmetric] assms)

section \<open>Lists\<close>

type_synonym list_key = "slab_list \<times> nat \<times> nat"
type_synonym slab_lists = "list_key \<Rightarrow> nat list"

fun head_at :: "slab_st \<Rightarrow> list_key \<Rightarrow> nat option" where
  "head_at st (l, c, m) = head_of l c m st"

definition lists_ok :: "nat set \<Rightarrow> slab_st \<Rightarrow> slab_lists \<Rightarrow> bool" where
  "lists_ok C st L \<longleftrightarrow> (\<forall>k. fst (snd k) \<in> C \<longrightarrow> links (nx st) (pv st) None (head_at st k) (L k) None) \<and>
     (\<forall>k. fst (snd k) \<notin> C \<longrightarrow> L k = []) \<and> (\<forall>k. distinct (L k)) \<and>
     (\<forall>k k' s. s \<in> set (L k) \<longrightarrow> s \<in> set (L k') \<longrightarrow> k = k') \<and> (\<forall>k s. s \<in> set (L k) \<longrightarrow> is_slab st s)"

lemma head_set [simp]:
  "head_of l' c' m' (set_head_of l c m v st) = (if (l', c', m') = (l, c, m) then v else head_of l' c' m' st)"
  by (cases l; cases l') (auto simp: head_of_def set_head_of_def)

lemma set_slab_head_sel [simp]: "slab_at (set_head_of l c m v st) = slab_at st" "is_slab (set_head_of l c m v st) = is_slab st"
    "ss_page (set_head_of l c m v st) = ss_page st" "ss_pmm (set_head_of l c m v st) = ss_pmm st"
    "ss_buckets (set_head_of l c m v st) = ss_buckets st"
  by (simp_all add: set_head_of_def)

text \<open>What list operations keep of a cache.\<close>

definition bare_cache :: "slab_cache_t \<Rightarrow> slab_cache_t" where
  "bare_cache k = k\<lparr>sc_free_slabs := (\<lambda>_. None), sc_partial_slabs := (\<lambda>_. None), sc_full_slabs := (\<lambda>_. None)\<rparr>"

definition relinked :: "slab_st \<Rightarrow> slab_st \<Rightarrow> bool" where
  "relinked st st' \<longleftrightarrow> ss_pmm st' = ss_pmm st \<and> ss_buckets st' = ss_buckets st \<and>
     (\<forall>c. bare_cache (ss_cache st' c) = bare_cache (ss_cache st c)) \<and>
     (\<forall>x. unlink (slab_at st' x) = unlink (slab_at st x)) \<and> (\<forall>x. is_slab st' x = is_slab st x) \<and>
     (\<forall>x. \<not> is_slab st x \<longrightarrow> ss_page st' x = ss_page st x)"

lemma relinked_trans: "relinked st st1 \<Longrightarrow> relinked st1 st2 \<Longrightarrow> relinked st st2"
  by (simp add: relinked_def)

lemma bare_set_head: "bare_cache (set_list_head l m v k) = bare_cache k"
  by (cases l) (simp_all add: bare_cache_def)

lemma relinked_upd:
  assumes "is_slab st s" and "\<And>h. unlink (f h) = unlink h"
  shows "relinked st (upd_slab s f st)"
  using assms by (auto simp: relinked_def) (auto simp: is_slab_def upd_slab_def)

lemma relinked_refl [simp]: "relinked st st"
  by (simp add: relinked_def)

lemma relinked_step:
  "relinked st st1 \<Longrightarrow> is_slab st s \<Longrightarrow> (\<And>h. unlink (f h) = unlink h) \<Longrightarrow> relinked st (upd_slab s f st1)"
  "relinked st st1 \<Longrightarrow> relinked st (set_head_of l c m v st1)"
proof -
  show "relinked st st1 \<Longrightarrow> is_slab st s \<Longrightarrow> (\<And>h. unlink (f h) = unlink h) \<Longrightarrow> relinked st (upd_slab s f st1)"
    using relinked_upd[of st1 s f] relinked_trans by (auto simp: relinked_def)
  show "relinked st st1 \<Longrightarrow> relinked st (set_head_of l c m v st1)"
    by (auto simp: relinked_def set_head_of_def bare_set_head)
qed

text \<open>Removal.\<close>

lemma list_remove_slab:
  assumes "pv st s \<noteq> Some s" and "nx st s \<noteq> Some s"
  shows "slab_at (list_remove l c m s st) x =
    (if x = s then (slab_at st s)\<lparr>sl_next := None, sl_prev := None\<rparr>
     else (slab_at st x)\<lparr>sl_next := (if pv st s = Some x then nx st s else nx st x),
                       sl_prev := (if nx st s = Some x then pv st s else pv st x)\<rparr>)"
  using assms by (auto simp: list_remove_def Let_def split: option.splits)

lemma list_remove_head:
  assumes "pv st s \<noteq> Some s" and "nx st s \<noteq> Some s"
  shows "head_of l' c' m' (list_remove l c m s st) =
    (if (l', c', m') = (l, c, m) \<and> head_of l c m st = Some s then nx st s else head_of l' c' m' st)"
  using assms by (auto simp: list_remove_def Let_def split: option.splits)

lemma lists_okD:
  assumes "lists_ok C st L"
  shows "fst (snd k) \<in> C \<Longrightarrow> links (nx st) (pv st) None (head_at st k) (L k) None"
    and "fst (snd k) \<notin> C \<Longrightarrow> L k = []" and "distinct (L k)"
    and "s \<in> set (L k) \<Longrightarrow> s \<in> set (L k') \<Longrightarrow> k = k'" and "s \<in> set (L k) \<Longrightarrow> is_slab st s"
  using assms unfolding lists_ok_def by blast+

text \<open>Where a slab sits in its list.\<close>

lemma list_position:
  assumes ok: "lists_ok C st L" and s: "s \<in> set (L k)"
  obtains ys zs where "L k = ys @ s # zs" and "links (nx st) (pv st) None (head_at st k) (ys @ s # zs) None"
    and "distinct (ys @ s # zs)" and "pv st s = lastp None ys" and "nx st s = (if zs = [] then None else Some (hd zs))"
proof -
  obtain ys zs where L: "L k = ys @ s # zs" using s by (metis split_list)
  have "fst (snd k) \<in> C" using lists_okD(2)[OF ok, of k] s by force
  then have d: "links (nx st) (pv st) None (head_at st k) (ys @ s # zs) None" using lists_okD(1)[OF ok] L by metis
  show thesis
    using that[OF L d] lists_okD(3)[OF ok, of k] links_around[OF d] links_head[OF links_around(3)[OF d]] L by auto
qed

lemma neighbours:
  assumes ok: "lists_ok C st L" and s: "s \<in> set (L k)"
  shows "pv st s \<noteq> Some s" and "nx st s \<noteq> Some s"
    and "pv st s = Some x \<Longrightarrow> x \<in> set (L k)" and "nx st s = Some x \<Longrightarrow> x \<in> set (L k)"
proof -
  obtain ys zs where P: "L k = ys @ s # zs" "distinct (ys @ s # zs)" "pv st s = lastp None ys"
      "nx st s = (if zs = [] then None else Some (hd zs))"
    using list_position[OF ok s] by metis
  show "pv st s = Some x \<Longrightarrow> x \<in> set (L k)" and "nx st s = Some x \<Longrightarrow> x \<in> set (L k)"
    using P last_in_set[of ys] hd_in_set[of zs] by (auto simp: lastp_def split: if_splits)
  show "pv st s \<noteq> Some s" and "nx st s \<noteq> Some s"
    using P last_in_set[of ys] hd_in_set[of zs] by (auto simp: lastp_def split: if_splits)
qed

lemma list_remove_ok:
  assumes ok: "lists_ok C st L" and s: "s \<in> set (L (l, c, m))"
  shows "lists_ok C (list_remove l c m s st) (L((l, c, m) := remove1 s (L (l, c, m))))"
    and "relinked st (list_remove l c m s st)"
proof -
  let ?st = "list_remove l c m s st" and ?k = "(l, c, m)"
  note N = neighbours[OF ok s]
  note S = list_remove_slab[OF N(1,2), of l c m] and H = list_remove_head[OF N(1,2)]
  have sl: "is_slab st x" if "pv st s = Some x \<or> nx st s = Some x" for x
    using that N(3,4) lists_okD(5)[OF ok] by blast
  show rel: "relinked st ?st"
    using sl lists_okD(5)[OF ok s]
    by (auto simp: list_remove_def Let_def unlink_def split: option.splits intro!: relinked_step)
  obtain ys zs where P: "L ?k = ys @ s # zs" "links (nx st) (pv st) None (head_at st ?k) (ys @ s # zs) None"
      "distinct (ys @ s # zs)"
    using list_position[OF ok s] by metis
  have rm: "remove1 s (L ?k) = ys @ zs" using P(1,3) by (simp add: remove1_append)
  have "links (nx ?st) (pv ?st) None (head_at ?st k) ((L(?k := ys @ zs)) k) None" if k: "fst (snd k) \<in> C" for k
  proof (cases "k = ?k")
    case True
    have "nx ?st x = (if pv st s = Some x then nx st s else nx st x)"
        "pv ?st x = (if nx st s = Some x then pv st s else pv st x)" if "x \<in> set (ys @ zs)" for x
      using that P(3) by (auto simp: S)
    from links_remove[OF P(2,3) this]
    show ?thesis using links_first[OF P(2,3)] True by (cases "ys = []") (simp_all add: H)
  next
    case False
    have "links (nx ?st) (pv ?st) None h (L k) None = links (nx st) (pv st) None h (L k) None" for h
    proof (rule links_cong)
      fix x assume x: "x \<in> set (L k)"
      then have "x \<noteq> s" "pv st s \<noteq> Some x" "nx st s \<noteq> Some x"
        using lists_okD(4)[OF ok x] s N(3,4) False by blast+
      then show "nx ?st x = nx st x \<and> pv ?st x = pv st x" by (simp add: S)
    qed
    then show ?thesis using lists_okD(1)[OF ok k] False by (cases k) (auto simp: H)
  qed
  moreover have "set (ys @ zs) \<subseteq> set (L ?k)" using P(1) by auto
  moreover have "is_slab ?st x" if "x \<in> set (L k)" for k x using rel lists_okD(5)[OF ok that] by (simp add: relinked_def)
  ultimately show "lists_ok C ?st (L(?k := remove1 s (L ?k)))"
    using lists_okD(2,3,4)[OF ok] P(3) unfolding rm lists_ok_def by (auto split: if_splits)
qed

text \<open>Insertion at the front.\<close>

lemma list_push_slab:
  assumes "head_of l c m st \<noteq> Some s"
  shows "slab_at (list_push l c m s st) x =
    (if x = s then (slab_at st s)\<lparr>sl_prev := None, sl_next := head_of l c m st\<rparr>
     else if head_of l c m st = Some x then (slab_at st x)\<lparr>sl_prev := Some s\<rparr> else slab_at st x)"
  using assms by (auto simp: list_push_def Let_def split: option.splits)

lemma list_push_head:
  "head_of l' c' m' (list_push l c m s st) = (if (l', c', m') = (l, c, m) then Some s else head_of l' c' m' st)"
  by (auto simp: list_push_def Let_def split: option.splits)

lemma list_push_ok:
  assumes ok: "lists_ok C st L" and c: "c \<in> C" and new: "\<And>k. s \<notin> set (L k)" and sl: "is_slab st s"
  shows "lists_ok C (list_push l c m s st) (L((l, c, m) := s # L (l, c, m)))"
    and "relinked st (list_push l c m s st)"
proof -
  let ?st = "list_push l c m s st" and ?k = "(l, c, m)"
  have d: "links (nx st) (pv st) None (head_of l c m st) (L ?k) None" using lists_okD(1)[OF ok, of ?k] c by simp
  have hd: "head_of l c m st = (if L ?k = [] then None else Some (hd (L ?k)))" using links_head[OF d] by simp
  then have in_list: "x \<in> set (L ?k)" if "head_of l c m st = Some x" for x using that by (auto split: if_splits)
  then have ns: "head_of l c m st \<noteq> Some s" using new by blast
  note S = list_push_slab[OF ns]
  show rel: "relinked st ?st"
    using sl in_list lists_okD(5)[OF ok]
    by (auto simp: list_push_def Let_def unlink_def split: option.splits intro!: relinked_step)
  have "links (nx ?st) (pv ?st) None (head_at ?st k) ((L(?k := s # L ?k)) k) None" if k: "fst (snd k) \<in> C" for k
  proof (cases "k = ?k")
    case True
    have "links (nx ?st) (pv ?st) None (Some s) (s # L ?k) None"
      using lists_okD(3)[OF ok, of ?k] new[of ?k] by (intro links_push[OF d]) (auto simp: S)
    then show ?thesis using True by (simp add: list_push_head)
  next
    case False
    have "links (nx ?st) (pv ?st) None h (L k) None = links (nx st) (pv st) None h (L k) None" for h
    proof (rule links_cong)
      fix x assume x: "x \<in> set (L k)"
      then have "x \<noteq> s" "head_of l c m st \<noteq> Some x"
        using lists_okD(4)[OF ok x] in_list new False by blast+
      then show "nx ?st x = nx st x \<and> pv ?st x = pv st x" by (simp add: S)
    qed
    then show ?thesis using lists_okD(1)[OF ok k] False by (cases k) (auto simp: list_push_head)
  qed
  moreover have "is_slab ?st x" if "x \<in> set (L k)" for k x using rel lists_okD(5)[OF ok that] by (simp add: relinked_def)
  moreover have "is_slab ?st s" using rel sl by (simp add: relinked_def)
  ultimately show "lists_ok C ?st (L(?k := s # L ?k))"
    using lists_okD(2,3,4)[OF ok] new c unfolding lists_ok_def by (auto split: if_splits)
qed

text \<open>Changing a header apart from its links, and things the lists do not depend on.\<close>

lemma lists_ok_cong:
  assumes ok: "lists_ok C st L" and "\<And>x k. x \<in> set (L k) \<Longrightarrow> nx st' x = nx st x \<and> pv st' x = pv st x \<and> is_slab st' x"
    and "\<And>k. fst (snd k) \<in> C \<Longrightarrow> head_at st' k = head_at st k"
  shows "lists_ok C st' L"
proof -
  have "links (nx st') (pv st') None h (L k) None = links (nx st) (pv st) None h (L k) None" for h k
    using assms(2) by (intro links_cong) blast
  then show ?thesis using ok assms(2,3) unfolding lists_ok_def by metis
qed

section \<open>Bitmaps\<close>

lemma slot_free_bit: "slot_free bm i = bit (bm ! (i div 64)) (i mod 64)"
  unfolding slot_free_def by (metis and.commute and_zero_eq bit_iff_and_push_bit_not_eq_0)

definition used_slots :: "slab \<Rightarrow> nat set" where
  "used_slots h = {i. i < unat (sl_max_objects h) \<and> \<not> slot_free (sl_free_bitmap h) i}"

lemma finite_used_slots [simp]: "finite (used_slots h)"
  by (simp add: used_slots_def)

definition bitmap_ok :: "slab \<Rightarrow> bool" where
  "bitmap_ok h \<longleftrightarrow> length (sl_free_bitmap h) = SLAB_BITMAP_WORDS \<and>
     0 < sl_max_objects h \<and> unat (sl_max_objects h) \<le> SLAB_MAX_OBJECTS \<and>
     unat (sl_in_use_count h) = card (used_slots h)"

lemma div_mod_same: "i div 64 = j div 64 \<Longrightarrow> i mod 64 = j mod (64 :: nat) \<Longrightarrow> i = j"
  by (metis div_mult_mod_eq)

lemma slot_bound: "i < SLAB_MAX_OBJECTS \<Longrightarrow> i div 64 < SLAB_BITMAP_WORDS"
  by (simp add: SLAB_MAX_OBJECTS_def less_mult_imp_div_less)

lemma slot_free_mark:
  assumes "length (sl_free_bitmap h) = SLAB_BITMAP_WORDS" and "i < SLAB_MAX_OBJECTS"
  shows "slot_free (sl_free_bitmap (bitmap_mark_used i h)) j = (j \<noteq> i \<and> slot_free (sl_free_bitmap h) j)"
    and "slot_free (sl_free_bitmap (bitmap_mark_free i h)) j = (j = i \<or> slot_free (sl_free_bitmap h) j)"
proof -
  have i: "i div 64 < length (sl_free_bitmap h)" using slot_bound[OF assms(2)] assms(1) by simp
  have b: "bit (push_bit (i mod 64) 1 :: u64) n \<longleftrightarrow> n = i mod 64" for n
    by (auto simp: bit_simps)
  show "slot_free (sl_free_bitmap (bitmap_mark_used i h)) j = (j \<noteq> i \<and> slot_free (sl_free_bitmap h) j)"
  proof (cases "j div 64 = i div 64")
    case True
    have "bit (NOT (push_bit (i mod 64) 1) :: u64) (j mod 64) \<longleftrightarrow> j mod 64 \<noteq> i mod 64"
      unfolding bit_not_iff b by simp
    then show ?thesis
      using True i div_mod_same[of j i] by (auto simp: slot_free_bit bitmap_mark_used_def bit_and_iff)
  next
    case False
    then show ?thesis using i by (auto simp: slot_free_bit bitmap_mark_used_def)
  qed
  show "slot_free (sl_free_bitmap (bitmap_mark_free i h)) j = (j = i \<or> slot_free (sl_free_bitmap h) j)"
  proof (cases "j div 64 = i div 64")
    case True
    then show ?thesis
      using i div_mod_same[of j i] b[of "j mod 64"] by (auto simp: slot_free_bit bitmap_mark_free_def bit_or_iff)
  next
    case False
    then show ?thesis using i by (auto simp: slot_free_bit bitmap_mark_free_def)
  qed
qed

lemma mark_sel [simp]:
  "sl_max_objects (bitmap_mark_used i h) = sl_max_objects h" "sl_max_objects (bitmap_mark_free i h) = sl_max_objects h"
  "length (sl_free_bitmap (bitmap_mark_used i h)) = length (sl_free_bitmap h)"
  "length (sl_free_bitmap (bitmap_mark_free i h)) = length (sl_free_bitmap h)"
  "sl_in_use_count (bitmap_mark_used i h) = sl_in_use_count h + 1"
  "sl_in_use_count (bitmap_mark_free i h) = sl_in_use_count h - 1"
  "sl_next (bitmap_mark_used i h) = sl_next h" "sl_next (bitmap_mark_free i h) = sl_next h"
  "sl_prev (bitmap_mark_used i h) = sl_prev h" "sl_prev (bitmap_mark_free i h) = sl_prev h"
  "sl_cache (bitmap_mark_used i h) = sl_cache h" "sl_cache (bitmap_mark_free i h) = sl_cache h"
  "sl_mode_id (bitmap_mark_used i h) = sl_mode_id h" "sl_mode_id (bitmap_mark_free i h) = sl_mode_id h"
  "sl_magic (bitmap_mark_used i h) = sl_magic h" "sl_magic (bitmap_mark_free i h) = sl_magic h"
  "sl_state (bitmap_mark_used i h) = sl_state h" "sl_state (bitmap_mark_free i h) = sl_state h"
  by (simp_all add: bitmap_mark_used_def bitmap_mark_free_def)

lemma used_slots_le: "card (used_slots h) \<le> unat (sl_max_objects h)"
  using card_mono[of "{..<unat (sl_max_objects h)}" "used_slots h"] by (auto simp: used_slots_def)

lemma unat_max_bound: "bitmap_ok h \<Longrightarrow> unat (sl_in_use_count h) \<le> SLAB_MAX_OBJECTS"
  using used_slots_le[of h] by (simp add: bitmap_ok_def)

lemma mark_used_ok:
  assumes ok: "bitmap_ok h" and i: "i < unat (sl_max_objects h)" and fr: "slot_free (sl_free_bitmap h) i"
  shows "bitmap_ok (bitmap_mark_used i h)" and "used_slots (bitmap_mark_used i h) = insert i (used_slots h)"
    and "i \<notin> used_slots h"
proof -
  have i': "i < SLAB_MAX_OBJECTS" and len: "length (sl_free_bitmap h) = SLAB_BITMAP_WORDS" using ok i by (auto simp: bitmap_ok_def)
  show us: "used_slots (bitmap_mark_used i h) = insert i (used_slots h)"
    using i slot_free_mark(1)[OF len i'] by (auto simp: used_slots_def)
  show ni: "i \<notin> used_slots h" using fr by (simp add: used_slots_def)
  have "unat (sl_in_use_count h + 1) = Suc (unat (sl_in_use_count h))"
    using unat_max_bound[OF ok] by (simp add: SLAB_MAX_OBJECTS_def SLAB_BITMAP_WORDS_def unat_word_ariths)
  then show "bitmap_ok (bitmap_mark_used i h)" using ok ni by (simp add: bitmap_ok_def us)
qed

lemma mark_free_ok:
  assumes ok: "bitmap_ok h" and i: "i \<in> used_slots h"
  shows "bitmap_ok (bitmap_mark_free i h)" and "used_slots (bitmap_mark_free i h) = used_slots h - {i}"
proof -
  have i': "i < SLAB_MAX_OBJECTS" and len: "length (sl_free_bitmap h) = SLAB_BITMAP_WORDS"
    using ok i by (auto simp: bitmap_ok_def used_slots_def)
  show us: "used_slots (bitmap_mark_free i h) = used_slots h - {i}"
    using i slot_free_mark(2)[OF len i'] by (auto simp: used_slots_def)
  have cnt: "unat (sl_in_use_count h) = card (used_slots h)" using ok by (simp add: bitmap_ok_def)
  have "used_slots h \<noteq> {}" using i by blast
  then have "0 < card (used_slots h)" by (simp add: card_gt_0_iff)
  then have "1 \<le> sl_in_use_count h" using cnt by (simp add: word_le_nat_alt)
  then have "unat (sl_in_use_count h - 1) = card (used_slots h) - 1" using unat_sub[of 1 "sl_in_use_count h"] cnt by simp
  then show "bitmap_ok (bitmap_mark_free i h)" using ok i by (simp add: bitmap_ok_def us)
qed

text \<open>The search for a free slot finds one exactly when one exists.\<close>

lemma find_free_some:
  assumes "bitmap_find_free_slot h = Some (idx, hint)"
  shows "idx < unat (sl_max_objects h)" and "slot_free (sl_free_bitmap h) idx"
  using assms
  by (auto simp: bitmap_find_free_slot_def Let_def find_Some_iff)

lemma find_free_none:
  assumes none: "bitmap_find_free_slot h = None" and i: "i < unat (sl_max_objects h)"
  shows "\<not> slot_free (sl_free_bitmap h) i"
proof -
  define mx where "mx = unat (sl_max_objects h)"
  define start where "start = (if sl_free_hint h \<ge> sl_max_objects h then 0 else unat (sl_free_hint h))"
  have st: "start < mx" using i by (auto simp: start_def mx_def word_le_nat_alt)
  define n where "n = (if start \<le> i then i - start else mx - start + i)"
  have "n < mx" "(start + n) mod mx = i" using i st by (auto simp: n_def mx_def)
  moreover have "\<forall>n<mx. \<not> slot_free (sl_free_bitmap h) ((start + n) mod mx)"
    using none by (auto simp: bitmap_find_free_slot_def Let_def find_None_iff mx_def start_def)
  ultimately show ?thesis by metis
qed

end
