(* ===== verification/Slab_Alloc.thy ===== *)
theory Slab_Alloc
  imports Slab_Inv
begin

text \<open>
  The invariant of the slab allocator and what keeps it: taking a slab off a list and putting it on one, editing
  a header, counters, memory contents, and pages that come from the physical memory manager.  Objects in use are the
  used slots of the slabs; two of them never overlap.
\<close>

section \<open>The invariant\<close>

fun list_state :: "slab_list \<Rightarrow> slab_state_t" where
  "list_state FreeList = SLAB_STATE_FREE"
| "list_state PartialList = SLAB_STATE_PARTIAL"
| "list_state FullList = SLAB_STATE_FULL"

fun fill_ok :: "slab_list \<Rightarrow> slab \<Rightarrow> bool" where
  "fill_ok FreeList h = (used_slots h = {})"
| "fill_ok PartialList h = (used_slots h \<noteq> {} \<and> sl_in_use_count h < sl_max_objects h)"
| "fill_ok FullList h = (sl_in_use_count h = sl_max_objects h)"

definition obj_size :: "slab_st \<Rightarrow> nat \<Rightarrow> nat" where
  "obj_size st c = unat (sc_object_size (ss_cache st c))"

text \<open>A header of a slab of cache \<open>c\<close> and mode \<open>m\<close>, whatever list it is on.\<close>

definition header_ok :: "slab_st \<Rightarrow> nat \<Rightarrow> nat \<Rightarrow> slab \<Rightarrow> bool" where
  "header_ok st c m h \<longleftrightarrow> sl_cache h = Some c \<and> sl_mode_id h = m \<and> sl_magic h = SLAB_MAGIC \<and> bitmap_ok h \<and>
     sizeof_slab + unat (sl_max_objects h) * obj_size st c \<le> PAGE_SIZE"

fun slab_ok :: "slab_st \<Rightarrow> list_key \<Rightarrow> slab \<Rightarrow> bool" where
  "slab_ok st (l, c, m) h = (header_ok st c m h \<and> sl_state h = list_state l \<and> fill_ok l h)"

definition cache_ok :: "slab_cache_t \<Rightarrow> bool" where
  "cache_ok k \<longleftrightarrow> 8 \<le> unat (sc_object_size k) \<and> unat (sc_object_size k) + sizeof_slab \<le> PAGE_SIZE \<and>
     sc_requested_size k \<le> sc_object_size k"

definition frame_used :: "slab_st \<Rightarrow> nat \<Rightarrow> bool" where
  "frame_used st s \<longleftrightarrow> s < 2 ^ 64 \<and> word_of_nat s \<in> used_frames (ss_pmm st)"

text \<open>
  \<open>C\<close> are the caches, \<open>L\<close> the lists, and \<open>S\<close> the slabs in flight, whose headers need not agree with a list.
\<close>

definition base_inv :: "nat set \<Rightarrow> slab_st \<Rightarrow> slab_lists \<Rightarrow> nat set \<Rightarrow> bool" where
  "base_inv C st L S \<longleftrightarrow> pmm_inv (ss_pmm st) \<and> (\<forall>c\<in>C. cache_ok (ss_cache st c)) \<and>
     (\<forall>c. Some c \<in> set (ss_buckets st) \<longrightarrow> c \<in> C) \<and> lists_ok C st L \<and>
     (\<forall>k s. s \<in> set (L k) \<longrightarrow> s \<notin> S \<longrightarrow> slab_ok st k (slab_at st s)) \<and>
     (\<forall>k s. s \<in> set (L k) \<longrightarrow> frame_used st s) \<and> (\<forall>s\<in>S. is_slab st s \<and> frame_used st s) \<and>
     (\<forall>s. is_slab st s \<longrightarrow> s \<in> S \<or> (\<exists>k. s \<in> set (L k))) \<and>
     (\<forall>c\<in>C. c mod PAGE_SIZE = 0 \<longrightarrow> frame_used st c \<and> \<not> is_slab st c)"

definition slab_inv :: "nat set \<Rightarrow> slab_st \<Rightarrow> bool" where
  "slab_inv C st \<longleftrightarrow> (\<exists>L. base_inv C st L {})"

lemma base_invD:
  assumes "base_inv C st L S"
  shows "pmm_inv (ss_pmm st)" and "c \<in> C \<Longrightarrow> cache_ok (ss_cache st c)" and "Some c \<in> set (ss_buckets st) \<Longrightarrow> c \<in> C"
    and "lists_ok C st L" and "s \<in> set (L k) \<Longrightarrow> s \<notin> S \<Longrightarrow> slab_ok st k (slab_at st s)"
    and "s \<in> set (L k) \<Longrightarrow> frame_used st s" and "s \<in> S \<Longrightarrow> is_slab st s" and "s \<in> S \<Longrightarrow> frame_used st s"
    and "is_slab st s \<Longrightarrow> s \<in> S \<or> (\<exists>k. s \<in> set (L k))"
    and "c \<in> C \<Longrightarrow> c mod PAGE_SIZE = 0 \<Longrightarrow> frame_used st c \<and> \<not> is_slab st c"
proof -
  note I = assms[unfolded base_inv_def]
  show "pmm_inv (ss_pmm st)" and "lists_ok C st L" using I by blast+
  show "c \<in> C \<Longrightarrow> cache_ok (ss_cache st c)" and "Some c \<in> set (ss_buckets st) \<Longrightarrow> c \<in> C" using I by blast+
  show "s \<in> set (L k) \<Longrightarrow> s \<notin> S \<Longrightarrow> slab_ok st k (slab_at st s)" and "s \<in> set (L k) \<Longrightarrow> frame_used st s" using I by blast+
  show "s \<in> S \<Longrightarrow> is_slab st s" and "s \<in> S \<Longrightarrow> frame_used st s" using I by blast+
  show "is_slab st s \<Longrightarrow> s \<in> S \<or> (\<exists>k. s \<in> set (L k))" using I by blast
  have "\<forall>c\<in>C. c mod PAGE_SIZE = 0 \<longrightarrow> frame_used st c \<and> \<not> is_slab st c" using I by (elim conjE)
  then show "c \<in> C \<Longrightarrow> c mod PAGE_SIZE = 0 \<Longrightarrow> frame_used st c \<and> \<not> is_slab st c" by simp
qed

lemma cache_of_key:
  assumes "base_inv C st L S" and "s \<in> set (L (l, c, m))"
  shows "c \<in> C"
  using lists_okD(2)[OF base_invD(4)[OF assms(1)], of "(l, c, m)"] assms(2) by force

section \<open>Frames of the invariant\<close>

text \<open>States that differ only in list links, counters and memory.\<close>

lemma relinked_slab_ok:
  assumes "relinked st st'"
  shows "slab_ok st' k (slab_at st' x) = slab_ok st k (slab_at st x)"
    and "header_ok st' c m (slab_at st' x) = header_ok st c m (slab_at st x)"
    and "obj_size st' c = obj_size st c" and "cache_ok (ss_cache st' c) = cache_ok (ss_cache st c)"
    and "frame_used st' x = frame_used st x" and "used_slots (slab_at st' x) = used_slots (slab_at st x)"
    and "sl_magic (slab_at st' x) = sl_magic (slab_at st x)" and "is_slab st' x = is_slab st x"
    and "sl_cache (slab_at st' x) = sl_cache (slab_at st x)" and "sl_mode_id (slab_at st' x) = sl_mode_id (slab_at st x)"
proof -
  have u: "unlink (slab_at st' x) = unlink (slab_at st x)" for x using assms by (simp add: relinked_def)
  note F = unlink_fields[OF u]
  have "bare_cache (ss_cache st' c) = bare_cache (ss_cache st c)" for c using assms by (simp add: relinked_def)
  then have "sc_object_size (bare_cache (ss_cache st' c)) = sc_object_size (bare_cache (ss_cache st c))"
    "sc_requested_size (bare_cache (ss_cache st' c)) = sc_requested_size (bare_cache (ss_cache st c))" for c by simp_all
  then have sz: "sc_object_size (ss_cache st' c) = sc_object_size (ss_cache st c)"
    "sc_requested_size (ss_cache st' c) = sc_requested_size (ss_cache st c)" for c by (simp_all add: bare_cache_def)
  show sz': "obj_size st' c = obj_size st c" for c by (simp add: obj_size_def sz)
  show "cache_ok (ss_cache st' c) = cache_ok (ss_cache st c)" by (simp add: cache_ok_def sz)
  show us: "used_slots (slab_at st' x) = used_slots (slab_at st x)" for x by (simp add: used_slots_def F)
  show hd: "header_ok st' c m (slab_at st' x) = header_ok st c m (slab_at st x)" for c m
    by (simp add: header_ok_def bitmap_ok_def F us sz')
  have "fill_ok l (slab_at st' x) = fill_ok l (slab_at st x)" for l by (cases l) (simp_all add: F us)
  then show "slab_ok st' k (slab_at st' x) = slab_ok st k (slab_at st x)" by (cases k) (simp add: hd F)
  show "frame_used st' x = frame_used st x" using assms by (simp add: frame_used_def relinked_def)
  show "is_slab st' x = is_slab st x" using assms by (simp add: relinked_def)
qed (use unlink_fields[of "slab_at st' x" "slab_at st x"] assms in \<open>simp_all add: relinked_def\<close>)

lemma base_invI:
  assumes "pmm_inv (ss_pmm st)" and "\<And>c. c \<in> C \<Longrightarrow> cache_ok (ss_cache st c)"
    and "\<And>c. Some c \<in> set (ss_buckets st) \<Longrightarrow> c \<in> C" and "lists_ok C st L"
    and "\<And>s k. s \<in> set (L k) \<Longrightarrow> s \<notin> S \<Longrightarrow> slab_ok st k (slab_at st s)"
    and "\<And>s k. s \<in> set (L k) \<Longrightarrow> frame_used st s" and "\<And>s. s \<in> S \<Longrightarrow> is_slab st s" and "\<And>s. s \<in> S \<Longrightarrow> frame_used st s"
    and "\<And>s. is_slab st s \<Longrightarrow> s \<in> S \<or> (\<exists>k. s \<in> set (L k))"
    and "\<And>c. c \<in> C \<Longrightarrow> c mod PAGE_SIZE = 0 \<Longrightarrow> frame_used st c \<and> \<not> is_slab st c"
  shows "base_inv C st L S"
  unfolding base_inv_def using assms(10) by (intro conjI allI ballI impI) (use assms(1-9) in \<open>blast | simp\<close>)+

lemma take_off:
  assumes inv: "base_inv C st L S" and s: "s \<in> set (L (l, c, m))"
  shows "base_inv C (list_remove l c m s st) (L((l, c, m) := remove1 s (L (l, c, m)))) (insert s S)"
    and "relinked st (list_remove l c m s st)" and "s \<notin> set ((L((l, c, m) := remove1 s (L (l, c, m)))) k)"
proof -
  let ?st = "list_remove l c m s st" and ?L = "L((l, c, m) := remove1 s (L (l, c, m)))"
  note ok = base_invD(4)[OF inv]
  note R = list_remove_ok[OF ok s]
  note F = relinked_slab_ok[OF R(2)]
  have dist: "distinct (L (l, c, m))" using lists_okD(3)[OF ok] .
  show rel: "relinked st ?st" by (rule R(2))
  show "s \<notin> set (?L k)" using dist lists_okD(4)[OF ok s, of k] by auto
  have sub: "x \<in> set (L k)" if "x \<in> set (?L k)" for x k using that set_remove1_subset by (fastforce split: if_splits)
  have mem: "x \<in> set (?L k)" if "x \<in> set (L k)" "x \<noteq> s" for x k using that by (auto simp: in_set_remove1)
  have s': "is_slab st s" "frame_used st s" using lists_okD(5)[OF ok s] base_invD(6)[OF inv s] by auto
  have eq: "ss_pmm ?st = ss_pmm st" "ss_buckets ?st = ss_buckets st" using rel by (auto simp: relinked_def)
  show "base_inv C ?st ?L (insert s S)"
  proof (rule base_invI)
    show "slab_ok ?st k (slab_at ?st x)" if "x \<in> set (?L k)" "x \<notin> insert s S" for x k
      using base_invD(5)[OF inv sub[OF that(1)]] that(2) F(1) by simp
    show "frame_used ?st x" if "x \<in> set (?L k)" for x k using base_invD(6)[OF inv sub[OF that]] F(5) by simp
    show "x \<in> insert s S \<or> (\<exists>k. x \<in> set (?L k))" if "is_slab ?st x" for x
      using base_invD(9)[OF inv, of x] that mem unfolding F(7,8) by blast
  qed (use base_invD[OF inv] R(1) eq s' F in auto)
qed

text \<open>Putting a slab in flight on a list.\<close>

lemma push_flight:
  assumes inv: "base_inv C st L (insert s S)" and s: "\<And>k. s \<notin> set (L k)" and c: "c \<in> C"
  shows "base_inv C (list_push l c m s st) (L((l, c, m) := s # L (l, c, m))) (insert s S)"
    and "relinked st (list_push l c m s st)"
proof -
  let ?st = "list_push l c m s st" and ?L = "L((l, c, m) := s # L (l, c, m))"
  have s': "is_slab st s" "frame_used st s" using base_invD(7,8)[OF inv, of s] by auto
  note R = list_push_ok[OF base_invD(4)[OF inv] c s s'(1)]
  note F = relinked_slab_ok[OF R(2)]
  show rel: "relinked st ?st" by (rule R(2))
  have cs: "x = s \<or> x \<in> set (L k)" if "x \<in> set (?L k)" for x k using that by (cases "k = (l, c, m)") auto
  have eq: "ss_pmm ?st = ss_pmm st" "ss_buckets ?st = ss_buckets st" using rel by (auto simp: relinked_def)
  have sub: "set (L k) \<subseteq> set (?L k)" for k by auto
  show "base_inv C ?st ?L (insert s S)"
  proof (rule base_invI)
    show "slab_ok ?st k (slab_at ?st x)" if "x \<in> set (?L k)" "x \<notin> insert s S" for x k
      using cs[OF that(1)] base_invD(5)[OF inv, of x k] that(2) F(1) by auto
    show "frame_used ?st x" if "x \<in> set (?L k)" for x k using cs[OF that] base_invD(6)[OF inv, of x k] s'(2) F(5) by auto
    show "x \<in> insert s S \<or> (\<exists>k. x \<in> set (?L k))" if "is_slab ?st x" for x
      using base_invD(9)[OF inv, of x] that sub unfolding F(7,8) by blast
  qed (use base_invD[OF inv] R(1) eq F in auto)
qed

lemma flight:
  assumes inv: "base_inv C st L S" and s: "s \<in> set (L k)"
  shows "base_inv C st L (insert s S)"
  using base_invD[OF inv] lists_okD(5)[OF base_invD(4)[OF inv] s] base_invD(6)[OF inv s] by (intro base_invI) auto

text \<open>Editing a header apart from its links puts the slab in flight; agreeing with its list again settles it.\<close>

lemma edit_slab:
  assumes inv: "base_inv C st L S" and s: "is_slab st s" "frame_used st s"
    and f: "\<And>h. sl_next (f h) = sl_next h \<and> sl_prev (f h) = sl_prev h"
  shows "base_inv C (upd_slab s f st) L (insert s S)"
proof (rule base_invI)
  show "lists_ok C (upd_slab s f st) L"
    by (rule lists_ok_cong[OF base_invD(4)[OF inv]]) (use f lists_okD(5)[OF base_invD(4)[OF inv]] in auto)
  show "slab_ok (upd_slab s f st) k (slab_at (upd_slab s f st) x)" if "x \<in> set (L k)" "x \<notin> insert s S" for x k
    using base_invD(5)[OF inv that(1)] that(2) by (cases k) (simp add: header_ok_def obj_size_def)
  show "x \<in> insert s S \<or> (\<exists>k. x \<in> set (L k))"
    if "is_slab (upd_slab s f st) x" for x
    using base_invD(9)[OF inv, of x] that by (auto split: if_splits)
qed (use base_invD[OF inv] s in \<open>auto simp: frame_used_def\<close>)

lemma settle:
  assumes inv: "base_inv C st L (insert s S)" and s: "s \<in> set (L k)" and ok: "slab_ok st k (slab_at st s)"
  shows "base_inv C st L (S - {s})"
proof (rule base_invI)
  show "slab_ok st k' (slab_at st x)" if "x \<in> set (L k')" "x \<notin> S - {s}" for x k'
    using that ok base_invD(5)[OF inv, of x k'] lists_okD(4)[OF base_invD(4)[OF inv], of s k k'] s by auto
  show "x \<in> S - {s} \<or> (\<exists>k. x \<in> set (L k))" if "is_slab st x" for x
    using base_invD(9)[OF inv, of x] that s by blast
qed (use base_invD[OF inv] in auto)

lemma put_on:
  assumes inv: "base_inv C st L (insert s S)" and s: "\<And>k. s \<notin> set (L k)" and c: "c \<in> C"
    and ok: "slab_ok st (l, c, m) (slab_at st s)"
  shows "base_inv C (list_push l c m s st) (L((l, c, m) := s # L (l, c, m))) (S - {s})"
    and "relinked st (list_push l c m s st)"
proof -
  note P = push_flight[OF inv s c, of l m]
  show "relinked st (list_push l c m s st)" by (rule P(2))
  show "base_inv C (list_push l c m s st) (L((l, c, m) := s # L (l, c, m))) (S - {s})"
    by (rule settle[OF P(1), of "(l, c, m)"]) (simp_all only: relinked_slab_ok(1)[OF P(2)] ok, simp)
qed

text \<open>Counters of a cache, and memory contents, do not matter.\<close>

lemma cache_counters:
  assumes inv: "base_inv C st L S"
    and f: "\<And>k. sc_object_size (f k) = sc_object_size k" "\<And>k l m. get_head l (f k) m = get_head l k m"
      "\<And>k. sc_requested_size (f k) = sc_requested_size k"
  shows "base_inv C (upd_cache c f st) L S" and "obj_size (upd_cache c f st) x = obj_size st x"
    and "head_of l d m (upd_cache c f st) = head_of l d m st"
proof -
  let ?st = "upd_cache c f st"
  show sz: "obj_size ?st x = obj_size st x" for x by (simp add: obj_size_def f)
  show hd: "head_of l d m ?st = head_of l d m st" for l d m by (simp add: head_of_def f)
  show "base_inv C ?st L S"
  proof (rule base_invI)
    show "lists_ok C ?st L"
      by (rule lists_ok_cong[OF base_invD(4)[OF inv]]) (use lists_okD(5)[OF base_invD(4)[OF inv]] hd in auto)
    show "slab_ok ?st k (slab_at ?st x)" if "x \<in> set (L k)" "x \<notin> S" for x k
      using base_invD(5)[OF inv that] by (cases k) (simp add: header_ok_def sz)
    show "cache_ok (ss_cache ?st d)" if "d \<in> C" for d using base_invD(2)[OF inv that] by (auto simp: cache_ok_def f)
  qed (use base_invD[OF inv] in \<open>auto simp: frame_used_def\<close>)
qed

lemma memory_frame:
  assumes inv: "base_inv C st L S"
  shows "base_inv C (upd_mem f st) L S" and "obj_size (upd_mem f st) x = obj_size st x"
proof -
  let ?st = "upd_mem f st"
  show sz: "obj_size ?st x = obj_size st x" for x by (simp add: obj_size_def)
  have fu: "frame_used ?st x = frame_used st x" for x by (simp add: frame_used_def upd_mem_def)
  show "base_inv C ?st L S"
  proof (rule base_invI)
    show "pmm_inv (ss_pmm ?st)" using base_invD(1)[OF inv] by (simp add: upd_mem_def)
    show "lists_ok C ?st L"
      by (rule lists_ok_cong[OF base_invD(4)[OF inv]]) (use lists_okD(5)[OF base_invD(4)[OF inv]] in auto)
    show "slab_ok ?st k (slab_at ?st x)" if "x \<in> set (L k)" "x \<notin> S" for x k
      using base_invD(5)[OF inv that] by (cases k) (simp add: header_ok_def sz)
  qed (use base_invD[OF inv] fu in auto)
qed

section \<open>Objects in use\<close>

definition slab_magic :: "slab_st \<Rightarrow> nat \<Rightarrow> bool" where
  "slab_magic st s \<longleftrightarrow> is_slab st s \<and> sl_magic (slab_at st s) = SLAB_MAGIC"

definition live_slots :: "slab_st \<Rightarrow> (nat \<times> nat) set" where
  "live_slots st = {(s, i). slab_magic st s \<and> i \<in> used_slots (slab_at st s)}"

definition obj_addr :: "slab_st \<Rightarrow> nat \<times> nat \<Rightarrow> nat" where
  "obj_addr st p = (case p of (s, i) \<Rightarrow> s + sizeof_slab + i * obj_size st (the (sl_cache (slab_at st s))))"

definition live_objs :: "slab_st \<Rightarrow> nat set" where
  "live_objs st = obj_addr st ` live_slots st"

text \<open>The caches keep their sizes and policies.\<close>

definition same_geom :: "slab_st \<Rightarrow> slab_st \<Rightarrow> bool" where
  "same_geom st st' \<longleftrightarrow> ss_buckets st' = ss_buckets st \<and>
     (\<forall>c. sc_object_size (ss_cache st' c) = sc_object_size (ss_cache st c) \<and>
       sc_requested_size (ss_cache st' c) = sc_requested_size (ss_cache st c) \<and> sc_policy (ss_cache st' c) = sc_policy (ss_cache st c))"

lemma same_geom_refl [simp]: "same_geom st st"
  by (simp add: same_geom_def)

lemma same_geom_trans: "same_geom st st1 \<Longrightarrow> same_geom st1 st2 \<Longrightarrow> same_geom st st2"
  by (simp add: same_geom_def)

lemma same_geom_size: "same_geom st st' \<Longrightarrow> obj_size st' c = obj_size st c"
  by (simp add: same_geom_def obj_size_def)

text \<open>The bytes of an object, and states that keep the objects \<open>P\<close> where they are and as they are.\<close>

definition extent :: "slab_st \<Rightarrow> nat \<times> nat \<Rightarrow> nat set" where
  "extent st p = {obj_addr st p ..< obj_addr st p + obj_size st (the (sl_cache (slab_at st (fst p))))}"

definition kept :: "slab_st \<Rightarrow> slab_st \<Rightarrow> (nat \<times> nat) set \<Rightarrow> bool" where
  "kept st st' P \<longleftrightarrow> (\<forall>p\<in>P. obj_addr st' p = obj_addr st p \<and> extent st' p = extent st p \<and>
     (\<forall>x\<in>extent st p. pm_mem (ss_pmm st') x = pm_mem (ss_pmm st) x))"

lemma keptI:
  assumes "same_geom st st'" and "\<And>s i. (s, i) \<in> P \<Longrightarrow> sl_cache (slab_at st' s) = sl_cache (slab_at st s)"
    and "\<And>p x. p \<in> P \<Longrightarrow> x \<in> extent st p \<Longrightarrow> pm_mem (ss_pmm st') x = pm_mem (ss_pmm st) x"
  shows "kept st st' P"
  using assms same_geom_size[OF assms(1)] by (auto simp: kept_def extent_def obj_addr_def)

lemma kept_trans: "kept st st1 P \<Longrightarrow> kept st1 st2 P \<Longrightarrow> kept st st2 P"
  by (simp add: kept_def)

lemma kept_mono: "kept st st' P \<Longrightarrow> Q \<subseteq> P \<Longrightarrow> kept st st' Q"
  unfolding kept_def by blast

definition same_live :: "slab_st \<Rightarrow> slab_st \<Rightarrow> bool" where
  "same_live st st' \<longleftrightarrow> live_slots st' = live_slots st \<and> kept st st' (live_slots st) \<and> same_geom st st'"

lemma same_live_refl [simp]: "same_live st st"
  by (simp add: same_live_def kept_def)

lemma same_live_trans: "same_live st st1 \<Longrightarrow> same_live st1 st2 \<Longrightarrow> same_live st st2"
  unfolding same_live_def using same_geom_trans kept_trans by metis

lemma same_live_objs: "same_live st st' \<Longrightarrow> live_objs st' = live_objs st"
  by (auto simp: same_live_def live_objs_def image_def kept_def)

lemma same_liveI:
  assumes "\<And>x. slab_magic st' x = slab_magic st x" and "\<And>x. slab_magic st x \<Longrightarrow> used_slots (slab_at st' x) = used_slots (slab_at st x)"
    and "\<And>x. slab_magic st x \<Longrightarrow> sl_cache (slab_at st' x) = sl_cache (slab_at st x)" and "same_geom st st'"
    and "\<And>p x. p \<in> live_slots st \<Longrightarrow> x \<in> extent st p \<Longrightarrow> pm_mem (ss_pmm st') x = pm_mem (ss_pmm st) x"
  shows "same_live st st'"
proof -
  have "kept st st' (live_slots st)" by (rule keptI) (use assms in \<open>auto simp: live_slots_def\<close>)
  then show ?thesis using assms by (auto simp: same_live_def live_slots_def)
qed

lemma relinked_geom:
  assumes "relinked st st'"
  shows "same_geom st st'"
proof -
  have b: "bare_cache (ss_cache st' c) = bare_cache (ss_cache st c)" for c using assms by (simp add: relinked_def)
  have "sc_object_size (bare_cache k) = sc_object_size k" "sc_requested_size (bare_cache k) = sc_requested_size k"
    "sc_policy (bare_cache k) = sc_policy k" for k by (simp_all add: bare_cache_def)
  then show ?thesis using b assms unfolding same_geom_def relinked_def by metis
qed

lemma relinked_live: "relinked st st' \<Longrightarrow> same_live st st'"
  using relinked_slab_ok[of st st'] relinked_geom[of st st']
  by (intro same_liveI) (auto simp: slab_magic_def relinked_def)

lemma cache_live:
  "(\<And>k. sc_object_size (f k) = sc_object_size k \<and> sc_requested_size (f k) = sc_requested_size k \<and> sc_policy (f k) = sc_policy k)
    \<Longrightarrow> same_live st (upd_cache c f st)"
  by (intro same_liveI) (auto simp: slab_magic_def same_geom_def)

lemma memory_live:
  "(\<And>p x. p \<in> live_slots st \<Longrightarrow> x \<in> extent st p \<Longrightarrow> f (pm_mem (ss_pmm st)) x = pm_mem (ss_pmm st) x) \<Longrightarrow>
    same_live st (upd_mem f st)"
  by (intro same_liveI) (auto simp: slab_magic_def same_geom_def, simp add: upd_mem_def)

lemma edit_live:
  assumes "is_slab st s" and "\<And>h. sl_magic (f h) = sl_magic h" "\<And>h. sl_cache (f h) = sl_cache h" "\<And>h. used_slots (f h) = used_slots h"
  shows "same_live st (upd_slab s f st)"
  using assms by (intro same_liveI) (auto simp: slab_magic_def same_geom_def)

lemma obj_size_upd [simp]: "obj_size (upd_slab s f st) c = obj_size st c"
  by (simp add: obj_size_def)

text \<open>A slab of the invariant, whether on a list or in flight with a good header.\<close>

lemma magic_ok:
  assumes inv: "base_inv C st L S" and m: "slab_magic st s" and n: "s \<notin> S"
  obtains l c md where "s \<in> set (L (l, c, md))" and "slab_ok st (l, c, md) (slab_at st s)" and "c \<in> C"
proof -
  obtain k where k: "s \<in> set (L k)" using base_invD(9)[OF inv, of s] m n by (auto simp: slab_magic_def)
  obtain l c md where kk: "k = (l, c, md)" by (cases k)
  show thesis using that[of l c md] k base_invD(5)[OF inv k n] cache_of_key[OF inv, of s l c md] kk by simp
qed

lemma frame_aligned: "frame_used st s \<Longrightarrow> s mod PAGE_SIZE = 0"
  by (auto simp: frame_used_def used_frames_def unat_of_nat)

text \<open>The extent of an object lies in the payload of its page.\<close>

lemma obj_in_page:
  assumes L: "base_inv C st L S" and p: "(s, i) \<in> live_slots st" and n: "s \<notin> S"
  shows "s + sizeof_slab \<le> obj_addr st (s, i)"
    and "obj_addr st (s, i) + obj_size st (the (sl_cache (slab_at st s))) \<le> s + PAGE_SIZE"
    and "s mod PAGE_SIZE = 0" and "8 \<le> obj_size st (the (sl_cache (slab_at st s)))" and "frame_used st s"
proof -
  have m: "slab_magic st s" and i: "i \<in> used_slots (slab_at st s)" using p by (auto simp: live_slots_def)
  obtain l c md where k: "s \<in> set (L (l, c, md))" "slab_ok st (l, c, md) (slab_at st s)" "c \<in> C" using magic_ok[OF L m n] .
  have h: "sl_cache (slab_at st s) = Some c"
      "sizeof_slab + unat (sl_max_objects (slab_at st s)) * obj_size st c \<le> PAGE_SIZE"
    using k(2) by (auto simp: header_ok_def)
  show "8 \<le> obj_size st (the (sl_cache (slab_at st s)))"
    using base_invD(2)[OF L k(3)] h(1) by (simp add: cache_ok_def obj_size_def)
  show "s + sizeof_slab \<le> obj_addr st (s, i)" by (simp add: obj_addr_def)
  show fu: "frame_used st s" using base_invD(6)[OF L k(1)] .
  show "s mod PAGE_SIZE = 0" using frame_aligned[OF fu] .
  have "Suc i \<le> unat (sl_max_objects (slab_at st s))" using i by (simp add: used_slots_def)
  then have "Suc i * obj_size st c \<le> unat (sl_max_objects (slab_at st s)) * obj_size st c" by (rule mult_le_mono1)
  then show "obj_addr st (s, i) + obj_size st (the (sl_cache (slab_at st s))) \<le> s + PAGE_SIZE"
    using h by (simp add: obj_addr_def)
qed

lemmas slab_obj_in_page = obj_in_page[where S = "{}", simplified]

lemma extent_in_page:
  assumes "base_inv C st L S" and "(s, i) \<in> live_slots st" and "s \<notin> S"
  shows "extent st (s, i) \<subseteq> page s"
  using obj_in_page[OF assms] by (auto simp: extent_def page_def)

lemma extent_other_page:
  assumes "base_inv C st L S" and "(t, i) \<in> live_slots st" and "t \<notin> S" and "t \<noteq> s" and "s mod PAGE_SIZE = 0"
  shows "extent st (t, i) \<inter> page s = {}"
  using extent_in_page[OF assms(1-3)] page_disjoint[OF obj_in_page(3)[OF assms(1-3)] assms(5,4)] by blast

lemma obj_base:
  assumes inv: "slab_inv C st" and p: "(s, i) \<in> live_slots st"
  shows "page_base (obj_addr st (s, i)) = s"
proof -
  obtain L where L: "base_inv C st L {}" using inv by (auto simp: slab_inv_def)
  note O = slab_obj_in_page[OF L p]
  define d where "d = obj_addr st (s, i) - s"
  have a: "obj_addr st (s, i) = s + d" and d: "d < PAGE_SIZE" using O by (simp_all add: d_def PAGE_SIZE_def)
  have "(s + d) mod PAGE_SIZE = d" using O(3) d by (metis mod_add_left_eq add_0 mod_less)
  then show ?thesis by (simp add: page_base_def a)
qed

lemma obj_addr_inj:
  assumes inv: "slab_inv C st"
  shows "inj_on (obj_addr st) (live_slots st)"
proof (rule inj_onI, clarify)
  fix s i t j assume p: "(s, i) \<in> live_slots st" "(t, j) \<in> live_slots st" and eq: "obj_addr st (s, i) = obj_addr st (t, j)"
  obtain L where L: "base_inv C st L {}" using inv by (auto simp: slab_inv_def)
  have "s = t" using obj_base[OF inv p(1)] obj_base[OF inv p(2)] eq by simp
  then show "s = t \<and> i = j" using eq slab_obj_in_page(4)[OF L p(1)] by (simp add: obj_addr_def)
qed

text \<open>Different objects do not overlap.\<close>

lemma obj_disjoint:
  assumes inv: "slab_inv C st" and p: "p \<in> live_slots st" and q: "q \<in> live_slots st" and ne: "p \<noteq> q"
  shows "extent st p \<inter> extent st q = {}"
proof -
  obtain s i t j where pq: "p = (s, i)" "q = (t, j)" by (cases p, cases q)
  obtain L where L: "base_inv C st L {}" using inv by (auto simp: slab_inv_def)
  show ?thesis
  proof (cases "s = t")
    case True
    let ?z = "obj_size st (the (sl_cache (slab_at st s)))"
    have "i < j \<or> j < i" using ne True pq by auto
    then have "Suc i * ?z \<le> j * ?z \<or> Suc j * ?z \<le> i * ?z" using mult_le_mono1 Suc_leI by blast
    then show ?thesis using True by (auto simp: obj_addr_def extent_def pq)
  next
    case False
    have "extent st (s, i) \<inter> page t = {}"
      using extent_other_page[OF L] p pq False slab_obj_in_page(3)[OF L, of t j] q by simp
    then show ?thesis using extent_in_page[OF L, of t j] q pq by auto
  qed
qed

section \<open>Pages\<close>

lemma new_bitmap:
  assumes "n \<le> SLAB_MAX_OBJECTS"
  defines "bm \<equiv> fold (\<lambda>i b. b[i div 64 := b ! (i div 64) OR push_bit (i mod 64) 1]) [0 ..< n] (replicate SLAB_BITMAP_WORDS (0 :: u64))"
  shows "length bm = SLAB_BITMAP_WORDS" and "j < SLAB_MAX_OBJECTS \<Longrightarrow> slot_free bm j = (j < n)"
proof -
  have "length bm = SLAB_BITMAP_WORDS \<and> (\<forall>j<SLAB_MAX_OBJECTS. slot_free bm j = (j < n))"
    using assms(1) unfolding bm_def
  proof (induction n)
    case 0
    then show ?case by (auto simp: slot_free_bit slot_bound)
  next
    case (Suc n)
    let ?b = "fold (\<lambda>i b. b[i div 64 := b ! (i div 64) OR push_bit (i mod 64) 1]) [0 ..< n] (replicate SLAB_BITMAP_WORDS (0 :: u64))"
    have IH: "length ?b = SLAB_BITMAP_WORDS" "\<And>j. j < SLAB_MAX_OBJECTS \<Longrightarrow> slot_free ?b j = (j < n)"
      using Suc by auto
    let ?h = "zero_slab\<lparr>sl_free_bitmap := ?b\<rparr>"
    have "slot_free (?b[n div 64 := ?b ! (n div 64) OR push_bit (n mod 64) 1]) j = (j = n \<or> slot_free ?b j)" for j
      using slot_free_mark(2)[of ?h n j] IH(1) Suc.prems by (simp add: bitmap_mark_free_def)
    then show ?case using IH by (auto simp: less_Suc_eq)
  qed
  then show "length bm = SLAB_BITMAP_WORDS" and "j < SLAB_MAX_OBJECTS \<Longrightarrow> slot_free bm j = (j < n)" by auto
qed

text \<open>Changing the frame allocator under the slabs.\<close>

lemma pmm_change:
  assumes inv: "base_inv C st L S" and pm: "pmm_inv pm" and sub: "used_frames (ss_pmm st) \<subseteq> used_frames pm"
  and mem: "\<And>s x. frame_used st s \<Longrightarrow> x \<in> page s \<Longrightarrow> pm_mem pm x = pm_mem (ss_pmm st) x"
  shows "base_inv C (st\<lparr>ss_pmm := pm\<rparr>) L S" and "S = {} \<Longrightarrow> same_live st (st\<lparr>ss_pmm := pm\<rparr>)"
proof -
  let ?st = "st\<lparr>ss_pmm := pm\<rparr>"
  have [simp]: "slab_at ?st = slab_at st" "is_slab ?st = is_slab st" "obj_size ?st = obj_size st"
    "head_of l c m ?st = head_of l c m st" for l c m
    by (simp_all add: slab_at_def is_slab_def obj_size_def head_of_def fun_eq_iff)
  show "same_live st ?st" if S: "S = {}"
  proof (intro same_liveI)
    fix p x assume p: "p \<in> live_slots st" and x: "x \<in> extent st p"
    obtain t i where p': "p = (t, i)" by (cases p)
    have "x \<in> page t" "frame_used st t" using extent_in_page[OF inv] obj_in_page(5)[OF inv] p x S by (auto simp: p')
    then show "pm_mem (ss_pmm ?st) x = pm_mem (ss_pmm st) x" using mem by simp
  qed (simp_all add: slab_magic_def same_geom_def)
  have fu: "frame_used st x \<Longrightarrow> frame_used ?st x" for x using sub by (auto simp: frame_used_def)
  show "base_inv C ?st L S"
  proof (rule base_invI)
    show "lists_ok C ?st L"
      by (rule lists_ok_cong[OF base_invD(4)[OF inv]]) (use lists_okD(5)[OF base_invD(4)[OF inv]] in auto)
    show "slab_ok ?st k (slab_at ?st x)" if "x \<in> set (L k)" "x \<notin> S" for x k
      using base_invD(5)[OF inv that] by (cases k) (simp add: header_ok_def)
  qed (use base_invD[OF inv] pm fu in auto)
qed

text \<open>A page that becomes a slab.\<close>

lemma adopt_page:
  assumes inv: "base_inv C st L S" and fu: "frame_used st s" and new: "\<And>k. s \<notin> set (L k)"
    and cell: "is_slab st s \<or> s \<notin> C"
  shows "base_inv C (upd_slab s f st) L (insert s S)"
proof (rule base_invI)
  show "lists_ok C (upd_slab s f st) L"
    by (rule lists_ok_cong[OF base_invD(4)[OF inv]]) (use new lists_okD(5)[OF base_invD(4)[OF inv]] in auto)
  show "slab_ok (upd_slab s f st) k (slab_at (upd_slab s f st) x)" if "x \<in> set (L k)" "x \<notin> insert s S" for x k
    using base_invD(5)[OF inv that(1)] that(2) by (cases k) (simp add: header_ok_def)
  show "x \<in> insert s S \<or> (\<exists>k. x \<in> set (L k))"
    if "is_slab (upd_slab s f st) x" for x
    using base_invD(9)[OF inv, of x] that by (cases "x = s") auto
qed (use base_invD[OF inv] fu cell in \<open>auto simp: frame_used_def\<close>)

definition new_max :: "nat \<Rightarrow> u16" where
  "new_max sz = (let q = (word_of_nat ((PAGE_SIZE - sizeof_slab) div sz) :: u16) in
     if unat q > SLAB_MAX_OBJECTS then word_of_nat SLAB_MAX_OBJECTS else q)"

lemma new_max_ok:
  assumes "8 \<le> sz" and "sz + sizeof_slab \<le> PAGE_SIZE"
  shows "0 < new_max sz" and "unat (new_max sz) \<le> SLAB_MAX_OBJECTS" and "sizeof_slab + unat (new_max sz) * sz \<le> PAGE_SIZE"
proof -
  let ?q = "(PAGE_SIZE - sizeof_slab) div sz"
  have "?q \<le> (PAGE_SIZE - sizeof_slab) div 8" using assms(1) by (rule div_le_mono2[rotated]) simp
  then have q: "?q < 2 ^ 16" "unat (word_of_nat ?q :: u16) = ?q" by (simp_all add: PAGE_SIZE_def sizeof_slab_def unat_of_nat)
  have pos: "0 < ?q" using assms by (simp add: div_greater_zero_iff)
  have mx: "unat (new_max sz) = min ?q SLAB_MAX_OBJECTS"
    using q by (auto simp: new_max_def Let_def SLAB_MAX_OBJECTS_def SLAB_BITMAP_WORDS_def unat_of_nat)
  show "unat (new_max sz) \<le> SLAB_MAX_OBJECTS" by (simp add: mx)
  have "0 < unat (new_max sz)" using pos by (simp add: mx SLAB_MAX_OBJECTS_def SLAB_BITMAP_WORDS_def)
  then show "0 < new_max sz" by (simp add: word_gt_0 unat_gt_0)
  have "unat (new_max sz) * sz \<le> ?q * sz" by (simp add: mx)
  also have "\<dots> \<le> PAGE_SIZE - sizeof_slab" by simp
  finally show "sizeof_slab + unat (new_max sz) * sz \<le> PAGE_SIZE" using assms(2) by linarith
qed

lemma adopt_live:
  assumes "\<not> slab_magic st s" and "used_slots (f (slab_at st s)) = {}"
  shows "same_live st (upd_slab s f st)"
proof -
  have ls: "live_slots (upd_slab s f st) = live_slots st"
    using assms by (auto simp: live_slots_def slab_magic_def split: if_splits)
  have "kept st (upd_slab s f st) (live_slots st)"
    by (rule keptI) (use assms(1) in \<open>auto simp: same_geom_def live_slots_def\<close>)
  then show ?thesis using ls by (simp add: same_live_def same_geom_def)
qed

lemma upd_slab_twice: "upd_slab s f (upd_slab s h st) = upd_slab s (\<lambda>x. f (h x)) st"
  by (simp add: upd_slab_def slab_at_def)

lemma allocate_page_ok:
  assumes inv: "base_inv C st L {}" and c: "c \<in> C"
  shows "case slab_allocate_page env c st of
      (None, st') \<Rightarrow> base_inv C st' L {} \<and> same_live st st'
    | (Some s, st') \<Rightarrow> base_inv C st' L {s} \<and> (\<forall>k. s \<notin> set (L k)) \<and> same_live st st' \<and>
        header_ok st' c (mode_val (se_mode env)) (slab_at st' s) \<and> used_slots (slab_at st' s) = {}"
proof -
  obtain phys pm where run: "pmm_alloc (se_epoch env) (mode_to_color (se_mode env)) 0 (ss_pmm st) = (phys, pm)"
    by (cases "pmm_alloc (se_epoch env) (mode_to_color (se_mode env)) 0 (ss_pmm st)")
  note A = pmm_alloc_frame[OF base_invD(1)[OF inv] run]
  let ?st1 = "st\<lparr>ss_pmm := pm\<rparr>"
  have keep: "pm_mem pm x = pm_mem (ss_pmm st) x" if "frame_used st t" "x \<in> page t" for t x
    using that A(4)[of "word_of_nat t" x] by (simp add: frame_used_def unat_of_nat)
  have P: "base_inv C ?st1 L {}" by (rule pmm_change(1)[OF inv A(1,2)]) (rule keep)
  have Plive: "same_live st ?st1" by (rule pmm_change(2)[OF inv A(1,2)]) (simp_all add: keep)
  show ?thesis
  proof (cases "phys = 0")
    case True
    then show ?thesis using P Plive by (simp add: slab_allocate_page_def run)
  next
    case False
    let ?s = "unat phys" and ?n = "new_max (obj_size st c)"
    let ?bm = "fold (\<lambda>i b. b[i div 64 := b ! (i div 64) OR push_bit (i mod 64) 1]) [0 ..< unat ?n] (replicate SLAB_BITMAP_WORDS (0 :: u64))"
    let ?h = "zero_slab\<lparr>sl_cache := Some c, sl_mode_id := mode_val (se_mode env), sl_state := SLAB_STATE_FREE,
        sl_free_hint := 0, sl_in_use_count := 0, sl_max_objects := ?n, sl_magic := SLAB_MAGIC, sl_free_bitmap := ?bm\<rparr>"
    let ?st2 = "upd_slab ?s (\<lambda>_. ?h) (upd_mem (fast_zero ?s PAGE_SIZE) ?st1)"
    have ph: "unat phys < 2 ^ 64" by (rule unat_u64_bound)
    have fu: "frame_used ?st1 ?s" using A(3) False ph by (simp add: frame_used_def)
    have nfu: "\<not> frame_used st ?s" using A(3) False by (simp add: frame_used_def)
    have new: "?s \<notin> set (L k)" for k using base_invD(6)[OF inv] nfu by blast
    have cell: "?s \<notin> C" using base_invD(10)[OF inv, of ?s] nfu frame_aligned[OF fu] by blast
    have nm: "\<not> slab_magic (upd_mem (fast_zero ?s PAGE_SIZE) ?st1) ?s"
      using base_invD(9)[OF P, of ?s] new by (auto simp: slab_magic_def)
    note sz = new_max_ok[of "obj_size st c"]
    have size_ok: "8 \<le> obj_size st c" "obj_size st c + sizeof_slab \<le> PAGE_SIZE"
      using base_invD(2)[OF inv c] by (auto simp: cache_ok_def obj_size_def)
    note N = new_max_ok[OF size_ok]
    note B = new_bitmap[OF N(2)]
    have us: "used_slots ?h = {}" using B(2) N(2) by (auto simp: used_slots_def)
    have inv2: "base_inv C ?st2 L {?s}"
      by (rule adopt_page[OF memory_frame(1)[OF P]]) (use fu new cell in \<open>auto simp: frame_used_def upd_mem_def\<close>)
    have hd: "header_ok ?st2 c (mode_val (se_mode env)) (slab_at ?st2 ?s)"
      using N B(1) us by (simp add: header_ok_def bitmap_ok_def obj_size_def)
    have mm: "same_live ?st1 (upd_mem (fast_zero ?s PAGE_SIZE) ?st1)"
    proof (rule memory_live)
      fix p x assume p: "p \<in> live_slots ?st1" and x: "x \<in> extent ?st1 p"
      obtain t i where p': "p = (t, i)" by (cases p)
      have "t \<noteq> ?s" using p nm by (auto simp: p' live_slots_def slab_magic_def)
      then have "x \<notin> page ?s" using extent_other_page[OF P, of t i ?s] p x frame_aligned[OF fu] by (auto simp: p')
      then show "fast_zero ?s PAGE_SIZE (pm_mem (ss_pmm ?st1)) x = pm_mem (ss_pmm ?st1) x"
        by (auto simp: fast_zero_def page_def PAGE_SIZE_def)
    qed
    have live2: "same_live st ?st2"
      by (rule same_live_trans[OF Plive same_live_trans[OF mm adopt_live[OF nm]]]) (rule us)
    let ?f1 = "\<lambda>k. k\<lparr>sc_metrics := (sc_metrics k)\<lparr>sm_slab_new := sm_slab_new (sc_metrics k) + 1\<rparr>\<rparr>"
    let ?f2 = "\<lambda>k. k\<lparr>sc_total_pages := sc_total_pages k + 1\<rparr>"
    let ?st3 = "upd_cache c ?f2 (upd_cache c ?f1 ?st2)"
    have gh: "get_head l (?f1 k) m = get_head l k m" "get_head l (?f2 k) m = get_head l k m" for l k m by (cases l; simp)+
    have inv3: "base_inv C ?st3 L {?s}"
      by (rule cache_counters(1)[OF cache_counters(1)[OF inv2]]) (simp_all add: gh)
    have "same_live ?st2 ?st3" by (rule same_live_trans; rule cache_live) simp_all
    then have live3: "same_live st ?st3" using live2 same_live_trans by blast
    have "slab_allocate_page env c st = (Some ?s, ?st3)"
      using False
      by (simp add: slab_allocate_page_def run Let_def zero_page_def upd_slab_twice new_max_def[unfolded Let_def, symmetric]
          obj_size_def[symmetric] upd_metrics_def)
    moreover have "header_ok ?st3 c (mode_val (se_mode env)) (slab_at ?st3 ?s)"
      using hd by (simp add: header_ok_def obj_size_def)
    ultimately show ?thesis using inv3 live3 new us by simp
  qed
qed

end
