(* ===== verification/Slab_Heap.thy ===== *)
theory Slab_Heap
  imports Slab_Alloc
begin

text \<open>
  Allocation and release of slab objects.  On states that satisfy the invariant allocation returns without a panic
  and hands out a slot that was free; release accepts exactly the objects in use.  Both keep every other object in its place with
  its bytes, and pages come from and go back to the physical memory manager.
\<close>

section \<open>Allocation\<close>

lemma head_in_list:
  assumes inv: "base_inv C st L S" and c: "c \<in> C"
  shows "head_of l c m st = Some s \<Longrightarrow> s \<in> set (L (l, c, m))" and "head_of l c m st = None \<longleftrightarrow> L (l, c, m) = []"
proof -
  have "links (nx st) (pv st) None (head_of l c m st) (L (l, c, m)) None"
    using lists_okD(1)[OF base_invD(4)[OF inv], of "(l, c, m)"] c by simp
  from links_head[OF this] show "head_of l c m st = Some s \<Longrightarrow> s \<in> set (L (l, c, m))"
    and "head_of l c m st = None \<longleftrightarrow> L (l, c, m) = []" by (auto split: if_splits)
qed

text \<open>A slab in flight that is linked on list \<open>l\<close>; it settles when its slots fit the list.\<close>

definition placed :: "nat set \<Rightarrow> slab_st \<Rightarrow> list_key \<Rightarrow> nat \<Rightarrow> bool" where
  "placed C st k s \<longleftrightarrow> (case k of (l, c, m) \<Rightarrow> (\<exists>L. base_inv C st L {s} \<and> s \<in> set (L k)) \<and>
     header_ok st c m (slab_at st s) \<and> sl_state (slab_at st s) = list_state l)"

lemma placedE:
  assumes "placed C st (l, c, m) s"
  obtains L where "base_inv C st L {s}" and "s \<in> set (L (l, c, m))" and "header_ok st c m (slab_at st s)"
    and "sl_state (slab_at st s) = list_state l" and "c \<in> C" and "is_slab st s" and "frame_used st s"
proof -
  obtain L where L: "base_inv C st L {s}" "s \<in> set (L (l, c, m))" using assms by (auto simp: placed_def)
  then show thesis using that[of L] assms cache_of_key[OF L] base_invD(7,8)[OF L(1), of s] by (auto simp: placed_def)
qed

lemma placed_settle: "placed C st (l, c, m) s \<Longrightarrow> fill_ok l (slab_at st s) \<Longrightarrow> slab_inv C st"
  using settle[of C st _ s "{}" "(l, c, m)"] by (auto simp: placed_def slab_inv_def)

lemma placed_lift:
  assumes inv: "base_inv C st L {}" and s: "s \<in> set (L (l, c, m))"
  shows "placed C st (l, c, m) s" and "fill_ok l (slab_at st s)"
  using flight[OF inv s] s base_invD(5)[OF inv s] by (auto simp: placed_def)

lemma placed_edit:
  assumes p: "placed C st (l, c, m) s" and f: "\<And>h. sl_next (f h) = sl_next h \<and> sl_prev (f h) = sl_prev h"
    and h: "header_ok st c m (f (slab_at st s))" and "sl_state (f (slab_at st s)) = list_state l"
  shows "placed C (upd_slab s f st) (l, c, m) s"
proof -
  obtain L where L: "base_inv C st L {s}" "s \<in> set (L (l, c, m))" "is_slab st s" "frame_used st s" using p by (rule placedE)
  have "base_inv C (upd_slab s f st) L {s}" using edit_slab[OF L(1,3,4) f] by simp
  then show ?thesis using L(2) h assms(4) by (auto simp: placed_def header_ok_def)
qed

definition counts_only :: "(slab_cache_t \<Rightarrow> slab_cache_t) \<Rightarrow> bool" where
  "counts_only f \<longleftrightarrow> (\<forall>k. sc_object_size (f k) = sc_object_size k \<and> sc_requested_size (f k) = sc_requested_size k \<and>
     sc_policy (f k) = sc_policy k \<and> (\<forall>l m. get_head l (f k) m = get_head l k m))"

lemma counts_onlyI [simp]:
  "counts_only (\<lambda>k. k\<lparr>sc_metrics := f (sc_metrics k)\<rparr>)" "counts_only (\<lambda>k. k\<lparr>sc_total_objects := g k\<rparr>)"
  "counts_only (\<lambda>k. k\<lparr>sc_total_pages := g k\<rparr>)"
proof -
  have "get_head l (k\<lparr>sc_metrics := a\<rparr>) m = get_head l k m" "get_head l (k\<lparr>sc_total_objects := b\<rparr>) m = get_head l k m"
    "get_head l (k\<lparr>sc_total_pages := b\<rparr>) m = get_head l k m" for l k a b m by (cases l; simp)+
  then show "counts_only (\<lambda>k. k\<lparr>sc_metrics := f (sc_metrics k)\<rparr>)" "counts_only (\<lambda>k. k\<lparr>sc_total_objects := g k\<rparr>)"
    "counts_only (\<lambda>k. k\<lparr>sc_total_pages := g k\<rparr>)" by (simp_all add: counts_only_def)
qed

lemma counters_frame:
  assumes f: "counts_only f"
  shows "base_inv C st L S \<Longrightarrow> base_inv C (upd_cache c f st) L S" and "same_live st (upd_cache c f st)"
    and "placed C st k s \<Longrightarrow> placed C (upd_cache c f st) k s"
    and "sc_policy (ss_cache (upd_cache c f st) d) = sc_policy (ss_cache st d)"
    and "sc_object_size (ss_cache (upd_cache c f st) d) = sc_object_size (ss_cache st d)"
    and "sc_requested_size (ss_cache (upd_cache c f st) d) = sc_requested_size (ss_cache st d)"
    and "head_of l d m (upd_cache c f st) = head_of l d m st"
proof -
  have f': "sc_object_size (f k) = sc_object_size k" "sc_requested_size (f k) = sc_requested_size k"
    "sc_policy (f k) = sc_policy k" "get_head l (f k) m = get_head l k m" for k l m using f by (auto simp: counts_only_def)
  have b: "base_inv C st L S \<Longrightarrow> base_inv C (upd_cache c f st) L S" for L S
    by (rule cache_counters(1)) (simp_all add: f')
  then show "base_inv C st L S \<Longrightarrow> base_inv C (upd_cache c f st) L S" .
  show "same_live st (upd_cache c f st)" by (rule cache_live) (simp add: f')
  show "placed C st k s \<Longrightarrow> placed C (upd_cache c f st) k s"
    using b[of _ "{s}"] by (auto simp: placed_def header_ok_def obj_size_def f' split: prod.splits)
  show "head_of l d m (upd_cache c f st) = head_of l d m st" by (simp add: head_of_def f')
qed (use f in \<open>simp_all add: counts_only_def\<close>)

text \<open>Linking a slab that is on no list.\<close>

definition link_slab :: "slab_list \<Rightarrow> nat \<Rightarrow> nat \<Rightarrow> nat \<Rightarrow> slab_st \<Rightarrow> slab_st" where
  "link_slab l c m s st = list_push l c m s (upd_slab s (\<lambda>x. x\<lparr>sl_state := list_state l\<rparr>) st)"

lemma link_placed:
  assumes inv: "base_inv C st L {s}" and new: "\<And>k. s \<notin> set (L k)" and c: "c \<in> C" and h: "header_ok st c m (slab_at st s)"
  shows "placed C (link_slab l c m s st) (l, c, m) s" and "same_live st (link_slab l c m s st)"
    and "fill_ok l' (slab_at (link_slab l c m s st) s) = fill_ok l' (slab_at st s)"
    and "sl_in_use_count (slab_at (link_slab l c m s st) s) = sl_in_use_count (slab_at st s)"
    and "sl_max_objects (slab_at (link_slab l c m s st) s) = sl_max_objects (slab_at st s)"
    and "bare_cache (ss_cache (link_slab l c m s st) d) = bare_cache (ss_cache st d)"
    and "ss_pmm (link_slab l c m s st) = ss_pmm st"
proof -
  let ?f = "\<lambda>x. x\<lparr>sl_state := list_state l\<rparr>" let ?st1 = "upd_slab s ?f st" and ?st = "link_slab l c m s st"
  have s: "is_slab st s" "frame_used st s" using base_invD(7,8)[OF inv, of s] by auto
  have i1: "base_inv C ?st1 L {s}" using edit_slab[OF inv s, of ?f] by simp
  note P = push_flight[OF i1 new c, of l m, folded link_slab_def]
  note F = relinked_slab_ok[OF P(2)]
  have u: "unlink (slab_at ?st s) = unlink (slab_at ?st1 s)" using P(2) by (simp add: relinked_def)
  note U = unlink_fields[OF u]
  have us: "used_slots (slab_at ?st s) = used_slots (slab_at st s)" using F(6)[of s] by (simp add: used_slots_def)
  have "header_ok ?st c m (slab_at ?st s)"
    using h unfolding F(2) by (simp add: header_ok_def bitmap_ok_def used_slots_def)
  moreover have "s \<in> set ((L((l, c, m) := s # L (l, c, m))) (l, c, m))" by simp
  ultimately show "placed C ?st (l, c, m) s" using P(1) U(3) unfolding placed_def by fastforce
  show "same_live st ?st"
    by (rule same_live_trans[OF edit_live relinked_live[OF P(2)]]) (use s in \<open>simp_all add: used_slots_def\<close>)
  show "fill_ok l' (slab_at ?st s) = fill_ok l' (slab_at st s)" using us U by (cases l') simp_all
  show "sl_in_use_count (slab_at ?st s) = sl_in_use_count (slab_at st s)"
    and "sl_max_objects (slab_at ?st s) = sl_max_objects (slab_at st s)" using U by simp_all
  show "bare_cache (ss_cache ?st d) = bare_cache (ss_cache st d)" and "ss_pmm ?st = ss_pmm st" using P(2) by (simp_all add: relinked_def)
qed

text \<open>Moving a slab from one list to another.\<close>

lemma move_placed:
  fixes l' :: slab_list
  assumes p: "placed C st (l, c, m) s"
  defines "st' \<equiv> link_slab l' c m s (list_remove l c m s st)"
  shows "placed C st' (l', c, m) s" and "same_live st st'" and "fill_ok l2 (slab_at st' s) = fill_ok l2 (slab_at st s)"
    and "sl_in_use_count (slab_at st' s) = sl_in_use_count (slab_at st s)"
    and "sl_max_objects (slab_at st' s) = sl_max_objects (slab_at st s)"
    and "bare_cache (ss_cache st' d) = bare_cache (ss_cache st d)" and "ss_pmm st' = ss_pmm st"
proof -
  let ?st1 = "list_remove l c m s st"
  obtain L where L: "base_inv C st L {s}" "s \<in> set (L (l, c, m))" and h: "header_ok st c m (slab_at st s)" and c: "c \<in> C"
    using p by (rule placedE)
  note T = take_off[OF L]
  note F = relinked_slab_ok[OF T(2)]
  have i: "base_inv C ?st1 (L((l, c, m) := remove1 s (L (l, c, m)))) {s}" using T(1) by simp
  have "header_ok ?st1 c m (slab_at ?st1 s)" using h F(2) by simp
  note K = link_placed[OF i T(3) c this, where l = l', folded st'_def]
  have u: "unlink (slab_at ?st1 s) = unlink (slab_at st s)" using T(2) by (simp add: relinked_def)
  show "placed C st' (l', c, m) s" by (rule K(1))
  show "same_live st st'" by (rule same_live_trans[OF relinked_live[OF T(2)] K(2)])
  show "fill_ok l2 (slab_at st' s) = fill_ok l2 (slab_at st s)" using K(3) F(6) unlink_fields[OF u] by (cases l2) simp_all
  show "sl_in_use_count (slab_at st' s) = sl_in_use_count (slab_at st s)"
    and "sl_max_objects (slab_at st' s) = sl_max_objects (slab_at st s)" using K(4,5) unlink_fields[OF u] by simp_all
  show "bare_cache (ss_cache st' d) = bare_cache (ss_cache st d)" and "ss_pmm st' = ss_pmm st"
    using K(6,7) T(2) by (simp_all add: relinked_def)
qed

lemma count_le_max: "bitmap_ok h \<Longrightarrow> sl_in_use_count h \<le> sl_max_objects h"
  using used_slots_le[of h] by (simp add: bitmap_ok_def word_le_nat_alt)

lemma empty_count: "bitmap_ok h \<Longrightarrow> used_slots h = {} \<Longrightarrow> sl_in_use_count h = 0 \<and> 0 < sl_max_objects h"
  by (auto simp: bitmap_ok_def unat_eq_0)

lemma empty_room: "header_ok st c m h \<Longrightarrow> used_slots h = {} \<Longrightarrow> sl_in_use_count h < sl_max_objects h"
  using empty_count[of h] by (auto simp: header_ok_def)

definition ready :: "nat set \<Rightarrow> slab_st \<Rightarrow> nat \<Rightarrow> nat \<Rightarrow> nat \<Rightarrow> bool" where
  "ready C st c m s \<longleftrightarrow> placed C st (PartialList, c, m) s \<and> sl_in_use_count (slab_at st s) < sl_max_objects (slab_at st s)"

lemma slab_pick_ok:
  assumes inv: "base_inv C st L {}" and c: "c \<in> C"
  shows "case slab_pick env c st of
      (None, st') \<Rightarrow> slab_inv C st' \<and> same_live st st'
    | (Some s, st') \<Rightarrow> ready C st' c (mode_val (se_mode env)) s \<and> same_live st st'"
proof -
  let ?m = "mode_val (se_mode env)"
  consider s where "head_of PartialList c ?m st = Some s"
    | s where "head_of PartialList c ?m st = None" "head_of FreeList c ?m st = Some s"
    | "head_of PartialList c ?m st = None" "head_of FreeList c ?m st = None" by fastforce
  then show ?thesis
  proof cases
    case 1
    have s: "s \<in> set (L (PartialList, c, ?m))" using head_in_list(1)[OF inv c 1] .
    have "ready C st c ?m s" using placed_lift[OF inv s] by (simp add: ready_def)
    then show ?thesis using 1 by (simp add: slab_pick_def)
  next
    case 2
    have s: "s \<in> set (L (FreeList, c, ?m))" using head_in_list(1)[OF inv c 2(2)] .
    note P = placed_lift[OF inv s]
    note M = move_placed[OF P(1), where l' = PartialList]
    have "sl_in_use_count (slab_at st s) < sl_max_objects (slab_at st s)"
      using P empty_room[of st c ?m] by (auto simp: placed_def)
    then show ?thesis using 2 M by (simp add: slab_pick_def Let_def ready_def link_slab_def)
  next
    case 3
    let ?st1 = "upd_metrics c (\<lambda>m. m\<lparr>sm_cache_miss := sm_cache_miss m + 1\<rparr>) st"
    note U = counters_frame[OF counts_onlyI(1), where c = c, folded upd_metrics_def]
    have U1: "base_inv C ?st1 L {}" by (rule U(1)[OF inv])
    obtain r st2 where run: "slab_allocate_page env c ?st1 = (r, st2)" by (cases "slab_allocate_page env c ?st1")
    note A = allocate_page_ok[OF U1 c, of env, unfolded run]
    show ?thesis
    proof (cases r)
      case None
      then have A': "base_inv C st2 L {}" "same_live ?st1 st2" using A by auto
      have "slab_inv C (upd_metrics c (\<lambda>m. m\<lparr>sm_alloc_fail := sm_alloc_fail m + 1\<rparr>) st2)"
        using U(1)[OF A'(1)] by (auto simp: slab_inv_def)
      then show ?thesis using 3 run None same_live_trans[OF U(2) same_live_trans[OF A'(2) U(2)]] by (simp add: slab_pick_def)
    next
      case (Some s)
      then have A': "base_inv C st2 L {s}" "\<And>k. s \<notin> set (L k)" "same_live ?st1 st2"
          "header_ok st2 c ?m (slab_at st2 s)" "used_slots (slab_at st2 s) = {}" using A by auto
      note K = link_placed[OF A'(1,2) c A'(4), where l = PartialList]
      have "sl_in_use_count (slab_at st2 s) < sl_max_objects (slab_at st2 s)" by (rule empty_room[OF A'(4,5)])
      then show ?thesis
        using 3 run Some K(1,4,5) same_live_trans[OF U(2) same_live_trans[OF A'(3) K(2)]]
        by (simp add: slab_pick_def ready_def link_slab_def)
    qed
  qed
qed

text \<open>One object more; the others keep their place and their contents.\<close>

definition adds_live :: "slab_st \<Rightarrow> slab_st \<Rightarrow> nat \<times> nat \<Rightarrow> bool" where
  "adds_live st st' p \<longleftrightarrow> p \<notin> live_slots st \<and> live_slots st' = insert p (live_slots st) \<and> kept st st' (live_slots st) \<and> same_geom st st'"

lemma adds_live_step:
  "same_live st st1 \<Longrightarrow> adds_live st1 st2 p \<Longrightarrow> adds_live st st2 p"
  "adds_live st st1 p \<Longrightarrow> same_live st1 st2 \<Longrightarrow> adds_live st st2 p"
  unfolding adds_live_def same_live_def using same_geom_trans kept_trans kept_mono by (metis subset_insertI)+

text \<open>Steps that write the bytes of one object only.\<close>

definition touched :: "nat \<times> nat \<Rightarrow> slab_st \<Rightarrow> slab_st \<Rightarrow> bool" where
  "touched p st st' \<longleftrightarrow> slab_at st' = slab_at st \<and> is_slab st' = is_slab st \<and> ss_cache st' = ss_cache st \<and> ss_buckets st' = ss_buckets st \<and>
     (\<forall>C. slab_inv C st \<longrightarrow> slab_inv C st') \<and> (\<forall>x. x \<notin> extent st p \<longrightarrow> pm_mem (ss_pmm st') x = pm_mem (ss_pmm st) x)"

lemma touched_refl [simp]: "touched p st st"
  by (simp add: touched_def)

lemma touched_step:
  assumes t: "touched p st st1" and f: "\<And>m x. x \<notin> extent st p \<Longrightarrow> f m x = m x"
  shows "touched p st (upd_mem f st1)"
proof -
  have "slab_inv C (upd_mem f st1)" if "slab_inv C st" for C
    using t that memory_frame(1)[of C st1 _ "{}" f] unfolding touched_def slab_inv_def by blast
  moreover have "pm_mem (ss_pmm (upd_mem f st1)) = f (pm_mem (ss_pmm st1))" by (simp add: upd_mem_def)
  ultimately show ?thesis using t f by (simp add: touched_def)
qed

lemma touched_geom: "touched p st st' \<Longrightarrow> same_geom st st'" "touched p st st' \<Longrightarrow> live_slots st' = live_slots st"
  "touched p st st' \<Longrightarrow> extent st' q = extent st q" "touched p st st' \<Longrightarrow> obj_addr st' q = obj_addr st q"
  "touched p st st' \<Longrightarrow> slab_inv C st \<Longrightarrow> slab_inv C st'"
  by (auto simp: touched_def same_geom_def live_slots_def slab_magic_def obj_addr_def obj_size_def extent_def)

lemma touched_kept:
  assumes t: "touched p st st'" and inv: "slab_inv C st" and p: "p \<in> live_slots st"
  shows "kept st st' (live_slots st - {p})"
proof (rule keptI)
  fix q x assume "q \<in> live_slots st - {p}" "x \<in> extent st q"
  then have "x \<notin> extent st p" using obj_disjoint[OF inv p] by blast
  then show "pm_mem (ss_pmm st') x = pm_mem (ss_pmm st) x" using t by (simp add: touched_def)
qed (use t touched_geom(1)[OF t] in \<open>simp_all add: touched_def\<close>)

lemma touched_adds:
  assumes t: "touched p st1 st2" and inv: "slab_inv C st1" and ad: "adds_live st st1 p"
  shows "adds_live st st2 p"
proof -
  have L: "live_slots st1 = insert p (live_slots st)" "p \<notin> live_slots st" using ad by (auto simp: adds_live_def)
  then have "live_slots st1 - {p} = live_slots st" by auto
  then have "kept st1 st2 (live_slots st)" using touched_kept[OF t inv] L by simp
  then have "kept st st2 (live_slots st)" using ad kept_trans by (auto simp: adds_live_def)
  then show ?thesis using ad touched_geom(1,2)[OF t] same_geom_trans by (auto simp: adds_live_def)
qed

lemma touched_obj:
  "touched p st st' \<Longrightarrow> sl_cache (slab_at st s) = Some c \<Longrightarrow>
    s + sizeof_slab + i * unat (sc_object_size (ss_cache st c)) = obj_addr st' (s, i)"
  by (simp add: touched_def obj_addr_def obj_size_def)

text \<open>Editing the bitmap of one slab.\<close>

lemma live_slots_edit:
  assumes "slab_magic st s" and "sl_magic (f (slab_at st s)) = SLAB_MAGIC" and "sl_cache (f (slab_at st s)) = sl_cache (slab_at st s)"
  shows "(x, j) \<in> live_slots (upd_slab s f st) \<longleftrightarrow> (if x = s then j \<in> used_slots (f (slab_at st s)) else (x, j) \<in> live_slots st)"
    and "kept st (upd_slab s f st) P"
proof -
  show "(x, j) \<in> live_slots (upd_slab s f st) \<longleftrightarrow> (if x = s then j \<in> used_slots (f (slab_at st s)) else (x, j) \<in> live_slots st)"
    using assms by (cases "x = s") (simp_all add: live_slots_def slab_magic_def)
  show "kept st (upd_slab s f st) P" by (rule keptI) (use assms(3) in \<open>auto simp: same_geom_def\<close>)
qed

lemma grow_live:
  assumes "slab_magic st s" and "sl_magic (f (slab_at st s)) = SLAB_MAGIC" and "sl_cache (f (slab_at st s)) = sl_cache (slab_at st s)"
    and us: "used_slots (f (slab_at st s)) = insert i (used_slots (slab_at st s))" and i: "i \<notin> used_slots (slab_at st s)"
  shows "adds_live st (upd_slab s f st) (s, i)"
proof -
  note E = live_slots_edit[of st s f, OF assms(1,2,3)]
  have at: "(s, j) \<in> live_slots st \<longleftrightarrow> j \<in> used_slots (slab_at st s)" for j using assms(1) by (simp add: live_slots_def)
  have "p \<in> live_slots (upd_slab s f st) \<longleftrightarrow> p = (s, i) \<or> p \<in> live_slots st" for p
    by (cases p) (simp add: E(1) us at)
  then have "live_slots (upd_slab s f st) = insert (s, i) (live_slots st)" by blast
  then show ?thesis using i at E(2) by (simp add: adds_live_def same_geom_def)
qed

lemma extent_eq:
  "sl_cache (slab_at st s) = Some c \<Longrightarrow>
    extent st (s, i) = {s + sizeof_slab + i * unat (sc_object_size (ss_cache st c)) ..<
      s + sizeof_slab + i * unat (sc_object_size (ss_cache st c)) + unat (sc_object_size (ss_cache st c))}"
  by (simp add: extent_def obj_addr_def obj_size_def)

lemma redzone_inside:
  assumes "has_redzone k" and "cache_ok k"
  shows "unat (sc_requested_size k) + 8 \<le> unat (sc_object_size k)"
proof -
  have "unat (sc_requested_size k) \<le> unat (sc_object_size k)" "unat (sc_object_size k) \<le> PAGE_SIZE"
    using assms(2) by (simp_all add: cache_ok_def word_le_nat_alt)
  then have "unat (sc_requested_size k + 8) = unat (sc_requested_size k) + 8" by (simp add: unat_word_ariths PAGE_SIZE_def)
  then show ?thesis using assms(1) by (simp add: has_redzone_def word_less_nat_alt)
qed

lemma zero_object_touched:
  assumes c: "sl_cache (slab_at st s) = Some c" and t: "touched (s, i) st st1" and a: "a = obj_addr st (s, i)"
  shows "touched (s, i) st (upd_mem (fast_zero a (unat (sc_object_size (ss_cache st c)))) st1)"
proof (rule touched_step[OF t])
  fix m x assume "x \<notin> extent st (s, i)"
  then have "\<not> (a \<le> x \<and> x < a + unat (sc_object_size (ss_cache st c)))" by (auto simp: extent_def c obj_size_def a)
  moreover have "8 * (unat (sc_object_size (ss_cache st c)) div 8) \<le> unat (sc_object_size (ss_cache st c))" by simp
  ultimately show "fast_zero a (unat (sc_object_size (ss_cache st c))) m x = m x"
    unfolding fast_zero_def by (simp del: times_div_less_eq_dividend, linarith)
qed

lemma write_object_touched:
  assumes c: "sl_cache (slab_at st s) = Some c" and t: "touched (s, i) st st1" and a: "a = obj_addr st (s, i)"
    and n: "d + length bs \<le> unat (sc_object_size (ss_cache st c))"
  shows "touched (s, i) st (upd_mem (write_bytes (a + d) bs) st1)"
proof (rule touched_step[OF t])
  fix m x assume "x \<notin> extent st (s, i)"
  then show "write_bytes (a + d) bs m x = m x" using n by (auto simp: extent_def c obj_size_def a write_bytes_def)
qed

lemma take_touched:
  assumes c: "sl_cache (slab_at st s) = Some c" and ok: "cache_ok (ss_cache st c)"
    and a: "a = obj_addr st (s, i)"
  shows "touched (s, i) st (slab_set_redzone c a (if sp_scrub_on_alloc (sc_policy (ss_cache st c))
      then upd_mem (fast_zero a (unat (sc_object_size (ss_cache st c)))) st else st))" (is "touched _ _ (slab_set_redzone c a ?st1)")
proof -
  have t: "touched (s, i) st ?st1" using zero_object_touched[OF c touched_refl a] by simp
  show ?thesis
  proof (cases "has_redzone (ss_cache st c)")
    case True
    have "touched (s, i) st (upd_mem (write_bytes (a + unat (sc_requested_size (ss_cache st c))) (le_bytes 8 SLAB_REDZONE_CANARY)) ?st1)"
      by (rule write_object_touched[OF c t a]) (use redzone_inside[OF True ok] in \<open>simp add: le_bytes_def\<close>)
    then show ?thesis using True by (simp add: slab_set_redzone_def Let_def split: if_splits)
  next
    case False
    then show ?thesis using t by (simp add: slab_set_redzone_def Let_def split: if_splits)
  qed
qed

text \<open>With scrubbing on and no redzone, an object whose size is a multiple of 8 is handed out zeroed.\<close>

definition cleared :: "slab_st \<Rightarrow> nat \<times> nat \<Rightarrow> bool" where
  "cleared st p \<longleftrightarrow> (let k = ss_cache st (the (sl_cache (slab_at st (fst p)))) in
     sp_scrub_on_alloc (sc_policy k) \<and> \<not> has_redzone k \<and> 8 dvd unat (sc_object_size k) \<longrightarrow>
     (\<forall>x\<in>extent st p. pm_mem (ss_pmm st) x = 0))"

lemma take_cleared:
  assumes c: "sl_cache (slab_at st s) = Some c" and a: "a = obj_addr st (s, i)"
  shows "cleared (slab_set_redzone c a (if sp_scrub_on_alloc (sc_policy (ss_cache st c))
      then upd_mem (fast_zero a (unat (sc_object_size (ss_cache st c)))) st else st)) (s, i)"
  using c by (auto simp: cleared_def slab_set_redzone_def Let_def a extent_def obj_addr_def obj_size_def upd_mem_def fast_zero_def
      slab_at_def dvd_mult_div_cancel)

lemma slab_take_ok:
  assumes rd: "ready C st c (mode_val (se_mode env)) s"
  shows "\<exists>idx st'. slab_take env c s st = Ret (Some (obj_addr st' (s, idx))) st' \<and> slab_inv C st' \<and> adds_live st st' (s, idx) \<and>
    sl_cache (slab_at st' s) = Some c \<and> cleared st' (s, idx)"
proof -
  let ?m = "mode_val (se_mode env)" and ?h = "slab_at st s"
  have pl: "placed C st (PartialList, c, ?m) s" and lt: "sl_in_use_count ?h < sl_max_objects ?h"
    using rd by (auto simp: ready_def)
  then obtain L where inv: "base_inv C st L {s}" and s: "s \<in> set (L (PartialList, c, ?m))" and h: "header_ok st c ?m ?h"
      and ps: "sl_state ?h = SLAB_STATE_PARTIAL" and sl: "is_slab st s" "frame_used st s" and cC: "c \<in> C"
    by (auto elim: placedE)
  have bm: "bitmap_ok ?h" using h by (simp add: header_ok_def)
  obtain idx hint where ff: "bitmap_find_free_slot ?h = Some (idx, hint)"
  proof (cases "bitmap_find_free_slot ?h")
    case None
    have "used_slots ?h = {..< unat (sl_max_objects ?h)}" using find_free_none[OF None] by (auto simp: used_slots_def)
    then have False using bm lt by (simp add: bitmap_ok_def word_less_nat_alt)
    then show ?thesis ..
  qed (use that in auto)
  let ?f = "\<lambda>x. bitmap_mark_used idx (x\<lparr>sl_free_hint := hint\<rparr>)"
  let ?st1 = "upd_slab s ?f st"
  have bm': "bitmap_ok (?h\<lparr>sl_free_hint := hint\<rparr>)" using bm by (simp add: bitmap_ok_def used_slots_def)
  note MU = mark_used_ok[OF bm', of idx]
  have us: "used_slots (?f ?h) = insert idx (used_slots ?h)" "idx \<notin> used_slots ?h" "bitmap_ok (?f ?h)"
    using MU find_free_some[OF ff] by (simp_all add: used_slots_def)
  have h1: "header_ok st c ?m (?f ?h)" using h us(3) by (simp add: header_ok_def)
  have p1: "placed C ?st1 (PartialList, c, ?m) s" by (rule placed_edit[OF pl]) (use h1 ps in simp_all)
  have add1: "adds_live st ?st1 (s, idx)"
    by (rule grow_live) (use h us sl in \<open>simp_all add: slab_magic_def header_ok_def\<close>)
  let ?st2 = "upd_metrics c (\<lambda>m. m\<lparr>sm_alloc_ok := sm_alloc_ok m + 1\<rparr>)
      (upd_cache c (\<lambda>k. k\<lparr>sc_total_objects := sc_total_objects k + 1\<rparr>) ?st1)"
  note K = counters_frame[OF counts_onlyI(2), where c = c] counters_frame[OF counts_onlyI(1), where c = c, folded upd_metrics_def]
  have p2: "placed C ?st2 (PartialList, c, ?m) s" by (rule K(10)[OF K(3)[OF p1]])
  have add2: "adds_live st ?st2 (s, idx)" by (rule adds_live_step(2)[OF add1 same_live_trans[OF K(2) K(9)]])
  let ?full = "sl_in_use_count (slab_at ?st2 s) = sl_max_objects (slab_at ?st2 s)"
  let ?st3 = "if ?full then link_slab FullList c ?m s (list_remove PartialList c ?m s ?st2) else ?st2"
  note M = move_placed[OF p2, where l' = FullList]
  have 3: "slab_inv C ?st3 \<and> adds_live st ?st3 (s, idx) \<and> sl_cache (slab_at ?st3 s) = Some c"
  proof (cases ?full)
    case True
    then show ?thesis using placed_settle[OF M(1)] M(1,3) adds_live_step(2)[OF add2 M(2)] by (auto simp: placed_def header_ok_def)
  next
    case False
    have at2: "slab_at ?st2 s = ?f ?h" by (simp add: upd_metrics_def)
    have "fill_ok PartialList (slab_at ?st2 s)"
      using False us(1) count_le_max[OF us(3)] unfolding at2 by (simp add: order_le_less)
    then show ?thesis using False placed_settle[OF p2] p2 add2 by (auto simp: placed_def header_ok_def)
  qed
  let ?obj = "s + sizeof_slab + idx * unat (sc_object_size (ss_cache ?st3 c))"
  let ?st4 = "if sp_scrub_on_alloc (sc_policy (ss_cache ?st3 c))
      then upd_mem (fast_zero ?obj (unat (sc_object_size (ss_cache ?st3 c)))) ?st3 else ?st3"
  let ?st5 = "slab_set_redzone c ?obj ?st4"
  have run: "slab_take env c s st = Ret (Some ?obj) ?st5"
    unfolding slab_take_def ff by (simp only: Let_def option.simps prod.simps link_slab_def list_state.simps)
  have 3: "slab_inv C ?st3" "adds_live st ?st3 (s, idx)" "sl_cache (slab_at ?st3 s) = Some c" using 3 by blast+
  have "cache_ok (ss_cache ?st3 c)" using 3(1) cC base_invD(2) by (auto simp: slab_inv_def)
  then have t: "touched (s, idx) ?st3 ?st5"
    by (rule take_touched[OF 3(3)]) (rule touched_obj[OF touched_refl 3(3)])
  have cl: "cleared ?st5 (s, idx)" by (rule take_cleared[OF 3(3)]) (rule touched_obj[OF touched_refl 3(3)])
  have c5: "sl_cache (slab_at ?st5 s) = Some c" using t 3(3) unfolding touched_def by argo
  have ob: "?obj = obj_addr ?st5 (s, idx)" by (rule touched_obj[OF t 3(3)])
  have "slab_inv C ?st5 \<and> adds_live st ?st5 (s, idx)" using touched_geom(5)[OF t 3(1)] touched_adds[OF t 3(1,2)] by blast
  moreover have "slab_take env c s st = Ret (Some (obj_addr ?st5 (s, idx))) ?st5"
    by (rule trans[OF run arg_cong[OF ob, where f = "\<lambda>a. Ret (Some a) ?st5"]])
  ultimately show ?thesis using cl c5 by blast
qed

text \<open>
  Allocation from a cache of the invariant returns: with an address when a slot is found, whose object was not in use,
  and with NULL and the same objects in use otherwise.
\<close>

fun alloc_post :: "nat set \<Rightarrow> slab_st \<Rightarrow> nat option \<Rightarrow> nat option kout \<Rightarrow> bool" where
  "alloc_post C st cache (Ret None st') = (slab_inv C st' \<and> same_live st st')"
| "alloc_post C st cache (Ret (Some a) st') = (slab_inv C st' \<and>
     (\<exists>s i. adds_live st st' (s, i) \<and> a = obj_addr st' (s, i) \<and> sl_cache (slab_at st' s) = cache \<and> cleared st' (s, i)))"
| "alloc_post C st cache _ = False"

lemma slab_alloc_ok:
  assumes inv: "slab_inv C st" and c: "\<And>c. cache = Some c \<Longrightarrow> c \<in> C"
  shows "alloc_post C st cache (slab_alloc env cache st)"
proof (cases cache)
  case None
  then show ?thesis using inv by (simp add: slab_alloc_def)
next
  case (Some c)
  obtain L where L: "base_inv C st L {}" using inv by (auto simp: slab_inv_def)
  note U = counters_frame[OF counts_onlyI(1), where c = c, folded upd_metrics_def]
  have "slab_inv C (upd_metrics c f st)" for f using U(1)[OF L] by (auto simp: slab_inv_def)
  moreover obtain r st1 where pk: "slab_pick env c st = (r, st1)" by (cases "slab_pick env c st")
  note P = slab_pick_ok[OF L c[OF Some], of env, unfolded pk]
  have "alloc_post C st (Some c) (slab_take env c s st1)" if r: "r = Some s" for s
  proof -
    obtain idx st2 where T: "slab_take env c s st1 = Ret (Some (obj_addr st2 (s, idx))) st2" "slab_inv C st2" "adds_live st1 st2 (s, idx)"
        "sl_cache (slab_at st2 s) = Some c" "cleared st2 (s, idx)"
      using slab_take_ok[of C st1 c env s] P r by auto
    have "adds_live st st2 (s, idx)" using adds_live_step(1)[OF _ T(3)] P r by simp
    then show ?thesis unfolding T(1) using T(2,4,5) by (simp; blast)
  qed
  ultimately show ?thesis using Some pk P U(2) by (cases r) (simp_all add: slab_alloc_def)
qed

lemma adds_live_objs:
  assumes inv: "slab_inv C st'" and ad: "adds_live st st' p"
  shows "obj_addr st' p \<notin> live_objs st" and "live_objs st' = insert (obj_addr st' p) (live_objs st)"
proof -
  have L: "live_slots st' = insert p (live_slots st)" "p \<notin> live_slots st"
    and A: "\<And>q. q \<in> live_slots st \<Longrightarrow> obj_addr st' q = obj_addr st q" using ad by (auto simp: adds_live_def kept_def)
  have eq: "live_objs st = obj_addr st' ` live_slots st" using A by (force simp: live_objs_def)
  then show "live_objs st' = insert (obj_addr st' p) (live_objs st)" by (simp add: live_objs_def L)
  have "inj_on (obj_addr st') (insert p (live_slots st))" using obj_addr_inj[OF inv] L by simp
  then show "obj_addr st' p \<notin> live_objs st" using L(2) unfolding eq by (auto simp: inj_on_insert)
qed

section \<open>Release\<close>

definition drops_live :: "slab_st \<Rightarrow> slab_st \<Rightarrow> (nat \<times> nat) set \<Rightarrow> bool" where
  "drops_live st st' P \<longleftrightarrow> live_slots st' = live_slots st - P \<and> kept st st' (live_slots st') \<and> same_geom st st'"

lemma drops_live_step:
  "drops_live st st1 P \<Longrightarrow> drops_live st1 st2 Q \<Longrightarrow> drops_live st st2 (P \<union> Q)"
  "same_live st st1 \<Longrightarrow> drops_live st1 st2 P \<Longrightarrow> drops_live st st2 P"
  "drops_live st st1 P \<Longrightarrow> same_live st1 st2 \<Longrightarrow> drops_live st st2 P"
proof -
  have k: "kept st st1 A \<Longrightarrow> kept st1 st2 B \<Longrightarrow> B \<subseteq> A \<Longrightarrow> kept st st2 B" for st1 A B
    using kept_trans kept_mono by metis
  show "drops_live st st1 P \<Longrightarrow> drops_live st1 st2 Q \<Longrightarrow> drops_live st st2 (P \<union> Q)"
    unfolding drops_live_def using k[of st1 "live_slots st1" "live_slots st2"] same_geom_trans[of st st1 st2] by auto
  show "same_live st st1 \<Longrightarrow> drops_live st1 st2 P \<Longrightarrow> drops_live st st2 P"
    unfolding drops_live_def same_live_def using k[of st1 "live_slots st1" "live_slots st2"] same_geom_trans[of st st1 st2] by auto
  show "drops_live st st1 P \<Longrightarrow> same_live st1 st2 \<Longrightarrow> drops_live st st2 P"
    unfolding drops_live_def same_live_def using k[of st1 "live_slots st1" "live_slots st2"] same_geom_trans[of st st1 st2] by auto
qed

lemma drops_live_objs:
  assumes inv: "slab_inv C st" and dr: "drops_live st st' {p}" and p: "p \<in> live_slots st"
  shows "live_objs st' = live_objs st - {obj_addr st p}"
proof -
  have L: "live_slots st' = live_slots st - {p}" and A: "\<And>q. q \<in> live_slots st' \<Longrightarrow> obj_addr st' q = obj_addr st q"
    using dr by (auto simp: drops_live_def kept_def)
  have "live_objs st' = obj_addr st ` (live_slots st - {p})" using A L by (force simp: live_objs_def)
  also have "\<dots> = live_objs st - obj_addr st ` {p}"
    unfolding live_objs_def by (rule inj_on_image_set_diff[OF obj_addr_inj[OF inv]]) (use p in auto)
  finally show ?thesis by simp
qed

lemma frame_free_ok:
  assumes inv: "pmm_inv pm" and r: "r \<in> used_frames pm"
  obtains pm' where "pmm_free e r pm = Some pm'" and "pmm_inv pm'" and "used_frames pm' = used_frames pm - {r}"
    and "\<And>x. pm_mem pm' x = (if x \<in> page (unat r) then 0 else pm_mem pm x)"
proof -
  let ?i = "unat r div PAGE_SIZE"
  have "block_ok (pm_total_frames pm) (frame_zone ?i) 0 ?i" and "block_frames 0 ?i \<inter> free_set pm = {}"
    using r by (auto simp: used_frames_def block_ok_def block_frames_def)
  then obtain pm' where run: "pmm_free e r pm = Some pm'" and rel: "released e 0 pm r pm'"
    using free_ex_inv[OF inv, of r 0 e] by (auto simp: pmm_free_def)
  have "pm_mem pm' x = (if x \<in> page (unat r) then 0 else pm_mem pm x)" for x
    using rel by (auto simp: released_def block_written_def Let_def page_def)
  then show thesis using that[OF run] frame_pool.release_live[OF inv r, of e] run by (simp add: frame_release_def)
qed

lemma page_upd_sel [simp]:
  "slab_at (st\<lparr>ss_pmm := pm, ss_page := (ss_page st)(s := RawPage)\<rparr>) x = (if x = s then zero_slab else slab_at st x)"
  "is_slab (st\<lparr>ss_pmm := pm, ss_page := (ss_page st)(s := RawPage)\<rparr>) x \<longleftrightarrow> x \<noteq> s \<and> is_slab st x"
  "obj_size (st\<lparr>ss_pmm := pm, ss_page := pg\<rparr>) c = obj_size st c"
  "head_of l c m (st\<lparr>ss_pmm := pm, ss_page := pg\<rparr>) = head_of l c m st"
  by (simp_all add: slab_at_def is_slab_def obj_size_def head_of_def)

lemma return_page_ok:
  assumes inv: "base_inv C st L {s}" and new: "\<And>k. s \<notin> set (L k)"
  shows "\<exists>st'. return_page env s st = Ret () st' \<and> base_inv C st' L {} \<and> drops_live st st' ({s} \<times> UNIV)"
proof -
  have fu: "frame_used st s" using base_invD(8)[OF inv, of s] by simp
  then have w: "unat (word_of_nat s :: u64) = s" by (simp add: frame_used_def unat_of_nat)
  obtain pm where pm: "pmm_free (se_epoch env) (word_of_nat s) (ss_pmm st) = Some pm" "pmm_inv pm"
      "used_frames pm = used_frames (ss_pmm st) - {word_of_nat s}" "\<And>x. pm_mem pm x = (if x \<in> page s then 0 else pm_mem (ss_pmm st) x)"
    using frame_free_ok[OF base_invD(1)[OF inv], of "word_of_nat s" "se_epoch env"] fu w by (auto simp: frame_used_def)
  let ?st = "st\<lparr>ss_pmm := pm, ss_page := (ss_page st)(s := RawPage)\<rparr>"
  have fu': "frame_used ?st x" if "frame_used st x" "x \<noteq> s" for x
  proof -
    have "unat (word_of_nat x :: u64) = x" using that(1) by (simp add: frame_used_def unat_of_nat)
    then have "word_of_nat x \<noteq> (word_of_nat s :: u64)" using that(2) w by metis
    then show ?thesis using that(1) pm(3) by (simp add: frame_used_def)
  qed
  have ne: "x \<noteq> s" if "x \<in> set (L k)" for x k using that new[of k] by blast
  have "base_inv C ?st L {}"
  proof (rule base_invI)
    show "lists_ok C ?st L"
      by (rule lists_ok_cong[OF base_invD(4)[OF inv]]) (use lists_okD(5)[OF base_invD(4)[OF inv]] ne in auto)
    show "slab_ok ?st k (slab_at ?st x)" if "x \<in> set (L k)" "x \<notin> {}" for x k
      using base_invD(5)[OF inv that(1)] that(2) ne[OF that(1)] by (cases k) (simp add: header_ok_def)
    show "x \<in> {} \<or> (\<exists>k. x \<in> set (L k))" if "is_slab ?st x" for x
      using base_invD(9)[OF inv, of x] that by (cases "x = s") auto
    show "frame_used ?st x" if "x \<in> set (L k)" for x k using fu'[OF base_invD(6)[OF inv that] ne[OF that]] .
    show "frame_used ?st c \<and> \<not> is_slab ?st c" if "c \<in> C" "c mod PAGE_SIZE = 0" for c
      using base_invD(10)[OF inv that] base_invD(7)[OF inv, of s] fu'[of c] by auto
  qed (use base_invD(1,2,3,7,8)[OF inv] pm(2) fu' in auto)
  moreover have "drops_live st ?st ({s} \<times> UNIV)"
  proof -
    have ls: "live_slots ?st = live_slots st - {s} \<times> UNIV" by (auto simp: live_slots_def slab_magic_def)
    have "kept st ?st (live_slots ?st)"
    proof (rule keptI)
      fix p x assume p: "p \<in> live_slots ?st" and x: "x \<in> extent st p"
      obtain t i where p': "p = (t, i)" by (cases p)
      have "x \<notin> page s" using extent_other_page[OF inv, of t i s] p x frame_aligned[OF fu] by (auto simp: p' ls)
      then show "pm_mem (ss_pmm ?st) x = pm_mem (ss_pmm st) x" using pm(4) by simp
    qed (auto simp: same_geom_def ls)
    then show ?thesis using ls by (simp add: drops_live_def same_geom_def)
  qed
  ultimately show ?thesis by (simp add: return_page_def pm(1))
qed

lemma empty_drop:
  assumes "used_slots (slab_at st s) = {}" and "drops_live st st' ({s} \<times> UNIV)"
  shows "same_live st st'"
proof -
  have "live_slots st - {s} \<times> UNIV = live_slots st" using assms(1) by (auto simp: live_slots_def)
  then show ?thesis using assms(2) by (auto simp: drops_live_def same_live_def)
qed

lemma zero_page_frame:
  assumes inv: "base_inv C st L {s}" and new: "\<And>k. s \<notin> set (L k)" and e: "used_slots (slab_at st s) = {}"
  shows "base_inv C (zero_page s st) L {s}" and "same_live st (zero_page s st)" and "used_slots (slab_at (zero_page s st) s) = {}"
proof -
  let ?st1 = "upd_mem (fast_zero s PAGE_SIZE) st"
  have fu: "frame_used st s" using base_invD(8)[OF inv, of s] by simp
  then have fu1: "frame_used ?st1 s" by (simp add: frame_used_def upd_mem_def)
  show "base_inv C (zero_page s st) L {s}"
    unfolding zero_page_def using adopt_page[OF memory_frame(1)[OF inv] fu1 new] base_invD(7)[OF inv, of s] by simp
  have z: "used_slots zero_slab = {}" by (simp add: used_slots_def zero_slab_def)
  then show "used_slots (slab_at (zero_page s st) s) = {}" by (simp add: zero_page_def)
  have ls: "live_slots (zero_page s st) = live_slots st" and ns: "(s, i) \<notin> live_slots st" for i
    using e z by (auto simp: zero_page_def live_slots_def slab_magic_def split: if_splits)
  have "kept st (zero_page s st) (live_slots st)"
  proof (rule keptI)
    fix p x assume p: "p \<in> live_slots st" and x: "x \<in> extent st p"
    obtain t i where p': "p = (t, i)" by (cases p)
    have "t \<noteq> s" using p ns[of i] by (auto simp: p')
    then have "x \<notin> page s" using extent_other_page[OF inv, of t i s] p x frame_aligned[OF fu] by (auto simp: p')
    then show "pm_mem (ss_pmm (zero_page s st)) x = pm_mem (ss_pmm st) x"
      by (auto simp: zero_page_def upd_mem_def fast_zero_def page_def PAGE_SIZE_def)
  qed (use ns in \<open>auto simp: same_geom_def zero_page_def\<close>)
  then show "same_live st (zero_page s st)" using ls by (simp add: same_live_def same_geom_def zero_page_def)
qed

lemma slab_retire_ok:
  assumes p: "placed C st (PartialList, c, m) s" and e: "used_slots (slab_at st s) = {}"
  shows "\<exists>st'. slab_retire env c s st = Ret () st' \<and> slab_inv C st' \<and> same_live st st'"
proof -
  have m: "sl_mode_id (slab_at st s) = m" using p by (simp add: placed_def header_ok_def)
  let ?st1 = "list_remove PartialList c m s st" let ?pol = "sc_policy (ss_cache ?st1 c)"
  let ?keep = "unat (sp_min_partial_slabs ?pol) > 0 \<and>
    count_slabs (unat (sp_min_partial_slabs ?pol)) (head_of FreeList c m ?st1) ?st1 < unat (sp_min_partial_slabs ?pol)"
  show ?thesis
  proof (cases ?keep)
    case True
    note M = move_placed[OF p, where l' = FreeList]
    have "slab_inv C (link_slab FreeList c m s ?st1)" using placed_settle[OF M(1)] M(3) e by simp
    then show ?thesis using True M(2) by (simp add: slab_retire_def m Let_def link_slab_def)
  next
    case False
    obtain L where L: "base_inv C st L {s}" "s \<in> set (L (PartialList, c, m))" using p by (rule placedE)
    define L1 where "L1 = L((PartialList, c, m) := remove1 s (L (PartialList, c, m)))"
    note T = take_off[OF L, folded L1_def]
    have i1: "base_inv C ?st1 L1 {s}" using T(1) by simp
    have e1: "used_slots (slab_at ?st1 s) = {}" using relinked_slab_ok(6)[OF T(2)] e by simp
    let ?st2 = "if sp_scrub_on_annihilate ?pol then zero_page s ?st1 else ?st1"
    note Z = zero_page_frame[OF i1 T(3) e1]
    have i2: "base_inv C ?st2 L1 {s}" "same_live st ?st2" "used_slots (slab_at ?st2 s) = {}"
      using i1 Z e1 same_live_trans[OF relinked_live[OF T(2)]] by simp_all
    let ?st3 = "upd_metrics c (\<lambda>m. m\<lparr>sm_slab_reclaimed := sm_slab_reclaimed m + 1\<rparr>)
      (upd_cache c (\<lambda>k. k\<lparr>sc_total_pages := (if sc_total_pages k > 0 then sc_total_pages k - 1 else sc_total_pages k)\<rparr>) ?st2)"
    note K = counters_frame[OF counts_onlyI(3), where c = c] counters_frame[OF counts_onlyI(1), where c = c, folded upd_metrics_def]
    have i3: "base_inv C ?st3 L1 {s}" by (rule K(8)[OF K(1)[OF i2(1)]])
    have l3: "same_live st ?st3" by (rule same_live_trans[OF i2(2) same_live_trans[OF K(2) K(9)]])
    have e3: "used_slots (slab_at ?st3 s) = {}" using i2(3) by (simp add: upd_metrics_def)
    obtain st' where R: "return_page env s ?st3 = Ret () st'" "base_inv C st' L1 {}" "drops_live ?st3 st' ({s} \<times> UNIV)"
      using return_page_ok[OF i3 T(3)] by blast
    have "slab_retire env c s st = Ret () st'"
      unfolding slab_retire_def m Let_def if_not_P[OF False] by (rule R(1))
    then show ?thesis using R(2) same_live_trans[OF l3 empty_drop[OF e3 R(3)]] by (auto simp: slab_inv_def)
  qed
qed

lemma shrink_live:
  assumes "slab_magic st s" and "sl_magic (f (slab_at st s)) = SLAB_MAGIC" and "sl_cache (f (slab_at st s)) = sl_cache (slab_at st s)"
    and us: "used_slots (f (slab_at st s)) = used_slots (slab_at st s) - {i}"
  shows "drops_live st (upd_slab s f st) {(s, i)}"
proof -
  note E = live_slots_edit[of st s f, OF assms(1,2,3)]
  have at: "(s, j) \<in> live_slots st \<longleftrightarrow> j \<in> used_slots (slab_at st s)" for j using assms(1) by (simp add: live_slots_def)
  have "p \<in> live_slots (upd_slab s f st) \<longleftrightarrow> p \<in> live_slots st \<and> p \<noteq> (s, i)" for p
    by (cases p) (simp add: E(1) us at)
  then have "live_slots (upd_slab s f st) = live_slots st - {(s, i)}" by blast
  then show ?thesis using E(2) by (simp add: drops_live_def same_geom_def)
qed

text \<open>A slot of a live slab, with everything the release needs to know of it.\<close>

lemma live_slotE:
  assumes inv: "slab_inv C st" and p: "(s, i) \<in> live_slots st"
  obtains l c m where "l \<noteq> FreeList" and "placed C st (l, c, m) s" and "i \<in> used_slots (slab_at st s)"
    and "sl_cache (slab_at st s) = Some c" and "sl_magic (slab_at st s) = SLAB_MAGIC" and "bitmap_ok (slab_at st s)"
    and "sl_mode_id (slab_at st s) = m" and "is_slab st s" and "8 \<le> obj_size st c"
proof -
  obtain L where L: "base_inv C st L {}" using inv by (auto simp: slab_inv_def)
  have m: "slab_magic st s" and i: "i \<in> used_slots (slab_at st s)" using p by (auto simp: live_slots_def)
  obtain l c md where k: "s \<in> set (L (l, c, md))" "c \<in> C" using magic_ok[OF L m, of thesis] by blast
  note P = placed_lift[OF L k(1)]
  have "l \<noteq> FreeList" using P(2) i by auto
  moreover have "8 \<le> obj_size st c" using base_invD(2)[OF L k(2)] by (simp add: cache_ok_def obj_size_def)
  ultimately show thesis using that[of l c md] P i m by (auto simp: placed_def header_ok_def slab_magic_def)
qed

lemma validate_ok:
  assumes "0 < unat (sc_object_size k)" and "i < unat (sl_max_objects h)"
  shows "slab_validate_object_ptr k s h (s + sizeof_slab + i * unat (sc_object_size k)) = Some i"
  using assms by (simp add: slab_validate_object_ptr_def Let_def)

lemma placed_memory: "placed C st k s \<Longrightarrow> placed C (upd_mem f st) k s"
  using memory_frame(1)[of C st _ "{s}" f] by (auto simp: placed_def header_ok_def obj_size_def split: prod.splits)

lemma mark_free_room:
  assumes ok: "bitmap_ok h" and i: "i \<in> used_slots h"
  shows "sl_in_use_count (bitmap_mark_free i h) < sl_max_objects (bitmap_mark_free i h)"
proof -
  have "unat (sl_in_use_count (bitmap_mark_free i h)) = card (used_slots h - {i})"
    using mark_free_ok[OF ok i] by (simp add: bitmap_ok_def)
  also have "\<dots> < card (used_slots h)" by (rule card_Diff1_less[OF finite_used_slots i])
  also have "\<dots> \<le> unat (sl_max_objects h)" by (rule used_slots_le)
  finally show ?thesis by (simp add: word_less_nat_alt)
qed

text \<open>The state of \<open>slab_free\<close> before it looks whether the slab has become empty.\<close>

definition freed :: "nat \<Rightarrow> nat \<Rightarrow> nat \<Rightarrow> nat \<Rightarrow> slab_st \<Rightarrow> slab_st" where
  "freed c s a idx st =
     (let k = ss_cache st c;
          st1 = (if sp_scrub_on_free (sc_policy k) then upd_mem (fast_zero a (unat (sc_object_size k))) st
                 else if sp_poison_on_free (sc_policy k)
                 then upd_mem (write_bytes a (replicate (unat (sc_requested_size k)) SLAB_POISON_BYTE)) st else st);
          st2 = upd_slab s (bitmap_mark_free idx) st1;
          st3 = upd_metrics c (\<lambda>m. m\<lparr>sm_free_ok := sm_free_ok m + 1\<rparr>)
                  (upd_cache c (\<lambda>k. k\<lparr>sc_total_objects :=
                     (if sc_total_objects k > 0 then sc_total_objects k - 1 else sc_total_objects k)\<rparr>) st2);
          m = sl_mode_id (slab_at st3 s)
      in if sl_state (slab_at st s) = SLAB_STATE_FULL then link_slab PartialList c m s (list_remove FullList c m s st3) else st3)"

lemma slab_free_eq:
  assumes slab: "is_slab st s" and "sl_magic (slab_at st s) = SLAB_MAGIC" and "sl_cache (slab_at st s) = Some c" and "page_base a = s"
    and "slab_validate_object_ptr (ss_cache st c) s (slab_at st s) a = Some i"
    and "\<not> slot_free (sl_free_bitmap (slab_at st s)) i"
    and "sp_enable_redzone (sc_policy (ss_cache st c)) \<Longrightarrow> slab_check_redzone c a st"
  shows "slab_free env (Some c) (Some a) st =
    (if sl_in_use_count (slab_at (freed c s a i st) s) = 0 then slab_retire env c s (freed c s a i st) else Ret () (freed c s a i st))"
proof -
  have 0: "\<not> forged_header s st" using slab by (auto simp: forged_header_def is_slab_def split: page_view.splits)
  have 1: "\<not> (sl_magic (slab_at st s) \<noteq> SLAB_MAGIC \<or> Some c \<noteq> Some c)" using assms(2) by simp
  have 2: "\<not> (sp_enable_redzone (sc_policy (ss_cache st c)) \<and> \<not> slab_check_redzone c a st)" using assms(7) by blast
  show ?thesis
    unfolding slab_free_def freed_def Let_def link_slab_def list_state.simps option.case prod.case assms(3,4,5) if_not_P[OF 0]
      if_not_P[OF 1] if_not_P[OF 2] if_not_P[OF assms(6)] by (rule refl)
qed

lemma touched_drops:
  assumes t: "touched p st st1" and inv: "slab_inv C st" and p: "p \<in> live_slots st" and dr: "drops_live st1 st2 {p}"
  shows "drops_live st st2 {p}"
proof -
  have "live_slots st2 = live_slots st - {p}" using dr touched_geom(2)[OF t] by (simp add: drops_live_def)
  then show ?thesis
    using dr touched_kept[OF t inv p] kept_trans same_geom_trans[OF touched_geom(1)[OF t]] by (auto simp: drops_live_def)
qed

lemma free_touched:
  assumes c: "sl_cache (slab_at st s) = Some c" and ok: "cache_ok (ss_cache st c)" and a: "a = obj_addr st (s, i)"
  shows "touched (s, i) st (if sp_scrub_on_free (sc_policy (ss_cache st c)) then upd_mem (fast_zero a (unat (sc_object_size (ss_cache st c)))) st
      else if sp_poison_on_free (sc_policy (ss_cache st c))
      then upd_mem (write_bytes a (replicate (unat (sc_requested_size (ss_cache st c))) SLAB_POISON_BYTE)) st else st)"
proof -
  have "unat (sc_requested_size (ss_cache st c)) \<le> unat (sc_object_size (ss_cache st c))"
    using ok by (simp add: cache_ok_def word_le_nat_alt)
  then have "touched (s, i) st (upd_mem (write_bytes (a + 0) (replicate (unat (sc_requested_size (ss_cache st c))) SLAB_POISON_BYTE)) st)"
    by (intro write_object_touched[OF c touched_refl a]) simp
  then show ?thesis using zero_object_touched[OF c touched_refl a] by simp
qed

lemma freed_ok:
  assumes inv: "slab_inv C st" and p: "(s, i) \<in> live_slots st" and c: "sl_cache (slab_at st s) = Some c"
    and a: "a = obj_addr st (s, i)"
  shows "\<exists>m. placed C (freed c s a i st) (PartialList, c, m) s" and "drops_live st (freed c s a i st) {(s, i)}"
    and "sl_in_use_count (slab_at (freed c s a i st) s) < sl_max_objects (slab_at (freed c s a i st) s)"
proof -
  obtain l d m where p0: "l \<noteq> FreeList" "placed C st (l, d, m) s" "i \<in> used_slots (slab_at st s)" "sl_cache (slab_at st s) = Some d"
      "sl_magic (slab_at st s) = SLAB_MAGIC" "bitmap_ok (slab_at st s)" "sl_mode_id (slab_at st s) = m" "is_slab st s"
    using live_slotE[OF inv p] by metis
  have d: "d = c" using p0(4) c by simp
  let ?k = "ss_cache st c"
  define st1 where "st1 = (if sp_scrub_on_free (sc_policy ?k) then upd_mem (fast_zero a (unat (sc_object_size ?k))) st
      else if sp_poison_on_free (sc_policy ?k)
      then upd_mem (write_bytes a (replicate (unat (sc_requested_size ?k)) SLAB_POISON_BYTE)) st else st)"
  have p1: "placed C st1 (l, c, m) s" using placed_memory[OF p0(2)[unfolded d]] p0(2) d by (simp add: st1_def)
  have "cache_ok ?k" using inv p0(2) d base_invD(2) by (auto simp: slab_inv_def elim!: placedE)
  then have t: "touched (s, i) st st1" unfolding st1_def by (rule free_touched[OF c _ a])
  then have at1: "slab_at st1 = slab_at st" "is_slab st1 = is_slab st" by (simp_all add: touched_def)
  let ?f = "bitmap_mark_free i" let ?st2 = "upd_slab s ?f st1"
  note MF = mark_free_ok[OF p0(6,3)]
  have h: "header_ok st1 c m (?f (slab_at st1 s))" using p1 MF(1) at1(1) by (simp add: placed_def header_ok_def)
  have p2: "placed C ?st2 (l, c, m) s" by (rule placed_edit[OF p1]) (use h p1 in \<open>simp_all add: placed_def\<close>)
  have d2: "drops_live st ?st2 {(s, i)}"
    by (rule touched_drops[OF t inv p], rule shrink_live) (use p0 at1 MF(2) in \<open>simp_all add: slab_magic_def\<close>)
  let ?st3 = "upd_metrics c (\<lambda>m. m\<lparr>sm_free_ok := sm_free_ok m + 1\<rparr>) (upd_cache c (\<lambda>k. k\<lparr>sc_total_objects :=
      (if sc_total_objects k > 0 then sc_total_objects k - 1 else sc_total_objects k)\<rparr>) ?st2)"
  note K = counters_frame[OF counts_onlyI(2), where c = c] counters_frame[OF counts_onlyI(1), where c = c, folded upd_metrics_def]
  have p3: "placed C ?st3 (l, c, m) s" by (rule K(10)[OF K(3)[OF p2]])
  have d3: "drops_live st ?st3 {(s, i)}" by (rule drops_live_step(3)[OF d2 same_live_trans[OF K(2) K(9)]])
  have at3: "slab_at ?st3 s = ?f (slab_at st s)" by (simp add: upd_metrics_def at1(1))
  have lt3: "sl_in_use_count (slab_at ?st3 s) < sl_max_objects (slab_at ?st3 s)"
    using mark_free_room[OF p0(6,3)] unfolding at3 .
  have m3: "sl_mode_id (slab_at ?st3 s) = m" using p3 by (simp add: placed_def header_ok_def)
  have fr: "freed c s a i st = (if sl_state (slab_at st s) = SLAB_STATE_FULL
      then link_slab PartialList c m s (list_remove FullList c m s ?st3) else ?st3)"
    unfolding freed_def Let_def st1_def[symmetric] m3 by (rule refl)
  have state: "sl_state (slab_at st s) = list_state l" using p0(2) by (simp add: placed_def)
  note M = move_placed[OF p3, where l' = PartialList]
  have "placed C (freed c s a i st) (PartialList, c, m) s \<and> drops_live st (freed c s a i st) {(s, i)} \<and>
      sl_in_use_count (slab_at (freed c s a i st) s) < sl_max_objects (slab_at (freed c s a i st) s)"
  proof (cases l)
    case FullList
    then show ?thesis unfolding fr state using M(1,4,5) drops_live_step(3)[OF d3 M(2)] lt3 by simp
  qed (use p0(1) p3 d3 lt3 in \<open>simp_all add: fr state\<close>)
  then show "\<exists>m. placed C (freed c s a i st) (PartialList, c, m) s" and "drops_live st (freed c s a i st) {(s, i)}"
    and "sl_in_use_count (slab_at (freed c s a i st) s) < sl_max_objects (slab_at (freed c s a i st) s)" by blast+
qed

lemma slab_free_ok:
  assumes inv: "slab_inv C st" and p: "(s, i) \<in> live_slots st" and c: "sl_cache (slab_at st s) = Some c"
    and rz: "sp_enable_redzone (sc_policy (ss_cache st c)) \<Longrightarrow> slab_check_redzone c (obj_addr st (s, i)) st"
  shows "\<exists>st'. slab_free env (Some c) (Some (obj_addr st (s, i))) st = Ret () st' \<and> slab_inv C st' \<and> drops_live st st' {(s, i)}"
proof -
  let ?a = "obj_addr st (s, i)" let ?st = "freed c s ?a i st"
  obtain m where h: "i \<in> used_slots (slab_at st s)" "sl_magic (slab_at st s) = SLAB_MAGIC" "is_slab st s" "8 \<le> obj_size st c"
    using live_slotE[OF inv p] c by (metis option.inject)
  have a: "?a = s + sizeof_slab + i * unat (sc_object_size (ss_cache st c))" by (simp add: obj_addr_def c obj_size_def)
  have v: "slab_validate_object_ptr (ss_cache st c) s (slab_at st s) ?a = Some i"
    unfolding a by (rule validate_ok) (use h in \<open>simp_all add: obj_size_def used_slots_def\<close>)
  have nf: "\<not> slot_free (sl_free_bitmap (slab_at st s)) i" using h(1) by (simp add: used_slots_def)
  note E = slab_free_eq[OF h(3,2) c obj_base[OF inv p] v nf rz, where env = env]
  note F = freed_ok[OF inv p c refl]
  obtain m where pl: "placed C ?st (PartialList, c, m) s" using F(1) by blast
  have bm: "bitmap_ok (slab_at ?st s)" using pl by (simp add: placed_def header_ok_def)
  show ?thesis
  proof (cases "used_slots (slab_at ?st s) = {}")
    case True
    then have "sl_in_use_count (slab_at ?st s) = 0" using empty_count[OF bm] by simp
    then show ?thesis using E slab_retire_ok[OF pl True, of env] drops_live_step(3)[OF F(2)] by auto
  next
    case False
    then have "unat (sl_in_use_count (slab_at ?st s)) \<noteq> 0" using bm by (simp add: bitmap_ok_def)
    then have "sl_in_use_count (slab_at ?st s) \<noteq> 0" by auto
    then show ?thesis using E placed_settle[OF pl] F(2,3) False by simp
  qed
qed

text \<open>Every other address is refused.\<close>

lemma slab_free_dead:
  assumes inv: "slab_inv C st" and dead: "\<And>i. (page_base a, i) \<in> live_slots st \<Longrightarrow> obj_addr st (page_base a, i) = a \<Longrightarrow>
      sl_cache (slab_at st (page_base a)) = Some c \<Longrightarrow> False"
  shows "slab_free env (Some c) (Some a) st = Forged \<and> forged_header (page_base a) st \<or>
    (\<exists>msg. slab_free env (Some c) (Some a) st = Panic msg)"
proof (cases "forged_header (page_base a) st \<or> sl_magic (slab_at st (page_base a)) \<noteq> SLAB_MAGIC \<or> sl_cache (slab_at st (page_base a)) \<noteq> Some c")
  case True
  then show ?thesis by (auto simp: slab_free_def Let_def[of "page_base a"])
next
  case False
  let ?s = "page_base a" let ?sz = "unat (sc_object_size (ss_cache st c))"
  have h: "sl_magic (slab_at st ?s) = SLAB_MAGIC" "sl_cache (slab_at st ?s) = Some c" using False by auto
  show ?thesis
  proof (cases "slab_validate_object_ptr (ss_cache st c) ?s (slab_at st ?s) a")
    case None
    then show ?thesis using False by (simp add: slab_free_def Let_def[of "page_base a"])
  next
    case (Some i)
    have i: "i < unat (sl_max_objects (slab_at st ?s))" "a = ?s + sizeof_slab + i * ?sz"
      using Some by (auto simp: slab_validate_object_ptr_def Let_def split: if_splits)
    have "is_slab st ?s" using h(1) by (auto simp: is_slab_def slab_at_def zero_slab_def SLAB_MAGIC_def split: page_view.splits)
    then have "slot_free (sl_free_bitmap (slab_at st ?s)) i"
      using dead[of i] h i by (auto simp: live_slots_def slab_magic_def used_slots_def obj_addr_def obj_size_def)
    then show ?thesis using False Some by (simp add: slab_free_def Let_def[of "page_base a"])
  qed
qed

lemma slab_free_redzone:
  assumes inv: "slab_inv C st" and i: "(page_base a, i) \<in> live_slots st" "a = obj_addr st (page_base a, i)"
    and c: "sl_cache (slab_at st (page_base a)) = Some c"
    and rz: "sp_enable_redzone (sc_policy (ss_cache st c))" "\<not> slab_check_redzone c a st"
  shows "slab_free env (Some c) (Some a) st = Panic ''SLAB: Redzone canary corruption detected''"
proof -
  let ?s = "page_base a"
  obtain l m where h: "i \<in> used_slots (slab_at st ?s)" "sl_magic (slab_at st ?s) = SLAB_MAGIC" "is_slab st ?s" "8 \<le> obj_size st c"
    using live_slotE[OF inv i(1)] c by (metis option.inject)
  have a: "a = ?s + sizeof_slab + i * unat (sc_object_size (ss_cache st c))"
    using i(2) by (simp add: obj_addr_def c obj_size_def)
  have "slab_validate_object_ptr (ss_cache st c) ?s (slab_at st ?s) (?s + sizeof_slab + i * unat (sc_object_size (ss_cache st c))) = Some i"
    by (rule validate_ok) (use h in \<open>simp_all add: obj_size_def used_slots_def\<close>)
  then have "slab_validate_object_ptr (ss_cache st c) ?s (slab_at st ?s) a = Some i" by (simp only: a[symmetric])
  moreover have "\<not> slot_free (sl_free_bitmap (slab_at st ?s)) i" using h(1) by (simp add: used_slots_def)
  moreover have "\<not> forged_header ?s st" using h(3) by (auto simp: forged_header_def is_slab_def split: page_view.splits)
  ultimately show ?thesis using h(2) c rz by (simp add: slab_free_def Let_def[of "page_base a"])
qed

section \<open>A small heap\<close>

definition sample_cache :: slab_cache_t where
  "sample_cache = \<lparr>sc_name = ''sample'', sc_requested_size = 1024, sc_object_size = 1024, sc_alignment = 16,
     sc_free_slabs = (\<lambda>_. None), sc_partial_slabs = (\<lambda>_. None), sc_full_slabs = (\<lambda>_. None), sc_next = None,
     sc_policy = kmalloc_policy, sc_metrics = zero_slab_metrics, sc_total_objects = 0, sc_total_pages = 0\<rparr>"

definition sample_env :: slab_env where
  "sample_env = \<lparr>se_mode = MODE_CASUAL, se_epoch = 3\<rparr>"

text \<open>One slab, in frame 0, of a cache at address 9; its first slot is in use.\<close>

definition sample_header :: slab where
  "sample_header = \<lparr>sl_next = None, sl_prev = None, sl_cache = Some 9, sl_mode_id = 2, sl_state = SLAB_STATE_PARTIAL,
     sl_free_hint = 1, sl_in_use_count = 1, sl_max_objects = 3, sl_magic = SLAB_MAGIC,
     sl_free_bitmap = [6, 0, 0, 0]\<rparr>"

definition sample_slabs :: slab_st where
  "sample_slabs = \<lparr>ss_pmm = sample_pmm, ss_page = (\<lambda>_. RawPage)(0 := SlabPage sample_header),
     ss_cache = (\<lambda>_. sample_cache\<lparr>sc_partial_slabs := (\<lambda>_. None)(2 := Some 0), sc_total_objects := 1, sc_total_pages := 1\<rparr>),
     ss_global_cache_list = None, ss_buckets = []\<rparr>"

lemma sample_header_sel: "sl_cache sample_header = Some 9" "sl_mode_id sample_header = 2" "sl_state sample_header = SLAB_STATE_PARTIAL"
  "sl_in_use_count sample_header = 1" "sl_max_objects sample_header = 3" "sl_magic sample_header = SLAB_MAGIC"
  "length (sl_free_bitmap sample_header) = 4" "sl_next sample_header = None" "sl_prev sample_header = None"
  by (simp_all add: sample_header_def)

lemma sample_used_slots: "used_slots sample_header = {0}"
proof -
  have "used_slots sample_header = set (filter (\<lambda>i. \<not> slot_free (sl_free_bitmap sample_header) i) [0 ..< unat (sl_max_objects sample_header)])"
    by (auto simp: used_slots_def)
  also have "\<dots> = {0}" by code_simp
  finally show ?thesis .
qed

lemma sample_slab_at: "slab_at sample_slabs s = (if s = 0 then sample_header else zero_slab)" "is_slab sample_slabs s \<longleftrightarrow> s = 0"
  by (simp_all add: slab_at_def is_slab_def sample_slabs_def)

lemma sample_base_inv: "base_inv {9} sample_slabs ((\<lambda>_. [])((PartialList, 9, 2) := [0])) {}" (is "base_inv _ _ ?L _")
proof (rule base_invI)
  have fu: "frame_used sample_slabs 0"
    by (simp add: frame_used_def used_frames_def sample_slabs_def sample_pmm_free sample_pmm_total)
  then show "frame_used sample_slabs s" if "s \<in> set (?L k)" for s k using that by (auto split: if_splits)
  show "pmm_inv (ss_pmm sample_slabs)" by (simp add: sample_slabs_def sample_pmm_inv)
  show "cache_ok (ss_cache sample_slabs c)" if "c \<in> {9}" for c
    by (simp add: sample_slabs_def sample_cache_def cache_ok_def sizeof_slab_def PAGE_SIZE_def)
  show "lists_ok {9} sample_slabs ?L"
  proof -
    have "head_of l 9 m sample_slabs = (if l = PartialList \<and> m = 2 then Some 0 else None)" for l m
      by (cases l) (simp_all add: head_of_def sample_slabs_def sample_cache_def)
    then show ?thesis by (auto simp: lists_ok_def sample_slab_at sample_header_sel)
  qed
  show "slab_ok sample_slabs k (slab_at sample_slabs s)" if "s \<in> set (?L k)" "s \<notin> {}" for s k
  proof -
    have k: "k = (PartialList, 9, 2)" "s = 0" using that by (auto split: if_splits)
    have "obj_size sample_slabs 9 = 1024" by (simp add: obj_size_def sample_slabs_def sample_cache_def)
    then show ?thesis
      by (simp add: k sample_slab_at header_ok_def bitmap_ok_def sample_header_sel sample_used_slots
          SLAB_BITMAP_WORDS_def SLAB_MAX_OBJECTS_def sizeof_slab_def PAGE_SIZE_def)
  qed
  show "s \<in> {} \<or> (\<exists>k. s \<in> set (?L k))" if "is_slab sample_slabs s" for s
    using that by (intro disjI2 exI[of _ "(PartialList, 9, 2)"]) (simp add: sample_slab_at)
qed (simp_all add: sample_slabs_def PAGE_SIZE_def)

lemma sample_inv: "slab_inv {9} sample_slabs"
  using sample_base_inv by (auto simp: slab_inv_def)

lemma sample_live: "(0, 0) \<in> live_slots sample_slabs"
  by (simp add: live_slots_def slab_magic_def sample_slab_at sample_used_slots sample_header_sel)

section \<open>Properties\<close>



end
