(* ===== verification/Kernel_Heap.thy ===== *)
theory Kernel_Heap
  imports Slab_Heap
begin

text \<open>
  The kernel heap on the slab caches: what \<open>kmalloc\<close> hands out, what \<open>kfree\<close> takes back,
  and clients that release only what they hold.
\<close>

section \<open>The heap\<close>

text \<open>
  \<open>C\<close> is the set of addresses of the caches.  A cache that does not start a page lives in an object of
  the heap, which no client holds.
\<close>

definition bucket_ok :: "slab_cache_t \<Rightarrow> u64 \<Rightarrow> bool" where
  "bucket_ok k sz \<longleftrightarrow> sc_object_size k = sz \<and> sp_scrub_on_alloc (sc_policy k) \<and> \<not> sp_enable_redzone (sc_policy k)"

definition heap_ok :: "nat set \<Rightarrow> slab_st \<Rightarrow> bool" where
  "heap_ok C st \<longleftrightarrow> slab_inv C st \<and> length (ss_buckets st) = KMALLOC_BUCKET_COUNT \<and>
     (\<forall>i<KMALLOC_BUCKET_COUNT. \<forall>c. ss_buckets st ! i = Some c \<longrightarrow> bucket_ok (ss_cache st c) (bucket_sizes ! i)) \<and>
     (\<forall>c\<in>C. \<not> sp_enable_redzone (sc_policy (ss_cache st c))) \<and>
     (\<forall>c\<in>C. c mod PAGE_SIZE \<noteq> 0 \<longrightarrow> c \<in> live_objs st)"

lemma obj_unaligned:
  assumes inv: "slab_inv C st" and p: "(s, i) \<in> live_slots st"
  shows "obj_addr st (s, i) mod PAGE_SIZE \<noteq> 0"
proof
  assume "obj_addr st (s, i) mod PAGE_SIZE = 0"
  then have "obj_addr st (s, i) = s" using obj_base[OF inv p] by (simp add: page_base_def)
  then show False by (simp add: obj_addr_def sizeof_slab_def)
qed

lemma heap_ok_geom:
  assumes "heap_ok C st" and "slab_inv C st'" and "same_geom st st'" and "\<And>c. c \<in> C \<Longrightarrow> c mod PAGE_SIZE \<noteq> 0 \<Longrightarrow> c \<in> live_objs st'"
  shows "heap_ok C st'"
  using assms by (auto simp: heap_ok_def same_geom_def bucket_ok_def)

lemma bucket_in_C: "slab_inv C st \<Longrightarrow> i < length (ss_buckets st) \<Longrightarrow> ss_buckets st ! i = Some c \<Longrightarrow> c \<in> C"
  using base_invD(3) by (metis nth_mem slab_inv_def)

lemma bucket_sizes_len: "length bucket_sizes = 9"
  by (simp add: bucket_sizes_def)

lemma bucket_sizes_8: "i < KMALLOC_BUCKET_COUNT \<Longrightarrow> 8 dvd unat (bucket_sizes ! i)"
proof -
  have "\<forall>b\<in>set bucket_sizes. 8 dvd unat b" by (simp add: bucket_sizes_def)
  then show "i < KMALLOC_BUCKET_COUNT \<Longrightarrow> 8 dvd unat (bucket_sizes ! i)"
    using nth_mem[of i bucket_sizes] by (simp add: KMALLOC_BUCKET_COUNT_def bucket_sizes_len)
qed

text \<open>The new object: as large as asked for, zeroed, and apart from the objects in use.\<close>

definition fresh_object :: "slab_st \<Rightarrow> slab_st \<Rightarrow> u64 \<Rightarrow> nat \<Rightarrow> bool" where
  "fresh_object st st' sz a \<longleftrightarrow> (\<exists>p. adds_live st st' p \<and> a = obj_addr st' p \<and> {a ..< a + unat sz} \<subseteq> extent st' p \<and>
     (\<forall>x\<in>extent st' p. pm_mem (ss_pmm st') x = 0))"

lemma heap_ok_same: "heap_ok C st \<Longrightarrow> slab_inv C st' \<Longrightarrow> same_live st st' \<Longrightarrow> heap_ok C st'"
  by (rule heap_ok_geom) (auto simp: same_live_objs heap_ok_def, simp add: same_live_def)

lemma heap_ok_adds:
  assumes "heap_ok C st" and "slab_inv C st'" and "adds_live st st' p"
  shows "heap_ok C st'"
  by (rule heap_ok_geom[OF assms(1,2)])
    (use assms(1,3) adds_live_objs[OF assms(2,3)] in \<open>auto simp: heap_ok_def adds_live_def\<close>)

lemma fresh_bucket:
  assumes H: "heap_ok C st" and i: "i < KMALLOC_BUCKET_COUNT" "sz \<le> bucket_sizes ! i"
    and inv: "slab_inv C st'" and ad: "adds_live st st' (s, j)" and c: "sl_cache (slab_at st' s) = ss_buckets st ! i"
    and cl: "cleared st' (s, j)"
  shows "heap_ok C st' \<and> fresh_object st st' sz (obj_addr st' (s, j))"
proof -
  have "(s, j) \<in> live_slots st'" using ad by (simp add: adds_live_def)
  then obtain d where d: "sl_cache (slab_at st' s) = Some d" using live_slotE[OF inv, of s j] by blast
  have H': "heap_ok C st'" by (rule heap_ok_adds[OF H inv ad])
  have "ss_buckets st' ! i = Some d" using c d ad by (simp add: adds_live_def same_geom_def)
  then have b: "bucket_ok (ss_cache st' d) (bucket_sizes ! i)" using H' i(1) by (simp add: heap_ok_def)
  have "\<forall>x\<in>extent st' (s, j). pm_mem (ss_pmm st') x = 0"
    using cl b bucket_sizes_8[OF i(1)] by (simp add: cleared_def d bucket_ok_def has_redzone_def Let_def)
  moreover have "{obj_addr st' (s, j) ..< obj_addr st' (s, j) + unat sz} \<subseteq> extent st' (s, j)"
    using b i(2) by (auto simp: extent_def d obj_size_def bucket_ok_def word_le_nat_alt)
  ultimately show ?thesis using H' ad unfolding fresh_object_def by blast
qed

fun kmalloc_post :: "nat set \<Rightarrow> u64 \<Rightarrow> slab_st \<Rightarrow> nat option kout \<Rightarrow> bool" where
  "kmalloc_post C sz st (Ret None st') = (heap_ok C st' \<and> same_live st st')"
| "kmalloc_post C sz st (Ret (Some a) st') = (heap_ok C st' \<and> fresh_object st st' sz a)"
| "kmalloc_post C sz st _ = False"

lemma kmalloc_small:
  assumes H: "heap_ok C st" and sz: "sz \<le> 4032"
  shows "kmalloc_post C sz st (kmalloc env sz st)"
proof (cases "sz = 0")
  case True
  then show ?thesis using H by (simp add: kmalloc_def)
next
  case False
  have inv: "slab_inv C st" and len: "length (ss_buckets st) = KMALLOC_BUCKET_COUNT" using H by (auto simp: heap_ok_def)
  have "8 \<in> set [0 ..< KMALLOC_BUCKET_COUNT]" "sz \<le> bucket_sizes ! 8" using sz by (auto simp: KMALLOC_BUCKET_COUNT_def bucket_sizes_def)
  then have "List.find (\<lambda>i. sz \<le> bucket_sizes ! i) [0 ..< KMALLOC_BUCKET_COUNT] \<noteq> None" unfolding find_None_iff by blast
  then obtain i where f: "List.find (\<lambda>i. sz \<le> bucket_sizes ! i) [0 ..< KMALLOC_BUCKET_COUNT] = Some i" by blast
  then have i: "i < KMALLOC_BUCKET_COUNT" "sz \<le> bucket_sizes ! i" by (auto simp: find_Some_iff)
  let ?c = "ss_buckets st ! i"
  have run: "kmalloc env sz st = slab_alloc env ?c st" using False f by (simp add: kmalloc_def)
  have "alloc_post C st ?c (slab_alloc env ?c st)" by (rule slab_alloc_ok[OF inv]) (use bucket_in_C[OF inv] i(1) len in simp)
  then show ?thesis
    unfolding run using fresh_bucket[OF H i]
    by (cases "(C, st, ?c, slab_alloc env ?c st)" rule: alloc_post.cases) (auto intro: heap_ok_same[OF H])
qed

lemma heap_ok_drops:
  assumes H: "heap_ok C st" and inv: "slab_inv C st'" and dr: "drops_live st st' {p}" and p: "p \<in> live_slots st" "obj_addr st p \<notin> C"
  shows "heap_ok C st'"
proof (rule heap_ok_geom[OF H inv])
  show "same_geom st st'" using dr by (simp add: drops_live_def)
  have "slab_inv C st" using H by (simp add: heap_ok_def)
  then show "c \<in> live_objs st'" if "c \<in> C" "c mod PAGE_SIZE \<noteq> 0" for c
    using H that p drops_live_objs[OF _ dr p(1)] by (auto simp: heap_ok_def)
qed

lemma kfree_ok:
  assumes H: "heap_ok C st" and p: "(s, i) \<in> live_slots st" and nc: "obj_addr st (s, i) \<notin> C"
  shows "\<exists>st'. kfree env (Some (obj_addr st (s, i))) st = Ret () st' \<and> heap_ok C st' \<and> drops_live st st' {(s, i)}"
proof -
  let ?a = "obj_addr st (s, i)"
  have inv: "slab_inv C st" using H by (simp add: heap_ok_def)
  obtain l c m where h: "placed C st (l, c, m) s" "sl_cache (slab_at st s) = Some c" "sl_magic (slab_at st s) = SLAB_MAGIC" "is_slab st s"
    using live_slotE[OF inv p] by metis
  have "c \<in> C" using h(1) by (rule placedE)
  then have rz: "\<not> sp_enable_redzone (sc_policy (ss_cache st c))" using H by (simp add: heap_ok_def)
  have pg: "ss_page st s = SlabPage (slab_at st s)" using h(4) by (auto simp: is_slab_def slab_at_def split: page_view.splits)
  obtain st' where F: "slab_free env (Some c) (Some ?a) st = Ret () st'" "slab_inv C st'" "drops_live st st' {(s, i)}"
    using slab_free_ok[OF inv p h(2)] rz by blast
  have "kfree env (Some ?a) st = Ret () st'"
    using F(1) h pg by (simp add: kfree_def obj_base[OF inv p] Let_def)
  then show ?thesis using F heap_ok_drops[OF H F(2,3) p nc] by blast
qed

section \<open>Clients\<close>

text \<open>Requests that the buckets serve, and releases, as operations of a pool of objects.\<close>

definition heap_acquire :: "slab_env \<times> u64 \<Rightarrow> slab_st \<Rightarrow> nat option \<times> slab_st" where
  "heap_acquire r st = (case r of (env, sz) \<Rightarrow>
     if sz \<le> 4032 then (case kmalloc env sz st of Ret a st' \<Rightarrow> (a, st') | _ \<Rightarrow> (None, st)) else (None, st))"

definition heap_release :: "slab_env \<Rightarrow> nat \<Rightarrow> slab_st \<Rightarrow> slab_st" where
  "heap_release env a st = (case kfree env (Some a) st of Ret _ st' \<Rightarrow> st' | _ \<Rightarrow> st)"

lemma heap_acquire_cases:
  assumes H: "heap_ok C st"
  shows "heap_acquire r st = (Some a, st') \<Longrightarrow> heap_ok C st' \<and> fresh_object st st' (snd r) a"
    and "heap_acquire r st = (None, st') \<Longrightarrow> heap_ok C st' \<and> same_live st st'"
proof -
  obtain env sz where r: "r = (env, sz)" by (cases r)
  have "sz \<le> 4032 \<Longrightarrow> kmalloc_post C sz st (kmalloc env sz st)" using kmalloc_small[OF H] .
  then show "heap_acquire r st = (Some a, st') \<Longrightarrow> heap_ok C st' \<and> fresh_object st st' (snd r) a"
    and "heap_acquire r st = (None, st') \<Longrightarrow> heap_ok C st' \<and> same_live st st'"
    using H by (auto simp: r heap_acquire_def split: if_splits kout.splits)
qed

interpretation heap_pool: resource_pool heap_acquire heap_release "\<lambda>st. live_objs st - C" "heap_ok C" for C
proof unfold_locales
  fix st st' r a assume H: "heap_ok C st" and run: "heap_acquire r st = (Some a, st')"
  have H': "heap_ok C st'" and fr: "fresh_object st st' (snd r) a" using heap_acquire_cases(1)[OF H run] by auto
  obtain p where p: "adds_live st st' p" "a = obj_addr st' p" using fr by (auto simp: fresh_object_def)
  have inv: "slab_inv C st'" using H' by (simp add: heap_ok_def)
  note A = adds_live_objs[OF inv p(1)]
  have "(fst p, snd p) \<in> live_slots st'" using p(1) by (simp add: adds_live_def)
  then have "a \<notin> C" using H A p(2) obj_unaligned[OF inv, of "fst p" "snd p"] by (auto simp: heap_ok_def)
  then show "heap_ok C st' \<and> a \<notin> live_objs st - C \<and> live_objs st' - C = insert a (live_objs st - C)"
    using H' A p(2) by auto
next
  fix st st' r assume "heap_ok C st" and "heap_acquire r st = (None, st')"
  then show "heap_ok C st' \<and> live_objs st - C \<subseteq> live_objs st' - C"
    using heap_acquire_cases(2) same_live_objs by blast
next
  fix st a env assume H: "heap_ok C st" and a: "a \<in> live_objs st - C"
  obtain s i where p: "(s, i) \<in> live_slots st" "a = obj_addr st (s, i)" using a by (auto simp: live_objs_def)
  obtain st' where F: "kfree env (Some a) st = Ret () st'" "heap_ok C st'" "drops_live st st' {(s, i)}"
    using kfree_ok[OF H p(1)] a p(2) by auto
  have "slab_inv C st" using H by (simp add: heap_ok_def)
  then show "heap_ok C (heap_release env a st) \<and> live_objs (heap_release env a st) - C = live_objs st - C - {a}"
    using F drops_live_objs[OF _ F(3) p(1)] p(2) by (auto simp: heap_release_def)
qed

section \<open>Initialisation\<close>

lemma live_objs_mem [simp]: "live_objs (upd_mem f st) = live_objs st"
proof -
  have "live_slots (upd_mem f st) = live_slots st" "obj_addr (upd_mem f st) = obj_addr st"
    by (auto simp: live_slots_def slab_magic_def obj_addr_def obj_size_def fun_eq_iff)
  then show ?thesis by (simp add: live_objs_def)
qed

lemma frame_used_mem: "frame_used (upd_mem f st) x = frame_used st x"
  by (simp add: frame_used_def upd_mem_def)

lemma heap_ok_mem:
  assumes H: "heap_ok C st"
  shows "heap_ok C (upd_mem f st)"
proof -
  obtain L where L: "base_inv C st L {}" using H by (auto simp: heap_ok_def slab_inv_def)
  then show ?thesis
    using H memory_frame(1)[OF L, of f] by (intro heap_ok_geom[OF H]) (auto simp: slab_inv_def same_geom_def heap_ok_def)
qed

lemma heap_ok_frame:
  assumes H: "heap_ok C st" and run: "pmm_alloc e col ow (ss_pmm st) = (phys, pm)"
  shows "heap_ok C (st\<lparr>ss_pmm := pm\<rparr>)"
    and "phys \<noteq> 0 \<Longrightarrow> frame_used (st\<lparr>ss_pmm := pm\<rparr>) (unat phys) \<and> \<not> is_slab st (unat phys) \<and> unat phys \<notin> C"
proof -
  obtain L where L: "base_inv C st L {}" using H by (auto simp: heap_ok_def slab_inv_def)
  note A = pmm_alloc_frame[OF base_invD(1)[OF L] run]
  have keep: "pm_mem pm x = pm_mem (ss_pmm st) x" if "frame_used st t" "x \<in> page t" for t x
    using that A(4)[of "word_of_nat t" x] by (simp add: frame_used_def unat_of_nat)
  have i: "base_inv C (st\<lparr>ss_pmm := pm\<rparr>) L {}" by (rule pmm_change(1)[OF L A(1,2)]) (rule keep)
  have "same_live st (st\<lparr>ss_pmm := pm\<rparr>)" by (rule pmm_change(2)[OF L A(1,2)]) (simp_all add: keep)
  then show "heap_ok C (st\<lparr>ss_pmm := pm\<rparr>)" using i by (intro heap_ok_same[OF H]) (auto simp: slab_inv_def)
  assume nz: "phys \<noteq> 0"
  then have new: "\<not> frame_used st (unat phys)" and fu: "frame_used (st\<lparr>ss_pmm := pm\<rparr>) (unat phys)"
    using A(3) unat_u64_bound[of phys] by (auto simp: frame_used_def)
  have "\<not> is_slab st (unat phys)" using base_invD(9)[OF L, of "unat phys"] base_invD(6)[OF L] new by blast
  moreover have "unat phys \<notin> C" using base_invD(10)[OF L, of "unat phys"] new frame_aligned[OF fu] by blast
  ultimately show "frame_used (st\<lparr>ss_pmm := pm\<rparr>) (unat phys) \<and> \<not> is_slab st (unat phys) \<and> unat phys \<notin> C" using fu by blast
qed

text \<open>Entering a new cache in a cell that no cache uses.\<close>

lemma heap_ok_new_cache:
  assumes H: "heap_ok C st" and c: "c \<notin> C" and k: "cache_ok k" "\<not> sp_enable_redzone (sc_policy k)"
    and empty: "\<And>l m. get_head l k m = None"
    and cell: "if c mod PAGE_SIZE = 0 then frame_used st c \<and> \<not> is_slab st c else c \<in> live_objs st"
  shows "heap_ok (insert c C) (st\<lparr>ss_cache := (ss_cache st)(c := k), ss_global_cache_list := g\<rparr>)" (is "heap_ok _ ?st")
proof -
  obtain L where L: "base_inv C st L {}" using H by (auto simp: heap_ok_def slab_inv_def)
  have [simp]: "slab_at ?st = slab_at st" "is_slab ?st = is_slab st" "frame_used ?st = frame_used st"
    by (simp_all add: slab_at_def is_slab_def frame_used_def fun_eq_iff)
  have sz: "d \<noteq> c \<Longrightarrow> obj_size ?st d = obj_size st d" for d by (simp add: obj_size_def)
  have Lc: "L (l, c, m) = []" for l m using lists_okD(2)[OF base_invD(4)[OF L], of "(l, c, m)"] c by simp
  have hd: "head_of l d m ?st = (if d = c then None else head_of l d m st)" for l d m
    using empty by (simp add: head_of_def)
  have "base_inv (insert c C) ?st L {}"
  proof (rule base_invI)
    show "lists_ok (insert c C) ?st L"
      using base_invD(4)[OF L] c unfolding lists_ok_def by (auto simp: hd Lc)
    show "slab_ok ?st k' (slab_at ?st s)" if "s \<in> set (L k')" "s \<notin> {}" for s k'
    proof -
      obtain l d m where k': "k' = (l, d, m)" by (cases k')
      have "d \<noteq> c" using that(1) Lc by (auto simp: k')
      then show ?thesis using base_invD(5)[OF L that] by (simp add: k' header_ok_def sz)
    qed
  qed (use base_invD[OF L] k(1) cell in \<open>auto split: if_splits\<close>)
  then have inv: "slab_inv (insert c C) ?st" by (auto simp: slab_inv_def)
  have lv: "live_objs ?st = live_objs st"
  proof -
    have "obj_addr ?st p = obj_addr st p" if p: "p \<in> live_slots st" for p
    proof -
      obtain s i where p': "p = (s, i)" by (cases p)
      obtain l d m where d: "sl_cache (slab_at st s) = Some d" "placed C st (l, d, m) s"
        using live_slotE[OF _ p[unfolded p']] H by (metis heap_ok_def)
      have "d \<in> C" using d(2) by (rule placedE)
      then have "d \<noteq> c" using c by blast
      then show ?thesis by (simp add: p' obj_addr_def sz d(1))
    qed
    moreover have "live_slots ?st = live_slots st" by (simp add: live_slots_def slab_magic_def)
    ultimately show ?thesis by (auto simp: live_objs_def image_def)
  qed
  have "Some c \<notin> set (ss_buckets st)" using base_invD(3)[OF L] c by blast
  then have "bucket_ok (ss_cache ?st d) (bucket_sizes ! i)" if "i < KMALLOC_BUCKET_COUNT" "ss_buckets st ! i = Some d" for i d
    using H that nth_mem[of i "ss_buckets st"] by (auto simp: heap_ok_def)
  then show ?thesis using H inv lv k(2) cell c by (auto simp: heap_ok_def)
qed

lemma bucket_geometry:
  assumes "i < KMALLOC_BUCKET_COUNT"
  shows "cache_geometry (bucket_sizes ! i) 16 (Some kmalloc_policy) = (bucket_sizes ! i, bucket_sizes ! i, 16)"
    and "bucket_sizes ! i \<noteq> 0" and "bucket_sizes ! i + word_of_nat sizeof_slab > word_of_nat PAGE_SIZE \<longleftrightarrow> i = 8"
    and "i \<noteq> 8 \<Longrightarrow> 8 \<le> unat (bucket_sizes ! i) \<and> unat (bucket_sizes ! i) + sizeof_slab \<le> PAGE_SIZE"
proof -
  have i: "i \<in> {0, 1, 2, 3, 4, 5, 6, 7, 8}" using assms by (auto simp: KMALLOC_BUCKET_COUNT_def)
  have d: "\<forall>i\<in>{0, 1, 2, 3, 4, 5, 6, 7, 8}. cache_geometry (bucket_sizes ! i) 16 (Some kmalloc_policy) = (bucket_sizes ! i, bucket_sizes ! i, 16) \<and>
      bucket_sizes ! i \<noteq> 0 \<and> (bucket_sizes ! i + word_of_nat sizeof_slab > word_of_nat PAGE_SIZE \<longleftrightarrow> i = 8) \<and>
      (i \<noteq> 8 \<longrightarrow> 8 \<le> unat (bucket_sizes ! i) \<and> unat (bucket_sizes ! i) + sizeof_slab \<le> PAGE_SIZE)"
    by code_simp
  show "cache_geometry (bucket_sizes ! i) 16 (Some kmalloc_policy) = (bucket_sizes ! i, bucket_sizes ! i, 16)"
    and "bucket_sizes ! i \<noteq> 0" and "bucket_sizes ! i + word_of_nat sizeof_slab > word_of_nat PAGE_SIZE \<longleftrightarrow> i = 8"
    and "i \<noteq> 8 \<Longrightarrow> 8 \<le> unat (bucket_sizes ! i) \<and> unat (bucket_sizes ! i) + sizeof_slab \<le> PAGE_SIZE"
    using bspec[OF d i] by blast+
qed

text \<open>The cell of a new cache: an object of the heap, or else a page.\<close>

definition new_cell :: "slab_env \<Rightarrow> nat option \<Rightarrow> slab_st \<Rightarrow> nat option \<times> slab_st" where
  "new_cell env ptr st1 = (case ptr of
     Some a \<Rightarrow> (Some a, st1)
   | None \<Rightarrow> (case pmm_alloc (se_epoch env) COLOR_VOID 0 (ss_pmm st1) of (phys, pm) \<Rightarrow>
       (if phys = 0 then None else Some (unat phys), st1\<lparr>ss_pmm := pm\<rparr>)))"

lemma new_cell_ok:
  assumes H: "heap_ok C st" and km: "kmalloc_post C sz st (Ret ptr st1)" and nc: "new_cell env ptr st1 = (cell, st2)"
  shows "heap_ok C st2 \<and> ss_buckets st2 = ss_buckets st \<and>
    (case cell of None \<Rightarrow> True | Some c \<Rightarrow> c \<notin> C \<and> (if c mod PAGE_SIZE = 0 then frame_used st2 c \<and> \<not> is_slab st2 c else c \<in> live_objs st2))"
proof (cases ptr)
  case None
  obtain phys pm where run: "pmm_alloc (se_epoch env) COLOR_VOID 0 (ss_pmm st1) = (phys, pm)"
    by (cases "pmm_alloc (se_epoch env) COLOR_VOID 0 (ss_pmm st1)")
  have H1: "heap_ok C st1" and g: "same_geom st st1" using km None by (auto simp: same_live_def)
  have eq: "cell = (if phys = 0 then None else Some (unat phys))" "st2 = st1\<lparr>ss_pmm := pm\<rparr>"
    using nc by (auto simp: new_cell_def None run)
  note F = heap_ok_frame[OF H1 run]
  have "is_slab st2 = is_slab st1" by (simp add: eq is_slab_def fun_eq_iff)
  then show ?thesis using F g frame_aligned[of st2 "unat phys"] by (auto simp: eq same_geom_def)
next
  case (Some a)
  have eq: "cell = Some a" "st2 = st1" using nc by (auto simp: new_cell_def Some)
  have H1: "heap_ok C st1" and fr: "fresh_object st st1 sz a" using km Some by auto
  obtain s i where p: "adds_live st st1 (s, i)" "a = obj_addr st1 (s, i)" using fr by (auto simp: fresh_object_def)
  have inv: "slab_inv C st1" using H1 by (simp add: heap_ok_def)
  have lv: "(s, i) \<in> live_slots st1" using p(1) by (simp add: adds_live_def)
  note O = obj_unaligned[OF inv lv] and A = adds_live_objs[OF inv p(1)]
  have "a \<notin> C" using H O A(1) p(2) by (auto simp: heap_ok_def)
  then show ?thesis using H1 O A(2) p by (simp add: eq adds_live_def same_geom_def)
qed

definition bucket_cache :: "string \<Rightarrow> u64 \<Rightarrow> slab_st \<Rightarrow> slab_cache_t" where
  "bucket_cache nm sz st = \<lparr>sc_name = take (SLAB_NAME_MAX - 1) nm, sc_requested_size = sz, sc_object_size = sz,
     sc_alignment = 16, sc_free_slabs = (\<lambda>_. None), sc_partial_slabs = (\<lambda>_. None),
     sc_full_slabs = (\<lambda>_. None), sc_next = ss_global_cache_list st, sc_policy = kmalloc_policy,
     sc_metrics = zero_slab_metrics, sc_total_objects = 0, sc_total_pages = 0\<rparr>"

lemma kmalloc_mask: "sp_mode_mask kmalloc_policy \<noteq> 0"
  by code_simp

lemma get_head_empty:
  "sc_free_slabs k = (\<lambda>_. None) \<Longrightarrow> sc_partial_slabs k = (\<lambda>_. None) \<Longrightarrow> sc_full_slabs k = (\<lambda>_. None) \<Longrightarrow> get_head l k m = None"
  by (cases l) simp_all

lemma create_bucket:
  assumes H: "heap_ok C st" and i: "i < KMALLOC_BUCKET_COUNT"
  shows "\<exists>r st'. slab_create_cache_ex env (Some nm) (bucket_sizes ! i) 16 (Some kmalloc_policy) st = Ret r st' \<and>
    ss_buckets st' = ss_buckets st \<and> (i = 8 \<longrightarrow> r = None) \<and>
    (case r of None \<Rightarrow> heap_ok C st' | Some c \<Rightarrow> heap_ok (insert c C) st' \<and> bucket_ok (ss_cache st' c) (bucket_sizes ! i))"
proof -
  let ?sz = "bucket_sizes ! i" let ?pol = "kmalloc_policy"
  note G = bucket_geometry[OF i]
  have le: "(word_of_nat sizeof_slab_cache :: u64) \<le> 4032" by (simp add: sizeof_slab_cache_def)
  obtain ptr st1 where km: "kmalloc env (word_of_nat sizeof_slab_cache) st = Ret ptr st1"
      and kp: "kmalloc_post C (word_of_nat sizeof_slab_cache) st (Ret ptr st1)"
    using kmalloc_small[OF H le, of env] by (cases "kmalloc env (word_of_nat sizeof_slab_cache) st") auto
  obtain cell st2 where nc: "new_cell env ptr st1 = (cell, st2)" by (cases "new_cell env ptr st1")
  note N = new_cell_ok[OF H kp nc]
  have run: "slab_create_cache_ex env (Some nm) ?sz 16 (Some ?pol) st =
      (case cell of None \<Rightarrow> Ret None st2
       | Some c \<Rightarrow> let st3 = upd_mem (fast_zero c sizeof_slab_cache) st2 in
           if i = 8 then Ret None st3
           else Ret (Some c) (st3\<lparr>ss_cache := (ss_cache st3)(c := bucket_cache nm ?sz st3), ss_global_cache_list := Some c\<rparr>))"
    using G(1,2) nc unfolding slab_create_cache_ex_def km kbind.simps
    by (simp add: new_cell_def[symmetric] G(3) Let_def bucket_cache_def kmalloc_mask split: option.splits)
  show ?thesis
  proof (cases cell)
    case None
    then show ?thesis using N run by simp
  next
    case (Some c)
    let ?st3 = "upd_mem (fast_zero c sizeof_slab_cache) st2"
    have H3: "heap_ok C ?st3" using heap_ok_mem N by blast
    have c: "c \<notin> C" "if c mod PAGE_SIZE = 0 then frame_used ?st3 c \<and> \<not> is_slab ?st3 c else c \<in> live_objs ?st3"
      using N Some by (auto simp: frame_used_mem split: if_splits)
    show ?thesis
    proof (cases "i = 8")
      case True
      then show ?thesis using run Some H3 N by (simp add: Let_def)
    next
      case False
      let ?k = "bucket_cache nm ?sz ?st3"
      have k: "cache_ok ?k" "\<not> sp_enable_redzone (sc_policy ?k)" "\<And>l m. get_head l ?k m = None"
        using G(4)[OF False] by (auto simp: cache_ok_def bucket_cache_def kmalloc_policy_def slab_default_policy_def intro: get_head_empty)
      have "bucket_ok ?k ?sz" by (simp add: bucket_ok_def bucket_cache_def kmalloc_policy_def slab_default_policy_def)
      then show ?thesis using run Some False heap_ok_new_cache[OF H3 c(1) k c(2)] N by (simp add: Let_def)
    qed
  qed
qed

lemma heap_ok_bucket:
  assumes H: "heap_ok C st" and i: "i < KMALLOC_BUCKET_COUNT"
    and r: "\<And>c. r = Some c \<Longrightarrow> c \<in> C \<and> bucket_ok (ss_cache st c) (bucket_sizes ! i)"
  shows "heap_ok C (st\<lparr>ss_buckets := (ss_buckets st)[i := r]\<rparr>)" (is "heap_ok C ?st")
proof -
  obtain L where L: "base_inv C st L {}" using H by (auto simp: heap_ok_def slab_inv_def)
  have [simp]: "slab_at ?st = slab_at st" "is_slab ?st = is_slab st" "frame_used ?st = frame_used st" "obj_size ?st = obj_size st"
    "head_of l c m ?st = head_of l c m st" for l c m
    by (simp_all add: slab_at_def is_slab_def frame_used_def obj_size_def head_of_def fun_eq_iff)
  have "base_inv C ?st L {}"
  proof (rule base_invI)
    show "lists_ok C ?st L" by (rule lists_ok_cong[OF base_invD(4)[OF L]]) (use lists_okD(5)[OF base_invD(4)[OF L]] in auto)
    show "slab_ok ?st k (slab_at ?st s)" if "s \<in> set (L k)" "s \<notin> {}" for s k
      using base_invD(5)[OF L that] by (cases k) (simp add: header_ok_def)
    show "c \<in> C" if "Some c \<in> set (ss_buckets ?st)" for c
      using that set_update_subset_insert[of "ss_buckets st" i r] r base_invD(3)[OF L, of c] by auto
  qed (use base_invD[OF L] in auto)
  moreover have "live_objs ?st = live_objs st" by (simp add: live_objs_def live_slots_def slab_magic_def obj_addr_def image_def)
  ultimately show ?thesis using H i r by (auto simp: heap_ok_def slab_inv_def nth_list_update)
qed

lemma init_buckets_ok:
  assumes "heap_ok C st" and "set is \<subseteq> {0 ..< KMALLOC_BUCKET_COUNT}"
  shows "\<exists>C' st'. init_buckets env is st = Ret () st' \<and> C \<subseteq> C' \<and> heap_ok C' st' \<and>
    (8 \<in> set is \<or> ss_buckets st ! 8 = None \<longrightarrow> ss_buckets st' ! 8 = None)"
  using assms
proof (induction "is" arbitrary: C st)
  case Nil
  then show ?case by auto
next
  case (Cons i "is")
  have i: "i < KMALLOC_BUCKET_COUNT" using Cons.prems(2) by simp
  obtain r st1 where R: "slab_create_cache_ex env (Some ''kmalloc-bucket'') (bucket_sizes ! i) 16 (Some kmalloc_policy) st = Ret r st1"
      "ss_buckets st1 = ss_buckets st" "i = 8 \<longrightarrow> r = None"
      "case r of None \<Rightarrow> heap_ok C st1 | Some c \<Rightarrow> heap_ok (insert c C) st1 \<and> bucket_ok (ss_cache st1 c) (bucket_sizes ! i)"
    using create_bucket[OF Cons.prems(1) i] by blast
  define C1 where "C1 = (case r of None \<Rightarrow> C | Some c \<Rightarrow> insert c C)"
  let ?st2 = "st1\<lparr>ss_buckets := (ss_buckets st1)[i := r]\<rparr>"
  have "heap_ok C1 st1" using R(4) by (simp add: C1_def split: option.splits)
  then have H2: "heap_ok C1 ?st2" by (rule heap_ok_bucket[OF _ i]) (use R(4) in \<open>simp add: C1_def\<close>)
  obtain C' st' where F: "init_buckets env is ?st2 = Ret () st'" "C1 \<subseteq> C'" "heap_ok C' st'"
      "8 \<in> set is \<or> ss_buckets ?st2 ! 8 = None \<longrightarrow> ss_buckets st' ! 8 = None"
    using Cons.IH[OF H2] Cons.prems(2) by auto
  have "length (ss_buckets st) = 9" using Cons.prems(1) by (simp add: heap_ok_def KMALLOC_BUCKET_COUNT_def)
  then have "8 \<in> set (i # is) \<or> ss_buckets st ! 8 = None \<longrightarrow> ss_buckets st' ! 8 = None"
    using F(4) R(2,3) by (cases "i = 8") auto
  moreover have "C \<subseteq> C'" using F(2) by (auto simp: C1_def split: option.splits)
  ultimately show ?case using F R(1) by (auto simp del: length_list_update)
qed

lemma empty_heap_ok:
  assumes "pmm_inv (ss_pmm st)" and "\<And>s. \<not> is_slab st s" and "ss_buckets st = replicate KMALLOC_BUCKET_COUNT None"
  shows "heap_ok {} st"
proof -
  have "base_inv {} st (\<lambda>_. []) {}" by (rule base_invI) (use assms in \<open>auto simp: lists_ok_def\<close>)
  then show ?thesis using assms(3) by (auto simp: heap_ok_def slab_inv_def)
qed

lemma slab_init_ok:
  assumes "pmm_inv (ss_pmm st)" and "\<And>s. \<not> is_slab st s" and "ss_buckets st = replicate KMALLOC_BUCKET_COUNT None"
  shows "\<exists>C st'. slab_init env st = Ret () st' \<and> heap_ok C st' \<and> ss_buckets st' ! 8 = None"
proof -
  let ?st = "st\<lparr>ss_global_cache_list := None\<rparr>"
  have "heap_ok {} ?st" by (rule empty_heap_ok) (use assms in \<open>auto simp: is_slab_def\<close>)
  moreover have "8 \<in> set [0 ..< KMALLOC_BUCKET_COUNT]" by (simp add: KMALLOC_BUCKET_COUNT_def)
  ultimately show ?thesis
    using init_buckets_ok[of "{}" ?st "[0 ..< KMALLOC_BUCKET_COUNT]" env] by (auto simp: slab_init_def kmalloc_init_def)
qed

section \<open>Large allocations\<close>

lemma order_loop_spec:
  assumes "span = 2 ^ order" and "order + n = 31" and "order = 0 \<or> 2 ^ (order - 1) < pages"
  shows "(pages \<le> 2 ^ order_loop n span order pages \<or> order_loop n span order pages = 31) \<and>
    (order_loop n span order pages = 0 \<or> 2 ^ (order_loop n span order pages - 1) < pages)"
  using assms
proof (induction n arbitrary: span order)
  case 0
  then show ?case by simp
next
  case (Suc n)
  show ?case
  proof (cases "span < pages")
    case True
    then show ?thesis using Suc.IH[of "2 * span" "order + 1"] Suc.prems by simp
  next
    case False
    then show ?thesis using Suc.prems by simp
  qed
qed

text \<open>\<open>pages_to_order\<close> is the least sufficient order.\<close>

lemma pages_to_order_spec:
  shows "pages_to_order pages < 31 \<Longrightarrow> pages \<le> 2 ^ pages_to_order pages" and "pages \<le> 2 ^ k \<Longrightarrow> pages_to_order pages \<le> k"
proof -
  have S: "pages \<le> 2 ^ pages_to_order pages \<or> pages_to_order pages = 31"
      "pages_to_order pages = 0 \<or> 2 ^ (pages_to_order pages - 1) < pages"
    using order_loop_spec[of 1 0 31 pages] by (simp_all add: pages_to_order_def)
  show "pages_to_order pages < 31 \<Longrightarrow> pages \<le> 2 ^ pages_to_order pages" using S(1) by simp
  assume k: "pages \<le> 2 ^ k"
  show "pages_to_order pages \<le> k"
  proof (rule ccontr)
    assume "\<not> pages_to_order pages \<le> k"
    then have "(2 :: nat) ^ k \<le> 2 ^ (pages_to_order pages - 1)" by (intro power_increasing) auto
    moreover have "2 ^ (pages_to_order pages - 1) < pages" using S(2) \<open>\<not> pages_to_order pages \<le> k\<close> by linarith
    ultimately show False using k by linarith
  qed
qed

definition large_pages :: "u64 \<Rightarrow> nat" where
  "large_pages sz = unat ((word_of_nat sizeof_kmalloc_large_header + sz + word_of_nat PAGE_SIZE - 1) div word_of_nat PAGE_SIZE)"

lemma large_sum:
  "unat (word_of_nat sizeof_kmalloc_large_header + sz + word_of_nat PAGE_SIZE - 1 :: u64) =
    (unat sz + sizeof_kmalloc_large_header + PAGE_SIZE - 1) mod 2 ^ 64"
proof -
  have "word_of_nat sizeof_kmalloc_large_header + sz + word_of_nat PAGE_SIZE - 1 =
      (word_of_nat (unat sz + sizeof_kmalloc_large_header + PAGE_SIZE - 1) :: u64)"
    by (simp add: PAGE_SIZE_def sizeof_kmalloc_large_header_def)
  then show ?thesis unfolding unat_of_nat by (simp only: unat_of_nat) simp
qed

lemma large_pages_fit:
  assumes "unat sz + sizeof_kmalloc_large_header + PAGE_SIZE \<le> 2 ^ 64"
  shows "unat sz + sizeof_kmalloc_large_header \<le> large_pages sz * PAGE_SIZE"
    and "large_pages sz = (unat sz + sizeof_kmalloc_large_header + PAGE_SIZE - 1) div PAGE_SIZE"
proof -
  let ?w = "word_of_nat sizeof_kmalloc_large_header + sz + word_of_nat PAGE_SIZE - 1 :: u64"
  have w: "unat ?w = unat sz + sizeof_kmalloc_large_header + PAGE_SIZE - 1"
    unfolding large_sum using assms by (simp add: PAGE_SIZE_def sizeof_kmalloc_large_header_def)
  show e: "large_pages sz = (unat sz + sizeof_kmalloc_large_header + PAGE_SIZE - 1) div PAGE_SIZE"
    unfolding large_pages_def unat_div w by (simp add: PAGE_SIZE_def)
  show "unat sz + sizeof_kmalloc_large_header \<le> large_pages sz * PAGE_SIZE"
    unfolding e PAGE_SIZE_def by linarith
qed

lemma large_pages_wrap:
  assumes "unat sz + sizeof_kmalloc_large_header + PAGE_SIZE > 2 ^ 64"
  shows "large_pages sz \<le> 1"
proof -
  let ?w = "word_of_nat sizeof_kmalloc_large_header + sz + word_of_nat PAGE_SIZE - 1 :: u64"
  let ?n = "unat sz + sizeof_kmalloc_large_header + PAGE_SIZE - 1"
  have "unat ?w = ?n mod 2 ^ 64" by (rule large_sum)
  also have "\<dots> = ?n - 2 ^ 64"
    using assms unat_u64_bound[of sz] by (simp add: PAGE_SIZE_def sizeof_kmalloc_large_header_def mod_if)
  finally have "unat ?w < 2 * PAGE_SIZE"
    using unat_u64_bound[of sz] by (simp add: PAGE_SIZE_def sizeof_kmalloc_large_header_def)
  then show ?thesis unfolding large_pages_def unat_div by (simp add: PAGE_SIZE_def less_mult_imp_div_less)
qed

text \<open>
  A large block: its header page, the extent the client may use, and the frames it takes from the physical memory manager.
\<close>

definition large_policy :: "slab_env \<Rightarrow> nat \<Rightarrow> pmm_alloc_policy_t" where
  "large_policy env ord = \<lparr>pol_color = mode_to_color (se_mode env), pol_owner_token = 0,
     pol_preferred_zone = PMM_ZONE_ANY, pol_trust_level = PMM_TRUST_ANY, pol_order = ord\<rparr>"

lemma kmalloc_beyond_buckets:
  assumes sz: "4032 < sz" and ord: "ord = pages_to_order (large_pages sz)"
    and al: "pmm_alloc_ex (se_epoch env) (Some (large_policy env ord)) (ss_pmm st) = (phys, pm)"
  shows "kmalloc env sz st = (if phys = 0 then Ret None (st\<lparr>ss_pmm := pm\<rparr>)
      else let st2 = upd_mem (fast_zero (unat phys) (PAGE_SIZE * 2 ^ ord)) (st\<lparr>ss_pmm := pm\<rparr>)
        in Ret (Some (unat phys + sizeof_kmalloc_large_header)) (st2\<lparr>ss_page := (ss_page st2)(unat phys := LargePage ord (ucast sz))\<rparr>))"
proof -
  have "b \<le> 4032" if "b \<in> set bucket_sizes" for b using that by (auto simp: bucket_sizes_def)
  then have "bucket_sizes ! i \<le> 4032" if "i < KMALLOC_BUCKET_COUNT" for i
    using that nth_mem[of i bucket_sizes] by (simp add: KMALLOC_BUCKET_COUNT_def bucket_sizes_len)
  then have "\<not> sz \<le> bucket_sizes ! i" if "i < KMALLOC_BUCKET_COUNT" for i using that sz by (meson not_le order_trans)
  then have "List.find (\<lambda>i. sz \<le> bucket_sizes ! i) [0 ..< KMALLOC_BUCKET_COUNT] = None" by (auto simp: find_None_iff)
  moreover have "sz \<noteq> 0" using sz by auto
  ultimately have "kmalloc env sz st = kmalloc_large env sz st" by (simp add: kmalloc_def)
  then show ?thesis
    unfolding kmalloc_large_def Let_def using al by (simp add: ord large_pages_def large_policy_def)
qed

lemma kmalloc_large_block:
  assumes inv: "pmm_inv (ss_pmm st)" and sz: "4032 < sz" and run: "kmalloc env sz st = Ret (Some a) st'"
  defines "h \<equiv> a - sizeof_kmalloc_large_header" and "ord \<equiv> pages_to_order (large_pages sz)"
  shows "sizeof_kmalloc_large_header \<le> a \<and> h mod PAGE_SIZE = 0 \<and> ord \<le> PMM_BUDDY_MAX_ORDER \<and>
    ss_page st' h = LargePage ord (ucast sz) \<and> pmm_inv (ss_pmm st') \<and>
    block_frames ord (h div PAGE_SIZE) \<subseteq> free_set (ss_pmm st) \<and>
    free_set (ss_pmm st') = free_set (ss_pmm st) - block_frames ord (h div PAGE_SIZE) \<and>
    (\<forall>x\<in>{h ..< h + 2 ^ ord * PAGE_SIZE}. pm_mem (ss_pmm st') x = 0)"
proof -
  let ?pol = "large_policy env ord"
  obtain phys pm where al: "pmm_alloc_ex (se_epoch env) (Some ?pol) (ss_pmm st) = (phys, pm)"
    by (cases "pmm_alloc_ex (se_epoch env) (Some ?pol) (ss_pmm st)")
  note run' = kmalloc_beyond_buckets[OF sz ord_def[THEN meta_eq_to_obj_eq] al]
  have nz: "phys \<noteq> 0" using run run' by (auto split: if_splits)
  have ha: "a = unat phys + sizeof_kmalloc_large_header" "h = unat phys"
    using run run' nz by (auto simp: h_def Let_def)
  note A = alloc_ex_inv[OF inv al]
  have ac: "policy_accepted ?pol" "allocated (se_epoch env) ?pol (ss_pmm st) phys pm" "pmm_inv pm" using A nz by auto
  have st': "st' = (upd_mem (fast_zero h (PAGE_SIZE * 2 ^ ord)) (st\<lparr>ss_pmm := pm\<rparr>))\<lparr>ss_page := (ss_page st)(h := LargePage ord (ucast sz))\<rparr>"
    using run run' nz ha(2) by (simp add: Let_def)
  have m: "pm_mem pm x = 0" if "x \<in> {h ..< h + 2 ^ ord * PAGE_SIZE}" for x
    using ac(2) that by (simp add: allocated_def block_written_def Let_def large_policy_def ha(2))
  have sel: "ss_pmm st' = pm\<lparr>pm_mem := fast_zero h (PAGE_SIZE * 2 ^ ord) (pm_mem pm)\<rparr>" by (simp add: st' upd_mem_def)
  have fs: "free_set (ss_pmm st') = free_set pm" by (simp add: sel free_set_def)
  have al': "unat phys = unat phys div PAGE_SIZE * PAGE_SIZE" using ac(2) unfolding allocated_def Let_def by blast
  then have "h mod PAGE_SIZE = 0" unfolding ha(2) by (metis mod_mult_self2_is_0)
  moreover have "\<forall>x\<in>{h ..< h + 2 ^ ord * PAGE_SIZE}. pm_mem (ss_pmm st') x = 0" using m by (simp add: sel fast_zero_def)
  moreover have "pmm_inv (ss_pmm st')" using ac(3) by (simp add: sel)
  moreover have "ss_page st' h = LargePage ord (ucast sz)" by (simp add: st')
  moreover have "ord \<le> PMM_BUDDY_MAX_ORDER" using ac(1) by (simp add: policy_accepted_def large_policy_def)
  moreover have "block_frames ord (h div PAGE_SIZE) \<subseteq> free_set (ss_pmm st)"
      "free_set pm = free_set (ss_pmm st) - block_frames ord (h div PAGE_SIZE)"
    using ac(2) by (simp_all add: allocated_def Let_def large_policy_def ha(2))
  moreover have "sizeof_kmalloc_large_header \<le> a" by (simp add: ha(1))
  ultimately show ?thesis unfolding fs by blast
qed

lemma find_last_bucket:
  assumes "2048 < sz" and "sz \<le> 4032"
  shows "List.find (\<lambda>i. sz \<le> bucket_sizes ! i) [0 ..< KMALLOC_BUCKET_COUNT] = Some 8"
proof -
  have "\<not> sz \<le> bucket_sizes ! i" if "i < 8" for i
  proof -
    have "\<forall>b\<in>set (take 8 bucket_sizes). b \<le> 2048" by (simp add: bucket_sizes_def)
    moreover have "bucket_sizes ! i \<in> set (take 8 bucket_sizes)"
      using that nth_mem[of i "take 8 bucket_sizes"] by (simp add: bucket_sizes_len)
    ultimately show ?thesis using assms(1) by (meson not_le order_trans)
  qed
  moreover have "sz \<le> bucket_sizes ! 8" using assms(2) by (simp add: bucket_sizes_def)
  ultimately show ?thesis unfolding find_Some_iff by (intro exI[of _ 8]) (simp add: KMALLOC_BUCKET_COUNT_def nth_append)
qed

section \<open>Sample states\<close>

definition sample_boot :: slab_st where
  "sample_boot = \<lparr>ss_pmm = sample_pmm, ss_page = (\<lambda>_. RawPage), ss_cache = (\<lambda>_. sample_cache),
     ss_global_cache_list = None, ss_buckets = replicate KMALLOC_BUCKET_COUNT None\<rparr>"

text \<open>One bucket, for 1024 bytes, whose cache lives in frame 0.\<close>

definition sample_heap :: slab_st where
  "sample_heap = sample_boot\<lparr>ss_buckets := (replicate KMALLOC_BUCKET_COUNT None)[6 := Some 0]\<rparr>"

lemma sample_boot_ok: "pmm_inv (ss_pmm sample_boot)" "\<not> is_slab sample_boot s"
    "ss_buckets sample_boot = replicate KMALLOC_BUCKET_COUNT None"
  by (simp_all add: sample_boot_def sample_pmm_inv is_slab_def)

lemma sample_frame_used: "frame_used sample_boot 0"
  by (simp add: frame_used_def used_frames_def sample_boot_def sample_pmm_free sample_pmm_total)

lemma sample_heap_ok: "heap_ok {0} sample_heap"
proof -
  have c: "cache_ok (ss_cache sample_boot 0)" "\<not> sp_enable_redzone (sc_policy (ss_cache sample_boot 0))"
    "bucket_ok (ss_cache sample_boot 0) (bucket_sizes ! 6)" "get_head l (ss_cache sample_boot 0) m = None" for l m
    by (simp_all add: sample_boot_def sample_cache_def cache_ok_def kmalloc_policy_def slab_default_policy_def PAGE_SIZE_def
        sizeof_slab_def bucket_ok_def bucket_sizes_def get_head_empty)
  have "heap_ok {} sample_boot" using empty_heap_ok[OF sample_boot_ok] .
  from heap_ok_new_cache[OF this _ c(1,2,4), of 0 "ss_global_cache_list sample_boot"]
  have "heap_ok {0} sample_boot" using sample_frame_used sample_boot_ok(2) by simp
  from heap_ok_bucket[OF this, of 6 "Some 0"] c(3) show ?thesis
    by (simp add: sample_heap_def KMALLOC_BUCKET_COUNT_def sample_boot_ok(3))
qed

section \<open>Properties\<close>

text \<open>
  C8: the kernel heap hands out every object to one client.  From a state in which the physical memory manager is
  consistent and no slab exists, \<open>slab_init\<close> returns; and whatever sequence of \<open>kmalloc\<close> calls up to the largest
  bucket and \<open>kfree\<close> calls on held objects follows, the held addresses are distinct, each is the address of an
  object in use, and no two objects in use overlap.
\<close>

theorem heap_run_exclusive:
  assumes "pmm_inv (ss_pmm st)" and "\<forall>s. \<not> is_slab st s" and "ss_buckets st = replicate KMALLOC_BUCKET_COUNT None"
  shows "\<exists>st1. slab_init env st = Ret () st1 \<and>
    (\<forall>ops st2 held. pool_run heap_acquire heap_release ops st1 = (st2, held) \<longrightarrow>
       distinct held \<and> set held \<subseteq> live_objs st2 \<and>
       (\<forall>p\<in>live_slots st2. \<forall>q\<in>live_slots st2. p \<noteq> q \<longrightarrow> extent st2 p \<inter> extent st2 q = {}))"
proof -
  obtain C st1 where I: "slab_init env st = Ret () st1" "heap_ok C st1" using slab_init_ok[of st env] assms by blast
  have "distinct held \<and> set held \<subseteq> live_objs st2 \<and> (\<forall>p\<in>live_slots st2. \<forall>q\<in>live_slots st2. p \<noteq> q \<longrightarrow> extent st2 p \<inter> extent st2 q = {})"
    if "pool_run heap_acquire heap_release ops st1 = (st2, held)" for ops st2 held
    using heap_pool.run_exclusive[OF I(2) that] obj_disjoint[of C st2] by (auto simp: heap_ok_def)
  then show ?thesis using I(1) by blast
qed

theorem heap_run_exclusive_witness:
  "\<exists>st1. slab_init sample_env sample_boot = Ret () st1 \<and>
    (\<forall>st2 held. pool_run heap_acquire heap_release [Acquire (sample_env, 40), Acquire (sample_env, 700)] st1 = (st2, held) \<longrightarrow>
       distinct held \<and> set held \<subseteq> live_objs st2)"
  using heap_run_exclusive[of sample_boot sample_env] sample_boot_ok by blast

text \<open>
  C9: \<open>kmalloc\<close> up to the largest bucket.  It neither panics nor hangs.  When it returns an address, the object
  there was not in use, is at least as large as asked for, is entirely zero and now in use; when it returns NULL the
  objects in use are as before.  Either way every object that was in use keeps its place and its bytes.
\<close>

theorem kmalloc_fresh_zeroed:
  assumes "heap_ok C st" and "sz \<le> 4032"
  shows "kmalloc_post C sz st (kmalloc env sz st)"
  by (rule kmalloc_small[OF assms])

theorem kmalloc_fresh_zeroed_witness:
  "kmalloc_post {0} 50 sample_heap (kmalloc sample_env 50 sample_heap)"
  using kmalloc_fresh_zeroed[OF sample_heap_ok, of 50 sample_env] by simp

text \<open>
  C36: the largest bucket never exists.  The bucket for 4032 bytes does not fit a page behind the slab header, so
  \<open>slab_init\<close> leaves it NULL; afterwards every request for 2049 up to 4032 bytes returns NULL and changes nothing,
  however much memory is free.
\<close>

theorem kmalloc_gap_after_init:
  assumes "pmm_inv (ss_pmm st)" and "\<forall>s. \<not> is_slab st s" and "ss_buckets st = replicate KMALLOC_BUCKET_COUNT None"
  shows "\<exists>st1. slab_init env st = Ret () st1 \<and>
    (\<forall>st2 env' sz. ss_buckets st2 = ss_buckets st1 \<longrightarrow> 2048 < sz \<longrightarrow> sz \<le> 4032 \<longrightarrow> kmalloc env' sz st2 = Ret None st2)"
proof -
  obtain C st1 where I: "slab_init env st = Ret () st1" "ss_buckets st1 ! 8 = None" using slab_init_ok[of st env] assms by blast
  have "kmalloc env' sz st2 = Ret None st2" if "ss_buckets st2 = ss_buckets st1" "2048 < sz" "sz \<le> 4032" for st2 env' sz
    using that I(2) find_last_bucket[OF that(2,3)] by (auto simp: kmalloc_def slab_alloc_def)
  then show ?thesis using I(1) by blast
qed

theorem kmalloc_gap_after_init_witness:
  "\<exists>st1. slab_init sample_env sample_boot = Ret () st1 \<and> kmalloc sample_env 3000 st1 = Ret None st1"
  using kmalloc_gap_after_init[of sample_boot sample_env] sample_boot_ok by fastforce

text \<open>
  C12: large allocations.  A request beyond the buckets that succeeds gets a page-aligned block of frames that were all
  free and are now all used, entirely zero, with the order and size recorded in its header.  The order is the least sufficient one, and
  the bytes asked for lie inside the block, unless the size is within a page and a header of \<open>2^64\<close>: then the sum wraps around and the
  block is a single page.
\<close>

theorem kmalloc_large_extent:
  assumes "pmm_inv (ss_pmm st)" and "4032 < sz" and "kmalloc env sz st = Ret (Some a) st'"
  shows "\<exists>h ord. a = h + sizeof_kmalloc_large_header \<and> h mod PAGE_SIZE = 0 \<and> ss_page st' h = LargePage ord (ucast sz) \<and>
    pmm_inv (ss_pmm st') \<and> block_frames ord (h div PAGE_SIZE) \<subseteq> free_set (ss_pmm st) \<and>
    free_set (ss_pmm st') = free_set (ss_pmm st) - block_frames ord (h div PAGE_SIZE) \<and>
    (\<forall>x\<in>{h ..< h + 2 ^ ord * PAGE_SIZE}. pm_mem (ss_pmm st') x = 0) \<and>
    (if unat sz + sizeof_kmalloc_large_header + PAGE_SIZE \<le> 2 ^ 64
     then {a ..< a + unat sz} \<subseteq> {h ..< h + 2 ^ ord * PAGE_SIZE} \<and>
       (\<forall>k. unat sz + sizeof_kmalloc_large_header \<le> 2 ^ k * PAGE_SIZE \<longrightarrow> ord \<le> k)
     else ord = 0)"
proof -
  let ?h = "a - sizeof_kmalloc_large_header" and ?ord = "pages_to_order (large_pages sz)"
  have B: "sizeof_kmalloc_large_header \<le> a" "?h mod PAGE_SIZE = 0" "?ord \<le> PMM_BUDDY_MAX_ORDER" "ss_page st' ?h = LargePage ?ord (ucast sz)"
      "pmm_inv (ss_pmm st')" "block_frames ?ord (?h div PAGE_SIZE) \<subseteq> free_set (ss_pmm st)"
      "free_set (ss_pmm st') = free_set (ss_pmm st) - block_frames ?ord (?h div PAGE_SIZE)"
      "\<forall>x\<in>{?h ..< ?h + 2 ^ ?ord * PAGE_SIZE}. pm_mem (ss_pmm st') x = 0"
    using kmalloc_large_block[OF assms] by auto
  have "?ord < 31" using B(3) by (simp add: PMM_BUDDY_MAX_ORDER_def)
  note O = pages_to_order_spec(1)[OF this] and P = pages_to_order_spec(2)
  have ext: "if unat sz + sizeof_kmalloc_large_header + PAGE_SIZE \<le> 2 ^ 64
     then {a ..< a + unat sz} \<subseteq> {?h ..< ?h + 2 ^ ?ord * PAGE_SIZE} \<and>
       (\<forall>k. unat sz + sizeof_kmalloc_large_header \<le> 2 ^ k * PAGE_SIZE \<longrightarrow> ?ord \<le> k)
     else ?ord = 0"
  proof (cases "unat sz + sizeof_kmalloc_large_header + PAGE_SIZE \<le> 2 ^ 64")
    case True
    note F = large_pages_fit[OF True]
    have "unat sz + sizeof_kmalloc_large_header \<le> 2 ^ ?ord * PAGE_SIZE" using F(1) mult_le_mono1[OF O, of PAGE_SIZE] by linarith
    then have "{a ..< a + unat sz} \<subseteq> {?h ..< ?h + 2 ^ ?ord * PAGE_SIZE}" using B(1) by auto
    moreover have "?ord \<le> k" if "unat sz + sizeof_kmalloc_large_header \<le> 2 ^ k * PAGE_SIZE" for k
    proof (rule P)
      have "(unat sz + sizeof_kmalloc_large_header + PAGE_SIZE - 1) div PAGE_SIZE \<le> (2 ^ k * PAGE_SIZE + PAGE_SIZE - 1) div PAGE_SIZE"
        using that by (intro div_le_mono) simp
      also have "\<dots> = 2 ^ k" by (simp add: PAGE_SIZE_def)
      finally show "large_pages sz \<le> 2 ^ k" by (simp add: F(2))
    qed
    ultimately show ?thesis using True by simp
  next
    case False
    then show ?thesis using large_pages_wrap[of sz] P[of "large_pages sz" 0] by simp
  qed
  have "a = ?h + sizeof_kmalloc_large_header" using B(1) by simp
  with B ext show ?thesis by (intro exI[of _ ?h] exI[of _ ?ord] conjI)
qed

theorem kmalloc_large_extent_witness:
  "\<exists>a st' h ord. kmalloc sample_env 0xFFFFFFFFFFFFFFFF sample_boot = Ret (Some a) st' \<and>
    a = h + sizeof_kmalloc_large_header \<and> ss_page st' h = LargePage ord 0xFFFFFFFF \<and> ord = 0"
proof -
  let ?pol = "large_policy sample_env 0"
  obtain phys pm where al: "pmm_alloc_ex (se_epoch sample_env) (Some ?pol) (ss_pmm sample_boot) = (phys, pm)" by fastforce
  have "fst (pmm_alloc_ex (se_epoch sample_env) (Some ?pol) sample_pmm) \<noteq> 0"
    by (rule alloc_ex_complete[OF sample_pmm_inv, where z = PMM_ZONE_DMA and i = 4])
      (auto simp: sample_pmm_free sample_pmm_total policy_accepted_def policy_zones_def block_ok_def block_frames_def pmm_consts
        large_policy_def frame_zone_cases)
  then have nz: "phys \<noteq> 0" using al by (simp add: sample_boot_def)
  have o: "0 = pages_to_order (large_pages 0xFFFFFFFFFFFFFFFF)"
    using large_pages_wrap[of "0xFFFFFFFFFFFFFFFF"] pages_to_order_spec(2)[of "large_pages 0xFFFFFFFFFFFFFFFF" 0]
    by (simp add: sizeof_kmalloc_large_header_def PAGE_SIZE_def)
  obtain a st' where run: "kmalloc sample_env 0xFFFFFFFFFFFFFFFF sample_boot = Ret (Some a) st'"
    using kmalloc_beyond_buckets[OF _ o al] nz by (simp add: Let_def)
  show ?thesis using kmalloc_large_extent[OF sample_boot_ok(1) _ run] run
    by (auto simp: sizeof_kmalloc_large_header_def PAGE_SIZE_def)
qed

end
