(* ===== verification/Slab_Annihilate.thy ===== *)
theory Slab_Annihilate
  imports Slab_Heap
begin

text \<open>
  The annihilation of the slabs of one mode: the walk through the three lists ends, every page goes back to the
  physical memory manager zeroed, exactly the objects of that cache and mode disappear, and the invariant holds again.
\<close>

section \<open>Singly linked walks\<close>

fun chain :: "('a \<Rightarrow> 'a option) \<Rightarrow> 'a option \<Rightarrow> 'a list \<Rightarrow> bool" where
  "chain nxt cur [] \<longleftrightarrow> cur = None"
| "chain nxt cur (x # xs) \<longleftrightarrow> cur = Some x \<and> chain nxt (nxt x) xs"

lemma chain_links: "links f g prev start xs None \<Longrightarrow> chain f start xs"
  by (induction xs arbitrary: prev start) auto

lemma chain_cong: "(\<And>x. x \<in> set xs \<Longrightarrow> f x = g x) \<Longrightarrow> chain f cur xs = chain g cur xs"
  by (induction xs arbitrary: cur) auto

section \<open>Purging pages\<close>

text \<open>The pages \<open>X\<close> have gone back to the physical memory manager; only counters have changed otherwise.\<close>

definition purged :: "slab_st \<Rightarrow> slab_st \<Rightarrow> nat set \<Rightarrow> bool" where
  "purged st st' X \<longleftrightarrow> (\<forall>x. ss_page st' x = (if x \<in> X then RawPage else ss_page st x)) \<and> pmm_inv (ss_pmm st') \<and>
     (\<forall>x. frame_used st' x \<longleftrightarrow> frame_used st x \<and> x \<notin> X) \<and>
     (\<forall>a. pm_mem (ss_pmm st') a = (if a \<in> \<Union> (page ` X) then 0 else pm_mem (ss_pmm st) a)) \<and>
     same_geom st st' \<and> ss_global_cache_list st' = ss_global_cache_list st \<and>
     (\<forall>l c m. head_of l c m st' = head_of l c m st)"

lemma purged_refl: "pmm_inv (ss_pmm st) \<Longrightarrow> purged st st {}"
  by (simp add: purged_def)

lemma purged_trans: "purged st st1 X \<Longrightarrow> purged st1 st2 Y \<Longrightarrow> purged st st2 (X \<union> Y)"
  unfolding purged_def using same_geom_trans[of st st1 st2] by auto

lemma purged_counts:
  assumes f: "counts_only f" "\<And>k. sc_next (f k) = sc_next k" and p: "purged (upd_cache c f st) st' X"
  shows "purged st st' X"
proof -
  have h: "head_of l d m (upd_cache c f st) = head_of l d m st" for l d m using counters_frame(7)[OF f(1)] .
  have g: "same_geom st (upd_cache c f st)" using counters_frame(2)[OF f(1)] by (simp add: same_live_def)
  have "ss_global_cache_list (upd_cache c f st) = ss_global_cache_list st" "frame_used (upd_cache c f st) = frame_used st"
    by (simp_all add: upd_cache_def frame_used_def fun_eq_iff)
  then show ?thesis using p h same_geom_trans[OF g] by (auto simp: purged_def)
qed

text \<open>One step of the walk.\<close>

definition purge_step :: "slab_env \<Rightarrow> nat \<Rightarrow> nat \<Rightarrow> slab_st \<Rightarrow> unit kout" where
  "purge_step env c s st =
     (let st1 = (if sp_scrub_on_annihilate (sc_policy (ss_cache st c)) then zero_page s st else st);
          used = ucast (sl_in_use_count (slab_at st1 s));
          st2 = upd_cache c (\<lambda>k. k\<lparr>sc_total_objects := (if sc_total_objects k \<ge> used then sc_total_objects k - used else 0)\<rparr>) st1;
          st3 = upd_cache c (\<lambda>k. k\<lparr>sc_total_pages := (if sc_total_pages k > 0 then sc_total_pages k - 1 else sc_total_pages k)\<rparr>) st2
      in return_page env s (upd_metrics c (\<lambda>m. m\<lparr>sm_slabs_annihilated := sm_slabs_annihilated m + 1\<rparr>) st3))"

lemma annihilate_list_Suc:
  "slab_annihilate_list (Suc n) env c (Some s) st =
     kbind (purge_step env c s st) (\<lambda>_ st1. slab_annihilate_list n env c (sl_next (slab_at st s)) st1)"
  by (simp add: purge_step_def Let_def)

lemma return_page_purged:
  assumes inv: "pmm_inv (ss_pmm st)" and fu: "frame_used st s"
  shows "\<exists>st'. return_page env s st = Ret () st' \<and> purged st st' {s} \<and> ss_cache st' = ss_cache st"
proof -
  have w: "unat (word_of_nat s :: u64) = s" using fu by (simp add: frame_used_def unat_of_nat)
  obtain pm where pm: "pmm_free (se_epoch env) (word_of_nat s) (ss_pmm st) = Some pm" "pmm_inv pm"
      "used_frames pm = used_frames (ss_pmm st) - {word_of_nat s}" "\<And>x. pm_mem pm x = (if x \<in> page s then 0 else pm_mem (ss_pmm st) x)"
    using frame_free_ok[OF inv, of "word_of_nat s" "se_epoch env"] fu w by (auto simp: frame_used_def)
  let ?st = "st\<lparr>ss_pmm := pm, ss_page := (ss_page st)(s := RawPage)\<rparr>"
  have eq: "word_of_nat x = (word_of_nat s :: u64) \<longleftrightarrow> x = s" if "x < 2 ^ 64" for x
  proof -
    have "unat (word_of_nat x :: u64) = x" using that by (simp add: unat_of_nat)
    then show ?thesis using w by metis
  qed
  have "frame_used ?st x \<longleftrightarrow> frame_used st x \<and> x \<noteq> s" for x using pm(3) eq[of x] by (auto simp: frame_used_def)
  moreover have "head_of l c m ?st = head_of l c m st" for l c m by (simp add: head_of_def)
  ultimately have "purged st ?st {s}" using pm(2,4) by (auto simp: purged_def same_geom_def)
  then show ?thesis by (simp add: return_page_def pm(1))
qed

lemma purged_zero:
  assumes p: "purged (zero_page s st) st' {s}"
  shows "purged st st' {s}"
proof -
  have m: "pm_mem (ss_pmm (zero_page s st)) a = pm_mem (ss_pmm st) a" if "a \<notin> page s" for a
    using that by (auto simp: zero_page_def upd_mem_def fast_zero_def page_def PAGE_SIZE_def)
  have "ss_page (zero_page s st) x = ss_page st x" if "x \<noteq> s" for x
    using that by (simp add: zero_page_def upd_slab_def)
  moreover have "frame_used (zero_page s st) = frame_used st" "same_geom st (zero_page s st)"
    "ss_global_cache_list (zero_page s st) = ss_global_cache_list st" "head_of l c n (zero_page s st) = head_of l c n st" for l c n
    by (simp_all add: zero_page_def frame_used_def fun_eq_iff same_geom_def upd_mem_def)
      (simp_all add: upd_slab_def head_of_def)
  ultimately show ?thesis using p m same_geom_trans[of st "zero_page s st" st'] unfolding purged_def by auto
qed

lemma purge_step_ok:
  assumes inv: "pmm_inv (ss_pmm st)" and fu: "frame_used st s"
  shows "\<exists>st'. purge_step env c s st = Ret () st' \<and> purged st st' {s} \<and>
    (sp_scrub_on_annihilate (sc_policy (ss_cache st c)) \<longrightarrow> sc_total_objects (ss_cache st' c) = sc_total_objects (ss_cache st c))"
proof -
  define st1 where "st1 = (if sp_scrub_on_annihilate (sc_policy (ss_cache st c)) then zero_page s st else st)"
  let ?used = "ucast (sl_in_use_count (slab_at st1 s)) :: u64"
  define st2 where "st2 = upd_cache c (\<lambda>k. k\<lparr>sc_total_objects := (if sc_total_objects k \<ge> ?used then sc_total_objects k - ?used else 0)\<rparr>) st1"
  define st3 where "st3 = upd_cache c (\<lambda>k. k\<lparr>sc_total_pages := (if sc_total_pages k > 0 then sc_total_pages k - 1 else sc_total_pages k)\<rparr>) st2"
  define st4 where "st4 = upd_metrics c (\<lambda>m. m\<lparr>sm_slabs_annihilated := sm_slabs_annihilated m + 1\<rparr>) st3"
  have "pmm_inv (ss_pmm st1)" "frame_used st1 s"
    using inv fu by (simp_all add: st1_def zero_page_def upd_mem_def frame_used_def)
  then have "pmm_inv (ss_pmm st4)" "frame_used st4 s" by (simp_all add: st4_def st3_def st2_def upd_metrics_def frame_used_def)
  then obtain st' where R: "return_page env s st4 = Ret () st'" "purged st4 st' {s}" "ss_cache st' = ss_cache st4"
    using return_page_purged by blast
  have "purged st3 st' {s}" using purged_counts[OF counts_onlyI(1) _ R(2)[unfolded st4_def upd_metrics_def]] by simp
  then have "purged st2 st' {s}" unfolding st3_def by (rule purged_counts[rotated 2]) simp_all
  then have "purged st1 st' {s}" unfolding st2_def by (rule purged_counts[rotated 2]) simp_all
  then have "purged st st' {s}" using purged_zero by (simp add: st1_def split: if_splits)
  moreover have "purge_step env c s st = Ret () st'"
    using R(1) by (simp add: purge_step_def st1_def[symmetric] st2_def[symmetric] st3_def[symmetric] st4_def[symmetric] Let_def)
  moreover have "sc_total_objects (ss_cache st' c) = sc_total_objects (ss_cache st c)" if "sp_scrub_on_annihilate (sc_policy (ss_cache st c))"
  proof -
    have "?used = 0" "ss_cache st1 = ss_cache st" using that by (simp_all add: st1_def zero_page_def zero_slab_def)
    then show ?thesis by (simp add: R(3) st4_def st3_def st2_def upd_metrics_def)
  qed
  ultimately show ?thesis by blast
qed

lemma purged_slab_at: "purged st st' X \<Longrightarrow> x \<notin> X \<Longrightarrow> slab_at st' x = slab_at st x"
  by (simp add: purged_def slab_at_def)

lemma annihilate_list_ok:
  assumes "pmm_inv (ss_pmm st)" and "chain (nx st) cur xs" and "distinct xs" and "\<And>s. s \<in> set xs \<Longrightarrow> frame_used st s" and "length xs \<le> n"
  shows "\<exists>st'. slab_annihilate_list n env c cur st = Ret () st' \<and> purged st st' (set xs) \<and>
    (sp_scrub_on_annihilate (sc_policy (ss_cache st c)) \<longrightarrow> sc_total_objects (ss_cache st' c) = sc_total_objects (ss_cache st c))"
  using assms
proof (induction xs arbitrary: n cur st)
  case Nil
  then show ?case by (cases n) (auto simp: purged_refl)
next
  case (Cons s xs)
  obtain n' where n: "n = Suc n'" using Cons.prems(5) by (cases n) auto
  obtain st1 where S: "purge_step env c s st = Ret () st1" "purged st st1 {s}"
      "sp_scrub_on_annihilate (sc_policy (ss_cache st c)) \<longrightarrow> sc_total_objects (ss_cache st1 c) = sc_total_objects (ss_cache st c)"
    using purge_step_ok[OF Cons.prems(1), of s env c] Cons.prems(4) by auto
  have nxt: "nx st1 x = nx st x" if "x \<in> set xs" for x
    using purged_slab_at[OF S(2), of x] that Cons.prems(3) by (cases "x = s") auto
  have "chain (nx st) (nx st s) xs" using Cons.prems(2) by simp
  then have ch: "chain (nx st1) (nx st s) xs" using chain_cong[of xs "nx st1" "nx st"] nxt by simp
  have fu: "frame_used st1 x" if "x \<in> set xs" for x using S(2) that Cons.prems(3,4) by (auto simp: purged_def)
  have "pmm_inv (ss_pmm st1)" and pol: "sc_policy (ss_cache st1 c) = sc_policy (ss_cache st c)"
    using S(2) by (auto simp: purged_def same_geom_def)
  then obtain st' where R: "slab_annihilate_list n' env c (nx st s) st1 = Ret () st'" "purged st1 st' (set xs)"
      "sp_scrub_on_annihilate (sc_policy (ss_cache st1 c)) \<longrightarrow> sc_total_objects (ss_cache st' c) = sc_total_objects (ss_cache st1 c)"
    using Cons.IH[of st1 "nx st s" n'] ch fu Cons.prems(3,5) n by auto
  have "slab_annihilate_list n env c cur st = Ret () st'"
    using Cons.prems(2) R(1) S(1) unfolding n by (simp only: chain.simps annihilate_list_Suc kbind.simps)
  moreover have "purged st st' (set (s # xs))" using purged_trans[OF S(2) R(2)] by simp
  ultimately show ?case using S(3) R(3) pol by auto
qed

section \<open>One mode of a cache\<close>

definition mode_slabs :: "slab_lists \<Rightarrow> nat \<Rightarrow> nat \<Rightarrow> nat set" where
  "mode_slabs L c m = set (L (FreeList, c, m)) \<union> set (L (PartialList, c, m)) \<union> set (L (FullList, c, m))"

definition purge_lists :: "slab_lists \<Rightarrow> nat \<Rightarrow> nat \<Rightarrow> slab_lists" where
  "purge_lists L c m = (\<lambda>(l, d, n). if d = c \<and> n = m then [] else L (l, d, n))"

lemma mode_slabs_key: "s \<in> mode_slabs L c m \<longleftrightarrow> (\<exists>l. s \<in> set (L (l, c, m)))"
  unfolding mode_slabs_def by (auto, metis slab_list.exhaust)

lemma purged_base:
  assumes inv: "base_inv C st L {}" and pg: "purged st st1 (mode_slabs L c m)"
    and st': "st' = set_head_of FullList c m None (set_head_of PartialList c m None (set_head_of FreeList c m None st1))"
  shows "base_inv C st' (purge_lists L c m) {}"
proof -
  let ?X = "mode_slabs L c m" and ?L = "purge_lists L c m"
  have eq: "slab_at st' = slab_at st1" "is_slab st' = is_slab st1" "ss_pmm st' = ss_pmm st1" "ss_buckets st' = ss_buckets st1"
    by (simp_all add: st')
  have hd: "head_of l d n st' = (if d = c \<and> n = m then None else head_of l d n st)" for l d n
    using pg by (cases l) (simp_all add: st' purged_def)
  have geom: "same_geom st1 st'"
  proof -
    have "sc_object_size (set_list_head l n v k) = sc_object_size k" "sc_requested_size (set_list_head l n v k) = sc_requested_size k"
      "sc_policy (set_list_head l n v k) = sc_policy k" for l n v k by (cases l; simp)+
    then show ?thesis by (simp add: st' same_geom_def set_head_of_def)
  qed
  have g: "same_geom st st'" using pg geom same_geom_trans by (auto simp: purged_def)
  have at: "slab_at st' x = slab_at st x" "is_slab st' x = is_slab st x" if "x \<notin> ?X" for x
    using pg that by (simp_all add: eq purged_def slab_at_def is_slab_def)
  have gone: "\<not> is_slab st' x" if "x \<in> ?X" for x using pg that by (simp add: eq purged_def is_slab_def)
  have fu: "frame_used st' x \<longleftrightarrow> frame_used st x \<and> x \<notin> ?X" for x using pg by (simp add: purged_def frame_used_def eq)
  have mem: "x \<in> set (L k) \<and> x \<notin> ?X" if "x \<in> set (?L k)" for x k
  proof -
    obtain l d n where k: "k = (l, d, n)" by (cases k)
    have x: "x \<in> set (L k)" "\<not> (d = c \<and> n = m)" using that by (auto simp: k purge_lists_def split: if_splits)
    have "x \<notin> ?X" using lists_okD(4)[OF base_invD(4)[OF inv] x(1)] x(2) by (auto simp: mode_slabs_key k)
    then show ?thesis using x by blast
  qed
  show ?thesis
  proof (rule base_invI)
    show "pmm_inv (ss_pmm st')" using pg by (simp add: eq purged_def)
    show "cache_ok (ss_cache st' d)" if "d \<in> C" for d using base_invD(2)[OF inv that] g by (simp add: cache_ok_def same_geom_def)
    show "d \<in> C" if "Some d \<in> set (ss_buckets st')" for d using base_invD(3)[OF inv] that g by (simp add: same_geom_def)
    show "slab_ok st' k (slab_at st' x)" if "x \<in> set (?L k)" "x \<notin> {}" for x k
      using base_invD(5)[OF inv, of x k] mem[OF that(1)] at(1)[of x] same_geom_size[OF g] by (cases k) (simp add: header_ok_def)
    show "frame_used st' x" if "x \<in> set (?L k)" for x k using base_invD(6)[OF inv, of x k] mem[OF that] fu by blast
    show "x \<in> {} \<or> (\<exists>k. x \<in> set (?L k))" if x: "is_slab st' x" for x
    proof -
      have n: "x \<notin> ?X" using x gone by blast
      then obtain l d n where k: "x \<in> set (L (l, d, n))" using base_invD(9)[OF inv, of x] x at(2) by auto
      then have "\<not> (d = c \<and> n = m)" using n by (auto simp: mode_slabs_key)
      then have "x \<in> set (?L (l, d, n))" using k by (auto simp: purge_lists_def)
      then show ?thesis by blast
    qed
    show "frame_used st' d \<and> \<not> is_slab st' d" if "d \<in> C" "d mod PAGE_SIZE = 0" for d
    proof -
      have "d \<notin> ?X" using base_invD(10)[OF inv that] lists_okD(5)[OF base_invD(4)[OF inv]] by (auto simp: mode_slabs_key)
      then show ?thesis using base_invD(10)[OF inv that] at(2) fu by simp
    qed
    have "links (nx st') (pv st') None (head_at st' k) (?L k) None" if kC: "fst (snd k) \<in> C" for k
    proof -
      obtain l d n where k: "k = (l, d, n)" by (cases k)
      show ?thesis
      proof (cases "d = c \<and> n = m")
        case True
        then show ?thesis by (simp add: k hd purge_lists_def)
      next
        case False
        then have "?L k = L k" by (auto simp: k purge_lists_def)
        moreover have "nx st' x = nx st x \<and> pv st' x = pv st x" if "x \<in> set (L k)" for x using mem[of x k] that calculation at(1) by simp
        moreover have "head_at st' k = head_at st k" using False by (auto simp: k hd)
        ultimately show ?thesis
          using links_cong[of "L k" "nx st'" "nx st" "pv st'" "pv st"] lists_okD(1)[OF base_invD(4)[OF inv] kC] by simp
      qed
    qed
    moreover have "?L k = [] \<or> ?L k = L k" for k by (cases k) (simp add: purge_lists_def)
    moreover have "is_slab st' x" if "x \<in> set (?L k)" for x k
      using mem[OF that] lists_okD(5)[OF base_invD(4)[OF inv], of x k] at(2) by blast
    ultimately show "lists_ok C st' ?L"
      using lists_okD(2,3,4)[OF base_invD(4)[OF inv]] mem unfolding lists_ok_def by (metis distinct.simps(1))
  qed simp_all
qed

lemma walk_list:
  assumes inv: "base_inv C st L {}" and c: "c \<in> C" and pg: "purged st st1 Y" and dis: "Y \<inter> set (L (l, c, m)) = {}"
    and fuel: "length (L (l, c, m)) \<le> fuel"
  shows "\<exists>st2. slab_annihilate_list fuel env c (head_of l c m st1) st1 = Ret () st2 \<and> purged st st2 (Y \<union> set (L (l, c, m))) \<and>
    (sp_scrub_on_annihilate (sc_policy (ss_cache st c)) \<longrightarrow> sc_total_objects (ss_cache st2 c) = sc_total_objects (ss_cache st1 c))"
proof -
  let ?xs = "L (l, c, m)"
  have "links (nx st) (pv st) None (head_of l c m st) ?xs None"
    using lists_okD(1)[OF base_invD(4)[OF inv], of "(l, c, m)"] c by simp
  then have "chain (nx st) (head_of l c m st) ?xs" by (rule chain_links)
  moreover have "nx st1 x = nx st x" if "x \<in> set ?xs" for x
  proof -
    have "x \<notin> Y" using that dis by blast
    then show ?thesis using purged_slab_at[OF pg] by simp
  qed
  ultimately have ch: "chain (nx st1) (head_of l c m st1) ?xs"
    using chain_cong[of ?xs "nx st1" "nx st"] pg by (simp add: purged_def)
  have fu: "frame_used st1 x" if "x \<in> set ?xs" for x using base_invD(6)[OF inv that] pg dis that by (auto simp: purged_def)
  have "pmm_inv (ss_pmm st1)" and pol: "sc_policy (ss_cache st1 c) = sc_policy (ss_cache st c)"
    using pg by (auto simp: purged_def same_geom_def)
  then obtain st2 where "slab_annihilate_list fuel env c (head_of l c m st1) st1 = Ret () st2" "purged st1 st2 (set ?xs)"
      "sp_scrub_on_annihilate (sc_policy (ss_cache st1 c)) \<longrightarrow> sc_total_objects (ss_cache st2 c) = sc_total_objects (ss_cache st1 c)"
    using annihilate_list_ok[OF _ ch lists_okD(3)[OF base_invD(4)[OF inv]] fu fuel] by blast
  then show ?thesis using purged_trans[OF pg] pol by auto
qed

lemma purged_drops:
  assumes inv: "base_inv C st L {}" and pg: "purged st st1 X" and X: "\<And>s. s \<in> X \<Longrightarrow> s mod PAGE_SIZE = 0"
    and st': "slab_at st' = slab_at st1" "is_slab st' = is_slab st1" "ss_pmm st' = ss_pmm st1" "same_geom st1 st'"
  shows "drops_live st st' (X \<times> UNIV)"
proof -
  have ls: "live_slots st' = live_slots st - X \<times> UNIV"
  proof -
    have "slab_magic st' x \<longleftrightarrow> slab_magic st x \<and> x \<notin> X" for x
      using pg purged_slab_at[OF pg, of x] by (cases "x \<in> X") (simp_all add: slab_magic_def st' purged_def is_slab_def)
    then show ?thesis using purged_slab_at[OF pg] by (auto simp: live_slots_def st')
  qed
  have g: "same_geom st st'" using pg st'(4) same_geom_trans by (auto simp: purged_def)
  have "kept st st' (live_slots st')"
  proof (rule keptI[OF g])
    fix p a assume p: "p \<in> live_slots st'" and a: "a \<in> extent st p"
    obtain t i where p': "p = (t, i)" by (cases p)
    have "a \<notin> page s" if "s \<in> X" for s
      using extent_other_page[OF inv, of t i s] p a X[OF that] that by (auto simp: p' ls)
    then show "pm_mem (ss_pmm st') a = pm_mem (ss_pmm st) a" using pg by (simp add: st' purged_def)
  next
    fix s i assume "(s, i) \<in> live_slots st'"
    then show "sl_cache (slab_at st' s) = sl_cache (slab_at st s)" using purged_slab_at[OF pg, of s] by (auto simp: ls st')
  qed
  then show ?thesis using ls g by (simp add: drops_live_def)
qed

lemma slab_annihilate_ok:
  assumes inv: "base_inv C st L {}" and c: "c \<in> C" and m: "m < MODE_COUNT" and fuel: "\<And>l. length (L (l, c, m)) \<le> fuel"
  shows "\<exists>st'. slab_annihilate fuel env (Some c) m st = Ret () st' \<and> base_inv C st' (purge_lists L c m) {} \<and>
    drops_live st st' (mode_slabs L c m \<times> UNIV) \<and>
    (\<forall>s\<in>mode_slabs L c m. \<not> frame_used st' s \<and> (\<forall>a\<in>page s. pm_mem (ss_pmm st') a = 0)) \<and>
    (sp_scrub_on_annihilate (sc_policy (ss_cache st c)) \<longrightarrow> sc_total_objects (ss_cache st' c) = sc_total_objects (ss_cache st c))"
proof -
  let ?F = "L (FreeList, c, m)" and ?P = "L (PartialList, c, m)" and ?U = "L (FullList, c, m)" and ?X = "mode_slabs L c m"
  have dis: "set (L (l, c, m)) \<inter> set (L (l', c, m)) = {}" if "l \<noteq> l'" for l l'
    using lists_okD(4)[OF base_invD(4)[OF inv]] that by blast
  let ?scrub = "sp_scrub_on_annihilate (sc_policy (ss_cache st c))"
  obtain st1 where 1: "slab_annihilate_list fuel env c (head_of FreeList c m st) st = Ret () st1" "purged st st1 (set ?F)"
      "?scrub \<longrightarrow> sc_total_objects (ss_cache st1 c) = sc_total_objects (ss_cache st c)"
    using walk_list[OF inv c purged_refl[OF base_invD(1)[OF inv]], of FreeList m fuel env] fuel by auto
  obtain st2 where 2: "slab_annihilate_list fuel env c (head_of PartialList c m st1) st1 = Ret () st2" "purged st st2 (set ?F \<union> set ?P)"
      "?scrub \<longrightarrow> sc_total_objects (ss_cache st2 c) = sc_total_objects (ss_cache st1 c)"
    using walk_list[OF inv c 1(2), of PartialList m fuel env] fuel dis[of FreeList PartialList] by auto
  obtain st3 where 3: "slab_annihilate_list fuel env c (head_of FullList c m st2) st2 = Ret () st3" "purged st st3 ?X"
      "?scrub \<longrightarrow> sc_total_objects (ss_cache st3 c) = sc_total_objects (ss_cache st2 c)"
    using walk_list[OF inv c 2(2), of FullList m fuel env] fuel dis[of FreeList FullList] dis[of PartialList FullList]
    by (auto simp: mode_slabs_def Int_Un_distrib2)
  define st' where "st' = set_head_of FullList c m None (set_head_of PartialList c m None (set_head_of FreeList c m None st3))"
  have run: "slab_annihilate fuel env (Some c) m st = Ret () st'"
    using m 1(1) 2(1) 3(1) by (simp add: slab_annihilate_def st'_def)
  have b: "base_inv C st' (purge_lists L c m) {}" by (rule purged_base[OF inv 3(2) st'_def])
  have eq: "slab_at st' = slab_at st3" "is_slab st' = is_slab st3" "ss_pmm st' = ss_pmm st3" "same_geom st3 st'"
    "sc_total_objects (ss_cache st' c) = sc_total_objects (ss_cache st3 c)"
    by (simp_all add: st'_def same_geom_def set_head_of_def)
  have al: "s mod PAGE_SIZE = 0" if "s \<in> ?X" for s
    using that frame_aligned[OF base_invD(6)[OF inv]] by (auto simp: mode_slabs_key)
  have z: "\<not> frame_used st' s \<and> (\<forall>a\<in>page s. pm_mem (ss_pmm st') a = 0)" if "s \<in> ?X" for s
    using 3(2) that by (auto simp: purged_def frame_used_def eq)
  show ?thesis using run b purged_drops[OF inv 3(2) al eq(1-4)] z 1(3) 2(3) 3(3) eq(5) by auto
qed

definition slab_of_mode :: "slab_st \<Rightarrow> nat \<Rightarrow> nat \<Rightarrow> nat \<Rightarrow> bool" where
  "slab_of_mode st c m s \<longleftrightarrow> slab_magic st s \<and> sl_cache (slab_at st s) = Some c \<and> sl_mode_id (slab_at st s) = m"

lemma mode_slabs_eq:
  assumes inv: "base_inv C st L {}"
  shows "mode_slabs L c m = {s. slab_of_mode st c m s}"
proof -
  have "slab_of_mode st c m s" if "s \<in> set (L (l, c, m))" for s l
    using base_invD(5)[OF inv that] lists_okD(5)[OF base_invD(4)[OF inv] that]
    by (simp add: slab_of_mode_def slab_magic_def header_ok_def)
  moreover have "\<exists>l. s \<in> set (L (l, c, m))" if "slab_of_mode st c m s" for s
  proof -
    have "slab_magic st s" using that by (simp add: slab_of_mode_def)
    then obtain l d n where k: "s \<in> set (L (l, d, n))" "slab_ok st (l, d, n) (slab_at st s)" using magic_ok[OF inv, of s] by blast
    then have "d = c" "n = m" using that by (auto simp: slab_of_mode_def header_ok_def)
    then show ?thesis using k(1) by blast
  qed
  ultimately show ?thesis by (auto simp: mode_slabs_key)
qed

section \<open>Properties\<close>

text \<open>
  C10: annihilation of a mode.  With one step per slab, \<open>slab_annihilate\<close> returns and the invariant holds.  Exactly the objects
  of the slabs of that cache and mode are gone, every other object keeps its place and its bytes, and every page of those slabs is
  zero and no longer in use.  When the policy asks for scrubbing, the counter of objects of the cache keeps its old value: the
  number of objects is read from the header after the page has been zeroed.
\<close>

theorem slab_annihilate_exact:
  assumes "slab_inv C st" and "c \<in> C" and "m < MODE_COUNT" and "card {s. slab_of_mode st c m s} \<le> fuel"
  shows "\<exists>st'. slab_annihilate fuel env (Some c) m st = Ret () st' \<and> slab_inv C st' \<and>
    live_slots st' = {(s, i) \<in> live_slots st. \<not> slab_of_mode st c m s} \<and> kept st st' (live_slots st') \<and>
    (\<forall>s. slab_of_mode st c m s \<longrightarrow> \<not> frame_used st' s \<and> (\<forall>a\<in>page s. pm_mem (ss_pmm st') a = 0)) \<and>
    (sp_scrub_on_annihilate (sc_policy (ss_cache st c)) \<longrightarrow> sc_total_objects (ss_cache st' c) = sc_total_objects (ss_cache st c))"
proof -
  obtain L where L: "base_inv C st L {}" using assms(1) by (auto simp: slab_inv_def)
  have fin: "finite {s. slab_of_mode st c m s}" unfolding mode_slabs_eq[OF L, symmetric] by (simp add: mode_slabs_def)
  have "length (L (l, c, m)) \<le> fuel" for l
  proof -
    have "length (L (l, c, m)) = card (set (L (l, c, m)))" using distinct_card[OF lists_okD(3)[OF base_invD(4)[OF L]]] by metis
    also have "\<dots> \<le> card {s. slab_of_mode st c m s}"
      by (rule card_mono[OF fin]) (auto simp: mode_slabs_eq[OF L, symmetric] mode_slabs_key)
    finally show ?thesis using assms(4) by simp
  qed
  from slab_annihilate_ok[OF L assms(2,3) this, of env] obtain st' where
    A: "slab_annihilate fuel env (Some c) m st = Ret () st'" "base_inv C st' (purge_lists L c m) {}"
      "drops_live st st' ({s. slab_of_mode st c m s} \<times> UNIV)"
      "\<forall>s\<in>{s. slab_of_mode st c m s}. \<not> frame_used st' s \<and> (\<forall>a\<in>page s. pm_mem (ss_pmm st') a = 0)"
      "sp_scrub_on_annihilate (sc_policy (ss_cache st c)) \<longrightarrow> sc_total_objects (ss_cache st' c) = sc_total_objects (ss_cache st c)"
    unfolding mode_slabs_eq[OF L] by blast
  have "live_slots st' = {(s, i) \<in> live_slots st. \<not> slab_of_mode st c m s}" "kept st st' (live_slots st')"
    using A(3) by (auto simp: drops_live_def)
  moreover have "slab_inv C st'" using A(2) by (auto simp: slab_inv_def)
  ultimately show ?thesis using A(1,4,5) by blast
qed

theorem slab_annihilate_exact_witness:
  "\<exists>st'. slab_annihilate 2 sample_env (Some 9) 2 sample_slabs = Ret () st' \<and> slab_inv {9} st' \<and> live_slots st' = {} \<and>
    sc_total_objects (ss_cache st' 9) = 1"
proof -
  have m: "slab_of_mode sample_slabs 9 2 s \<longleftrightarrow> s = 0" for s
    by (simp add: slab_of_mode_def slab_magic_def sample_slab_at sample_header_sel)
  have "live_slots sample_slabs \<subseteq> {0} \<times> UNIV" by (auto simp: live_slots_def slab_magic_def sample_slab_at)
  moreover have "sp_scrub_on_annihilate (sc_policy (ss_cache sample_slabs 9))" "sc_total_objects (ss_cache sample_slabs 9) = 1"
    by (simp_all add: sample_slabs_def sample_cache_def kmalloc_policy_def slab_default_policy_def)
  moreover have "2 < MODE_COUNT" by (simp add: MODE_COUNT_def)
  ultimately show ?thesis using slab_annihilate_exact[OF sample_inv, of 9 2 2 sample_env] by (auto simp: m)
qed

end
