(* ===== verification/Vmm.thy ===== *)
theory Vmm
  imports Pmm_Alloc Pcid
begin

text \<open>
  The virtual memory manager (\<^verbatim>\<open>src/kernel/vmm.c\<close>, \<^verbatim>\<open>vmm.h\<close>) on the physical
  memory manager.

  Page tables are pages of the byte-addressed memory; an entry is the little-endian word at its index.  Pointers into
  the direct map are physical addresses.  A process is the record of \<^verbatim>\<open>process.h\<close>; NULL, the kernel, is \<open>None\<close>.
  The invalidations of the translation cache are recorded in order.  The epoch, the extent of the
  kernel image and the process of the current thread are arguments.  A NULL table pointer that is read is a panic.
\<close>

section \<open>Data\<close>

definition VMM_PRESENT :: u64 where "VMM_PRESENT = 0x1"
definition VMM_WRITABLE :: u64 where "VMM_WRITABLE = 0x2"
definition VMM_USER :: u64 where "VMM_USER = 0x4"
definition VMM_ACCESSED :: u64 where "VMM_ACCESSED = 0x20"
definition VMM_DIRTY :: u64 where "VMM_DIRTY = 0x40"
definition VMM_HUGE :: u64 where "VMM_HUGE = 0x80"
definition VMM_DEMAND :: u64 where "VMM_DEMAND = 0x200"
definition VMM_COW :: u64 where "VMM_COW = 0x400"
definition VMM_NX :: u64 where "VMM_NX = 0x8000000000000000"
definition PAGE_USER_CODE :: u64 where "PAGE_USER_CODE = VMM_PRESENT OR VMM_USER"
definition PAGE_USER_DATA :: u64 where "PAGE_USER_DATA = VMM_PRESENT OR VMM_WRITABLE OR VMM_USER OR VMM_NX"
definition PAGE_USER_DATA_DEMAND :: u64 where "PAGE_USER_DATA_DEMAND = VMM_WRITABLE OR VMM_USER OR VMM_DEMAND"
definition KERNEL_VIRT_BASE :: u64 where "KERNEL_VIRT_BASE = 0xffffffff80000000"

lemmas vmm_flag_defs = VMM_PRESENT_def VMM_WRITABLE_def VMM_USER_def VMM_ACCESSED_def VMM_DIRTY_def VMM_HUGE_def
  VMM_DEMAND_def VMM_COW_def VMM_NX_def

datatype vmm_contract_op_t = VMM_CONTRACT_OP_MAP | VMM_CONTRACT_OP_UNMAP | VMM_CONTRACT_OP_OTHER nat
datatype vmm_contract_trust_t = VMM_CONTRACT_TRUST_VERIFIED | VMM_CONTRACT_TRUST_UNVERIFIED | VMM_CONTRACT_TRUST_OTHER nat

datatype vmm_contract_result_t = VMM_CONTRACT_RESULT_NONE | VMM_CONTRACT_RESULT_OK | VMM_CONTRACT_RESULT_ERR_NULL
  | VMM_CONTRACT_RESULT_ERR_OP | VMM_CONTRACT_RESULT_ERR_LENGTH | VMM_CONTRACT_RESULT_ERR_ALIGNMENT
  | VMM_CONTRACT_RESULT_ERR_OVERFLOW | VMM_CONTRACT_RESULT_ERR_FLAGS | VMM_CONTRACT_RESULT_ERR_POLICY
  | VMM_CONTRACT_RESULT_ERR_ALREADY_MAPPED | VMM_CONTRACT_RESULT_ERR_NOT_MAPPED | VMM_CONTRACT_RESULT_ERR_WALK
  | VMM_CONTRACT_RESULT_ERR_ALLOC | VMM_CONTRACT_RESULT_ERR_ROLLBACK

record vmm_region_contract_t =
  rc_op :: vmm_contract_op_t
  rc_virt_start :: u64
  rc_phys_start :: u64
  rc_length :: u64
  rc_pte_flags :: u64
  rc_owner_pid :: u64
  rc_owner_mode :: nat
  rc_trust :: vmm_contract_trust_t
  rc_result :: vmm_contract_result_t
  rc_applied_pages :: u64

record vmm_compiled_mapping_t =
  cm_op :: vmm_contract_op_t
  cm_virt_start :: u64
  cm_phys_start :: u64
  cm_page_count :: u64
  cm_pte_flags :: u64
  cm_owner_pid :: u64
  cm_owner_mode :: nat
  cm_trust :: vmm_contract_trust_t
  cm_result :: vmm_contract_result_t

record vmm_contract_metrics_t =
  vc_compile_ok :: u64
  vc_compile_fail :: u64
  vc_apply_ok :: u64
  vc_apply_fail :: u64
  vc_rollback_attempts :: u64
  vc_rollback_failures :: u64

record lattice_attachment_t =
  at_vaddr :: u64
  at_page_count :: u32
  at_lattice :: "nat option"
  at_is_source :: bool

record process_t =
  pr_pml4_phys :: u64
  pr_pcid :: nat
  pr_cspace :: "nat option"
  pr_pid :: u32
  pr_thread_count :: u32
  pr_mode :: mode_id_t
  pr_waiter_thread :: "nat option"
  pr_exit_events :: u32
  pr_remaining_process_budget :: u64
  pr_max_total_budget :: u64
  pr_refill_period_ticks :: u64
  pr_last_process_refill :: u64
  pr_sched_auth_root_slot :: u32
  pr_sched_auth_root_valid :: bool
  pr_lattices :: "lattice_attachment_t list"

definition VMM_CONTRACT_LOG_SIZE :: nat where "VMM_CONTRACT_LOG_SIZE = 128"

record vmm_st =
  vm_pmm :: pmm_st
  vm_kernel_pml4 :: "u64 option"
  vm_hhdm_offset :: u64
  vm_contract_log :: "vmm_region_contract_t list"
  vm_contract_log_head :: nat
  vm_contract_log_count :: nat
  vm_contract_metrics :: vmm_contract_metrics_t
  vm_switch :: vmm_switch_st
  vm_invalidated :: "u64 list"

text \<open>A call returns, panics, or does not return.\<close>

datatype 'a vout = VRet 'a vmm_st | VPanic | VHang

fun vbind :: "'a vout \<Rightarrow> ('a \<Rightarrow> vmm_st \<Rightarrow> 'b vout) \<Rightarrow> 'b vout" where
  "vbind (VRet a st) f = f a st"
| "vbind VPanic f = VPanic"
| "vbind VHang f = VHang"

section \<open>Page tables in memory\<close>

definition vm_mem :: "vmm_st \<Rightarrow> bmem" where
  "vm_mem st = pm_mem (vm_pmm st)"

definition upd_vm_mem :: "(bmem \<Rightarrow> bmem) \<Rightarrow> vmm_st \<Rightarrow> vmm_st" where
  "upd_vm_mem f st = st\<lparr>vm_pmm := (vm_pmm st)\<lparr>pm_mem := f (pm_mem (vm_pmm st))\<rparr>\<rparr>"

definition pt_get :: "u64 \<Rightarrow> nat \<Rightarrow> bmem \<Rightarrow> u64" where
  "pt_get t i m = read_word (unat t + 8 * i) 8 m"

definition pt_set :: "u64 \<Rightarrow> nat \<Rightarrow> u64 \<Rightarrow> bmem \<Rightarrow> bmem" where
  "pt_set t i v m = write_bytes (unat t + 8 * i) (le_bytes 8 v) m"

definition has_flag :: "u64 \<Rightarrow> u64 \<Rightarrow> bool" where
  "has_flag e f \<longleftrightarrow> e AND f \<noteq> 0"

definition table_of :: "u64 \<Rightarrow> u64" where
  "table_of e = e AND NOT 0xFFF"

definition pml4_index :: "u64 \<Rightarrow> nat" where "pml4_index virt = unat (drop_bit 39 virt AND 0x1FF)"
definition pdpt_index :: "u64 \<Rightarrow> nat" where "pdpt_index virt = unat (drop_bit 30 virt AND 0x1FF)"
definition pd_index :: "u64 \<Rightarrow> nat" where "pd_index virt = unat (drop_bit 21 virt AND 0x1FF)"
definition pt_index :: "u64 \<Rightarrow> nat" where "pt_index virt = unat (drop_bit 12 virt AND 0x1FF)"

definition proc_root :: "process_t option \<Rightarrow> vmm_st \<Rightarrow> u64 option" where
  "proc_root proc st = (case proc of Some p \<Rightarrow> Some (pr_pml4_phys p) | None \<Rightarrow> vm_kernel_pml4 st)"

definition proc_color :: "process_t option \<Rightarrow> security_color_t" where
  "proc_color proc = (case proc of Some p \<Rightarrow> mode_to_color (pr_mode p) | None \<Rightarrow> COLOR_VOID)"

definition proc_pid :: "process_t option \<Rightarrow> u64" where
  "proc_pid proc = (case proc of Some p \<Rightarrow> ucast (pr_pid p) | None \<Rightarrow> 0)"

definition get_next_level :: "u64 \<Rightarrow> process_t option \<Rightarrow> u64 \<Rightarrow> nat \<Rightarrow> vmm_st \<Rightarrow> u64 option \<times> vmm_st" where
  "get_next_level epoch proc cur index st =
     (let e = pt_get cur index (vm_mem st) in
      if has_flag e VMM_PRESENT then (Some (table_of e), st)
      else (case pmm_alloc epoch (proc_color proc) (proc_pid proc) (vm_pmm st) of (new_table_phys, pm) \<Rightarrow>
              let st1 = st\<lparr>vm_pmm := pm\<rparr> in
              if new_table_phys = 0 then (None, st1)
              else (Some new_table_phys,
                    upd_vm_mem (pt_set cur index (new_table_phys OR VMM_PRESENT OR VMM_WRITABLE OR (if proc = None then 0 else VMM_USER)))
                      (upd_vm_mem (fast_zero (unat new_table_phys) PAGE_SIZE) st1))))"

definition vmm_set_entry :: "u64 \<Rightarrow> nat \<Rightarrow> u64 \<Rightarrow> vmm_st \<Rightarrow> vmm_st" where
  "vmm_set_entry table_phys index val st = upd_vm_mem (pt_set table_phys index val) st"

definition vmm_walk_leaf_noalloc :: "u64 option \<Rightarrow> u64 \<Rightarrow> bmem \<Rightarrow> (u64 \<times> nat) option" where
  "vmm_walk_leaf_noalloc root virt m =
     (case root of
        None \<Rightarrow> None
      | Some pml4 \<Rightarrow>
          let e4 = pt_get pml4 (pml4_index virt) m in
          if \<not> has_flag e4 VMM_PRESENT then None
          else let e3 = pt_get (table_of e4) (pdpt_index virt) m in
          if \<not> has_flag e3 VMM_PRESENT then None
          else let pd = table_of e3; e2 = pt_get pd (pd_index virt) m in
          if \<not> has_flag e2 VMM_PRESENT then None
          else if has_flag e2 VMM_HUGE then Some (pd, pd_index virt)
          else Some (table_of e2, pt_index virt))"

definition cpu_tlb_shootdown_page :: "u64 \<Rightarrow> vmm_st \<Rightarrow> vmm_st" where
  "cpu_tlb_shootdown_page virt st = st\<lparr>vm_invalidated := vm_invalidated st @ [virt]\<rparr>"

definition vmm_unmap_leaf_noalloc :: "u64 option \<Rightarrow> u64 \<Rightarrow> vmm_st \<Rightarrow> bool \<times> vmm_st" where
  "vmm_unmap_leaf_noalloc root virt st =
     (case vmm_walk_leaf_noalloc root virt (vm_mem st) of
        None \<Rightarrow> (False, st)
      | Some (pt, i) \<Rightarrow>
          if \<not> has_flag (pt_get pt i (vm_mem st)) VMM_PRESENT then (False, st)
          else (True, cpu_tlb_shootdown_page virt (upd_vm_mem (pt_set pt i 0) st)))"

section \<open>Contracts\<close>

definition vmm_contract_log_push :: "vmm_region_contract_t \<Rightarrow> vmm_st \<Rightarrow> vmm_st" where
  "vmm_contract_log_push c st = st\<lparr>vm_contract_log := (vm_contract_log st)[vm_contract_log_head st := c],
     vm_contract_log_head := (vm_contract_log_head st + 1) mod VMM_CONTRACT_LOG_SIZE,
     vm_contract_log_count := (if vm_contract_log_count st < VMM_CONTRACT_LOG_SIZE then vm_contract_log_count st + 1 else vm_contract_log_count st)\<rparr>"

definition upd_vm_metrics :: "(vmm_contract_metrics_t \<Rightarrow> vmm_contract_metrics_t) \<Rightarrow> vmm_st \<Rightarrow> vmm_st" where
  "upd_vm_metrics f st = st\<lparr>vm_contract_metrics := f (vm_contract_metrics st)\<rparr>"

definition vmm_map_raw :: "u64 \<Rightarrow> process_t option \<Rightarrow> u64 \<Rightarrow> u64 \<Rightarrow> u64 \<Rightarrow> vmm_st \<Rightarrow> bool vout" where
  "vmm_map_raw epoch proc virt phys flags st =
     (if virt mod word_of_nat PAGE_SIZE \<noteq> 0 then VPanic
      else if \<not> has_flag flags VMM_DEMAND \<and> phys mod word_of_nat PAGE_SIZE \<noteq> 0 then VPanic
      else (case proc_root proc st of
          None \<Rightarrow> VPanic
        | Some pml4 \<Rightarrow>
          (case get_next_level epoch proc pml4 (pml4_index virt) st of
             (None, st1) \<Rightarrow> VRet False st1
           | (Some pdpt, st1) \<Rightarrow>
          (case get_next_level epoch proc pdpt (pdpt_index virt) st1 of
             (None, st2) \<Rightarrow> VRet False st2
           | (Some pd, st2) \<Rightarrow>
             if has_flag flags VMM_HUGE
             then let pde_flags = flags AND (VMM_HUGE OR VMM_PRESENT OR VMM_WRITABLE OR VMM_USER OR VMM_NX OR VMM_ACCESSED OR VMM_DIRTY)
                  in VRet True (upd_vm_mem (pt_set pd (pd_index virt) ((phys AND NOT 0x1FFFFF) OR pde_flags)) st2)
             else
          (case get_next_level epoch proc pd (pd_index virt) st2 of
             (None, st3) \<Rightarrow> VRet False st3
           | (Some pt, st3) \<Rightarrow>
             if has_flag flags VMM_DEMAND
             then VRet True (upd_vm_mem (pt_set pt (pt_index virt) (flags AND (VMM_DEMAND OR VMM_COW OR VMM_USER OR VMM_WRITABLE))) st3)
             else let pte_flags = flags AND (VMM_PRESENT OR VMM_WRITABLE OR VMM_USER OR VMM_NX OR VMM_ACCESSED OR VMM_DIRTY OR VMM_COW OR VMM_DEMAND)
                  in VRet True (upd_vm_mem (pt_set pt (pt_index virt) ((phys AND NOT 0xFFF) OR pte_flags)) st3))))))"

text \<open>The outcome of compiling: an error, or the compiled mapping.\<close>

definition contract_check :: "vmm_region_contract_t \<Rightarrow> vmm_contract_result_t" where
  "contract_check c =
     (let P = word_of_nat PAGE_SIZE; max_virt = rc_virt_start c + rc_length c;
          user = (rc_owner_mode c \<noteq> mode_val MODE_KERNEL);
          max_phys = rc_phys_start c + rc_length c; fl = rc_pte_flags c in
      if rc_op c \<noteq> VMM_CONTRACT_OP_MAP \<and> rc_op c \<noteq> VMM_CONTRACT_OP_UNMAP then VMM_CONTRACT_RESULT_ERR_OP
      else if rc_length c = 0 \<or> rc_length c mod P \<noteq> 0 then VMM_CONTRACT_RESULT_ERR_LENGTH
      else if rc_virt_start c mod P \<noteq> 0 then VMM_CONTRACT_RESULT_ERR_ALIGNMENT
      else if max_virt < rc_virt_start c then VMM_CONTRACT_RESULT_ERR_OVERFLOW
      else if rc_trust c \<noteq> VMM_CONTRACT_TRUST_VERIFIED \<and> rc_trust c \<noteq> VMM_CONTRACT_TRUST_UNVERIFIED then VMM_CONTRACT_RESULT_ERR_POLICY
      else if user \<and> (rc_virt_start c \<ge> KERNEL_VIRT_BASE \<or> max_virt > KERNEL_VIRT_BASE) then VMM_CONTRACT_RESULT_ERR_POLICY
      else if rc_op c = VMM_CONTRACT_OP_MAP then
        (if rc_phys_start c mod P \<noteq> 0 then VMM_CONTRACT_RESULT_ERR_ALIGNMENT
         else if max_phys < rc_phys_start c then VMM_CONTRACT_RESULT_ERR_OVERFLOW
         else if has_flag fl VMM_DEMAND \<and> has_flag fl (VMM_PRESENT OR VMM_NX OR VMM_ACCESSED OR VMM_DIRTY) then VMM_CONTRACT_RESULT_ERR_FLAGS
         else if has_flag fl VMM_HUGE \<and> rc_length c \<noteq> 0x200000 then VMM_CONTRACT_RESULT_ERR_LENGTH
         else if has_flag fl VMM_HUGE \<and> (rc_virt_start c mod 0x200000 \<noteq> 0 \<or> rc_phys_start c mod 0x200000 \<noteq> 0)
           then VMM_CONTRACT_RESULT_ERR_ALIGNMENT
         else if user \<and> \<not> has_flag fl VMM_USER then VMM_CONTRACT_RESULT_ERR_POLICY
         else VMM_CONTRACT_RESULT_OK)
      else (if rc_phys_start c \<noteq> 0 \<or> fl \<noteq> 0 then VMM_CONTRACT_RESULT_ERR_FLAGS else VMM_CONTRACT_RESULT_OK))"

definition vmm_compile_region_contract ::
    "vmm_region_contract_t \<Rightarrow> vmm_st \<Rightarrow> (vmm_contract_result_t + vmm_compiled_mapping_t) \<times> vmm_st" where
  "vmm_compile_region_contract c st =
     (case contract_check c of
        VMM_CONTRACT_RESULT_OK \<Rightarrow>
          (Inr \<lparr>cm_op = rc_op c, cm_virt_start = rc_virt_start c, cm_phys_start = rc_phys_start c,
             cm_page_count = rc_length c div word_of_nat PAGE_SIZE, cm_pte_flags = rc_pte_flags c, cm_owner_pid = rc_owner_pid c,
             cm_owner_mode = rc_owner_mode c, cm_trust = rc_trust c, cm_result = VMM_CONTRACT_RESULT_OK\<rparr>,
           upd_vm_metrics (\<lambda>m. m\<lparr>vc_compile_ok := vc_compile_ok m + 1\<rparr>) st)
      | r \<Rightarrow> (Inl r, upd_vm_metrics (\<lambda>m. m\<lparr>vc_compile_fail := vc_compile_fail m + 1\<rparr>) st))"

definition page_virt :: "u64 \<Rightarrow> nat \<Rightarrow> u64" where
  "page_virt start i = start + word_of_nat i * word_of_nat PAGE_SIZE"

definition leaf_present :: "u64 option \<Rightarrow> u64 \<Rightarrow> bmem \<Rightarrow> bool" where
  "leaf_present root virt m =
     (case vmm_walk_leaf_noalloc root virt m of None \<Rightarrow> False | Some (pt, i) \<Rightarrow> has_flag (pt_get pt i m) VMM_PRESENT)"

text \<open>The loops of \<open>vmm_apply_compiled_mapping\<close> return how many pages they have done.\<close>

fun map_pages :: "u64 \<Rightarrow> process_t option \<Rightarrow> vmm_compiled_mapping_t \<Rightarrow> nat list \<Rightarrow> nat \<Rightarrow> vmm_st \<Rightarrow> (bool \<times> nat) vout" where
  "map_pages epoch proc cm [] applied st = VRet (True, applied) st"
| "map_pages epoch proc cm (i # is) applied st =
     vbind (vmm_map_raw epoch proc (page_virt (cm_virt_start cm) i) (page_virt (cm_phys_start cm) i) (cm_pte_flags cm) st)
       (\<lambda>ok st1. if ok then map_pages epoch proc cm is (applied + 1) st1 else VRet (False, applied) st1)"

fun rollback_pages :: "u64 option \<Rightarrow> u64 \<Rightarrow> nat list \<Rightarrow> vmm_st \<Rightarrow> bool \<times> vmm_st" where
  "rollback_pages root start [] st = (True, st)"
| "rollback_pages root start (i # is) st =
     (case vmm_unmap_leaf_noalloc root (page_virt start i) st of (ok, st1) \<Rightarrow>
      case rollback_pages root start is st1 of (ok', st2) \<Rightarrow> (ok \<and> ok', st2))"

fun unmap_pages :: "u64 option \<Rightarrow> u64 \<Rightarrow> nat list \<Rightarrow> nat \<Rightarrow> vmm_st \<Rightarrow> (bool \<times> nat) \<times> vmm_st" where
  "unmap_pages root start [] applied st = ((True, applied), st)"
| "unmap_pages root start (i # is) applied st =
     (case vmm_unmap_leaf_noalloc root (page_virt start i) st of
        (False, st1) \<Rightarrow> ((False, applied), st1)
      | (True, st1) \<Rightarrow> unmap_pages root start is (applied + 1) st1)"

definition apply_map :: "u64 \<Rightarrow> process_t option \<Rightarrow> vmm_compiled_mapping_t \<Rightarrow> vmm_st \<Rightarrow> (vmm_contract_result_t \<times> nat) vout" where
  "apply_map epoch proc cm st =
     (let root = proc_root proc st; pages = [0 ..< unat (cm_page_count cm)] in
      if list_ex (\<lambda>i. leaf_present root (page_virt (cm_virt_start cm) i) (vm_mem st)) pages
      then VRet (VMM_CONTRACT_RESULT_ERR_ALREADY_MAPPED, 0) st
      else vbind (map_pages epoch proc cm pages 0 st) (\<lambda>(ok, applied) st1.
        if ok then VRet (VMM_CONTRACT_RESULT_OK, applied) st1
        else if applied > 0 then
          (case rollback_pages root (cm_virt_start cm) [0 ..< applied]
                  (upd_vm_metrics (\<lambda>m. m\<lparr>vc_rollback_attempts := vc_rollback_attempts m + 1\<rparr>) st1) of (rb, st2) \<Rightarrow>
             if rb then VRet (VMM_CONTRACT_RESULT_ERR_ALLOC, applied) st2
             else VRet (VMM_CONTRACT_RESULT_ERR_ROLLBACK, applied)
                    (upd_vm_metrics (\<lambda>m. m\<lparr>vc_rollback_failures := vc_rollback_failures m + 1\<rparr>) st2))
        else VRet (VMM_CONTRACT_RESULT_ERR_ALLOC, applied) st1))"

definition apply_unmap :: "process_t option \<Rightarrow> vmm_compiled_mapping_t \<Rightarrow> vmm_st \<Rightarrow> (vmm_contract_result_t \<times> nat) vout" where
  "apply_unmap proc cm st =
     (let root = proc_root proc st; pages = [0 ..< unat (cm_page_count cm)] in
      if \<not> list_all (\<lambda>i. leaf_present root (page_virt (cm_virt_start cm) i) (vm_mem st)) pages
      then VRet (VMM_CONTRACT_RESULT_ERR_NOT_MAPPED, 0) st
      else (case unmap_pages root (cm_virt_start cm) pages 0 st of ((ok, applied), st1) \<Rightarrow>
              VRet (if ok then VMM_CONTRACT_RESULT_OK else VMM_CONTRACT_RESULT_ERR_WALK, applied) st1))"

definition logged_contract :: "vmm_compiled_mapping_t \<Rightarrow> vmm_contract_result_t \<Rightarrow> nat \<Rightarrow> vmm_region_contract_t" where
  "logged_contract cm result applied =
     \<lparr>rc_op = cm_op cm, rc_virt_start = cm_virt_start cm, rc_phys_start = cm_phys_start cm,
      rc_length = cm_page_count cm * word_of_nat PAGE_SIZE, rc_pte_flags = cm_pte_flags cm,
      rc_owner_pid = cm_owner_pid cm, rc_owner_mode = cm_owner_mode cm, rc_trust = cm_trust cm,
      rc_result = result, rc_applied_pages = word_of_nat applied\<rparr>"

definition count_apply :: "bool \<Rightarrow> vmm_contract_metrics_t \<Rightarrow> vmm_contract_metrics_t" where
  "count_apply ok m = (if ok then m\<lparr>vc_apply_ok := vc_apply_ok m + 1\<rparr> else m\<lparr>vc_apply_fail := vc_apply_fail m + 1\<rparr>)"

definition vmm_apply_compiled_mapping ::
    "u64 \<Rightarrow> process_t option \<Rightarrow> vmm_compiled_mapping_t \<Rightarrow> vmm_st \<Rightarrow> bool vout" where
  "vmm_apply_compiled_mapping epoch proc cm st =
     (if cm_page_count cm = 0 then VRet False st
      else vbind
        (if proc_root proc st = None then VRet (VMM_CONTRACT_RESULT_ERR_WALK, 0) st
         else (case cm_op cm of
             VMM_CONTRACT_OP_MAP \<Rightarrow> apply_map epoch proc cm st
           | VMM_CONTRACT_OP_UNMAP \<Rightarrow> apply_unmap proc cm st
           | _ \<Rightarrow> VRet (VMM_CONTRACT_RESULT_ERR_OP, 0) st))
        (\<lambda>(result, applied) st1.
           let ok = (result = VMM_CONTRACT_RESULT_OK) in
           VRet ok (vmm_contract_log_push (logged_contract cm result applied) (upd_vm_metrics (count_apply ok) st1))))"

definition vmm_read_recent_contracts :: "nat \<Rightarrow> vmm_st \<Rightarrow> vmm_region_contract_t list" where
  "vmm_read_recent_contracts max_count st =
     map (\<lambda>i. vm_contract_log st ! ((vm_contract_log_head st + VMM_CONTRACT_LOG_SIZE - 1 - i) mod VMM_CONTRACT_LOG_SIZE))
       [0 ..< min (vm_contract_log_count st) max_count]"

definition run_contract :: "u64 \<Rightarrow> process_t option \<Rightarrow> vmm_region_contract_t \<Rightarrow> vmm_st \<Rightarrow> bool vout" where
  "run_contract epoch proc c st =
     (case vmm_compile_region_contract c st of
        (Inl r, st1) \<Rightarrow> VRet False (vmm_contract_log_push (c\<lparr>rc_result := r\<rparr>) st1)
      | (Inr cm, st1) \<Rightarrow> vmm_apply_compiled_mapping epoch proc cm st1)"

definition proc_contract :: "process_t option \<Rightarrow> vmm_contract_op_t \<Rightarrow> u64 \<Rightarrow> u64 \<Rightarrow> u64 \<Rightarrow> u64 \<Rightarrow> vmm_region_contract_t" where
  "proc_contract proc op virt phys len flags =
     \<lparr>rc_op = op, rc_virt_start = virt, rc_phys_start = phys, rc_length = len, rc_pte_flags = flags,
      rc_owner_pid = proc_pid proc, rc_owner_mode = (case proc of Some p \<Rightarrow> mode_val (pr_mode p) | None \<Rightarrow> mode_val MODE_KERNEL),
      rc_trust = VMM_CONTRACT_TRUST_VERIFIED, rc_result = VMM_CONTRACT_RESULT_NONE, rc_applied_pages = 0\<rparr>"

definition vmm_map :: "u64 \<Rightarrow> process_t option \<Rightarrow> u64 \<Rightarrow> u64 \<Rightarrow> u64 \<Rightarrow> vmm_st \<Rightarrow> bool vout" where
  "vmm_map epoch proc virt phys flags st =
     run_contract epoch proc (proc_contract proc VMM_CONTRACT_OP_MAP virt phys (word_of_nat PAGE_SIZE) flags) st"

definition vmm_unmap_region :: "u64 \<Rightarrow> process_t option \<Rightarrow> u64 \<Rightarrow> u64 \<Rightarrow> vmm_st \<Rightarrow> bool vout" where
  "vmm_unmap_region epoch proc virt len st =
     run_contract epoch proc (proc_contract proc VMM_CONTRACT_OP_UNMAP virt 0 len 0) st"

definition vmm_virt_to_phys :: "u64 option \<Rightarrow> u64 \<Rightarrow> vmm_st \<Rightarrow> u64" where
  "vmm_virt_to_phys root virt st =
     (let r = (case root of None \<Rightarrow> vm_kernel_pml4 st | Some t \<Rightarrow> Some t) in
      case vmm_walk_leaf_noalloc r virt (vm_mem st) of
        None \<Rightarrow> 0
      | Some (pt, i) \<Rightarrow>
          let e = pt_get pt i (vm_mem st) in
          if \<not> has_flag e VMM_PRESENT then 0 else (e AND 0x000FFFFFFFFFF000) OR (virt AND 0xFFF))"

definition vmm_get_contract_metrics :: "vmm_st \<Rightarrow> vmm_contract_metrics_t" where
  "vmm_get_contract_metrics st = vm_contract_metrics st"

definition vmm_unmap :: "u64 \<Rightarrow> u64 option \<Rightarrow> u64 \<Rightarrow> vmm_st \<Rightarrow> unit vout" where
  "vmm_unmap epoch root virt st =
     (case root of
        None \<Rightarrow> vbind (vmm_unmap_region epoch None virt (word_of_nat PAGE_SIZE) st) (\<lambda>_ st1. VRet () st1)
      | Some t \<Rightarrow> VRet () (snd (vmm_unmap_leaf_noalloc (Some t) virt st)))"

section \<open>Address spaces\<close>

text \<open>The processor does not keep bit 63, which a write uses to ask for no flush.\<close>

definition read_cr3 :: "vmm_st \<Rightarrow> u64" where
  "read_cr3 st = vs_cr3 (vm_switch st) AND NOT (push_bit 63 1)"

definition vmm_fork_pml4 :: "u64 \<Rightarrow> vmm_st \<Rightarrow> u64 vout" where
  "vmm_fork_pml4 epoch st =
     (case pmm_alloc epoch COLOR_VOID 0 (vm_pmm st) of (new_pml4, pm) \<Rightarrow>
        let st1 = st\<lparr>vm_pmm := pm\<rparr> in
        if new_pml4 = 0 then VRet 0 st1
        else (case vm_kernel_pml4 st of
            None \<Rightarrow> VPanic
          | Some src \<Rightarrow> VRet new_pml4 (upd_vm_mem (fold (\<lambda>i m. pt_set new_pml4 i (pt_get src i m) m) [256 ..< 512])
                         (upd_vm_mem (fast_zero (unat new_pml4) PAGE_SIZE) st1))))"

record vmm_env =
  ve_epoch :: u64
  ve_kernel_start :: u64
  ve_kernel_end :: u64

definition vmm_free_frame :: "vmm_env \<Rightarrow> u64 \<Rightarrow> vmm_st \<Rightarrow> unit vout" where
  "vmm_free_frame env phys st =
     (case pmm_free (ve_epoch env) phys (vm_pmm st) of None \<Rightarrow> VHang | Some pm \<Rightarrow> VRet () (st\<lparr>vm_pmm := pm\<rparr>))"

definition PT_ENTRIES :: nat where "PT_ENTRIES = 512"

function (sequential) destroy_table_recursive :: "vmm_env \<Rightarrow> nat \<Rightarrow> u64 \<Rightarrow> nat list \<Rightarrow> vmm_st \<Rightarrow> unit vout" where
  "destroy_table_recursive env level table [] st = VRet () st"
| "destroy_table_recursive env level table (i # is) st =
     (let e = pt_get table i (vm_mem st); phys = table_of e; virt = phys + vm_hhdm_offset st in
      if \<not> has_flag e VMM_PRESENT then destroy_table_recursive env level table is st
      else if virt \<ge> ve_kernel_start env \<and> virt < ve_kernel_end env then destroy_table_recursive env level table is st
      else vbind (if level > 1 \<and> \<not> has_flag e VMM_HUGE
                  then destroy_table_recursive env (level - 1) phys [0 ..< PT_ENTRIES] st else VRet () st)
           (\<lambda>_ st1. vbind (vmm_free_frame env phys st1)
           (\<lambda>_ st2. destroy_table_recursive env level table is (upd_vm_mem (pt_set table i 0) st2))))"
  by pat_completeness auto
termination
  by (relation "measures [\<lambda>(env, level, table, is, st). level, \<lambda>(env, level, table, is, st). length is]") auto

fun destroy_user_half :: "vmm_env \<Rightarrow> u64 \<Rightarrow> nat list \<Rightarrow> vmm_st \<Rightarrow> unit vout" where
  "destroy_user_half env pml4 [] st = VRet () st"
| "destroy_user_half env pml4 (i # is) st =
     (let e = pt_get pml4 i (vm_mem st) in
      if \<not> has_flag e VMM_PRESENT then destroy_user_half env pml4 is st
      else vbind (destroy_table_recursive env 3 (table_of e) [0 ..< PT_ENTRIES] st)
           (\<lambda>_ st1. vbind (vmm_free_frame env (table_of e) st1)
           (\<lambda>_ st2. destroy_user_half env pml4 is (upd_vm_mem (pt_set pml4 i 0) st2))))"

definition vmm_destroy_pml4 :: "vmm_env \<Rightarrow> u64 \<Rightarrow> vmm_st \<Rightarrow> unit vout" where
  "vmm_destroy_pml4 env pml4_phys st =
     (if table_of (read_cr3 st) = table_of pml4_phys then VRet () st
      else vbind (destroy_user_half env pml4_phys [0 ..< 256] st) (\<lambda>_ st1. vmm_free_frame env pml4_phys st1))"

text \<open>The offset of the direct map is the argument; \<open>None\<close> is a missing boot loader response.\<close>

definition vmm_init :: "u64 \<Rightarrow> u64 option \<Rightarrow> vmm_st \<Rightarrow> unit vout" where
  "vmm_init epoch hhdm st =
     (case hhdm of
        None \<Rightarrow> VPanic
      | Some offset \<Rightarrow>
          (case pmm_alloc epoch COLOR_VOID 0 (vm_pmm st) of (phys, pm) \<Rightarrow>
             let st1 = upd_vm_mem (fast_zero (unat phys) PAGE_SIZE) (st\<lparr>vm_pmm := pm, vm_hhdm_offset := offset, vm_kernel_pml4 := Some phys\<rparr>);
                 old = read_cr3 st;
                 st2 = upd_vm_mem (fold (\<lambda>i m. let e = pt_get old i m in
                         if has_flag e VMM_PRESENT then pt_set phys i e m else m) [0 ..< 512]) st1
             in case vmm_switch phys PCID_KERNEL MODE_KERNEL (vm_switch st2) of
                  None \<Rightarrow> VPanic
                | Some sw \<Rightarrow> VRet () (st2\<lparr>vm_switch := sw\<rparr>)))"

section \<open>Page faults\<close>

definition copy_page :: "u64 \<Rightarrow> u64 \<Rightarrow> bmem \<Rightarrow> bmem" where
  "copy_page dst src m = write_bytes (unat dst) (map (\<lambda>k. m (unat src + k)) [0 ..< PAGE_SIZE]) m"

definition vmm_handle_fault :: "u64 \<Rightarrow> process_t option \<Rightarrow> u64 \<Rightarrow> u64 \<Rightarrow> vmm_st \<Rightarrow> bool \<times> vmm_st" where
  "vmm_handle_fault epoch proc vaddr error_code st =
     (let virt = table_of vaddr; m = vm_mem st;
          e4 = pt_get (table_of (read_cr3 st)) (pml4_index virt) m in
      if \<not> has_flag e4 VMM_PRESENT then (False, st)
      else let e3 = pt_get (table_of e4) (pdpt_index virt) m in
      if \<not> has_flag e3 VMM_PRESENT then (False, st)
      else let e2 = pt_get (table_of e3) (pd_index virt) m in
      if \<not> has_flag e2 VMM_PRESENT then (False, st)
      else if has_flag e2 VMM_HUGE then (False, st)
      else let pt = table_of e2; i = pt_index virt; entry = pt_get pt i m in
      if \<not> has_flag entry VMM_PRESENT \<and> has_flag entry VMM_DEMAND then
        (case pmm_alloc epoch (proc_color proc) (proc_pid proc) (vm_pmm st) of (new_frame, pm) \<Rightarrow>
           let st1 = st\<lparr>vm_pmm := pm\<rparr> in
           if new_frame = 0 then (False, st1)
           else (True, cpu_tlb_shootdown_page virt
                  (upd_vm_mem (pt_set pt i (table_of new_frame OR (entry AND 0xFFF) OR VMM_PRESENT))
                    (upd_vm_mem (hyper_scrub (unat new_frame) (PAGE_SIZE div 8)) st1))))
      else if has_flag entry VMM_PRESENT \<and> has_flag entry VMM_COW \<and> has_flag error_code 2 \<and> \<not> has_flag entry VMM_WRITABLE then
        (case pmm_alloc epoch (proc_color proc) (proc_pid proc) (vm_pmm st) of (new_frame, pm) \<Rightarrow>
           let st1 = st\<lparr>vm_pmm := pm\<rparr> in
           if new_frame = 0 then (False, st1)
           else (True, cpu_tlb_shootdown_page virt
                  (upd_vm_mem (pt_set pt i ((new_frame AND 0x000FFFFFFFFFF000) OR (entry AND 0xFFF AND NOT VMM_COW) OR VMM_WRITABLE OR VMM_PRESENT))
                    (upd_vm_mem (copy_page new_frame (entry AND 0x000FFFFFFFFFF000)) st1))))
      else (False, st))"

end
