(* ===== verification/Vmm_Inv.thy ===== *)
theory Vmm_Inv
  imports Vmm
begin

text \<open>
  Address spaces as trees of page tables.  Each entry is named by the path of indices that leads to it; writing one entry
  changes the entry at one path and nothing else.  On this rest the facts about allocating a level of the
  tree and about what an address space maps.
\<close>

section \<open>Words in memory\<close>

lemma bit_read_word_upt:
  "bit (foldr (\<lambda>i w. push_bit 8 w OR ucast (m (a + i))) [j ..< j + n] (0 :: u64)) k
   = (k < 64 \<and> k < 8 * n \<and> bit (m (a + j + k div 8) :: u8) (k mod 8))"
proof (induction n arbitrary: j k)
  case (Suc n)
  have "[j ..< j + Suc n] = j # [Suc j ..< Suc j + n]" by (simp add: upt_rec)
  then have step: "foldr f [j ..< j + Suc n] 0 = f j (foldr f [Suc j ..< Suc j + n] 0)" for f :: "nat \<Rightarrow> u64 \<Rightarrow> u64" by simp
  show ?case
  proof (cases "k < 8")
    case True
    then show ?thesis unfolding step by (simp add: bit_simps)
  next
    case False
    then obtain l where l: "k = 8 + l" using le_Suc_ex not_less by blast
    define w where "w = foldr (\<lambda>i w. push_bit 8 w OR ucast (m (a + i))) [Suc j ..< Suc j + n] (0 :: u64)"
    have "bit w l = (l < 64 \<and> l < 8 * n \<and> bit (m (a + Suc j + l div 8)) (l mod 8))" unfolding w_def by (rule Suc.IH)
    moreover have "(8 + l) div 8 = Suc (l div 8)" by simp
    moreover have "\<not> bit (x :: u8) (8 + l)" for x using bit_imp_le_length[of x "8 + l"] by auto
    ultimately show ?thesis unfolding step w_def[symmetric] by (auto simp: l bit_simps)
  qed
qed simp

lemma bit_read_word: "bit (read_word a n m) k = (k < 64 \<and> k < 8 * n \<and> bit (m (a + k div 8)) (k mod 8))"
  using bit_read_word_upt[of m a 0 n k] by (simp add: read_word_def)

lemma read_word_cong: "(\<And>x. a \<le> x \<Longrightarrow> x < a + n \<Longrightarrow> m x = m' x) \<Longrightarrow> read_word a n m = read_word a n m'"
  by (rule bit_word_eqI) (auto simp: bit_read_word)

lemma read_write_word [simp]: "read_word a 8 (write_bytes a (le_bytes 8 (v :: u64)) m) = v"
proof (rule bit_word_eqI)
  fix k :: nat assume "k < LENGTH(64)"
  moreover have "8 * (k div 8) + k mod 8 = k" by simp
  ultimately show "bit (read_word a 8 (write_bytes a (le_bytes 8 v) m)) k = bit v k"
    by (auto simp: bit_read_word write_bytes_def le_bytes_def bit_simps)
qed

lemma read_word_zero: "(\<And>x. a \<le> x \<Longrightarrow> x < a + n \<Longrightarrow> m x = 0) \<Longrightarrow> read_word a n m = 0"
  by (rule bit_word_eqI) (auto simp: bit_read_word)

lemma pt_get_set: "pt_get t i (pt_set t i v m) = v"
  by (simp add: pt_get_def pt_set_def)

lemma pt_get_cong:
  assumes "i < 512" and "\<And>x. x \<in> page (unat t) \<Longrightarrow> m x = m' x"
  shows "pt_get t i m = pt_get t i m'"
  unfolding pt_get_def by (rule read_word_cong, rule assms(2)) (use assms(1) in \<open>auto simp: page_def PAGE_SIZE_def\<close>)

lemma pt_set_outside: "i < 512 \<Longrightarrow> x \<notin> page (unat t) \<Longrightarrow> pt_set t i v m x = m x"
  by (auto simp: pt_set_def write_bytes_def page_def PAGE_SIZE_def)

lemma pt_get_set_index: "i \<noteq> j \<Longrightarrow> pt_get t j (pt_set t i v m) = pt_get t j m"
  unfolding pt_get_def by (rule read_word_cong) (auto simp: pt_set_def write_bytes_def)

lemma pt_get_set_table:
  assumes "unat t mod PAGE_SIZE = 0" and "unat s mod PAGE_SIZE = 0" and "s \<noteq> t" and "i < 512" and "j < 512"
  shows "pt_get s j (pt_set t i v m) = pt_get s j m"
proof (rule pt_get_cong[OF assms(5)])
  fix x assume "x \<in> page (unat s)"
  then have "x \<notin> page (unat t)" using page_disjoint[OF assms(2,1)] assms(3) by (auto simp: word_unat_eq_iff)
  then show "pt_set t i v m x = m x" by (rule pt_set_outside[OF assms(4)])
qed

section \<open>Entries by path\<close>

text \<open>
  A table is named by the indices that lead to it from the root, the last index first.  A present entry leads on, except
  a huge one in a page directory.  The set \<open>H\<close> is the part of the root that is looked at.
\<close>

definition leads :: "nat \<Rightarrow> u64 \<Rightarrow> bool" where
  "leads k e \<longleftrightarrow> has_flag e VMM_PRESENT \<and> (k = 2 \<longrightarrow> \<not> has_flag e VMM_HUGE)"

fun node :: "u64 \<Rightarrow> bmem \<Rightarrow> nat list \<Rightarrow> u64 option" where
  "node root m [] = Some root"
| "node root m (i # p) =
     (case node root m p of
        None \<Rightarrow> None
      | Some t \<Rightarrow> if leads (length p) (pt_get t i m) then Some (table_of (pt_get t i m)) else None)"

fun entry_at :: "u64 \<Rightarrow> bmem \<Rightarrow> nat list \<Rightarrow> u64" where
  "entry_at root m [] = 0"
| "entry_at root m (i # p) = (case node root m p of None \<Rightarrow> 0 | Some t \<Rightarrow> pt_get t i m)"

definition path_ok :: "nat set \<Rightarrow> nat list \<Rightarrow> bool" where
  "path_ok H p \<longleftrightarrow> (\<forall>i\<in>set p. i < 512) \<and> (p \<noteq> [] \<longrightarrow> last p \<in> H)"

definition pt_tree :: "nat set \<Rightarrow> u64 \<Rightarrow> u64 set \<Rightarrow> bmem \<Rightarrow> bool" where
  "pt_tree H root U m \<longleftrightarrow>
     (\<forall>p t. path_ok H p \<longrightarrow> length p \<le> 3 \<longrightarrow> node root m p = Some t \<longrightarrow> t \<in> U) \<and>
     (\<forall>p q t. path_ok H p \<longrightarrow> path_ok H q \<longrightarrow> length p \<le> 3 \<longrightarrow> length q \<le> 3 \<longrightarrow>
        node root m p = Some t \<longrightarrow> node root m q = Some t \<longrightarrow> p = q)"

lemma path_ok_Cons: "path_ok H (i # p) \<Longrightarrow> path_ok H p" "path_ok H (i # p) \<Longrightarrow> i < 512"
  "path_ok H p \<Longrightarrow> i < 512 \<Longrightarrow> (p = [] \<Longrightarrow> i \<in> H) \<Longrightarrow> path_ok H (i # p)"
  by (auto simp: path_ok_def)

lemma pt_treeD:
  assumes "pt_tree H root U m"
  shows "path_ok H p \<Longrightarrow> length p \<le> 3 \<Longrightarrow> node root m p = Some t \<Longrightarrow> t \<in> U"
    and "path_ok H p \<Longrightarrow> path_ok H q \<Longrightarrow> length p \<le> 3 \<Longrightarrow> length q \<le> 3 \<Longrightarrow> node root m p = Some t \<Longrightarrow> node root m q = Some t \<Longrightarrow> p = q"
  using assms unfolding pt_tree_def by blast+

lemma node_entry: "node root m (i # p) = (if leads (length p) (entry_at root m (i # p)) then Some (table_of (entry_at root m (i # p))) else None)"
  by (simp add: leads_def has_flag_def split: option.splits)

text \<open>Memory that agrees on the tables gives the same entries.\<close>

lemma node_cong:
  assumes "\<And>p t. path_ok H p \<Longrightarrow> length p \<le> 3 \<Longrightarrow> node root m p = Some t \<Longrightarrow> (\<forall>x\<in>page (unat t). m' x = m x)"
    and "path_ok H q" and "length q \<le> 4"
  shows "node root m' q = node root m q" and "entry_at root m' q = entry_at root m q"
proof -
  have get: "pt_get t i m' = pt_get t i m" if "path_ok H p" "length p \<le> 3" "node root m p = Some t" "i < 512" for p t i
    by (rule pt_get_cong[OF that(4)]) (use assms(1)[OF that(1-3)] in auto)
  have nodes: "node root m' p = node root m p" if "path_ok H p" "length p \<le> 4" for p
    using that
  proof (induction p)
    case (Cons i p)
    then have p: "path_ok H p" "i < 512" and IH: "node root m' p = node root m p" using path_ok_Cons(1,2)[OF Cons.prems(1)] by auto
    show ?case
    proof (cases "node root m p")
      case (Some t)
      then show ?thesis using get[OF p(1) _ Some p(2)] Cons.prems IH by simp
    qed (simp add: IH)
  qed simp
  show "node root m' q = node root m q" by (rule nodes[OF assms(2,3)])
  show "entry_at root m' q = entry_at root m q"
  proof (cases q)
    case (Cons i p)
    then have p: "path_ok H p" "i < 512" "length p \<le> 3" using assms(2,3) path_ok_Cons(1,2)[of H i p] by auto
    show ?thesis using nodes[OF p(1)] get[OF p(1,3) _ p(2)] p(3) Cons by (auto split: option.splits)
  qed simp
qed

lemma pt_tree_cong:
  assumes "pt_tree H root U m" and "U \<subseteq> U'" and "\<forall>t\<in>U. \<forall>x\<in>page (unat t). m' x = m x"
  shows "pt_tree H root U' m'" and "path_ok H q \<Longrightarrow> length q \<le> 4 \<Longrightarrow> entry_at root m' q = entry_at root m q"
    and "path_ok H q \<Longrightarrow> length q \<le> 4 \<Longrightarrow> node root m' q = node root m q"
proof -
  have same: "path_ok H q \<Longrightarrow> length q \<le> 4 \<Longrightarrow> node root m' q = node root m q \<and> entry_at root m' q = entry_at root m q" for q
    using node_cong[of H root m m' q] assms(3) pt_treeD(1)[OF assms(1)] by blast
  then show "path_ok H q \<Longrightarrow> length q \<le> 4 \<Longrightarrow> entry_at root m' q = entry_at root m q"
    and "path_ok H q \<Longrightarrow> length q \<le> 4 \<Longrightarrow> node root m' q = node root m q" by auto
  show "pt_tree H root U' m'"
    unfolding pt_tree_def using same assms(2) pt_treeD[OF assms(1)] by (auto simp: le_Suc_eq)
qed

text \<open>
  Writing one entry that led nowhere, with a value that leads nowhere or to an empty table not in the tree,
  changes that entry and no other.
\<close>

lemma write_entry:
  assumes tree: "pt_tree H root U m" and al: "\<forall>t\<in>U. unat t mod PAGE_SIZE = 0"
    and p: "path_ok H (i # p)" "length p \<le> 3" and t: "node root m p = Some t"
    and old: "length p < 3 \<Longrightarrow> \<not> leads (length p) (entry_at root m (i # p))"
    and new: "length p < 3 \<Longrightarrow> leads (length p) v \<Longrightarrow> table_of v \<in> U \<and> (\<forall>j<512. pt_get (table_of v) j m = 0) \<and>
        (\<forall>q. path_ok H q \<longrightarrow> length q \<le> 3 \<longrightarrow> node root m q \<noteq> Some (table_of v))"
  shows "pt_tree H root U (pt_set t i v m)"
    and "path_ok H q \<Longrightarrow> length q \<le> 4 \<Longrightarrow> entry_at root (pt_set t i v m) q = (if q = i # p then v else entry_at root m q)"
    and "path_ok H q \<Longrightarrow> length q \<le> 3 \<Longrightarrow> node root (pt_set t i v m) q =
      (if q = i # p then (if leads (length p) v then Some (table_of v) else None) else node root m q)"
proof -
  let ?m = "pt_set t i v m"
  let ?N = "\<lambda>q. if q = i # p then (if leads (length p) v then Some (table_of v) else None) else node root m q"
  have pp: "path_ok H p" "i < 512" using path_ok_Cons(1,2)[OF p(1)] by auto
  have get: "pt_get s j ?m = (if q = p \<and> j = i then v else pt_get s j m)"
    if q: "path_ok H q" "length q \<le> 3" "node root m q = Some s" "j < 512" for q s j
  proof (cases "s = t")
    case True
    then have "q = p" using pt_treeD(2)[OF tree q(1) pp(1) q(2) p(2) q(3)] t by simp
    then show ?thesis using True by (auto simp: pt_get_set pt_get_set_index)
  next
    case False
    then show ?thesis using q t pt_get_set_table[of t s i j v m] al pt_treeD(1)[OF tree] pp p(2) by auto
  qed
  show N: "node root ?m q = ?N q" if "path_ok H q" "length q \<le> 3" for q
    using that
  proof (induction q)
    case (Cons j q)
    then have q: "path_ok H q" "j < 512" "length q \<le> 2" and IH: "node root ?m q = ?N q" using path_ok_Cons(1,2)[OF Cons.prems(1)] by auto
    show ?case
    proof (cases "q = i # p")
      case True
      then have lp: "length p < 3" using q(3) by simp
      then have none: "node root m q = None" using old True node_entry[of root m i p] by simp
      have "pt_get (table_of v) j ?m = 0" if "leads (length p) v"
        using new[OF lp that] q(2) pt_get_set_table[of t "table_of v" i j v m] al pt_treeD(1)[OF tree pp(1) p(2) t] t pp p(2) by auto
      moreover have "\<not> leads k 0" for k by (simp add: leads_def has_flag_def)
      ultimately have "node root ?m (j # q) = None" using IH True by auto
      then show ?thesis using none True by simp
    next
      case False
      then have IH': "node root ?m q = node root m q" using IH by simp
      show ?thesis using get[OF q(1)] q IH' t by (auto split: option.splits)
    qed
  qed simp
  show "entry_at root ?m q = (if q = i # p then v else entry_at root m q)" if "path_ok H q" "length q \<le> 4"
  proof (cases q)
    case (Cons j r)
    then have r: "path_ok H r" "j < 512" "length r \<le> 3" using that path_ok_Cons(1,2)[of H j r] by auto
    show ?thesis
    proof (cases "r = i # p")
      case True
      then have lp: "length p < 3" using r(3) by simp
      then have none: "node root m r = None" using old True node_entry[of root m i p] by simp
      have "pt_get (table_of v) j ?m = 0" if "leads (length p) v"
        using new[OF lp that] r(2) pt_get_set_table[of t "table_of v" i j v m] al pt_treeD(1)[OF tree pp(1) p(2) t] t pp p(2) by auto
      then show ?thesis using N[OF r(1,3)] none True Cons by auto
    next
      case False
      then show ?thesis using N[OF r(1,3)] get[OF r(1,3) _ r(2)] t Cons by (auto split: option.splits)
    qed
  qed simp
  show "pt_tree H root U ?m"
    unfolding pt_tree_def
  proof (intro conjI allI impI)
    fix q s assume q: "path_ok H q" "length q \<le> 3" "node root ?m q = Some s"
    then show "s \<in> U" using N[OF q(1,2)] pt_treeD(1)[OF tree q(1,2)] new by (auto split: if_splits)
  next
    fix q r s assume q: "path_ok H q" "path_ok H r" "length q \<le> 3" "length r \<le> 3" "node root ?m q = Some s" "node root ?m r = Some s"
    then show "q = r" using N[OF q(1,3)] N[OF q(2,4)] pt_treeD(2)[OF tree q(1-4)] new by (auto split: if_splits)
  qed
qed


section \<open>What an address space maps\<close>

definition vpath :: "u64 \<Rightarrow> nat list" where
  "vpath v = [pt_index v, pd_index v, pdpt_index v, pml4_index v]"

definition mapped :: "u64 \<Rightarrow> bmem \<Rightarrow> u64 \<Rightarrow> u64 option" where
  "mapped root m v = (case vmm_walk_leaf_noalloc (Some root) v m of
     None \<Rightarrow> None | Some (t, i) \<Rightarrow> if has_flag (pt_get t i m) VMM_PRESENT then Some (pt_get t i m) else None)"

definition huge_at :: "u64 \<Rightarrow> bmem \<Rightarrow> u64 \<Rightarrow> bool" where
  "huge_at root m v \<longleftrightarrow> (let e = entry_at root m (tl (vpath v)) in has_flag e VMM_PRESENT \<and> has_flag e VMM_HUGE)"

definition same_view :: "u64 \<Rightarrow> bmem \<Rightarrow> bmem \<Rightarrow> u64 \<Rightarrow> bool" where
  "same_view root m m' v \<longleftrightarrow> mapped root m' v = mapped root m v \<and> huge_at root m' v = huge_at root m v"

lemma has_flag_0 [simp]: "\<not> has_flag 0 f" "\<not> leads k 0"
  by (simp_all add: has_flag_def leads_def)

lemma mask_lt_512: "unat (w AND 0x1FF :: u64) < 512"
proof -
  have "w AND 0x1FF = take_bit 9 w" by (simp add: take_bit_eq_mask mask_eq_exp_minus_1)
  moreover have "unat (take_bit 9 w) < 2 ^ 9" using take_bit_nat_less_exp[of 9 "unat w"] by (simp add: unsigned_take_bit_eq)
  ultimately show ?thesis by simp
qed

lemma index_bounds [simp]: "pml4_index v < 512" "pdpt_index v < 512" "pd_index v < 512" "pt_index v < 512"
  by (simp_all add: pml4_index_def pdpt_index_def pd_index_def pt_index_def mask_lt_512)

lemma vpath_ok: "pml4_index v \<in> H \<Longrightarrow> path_ok H (vpath v) \<and> path_ok H (tl (vpath v)) \<and> path_ok H (tl (tl (vpath v))) \<and> path_ok H [pml4_index v]"
  by (simp add: path_ok_def vpath_def)

lemma vpath_length [simp]: "length (vpath v) = 4"
  by (simp add: vpath_def)

lemma leaf_entry: "entry_at root m (vpath v) = (case node root m (tl (vpath v)) of None \<Rightarrow> 0 | Some t \<Rightarrow> pt_get t (pt_index v) m)"
  by (simp add: vpath_def)

lemma leaf_table: "node root m (tl (vpath v)) =
    (if leads 2 (entry_at root m (tl (vpath v))) then Some (table_of (entry_at root m (tl (vpath v)))) else None)"
  using node_entry[of root m "pd_index v" "[pdpt_index v, pml4_index v]"] by (simp add: vpath_def numeral_2_eq_2 del: node.simps entry_at.simps)

lemma walk_node:
  "vmm_walk_leaf_noalloc (Some root) v m =
     (case node root m [pdpt_index v, pml4_index v] of
        None \<Rightarrow> None
      | Some pd \<Rightarrow> if \<not> has_flag (pt_get pd (pd_index v) m) VMM_PRESENT then None
                   else if huge_at root m v then Some (pd, pd_index v)
                   else Some (table_of (pt_get pd (pd_index v) m), pt_index v))"
  by (auto simp: vmm_walk_leaf_noalloc_def Let_def leads_def huge_at_def vpath_def)

lemma mapped_entries:
  "mapped root m v = (if huge_at root m v then Some (entry_at root m (tl (vpath v)))
     else if has_flag (entry_at root m (vpath v)) VMM_PRESENT then Some (entry_at root m (vpath v)) else None)"
  unfolding mapped_def walk_node by (auto simp: huge_at_def vpath_def Let_def leads_def split: option.splits)

lemma leaf_present_mapped: "leaf_present (Some root) v m \<longleftrightarrow> mapped root m v \<noteq> None"
  by (auto simp: leaf_present_def mapped_def split: option.splits)

section \<open>Steps that keep an address space\<close>

definition tables :: "nat set \<Rightarrow> u64 \<Rightarrow> bmem \<Rightarrow> u64 set" where
  "tables H root m = {t. \<exists>p. path_ok H p \<and> length p \<le> 3 \<and> node root m p = Some t}"

definition vm_ok :: "nat set \<Rightarrow> u64 \<Rightarrow> vmm_st \<Rightarrow> bool" where
  "vm_ok H root st \<longleftrightarrow> pmm_inv (vm_pmm st) \<and> pt_tree H root (used_frames (vm_pmm st)) (vm_mem st)"

text \<open>No frame in use is given up, none in use becomes a table, and only tables change.\<close>

definition vm_step :: "nat set \<Rightarrow> u64 \<Rightarrow> vmm_st \<Rightarrow> vmm_st \<Rightarrow> bool" where
  "vm_step H root st st' \<longleftrightarrow> vm_ok H root st' \<and> used_frames (vm_pmm st) \<subseteq> used_frames (vm_pmm st') \<and>
     tables H root (vm_mem st') \<inter> used_frames (vm_pmm st) \<subseteq> tables H root (vm_mem st) \<and>
     (\<forall>t \<in> used_frames (vm_pmm st) - tables H root (vm_mem st). \<forall>x \<in> page (unat t). vm_mem st' x = vm_mem st x) \<and>
     vm_kernel_pml4 st' = vm_kernel_pml4 st"

lemma vm_step_refl: "vm_ok H root st \<Longrightarrow> vm_step H root st st"
  by (auto simp: vm_step_def)

lemma vm_step_trans: "vm_step H root a b \<Longrightarrow> vm_step H root b c \<Longrightarrow> vm_step H root a c"
  unfolding vm_step_def
proof (elim conjE, intro conjI ballI)
  fix t x assume t: "t \<in> used_frames (vm_pmm a) - tables H root (vm_mem a)" and x: "x \<in> page (unat t)"
    and ab: "used_frames (vm_pmm a) \<subseteq> used_frames (vm_pmm b)" "tables H root (vm_mem b) \<inter> used_frames (vm_pmm a) \<subseteq> tables H root (vm_mem a)"
      "\<forall>t\<in>used_frames (vm_pmm a) - tables H root (vm_mem a). \<forall>x\<in>page (unat t). vm_mem b x = vm_mem a x"
    and bc: "\<forall>t\<in>used_frames (vm_pmm b) - tables H root (vm_mem b). \<forall>x\<in>page (unat t). vm_mem c x = vm_mem b x"
  have "t \<in> used_frames (vm_pmm b) - tables H root (vm_mem b)" using t ab(1,2) by blast
  then show "vm_mem c x = vm_mem a x" using bc ab(3) t x by simp
qed (auto simp: subset_iff)

lemma vm_step_ok: "vm_step H root a b \<Longrightarrow> vm_ok H root b"
  by (simp add: vm_step_def)

lemma vm_mem_upd [simp]: "vm_mem (upd_vm_mem f st) = f (vm_mem st)"
  "used_frames (vm_pmm (upd_vm_mem f st)) = used_frames (vm_pmm st)" "pmm_inv (vm_pmm (upd_vm_mem f st)) = pmm_inv (vm_pmm st)"
  "vm_kernel_pml4 (upd_vm_mem f st) = vm_kernel_pml4 st" "vm_mem (st\<lparr>vm_pmm := pm\<rparr>) = pm_mem pm"
  by (simp_all add: vm_mem_def upd_vm_mem_def)

lemma used_aligned: "\<forall>t\<in>used_frames pm. unat t mod PAGE_SIZE = 0"
  by (simp add: used_frames_def)

lemma frames_apart: "s \<in> used_frames pm \<Longrightarrow> t \<in> used_frames pm \<Longrightarrow> s \<noteq> t \<Longrightarrow> page (unat s) \<inter> page (unat t) = {}"
  by (rule page_disjoint) (auto simp: used_frames_def dest: unsigned_word_eqI)

lemma write_step:
  assumes ok: "vm_ok H root st" and p: "path_ok H (i # p)" "length p \<le> 3" and t: "node root (vm_mem st) p = Some t"
    and old: "length p < 3 \<Longrightarrow> \<not> leads (length p) (entry_at root (vm_mem st) (i # p))"
    and new: "length p < 3 \<Longrightarrow> \<not> leads (length p) v"
  shows "vm_step H root st (upd_vm_mem (pt_set t i v) st)"
    and "path_ok H q \<Longrightarrow> length q \<le> 4 \<Longrightarrow> entry_at root (vm_mem (upd_vm_mem (pt_set t i v) st)) q = (if q = i # p then v else entry_at root (vm_mem st) q)"
proof -
  let ?U = "used_frames (vm_pmm st)"
  have tree: "pt_tree H root ?U (vm_mem st)" and inv: "pmm_inv (vm_pmm st)" using ok by (simp_all add: vm_ok_def)
  note W = write_entry[OF tree used_aligned p t old, where v = v]
  have new': "length p < 3 \<Longrightarrow> leads (length p) v \<Longrightarrow> table_of v \<in> ?U \<and> (\<forall>j<512. pt_get (table_of v) j (vm_mem st) = 0) \<and>
        (\<forall>q. path_ok H q \<longrightarrow> length q \<le> 3 \<longrightarrow> node root (vm_mem st) q \<noteq> Some (table_of v))" using new by blast
  show "entry_at root (vm_mem (upd_vm_mem (pt_set t i v) st)) q = (if q = i # p then v else entry_at root (vm_mem st) q)"
    if "path_ok H q" "length q \<le> 4" using W(2)[OF _ new' that] by simp
  have pp: "path_ok H p" "i < 512" using path_ok_Cons(1,2)[OF p(1)] by auto
  have tT: "t \<in> tables H root (vm_mem st)" using pp(1) p(2) t by (auto simp: tables_def)
  have nodes: "path_ok H q \<Longrightarrow> length q \<le> 3 \<Longrightarrow> node root (pt_set t i v (vm_mem st)) q = Some s \<Longrightarrow> node root (vm_mem st) q = Some s" for q s
    using W(3)[OF _ new', of q] new p(2) by (auto split: if_splits)
  have "x \<notin> page (unat t)" if "s \<in> ?U - tables H root (vm_mem st)" "x \<in> page (unat s)" for s x
    using frames_apart[of s "vm_pmm st" t] that tT pt_treeD(1)[OF tree pp(1) p(2) t] by blast
  then show "vm_step H root st (upd_vm_mem (pt_set t i v) st)"
    using W(1)[OF _ new'] inv nodes pt_set_outside[OF pp(2)] by (auto simp: vm_step_def vm_ok_def tables_def)
qed


text \<open>Entries that agree, but for one that was not present and now leads on, map the same.\<close>

lemma mapped_mid:
  assumes "pml4_index v \<in> H" and "length q0 \<le> 3"
    and same: "\<And>q. path_ok H q \<Longrightarrow> length q \<le> 4 \<Longrightarrow> q \<noteq> q0 \<Longrightarrow> entry_at root m' q = entry_at root m q"
    and "\<not> has_flag (entry_at root m q0) VMM_PRESENT" and "leads (length q0 - 1) (entry_at root m' q0)"
  shows "same_view root m m' v"
proof -
  have e1: "entry_at root m' (vpath v) = entry_at root m (vpath v)"
    using same[of "vpath v"] vpath_ok[OF assms(1)] assms(2) by fastforce
  show ?thesis
  proof (cases "tl (vpath v) = q0")
    case True
    have "node root m (tl (vpath v)) = None"
      unfolding leaf_table using assms(4) True by (simp add: leads_def)
    then have "entry_at root m (vpath v) = 0" by (simp add: leaf_entry)
    moreover have "length q0 - 1 = 2" using True by auto
    then have "\<not> huge_at root m v" "\<not> huge_at root m' v" using assms(4,5) True by (auto simp: huge_at_def leads_def Let_def)
    ultimately show ?thesis using e1 by (simp add: mapped_entries same_view_def)
  next
    case False
    then have "entry_at root m' (tl (vpath v)) = entry_at root m (tl (vpath v))"
      using same[of "tl (vpath v)"] vpath_ok[OF assms(1)] by simp
    then show ?thesis using e1 by (simp add: mapped_entries huge_at_def Let_def same_view_def)
  qed
qed

text \<open>The entries are the same and nothing but the physical memory manager has moved.\<close>

lemma alloc_step:
  assumes ok: "vm_ok H root st" and run: "pmm_alloc epoch c ow (vm_pmm st) = (phys, pm)"
    and f: "\<forall>m x. f m x \<noteq> m x \<longrightarrow> phys \<noteq> 0 \<and> x \<in> page (unat phys)"
  shows "vm_step H root st (upd_vm_mem f (st\<lparr>vm_pmm := pm\<rparr>))"
    and "path_ok H q \<Longrightarrow> length q \<le> 4 \<Longrightarrow> entry_at root (f (pm_mem pm)) q = entry_at root (vm_mem st) q"
    and "path_ok H q \<Longrightarrow> length q \<le> 4 \<Longrightarrow> node root (f (pm_mem pm)) q = node root (vm_mem st) q"
    and "phys \<noteq> 0 \<Longrightarrow> path_ok H q \<Longrightarrow> length q \<le> 3 \<Longrightarrow> node root (vm_mem st) q \<noteq> Some phys"
proof -
  let ?U = "used_frames (vm_pmm st)"
  have tree: "pt_tree H root ?U (vm_mem st)" and inv: "pmm_inv (vm_pmm st)" using ok by (simp_all add: vm_ok_def)
  note A = pmm_alloc_frame[OF inv run]
  have same: "f (pm_mem pm) x = vm_mem st x" if "t \<in> ?U" "x \<in> page (unat t)" for t x
  proof -
    have "f (pm_mem pm) x = pm_mem pm x"
    proof (rule ccontr)
      assume "f (pm_mem pm) x \<noteq> pm_mem pm x"
      then have "phys \<noteq> 0" "x \<in> page (unat phys)" using f by auto
      then show False using frames_apart[of t pm phys] A(2,3) that by blast
    qed
    then show ?thesis using A(4)[OF that] by (simp add: vm_mem_def)
  qed
  have "\<forall>t\<in>?U. \<forall>x\<in>page (unat t). f (pm_mem pm) x = vm_mem st x" using same by blast
  note C = pt_tree_cong[OF tree A(2) this]
  show entries: "path_ok H q \<Longrightarrow> length q \<le> 4 \<Longrightarrow> entry_at root (f (pm_mem pm)) q = entry_at root (vm_mem st) q"
    and nodes: "path_ok H q \<Longrightarrow> length q \<le> 4 \<Longrightarrow> node root (f (pm_mem pm)) q = node root (vm_mem st) q" for q using C(2,3) by blast+
  show "phys \<noteq> 0 \<Longrightarrow> path_ok H q \<Longrightarrow> length q \<le> 3 \<Longrightarrow> node root (vm_mem st) q \<noteq> Some phys"
    using A(3) pt_treeD(1)[OF tree] by blast
  have "tables H root (f (pm_mem pm)) = tables H root (vm_mem st)" using nodes by (auto simp: tables_def)
  then show "vm_step H root st (upd_vm_mem f (st\<lparr>vm_pmm := pm\<rparr>))"
    using A(1,2) C(1) same by (auto simp: vm_step_def vm_ok_def)
qed


section \<open>Flags\<close>

lemma bit_table_of: "bit (table_of e) k \<longleftrightarrow> bit e k \<and> 12 \<le> k"
proof -
  have eq: "(0xFFF :: u64) = mask 12" by (simp add: mask_eq_exp_minus_1)
  have "bit (0xFFF :: u64) k \<longleftrightarrow> k < 12" unfolding eq by (auto simp: bit_mask_iff)
  then show ?thesis unfolding table_of_def bit_and_iff bit_not_iff using bit_imp_le_length[of e k] by auto
qed

lemma table_of_or: "table_of (a OR b) = table_of a OR table_of b"
  by (rule bit_word_eqI) (auto simp: bit_table_of bit_simps)

lemma has_flag_or: "has_flag (a OR b) f \<longleftrightarrow> has_flag a f \<or> has_flag b f"
proof -
  have "(a OR b) AND f = (a AND f) OR (b AND f)" by (rule bit_word_eqI) (auto simp: bit_simps)
  then show ?thesis by (simp add: has_flag_def or_eq_0_iff)
qed

lemma aligned_table_of:
  assumes "unat e mod PAGE_SIZE = 0" shows "table_of e = e"
proof -
  have "unat (take_bit 12 e) = 0" 
    unfolding unsigned_take_bit_eq using assms by (simp add: take_bit_eq_mod PAGE_SIZE_def)
  then have "take_bit 12 e = 0" by (simp add: unsigned_eq_0_iff)
  then have "\<not> bit e k" if "k < 12" for k using that by (metis bit_take_bit_iff bit_0_eq bot_apply bot_bool_def)
  then show ?thesis by (intro bit_word_eqI) (use not_le in \<open>auto simp: bit_table_of\<close>)
qed

lemma aligned_no_flag:
  assumes "table_of e = e" and "table_of f = 0" shows "\<not> has_flag e f"
proof -
  have e: "bit e k \<Longrightarrow> 12 \<le> k" for k using assms(1) bit_table_of[of e k] by simp
  have f: "bit f k \<Longrightarrow> k < 12" for k using assms(2) bit_table_of[of f k] by (metis bit_0_eq bot_apply bot_bool_def not_le)
  have "e AND f = 0" by (rule bit_word_eqI) (use e f in \<open>fastforce simp: bit_simps\<close>)
  then show ?thesis by (simp add: has_flag_def)
qed

lemma flag_table_of [simp]: "table_of VMM_PRESENT = 0" "table_of VMM_WRITABLE = 0" "table_of VMM_USER = 0" "table_of VMM_HUGE = 0"
  "table_of VMM_DEMAND = 0" "table_of VMM_COW = 0" "table_of VMM_ACCESSED = 0" "table_of VMM_DIRTY = 0" "table_of 0 = 0"
  by (simp_all add: table_of_def vmm_flag_defs)

lemma flag_self [simp]: "has_flag VMM_PRESENT VMM_PRESENT" "\<not> has_flag VMM_PRESENT VMM_HUGE" "\<not> has_flag VMM_WRITABLE VMM_HUGE" "\<not> has_flag VMM_USER VMM_HUGE"
  by (simp_all add: has_flag_def vmm_flag_defs)

lemma table_entry:
  fixes k :: bool and phys :: u64
  assumes "unat phys mod PAGE_SIZE = 0"
  defines "e \<equiv> phys OR VMM_PRESENT OR VMM_WRITABLE OR (if k then 0 else VMM_USER)"
  shows "table_of e = phys" and "leads n e"
  using aligned_table_of[OF assms(1)] aligned_no_flag[OF aligned_table_of[OF assms(1)], of VMM_HUGE]
  by (auto simp: e_def table_of_or leads_def has_flag_or)

section \<open>Descending one level\<close>

text \<open>A fresh, zeroed table is entered where there was none.\<close>

lemma new_table_step:
  assumes ok: "vm_ok H root st" and p: "path_ok H (i # p)" "length p \<le> 2" and t: "node root (vm_mem st) p = Some t"
    and old: "\<not> has_flag (entry_at root (vm_mem st) (i # p)) VMM_PRESENT"
    and run: "pmm_alloc epoch c ow (vm_pmm st) = (phys, pm)" "phys \<noteq> 0"
    and e: "table_of e = phys" "leads (length p) e"
  defines "st' \<equiv> upd_vm_mem (pt_set t i e) (upd_vm_mem (fast_zero (unat phys) PAGE_SIZE) (st\<lparr>vm_pmm := pm\<rparr>))"
  shows "vm_step H root st st'" and "pml4_index v \<in> H \<Longrightarrow> same_view root (vm_mem st) (vm_mem st') v"
    and "node root (vm_mem st') (i # p) = Some phys"
proof -
  let ?z = "fast_zero (unat phys) PAGE_SIZE"
  let ?m = "?z (pm_mem pm)" and ?U = "used_frames (vm_pmm st)" and ?U' = "used_frames pm"
  have z: "\<forall>m x. ?z m x \<noteq> m x \<longrightarrow> phys \<noteq> 0 \<and> x \<in> page (unat phys)"
    using run(2) by (auto simp: fast_zero_def page_def PAGE_SIZE_def split: if_splits)
  note A = alloc_step[OF ok run(1) z] and P = pmm_alloc_frame[OF _ run(1)]
  have inv: "pmm_inv (vm_pmm st)" and tr: "pt_tree H root ?U (vm_mem st)" using ok by (simp_all add: vm_ok_def)
  have pp: "path_ok H p" "i < 512" "length p \<le> 3" using path_ok_Cons(1,2)[OF p(1)] p(2) by auto
  have tree: "pt_tree H root ?U' ?m" and st1: "vm_step H root st (upd_vm_mem ?z (st\<lparr>vm_pmm := pm\<rparr>))"
    using A(1) by (auto simp: vm_step_def vm_ok_def)
  have t1: "node root ?m p = Some t" using A(3)[OF pp(1)] t pp(3) by simp
  have zero: "\<forall>j<512. pt_get phys j ?m = 0"
    unfolding pt_get_def by (intro allI impI read_word_zero) (auto simp: fast_zero_def PAGE_SIZE_def)
  have old1: "\<not> leads (length p) (entry_at root ?m (i # p))" using old A(2)[OF p(1)] p(2) by (simp add: leads_def del: entry_at.simps)
  have fresh: "\<forall>q. path_ok H q \<longrightarrow> length q \<le> 3 \<longrightarrow> node root ?m q \<noteq> Some phys" using A(3,4) run(2) by fastforce
  have phys: "phys \<in> ?U'" "phys \<notin> ?U" using P(3)[OF inv run(2)] by auto
  note W = write_entry[OF tree used_aligned p(1) pp(3) t1, where v = e]
  have W1: "pt_tree H root ?U' (pt_set t i e ?m)"
    and W2: "path_ok H q \<Longrightarrow> length q \<le> 4 \<Longrightarrow> entry_at root (pt_set t i e ?m) q = (if q = i # p then e else entry_at root ?m q)"
    and W3: "path_ok H q \<Longrightarrow> length q \<le> 3 \<Longrightarrow> node root (pt_set t i e ?m) q = (if q = i # p then Some phys else node root ?m q)" for q
    using W(1) W(2)[of q] W(3)[of q] old1 e zero fresh phys by auto
  have mem: "vm_mem st' = pt_set t i e ?m" by (simp add: st'_def)
  show "node root (vm_mem st') (i # p) = Some phys" using W3[OF p(1)] p(2) by (simp add: mem del: node.simps)
  show "same_view root (vm_mem st) (vm_mem st') v" if "pml4_index v \<in> H"
    by (rule mapped_mid[OF that, of "i # p"]) (use p W2 A(2) old e in \<open>auto simp: mem simp del: entry_at.simps\<close>)
  have tabs: "tables H root (vm_mem st') \<inter> ?U \<subseteq> tables H root (vm_mem st)"
    using W3 A(3) phys(2) by (auto simp: tables_def mem split: if_splits)
  have "vm_mem st' x = vm_mem st x" if "s \<in> ?U - tables H root (vm_mem st)" "x \<in> page (unat s)" for s x
  proof -
    have "t \<in> tables H root (vm_mem st)" "t \<in> ?U" using pp t pt_treeD(1)[OF tr] by (auto simp: tables_def)
    then have "x \<notin> page (unat t)" using frames_apart[of s "vm_pmm st" t] that by blast
    then have "vm_mem st' x = ?m x" by (simp add: mem pt_set_outside pp(2))
    then show ?thesis using st1 that by (simp add: vm_step_def)
  qed
  moreover have "used_frames (vm_pmm st') = ?U'" "pmm_inv (vm_pmm st') = pmm_inv pm" "vm_kernel_pml4 st' = vm_kernel_pml4 st"
    by (simp_all add: st'_def)
  ultimately show "vm_step H root st st'" using tabs W1 P(1,2)[OF inv] by (simp add: vm_step_def vm_ok_def mem)
qed

lemma next_level_ok:
  assumes ok: "vm_ok H root st" and p: "path_ok H (i # p)" "length p \<le> 2" and t: "node root (vm_mem st) p = Some t"
    and nohuge: "has_flag (entry_at root (vm_mem st) (i # p)) VMM_PRESENT \<Longrightarrow> leads (length p) (entry_at root (vm_mem st) (i # p))"
    and run: "get_next_level epoch proc t i st = (r, st')"
  shows "vm_step H root st st'" and "pml4_index v \<in> H \<Longrightarrow> same_view root (vm_mem st) (vm_mem st') v"
    and "r = Some s \<Longrightarrow> node root (vm_mem st') (i # p) = Some s" and "\<exists>pm. st' = st\<lparr>vm_pmm := pm\<rparr>"
proof -
  have e: "entry_at root (vm_mem st) (i # p) = pt_get t i (vm_mem st)" using t by simp
  have "vm_step H root st st' \<and> (pml4_index v \<in> H \<longrightarrow> same_view root (vm_mem st) (vm_mem st') v) \<and>
    (r = Some s \<longrightarrow> node root (vm_mem st') (i # p) = Some s) \<and> (\<exists>pm. st' = st\<lparr>vm_pmm := pm\<rparr>)"
  proof (cases "has_flag (pt_get t i (vm_mem st)) VMM_PRESENT")
    case True
    then have rs: "r = Some (table_of (pt_get t i (vm_mem st)))" "st' = st" using run by (auto simp: get_next_level_def Let_def)
    moreover have "\<exists>pm. st = st\<lparr>vm_pmm := pm\<rparr>" by (rule exI[of _ "vm_pmm st"]) simp
    ultimately show ?thesis using vm_step_refl[OF ok] nohuge True e t by (auto simp: same_view_def)
  next
    case False
    obtain phys pm where al: "pmm_alloc epoch (proc_color proc) (proc_pid proc) (vm_pmm st) = (phys, pm)" by fastforce
    show ?thesis
    proof (cases "phys = 0")
      case True
      then have rs: "r = None" "st' = upd_vm_mem id (st\<lparr>vm_pmm := pm\<rparr>)" using run False al by (auto simp: get_next_level_def Let_def upd_vm_mem_def)
      have A: "vm_step H root st st'" and E: "path_ok H q \<Longrightarrow> length q \<le> 4 \<Longrightarrow> entry_at root (pm_mem pm) q = entry_at root (vm_mem st) q" for q
        using alloc_step(1,2)[OF ok al, of id] rs by auto
      show ?thesis using A E vpath_ok[of v H] rs by (auto simp: same_view_def mapped_entries huge_at_def Let_def upd_vm_mem_def)
    next
      case new: False
      then have rs: "r = Some phys" "st' = upd_vm_mem (pt_set t i (phys OR VMM_PRESENT OR VMM_WRITABLE OR (if proc = None then 0 else VMM_USER)))
          (upd_vm_mem (fast_zero (unat phys) PAGE_SIZE) (st\<lparr>vm_pmm := pm\<rparr>))"
        using run False al by (auto simp: get_next_level_def Let_def)
      have "unat phys mod PAGE_SIZE = 0" using pmm_alloc_frame(3)[OF _ al] ok new used_aligned by (auto simp: vm_ok_def)
      note E = table_entry[OF this, where k = "proc = None"]
      note N = new_table_step[OF ok p t _ al new E, folded rs(2)]
      have "\<exists>pm. st' = st\<lparr>vm_pmm := pm\<rparr>" by (rule exI[of _ "vm_pmm st'"]) (simp add: rs(2) upd_vm_mem_def)
      then show ?thesis using N(1) N(2)[of v] N(3) False[folded e] rs(1) by (simp del: node.simps entry_at.simps)
    qed
  qed
  then show "vm_step H root st st'" and "pml4_index v \<in> H \<Longrightarrow> same_view root (vm_mem st) (vm_mem st') v"
    and "r = Some s \<Longrightarrow> node root (vm_mem st') (i # p) = Some s" and "\<exists>pm. st' = st\<lparr>vm_pmm := pm\<rparr>" by blast+
qed

end
