(* ===== verification/Vmm_Map.thy ===== *)
theory Vmm_Map
  imports Vmm_Inv
begin

text \<open>
  Mapping and unmapping: what the contracts of \<^verbatim>\<open>vmm.c\<close> do to an address space.
\<close>

section \<open>One page\<close>

definition pte_value :: "u64 \<Rightarrow> u64 \<Rightarrow> u64" where
  "pte_value phys flags =
     (if has_flag flags VMM_DEMAND then flags AND (VMM_DEMAND OR VMM_COW OR VMM_USER OR VMM_WRITABLE)
      else (phys AND NOT 0xFFF) OR (flags AND (VMM_PRESENT OR VMM_WRITABLE OR VMM_USER OR VMM_NX OR VMM_ACCESSED OR VMM_DIRTY OR VMM_COW OR VMM_DEMAND)))"

lemma mapped_leaf:
  assumes "pml4_index v \<in> H" and "node root m (tl (vpath virt)) = Some pt"
    and same: "\<And>q. path_ok H q \<Longrightarrow> length q \<le> 4 \<Longrightarrow> entry_at root m' q = (if q = vpath virt then e else entry_at root m q)"
  shows "mapped root m' v = (if vpath v = vpath virt then (if has_flag e VMM_PRESENT then Some e else None) else mapped root m v)"
    and "huge_at root m' v = huge_at root m v"
proof -
  have ok: "path_ok H (vpath v)" "path_ok H (tl (vpath v))" using vpath_ok[OF assms(1)] by auto
  have "tl (vpath v) \<noteq> vpath virt" using vpath_length by (metis One_nat_def length_tl n_not_Suc_n Suc_pred' zero_less_numeral)
  then have e2: "entry_at root m' (tl (vpath v)) = entry_at root m (tl (vpath v))" using same[OF ok(2)] by simp
  then show "huge_at root m' v = huge_at root m v" by (simp add: huge_at_def)
  have "\<not> huge_at root m v" if "vpath v = vpath virt"
    using assms(2) that unfolding leaf_table by (auto simp: huge_at_def leads_def Let_def split: if_splits)
  then show "mapped root m' v = (if vpath v = vpath virt then (if has_flag e VMM_PRESENT then Some e else None) else mapped root m v)"
    using same[OF ok(1)] e2 by (auto simp: mapped_entries huge_at_def Let_def)
qed

text \<open>The three levels of tables above a leaf.\<close>

lemma descend_ok:
  assumes ok: "vm_ok H root st" and H: "pml4_index virt \<in> H" and free: "mapped root (vm_mem st) virt = None"
    and g1: "get_next_level epoch proc root (pml4_index virt) st = (r1, st1)"
    and g2: "get_next_level epoch proc (the r1) (pdpt_index virt) st1 = (r2, st2)"
    and g3: "get_next_level epoch proc (the r2) (pd_index virt) st2 = (r3, st3)"
  shows "vm_step H root st st1" and "r1 = Some pdpt \<Longrightarrow> vm_step H root st st2" and "r1 = Some pdpt \<Longrightarrow> r2 = Some pd \<Longrightarrow> vm_step H root st st3"
    and "pml4_index v \<in> H \<Longrightarrow> same_view root (vm_mem st) (vm_mem st1) v"
    and "pml4_index v \<in> H \<Longrightarrow> r1 = Some pdpt \<Longrightarrow> same_view root (vm_mem st) (vm_mem st2) v"
    and "pml4_index v \<in> H \<Longrightarrow> r1 = Some pdpt \<Longrightarrow> r2 = Some pd \<Longrightarrow> same_view root (vm_mem st) (vm_mem st3) v"
    and "r1 = Some pdpt \<Longrightarrow> r2 = Some pd \<Longrightarrow> r3 = Some pt \<Longrightarrow> node root (vm_mem st3) (tl (vpath virt)) = Some pt"
    and "\<exists>pm. st1 = st\<lparr>vm_pmm := pm\<rparr>" and "r1 = Some pdpt \<Longrightarrow> \<exists>pm. st2 = st\<lparr>vm_pmm := pm\<rparr>"
    and "r1 = Some pdpt \<Longrightarrow> r2 = Some pd \<Longrightarrow> \<exists>pm. st3 = st\<lparr>vm_pmm := pm\<rparr>"
proof -
  let ?i4 = "pml4_index virt" and ?i3 = "pdpt_index virt" and ?i2 = "pd_index virt"
  have P: "path_ok H [?i4]" "path_ok H [?i3, ?i4]" "path_ok H [?i2, ?i3, ?i4]" using vpath_ok[OF H] by (auto simp: vpath_def)
  note N1 = next_level_ok[OF ok P(1), where t = root, simplified, OF _ g1]
  have l: "has_flag e VMM_PRESENT \<Longrightarrow> leads 0 e" "has_flag e VMM_PRESENT \<Longrightarrow> leads (Suc 0) e" for e by (simp_all add: leads_def)
  show s1: "vm_step H root st st1" and m1: "pml4_index v \<in> H \<Longrightarrow> same_view root (vm_mem st) (vm_mem st1) v"
    and u1: "\<exists>pm. st1 = st\<lparr>vm_pmm := pm\<rparr>" for v using N1(1,2,4) l by auto
  have n1: "node root (vm_mem st1) [?i4] = Some pdpt" if "r1 = Some pdpt" for pdpt using next_level_ok(3)[OF ok P(1) _ _ _ g1] l that by simp
  have N2: "vm_step H root st1 st2" "pml4_index v \<in> H \<Longrightarrow> same_view root (vm_mem st1) (vm_mem st2) v"
    "r2 = Some pd \<Longrightarrow> node root (vm_mem st2) [?i3, ?i4] = Some pd" "\<exists>pm. st2 = st1\<lparr>vm_pmm := pm\<rparr>" if r1: "r1 = Some pdpt" for v pdpt pd
    using next_level_ok[OF vm_step_ok[OF s1] P(2) _ n1[OF r1] _ g2[unfolded r1 option.sel]] l by auto
  show "vm_step H root st st2" if "r1 = Some pdpt" for pdpt using vm_step_trans[OF s1 N2(1)[OF that]] .
  show m2: "same_view root (vm_mem st) (vm_mem st2) v" if "pml4_index v \<in> H" "r1 = Some pdpt" for v pdpt
    using N2(2)[OF that(2,1)] m1[OF that(1)] by (simp add: same_view_def)
  show "\<exists>pm. st2 = st\<lparr>vm_pmm := pm\<rparr>" if "r1 = Some pdpt" for pdpt using N2(4)[OF that] u1 by auto
  have nh: "has_flag (entry_at root (vm_mem st2) [?i2, ?i3, ?i4]) VMM_PRESENT \<Longrightarrow> leads (Suc (Suc 0)) (entry_at root (vm_mem st2) [?i2, ?i3, ?i4])"
    if "r1 = Some pdpt" for pdpt
    using m2[OF H that] free by (auto simp: same_view_def mapped_entries huge_at_def leads_def vpath_def Let_def split: if_splits)
  have N3: "vm_step H root st2 st3" "pml4_index v \<in> H \<Longrightarrow> same_view root (vm_mem st2) (vm_mem st3) v"
    "r3 = Some pt \<Longrightarrow> node root (vm_mem st3) [?i2, ?i3, ?i4] = Some pt" "\<exists>pm. st3 = st2\<lparr>vm_pmm := pm\<rparr>"
    if "r1 = Some pdpt" "r2 = Some pd" for v pdpt pd pt
    using next_level_ok[OF vm_step_ok[OF N2(1)[OF that(1)]] P(3) _ N2(3)[OF that] _ g3[unfolded that(2) option.sel]] nh[OF that(1)] by auto
  show "vm_step H root st st3" if "r1 = Some pdpt" "r2 = Some pd" for pdpt pd
    using vm_step_trans[OF vm_step_trans[OF s1 N2(1)[OF that(1)]] N3(1)[OF that]] .
  show "same_view root (vm_mem st) (vm_mem st3) v" if "pml4_index v \<in> H" "r1 = Some pdpt" "r2 = Some pd" for v pdpt pd
    using N3(2)[OF that(2,3,1)] m2[OF that(1,2)] by (simp add: same_view_def)
  show "node root (vm_mem st3) (tl (vpath virt)) = Some pt" if "r1 = Some pdpt" "r2 = Some pd" "r3 = Some pt" for pdpt pd pt
    using N3(3)[OF that] by (simp add: vpath_def)
  show "\<exists>pm. st3 = st\<lparr>vm_pmm := pm\<rparr>" if "r1 = Some pdpt" "r2 = Some pd" for pdpt pd using N3(4)[OF that] N2(4)[OF that(1)] u1 by auto
qed


definition map_effect :: "nat set \<Rightarrow> u64 \<Rightarrow> (u64 \<Rightarrow> u64 option) \<Rightarrow> vmm_st \<Rightarrow> vmm_st \<Rightarrow> bool" where
  "map_effect H root f st st' \<longleftrightarrow> vm_step H root st st' \<and> (\<forall>v. pml4_index v \<in> H \<longrightarrow> mapped root (vm_mem st') v = f v \<and> huge_at root (vm_mem st') v = huge_at root (vm_mem st) v) \<and>
     vm_contract_log st' = vm_contract_log st \<and> vm_contract_log_head st' = vm_contract_log_head st \<and>
     vm_contract_log_count st' = vm_contract_log_count st \<and> vm_switch st' = vm_switch st"

abbreviation view :: "u64 \<Rightarrow> vmm_st \<Rightarrow> u64 \<Rightarrow> u64 option" where
  "view root st \<equiv> mapped root (vm_mem st)"

definition present_leaf :: "u64 \<Rightarrow> u64 option" where
  "present_leaf e = (if has_flag e VMM_PRESENT then Some e else None)"

lemma map_raw_ok:
  assumes ok: "vm_ok H root st" and root: "proc_root proc st = Some root" and H: "pml4_index virt \<in> H"
    and al: "virt mod word_of_nat PAGE_SIZE = 0" "phys mod word_of_nat PAGE_SIZE = 0"
    and fl: "\<not> has_flag flags VMM_HUGE" and free: "view root st virt = None"
  shows "\<exists>b st'. vmm_map_raw epoch proc virt phys flags st = VRet b st' \<and>
     map_effect H root (\<lambda>v. if b \<and> vpath v = vpath virt
        then present_leaf (pte_value phys flags) else view root st v) st st'"
proof -
  obtain r1 st1 where g1: "get_next_level epoch proc root (pml4_index virt) st = (r1, st1)" by fastforce
  obtain r2 st2 where g2: "get_next_level epoch proc (the r1) (pdpt_index virt) st1 = (r2, st2)" by fastforce
  obtain r3 st3 where g3: "get_next_level epoch proc (the r2) (pd_index virt) st2 = (r3, st3)" by fastforce
  note D = descend_ok[OF ok H free g1 g2 g3]
  have keep: ?thesis if "vmm_map_raw epoch proc virt phys flags st = VRet False st'" "vm_step H root st st'"
      "\<And>v. pml4_index v \<in> H \<Longrightarrow> same_view root (vm_mem st) (vm_mem st') v" "\<exists>pm. st' = st\<lparr>vm_pmm := pm\<rparr>" for st'
    using that by (auto simp: map_effect_def same_view_def)
  consider "r1 = None" | pdpt where "r1 = Some pdpt" "r2 = None" | pdpt pd where "r1 = Some pdpt" "r2 = Some pd" "r3 = None"
    | pdpt pd pt where "r1 = Some pdpt" "r2 = Some pd" "r3 = Some pt" by (cases r1; cases r2; cases r3) auto
  then show ?thesis
  proof cases
    case 1
    then show ?thesis using keep[of st1] D(1,4,8) g1 g2 g3 al root by (simp add: vmm_map_raw_def)
  next
    case 2
    then show ?thesis using keep[of st2] D(2,5,9) g1 g2 g3 al root by (simp add: vmm_map_raw_def)
  next
    case 3
    then show ?thesis using keep[of st3] D(3,6,10) g1 g2 g3 al root fl by (simp add: vmm_map_raw_def)
  next
    case 4
    let ?e = "pte_value phys flags" and ?st = "upd_vm_mem (pt_set pt (pt_index virt) (pte_value phys flags)) st3"
    have n: "node root (vm_mem st3) (tl (vpath virt)) = Some pt" and s3: "vm_step H root st st3"
      and m3: "pml4_index v \<in> H \<Longrightarrow> same_view root (vm_mem st) (vm_mem st3) v" and u3: "\<exists>pm. st3 = st\<lparr>vm_pmm := pm\<rparr>" for v
      using D(3,6,7,10) 4 g1 g2 g3 by auto
    have run: "vmm_map_raw epoch proc virt phys flags st = VRet True ?st"
      using 4 g1 g2 g3 al root fl by (simp add: vmm_map_raw_def pte_value_def)
    have p: "path_ok H (pt_index virt # tl (vpath virt))" "length (tl (vpath virt)) \<le> 3" "pt_index virt # tl (vpath virt) = vpath virt"
      using vpath_ok[OF H] by (auto simp: vpath_def)
    note W = write_step[OF vm_step_ok[OF s3] p(1,2) n, where v = ?e, unfolded p(3)]
    have "view root ?st v = (if vpath v = vpath virt then (if has_flag ?e VMM_PRESENT then Some ?e else None) else view root st3 v)"
      if "pml4_index v \<in> H" for v by (rule mapped_leaf(1)[OF that n]) (use W(2) in auto)
    moreover have "huge_at root (vm_mem ?st) v = huge_at root (vm_mem st3) v" if "pml4_index v \<in> H" for v
      by (rule mapped_leaf(2)[OF that n, where e = ?e]) (use W(2) in auto)
    moreover have "vm_step H root st ?st" using vm_step_trans[OF s3 W(1)] by simp
    ultimately show ?thesis using run m3 u3 by (auto simp: map_effect_def same_view_def upd_vm_mem_def present_leaf_def)
  qed
qed


lemma unmap_leaf_ok:
  assumes ok: "vm_ok H root st" and H: "pml4_index virt \<in> H" and nh: "\<not> huge_at root (vm_mem st) virt"
    and run: "vmm_unmap_leaf_noalloc (Some root) virt st = (b, st')"
  shows "b \<longleftrightarrow> view root st virt \<noteq> None"
    and "map_effect H root (\<lambda>v. if b \<and> vpath v = vpath virt then None else view root st v) st st'"
    and "vm_invalidated st' = vm_invalidated st @ (if b then [virt] else [])"
proof -
  let ?m = "vm_mem st" and ?pt = "node root (vm_mem st) (tl (vpath virt))"
  have walk: "vmm_walk_leaf_noalloc (Some root) virt ?m = map_option (\<lambda>pt. (pt, pt_index virt)) ?pt"
    using nh by (auto simp: walk_node huge_at_def leads_def vpath_def Let_def split: option.splits)
  have vw: "view root st virt = (case ?pt of None \<Rightarrow> None | Some pt \<Rightarrow>
      if has_flag (pt_get pt (pt_index virt) ?m) VMM_PRESENT then Some (pt_get pt (pt_index virt) ?m) else None)"
    by (simp add: mapped_def walk split: option.splits)
  have all: "(b \<longleftrightarrow> view root st virt \<noteq> None) \<and> map_effect H root (\<lambda>v. if b \<and> vpath v = vpath virt then None else view root st v) st st' \<and>
    vm_invalidated st' = vm_invalidated st @ (if b then [virt] else [])"
  proof (cases "view root st virt")
    case None
    then have "b = False" "st' = st" using run vw by (auto simp: vmm_unmap_leaf_noalloc_def walk split: option.splits if_splits)
    then show ?thesis using None vm_step_refl[OF ok] by (simp add: map_effect_def)
  next
    case (Some e)
    then obtain pt where n: "?pt = Some pt" and pr: "has_flag (pt_get pt (pt_index virt) ?m) VMM_PRESENT"
      using vw by (auto split: option.splits if_splits)
    let ?st = "upd_vm_mem (pt_set pt (pt_index virt) 0) st"
    have rs: "b" "st' = cpu_tlb_shootdown_page virt ?st" using run n pr by (auto simp: vmm_unmap_leaf_noalloc_def walk)
    have p: "path_ok H (pt_index virt # tl (vpath virt))" "length (tl (vpath virt)) \<le> 3" "pt_index virt # tl (vpath virt) = vpath virt"
      using vpath_ok[OF H] by (auto simp: vpath_def)
    note W = write_step[OF ok p(1,2) n, where v = 0, unfolded p(3)]
    have v1: "view root ?st v = (if vpath v = vpath virt then None else view root st v)" if "pml4_index v \<in> H" for v
      using mapped_leaf(1)[OF that n, of "vm_mem ?st" 0] W(2) by simp
    moreover have "huge_at root (vm_mem ?st) v = huge_at root ?m v" if "pml4_index v \<in> H" for v
      by (rule mapped_leaf(2)[OF that n, where e = 0]) (use W(2) in auto)
    moreover have "vm_step H root st st'" using W(1) unfolding rs(2) by (simp add: vm_step_def vm_ok_def cpu_tlb_shootdown_page_def vm_mem_def)
    ultimately show ?thesis using rs Some by (simp add: map_effect_def cpu_tlb_shootdown_page_def vm_mem_def upd_vm_mem_def)
  qed
  then show "b \<longleftrightarrow> view root st virt \<noteq> None"
    and "map_effect H root (\<lambda>v. if b \<and> vpath v = vpath virt then None else view root st v) st st'"
    and "vm_invalidated st' = vm_invalidated st @ (if b then [virt] else [])" by blast+
qed


section \<open>Regions\<close>

text \<open>The page of a region that an address falls into.\<close>

definition page_in :: "u64 \<Rightarrow> nat list \<Rightarrow> u64 \<Rightarrow> nat option" where
  "page_in start is v = find (\<lambda>i. vpath v = vpath (page_virt start i)) is"

definition region_ok :: "nat set \<Rightarrow> u64 \<Rightarrow> nat list \<Rightarrow> bool" where
  "region_ok H start is \<longleftrightarrow> distinct is \<and> (\<forall>i\<in>set is. pml4_index (page_virt start i) \<in> H) \<and>
     (\<forall>i\<in>set is. \<forall>j\<in>set is. vpath (page_virt start i) = vpath (page_virt start j) \<longrightarrow> i = j)"

lemma region_ok_Cons: "region_ok H start (i # is) \<Longrightarrow> region_ok H start is \<and> pml4_index (page_virt start i) \<in> H \<and>
    (\<forall>j\<in>set is. pml4_index (page_virt start j) \<in> H \<and> vpath (page_virt start j) \<noteq> vpath (page_virt start i))"
  by (auto simp: region_ok_def)

lemma page_in_simps [simp]: "page_in start [] v = None"
  "page_in start (i # is) v = (if vpath v = vpath (page_virt start i) then Some i else page_in start is v)"
  by (simp_all add: page_in_def)

lemma page_in_None: "page_in start is v = None \<longleftrightarrow> (\<forall>i\<in>set is. vpath v \<noteq> vpath (page_virt start i))"
  by (auto simp: page_in_def find_None_iff)

lemma map_effect_trans:
  assumes "map_effect H root f a b" and "map_effect H root g b c" shows "map_effect H root g a c"
  using assms vm_step_trans[of H root a b c] by (auto simp: map_effect_def)

lemma map_effect_cong: "map_effect H root f a b \<Longrightarrow> (\<And>v. pml4_index v \<in> H \<Longrightarrow> f v = g v) \<Longrightarrow> map_effect H root g a b"
  by (simp add: map_effect_def)

lemma map_effectD:
  assumes "map_effect H root f st st'"
  shows "vm_ok H root st'" and "pml4_index v \<in> H \<Longrightarrow> view root st' v = f v"
    and "pml4_index v \<in> H \<Longrightarrow> huge_at root (vm_mem st') v = huge_at root (vm_mem st) v"
    and "proc_root proc st' = proc_root proc st"
  using assms by (auto simp: map_effect_def vm_step_def proc_root_def split: option.splits)

lemma map_pages_ok:
  assumes "vm_ok H root st" and "proc_root proc st = Some root" and "region_ok H (cm_virt_start cm) is"
    and "\<forall>i\<in>set is. page_virt (cm_virt_start cm) i mod word_of_nat PAGE_SIZE = 0 \<and> page_virt (cm_phys_start cm) i mod word_of_nat PAGE_SIZE = 0"
    and "\<forall>i\<in>set is. view root st (page_virt (cm_virt_start cm) i) = None" and "\<not> has_flag (cm_pte_flags cm) VMM_HUGE"
  shows "\<exists>ok n st'. map_pages epoch proc cm is k st = VRet (ok, k + n) st' \<and> n \<le> length is \<and> (ok \<longrightarrow> n = length is) \<and>
    map_effect H root (\<lambda>v. case page_in (cm_virt_start cm) (take n is) v of
       Some i \<Rightarrow> present_leaf (pte_value (page_virt (cm_phys_start cm) i) (cm_pte_flags cm)) | None \<Rightarrow> view root st v) st st'"
  using assms
proof (induction "is" arbitrary: st k)
  case Nil
  then show ?case using vm_step_refl[of H root st] by (auto simp: map_effect_def)
next
  case (Cons i "is")
  let ?A = "page_virt (cm_virt_start cm)" and ?e = "\<lambda>i. present_leaf (pte_value (page_virt (cm_phys_start cm) i) (cm_pte_flags cm))"
  note R = region_ok_Cons[OF Cons.prems(3)]
  have i: "pml4_index (?A i) \<in> H" "?A i mod word_of_nat PAGE_SIZE = 0" "page_virt (cm_phys_start cm) i mod word_of_nat PAGE_SIZE = 0" "view root st (?A i) = None"
    using Cons.prems(4,5) R by simp_all
  obtain b st1 where raw: "vmm_map_raw epoch proc (?A i) (page_virt (cm_phys_start cm) i) (cm_pte_flags cm) st = VRet b st1"
    and E: "map_effect H root (\<lambda>v. if b \<and> vpath v = vpath (?A i) then ?e i else view root st v) st st1"
    using map_raw_ok[OF Cons.prems(1,2) i(1-3) Cons.prems(6) i(4), of epoch] by blast
  show ?case
  proof (cases b)
    case False
    then show ?thesis using raw E by (intro exI[of _ False] exI[of _ 0] exI[of _ st1]) simp
  next
    case True
    have pre: "\<forall>j\<in>set is. view root st1 (?A j) = None" using map_effectD(2)[OF E] R Cons.prems(5) by auto
    obtain ok n st' where IH: "map_pages epoch proc cm is (k + 1) st1 = VRet (ok, k + 1 + n) st'" "n \<le> length is" "ok \<longrightarrow> n = length is"
      "map_effect H root (\<lambda>v. case page_in (cm_virt_start cm) (take n is) v of Some j \<Rightarrow> ?e j | None \<Rightarrow> view root st1 v) st1 st'"
      using Cons.IH[OF map_effectD(1)[OF E] _ _ _ pre Cons.prems(6), of "k + 1"] map_effectD(4)[OF E, of proc] Cons.prems R by auto
    have "map_effect H root (\<lambda>v. case page_in (cm_virt_start cm) (take (Suc n) (i # is)) v of Some j \<Rightarrow> ?e j | None \<Rightarrow> view root st v) st st'"
    proof (rule map_effect_cong[OF map_effect_trans[OF E IH(4)]])
      fix v assume v: "pml4_index v \<in> H"
      have "page_in (cm_virt_start cm) (take n is) v = None" if "vpath v = vpath (?A i)"
        using that R by (auto simp: page_in_None dest!: in_set_takeD)
      then show "(case page_in (cm_virt_start cm) (take n is) v of Some j \<Rightarrow> ?e j | None \<Rightarrow> view root st1 v)
          = (case page_in (cm_virt_start cm) (take (Suc n) (i # is)) v of Some j \<Rightarrow> ?e j | None \<Rightarrow> view root st v)"
        using map_effectD(2)[OF E v] True by (auto split: option.splits)
    qed
    then show ?thesis using raw True IH by (intro exI[of _ ok] exI[of _ "Suc n"] exI[of _ st']) simp
  qed
qed

text \<open>Unmapping pages that are all mapped and none huge.\<close>

lemma unmap_leaves_ok:
  assumes "vm_ok H root st" and "region_ok H start is"
    and "\<forall>i\<in>set is. view root st (page_virt start i) \<noteq> None \<and> \<not> huge_at root (vm_mem st) (page_virt start i)"
  shows "\<exists>st'. rollback_pages (Some root) start is st = (True, st') \<and> unmap_pages (Some root) start is k st = ((True, k + length is), st') \<and>
    map_effect H root (\<lambda>v. if page_in start is v = None then view root st v else None) st st' \<and>
    vm_invalidated st' = vm_invalidated st @ map (page_virt start) is"
  using assms
proof (induction "is" arbitrary: st k)
  case Nil
  then show ?case using vm_step_refl[of H root st] by (auto simp: map_effect_def)
next
  case (Cons i "is")
  let ?A = "page_virt start"
  note R = region_ok_Cons[OF Cons.prems(2)]
  obtain b st1 where un: "vmm_unmap_leaf_noalloc (Some root) (?A i) st = (b, st1)" by fastforce
  note U = unmap_leaf_ok[OF Cons.prems(1) _ _ un]
  have b: "b" and E: "map_effect H root (\<lambda>v. if vpath v = vpath (?A i) then None else view root st v) st st1"
    and I: "vm_invalidated st1 = vm_invalidated st @ [?A i]"
    using U Cons.prems(3) R by auto
  have pre: "\<forall>j\<in>set is. view root st1 (?A j) \<noteq> None \<and> \<not> huge_at root (vm_mem st1) (?A j)"
    using map_effectD(2,3)[OF E] R Cons.prems(3) by auto
  obtain st' where IH: "rollback_pages (Some root) start is st1 = (True, st')" "unmap_pages (Some root) start is (k + 1) st1 = ((True, k + 1 + length is), st')"
    "map_effect H root (\<lambda>v. if page_in start is v = None then view root st1 v else None) st1 st'"
    "vm_invalidated st' = vm_invalidated st1 @ map ?A is"
    using Cons.IH[OF map_effectD(1)[OF E] _ pre, of "k + 1"] R by auto
  have "map_effect H root (\<lambda>v. if page_in start (i # is) v = None then view root st v else None) st st'"
    by (rule map_effect_cong[OF map_effect_trans[OF E IH(3)]]) (auto simp: map_effectD(2)[OF E])
  then show ?case using un b IH I by simp
qed


section \<open>Pages of a region are different\<close>

lemma index_bits:
  fixes v w :: u64
  shows "unat (drop_bit s v AND 0x1FF) = unat (drop_bit s w AND 0x1FF) \<longleftrightarrow> (\<forall>k<9. bit v (s + k) = bit w (s + k))"
proof -
  have m: "x AND 0x1FF = take_bit 9 x" for x :: u64 by (simp add: take_bit_eq_mask mask_eq_exp_minus_1)
  have "unat (drop_bit s v AND 0x1FF) = unat (drop_bit s w AND 0x1FF) \<longleftrightarrow> take_bit 9 (drop_bit s v) = take_bit 9 (drop_bit s w)"
    unfolding m by (auto dest: unsigned_word_eqI)
  also have "\<dots> \<longleftrightarrow> (\<forall>k<9. bit v (s + k) = bit w (s + k))"
  proof -
    have nine: "k < 9 \<Longrightarrow> k < (64 :: nat)" for k by simp
    show ?thesis by (simp add: bit_eq_iff bit_simps) (metis nine)
  qed
  finally show ?thesis .
qed

lemma vpath_eq_iff: "vpath v = vpath w \<longleftrightarrow> (\<forall>k. 12 \<le> k \<longrightarrow> k < 48 \<longrightarrow> bit v k = bit w k)"
proof -
  have "vpath v = vpath w \<longleftrightarrow> (\<forall>s\<in>{12, 21, 30, 39}. \<forall>k<9. bit v (s + k) = bit w (s + k))"
    by (auto simp: vpath_def pml4_index_def pdpt_index_def pd_index_def pt_index_def index_bits)
  also have "\<dots> \<longleftrightarrow> (\<forall>k. 12 \<le> k \<longrightarrow> k < 48 \<longrightarrow> bit v k = bit w k)"
  proof
    assume a: "\<forall>s\<in>{12, 21, 30, 39}. \<forall>k<9. bit v (s + k) = bit w (s + k)"
    show "\<forall>k. 12 \<le> k \<longrightarrow> k < 48 \<longrightarrow> bit v k = bit w k"
    proof (intro allI impI)
      fix k :: nat assume k: "12 \<le> k" "k < 48"
      then consider j where "k = 12 + j" "j < 9" | j where "k = 21 + j" "j < 9" | j where "k = 30 + j" "j < 9" | j where "k = 39 + j" "j < 9"
        by (cases "k < 21"; cases "k < 30"; cases "k < 39") (auto simp: not_less dest!: le_Suc_ex)
      then show "bit v k = bit w k" using a by cases auto
    qed
  qed auto
  finally show ?thesis .
qed


lemma aligned_take_bit: "(w :: u64) mod word_of_nat PAGE_SIZE = 0 \<longleftrightarrow> take_bit 12 w = 0"
  by (simp add: take_bit_eq_mod PAGE_SIZE_def)

lemma uint_page_virt: "uint (page_virt start n) = (uint start + 4096 * int n) mod 2 ^ 64"
proof -
  have e: "page_virt start n = word_of_int (uint start + 4096 * int n)" by (simp add: page_virt_def PAGE_SIZE_def mult.commute)
  show ?thesis unfolding e unsigned_of_int take_bit_eq_mod by simp
qed

lemma aligned_uint: "(w :: u64) mod word_of_nat PAGE_SIZE = 0 \<longleftrightarrow> uint w mod 4096 = 0"
proof -
  have "uint (w mod word_of_nat PAGE_SIZE) = uint w mod 4096" by (simp add: uint_mod_distrib PAGE_SIZE_def)
  then show ?thesis by (metis unsigned_0 unsigned_eq_0_iff)
qed

lemma page_virt_aligned:
  assumes "start mod word_of_nat PAGE_SIZE = 0"
  shows "page_virt start i mod word_of_nat PAGE_SIZE = 0"
proof -
  have "x mod 2 ^ 64 mod 4096 = x mod (4096 :: int)" for x by (rule mod_mod_cancel) simp
  then show ?thesis using assms by (simp add: aligned_uint uint_page_virt)
qed

lemma page_virt_path_inj:
  assumes al: "start mod word_of_nat PAGE_SIZE = 0" and "i < 2 ^ 36" and "j < 2 ^ 36" and eq: "vpath (page_virt start i) = vpath (page_virt start j)"
  shows "i = j"
proof -
  have low: "\<not> bit (page_virt start n) k" if "k < 12" for n k
    using page_virt_aligned[OF al, of n] that unfolding aligned_take_bit by (metis bit_take_bit_iff bit_0_eq bot_apply bot_bool_def)
  have "take_bit 48 (page_virt start i) = take_bit 48 (page_virt start j)"
    by (rule bit_word_eqI) (use eq low in \<open>auto simp: bit_simps vpath_eq_iff not_le; metis not_le\<close>)
  then have "uint (take_bit 48 (page_virt start i)) = uint (take_bit 48 (page_virt start j))" by simp
  moreover have "uint (take_bit 48 (page_virt start n)) = (uint start + 4096 * int n) mod 2 ^ 48" for n
  proof -
    have "(x mod 2 ^ 64) mod 2 ^ 48 = x mod (2 ^ 48 :: int)" for x by (rule mod_mod_cancel) simp
    then show ?thesis unfolding unsigned_take_bit_eq by (simp add: uint_page_virt take_bit_eq_mod)
  qed
  ultimately have "(uint start + 4096 * int i) mod 2 ^ 48 = (uint start + 4096 * int j) mod 2 ^ 48" by simp
  then have "(uint start + 4096 * int i - uint start) mod 2 ^ 48 = (uint start + 4096 * int j - uint start) mod 2 ^ 48"
    by (rule mod_diff_cong) simp
  then show ?thesis using assms(2,3) by (simp add: mod_pos_pos_trivial)
qed

lemma region_okI:
  assumes "start mod word_of_nat PAGE_SIZE = 0" and "n \<le> 2 ^ 36" and "\<forall>i<n. pml4_index (page_virt start i) \<in> H"
  shows "region_ok H start [0 ..< n]"
  using assms page_virt_path_inj[OF assms(1)] by (auto simp: region_ok_def)


section \<open>Applying a contract\<close>

lemma vm_frame [simp]:
  "vm_pmm (upd_vm_metrics f st) = vm_pmm st" "vm_mem (upd_vm_metrics f st) = vm_mem st" "vm_kernel_pml4 (upd_vm_metrics f st) = vm_kernel_pml4 st"
  "vm_pmm (vmm_contract_log_push c st) = vm_pmm st" "vm_mem (vmm_contract_log_push c st) = vm_mem st"
  "vm_kernel_pml4 (vmm_contract_log_push c st) = vm_kernel_pml4 st" "vm_invalidated (upd_vm_metrics f st) = vm_invalidated st"
  "vm_invalidated (vmm_contract_log_push c st) = vm_invalidated st"
  by (simp_all add: upd_vm_metrics_def vmm_contract_log_push_def vm_mem_def)

lemma vm_ok_frame [simp]: "vm_ok H root (upd_vm_metrics f st) = vm_ok H root st" "vm_ok H root (vmm_contract_log_push c st) = vm_ok H root st"
  "proc_root proc (upd_vm_metrics f st) = proc_root proc st"
  "vm_step H root (upd_vm_metrics f st) st' = vm_step H root st st'" "vm_step H root st (upd_vm_metrics f st') = vm_step H root st st'"
  "vm_step H root st (vmm_contract_log_push c st') = vm_step H root st st'"
  by (simp_all add: vm_step_def vm_ok_def proc_root_def split: option.splits)

definition apply_effect :: "nat set \<Rightarrow> u64 \<Rightarrow> (u64 \<Rightarrow> u64 option) \<Rightarrow> vmm_st \<Rightarrow> vmm_st \<Rightarrow> bool" where
  "apply_effect H root f st st' \<longleftrightarrow> vm_step H root st st' \<and> (\<forall>v. pml4_index v \<in> H \<longrightarrow> view root st' v = f v)"

lemma apply_effect_frame [simp]: "apply_effect H root f (upd_vm_metrics g st) st' = apply_effect H root f st st'"
  "apply_effect H root f st (upd_vm_metrics g st') = apply_effect H root f st st'"
  "apply_effect H root f st (vmm_contract_log_push c st') = apply_effect H root f st st'"
  by (simp_all add: apply_effect_def)

lemma mapped_vpath: "vpath v = vpath w \<Longrightarrow> mapped root m v = mapped root m w"
  by (simp add: mapped_entries huge_at_def)

definition mapped_by :: "vmm_compiled_mapping_t \<Rightarrow> (u64 \<Rightarrow> u64 option) \<Rightarrow> u64 \<Rightarrow> u64 option" where
  "mapped_by cm f v = (case page_in (cm_virt_start cm) [0 ..< unat (cm_page_count cm)] v of
     Some i \<Rightarrow> Some (pte_value (page_virt (cm_phys_start cm) i) (cm_pte_flags cm)) | None \<Rightarrow> f v)"

lemma apply_map_ok:
  assumes ok: "vm_ok H root st" and root: "proc_root proc st = Some root"
    and reg: "region_ok H (cm_virt_start cm) [0 ..< unat (cm_page_count cm)]"
    and al: "cm_virt_start cm mod word_of_nat PAGE_SIZE = 0" "cm_phys_start cm mod word_of_nat PAGE_SIZE = 0"
    and fl: "\<not> has_flag (cm_pte_flags cm) VMM_HUGE" "\<And>phys. present_leaf (pte_value phys (cm_pte_flags cm)) = Some (pte_value phys (cm_pte_flags cm))"
  shows "\<exists>r n st'. apply_map epoch proc cm st = VRet (r, n) st' \<and>
     apply_effect H root (if r = VMM_CONTRACT_RESULT_OK then mapped_by cm (view root st) else view root st) st st' \<and>
     (r = VMM_CONTRACT_RESULT_OK \<longrightarrow> n = unat (cm_page_count cm) \<and> (\<forall>i<n. view root st (page_virt (cm_virt_start cm) i) = None))"
proof -
  let ?A = "page_virt (cm_virt_start cm)" and ?N = "unat (cm_page_count cm)"
  show ?thesis
  proof (cases "\<forall>i<?N. view root st (?A i) = None")
    case False
    then show ?thesis using vm_step_refl[OF ok] by (auto simp: apply_map_def Let_def root list_ex_iff leaf_present_mapped apply_effect_def)
  next
    case True
    have al': "\<forall>i\<in>set [0 ..< ?N]. ?A i mod word_of_nat PAGE_SIZE = 0 \<and> page_virt (cm_phys_start cm) i mod word_of_nat PAGE_SIZE = 0"
      using page_virt_aligned[OF al(1)] page_virt_aligned[OF al(2)] by simp
    have fr: "\<forall>i\<in>set [0 ..< ?N]. view root st (?A i) = None" using True by simp
    obtain okb n st1 where M0: "map_pages epoch proc cm [0 ..< ?N] 0 st = VRet (okb, 0 + n) st1" "n \<le> length [0 ..< ?N]" "okb \<longrightarrow> n = length [0 ..< ?N]"
      "map_effect H root (\<lambda>v. case page_in (cm_virt_start cm) (take n [0 ..< ?N]) v of
         Some i \<Rightarrow> present_leaf (pte_value (page_virt (cm_phys_start cm) i) (cm_pte_flags cm)) | None \<Rightarrow> view root st v) st st1"
      using map_pages_ok[OF ok root reg al' fr fl(1), of epoch 0] by blast
    have tk: "take n [0 ..< ?N] = [0 ..< n]" using M0(2) by (simp add: take_upt)
    have M: "map_pages epoch proc cm [0 ..< ?N] 0 st = VRet (okb, n) st1" "n \<le> ?N" "okb \<longrightarrow> n = ?N"
      "map_effect H root (\<lambda>v. case page_in (cm_virt_start cm) [0 ..< n] v of
         Some i \<Rightarrow> Some (pte_value (page_virt (cm_phys_start cm) i) (cm_pte_flags cm)) | None \<Rightarrow> view root st v) st st1"
      using M0(1-3) M0(4)[unfolded tk fl(2)] by simp_all
    have free: "\<not> list_ex (\<lambda>i. leaf_present (Some root) (?A i) (vm_mem st)) [0 ..< ?N]" using True by (simp add: list_ex_iff leaf_present_mapped)
    show ?thesis
    proof (cases "okb")
      case True
      then show ?thesis using M free \<open>\<forall>i<?N. _ i\<close>
        by (auto simp: apply_map_def Let_def root apply_effect_def map_effect_def mapped_by_def)
    next
      case False
      have reg': "region_ok H (cm_virt_start cm) [0 ..< n]" using reg M(2) by (auto simp: region_ok_def)
      have pre: "\<forall>i\<in>set [0 ..< n]. view root st1 (?A i) \<noteq> None \<and> \<not> huge_at root (vm_mem st1) (?A i)"
      proof
        fix i assume i: "i \<in> set [0 ..< n]"
        then have "page_in (cm_virt_start cm) [0 ..< n] (?A i) \<noteq> None" unfolding page_in_None by auto
        moreover have H: "pml4_index (?A i) \<in> H" using reg' i by (simp add: region_ok_def)
        moreover have "\<not> huge_at root (vm_mem st) (?A i)" using True i M(2) by (auto simp: mapped_entries split: if_splits)
        ultimately show "view root st1 (?A i) \<noteq> None \<and> \<not> huge_at root (vm_mem st1) (?A i)" using map_effectD(2,3)[OF M(4) H] by auto
      qed
      let ?st = "upd_vm_metrics (\<lambda>m. m\<lparr>vc_rollback_attempts := vc_rollback_attempts m + 1\<rparr>) st1"
      obtain st2 where R: "rollback_pages (Some root) (cm_virt_start cm) [0 ..< n] ?st = (True, st2)"
        "map_effect H root (\<lambda>v. if page_in (cm_virt_start cm) [0 ..< n] v = None then view root st1 v else None) ?st st2"
        using unmap_leaves_ok[of H root ?st "cm_virt_start cm" "[0 ..< n]" 0, unfolded vm_frame vm_ok_frame, OF map_effectD(1)[OF M(4)] reg' pre] by blast
      have restored: "view root st2 v = view root st v" if "pml4_index v \<in> H" for v
      proof (cases "page_in (cm_virt_start cm) [0 ..< n] v")
        case None
        then show ?thesis using map_effectD(2)[OF R(2) that] map_effectD(2)[OF M(4) that] by simp
      next
        case (Some i)
        then obtain j where "j < n" "vpath v = vpath (?A j)" using page_in_None[of "cm_virt_start cm" "[0 ..< n]" v] by auto
        then have "view root st v = None" using mapped_vpath[of v "?A j"] True M(2) by simp
        then show ?thesis using map_effectD(2)[OF R(2) that] Some by simp
      qed
      have "vm_step H root st st2" using vm_step_trans[of H root st st1 st2] M(4) R(2) by (simp add: map_effect_def)
      then show ?thesis
        using M(1,2,4) False free R(1) restored by (cases "n = 0") (auto simp: apply_map_def Let_def root apply_effect_def map_effect_def)
    qed
  qed
qed


lemma apply_unmap_ok:
  assumes ok: "vm_ok H root st" and root: "proc_root proc st = Some root"
    and reg: "region_ok H (cm_virt_start cm) [0 ..< unat (cm_page_count cm)]"
    and nh: "\<forall>i<unat (cm_page_count cm). \<not> huge_at root (vm_mem st) (page_virt (cm_virt_start cm) i)"
  shows "\<exists>r n st'. apply_unmap proc cm st = VRet (r, n) st' \<and>
     (r = VMM_CONTRACT_RESULT_OK \<longleftrightarrow> (\<forall>i<unat (cm_page_count cm). view root st (page_virt (cm_virt_start cm) i) \<noteq> None)) \<and>
     apply_effect H root (\<lambda>v. if r = VMM_CONTRACT_RESULT_OK \<and> page_in (cm_virt_start cm) [0 ..< unat (cm_page_count cm)] v \<noteq> None
        then None else view root st v) st st' \<and>
     vm_invalidated st' = vm_invalidated st @
       (if r = VMM_CONTRACT_RESULT_OK then map (page_virt (cm_virt_start cm)) [0 ..< unat (cm_page_count cm)] else [])"
proof (cases "\<forall>i<unat (cm_page_count cm). view root st (page_virt (cm_virt_start cm) i) \<noteq> None")
  case False
  then have "\<not> list_all (\<lambda>i. leaf_present (Some root) (page_virt (cm_virt_start cm) i) (vm_mem st)) [0 ..< unat (cm_page_count cm)]"
    by (auto simp: list_all_iff leaf_present_mapped)
  then show ?thesis using False vm_step_refl[OF ok] by (simp add: apply_unmap_def Let_def root apply_effect_def)
next
  case True
  then have all: "list_all (\<lambda>i. leaf_present (Some root) (page_virt (cm_virt_start cm) i) (vm_mem st)) [0 ..< unat (cm_page_count cm)]"
    by (simp add: list_all_iff leaf_present_mapped)
  have "\<forall>i\<in>set [0 ..< unat (cm_page_count cm)]. view root st (page_virt (cm_virt_start cm) i) \<noteq> None \<and> \<not> huge_at root (vm_mem st) (page_virt (cm_virt_start cm) i)"
    using True nh by simp
  from unmap_leaves_ok[OF ok reg this, of 0] obtain st' where
    U: "unmap_pages (Some root) (cm_virt_start cm) [0 ..< unat (cm_page_count cm)] 0 st = ((True, 0 + length [0 ..< unat (cm_page_count cm)]), st')"
      "map_effect H root (\<lambda>v. if page_in (cm_virt_start cm) [0 ..< unat (cm_page_count cm)] v = None then view root st v else None) st st'"
      "vm_invalidated st' = vm_invalidated st @ map (page_virt (cm_virt_start cm)) [0 ..< unat (cm_page_count cm)]" by blast
  show ?thesis
    by (rule exI[of _ VMM_CONTRACT_RESULT_OK], rule exI[of _ "unat (cm_page_count cm)"], rule exI[of _ st'])
      (use U True all in \<open>auto simp: apply_unmap_def Let_def root apply_effect_def map_effect_def\<close>)
qed

section \<open>Contracts\<close>

definition contract_pages :: "vmm_region_contract_t \<Rightarrow> nat" where
  "contract_pages c = unat (rc_length c) div PAGE_SIZE"

text \<open>A region inside the part of the address space that is looked at, no larger than the 48 bits of an address.\<close>

definition contract_in :: "nat set \<Rightarrow> vmm_region_contract_t \<Rightarrow> bool" where
  "contract_in H c \<longleftrightarrow> unat (rc_length c) \<le> 2 ^ 48 \<and> (\<forall>i<contract_pages c. pml4_index (page_virt (rc_virt_start c) i) \<in> H)"

definition in_contract :: "vmm_region_contract_t \<Rightarrow> u64 \<Rightarrow> nat option" where
  "in_contract c v = page_in (rc_virt_start c) [0 ..< contract_pages c] v"

lemma has_flag_or2: "has_flag e (f OR g) \<longleftrightarrow> has_flag e f \<or> has_flag e g"
  using has_flag_or[of f g e] by (simp add: has_flag_def and.commute)

lemma contract_check_ok:
  assumes "contract_check c = VMM_CONTRACT_RESULT_OK"
  shows "rc_length c \<noteq> 0" and "rc_length c mod word_of_nat PAGE_SIZE = 0" and "rc_virt_start c mod word_of_nat PAGE_SIZE = 0"
    and "rc_op c = VMM_CONTRACT_OP_MAP \<or> rc_op c = VMM_CONTRACT_OP_UNMAP"
    and "rc_op c = VMM_CONTRACT_OP_MAP \<Longrightarrow> rc_phys_start c mod word_of_nat PAGE_SIZE = 0"
    and "rc_op c = VMM_CONTRACT_OP_MAP \<Longrightarrow> has_flag (rc_pte_flags c) VMM_PRESENT \<Longrightarrow> \<not> has_flag (rc_pte_flags c) VMM_DEMAND"
  using assms by (auto simp: contract_check_def Let_def has_flag_or2 split: if_splits)


lemma compile_pages:
  assumes "vmm_compile_region_contract c st = (Inr cm, st1)"
  shows "contract_check c = VMM_CONTRACT_RESULT_OK" and "unat (cm_page_count cm) = contract_pages c" and "cm_page_count cm \<noteq> 0"
    and "cm_virt_start cm = rc_virt_start c" and "cm_phys_start cm = rc_phys_start c" and "cm_pte_flags cm = rc_pte_flags c" and "cm_op cm = rc_op c"
    and "st1 = upd_vm_metrics (\<lambda>m. m\<lparr>vc_compile_ok := vc_compile_ok m + 1\<rparr>) st"
proof -
  show chk: "contract_check c = VMM_CONTRACT_RESULT_OK" using assms by (auto simp: vmm_compile_region_contract_def split: vmm_contract_result_t.splits)
  then have cm: "cm_page_count cm = rc_length c div word_of_nat PAGE_SIZE" and "cm_virt_start cm = rc_virt_start c" "cm_phys_start cm = rc_phys_start c"
    "cm_pte_flags cm = rc_pte_flags c" "cm_op cm = rc_op c" "st1 = upd_vm_metrics (\<lambda>m. m\<lparr>vc_compile_ok := vc_compile_ok m + 1\<rparr>) st"
    using assms by (auto simp: vmm_compile_region_contract_def)
  then show "cm_virt_start cm = rc_virt_start c" and "cm_phys_start cm = rc_phys_start c" and "cm_pte_flags cm = rc_pte_flags c" and "cm_op cm = rc_op c"
    and "st1 = upd_vm_metrics (\<lambda>m. m\<lparr>vc_compile_ok := vc_compile_ok m + 1\<rparr>) st" by auto
  show n: "unat (cm_page_count cm) = contract_pages c" by (simp add: cm contract_pages_def unat_div_distrib PAGE_SIZE_def)
  have "unat (rc_length c) mod PAGE_SIZE = 0" "unat (rc_length c) \<noteq> 0"
    using contract_check_ok(1,2)[OF chk] by (auto simp: unat_mod_distrib PAGE_SIZE_def word_unat_eq_iff simp flip: mod_eq_0_iff_dvd)
  then have "contract_pages c \<noteq> 0" by (auto simp: contract_pages_def PAGE_SIZE_def)
  then show "cm_page_count cm \<noteq> 0" using n by auto
qed

lemma contract_region_ok: "contract_check c = VMM_CONTRACT_RESULT_OK \<Longrightarrow> contract_in H c \<Longrightarrow> region_ok H (rc_virt_start c) [0 ..< contract_pages c]"
proof (rule region_okI)
  assume "contract_in H c"
  then show "contract_pages c \<le> 2 ^ 36" by (auto simp: contract_in_def contract_pages_def PAGE_SIZE_def)
qed (auto simp: contract_in_def contract_check_ok(3))

lemma apply_result:
  assumes "cm_page_count cm \<noteq> 0" and "proc_root proc st \<noteq> None"
    and "cm_op cm = VMM_CONTRACT_OP_MAP \<Longrightarrow> apply_map epoch proc cm st = VRet (r, n) st'"
    and "cm_op cm = VMM_CONTRACT_OP_UNMAP \<Longrightarrow> apply_unmap proc cm st = VRet (r, n) st'"
    and "cm_op cm = VMM_CONTRACT_OP_MAP \<or> cm_op cm = VMM_CONTRACT_OP_UNMAP"
  shows "vmm_apply_compiled_mapping epoch proc cm st = VRet (r = VMM_CONTRACT_RESULT_OK)
      (vmm_contract_log_push (logged_contract cm r n) (upd_vm_metrics (count_apply (r = VMM_CONTRACT_RESULT_OK)) st'))"
  using assms by (auto simp: vmm_apply_compiled_mapping_def Let_def)

definition contract_maps :: "vmm_region_contract_t \<Rightarrow> (u64 \<Rightarrow> u64 option) \<Rightarrow> u64 \<Rightarrow> u64 option" where
  "contract_maps c f v = (case in_contract c v of
     Some i \<Rightarrow> Some (pte_value (page_virt (rc_phys_start c) i) (rc_pte_flags c)) | None \<Rightarrow> f v)"

lemma pte_value_present:
  assumes "has_flag flags VMM_PRESENT" and "\<not> has_flag flags VMM_DEMAND"
  shows "present_leaf (pte_value phys flags) = Some (pte_value phys flags)"
proof -
  have "(flags AND (VMM_PRESENT OR f)) AND VMM_PRESENT = flags AND VMM_PRESENT" for f by (rule bit_word_eqI) (auto simp: bit_simps)
  then show ?thesis using assms by (simp add: present_leaf_def pte_value_def has_flag_or) (simp add: has_flag_def)
qed

lemma run_map_ok:
  assumes ok: "vm_ok H root st" and root: "proc_root proc st = Some root" and op: "rc_op c = VMM_CONTRACT_OP_MAP"
    and reg: "contract_in H c" and fl: "has_flag (rc_pte_flags c) VMM_PRESENT" "\<not> has_flag (rc_pte_flags c) VMM_HUGE"
  shows "\<exists>b st'. run_contract epoch proc c st = VRet b st' \<and>
     apply_effect H root (if b then contract_maps c (view root st) else view root st) st st' \<and>
     (b \<longrightarrow> contract_check c = VMM_CONTRACT_RESULT_OK \<and> (\<forall>i<contract_pages c. view root st (page_virt (rc_virt_start c) i) = None))"
proof (cases "fst (vmm_compile_region_contract c st)")
  case (Inl r)
  then obtain f where "vmm_compile_region_contract c st = (Inl r, upd_vm_metrics f st)"
    by (auto simp: vmm_compile_region_contract_def split: vmm_contract_result_t.splits)
  then show ?thesis using vm_step_refl[OF ok] by (intro exI[of _ False]) (simp add: run_contract_def apply_effect_def)
next
  case (Inr cm)
  then obtain st1 where cp: "vmm_compile_region_contract c st = (Inr cm, st1)" by (cases "vmm_compile_region_contract c st") auto
  note C = compile_pages[OF cp]
  note K = contract_check_ok[OF C(1)]
  have "\<exists>r n st'. apply_map epoch proc cm st1 = VRet (r, n) st' \<and>
     apply_effect H root (if r = VMM_CONTRACT_RESULT_OK then mapped_by cm (view root st1) else view root st1) st1 st' \<and>
     (r = VMM_CONTRACT_RESULT_OK \<longrightarrow> n = unat (cm_page_count cm) \<and> (\<forall>i<n. view root st1 (page_virt (cm_virt_start cm) i) = None))"
  proof (rule apply_map_ok)
    show "region_ok H (cm_virt_start cm) [0 ..< unat (cm_page_count cm)]" using contract_region_ok[OF C(1) reg] by (simp add: C)
    show "present_leaf (pte_value phys (cm_pte_flags cm)) = Some (pte_value phys (cm_pte_flags cm))" for phys
      using pte_value_present[of "rc_pte_flags c"] K(6)[OF op fl(1)] fl by (simp add: C)
  qed (use ok root K fl op in \<open>simp_all add: C\<close>)
  then obtain r n st' where A: "apply_map epoch proc cm st1 = VRet (r, n) st'"
    "apply_effect H root (if r = VMM_CONTRACT_RESULT_OK then mapped_by cm (view root st1) else view root st1) st1 st'"
    "r = VMM_CONTRACT_RESULT_OK \<longrightarrow> n = unat (cm_page_count cm) \<and> (\<forall>i<n. view root st1 (page_virt (cm_virt_start cm) i) = None)" by blast
  note R = apply_result[OF C(3), of proc st1 epoch r n st']
  have "run_contract epoch proc c st = VRet (r = VMM_CONTRACT_RESULT_OK)
      (vmm_contract_log_push (logged_contract cm r n) (upd_vm_metrics (count_apply (r = VMM_CONTRACT_RESULT_OK)) st'))"
    using R A(1) root op cp by (simp add: run_contract_def C)
  moreover have "mapped_by cm f = contract_maps c f" for f by (simp add: fun_eq_iff mapped_by_def contract_maps_def in_contract_def C split: option.splits)
  ultimately show ?thesis using A(2,3) C(1) by (auto simp: C split: if_splits)
qed


lemma run_unmap_ok:
  assumes ok: "vm_ok H root st" and root: "proc_root proc st = Some root" and op: "rc_op c = VMM_CONTRACT_OP_UNMAP"
    and reg: "contract_in H c" and nh: "\<forall>i<contract_pages c. \<not> huge_at root (vm_mem st) (page_virt (rc_virt_start c) i)"
  shows "\<exists>b st'. run_contract epoch proc c st = VRet b st' \<and>
     (b \<longleftrightarrow> contract_check c = VMM_CONTRACT_RESULT_OK \<and> (\<forall>i<contract_pages c. view root st (page_virt (rc_virt_start c) i) \<noteq> None)) \<and>
     apply_effect H root (\<lambda>v. if b \<and> in_contract c v \<noteq> None then None else view root st v) st st' \<and>
     vm_invalidated st' = vm_invalidated st @ (if b then map (page_virt (rc_virt_start c)) [0 ..< contract_pages c] else [])"
proof (cases "fst (vmm_compile_region_contract c st)")
  case (Inl r)
  then obtain f where "vmm_compile_region_contract c st = (Inl r, upd_vm_metrics f st)" "contract_check c \<noteq> VMM_CONTRACT_RESULT_OK"
    by (auto simp: vmm_compile_region_contract_def split: vmm_contract_result_t.splits)
  then show ?thesis using vm_step_refl[OF ok] by (intro exI[of _ False]) (simp add: run_contract_def apply_effect_def)
next
  case (Inr cm)
  then obtain st1 where cp: "vmm_compile_region_contract c st = (Inr cm, st1)" by (cases "vmm_compile_region_contract c st") auto
  note C = compile_pages[OF cp]
  have ok1: "vm_ok H root st1" "proc_root proc st1 = Some root" using ok root by (simp_all add: C(8))
  have r1: "region_ok H (cm_virt_start cm) [0 ..< unat (cm_page_count cm)]" using contract_region_ok[OF C(1) reg] by (simp add: C)
  have h1: "\<forall>i<unat (cm_page_count cm). \<not> huge_at root (vm_mem st1) (page_virt (cm_virt_start cm) i)" using nh by (simp add: C)
  obtain r n st' where A: "apply_unmap proc cm st1 = VRet (r, n) st'"
     "r = VMM_CONTRACT_RESULT_OK \<longleftrightarrow> (\<forall>i<unat (cm_page_count cm). view root st1 (page_virt (cm_virt_start cm) i) \<noteq> None)"
     "apply_effect H root (\<lambda>v. if r = VMM_CONTRACT_RESULT_OK \<and> page_in (cm_virt_start cm) [0 ..< unat (cm_page_count cm)] v \<noteq> None
        then None else view root st1 v) st1 st'"
     "vm_invalidated st' = vm_invalidated st1 @
       (if r = VMM_CONTRACT_RESULT_OK then map (page_virt (cm_virt_start cm)) [0 ..< unat (cm_page_count cm)] else [])"
    using apply_unmap_ok[OF ok1 r1 h1] by blast
  have "run_contract epoch proc c st = VRet (r = VMM_CONTRACT_RESULT_OK)
      (vmm_contract_log_push (logged_contract cm r n) (upd_vm_metrics (count_apply (r = VMM_CONTRACT_RESULT_OK)) st'))"
    using apply_result[OF C(3), of proc st1 epoch r n st'] A(1) root op cp by (simp add: run_contract_def C)
  then show ?thesis using A(2-4)[unfolded C(2,4,8) vm_frame apply_effect_frame] C(1) unfolding in_contract_def
    by (intro exI[of _ "r = VMM_CONTRACT_RESULT_OK"]) simp
qed

section \<open>Single pages\<close>

lemma proc_contract_sel [simp]: "rc_op (proc_contract proc op virt phys len flags) = op" "rc_virt_start (proc_contract proc op virt phys len flags) = virt"
  "rc_phys_start (proc_contract proc op virt phys len flags) = phys" "rc_pte_flags (proc_contract proc op virt phys len flags) = flags"
  "rc_length (proc_contract proc op virt phys len flags) = len"
  by (simp_all add: proc_contract_def)

lemma page_virt_0 [simp]: "page_virt start 0 = start"
  by (simp add: page_virt_def)

lemma single_pages: "contract_pages (proc_contract proc op virt phys (word_of_nat PAGE_SIZE) flags) = 1"
  "contract_in H (proc_contract proc op virt phys (word_of_nat PAGE_SIZE) flags) \<longleftrightarrow> pml4_index virt \<in> H"
  "in_contract (proc_contract proc op virt phys (word_of_nat PAGE_SIZE) flags) v = (if vpath v = vpath virt then Some 0 else None)"
  by (simp_all add: contract_pages_def contract_in_def in_contract_def proc_contract_def PAGE_SIZE_def page_virt_def)

lemma map_page_ok:
  assumes ok: "vm_ok H root st" and root: "proc_root proc st = Some root" and H: "pml4_index virt \<in> H"
    and fl: "has_flag flags VMM_PRESENT" "\<not> has_flag flags VMM_HUGE"
  shows "\<exists>b st'. vmm_map epoch proc virt phys flags st = VRet b st' \<and>
     apply_effect H root (\<lambda>v. if b \<and> vpath v = vpath virt then Some (pte_value phys flags) else view root st v) st st' \<and>
     (b \<longrightarrow> contract_check (proc_contract proc VMM_CONTRACT_OP_MAP virt phys (word_of_nat PAGE_SIZE) flags) = VMM_CONTRACT_RESULT_OK \<and> view root st virt = None)"
proof -
  let ?c = "proc_contract proc VMM_CONTRACT_OP_MAP virt phys (word_of_nat PAGE_SIZE) flags"
  have c: "rc_op ?c = VMM_CONTRACT_OP_MAP" "rc_pte_flags ?c = flags" "page_virt (rc_virt_start ?c) 0 = virt" "page_virt (rc_phys_start ?c) 0 = phys"
    by (simp_all add: proc_contract_def page_virt_def)
  obtain b st' where R: "run_contract epoch proc ?c st = VRet b st'"
     "apply_effect H root (if b then contract_maps ?c (view root st) else view root st) st st'"
     "b \<longrightarrow> contract_check ?c = VMM_CONTRACT_RESULT_OK \<and> (\<forall>i<contract_pages ?c. view root st (page_virt (rc_virt_start ?c) i) = None)"
    using run_map_ok[OF ok root c(1), of epoch] H fl c(2) by (auto simp: single_pages)
  have "(if b then contract_maps ?c (view root st) else view root st) =
      (\<lambda>v. if b \<and> vpath v = vpath virt then Some (pte_value phys flags) else view root st v)"
    using c by (auto simp: fun_eq_iff contract_maps_def single_pages)
  then show ?thesis using R c by (auto simp: vmm_map_def single_pages)
qed


lemma bit_addr_mask: "bit (0x000FFFFFFFFFF000 :: u64) k \<longleftrightarrow> 12 \<le> k \<and> k < 52"
proof -
  have e: "(0x000FFFFFFFFFF000 :: u64) = push_bit 12 (mask 40)" by (simp add: mask_eq_exp_minus_1 push_bit_eq_mult)
  show ?thesis unfolding e by (auto simp: bit_push_bit_iff bit_mask_iff)
qed

lemma bit_flags: "bit VMM_PRESENT k \<longleftrightarrow> k = 0" "bit VMM_WRITABLE k \<longleftrightarrow> k = 1" "bit VMM_USER k \<longleftrightarrow> k = 2" "bit VMM_ACCESSED k \<longleftrightarrow> k = 5"
  "bit VMM_DIRTY k \<longleftrightarrow> k = 6" "bit VMM_HUGE k \<longleftrightarrow> k = 7" "bit VMM_DEMAND k \<longleftrightarrow> k = 9" "bit VMM_COW k \<longleftrightarrow> k = 10" "bit VMM_NX k \<longleftrightarrow> k = 63"
proof -
  have e: "VMM_PRESENT = 2 ^ 0" "VMM_WRITABLE = 2 ^ 1" "VMM_USER = 2 ^ 2" "VMM_ACCESSED = 2 ^ 5" "VMM_DIRTY = 2 ^ 6" "VMM_HUGE = 2 ^ 7"
    "VMM_DEMAND = 2 ^ 9" "VMM_COW = 2 ^ 10" "VMM_NX = 2 ^ 63" by (simp_all add: vmm_flag_defs)
  show "bit VMM_PRESENT k \<longleftrightarrow> k = 0" "bit VMM_WRITABLE k \<longleftrightarrow> k = 1" "bit VMM_USER k \<longleftrightarrow> k = 2" "bit VMM_ACCESSED k \<longleftrightarrow> k = 5"
    "bit VMM_DIRTY k \<longleftrightarrow> k = 6" "bit VMM_HUGE k \<longleftrightarrow> k = 7" "bit VMM_DEMAND k \<longleftrightarrow> k = 9" "bit VMM_COW k \<longleftrightarrow> k = 10" "bit VMM_NX k \<longleftrightarrow> k = 63"
    unfolding e bit_exp_iff by auto
qed

lemma has_flag_bit: "has_flag e VMM_PRESENT = bit e 0" "has_flag e VMM_WRITABLE = bit e 1" "has_flag e VMM_USER = bit e 2" "has_flag e VMM_HUGE = bit e 7"
  "has_flag e VMM_DEMAND = bit e 9" "has_flag e VMM_COW = bit e 10" "has_flag e VMM_NX = bit e 63"
  by (auto simp: has_flag_def bit_eq_iff[of "e AND _"] bit_and_iff bit_flags)

lemma pte_value_bits:
  assumes "\<not> has_flag flags VMM_DEMAND" and "take_bit 12 phys = 0"
  shows "\<not> has_flag (pte_value phys flags) VMM_HUGE" and "drop_bit 52 phys = 0 \<Longrightarrow> pte_value phys flags AND 0x000FFFFFFFFFF000 = phys"
proof -
  have e: "pte_value phys flags = table_of phys OR (flags AND (VMM_PRESENT OR VMM_WRITABLE OR VMM_USER OR VMM_NX OR VMM_ACCESSED OR VMM_DIRTY OR VMM_COW OR VMM_DEMAND))"
    using assms(1) by (simp add: pte_value_def table_of_def)
  show "\<not> has_flag (pte_value phys flags) VMM_HUGE" unfolding e has_flag_bit by (simp add: bit_simps bit_table_of bit_flags)
  assume hi: "drop_bit 52 phys = 0"
  have lo: "\<not> bit phys k" if "k < 12" for k
  proof -
    have "bit (take_bit 12 phys) k = bit phys k" using that by (simp add: bit_take_bit_iff)
    then show ?thesis using assms(2) by simp
  qed
  have h: "\<not> bit phys k" if "52 \<le> k" for k
  proof -
    have "bit (drop_bit 52 phys) (k - 52) = bit phys k" using that by (simp add: bit_drop_bit_eq)
    then show ?thesis using hi by simp
  qed
  show "pte_value phys flags AND 0x000FFFFFFFFFF000 = phys"
  proof (rule bit_word_eqI)
    fix k
    have "bit (pte_value phys flags AND 0x000FFFFFFFFFF000) k \<longleftrightarrow> bit phys k \<and> 12 \<le> k \<and> k < 52"
      unfolding e bit_and_iff bit_or_iff bit_addr_mask bit_table_of bit_flags by auto
    then show "bit (pte_value phys flags AND 0x000FFFFFFFFFF000) k = bit phys k" using lo[of k] h[of k] not_le by blast
  qed
qed


lemma virt_to_phys_view:
  "vmm_virt_to_phys (Some root) v st = (case view root st v of None \<Rightarrow> 0 | Some e \<Rightarrow> (e AND 0x000FFFFFFFFFF000) OR (v AND 0xFFF))"
  by (auto simp: vmm_virt_to_phys_def mapped_def Let_def split: option.splits)

lemma unmap_check:
  assumes "contract_check (proc_contract proc VMM_CONTRACT_OP_MAP virt phys len flags) = VMM_CONTRACT_RESULT_OK"
  shows "contract_check (proc_contract proc VMM_CONTRACT_OP_UNMAP virt 0 len 0) = VMM_CONTRACT_RESULT_OK"
  using assms by (auto simp: contract_check_def proc_contract_def Let_def split: if_splits)

lemma map_unmap_page:
  assumes ok: "vm_ok H root st" and root: "proc_root proc st = Some root" and H: "pml4_index virt \<in> H"
    and fl: "has_flag flags VMM_PRESENT" "\<not> has_flag flags VMM_HUGE" and run: "vmm_map epoch proc virt phys flags st = VRet True st1"
  shows "view root st1 virt = Some (pte_value phys flags)"
    and "\<exists>st2. vmm_unmap_region e2 proc virt (word_of_nat PAGE_SIZE) st1 = VRet True st2 \<and> apply_effect H root (view root st) st1 st2"
    and "take_bit 12 phys = 0" and "\<not> has_flag flags VMM_DEMAND" and "proc_root proc st1 = Some root"
proof -
  let ?c = "proc_contract proc VMM_CONTRACT_OP_MAP virt phys (word_of_nat PAGE_SIZE) flags"
  let ?u = "proc_contract proc VMM_CONTRACT_OP_UNMAP virt 0 (word_of_nat PAGE_SIZE) 0"
  have M: "apply_effect H root (\<lambda>v. if vpath v = vpath virt then Some (pte_value phys flags) else view root st v) st st1"
    and chk: "contract_check ?c = VMM_CONTRACT_RESULT_OK" and free: "view root st virt = None"
    using map_page_ok[OF ok root H fl, of epoch phys] run by auto
  note K = contract_check_ok[OF chk]
  show ph: "take_bit 12 phys = 0" using K(5) unfolding aligned_take_bit by (simp add: proc_contract_def)
  show nd: "\<not> has_flag flags VMM_DEMAND" using K(6) fl by (simp add: proc_contract_def)
  show vw: "view root st1 virt = Some (pte_value phys flags)" using M H by (simp add: apply_effect_def)
  show root1: "proc_root proc st1 = Some root" using M root by (auto simp: apply_effect_def vm_step_def proc_root_def split: option.splits)
  have nh: "\<not> huge_at root (vm_mem st1) virt"
    using vw pte_value_bits(1)[OF nd ph] by (auto simp: mapped_entries huge_at_def Let_def split: if_splits)
  have "vm_ok H root st1" using M by (simp add: apply_effect_def vm_step_def)
  moreover have "rc_op ?u = VMM_CONTRACT_OP_UNMAP" "contract_in H ?u" using H by (simp_all add: single_pages)
  moreover have "\<forall>i<contract_pages ?u. \<not> huge_at root (vm_mem st1) (page_virt (rc_virt_start ?u) i)" using nh by (simp add: single_pages)
  ultimately obtain b st2 where U: "run_contract e2 proc ?u st1 = VRet b st2"
      "b \<longleftrightarrow> contract_check ?u = VMM_CONTRACT_RESULT_OK \<and> (\<forall>i<contract_pages ?u. view root st1 (page_virt (rc_virt_start ?u) i) \<noteq> None)"
      "apply_effect H root (\<lambda>v. if b \<and> in_contract ?u v \<noteq> None then None else view root st1 v) st1 st2"
    using run_unmap_ok[OF _ root1, of H ?u e2] by blast
  have "b" using U(2) unmap_check[OF chk] vw by (simp add: single_pages)
  moreover have "view root st2 v = view root st v" if v: "pml4_index v \<in> H" for v
  proof -
    have "view root st2 v = (if vpath v = vpath virt then None else view root st1 v)" using U(3) v \<open>b\<close> by (simp add: apply_effect_def single_pages)
    then show ?thesis using M v free mapped_vpath[of v virt root "vm_mem st"] by (simp add: apply_effect_def)
  qed
  ultimately show "\<exists>st2. vmm_unmap_region e2 proc virt (word_of_nat PAGE_SIZE) st1 = VRet True st2 \<and> apply_effect H root (view root st) st1 st2"
    using U(1,3) by (auto simp: vmm_unmap_region_def single_pages apply_effect_def)
qed


section \<open>A sample address space\<close>

definition sample_vm :: vmm_st where
  "sample_vm = \<lparr>vm_pmm = sample_pmm\<lparr>pm_mem := \<lambda>_. 0\<rparr>, vm_kernel_pml4 = Some 0, vm_hhdm_offset = 0xffff800000000000,
     vm_contract_log = replicate 128 (proc_contract None VMM_CONTRACT_OP_MAP 0 0 0 0), vm_contract_log_head = 0, vm_contract_log_count = 0,
     vm_contract_metrics = \<lparr>vc_compile_ok = 0, vc_compile_fail = 0, vc_apply_ok = 0, vc_apply_fail = 0, vc_rollback_attempts = 0, vc_rollback_failures = 0\<rparr>,
     vm_switch = \<lparr>vs_cr3 = 0, vs_pcid_enabled = False, vs_pcid_switches = 0, vs_pcid_switch_flushes = 0\<rparr>, vm_invalidated = []\<rparr>"

lemma empty_tree:
  assumes "\<And>x. x \<in> page (unat root) \<Longrightarrow> m x = 0" and "root \<in> U"
  shows "pt_tree H root U m"
proof -
  have get: "pt_get root i m = 0" if "i < 512" for i
    unfolding pt_get_def by (rule read_word_zero, rule assms(1)) (use that in \<open>auto simp: page_def PAGE_SIZE_def\<close>)
  have none: "node root m (i # p) = None" if "path_ok H (i # p)" for i p
    using that
  proof (induction p arbitrary: i)
    case Nil
    then show ?case using get by (simp add: path_ok_def)
  next
    case (Cons j p)
    then show ?case using path_ok_Cons(1)[OF Cons.prems] by simp
  qed
  have N: "node root m p = (if p = [] then Some root else None)" if "path_ok H p" for p
    using none that by (cases p) (simp_all del: node.simps(2))
  show ?thesis unfolding pt_tree_def using assms(2) by (auto simp: N split: if_splits)
qed

lemma pmm_mem_free: "free_set (pm\<lparr>pm_mem := m\<rparr>) = free_set pm"
  by (simp add: free_set_def)

lemma sample_vm_ok: "vm_ok H 0 sample_vm"
  unfolding vm_ok_def
proof
  show "pmm_inv (vm_pmm sample_vm)" by (simp add: sample_vm_def sample_pmm_inv)
  show "pt_tree H 0 (used_frames (vm_pmm sample_vm)) (vm_mem sample_vm)"
    by (rule empty_tree) (simp_all add: sample_vm_def vm_mem_def used_frames_def sample_pmm_free sample_pmm_total pmm_mem_free)
qed


lemma sample_vm_empty: "mapped 0 (vm_mem sample_vm) v = None" "\<not> huge_at 0 (vm_mem sample_vm) v"
proof -
  have z: "pt_get t k (vm_mem sample_vm) = 0" for t k unfolding pt_get_def by (rule read_word_zero) (simp add: sample_vm_def vm_mem_def)
  have "node 0 (vm_mem sample_vm) (i # p) = None" for i p by (auto simp: z split: option.splits)
  then have "entry_at 0 (vm_mem sample_vm) (i # j # p) = 0" for i j p by (simp del: node.simps)
  then show "mapped 0 (vm_mem sample_vm) v = None" "\<not> huge_at 0 (vm_mem sample_vm) v"
    by (simp_all add: mapped_entries huge_at_def vpath_def del: node.simps entry_at.simps)
qed

lemma sample_map: "case vmm_map 1 None 0x400000 0x5000 PAGE_USER_DATA sample_vm of VRet b _ \<Rightarrow> b | _ \<Rightarrow> False"
  by code_simp

section \<open>Properties\<close>

text \<open>
  C13: mapping a region is atomic and exact.  Take an address space whose tables, below the top-level slots \<open>H\<close>, form a
  tree of frames in use.  A contract that maps a region of those slots with present 4 KiB pages then always returns, without
  panic.  If it succeeds, it was well formed, no page of the region was mapped before, and afterwards each page maps to
  its frame with the flags asked for.  If it fails, for lack of memory half way through included, the address space maps
  exactly what it did before.  In both cases every other page maps what it did, the tables still form a tree, no frame in use is given
  up or becomes a table, and no byte of a frame in use changes outside the tables.
\<close>

theorem vmm_map_region_atomic:
  assumes "vm_ok H root st" and "proc_root proc st = Some root" and "rc_op c = VMM_CONTRACT_OP_MAP" and "contract_in H c"
    and "has_flag (rc_pte_flags c) VMM_PRESENT" and "\<not> has_flag (rc_pte_flags c) VMM_HUGE"
  shows "\<exists>b st'. run_contract epoch proc c st = VRet b st' \<and> vm_step H root st st' \<and>
     (\<forall>v. pml4_index v \<in> H \<longrightarrow> mapped root (vm_mem st') v =
        (case in_contract c v of
           Some i \<Rightarrow> if b then Some (pte_value (page_virt (rc_phys_start c) i) (rc_pte_flags c)) else mapped root (vm_mem st) v
         | None \<Rightarrow> mapped root (vm_mem st) v)) \<and>
     (b \<longrightarrow> contract_check c = VMM_CONTRACT_RESULT_OK \<and> (\<forall>i<contract_pages c. mapped root (vm_mem st) (page_virt (rc_virt_start c) i) = None))"
proof -
  obtain b st' where R: "run_contract epoch proc c st = VRet b st'"
     "apply_effect H root (if b then contract_maps c (view root st) else view root st) st st'"
     "b \<longrightarrow> contract_check c = VMM_CONTRACT_RESULT_OK \<and> (\<forall>i<contract_pages c. view root st (page_virt (rc_virt_start c) i) = None)"
    using run_map_ok[OF assms, of epoch] by blast
  then show ?thesis
    by (intro exI[of _ b] exI[of _ st']) (auto simp: apply_effect_def contract_maps_def split: option.splits)
qed

theorem vmm_map_region_atomic_witness:
  "\<exists>b st'. run_contract 1 None (proc_contract None VMM_CONTRACT_OP_MAP 0x400000 0x5000 0x2000 PAGE_USER_DATA) sample_vm = VRet b st' \<and>
     vm_step {0 ..< 256} 0 sample_vm st'"
proof -
  let ?c = "proc_contract None VMM_CONTRACT_OP_MAP 0x400000 0x5000 0x2000 PAGE_USER_DATA"
  have "proc_root None sample_vm = Some 0" by (simp add: proc_root_def sample_vm_def)
  moreover have "contract_in {0 ..< 256} ?c"
    by (auto simp: contract_in_def contract_pages_def PAGE_SIZE_def less_2_cases_iff page_virt_def pml4_index_def)
  moreover have "has_flag PAGE_USER_DATA VMM_PRESENT" "\<not> has_flag PAGE_USER_DATA VMM_HUGE"
    by (simp_all add: has_flag_def PAGE_USER_DATA_def vmm_flag_defs)
  ultimately show ?thesis using vmm_map_region_atomic[OF sample_vm_ok, where proc = None and c = ?c and H = "{0 ..< 256}" and epoch = 1] by auto
qed

text \<open>
  C14: unmapping a region is exact.  Under the same assumptions, for a region without huge pages, the contract returns; it
  succeeds exactly when it is well formed and every page of the region is mapped; then every page of the region is
  unmapped and invalidated, in order, and every other page maps what it did; otherwise nothing is unmapped and nothing invalidated.
\<close>

theorem vmm_unmap_region_exact:
  assumes "vm_ok H root st" and "proc_root proc st = Some root" and "rc_op c = VMM_CONTRACT_OP_UNMAP" and "contract_in H c"
    and "\<forall>i<contract_pages c. \<not> huge_at root (vm_mem st) (page_virt (rc_virt_start c) i)"
  shows "\<exists>b st'. run_contract epoch proc c st = VRet b st' \<and> vm_step H root st st' \<and>
     (b \<longleftrightarrow> contract_check c = VMM_CONTRACT_RESULT_OK \<and> (\<forall>i<contract_pages c. mapped root (vm_mem st) (page_virt (rc_virt_start c) i) \<noteq> None)) \<and>
     (\<forall>v. pml4_index v \<in> H \<longrightarrow> mapped root (vm_mem st') v = (if b \<and> in_contract c v \<noteq> None then None else mapped root (vm_mem st) v)) \<and>
     vm_invalidated st' = vm_invalidated st @ (if b then map (page_virt (rc_virt_start c)) [0 ..< contract_pages c] else [])"
  using run_unmap_ok[OF assms, of epoch] unfolding apply_effect_def by blast

theorem vmm_unmap_region_exact_witness:
  "\<exists>st'. run_contract 1 None (proc_contract None VMM_CONTRACT_OP_UNMAP 0x400000 0 0x2000 0) sample_vm = VRet False st' \<and> vm_invalidated st' = []"
proof -
  let ?c = "proc_contract None VMM_CONTRACT_OP_UNMAP 0x400000 0 0x2000 0"
  have n: "contract_pages ?c = 2" by (simp add: contract_pages_def PAGE_SIZE_def)
  have root: "proc_root None sample_vm = Some 0" by (simp add: proc_root_def sample_vm_def)
  have reg: "contract_in {0 ..< 256} ?c"
    unfolding contract_in_def n by (auto simp: less_2_cases_iff page_virt_def pml4_index_def PAGE_SIZE_def)
  have nh: "\<forall>i<contract_pages ?c. \<not> huge_at 0 (vm_mem sample_vm) (page_virt (rc_virt_start ?c) i)" using sample_vm_empty by simp
  obtain b st' where R: "run_contract 1 None ?c sample_vm = VRet b st'"
      "b \<longleftrightarrow> contract_check ?c = VMM_CONTRACT_RESULT_OK \<and> (\<forall>i<contract_pages ?c. mapped 0 (vm_mem sample_vm) (page_virt (rc_virt_start ?c) i) \<noteq> None)"
      "vm_invalidated st' = vm_invalidated sample_vm @ (if b then map (page_virt (rc_virt_start ?c)) [0 ..< contract_pages ?c] else [])"
    using vmm_unmap_region_exact[OF sample_vm_ok root _ reg nh, of 1] by auto
  have "0 < contract_pages ?c" by (simp add: n)
  then have "\<not> b" using R(2) sample_vm_empty(1) by blast
  then show ?thesis using R(1,3) by (simp add: sample_vm_def)
qed

text \<open>
  C17: a page that has been mapped translates to its frame, and unmapping it restores the address space.  After a
  successful \<open>vmm_map\<close>, \<open>vmm_virt_to_phys\<close> gives the frame and the offset for every address of the page, the page
  can be unmapped, and then every address translates as before the call, the page itself to 0.
\<close>

theorem vmm_map_roundtrip:
  assumes "vm_ok H root st" and "proc_root proc st = Some root" and "pml4_index virt \<in> H" and "drop_bit 52 phys = 0"
    and "has_flag flags VMM_PRESENT" and "\<not> has_flag flags VMM_HUGE" and "vmm_map epoch proc virt phys flags st = VRet True st1"
  shows "(\<forall>v. vpath v = vpath virt \<longrightarrow> vmm_virt_to_phys (Some root) v st1 = phys OR (v AND 0xFFF)) \<and>
     (\<exists>st2. vmm_unmap_region e2 proc virt (word_of_nat PAGE_SIZE) st1 = VRet True st2 \<and> vmm_virt_to_phys (Some root) virt st2 = 0 \<and>
        (\<forall>v. pml4_index v \<in> H \<longrightarrow> vmm_virt_to_phys (Some root) v st2 = vmm_virt_to_phys (Some root) v st))"
proof -
  note M = map_unmap_page[OF assms(1-3,5-7)]
  obtain st2 where U: "vmm_unmap_region e2 proc virt (word_of_nat PAGE_SIZE) st1 = VRet True st2" "apply_effect H root (view root st) st1 st2"
    using M(2) by blast
  have "view root st virt = None" using map_page_ok[OF assms(1-3,5,6), of epoch phys] assms(7) by auto
  then have "\<forall>v. pml4_index v \<in> H \<longrightarrow> vmm_virt_to_phys (Some root) v st2 = vmm_virt_to_phys (Some root) v st" "vmm_virt_to_phys (Some root) virt st2 = 0"
    using U(2) assms(3) by (simp_all add: virt_to_phys_view apply_effect_def)
  moreover have "vmm_virt_to_phys (Some root) v st1 = phys OR (v AND 0xFFF)" if "vpath v = vpath virt" for v
    using M(1) mapped_vpath[OF that] pte_value_bits(2)[OF M(4,3) assms(4)] by (simp add: virt_to_phys_view)
  ultimately show ?thesis using U(1) by blast
qed


theorem vmm_map_roundtrip_witness:
  "\<exists>st1 st2. vmm_map 1 None 0x400000 0x5000 PAGE_USER_DATA sample_vm = VRet True st1 \<and> vmm_virt_to_phys (Some 0) 0x400123 st1 = 0x5123 \<and>
     vmm_unmap_region 2 None 0x400000 (word_of_nat PAGE_SIZE) st1 = VRet True st2 \<and> vmm_virt_to_phys (Some 0) 0x400123 st2 = 0"
proof -
  have root: "proc_root None sample_vm = Some 0" by (simp add: proc_root_def sample_vm_def)
  have fl: "has_flag PAGE_USER_DATA VMM_PRESENT" "\<not> has_flag PAGE_USER_DATA VMM_HUGE" by (simp_all add: has_flag_def PAGE_USER_DATA_def vmm_flag_defs)
  have H: "pml4_index 0x400000 \<in> {0 ..< 256}" "pml4_index 0x400123 \<in> {0 ..< 256}" and p: "vpath 0x400123 = vpath 0x400000"
    by (simp_all add: vpath_def pml4_index_def pdpt_index_def pd_index_def pt_index_def)
  obtain b st1 where run: "vmm_map 1 None 0x400000 0x5000 PAGE_USER_DATA sample_vm = VRet b st1" and n: "b \<longrightarrow> view 0 sample_vm 0x400000 = None"
    using map_page_ok[OF sample_vm_ok root H(1) fl, of 1 "0x5000"] by blast
  have b: "b = True" using sample_map run by simp
  note R = vmm_map_roundtrip[OF sample_vm_ok root H(1) _ fl run[unfolded b], of 2]
  have "view 0 sample_vm 0x400123 = None" using n b mapped_vpath[OF p] by simp
  then show ?thesis using R run b p H(2) by (auto simp: virt_to_phys_view)
qed

end
