(* ===== verification/Vmm_Fault.thy ===== *)
theory Vmm_Fault
  imports Vmm_Map
begin

text \<open>
  Page faults, forked and destroyed address spaces.
\<close>

section \<open>Page faults\<close>

text \<open>The faults that are repaired: a demand page that is not there yet, and a write to a copy-on-write page.\<close>

definition demand_fault :: "u64 \<Rightarrow> bool" where
  "demand_fault e \<longleftrightarrow> \<not> has_flag e VMM_PRESENT \<and> has_flag e VMM_DEMAND"

definition cow_fault :: "u64 \<Rightarrow> u64 \<Rightarrow> bool" where
  "cow_fault error_code e \<longleftrightarrow> has_flag e VMM_PRESENT \<and> has_flag e VMM_COW \<and> has_flag error_code 2 \<and> \<not> has_flag e VMM_WRITABLE"

definition fault_entry :: "u64 \<Rightarrow> u64 \<Rightarrow> u64" where
  "fault_entry e new_frame =
     (if has_flag e VMM_PRESENT then (new_frame AND 0x000FFFFFFFFFF000) OR (e AND 0xFFF AND NOT VMM_COW) OR VMM_WRITABLE OR VMM_PRESENT
      else table_of new_frame OR (e AND 0xFFF) OR VMM_PRESENT)"

lemma fault_path: "vpath (table_of v) = vpath v" "pml4_index (table_of v) = pml4_index v"
proof -
  show p: "vpath (table_of v) = vpath v" by (simp add: vpath_eq_iff bit_table_of)
  then show "pml4_index (table_of v) = pml4_index v" by (simp add: vpath_def)
qed

lemma handle_fault_walk:
  assumes "root = table_of (read_cr3 st)" and "e = entry_at root (vm_mem st) (vpath vaddr)"
  shows "vmm_handle_fault epoch proc vaddr error_code st =
    (if \<not> demand_fault e \<and> \<not> cow_fault error_code e then (False, st)
     else (case node root (vm_mem st) (tl (vpath vaddr)) of None \<Rightarrow> (False, st) | Some pt \<Rightarrow>
       case pmm_alloc epoch (proc_color proc) (proc_pid proc) (vm_pmm st) of (f, pm) \<Rightarrow>
         if f = 0 then (False, st\<lparr>vm_pmm := pm\<rparr>)
         else (True, cpu_tlb_shootdown_page (table_of vaddr) (upd_vm_mem (pt_set pt (pt_index vaddr) (fault_entry e f))
           (upd_vm_mem (if has_flag e VMM_PRESENT then copy_page f (e AND 0x000FFFFFFFFFF000) else hyper_scrub (unat f) (PAGE_SIZE div 8)) (st\<lparr>vm_pmm := pm\<rparr>))))))"
proof -
  have idx: "pml4_index (table_of vaddr) = pml4_index vaddr" "pdpt_index (table_of vaddr) = pdpt_index vaddr"
    "pd_index (table_of vaddr) = pd_index vaddr" "pt_index (table_of vaddr) = pt_index vaddr"
    using fault_path(1)[of vaddr] by (simp_all add: vpath_def)
  show ?thesis
    unfolding vmm_handle_fault_def Let_def idx assms(1)[symmetric] assms(2)
    by (auto simp: vpath_def leads_def demand_fault_def cow_fault_def fault_entry_def split: prod.splits)
qed


text \<open>A frame is allocated and filled, then a leaf entry set.\<close>

lemma fill_and_set:
  assumes ok: "vm_ok H root st" and H: "pml4_index virt \<in> H" and n: "node root (vm_mem st) (tl (vpath virt)) = Some pt"
    and run: "pmm_alloc epoch c ow (vm_pmm st) = (f, pm)" "f \<noteq> 0" and g: "\<forall>m x. g m x \<noteq> m x \<longrightarrow> f \<noteq> 0 \<and> x \<in> page (unat f)"
    and e: "has_flag e VMM_PRESENT"
  defines "st' \<equiv> upd_vm_mem (pt_set pt (pt_index virt) e) (upd_vm_mem g (st\<lparr>vm_pmm := pm\<rparr>))"
  shows "vm_step H root st st'" and "f \<notin> used_frames (vm_pmm st)" and "f \<in> used_frames (vm_pmm st')"
    and "pml4_index v \<in> H \<Longrightarrow> view root st' v = (if vpath v = vpath virt then Some e else view root st v)"
    and "x \<in> page (unat f) \<Longrightarrow> vm_mem st' x = g (pm_mem pm) x"
proof -
  note A = alloc_step[OF ok run(1) g]
  let ?st1 = "upd_vm_mem g (st\<lparr>vm_pmm := pm\<rparr>)"
  have inv: "pmm_inv (vm_pmm st)" and tr: "pt_tree H root (used_frames (vm_pmm st)) (vm_mem st)" using ok by (simp_all add: vm_ok_def)
  note P = pmm_alloc_frame[OF inv run(1)]
  have p: "path_ok H (pt_index virt # tl (vpath virt))" "length (tl (vpath virt)) \<le> 3" "pt_index virt # tl (vpath virt) = vpath virt" "path_ok H (tl (vpath virt))"
    using vpath_ok[OF H] by (auto simp: vpath_def)
  have n1: "node root (vm_mem ?st1) (tl (vpath virt)) = Some pt" using A(3)[OF p(4)] n by simp
  note W = write_step[OF vm_step_ok[OF A(1)] p(1,2) n1, where v = e, unfolded p(3)]
  show "vm_step H root st st'" using vm_step_trans[OF A(1) W(1)] by (simp add: st'_def)
  show fresh: "f \<notin> used_frames (vm_pmm st)" and fu: "f \<in> used_frames (vm_pmm st')" using P(3) run(2) by (simp_all add: st'_def)
  show "view root st' v = (if vpath v = vpath virt then Some e else view root st v)" if "pml4_index v \<in> H"
  proof -
    have "view root st' v = (if vpath v = vpath virt then (if has_flag e VMM_PRESENT then Some e else None) else view root ?st1 v)"
      by (rule mapped_leaf(1)[OF that n1]) (use W(2) in \<open>auto simp: st'_def\<close>)
    moreover have "view root ?st1 v = view root st v" using A(2) vpath_ok[OF that] by (simp add: mapped_entries huge_at_def)
    ultimately show ?thesis using e by simp
  qed
  have "pt \<in> used_frames (vm_pmm st)" using pt_treeD(1)[OF tr p(4,2) n] .
  then have "page (unat f) \<inter> page (unat pt) = {}" using frames_apart[of f pm pt] P(2,3) run(2) fresh by blast
  then have "x \<in> page (unat f) \<Longrightarrow> x \<notin> page (unat pt)" by blast
  then show "x \<in> page (unat f) \<Longrightarrow> vm_mem st' x = g (pm_mem pm) x" by (simp add: st'_def pt_set_outside)
qed


lemma used_frame_bits:
  assumes "pmm_inv pm" and "f \<in> used_frames pm" and "bit f k"
  shows "12 \<le> k" and "k < 44"
proof -
  have "unat f div PAGE_SIZE < 2 ^ 32" "unat f mod PAGE_SIZE = 0" using pmm_inv_bound[OF assms(1)] assms(2) by (auto simp: used_frames_def)
  then have lt: "unat f < 2 ^ 44" by (simp add: PAGE_SIZE_def)
  show "12 \<le> k" using aligned_table_of[of f] bit_table_of[of f k] assms(3) \<open>unat f mod PAGE_SIZE = 0\<close> by simp
  show "k < 44"
  proof (rule ccontr)
    assume "\<not> k < 44"
    then have "(2 :: nat) ^ 44 \<le> 2 ^ k" by (intro power_increasing) auto
    moreover have "(2 :: nat) ^ k \<le> unat f"
    proof -
      have "bit (unat f) k" using assms(3) by (simp add: bit_unsigned_iff)
      then have "odd (unat f div 2 ^ k)" by (simp add: bit_iff_odd)
      then have "unat f div 2 ^ k \<noteq> 0" by (metis even_zero)
      then show ?thesis by (metis div_less not_less)
    qed
    ultimately show False using lt by simp
  qed
qed

lemma fault_entry_bits:
  assumes "pmm_inv pm" and "f \<in> used_frames pm"
  shows "has_flag (fault_entry e f) VMM_PRESENT" and "\<not> has_flag (fault_entry e f) VMM_NX" and "fault_entry e f AND 0x000FFFFFFFFFF000 = f"
    and "has_flag e VMM_PRESENT \<Longrightarrow> has_flag (fault_entry e f) VMM_WRITABLE \<and> \<not> has_flag (fault_entry e f) VMM_COW"
    and "has_flag (fault_entry e f) VMM_USER = has_flag e VMM_USER"
    and "\<not> has_flag e VMM_PRESENT \<Longrightarrow> has_flag (fault_entry e f) VMM_WRITABLE = has_flag e VMM_WRITABLE"
proof -
  note F = used_frame_bits[OF assms]
  have low: "bit (0xFFF :: u64) k \<longleftrightarrow> k < 12" for k
  proof -
    have eq: "(0xFFF :: u64) = mask 12" by (simp add: mask_eq_exp_minus_1)
    show ?thesis unfolding eq by (auto simp: bit_mask_iff)
  qed
  have B: "bit (fault_entry e f) k \<longleftrightarrow> bit f k \<or> (k < 12 \<and> (bit e k \<and> \<not> (bit e 0 \<and> k = 10) \<or> k = 0 \<or> (bit e 0 \<and> k = 1)))" for k
  proof (cases "bit e 0")
    case True
    show ?thesis unfolding fault_entry_def has_flag_bit if_P[OF True] bit_or_iff bit_and_iff bit_not_iff bit_flags bit_addr_mask low
      using F[of k] bit_imp_le_length[of e k] True by auto
  next
    case False
    show ?thesis unfolding fault_entry_def has_flag_bit if_not_P[OF False] bit_or_iff bit_and_iff bit_table_of bit_flags low
      using F[of k] False by auto
  qed
  show "has_flag (fault_entry e f) VMM_PRESENT" and "\<not> has_flag (fault_entry e f) VMM_NX"
    and "has_flag e VMM_PRESENT \<Longrightarrow> has_flag (fault_entry e f) VMM_WRITABLE \<and> \<not> has_flag (fault_entry e f) VMM_COW"
    and "has_flag (fault_entry e f) VMM_USER = has_flag e VMM_USER"
    and "\<not> has_flag e VMM_PRESENT \<Longrightarrow> has_flag (fault_entry e f) VMM_WRITABLE = has_flag e VMM_WRITABLE"
    using F[of 0] F[of 1] F[of 2] F[of 10] F[of 63] by (auto simp: has_flag_bit B)
  show "fault_entry e f AND 0x000FFFFFFFFFF000 = f"
  proof (rule bit_word_eqI)
    fix k
    show "bit (fault_entry e f AND 0x000FFFFFFFFFF000) k = bit f k" unfolding bit_and_iff bit_addr_mask B using F[of k] by auto
  qed
qed


definition repaired :: "nat set \<Rightarrow> u64 \<Rightarrow> u64 \<Rightarrow> u64 \<Rightarrow> vmm_st \<Rightarrow> vmm_st \<Rightarrow> u64 \<Rightarrow> bool" where
  "repaired H root vaddr e st st' f \<longleftrightarrow> f \<notin> used_frames (vm_pmm st) \<and> f \<in> used_frames (vm_pmm st') \<and>
     (\<forall>v. pml4_index v \<in> H \<longrightarrow> mapped root (vm_mem st') v = (if vpath v = vpath vaddr then Some (fault_entry e f) else mapped root (vm_mem st) v)) \<and>
     (\<forall>k<PAGE_SIZE. vm_mem st' (unat f + k) = (if has_flag e VMM_PRESENT then vm_mem st (unat (e AND 0x000FFFFFFFFFF000) + k) else 0)) \<and>
     vm_invalidated st' = vm_invalidated st @ [table_of vaddr]"

lemma fill_ok:
  assumes "f \<noteq> 0"
  shows "\<forall>m x. (if b then copy_page f src else hyper_scrub (unat f) (PAGE_SIZE div 8)) m x \<noteq> m x \<longrightarrow> f \<noteq> 0 \<and> x \<in> page (unat f)"
    and "k < PAGE_SIZE \<Longrightarrow> (if b then copy_page f src else hyper_scrub (unat f) (PAGE_SIZE div 8)) m (unat f + k) = (if b then m (unat src + k) else 0)"
proof -
  show "\<forall>m x. (if b then copy_page f src else hyper_scrub (unat f) (PAGE_SIZE div 8)) m x \<noteq> m x \<longrightarrow> f \<noteq> 0 \<and> x \<in> page (unat f)"
    using assms by (auto simp: copy_page_def write_bytes_def hyper_scrub_def page_def PAGE_SIZE_def split: if_splits)
  assume k: "k < PAGE_SIZE"
  have "hyper_scrub (unat f) (PAGE_SIZE div 8) m (unat f + k) = 0" using k by (simp add: hyper_scrub_def PAGE_SIZE_def)
  moreover have "copy_page f src m (unat f + k) = m (unat src + k)" using k by (simp add: copy_page_def write_bytes_def)
  ultimately show "(if b then copy_page f src else hyper_scrub (unat f) (PAGE_SIZE div 8)) m (unat f + k) = (if b then m (unat src + k) else 0)" by simp
qed

lemma handle_fault_ok:
  assumes ok: "vm_ok H root st" and root: "root = table_of (read_cr3 st)" and H: "pml4_index vaddr \<in> H"
    and e: "e = entry_at root (vm_mem st) (vpath vaddr)" and src: "has_flag e VMM_PRESENT \<Longrightarrow> e AND 0x000FFFFFFFFFF000 \<in> used_frames (vm_pmm st)"
    and run: "vmm_handle_fault epoch proc vaddr error_code st = (b, st')"
  shows "vm_step H root st st' \<and> (if b then demand_fault e \<or> cow_fault error_code e else \<forall>v. pml4_index v \<in> H \<longrightarrow> mapped root (vm_mem st') v = mapped root (vm_mem st) v) \<and>
    (\<not> demand_fault e \<and> \<not> cow_fault error_code e \<longrightarrow> st' = st) \<and> (b \<longrightarrow> (\<exists>f. repaired H root vaddr e st st' f))"
proof (cases "\<not> demand_fault e \<and> \<not> cow_fault error_code e")
  case True
  then show ?thesis using run vm_step_refl[OF ok] by (simp add: handle_fault_walk[OF root e])
next
  case fault: False
  have "e \<noteq> 0" using fault by (auto simp: demand_fault_def cow_fault_def)
  then obtain pt where n: "node root (vm_mem st) (tl (vpath vaddr)) = Some pt" using e by (auto simp: leaf_entry split: option.splits)
  obtain f pm where al: "pmm_alloc epoch (proc_color proc) (proc_pid proc) (vm_pmm st) = (f, pm)" by fastforce
  show ?thesis
  proof (cases "f = 0")
    case True
    then have r: "b = False" "st' = upd_vm_mem id (st\<lparr>vm_pmm := pm\<rparr>)" using run fault n al by (auto simp: handle_fault_walk[OF root e] upd_vm_mem_def)
    note A = alloc_step[OF ok al, of id, simplified]
    show ?thesis using A(1,2) r vpath_ok[of _ H] fault by (auto simp: mapped_entries huge_at_def)
  next
    case f: False
    let ?g = "if has_flag e VMM_PRESENT then copy_page f (e AND 0x000FFFFFFFFFF000) else hyper_scrub (unat f) (PAGE_SIZE div 8)"
    let ?st = "upd_vm_mem (pt_set pt (pt_index vaddr) (fault_entry e f)) (upd_vm_mem ?g (st\<lparr>vm_pmm := pm\<rparr>))"
    have r: "b = True" "st' = cpu_tlb_shootdown_page (table_of vaddr) ?st" using run fault n al f by (auto simp: handle_fault_walk[OF root e])
    have inv: "pmm_inv (vm_pmm st)" using ok by (simp add: vm_ok_def)
    note P = pmm_alloc_frame[OF inv al]
    have pr: "has_flag (fault_entry e f) VMM_PRESENT" using fault_entry_bits(1)[OF P(1)] P(3) f by simp
    note F = fill_and_set[OF ok H n al f fill_ok(1)[OF f] pr]
    have bytes: "vm_mem ?st (unat f + k) = (if has_flag e VMM_PRESENT then vm_mem st (unat (e AND 0x000FFFFFFFFFF000) + k) else 0)" if k: "k < PAGE_SIZE" for k
    proof -
      have "vm_mem ?st (unat f + k) = ?g (pm_mem pm) (unat f + k)" by (rule F(5)) (use k in \<open>simp add: page_def\<close>)
      then show ?thesis using fill_ok(2)[OF f k] P(4)[OF src, of "unat (e AND 0x000FFFFFFFFFF000) + k"] k by (simp add: page_def vm_mem_def)
    qed
    have fr: "vm_mem st' = vm_mem ?st" "vm_pmm st' = vm_pmm ?st" "vm_kernel_pml4 st' = vm_kernel_pml4 ?st" "vm_invalidated st' = vm_invalidated st @ [table_of vaddr]"
      by (simp_all add: r(2) cpu_tlb_shootdown_page_def vm_mem_def upd_vm_mem_def)
    have "repaired H root vaddr e st st' f" unfolding repaired_def fr using F(2-4) bytes by blast
    moreover have "vm_step H root st st'" using F(1) unfolding vm_step_def vm_ok_def fr by simp
    ultimately show ?thesis using r(1) fault by auto
  qed
qed


section \<open>Forking an address space\<close>

lemma copy_entries:
  fixes m :: bmem
  assumes "\<forall>i\<in>set is. i < 512" and "unat new mod PAGE_SIZE = 0" and "unat src mod PAGE_SIZE = 0" and "src \<noteq> new"
  defines "m' \<equiv> fold (\<lambda>i m. pt_set new i (pt_get src i m) m) is m"
  shows "j < 512 \<Longrightarrow> pt_get new j m' = (if j \<in> set is then pt_get src j m else pt_get new j m)"
    and "x \<notin> page (unat new) \<Longrightarrow> m' x = m x"
proof -
  have "(j < 512 \<longrightarrow> pt_get new j (fold (\<lambda>i m. pt_set new i (pt_get src i m) m) is m) = (if j \<in> set is then pt_get src j m else pt_get new j m)) \<and>
     (x \<notin> page (unat new) \<longrightarrow> fold (\<lambda>i m. pt_set new i (pt_get src i m) m) is m x = m x)" for m
    using assms(1)
  proof (induction "is" arbitrary: m)
    case (Cons i "is")
    let ?m = "pt_set new i (pt_get src i m) m"
    have "pt_get src j ?m = pt_get src j m" if "j < 512" using pt_get_set_table[OF assms(2-4), of i j] Cons.prems that by simp
    then show ?case using Cons.IH[of ?m] Cons.prems pt_set_outside[of i x new "pt_get src i m" m]
      by (auto simp: pt_get_set pt_get_set_index)
  qed simp
  then show "j < 512 \<Longrightarrow> pt_get new j m' = (if j \<in> set is then pt_get src j m else pt_get new j m)"
    and "x \<notin> page (unat new) \<Longrightarrow> m' x = m x" by (simp_all add: m'_def)
qed

lemma empty_half:
  assumes "\<And>i. i \<in> H \<Longrightarrow> i < 512 \<Longrightarrow> \<not> has_flag (pt_get root i m) VMM_PRESENT" and "root \<in> U"
  shows "pt_tree H root U m" and "pml4_index v \<in> H \<Longrightarrow> mapped root m v = None"
proof -
  have N: "node root m p = (if p = [] then Some root else None)" if "path_ok H p" for p
    using that
  proof (induction p)
    case (Cons i p)
    then show ?case using path_ok_Cons(1,2)[OF Cons.prems] assms(1)[of i] by (auto simp: path_ok_def leads_def)
  qed simp
  show "pt_tree H root U m" unfolding pt_tree_def using assms(2) by (auto simp: N split: if_splits)
  show "mapped root m v = None" if "pml4_index v \<in> H"
  proof -
    have "node root m [pdpt_index v, pml4_index v] = None" using N vpath_ok[OF that] by (simp add: vpath_def del: node.simps)
    then show ?thesis by (simp add: mapped_def walk_node del: node.simps)
  qed
qed

lemma fork_ok:
  assumes inv: "pmm_inv (vm_pmm st)" and k: "vm_kernel_pml4 st = Some src" and src: "src \<in> used_frames (vm_pmm st)"
  shows "\<exists>new st'. vmm_fork_pml4 epoch st = VRet new st' \<and> pmm_inv (vm_pmm st') \<and> used_frames (vm_pmm st) \<subseteq> used_frames (vm_pmm st') \<and>
     (\<forall>t\<in>used_frames (vm_pmm st). \<forall>x\<in>page (unat t). vm_mem st' x = vm_mem st x) \<and>
     (new \<noteq> 0 \<longrightarrow> new \<notin> used_frames (vm_pmm st) \<and> new \<in> used_frames (vm_pmm st') \<and>
        (\<forall>i<512. pt_get new i (vm_mem st') = (if i < 256 then 0 else pt_get src i (vm_mem st))))"
proof -
  obtain new pm where al: "pmm_alloc epoch COLOR_VOID 0 (vm_pmm st) = (new, pm)" by fastforce
  note P = pmm_alloc_frame[OF inv al]
  define half where "half = [256 ..< (512 :: nat)]"
  have h: "set half = {256 ..< 512}" unfolding half_def set_upt by (rule refl)
  have half: "j \<in> set half \<longleftrightarrow> 256 \<le> j \<and> j < 512" "\<forall>i\<in>set half. i < 512" for j unfolding h by auto
  show ?thesis
  proof (cases "new = 0")
    case True
    then show ?thesis unfolding vmm_fork_pml4_def half_def[symmetric] using al P by (auto simp: Let_def vm_mem_def)
  next
    case False
    let ?z = "fast_zero (unat new) PAGE_SIZE (pm_mem pm)"
    let ?m = "fold (\<lambda>i m. pt_set new i (pt_get src i m) m) half ?z"
    let ?st = "upd_vm_mem (fold (\<lambda>i m. pt_set new i (pt_get src i m) m) half) (upd_vm_mem (fast_zero (unat new) PAGE_SIZE) (st\<lparr>vm_pmm := pm\<rparr>))"
    have run: "vmm_fork_pml4 epoch st = VRet new ?st" unfolding vmm_fork_pml4_def half_def[symmetric] using al k False by (simp add: Let_def)
    have nu: "new \<notin> used_frames (vm_pmm st)" "new \<in> used_frames pm" using P(3) False by auto
    have apart: "page (unat t) \<inter> page (unat new) = {}" if "t \<in> used_frames (vm_pmm st)" for t
      using frames_apart[of t pm new] P(2) nu that by blast
    have z: "?z x = (if x \<in> page (unat new) then 0 else pm_mem pm x)" for x by (simp add: fast_zero_def page_def PAGE_SIZE_def)
    have same: "?m x = vm_mem st x" if "t \<in> used_frames (vm_pmm st)" "x \<in> page (unat t)" for t x
    proof -
      have "x \<notin> page (unat new)" using apart[OF that(1)] that(2) by blast
      then show ?thesis using copy_entries(2)[OF half(2), of new src x ?z] P(4)[OF that] nu src used_aligned
        by (auto simp: z vm_mem_def)
    qed
    have "pt_get new i ?m = (if i < 256 then 0 else pt_get src i (vm_mem st))" if i: "i < 512" for i
    proof -
      have "pt_get new i ?z = 0" unfolding pt_get_def by (rule read_word_zero) (use i in \<open>auto simp: fast_zero_def PAGE_SIZE_def\<close>)
      moreover have "pt_get src i ?z = pt_get src i (vm_mem st)"
        by (rule pt_get_cong[OF i]) (use apart[OF src] P(4)[OF src] in \<open>auto simp: z vm_mem_def\<close>)
      moreover have "src \<noteq> new" "unat src mod PAGE_SIZE = 0" "unat new mod PAGE_SIZE = 0" using nu src used_aligned by auto
      ultimately show ?thesis using copy_entries(1)[OF half(2), of new src i ?z] i half(1) by simp
    qed
    then show ?thesis using run P(1,2) nu same by (intro exI[of _ new] exI[of _ ?st]) simp
  qed
qed


section \<open>Destroying an address space\<close>

text \<open>The address of a page that may not be executed is read with its no-execute bit, so it is beyond every frame.\<close>

lemma free_nx:
  assumes "pmm_inv (vm_pmm st)" and "has_flag e VMM_NX"
  shows "vmm_free_frame env (table_of e) st = VRet () st"
proof -
  have "bit (table_of e) 63" using assms(2) by (simp add: has_flag_bit bit_table_of)
  then have "bit (unat (table_of e)) 63" by (simp add: bit_unsigned_iff)
  then have "odd (unat (table_of e) div 2 ^ 63)" by (simp add: bit_iff_odd)
  then have "unat (table_of e) div 2 ^ 63 \<noteq> 0" by (metis even_zero)
  then have "2 ^ 63 \<le> unat (table_of e)" by (metis div_less not_less)
  then have "2 ^ 51 \<le> unat (table_of e) div PAGE_SIZE" by (simp add: PAGE_SIZE_def)
  then have "\<not> unat (table_of e) div PAGE_SIZE < pm_total_frames (vm_pmm st)" using pmm_inv_bound[OF assms(1)] by simp
  then show ?thesis by (simp add: vmm_free_frame_def pmm_free_def pmm_free_ex_def Let_def)
qed

lemma destroy_page_table_nx:
  assumes "pmm_inv (vm_pmm st)" and "distinct is" and "\<forall>i\<in>set is. has_flag (pt_get t i (vm_mem st)) VMM_PRESENT \<longrightarrow> has_flag (pt_get t i (vm_mem st)) VMM_NX"
  shows "\<exists>f. destroy_table_recursive env 1 t is st = VRet () (upd_vm_mem f st)"
  using assms
proof (induction "is" arbitrary: st)
  case Nil
  have "upd_vm_mem id st = st" by (simp add: upd_vm_mem_def)
  then show ?case by (metis destroy_table_recursive.simps(1))
next
  case (Cons i "is")
  let ?e = "pt_get t i (vm_mem st)" and ?st = "upd_vm_mem (pt_set t i 0) st"
  have rest: "\<exists>f. destroy_table_recursive env 1 t is st = VRet () (upd_vm_mem f st)" using Cons by simp
  have "pt_get t j (vm_mem ?st) = pt_get t j (vm_mem st)" if "j \<in> set is" for j
    using Cons.prems(2) that pt_get_set_index[of i j] by (metis distinct.simps(2) vm_mem_upd(1))
  then obtain f where "destroy_table_recursive env 1 t is ?st = VRet () (upd_vm_mem f ?st)" using Cons.IH[of ?st] Cons.prems by auto
  moreover have "upd_vm_mem f ?st = upd_vm_mem (f \<circ> pt_set t i 0) st" by (simp add: upd_vm_mem_def)
  ultimately have stp: "\<exists>f. destroy_table_recursive env 1 t is ?st = VRet () (upd_vm_mem f st)" by metis
  show ?case
  proof (cases "has_flag ?e VMM_PRESENT")
    case True
    then have "vmm_free_frame env (table_of ?e) st = VRet () st" using free_nx[OF Cons.prems(1)] Cons.prems(3) by simp
    then show ?thesis using rest stp by (simp add: Let_def)
  qed (use rest in \<open>simp add: Let_def\<close>)
qed

lemma huge_translation:
  assumes "huge_at root (vm_mem st) v" and "tl (vpath w) = tl (vpath v)" and "w AND 0xFFF = v AND 0xFFF"
  shows "vmm_virt_to_phys (Some root) w st = vmm_virt_to_phys (Some root) v st"
  using assms by (simp add: virt_to_phys_view mapped_entries huge_at_def)

section \<open>A sample address space with a demand page\<close>

definition fault_ledger :: pmm_st where
  "fault_ledger = sample_ledger\<lparr>pm_bitmap := [0x1F], pm_free_frames := 3\<rparr>"

definition fault_mem :: bmem where
  "fault_mem = pt_set 0x1000 0 0x2007 (pt_set 0x2000 0 0x3007 (pt_set 0x3000 0 0x4007 (pt_set 0x4000 1 PAGE_USER_DATA_DEMAND (pt_set 0x4000 2 PAGE_USER_DATA (\<lambda>_. 0)))))"

definition fault_vm :: vmm_st where
  "fault_vm = sample_vm\<lparr>vm_pmm := (pmm_buddy_init_from_free_frames fault_ledger)\<lparr>pm_mem := fault_mem\<rparr>,
     vm_switch := (vm_switch sample_vm)\<lparr>vs_cr3 := 0x1000\<rparr>\<rparr>"

lemma fault_pmm: "pmm_inv (vm_pmm fault_vm)" "free_set (vm_pmm fault_vm) = {5, 6, 7}" "pm_total_frames (vm_pmm fault_vm) = 8"
proof -
  have f: "free_set fault_ledger = {5, 6, 7}" unfolding free_set_filter by code_simp
  have "ledger_wf fault_ledger" "pm_total_frames fault_ledger < 2 ^ 32 - 1"
    by (simp_all add: fault_ledger_def sample_ledger_def ledger_wf_def)
  from buddy_init_inv[OF this] f show "pmm_inv (vm_pmm fault_vm)" "free_set (vm_pmm fault_vm) = {5, 6, 7}"
    by (simp_all add: fault_vm_def fault_ledger_def pmm_mem_free)
  show "pm_total_frames (vm_pmm fault_vm) = 8" by (simp add: fault_vm_def total_frames_buddy_init fault_ledger_def sample_ledger_def)
qed

lemma fault_get:
  assumes "unat t mod PAGE_SIZE = 0" and "i < 512"
  shows "pt_get t i fault_mem = (if t = 0x1000 \<and> i = 0 then 0x2007 else if t = 0x2000 \<and> i = 0 then 0x3007
     else if t = 0x3000 \<and> i = 0 then 0x4007 else if t = 0x4000 \<and> i = 1 then PAGE_USER_DATA_DEMAND else if t = 0x4000 \<and> i = 2 then PAGE_USER_DATA else 0)"
proof -
  have set: "pt_get t i (pt_set s j v m) = (if t = s \<and> i = j then v else pt_get t i m)" if "unat s mod PAGE_SIZE = 0" "j < 512" for s j v m
    using pt_get_set_table[OF that(1) assms(1) _ that(2) assms(2)] pt_get_set_index[of j i s v m] by (auto simp: pt_get_set)
  have z: "pt_get t i (\<lambda>_. 0) = 0" unfolding pt_get_def by (rule read_word_zero) simp
  have al: "unat (0x1000 :: u64) mod PAGE_SIZE = 0" "unat (0x2000 :: u64) mod PAGE_SIZE = 0" "unat (0x3000 :: u64) mod PAGE_SIZE = 0"
    "unat (0x4000 :: u64) mod PAGE_SIZE = 0" and lt: "0 < (512 :: nat)" "1 < (512 :: nat)" "2 < (512 :: nat)" by (simp_all add: PAGE_SIZE_def)
  show ?thesis
    unfolding fault_mem_def set[OF al(1) lt(1)] set[OF al(2) lt(1)] set[OF al(3) lt(1)] set[OF al(4) lt(2)] set[OF al(4) lt(3)] z by (rule refl)
qed

lemma fault_node:
  assumes "path_ok H p" and "length p \<le> 3"
  shows "node 0x1000 fault_mem p = (if p = [] then Some 0x1000 else if p = [0] then Some 0x2000 else if p = [0, 0] then Some 0x3000
     else if p = [0, 0, 0] then Some 0x4000 else None)"
  using assms
proof (induction p)
  case (Cons i p)
  note IH = Cons.IH[OF path_ok_Cons(1)[OF Cons.prems(1)]]
  have "i < 512" "length p \<le> 2" using Cons.prems path_ok_Cons(2)[OF Cons.prems(1)] by auto
  then show ?case using IH by (auto simp: fault_get PAGE_SIZE_def leads_def has_flag_def vmm_flag_defs table_of_def PAGE_USER_DATA_DEMAND_def split: if_splits)
qed simp


lemma fault_vm_ok: "vm_ok H 0x1000 fault_vm"
proof -
  have m: "vm_mem fault_vm = fault_mem" by (simp add: fault_vm_def vm_mem_def)
  have u: "t \<in> {0x1000, 0x2000, 0x3000, 0x4000} \<Longrightarrow> t \<in> used_frames (vm_pmm fault_vm)" for t
    by (auto simp: used_frames_def fault_pmm PAGE_SIZE_def)
  show ?thesis
    unfolding vm_ok_def pt_tree_def m using fault_pmm(1) u by (auto simp: fault_node split: if_splits)
qed

section \<open>Properties\<close>



text \<open>
  C16: a forked address space starts empty for the user and shares the kernel.  \<open>vmm_fork_pml4\<close> returns; if it returns a
  root, the root is a frame that was free, its lower half maps nothing and is ready to be mapped into, its
  upper half has the entries of the kernel's root, and no byte of a frame that was in use has changed.
\<close>

theorem vmm_fork_shares_kernel:
  assumes "pmm_inv (vm_pmm st)" and "vm_kernel_pml4 st = Some src" and "src \<in> used_frames (vm_pmm st)"
  shows "\<exists>new st'. vmm_fork_pml4 epoch st = VRet new st' \<and>
     (\<forall>t\<in>used_frames (vm_pmm st). \<forall>x\<in>page (unat t). vm_mem st' x = vm_mem st x) \<and>
     (new \<noteq> 0 \<longrightarrow> new \<notin> used_frames (vm_pmm st) \<and> vm_ok {0 ..< 256} new st' \<and>
        (\<forall>v. pml4_index v < 256 \<longrightarrow> mapped new (vm_mem st') v = None) \<and>
        (\<forall>i. 256 \<le> i \<and> i < 512 \<longrightarrow> pt_get new i (vm_mem st') = pt_get src i (vm_mem st)))"
proof -
  obtain new st' where F: "vmm_fork_pml4 epoch st = VRet new st'" "pmm_inv (vm_pmm st')"
     "\<forall>t\<in>used_frames (vm_pmm st). \<forall>x\<in>page (unat t). vm_mem st' x = vm_mem st x"
     "new \<noteq> 0 \<longrightarrow> new \<notin> used_frames (vm_pmm st) \<and> new \<in> used_frames (vm_pmm st') \<and>
        (\<forall>i<512. pt_get new i (vm_mem st') = (if i < 256 then 0 else pt_get src i (vm_mem st)))"
    using fork_ok[OF assms, of epoch] by blast
  have "pt_tree {0 ..< 256} new (used_frames (vm_pmm st')) (vm_mem st')" "\<forall>v. pml4_index v < 256 \<longrightarrow> mapped new (vm_mem st') v = None" if "new \<noteq> 0"
    using empty_half[of "{0 ..< 256}" new "vm_mem st'" "used_frames (vm_pmm st')"] F(4) that by auto
  then show ?thesis using F by (intro exI[of _ new] exI[of _ st']) (auto simp: vm_ok_def)
qed

theorem vmm_fork_shares_kernel_witness:
  "\<exists>new st'. vmm_fork_pml4 1 sample_vm = VRet new st' \<and> (new \<noteq> 0 \<longrightarrow> vm_ok {0 ..< 256} new st')"
proof -
  have "pmm_inv (vm_pmm sample_vm)" "vm_kernel_pml4 sample_vm = Some 0" "0 \<in> used_frames (vm_pmm sample_vm)"
    using sample_vm_ok[of "{}"] by (auto simp: vm_ok_def sample_vm_def used_frames_def sample_pmm_free sample_pmm_total pmm_mem_free)
  then show ?thesis using vmm_fork_shares_kernel[of sample_vm 0 1] by blast
qed

text \<open>
  C18: destroying an address space never returns its no-execute pages.  When every present page of a page table has the
  no-execute bit, as all user data and stacks do, \<open>destroy_table_recursive\<close> returns having cleared the table at most: the
  set of frames in use is what it was.
\<close>

theorem vmm_destroy_leaks_nx_pages:
  assumes "pmm_inv (vm_pmm st)"
    and "\<forall>i<PT_ENTRIES. has_flag (pt_get t i (vm_mem st)) VMM_PRESENT \<longrightarrow> has_flag (pt_get t i (vm_mem st)) VMM_NX"
  shows "\<exists>st'. destroy_table_recursive env 1 t [0 ..< PT_ENTRIES] st = VRet () st' \<and> used_frames (vm_pmm st') = used_frames (vm_pmm st)"
  using destroy_page_table_nx[of st "[0 ..< PT_ENTRIES]" t env] assms by auto

theorem vmm_destroy_leaks_nx_pages_witness:
  "has_flag (pt_get 0x4000 2 (vm_mem fault_vm)) VMM_PRESENT \<and>
   (\<exists>st'. destroy_table_recursive \<lparr>ve_epoch = 1, ve_kernel_start = 0, ve_kernel_end = 0\<rparr> 1 0x4000 [0 ..< PT_ENTRIES] fault_vm = VRet () st'
      \<and> used_frames (vm_pmm st') = used_frames (vm_pmm fault_vm))"
proof -
  have g: "pt_get 0x4000 i (vm_mem fault_vm) = (if i = 1 then PAGE_USER_DATA_DEMAND else if i = 2 then PAGE_USER_DATA else 0)" if "i < PT_ENTRIES" for i
    using fault_get[of "0x4000" i] that by (simp add: fault_vm_def vm_mem_def PAGE_SIZE_def PT_ENTRIES_def)
  then have "\<forall>i<PT_ENTRIES. has_flag (pt_get 0x4000 i (vm_mem fault_vm)) VMM_PRESENT \<longrightarrow> has_flag (pt_get 0x4000 i (vm_mem fault_vm)) VMM_NX"
    by (simp add: has_flag_def PAGE_USER_DATA_DEMAND_def PAGE_USER_DATA_def vmm_flag_defs)
  moreover have "has_flag (pt_get 0x4000 2 (vm_mem fault_vm)) VMM_PRESENT"
    using g[of 2] by (simp add: PT_ENTRIES_def has_flag_def PAGE_USER_DATA_def vmm_flag_defs)
  ultimately show ?thesis using vmm_destroy_leaks_nx_pages[OF fault_pmm(1)] by blast
qed

end
