(* ===== verification/Kernel_State.thy ===== *)
theory Kernel_State
  imports Vmm Fate Capability
begin

text \<open>
  The state that processes, threads, lattices and the scheduler share (\<^verbatim>\<open>thread.h\<close>, \<^verbatim>\<open>ipc.h\<close>,
  \<^verbatim>\<open>scheduler.h\<close>, the globals of \<^verbatim>\<open>scheduler.c\<close>, \<^verbatim>\<open>process.c\<close> and \<^verbatim>\<open>thread.c\<close>).

  Objects live in stores indexed by their address.  The address a slab allocation returns is an argument of the operation that
  makes it, as for capabilities; releasing an object is recorded in \<open>k_freed\<close>.  An operation returns a value and
  a state, panics, or does not return.
\<close>

section \<open>Data\<close>

definition MAX_PROCESS_LATTICES :: nat where "MAX_PROCESS_LATTICES = 8"
definition SCHED_MAX_CPUS :: nat where "SCHED_MAX_CPUS = 64"
definition DEFAULT_QUANTUM :: nat where "DEFAULT_QUANTUM = 10"
definition SCHED_REAP_BUDGET :: nat where "SCHED_REAP_BUDGET = 16"
definition SCHED_MIN_REFILL_PERIOD :: nat where "SCHED_MIN_REFILL_PERIOD = 1"
definition SCHED_DEFAULT_MAX_ACCUMULATED :: nat where "SCHED_DEFAULT_MAX_ACCUMULATED = DEFAULT_QUANTUM * 4"
definition SCHED_STALL_THRESHOLD :: nat where "SCHED_STALL_THRESHOLD = 1000"
definition THREAD_KSTACK_ORDER :: nat where "THREAD_KSTACK_ORDER = 1"
definition THREAD_KSTACK_BYTES :: nat where "THREAD_KSTACK_BYTES = PAGE_SIZE * 2 ^ THREAD_KSTACK_ORDER"
definition MAX_PROCESSES :: nat where "MAX_PROCESSES = 64"

datatype thread_state_t = THREAD_READY | THREAD_RUNNING | THREAD_BLOCKED | THREAD_BLOCKED_AUTH
  | THREAD_SUSPENDED_MODE | THREAD_ZOMBIE

datatype sched_class_t = SCHED_CLASS_NORMAL | SCHED_CLASS_SYSTEM

record entry_lease_t =
  le_id :: u64
  le_epoch :: u64
  le_authority_mask :: u32
  le_mode_mask :: u32
  le_expiry_tsc :: u64

record thread_t =
  th_kernel_stack_top :: u64
  th_rsp :: u64
  th_stack_canary :: u64
  th_state :: thread_state_t
  th_owner :: "nat option"
  th_tid :: u32
  th_ticks_remaining :: u32
  th_last_cpu :: nat
  th_sched_class :: sched_class_t
  th_remaining_thread_budget :: u64
  th_max_accumulated :: u64
  th_last_thread_refill :: u64
  th_max_slice :: u32
  th_refill_period_ticks :: u32
  th_sched_auth_slot :: u16
  th_sched_weight :: u8
  th_sched_tokens :: u8
  th_sched_auth_mode :: u8
  th_sched_auth_required :: bool
  th_sched_auth_valid :: bool
  th_next :: "nat option"
  th_wait_next :: "nat option"
  th_ipc_payload :: "u64 list"
  th_lease :: entry_lease_t
  th_lease_validated_epoch :: u64
  th_lease_valid_cache :: bool
  th_last_dispatch_tick :: u64
  th_extended_state :: u64

definition SCHED_AUTH_ROOT :: u8 where "SCHED_AUTH_ROOT = 1"
definition SCHED_AUTH_THREAD :: u8 where "SCHED_AUTH_THREAD = 2"

record sched_auth_obj_t =
  ao_magic :: u32
  ao_kind :: u8
  ao_mode_binding :: u8
  ao_max_total_budget :: u64
  ao_refill_period_ticks :: u64
  ao_max_accumulated :: u64
  ao_max_slice :: u32
  ao_weight :: u32
  ao_local_max_accumulated :: u64
  ao_root :: u64
  ao_owner_process :: "nat option"
  ao_bound_thread :: "nat option"

record scheduler_envelope_t =
  en_mode :: mode_id_t
  en_ready_queue_head :: "nat option"
  en_ready_queue_tail :: "nat option"
  en_zombie_queue_head :: "nat option"
  en_zombie_queue_tail :: "nat option"
  en_dispatch_count :: u64
  en_denied_mode :: u64
  en_denied_auth :: u64
  en_budget_exhaustions :: u64

record scheduler_cpu_state_t =
  sc_current_thread :: "nat option"
  sc_envelopes :: "mode_id_t \<Rightarrow> scheduler_envelope_t"
  sc_schedule_count :: u64
  sc_switch_count :: u64
  sc_remote_enqueue :: u64
  sc_migrations :: u64
  sc_denied_enqueue :: u64
  sc_denied_wake :: u64
  sc_denied_dispatch :: u64
  sc_denied_no_auth :: u64
  sc_denied_mode_mismatch :: u64
  sc_denied_steal_mode :: u64
  sc_denied_steal_auth :: u64
  sc_budget_exhaustions :: u64
  sc_envelope_switches :: u64
  sc_tick_count :: u64
  sc_active_security_epoch :: u64
  sc_active_mode :: mode_id_t

record lattice_t =
  la_frames :: "u64 list"
  la_page_count :: u32
  la_ref_count :: u32
  la_crystal_index :: u32
  la_is_ocular :: bool
  la_ocular_target :: u64
  la_wait_head :: "nat option"
  la_wait_tail :: "nat option"

text \<open>Objects handed back to their slab cache or to the kernel heap, in order.\<close>

datatype kobj = FreedThread nat | FreedProcess nat | FreedLattice nat | FreedFrames nat | FreedAuth u64

record kst =
  k_vmm :: vmm_st
  k_pcid :: pcid_allocator
  k_cap :: cap_st
  k_fate :: fate_st
  k_thread :: "nat \<Rightarrow> thread_t"
  k_proc :: "nat \<Rightarrow> process_t"
  k_lattice :: "nat \<Rightarrow> lattice_t"
  k_auth :: "u64 \<Rightarrow> sched_auth_obj_t option"
  k_cpu :: "nat \<Rightarrow> scheduler_cpu_state_t"
  k_sched_global_mode :: mode_id_t
  k_sched_global_security_epoch :: u64
  k_sched_global_tick :: u64
  k_force_resched :: "nat \<Rightarrow> bool"
  k_process_registry :: "nat option list"
  k_next_pid :: u32
  k_next_tid :: u32
  k_freed :: "kobj list"

text \<open>
  What an operation reads of the processor and of the mode state machine: the CPU it runs on, the number of CPUs online,
  the current mode with its mask and security epoch, the time stamp counter, the extent of the kernel image, and whether
  the word behind a C-Node happens to be zero.
\<close>

record k_env =
  ke_cpu :: nat
  ke_online :: nat
  ke_mode :: mode_id_t
  ke_mode_mask :: u8
  ke_epoch :: u64
  ke_tsc :: u64
  ke_kernel_start :: u64
  ke_kernel_end :: u64
  ke_oob_null :: "nat \<Rightarrow> nat \<Rightarrow> bool"

section \<open>Results\<close>

type_synonym 'a kres = "(string + 'a \<times> kst) option"

definition kret :: "'a \<Rightarrow> kst \<Rightarrow> 'a kres" where "kret a st = Some (Inr (a, st))"
definition kpanic :: "string \<Rightarrow> 'a kres" where "kpanic msg = Some (Inl msg)"

definition kbind :: "'a kres \<Rightarrow> ('a \<Rightarrow> kst \<Rightarrow> 'b kres) \<Rightarrow> 'b kres" where
  "kbind m f = Option.bind m (\<lambda>r. case r of Inl e \<Rightarrow> Some (Inl e) | Inr p \<Rightarrow> f (fst p) (snd p))"

lemma kbind_simps [simp]:
  "kbind (kret a st) f = f a st" "kbind (kpanic e) f = kpanic e" "kbind None f = None"
  by (simp_all add: kbind_def kret_def kpanic_def)

lemma kret_inject [simp]: "kret a st = kret b st' \<longleftrightarrow> a = b \<and> st = st'" "kret a st \<noteq> None" "None \<noteq> kret a st"
  "kret a st \<noteq> kpanic e" "kpanic e \<noteq> kret a st"
  by (auto simp: kret_def kpanic_def)

lemma kbind_eq_kret: "kbind m f = kret b st' \<longleftrightarrow> (\<exists>a st. m = kret a st \<and> f a st = kret b st')"
proof (cases m)
  case (Some r)
  then show ?thesis by (cases r) (auto simp: kbind_def kret_def)
qed (simp add: kbind_def)

lemma kbind_mono [partial_function_mono]:
  assumes "mono_option B" and "\<And>a st. mono_option (\<lambda>f. C a st f)"
  shows "mono_option (\<lambda>f. kbind (B f) (\<lambda>a st. C a st f))"
  unfolding kbind_def
proof (rule bind_mono)
  show "mono_option B" by (rule assms(1))
  show "mono_option (\<lambda>f. case r of Inl e \<Rightarrow> Some (Inl e) | Inr p \<Rightarrow> C (fst p) (snd p) f)" for r
    using assms(2) by (cases r) (simp_all add: option.const_mono)
qed

text \<open>What holds of the result and the state when a call returns.\<close>

definition ensures :: "('a \<Rightarrow> kst \<Rightarrow> bool) \<Rightarrow> 'a kres \<Rightarrow> bool" where
  "ensures P m \<longleftrightarrow> (\<forall>r st. m = kret r st \<longrightarrow> P r st)"

lemma ensures_simps [simp]: "ensures P (kret r st) \<longleftrightarrow> P r st" "ensures P None" "ensures P (kpanic e)"
  by (auto simp: ensures_def kret_def kpanic_def)

lemma ensures_mono: "ensures P m \<Longrightarrow> (\<And>r st. P r st \<Longrightarrow> P' r st) \<Longrightarrow> ensures P' m"
  by (simp add: ensures_def)

lemma ensures_bind:
  assumes "ensures P m" and "\<And>r st. P r st \<Longrightarrow> ensures P' (f r st)"
  shows "ensures P' (kbind m f)"
  unfolding ensures_def kbind_eq_kret
proof (intro allI impI, elim exE conjE)
  fix r st' a st1 assume "m = kret a st1" "f a st1 = kret r st'"
  then show "P' r st'" using assms(1) assms(2)[of a st1] by (simp add: ensures_def)
qed

definition with_cap :: "(cap_st \<Rightarrow> ('a \<times> cap_st) option) \<Rightarrow> kst \<Rightarrow> 'a kres" where
  "with_cap f st = (case f (k_cap st) of None \<Rightarrow> None | Some (a, c) \<Rightarrow> kret a (st\<lparr>k_cap := c\<rparr>))"

definition with_vmm :: "(vmm_st \<Rightarrow> 'a vout) \<Rightarrow> kst \<Rightarrow> 'a kres" where
  "with_vmm f st = (case f (k_vmm st) of VRet a v \<Rightarrow> kret a (st\<lparr>k_vmm := v\<rparr>) | VPanic \<Rightarrow> kpanic ''VMM'' | VHang \<Rightarrow> None)"

section \<open>Accessors\<close>

definition upd_thread :: "nat \<Rightarrow> (thread_t \<Rightarrow> thread_t) \<Rightarrow> kst \<Rightarrow> kst" where
  "upd_thread t f st = st\<lparr>k_thread := (k_thread st)(t := f (k_thread st t))\<rparr>"

definition upd_proc :: "nat \<Rightarrow> (process_t \<Rightarrow> process_t) \<Rightarrow> kst \<Rightarrow> kst" where
  "upd_proc p f st = st\<lparr>k_proc := (k_proc st)(p := f (k_proc st p))\<rparr>"

definition upd_lattice :: "nat \<Rightarrow> (lattice_t \<Rightarrow> lattice_t) \<Rightarrow> kst \<Rightarrow> kst" where
  "upd_lattice l f st = st\<lparr>k_lattice := (k_lattice st)(l := f (k_lattice st l))\<rparr>"

definition upd_cpu :: "nat \<Rightarrow> (scheduler_cpu_state_t \<Rightarrow> scheduler_cpu_state_t) \<Rightarrow> kst \<Rightarrow> kst" where
  "upd_cpu c f st = st\<lparr>k_cpu := (k_cpu st)(c := f (k_cpu st c))\<rparr>"

definition upd_env :: "nat \<Rightarrow> mode_id_t \<Rightarrow> (scheduler_envelope_t \<Rightarrow> scheduler_envelope_t) \<Rightarrow> kst \<Rightarrow> kst" where
  "upd_env c m f = upd_cpu c (\<lambda>cpu. cpu\<lparr>sc_envelopes := (sc_envelopes cpu)(m := f (sc_envelopes cpu m))\<rparr>)"

definition k_pmm :: "kst \<Rightarrow> pmm_st" where "k_pmm st = vm_pmm (k_vmm st)"

definition upd_pmm :: "(pmm_st \<Rightarrow> pmm_st) \<Rightarrow> kst \<Rightarrow> kst" where
  "upd_pmm f st = st\<lparr>k_vmm := (k_vmm st)\<lparr>vm_pmm := f (vm_pmm (k_vmm st))\<rparr>\<rparr>"

definition freed :: "kobj \<Rightarrow> kst \<Rightarrow> kst" where
  "freed x st = st\<lparr>k_freed := k_freed st @ [x]\<rparr>"

definition k_envelope :: "nat \<Rightarrow> mode_id_t \<Rightarrow> kst \<Rightarrow> scheduler_envelope_t" where
  "k_envelope c m st = sc_envelopes (k_cpu st c) m"

section \<open>Logging and capabilities\<close>

definition sched_current_cpu_id :: "k_env \<Rightarrow> nat" where
  "sched_current_cpu_id env = (if ke_cpu env \<ge> SCHED_MAX_CPUS then 0 else ke_cpu env)"

definition scheduler_get_current :: "k_env \<Rightarrow> kst \<Rightarrow> nat option" where
  "scheduler_get_current env st = sc_current_thread (k_cpu st (sched_current_cpu_id env))"

definition current_owner :: "k_env \<Rightarrow> kst \<Rightarrow> nat option" where
  "current_owner env st = (case scheduler_get_current env st of None \<Rightarrow> None | Some t \<Rightarrow> th_owner (k_thread st t))"

definition audit_ctx_of :: "k_env \<Rightarrow> kst \<Rightarrow> audit_ctx" where
  "audit_ctx_of env st = \<lparr>ax_tick = k_sched_global_tick st,
     ax_actor = (case scheduler_get_current env st of
         None \<Rightarrow> None
       | Some t \<Rightarrow> (case th_owner (k_thread st t) of
             None \<Rightarrow> None | Some p \<Rightarrow> Some (pr_mode (k_proc st p), th_tid (k_thread st t))))\<rparr>"

definition cap_env_of :: "k_env \<Rightarrow> kst \<Rightarrow> cap_env" where
  "cap_env_of env st = \<lparr>ce_mode_mask = ke_mode_mask env, ce_audit_ctx = audit_ctx_of env st, ce_oob_null = ke_oob_null env,
     ce_auth = (\<lambda>a. map_option (\<lambda>x. \<lparr>sa_magic = ao_magic x, sa_owner_process = ao_owner_process x,
                                    sa_bound_thread = ao_bound_thread x\<rparr>) (k_auth st a))\<rparr>"

definition k_strike :: "k_env \<Rightarrow> audit_event_t \<Rightarrow> audit_result_t \<Rightarrow> u64 \<Rightarrow> audit_meta_t \<Rightarrow> kst \<Rightarrow> kst" where
  "k_strike env ev res target meta st =
     st\<lparr>k_cap := (k_cap st)\<lparr>ca_audit := audit_strike (audit_ctx_of env st) ev res target meta (ca_audit (k_cap st))\<rparr>\<rparr>"

definition fate_ctx_of :: "k_env \<Rightarrow> kst \<Rightarrow> fate_ctx" where
  "fate_ctx_of env st = \<lparr>fx_tsc = ke_tsc env, fx_owner_pid = map_option (\<lambda>p. pr_pid (k_proc st p)) (current_owner env st)\<rparr>"

definition owner_pid :: "nat \<Rightarrow> kst \<Rightarrow> u32" where
  "owner_pid t st = (case th_owner (k_thread st t) of None \<Rightarrow> 0 | Some p \<Rightarrow> pr_pid (k_proc st p))"

definition log_sched :: "k_env \<Rightarrow> u32 \<Rightarrow> u8 \<Rightarrow> u32 \<Rightarrow> kst \<Rightarrow> kst" where
  "log_sched env pid event detail st =
     st\<lparr>k_fate := mode_log_sched_event (fate_ctx_of env st) (ke_mode env) pid event detail FATE_RESULT_REJECTED (k_fate st)\<rparr>"

definition log_lattice :: "k_env \<Rightarrow> u32 \<Rightarrow> u64 \<Rightarrow> u32 \<Rightarrow> bool \<Rightarrow> bool \<Rightarrow> kst \<Rightarrow> kst" where
  "log_lattice env pid vaddr page_count is_source is_attach st =
     st\<lparr>k_fate := mode_log_lattice_event (fate_ctx_of env st) (ke_mode env) pid vaddr page_count is_source is_attach (k_fate st)\<rparr>"

lemmas kst_upd_defs = upd_thread_def upd_proc_def upd_lattice_def upd_cpu_def upd_env_def upd_pmm_def freed_def
  k_envelope_def k_pmm_def k_strike_def log_sched_def log_lattice_def

end
