(* ===== verification/Process.thy ===== *)
theory Process
  imports Kernel_State
begin

text \<open>
  Lattices, processes and threads as objects: \<^verbatim>\<open>lattice.c\<close> (creation, reference counting, release),
  \<^verbatim>\<open>process.c\<close> and the creation and destruction of threads of \<^verbatim>\<open>thread.c\<close>.  The operations
  that block or wake threads are in theory \<open>Ipc\<close>.
\<close>

section \<open>Lattices (lattice.c)\<close>

fun pmm_free_all :: "u64 \<Rightarrow> u64 list \<Rightarrow> pmm_st \<Rightarrow> pmm_st option" where
  "pmm_free_all epoch [] pm = Some pm"
| "pmm_free_all epoch (f # fs) pm = Option.bind (pmm_free epoch f pm) (pmm_free_all epoch fs)"

text \<open>The allocation loop; \<open>acc\<close> holds the frames allocated so far.  A failure releases them.\<close>

fun lattice_frames :: "u64 \<Rightarrow> u64 \<Rightarrow> nat \<Rightarrow> u64 list \<Rightarrow> pmm_st \<Rightarrow> (u64 list option \<times> pmm_st) option" where
  "lattice_frames epoch owner 0 acc pm = Some (Some acc, pm)"
| "lattice_frames epoch owner (Suc n) acc pm =
     (case pmm_alloc epoch COLOR_CASUAL owner pm of (f, pm1) \<Rightarrow>
        if f = 0 then map_option (\<lambda>pm2. (None, pm2)) (pmm_free_all epoch acc pm1)
        else lattice_frames epoch owner n (acc @ [f]) pm1)"

text \<open>\<open>cell\<close> is the result of the slab allocation, \<open>frames_ok\<close> that of \<open>kzalloc\<close> for the frame array.\<close>

definition lattice_create :: "k_env \<Rightarrow> nat option \<Rightarrow> bool \<Rightarrow> u32 \<Rightarrow> u64 \<Rightarrow> kst \<Rightarrow> nat option kres" where
  "lattice_create env cell frames_ok page_count owner_token st =
     (if page_count = 0 \<or> page_count > 1024 then kret None st
      else case cell of
          None \<Rightarrow> kret None st
        | Some l \<Rightarrow>
            let st1 = upd_lattice l (\<lambda>x. x\<lparr>la_page_count := page_count, la_ref_count := 1, la_crystal_index := 0,
                        la_is_ocular := False, la_ocular_target := 0, la_wait_head := None, la_wait_tail := None\<rparr>) st
            in if \<not> frames_ok then kret None (freed (FreedLattice l) st1)
               else case lattice_frames (ke_epoch env) owner_token (unat page_count) [] (k_pmm st1) of
                   None \<Rightarrow> None
                 | Some (fs, pm) \<Rightarrow>
                     let st2 = upd_pmm (\<lambda>_. pm) st1 in
                     (case fs of
                        None \<Rightarrow> kret None (freed (FreedLattice l) (freed (FreedFrames l) st2))
                      | Some frames \<Rightarrow> kret (Some l) (upd_lattice l (\<lambda>x. x\<lparr>la_frames := frames\<rparr>) st2)))"

definition lattice_destroy :: "k_env \<Rightarrow> nat option \<Rightarrow> kst \<Rightarrow> unit kres" where
  "lattice_destroy env lattice st =
     (case lattice of
        None \<Rightarrow> kret () st
      | Some l \<Rightarrow>
          let old = la_ref_count (k_lattice st l);
              st1 = upd_lattice l (\<lambda>x. x\<lparr>la_ref_count := la_ref_count x - 1\<rparr>) st
          in if old \<noteq> 1 then kret () st1
             else case pmm_free_all (ke_epoch env)
                         (map (\<lambda>i. la_frames (k_lattice st l) ! i) [0 ..< unat (la_page_count (k_lattice st l))]) (k_pmm st1) of
                 None \<Rightarrow> None
               | Some pm \<Rightarrow> kret () (freed (FreedLattice l) (freed (FreedFrames l) (upd_pmm (\<lambda>_. pm) st1))))"

definition lattice_ref :: "nat option \<Rightarrow> kst \<Rightarrow> kst" where
  "lattice_ref lattice st =
     (case lattice of None \<Rightarrow> st | Some l \<Rightarrow> upd_lattice l (\<lambda>x. x\<lparr>la_ref_count := la_ref_count x + 1\<rparr>) st)"

section \<open>The release of capabilities\<close>

text \<open>What the capability layer calls on the objects behind the identities it releases.\<close>

fun run_effects :: "k_env \<Rightarrow> cap_effect list \<Rightarrow> kst \<Rightarrow> unit kres" where
  "run_effects env [] st = kret () st"
| "run_effects env (e # es) st =
     kbind (case e of
              LatticeDestroy a \<Rightarrow> lattice_destroy env (if a = 0 then None else Some (unat a)) st
            | Kfree a \<Rightarrow> kret () (freed (FreedAuth a) (st\<lparr>k_auth := (k_auth st)(a := None)\<rparr>))
            | _ \<Rightarrow> kret () st)
       (\<lambda>_ st1. run_effects env es st1)"

definition k_cnode_destroy :: "k_env \<Rightarrow> nat option \<Rightarrow> kst \<Rightarrow> unit kres" where
  "k_cnode_destroy env cn st =
     (case cnode_destroy cn (k_cap st) of
        None \<Rightarrow> None
      | Some c \<Rightarrow> run_effects env (drop (length (ca_trace (k_cap st))) (ca_trace c)) (st\<lparr>k_cap := c\<rparr>))"

section \<open>Processes (process.c)\<close>

definition process_register_live :: "nat option \<Rightarrow> kst \<Rightarrow> kst" where
  "process_register_live proc st =
     (case proc of
        None \<Rightarrow> st
      | Some p \<Rightarrow>
          (case find (\<lambda>i. k_process_registry st ! i = None) [0 ..< MAX_PROCESSES] of
             None \<Rightarrow> st
           | Some i \<Rightarrow> st\<lparr>k_process_registry := (k_process_registry st)[i := Some p]\<rparr>))"

definition process_unregister_live :: "nat option \<Rightarrow> kst \<Rightarrow> kst" where
  "process_unregister_live proc st =
     (case proc of
        None \<Rightarrow> st
      | Some p \<Rightarrow>
          (case find (\<lambda>i. k_process_registry st ! i = Some p) [0 ..< MAX_PROCESSES] of
             None \<Rightarrow> st
           | Some i \<Rightarrow> st\<lparr>k_process_registry := (k_process_registry st)[i := None]\<rparr>))"

definition process_find_by_pid :: "u32 \<Rightarrow> kst \<Rightarrow> nat option" where
  "process_find_by_pid pid st =
     (case find (\<lambda>i. case k_process_registry st ! i of None \<Rightarrow> False | Some p \<Rightarrow> pr_pid (k_proc st p) = pid) [0 ..< MAX_PROCESSES] of
        None \<Rightarrow> None
      | Some i \<Rightarrow> k_process_registry st ! i)"

definition process_create ::
    "nat option \<Rightarrow> u64 \<Rightarrow> nat \<Rightarrow> nat option \<Rightarrow> mode_id_t \<Rightarrow> kst \<Rightarrow> nat option \<times> kst" where
  "process_create cell pml4 pcid cspace m st =
     (case cell of
        None \<Rightarrow> (None, st)
      | Some p \<Rightarrow>
          let st1 = upd_proc p (\<lambda>x. x\<lparr>pr_pml4_phys := pml4, pr_pcid := pcid, pr_cspace := cspace, pr_pid := k_next_pid st,
                pr_thread_count := 0, pr_mode := m, pr_waiter_thread := None, pr_exit_events := 0,
                pr_remaining_process_budget := 0, pr_max_total_budget := 0, pr_refill_period_ticks := 0,
                pr_last_process_refill := 0, pr_sched_auth_root_slot := 0, pr_sched_auth_root_valid := False,
                pr_lattices := map (\<lambda>a. a\<lparr>at_lattice := None, at_vaddr := 0\<rparr>) (pr_lattices x)\<rparr>)
              (st\<lparr>k_next_pid := k_next_pid st + 1\<rparr>)
          in (Some p, process_register_live (Some p) st1))"

definition empty_attachment :: lattice_attachment_t where
  "empty_attachment = \<lparr>at_vaddr = 0, at_page_count = 0, at_lattice = None, at_is_source = False\<rparr>"

definition set_attachment :: "nat \<Rightarrow> nat \<Rightarrow> lattice_attachment_t \<Rightarrow> kst \<Rightarrow> kst" where
  "set_attachment p i a = upd_proc p (\<lambda>x. x\<lparr>pr_lattices := (pr_lattices x)[i := a]\<rparr>)"

text \<open>The body shared by the detach loop and the loop of \<open>process_destroy\<close>.\<close>

definition drop_attachment :: "k_env \<Rightarrow> nat \<Rightarrow> nat \<Rightarrow> kst \<Rightarrow> unit kres" where
  "drop_attachment env p i st =
     (let a = pr_lattices (k_proc st p) ! i in
      kbind (lattice_destroy env (at_lattice a)
              (log_lattice env (pr_pid (k_proc st p)) (at_vaddr a) (at_page_count a) (at_is_source a) False st))
        (\<lambda>_ st1. kret () (set_attachment p i empty_attachment st1)))"

fun drop_attachments :: "k_env \<Rightarrow> nat \<Rightarrow> nat list \<Rightarrow> kst \<Rightarrow> unit kres" where
  "drop_attachments env p [] st = kret () st"
| "drop_attachments env p (i # is) st =
     (if at_lattice (pr_lattices (k_proc st p) ! i) = None then drop_attachments env p is st
      else kbind (drop_attachment env p i st) (\<lambda>_ st1. drop_attachments env p is st1))"

definition vmm_env_of :: "k_env \<Rightarrow> vmm_env" where
  "vmm_env_of env = \<lparr>ve_epoch = ke_epoch env, ve_kernel_start = ke_kernel_start env, ve_kernel_end = ke_kernel_end env\<rparr>"

definition process_destroy :: "k_env \<Rightarrow> nat option \<Rightarrow> kst \<Rightarrow> unit kres" where
  "process_destroy env process st =
     (case process of
        None \<Rightarrow> kret () st
      | Some p \<Rightarrow>
          let st1 = process_unregister_live (Some p) st;
              pr = k_proc st p;
              st2 = (if pr_pcid pr \<noteq> PCID_ERROR then st1\<lparr>k_pcid := pcid_free (pr_pcid pr) (pr_mode pr) (k_pcid st1)\<rparr> else st1)
          in kbind (with_vmm (vmm_destroy_pml4 (vmm_env_of env) (pr_pml4_phys pr)) st2)
               (\<lambda>_ st3. kbind (drop_attachments env p [0 ..< MAX_PROCESS_LATTICES] st3)
               (\<lambda>_ st4. kbind (k_cnode_destroy env (pr_cspace (k_proc st4 p)) st4)
               (\<lambda>_ st5. kret () (freed (FreedProcess p) st5)))))"

text \<open>
  The scan for a free attachment slot: a duplicate or an overlap met on the way refuses, and the first free slot ends
  the scan.
\<close>

fun attach_scan :: "nat \<Rightarrow> u64 \<Rightarrow> u64 \<Rightarrow> nat \<Rightarrow> lattice_attachment_t list \<Rightarrow> nat option" where
  "attach_scan l new_start new_end i [] = None"
| "attach_scan l new_start new_end i (a # as) =
     (case at_lattice a of
        None \<Rightarrow> Some i
      | Some l' \<Rightarrow>
          let cur_start = at_vaddr a; cur_end = cur_start + ucast (at_page_count a) * word_of_nat PAGE_SIZE in
          if l' = l \<and> cur_start = new_start then None
          else if new_start < cur_end \<and> cur_start < new_end then None
          else attach_scan l new_start new_end (Suc i) as)"

definition process_attach_lattice ::
    "k_env \<Rightarrow> nat option \<Rightarrow> nat option \<Rightarrow> u64 \<Rightarrow> bool \<Rightarrow> kst \<Rightarrow> int \<times> kst" where
  "process_attach_lattice env proc lattice vaddr is_source st =
     (case (proc, lattice) of
        (Some p, Some l) \<Rightarrow>
          let page_count = la_page_count (k_lattice st l);
              span = ucast page_count * word_of_nat PAGE_SIZE :: u64
          in if vaddr AND (word_of_nat PAGE_SIZE - 1) \<noteq> 0 then (- 1, st)
             else if page_count = 0 then (- 1, st)
             else if span = 0 then (- 1, st)
             else if span - 1 > (- 1) - vaddr then (- 1, st)
             else (case attach_scan l vaddr (vaddr + span) 0 (pr_lattices (k_proc st p)) of
                 None \<Rightarrow> (- 1, st)
               | Some i \<Rightarrow>
                   (0, log_lattice env (pr_pid (k_proc st p)) vaddr page_count is_source True (lattice_ref (Some l)
                         (set_attachment p i \<lparr>at_vaddr = vaddr, at_page_count = page_count, at_lattice = Some l,
                            at_is_source = is_source\<rparr> st))))
      | _ \<Rightarrow> (- 1, st))"

definition process_detach_lattice :: "k_env \<Rightarrow> nat option \<Rightarrow> nat option \<Rightarrow> u64 \<Rightarrow> kst \<Rightarrow> int kres" where
  "process_detach_lattice env proc lattice vaddr st =
     (case (proc, lattice) of
        (Some p, Some l) \<Rightarrow>
          if vaddr AND (word_of_nat PAGE_SIZE - 1) \<noteq> 0 then kret (- 1) st
          else (case find (\<lambda>i. at_lattice (pr_lattices (k_proc st p) ! i) = Some l \<and> at_vaddr (pr_lattices (k_proc st p) ! i) = vaddr)
                       [0 ..< MAX_PROCESS_LATTICES] of
                  None \<Rightarrow> kret (- 1) st
                | Some i \<Rightarrow> kbind (drop_attachment env p i st) (\<lambda>_ st1. kret 0 st1))
      | _ \<Rightarrow> kret (- 1) st)"

section \<open>Threads (thread.c)\<close>

definition STACK_CANARY :: u64 where "STACK_CANARY = 0x535441434B444541"

text \<open>The initial frame popped by the first context switch: the entry point above seven saved words.\<close>

definition initial_frame :: "u64 \<Rightarrow> u64 list" where
  "initial_frame entry = [0x202, 0, 0, 0, 0, 0, 0, entry]"

fun write_words :: "nat \<Rightarrow> u64 list \<Rightarrow> bmem \<Rightarrow> bmem" where
  "write_words a [] m = m"
| "write_words a (w # ws) m = write_words (a + 8) ws (write_bytes a (le_bytes 8 w) m)"

definition new_thread :: "process_t \<Rightarrow> nat \<Rightarrow> u32 \<Rightarrow> u64 \<Rightarrow> u64 \<Rightarrow> u64 \<Rightarrow> thread_t" where
  "new_thread owner p tid stack_top ext epoch =
     \<lparr>th_kernel_stack_top = stack_top, th_rsp = stack_top - 8 * 8, th_stack_canary = STACK_CANARY, th_state = THREAD_READY,
      th_owner = Some p, th_tid = tid, th_ticks_remaining = word_of_nat DEFAULT_QUANTUM, th_last_cpu = 0,
      th_sched_class = SCHED_CLASS_NORMAL, th_remaining_thread_budget = word_of_nat DEFAULT_QUANTUM,
      th_max_accumulated = word_of_nat SCHED_DEFAULT_MAX_ACCUMULATED, th_last_thread_refill = 0,
      th_max_slice = word_of_nat DEFAULT_QUANTUM, th_refill_period_ticks = word_of_nat DEFAULT_QUANTUM,
      th_sched_auth_slot = 0, th_sched_weight = 1, th_sched_tokens = 0, th_sched_auth_mode = mode_u8 (pr_mode owner),
      th_sched_auth_required = (pr_mode owner \<noteq> MODE_KERNEL \<and> pr_cspace owner \<noteq> None),
      th_sched_auth_valid = (\<not> (pr_mode owner \<noteq> MODE_KERNEL \<and> pr_cspace owner \<noteq> None)),
      th_next = None, th_wait_next = None, th_ipc_payload = [0, 0, 0, 0],
      th_lease = \<lparr>le_id = 0, le_epoch = epoch, le_authority_mask = 0xFFFF,
                  le_mode_mask = push_bit (unat (mode_u8 (pr_mode owner))) 1, le_expiry_tsc = 0\<rparr>,
      th_lease_validated_epoch = 0, th_lease_valid_cache = False, th_last_dispatch_tick = 0, th_extended_state = ext\<rparr>"

text \<open>A NULL owner is dereferenced before the function returns.\<close>

definition thread_create :: "k_env \<Rightarrow> nat option \<Rightarrow> nat option \<Rightarrow> u64 \<Rightarrow> kst \<Rightarrow> nat option kres" where
  "thread_create env cell owner entry st =
     (case cell of
        None \<Rightarrow> kret None st
      | Some t \<Rightarrow>
          (case pmm_alloc_ex (ke_epoch env) (Some \<lparr>pol_color = mode_to_color (ke_mode env), pol_owner_token = 0,
                  pol_preferred_zone = PMM_ZONE_ANY, pol_trust_level = PMM_TRUST_ANY, pol_order = THREAD_KSTACK_ORDER\<rparr>) (k_pmm st) of
             (stack_phys, pm1) \<Rightarrow>
               if stack_phys = 0 then kret None (freed (FreedThread t) (upd_pmm (\<lambda>_. pm1) st))
               else case pmm_alloc (ke_epoch env) COLOR_VOID 0 pm1 of
                 (ext_phys, pm2) \<Rightarrow>
                   if ext_phys = 0 then
                     (case pmm_free_ex (ke_epoch env) stack_phys THREAD_KSTACK_ORDER pm2 of
                        None \<Rightarrow> None
                      | Some pm3 \<Rightarrow> kret None (freed (FreedThread t) (upd_pmm (\<lambda>_. pm3) st)))
                   else (case owner of
                       None \<Rightarrow> kpanic ''NULL owner''
                     | Some p \<Rightarrow>
                         let stack_virt = pmm_phys_to_virt pm2 stack_phys + word_of_nat THREAD_KSTACK_BYTES;
                             m = fast_zero (unat ext_phys) PAGE_SIZE (pm_mem pm2);
                             m = write_bytes (unat stack_phys) (le_bytes 8 STACK_CANARY) m;
                             m = write_words (unat stack_phys + THREAD_KSTACK_BYTES - 64) (initial_frame entry) m;
                             tid = k_next_tid st;
                             st1 = (upd_pmm (\<lambda>_. pm2\<lparr>pm_mem := m\<rparr>) st)\<lparr>k_next_tid := tid + 1\<rparr>;
                             st2 = upd_thread t (\<lambda>_. new_thread (k_proc st p) p tid stack_virt (pmm_phys_to_virt pm2 ext_phys) (ke_epoch env)) st1;
                             st3 = upd_proc p (\<lambda>x. x\<lparr>pr_thread_count := pr_thread_count x + 1\<rparr>) st2
                         in kret (Some t) (k_strike env AUDIT_EVENT_THREAD_CREATE AUDIT_RESULT_OK (ucast (pr_pid (k_proc st3 p)))
                              (sched_meta tid (ucast (th_sched_auth_mode (k_thread st3 t)))) st3))))"

text \<open>Releasing the kernel stack and the extended state; both are scrubbed through the direct map first.\<close>

definition release_stack :: "k_env \<Rightarrow> thread_t \<Rightarrow> kst \<Rightarrow> unit kres" where
  "release_stack env th st =
     (if th_kernel_stack_top th = 0 then kret () st
      else let base = th_kernel_stack_top th - word_of_nat THREAD_KSTACK_BYTES;
               phys = pmm_virt_to_phys (k_pmm st) base;
               pm = (k_pmm st)\<lparr>pm_mem := hyper_scrub (unat phys) (THREAD_KSTACK_BYTES div 8) (pm_mem (k_pmm st))\<rparr>
           in case pmm_free_ex (ke_epoch env) phys THREAD_KSTACK_ORDER pm of
                None \<Rightarrow> None | Some pm1 \<Rightarrow> kret () (upd_pmm (\<lambda>_. pm1) st))"

definition release_extended :: "k_env \<Rightarrow> thread_t \<Rightarrow> kst \<Rightarrow> unit kres" where
  "release_extended env th st =
     (if th_extended_state th = 0 then kret () st
      else let phys = pmm_virt_to_phys (k_pmm st) (th_extended_state th);
               pm = (k_pmm st)\<lparr>pm_mem := hyper_scrub (unat phys) 4096 (pm_mem (k_pmm st))\<rparr>
           in case pmm_free (ke_epoch env) phys pm of
                None \<Rightarrow> None | Some pm1 \<Rightarrow> kret () (upd_pmm (\<lambda>_. pm1) st))"

definition thread_destroy :: "k_env \<Rightarrow> nat option \<Rightarrow> kst \<Rightarrow> unit kres" where
  "thread_destroy env thread st =
     (case thread of
        None \<Rightarrow> kret () st
      | Some t \<Rightarrow>
          let th = k_thread st t;
              st1 = k_strike env AUDIT_EVENT_THREAD_DESTROY AUDIT_RESULT_OK (ucast (owner_pid t st)) (sched_meta (th_tid th) 0) st
          in kbind (release_stack env th st1)
               (\<lambda>_ st2. kbind (release_extended env th st2)
               (\<lambda>_ st3.
                 let st4 = freed (FreedThread t) st3 in
                 case th_owner th of
                   None \<Rightarrow> kret () st4
                 | Some p \<Rightarrow>
                     let st5 = upd_proc p (\<lambda>x. x\<lparr>pr_waiter_thread := (if pr_waiter_thread x = Some t then None else pr_waiter_thread x),
                                 pr_thread_count := pr_thread_count x - 1\<rparr>) st4
                     in if pr_thread_count (k_proc st5 p) = 0 \<and> pr_pid (k_proc st5 p) \<noteq> 0 then process_destroy env (Some p) st5
                        else kret () st5)))"

end
