(* ===== verification/Sched.thy ===== *)
theory Sched
  imports Process
begin

text \<open>
  The scheduler (\<^verbatim>\<open>scheduler.c\<close>): per-CPU run queues with one envelope per mode, budgets, scheduling
  authority, entry leases, weighted dispatch, work stealing, reaping and the timer tick.

  A compare-and-swap loop is one step, since operations do not interleave within themselves.  \<open>schedule\<close> ends in one of
  three ways: the caller keeps the CPU, the CPU is switched to another thread, or it halts until the next interrupt, after which
  the search starts again at \<open>retry_pick\<close>.  The dispatched thread continues where its own last call ended.
\<close>

section \<open>CPUs and envelopes\<close>

definition cpu_slot :: "nat \<Rightarrow> nat" where
  "cpu_slot c = (if c \<ge> SCHED_MAX_CPUS then 0 else c)"

definition sched_request_resched :: "nat \<Rightarrow> kst \<Rightarrow> kst" where
  "sched_request_resched c st = st\<lparr>k_force_resched := (k_force_resched st)(cpu_slot c := True)\<rparr>"

definition sched_consume_resched_request :: "nat \<Rightarrow> kst \<Rightarrow> bool \<times> kst" where
  "sched_consume_resched_request c st =
     (k_force_resched st (cpu_slot c), st\<lparr>k_force_resched := (k_force_resched st)(cpu_slot c := False)\<rparr>)"

definition sched_mode_valid :: "mode_id_t \<Rightarrow> bool" where
  "sched_mode_valid m \<longleftrightarrow> mode_val MODE_VOID \<le> mode_val m \<and> mode_val m \<le> mode_val MODE_KERNEL"

definition sched_thread_mode :: "nat option \<Rightarrow> kst \<Rightarrow> mode_id_t" where
  "sched_thread_mode thread st =
     (case thread of
        None \<Rightarrow> MODE_KERNEL
      | Some t \<Rightarrow> (case th_owner (k_thread st t) of
            None \<Rightarrow> MODE_KERNEL
          | Some p \<Rightarrow> if sched_mode_valid (pr_mode (k_proc st p)) then pr_mode (k_proc st p) else MODE_KERNEL))"

text \<open>The index of the envelope of a mode.\<close>

definition sched_envelope :: "mode_id_t \<Rightarrow> mode_id_t" where
  "sched_envelope m = (if sched_mode_valid m then m else MODE_CASUAL)"

definition sched_active_envelope :: "nat \<Rightarrow> kst \<Rightarrow> mode_id_t" where
  "sched_active_envelope c st = sched_envelope (sc_active_mode (k_cpu st c))"

definition sched_select_target_cpu :: "k_env \<Rightarrow> nat option \<Rightarrow> kst \<Rightarrow> nat" where
  "sched_select_target_cpu env thread st =
     (case thread of
        None \<Rightarrow> 0
      | Some t \<Rightarrow>
          let online = (if ke_online env = 0 then 1 else if ke_online env > SCHED_MAX_CPUS then SCHED_MAX_CPUS else ke_online env);
              desired = th_last_cpu (k_thread st t)
          in if desired \<ge> online then unat (th_tid (k_thread st t)) mod online else desired)"

definition sched_refresh_active_mode :: "nat \<Rightarrow> kst \<Rightarrow> kst" where
  "sched_refresh_active_mode c st =
     (let desired = (if sched_mode_valid (k_sched_global_mode st) then k_sched_global_mode st else MODE_CASUAL);
          st1 = (if sc_active_mode (k_cpu st c) \<noteq> desired
                 then let st0 = upd_cpu c (\<lambda>u. u\<lparr>sc_active_mode := desired, sc_envelope_switches := sc_envelope_switches u + 1\<rparr>) st
                      in if desired = MODE_GHOST
                         then upd_env c MODE_GHOST (\<lambda>e. e\<lparr>en_dispatch_count := 0, en_denied_mode := 0, en_denied_auth := 0,
                                en_budget_exhaustions := 0\<rparr>) st0
                         else st0
                 else st)
      in upd_cpu c (\<lambda>u. u\<lparr>sc_active_security_epoch := k_sched_global_security_epoch st\<rparr>) st1)"

fun scheduler_transition_valid :: "thread_state_t \<Rightarrow> thread_state_t \<Rightarrow> bool" where
  "scheduler_transition_valid from_state to_state =
     (if from_state = to_state then True
      else case from_state of
          THREAD_READY \<Rightarrow> to_state \<in> {THREAD_RUNNING, THREAD_BLOCKED, THREAD_BLOCKED_AUTH, THREAD_SUSPENDED_MODE, THREAD_ZOMBIE}
        | THREAD_RUNNING \<Rightarrow> to_state \<in> {THREAD_READY, THREAD_BLOCKED, THREAD_BLOCKED_AUTH, THREAD_SUSPENDED_MODE, THREAD_ZOMBIE}
        | THREAD_BLOCKED \<Rightarrow> to_state \<in> {THREAD_READY, THREAD_BLOCKED_AUTH, THREAD_SUSPENDED_MODE, THREAD_ZOMBIE}
        | THREAD_BLOCKED_AUTH \<Rightarrow> to_state \<in> {THREAD_READY, THREAD_BLOCKED, THREAD_SUSPENDED_MODE, THREAD_ZOMBIE}
        | THREAD_SUSPENDED_MODE \<Rightarrow> to_state \<in> {THREAD_READY, THREAD_BLOCKED, THREAD_BLOCKED_AUTH, THREAD_ZOMBIE}
        | THREAD_ZOMBIE \<Rightarrow> False)"

definition scheduler_set_state :: "nat \<Rightarrow> thread_state_t \<Rightarrow> kst \<Rightarrow> unit kres" where
  "scheduler_set_state t s st =
     (if \<not> scheduler_transition_valid (th_state (k_thread st t)) s then kpanic ''SCHEDULER: illegal state transition''
      else kret () (upd_thread t (\<lambda>x. x\<lparr>th_state := s\<rparr>) st))"

section \<open>Queues\<close>

text \<open>\<open>p->next = v\<close>; the store through a NULL pointer, which the invariant excludes, has no effect here.\<close>

definition set_next :: "nat option \<Rightarrow> nat option \<Rightarrow> kst \<Rightarrow> kst" where
  "set_next p v st = (case p of None \<Rightarrow> st | Some x \<Rightarrow> upd_thread x (\<lambda>y. y\<lparr>th_next := v\<rparr>) st)"

definition ready_enqueue_locked :: "nat \<Rightarrow> mode_id_t \<Rightarrow> nat \<Rightarrow> kst \<Rightarrow> kst" where
  "ready_enqueue_locked c m t st =
     (let st1 = upd_thread t (\<lambda>x. x\<lparr>th_next := None\<rparr>) st in
      case en_ready_queue_head (k_envelope c m st) of
        None \<Rightarrow> upd_env c m (\<lambda>e. e\<lparr>en_ready_queue_head := Some t, en_ready_queue_tail := Some t\<rparr>) st1
      | Some _ \<Rightarrow> upd_env c m (\<lambda>e. e\<lparr>en_ready_queue_tail := Some t\<rparr>) (set_next (en_ready_queue_tail (k_envelope c m st)) (Some t) st1))"

definition ready_enqueue_head_locked :: "nat \<Rightarrow> mode_id_t \<Rightarrow> nat \<Rightarrow> kst \<Rightarrow> kst" where
  "ready_enqueue_head_locked c m t st =
     (let e = k_envelope c m st in
      upd_env c m (\<lambda>x. x\<lparr>en_ready_queue_head := Some t,
                         en_ready_queue_tail := (if en_ready_queue_tail e = None then Some t else en_ready_queue_tail e)\<rparr>)
        (upd_thread t (\<lambda>x. x\<lparr>th_next := en_ready_queue_head e\<rparr>) st))"

definition ready_dequeue_locked :: "nat \<Rightarrow> mode_id_t \<Rightarrow> kst \<Rightarrow> nat option \<times> kst" where
  "ready_dequeue_locked c m st =
     (case en_ready_queue_head (k_envelope c m st) of
        None \<Rightarrow> (None, st)
      | Some t \<Rightarrow>
          let nxt = th_next (k_thread st t) in
          (Some t, upd_thread t (\<lambda>x. x\<lparr>th_next := None\<rparr>)
             (upd_env c m (\<lambda>e. e\<lparr>en_ready_queue_head := nxt,
                en_ready_queue_tail := (if nxt = None then None else en_ready_queue_tail e)\<rparr>) st)))"

text \<open>The search loop of \<open>ready_remove_locked\<close>: the element and its predecessor, if it is found.\<close>

partial_function (option) ready_find :: "kst \<Rightarrow> nat \<Rightarrow> nat option \<Rightarrow> nat option \<Rightarrow> (bool \<times> nat option) option" where
  "ready_find st target cur prev =
     (case cur of
        None \<Rightarrow> Some (False, prev)
      | Some x \<Rightarrow> if x = target then Some (True, prev) else ready_find st target (th_next (k_thread st x)) (Some x))"

text \<open>Taking \<open>cur\<close> out behind \<open>prev\<close>, as written in both removal loops.\<close>

definition ready_unlink :: "nat \<Rightarrow> mode_id_t \<Rightarrow> nat option \<Rightarrow> nat \<Rightarrow> kst \<Rightarrow> kst" where
  "ready_unlink c m prev cur st =
     (let nxt = th_next (k_thread st cur);
          st1 = (case prev of
                   Some q \<Rightarrow> upd_thread q (\<lambda>x. x\<lparr>th_next := nxt\<rparr>) st
                 | None \<Rightarrow> upd_env c m (\<lambda>e. e\<lparr>en_ready_queue_head := nxt\<rparr>) st);
          st2 = upd_env c m (\<lambda>e. e\<lparr>en_ready_queue_tail := (if en_ready_queue_tail e = Some cur then prev else en_ready_queue_tail e)\<rparr>) st1
      in upd_thread cur (\<lambda>x. x\<lparr>th_next := None\<rparr>) st2)"

definition ready_remove_locked :: "nat \<Rightarrow> mode_id_t \<Rightarrow> nat \<Rightarrow> kst \<Rightarrow> bool kres" where
  "ready_remove_locked c m target st =
     (case ready_find st target (en_ready_queue_head (k_envelope c m st)) None of
        None \<Rightarrow> None
      | Some (found, prev) \<Rightarrow> if found then kret True (ready_unlink c m prev target st) else kret False st)"

definition zombie_enqueue_locked :: "nat \<Rightarrow> mode_id_t \<Rightarrow> nat \<Rightarrow> kst \<Rightarrow> kst" where
  "zombie_enqueue_locked c m t st =
     (let st1 = upd_thread t (\<lambda>x. x\<lparr>th_next := None\<rparr>) st in
      case en_zombie_queue_head (k_envelope c m st) of
        None \<Rightarrow> upd_env c m (\<lambda>e. e\<lparr>en_zombie_queue_head := Some t, en_zombie_queue_tail := Some t\<rparr>) st1
      | Some _ \<Rightarrow> upd_env c m (\<lambda>e. e\<lparr>en_zombie_queue_tail := Some t\<rparr>) (set_next (en_zombie_queue_tail (k_envelope c m st)) (Some t) st1))"

partial_function (option) queue_depth :: "kst \<Rightarrow> nat option \<Rightarrow> nat option" where
  "queue_depth st head =
     (case head of None \<Rightarrow> Some 0 | Some t \<Rightarrow> Option.bind (queue_depth st (th_next (k_thread st t))) (\<lambda>d. Some (Suc d)))"

section \<open>Authority, leases and budgets\<close>

definition scheduler_mode_allowed :: "k_env \<Rightarrow> nat option \<Rightarrow> nat option \<Rightarrow> kst \<Rightarrow> bool" where
  "scheduler_mode_allowed env target actor st =
     (case target of
        None \<Rightarrow> True
      | Some t \<Rightarrow> (case th_owner (k_thread st t) of
          None \<Rightarrow> True
        | Some p \<Rightarrow>
            let tm = pr_mode (k_proc st p); mask = ke_mode_mask env in
            if tm = MODE_KERNEL then True
            else if mask \<noteq> 0 \<and> ucast mask AND (push_bit (unat (mode_u8 tm)) 1 :: u32) = 0 then False
            else (case actor of
                None \<Rightarrow> True
              | Some a \<Rightarrow> (case th_owner (k_thread st a) of
                  None \<Rightarrow> True
                | Some q \<Rightarrow> if pr_mode (k_proc st q) = MODE_KERNEL then True else pr_mode (k_proc st q) = tm))))"

definition SCHED_EVENT_REVOKE_THREAD :: u8 where "SCHED_EVENT_REVOKE_THREAD = 0x30"
definition SCHED_EVENT_REVOKE_PROCESS :: u8 where "SCHED_EVENT_REVOKE_PROCESS = 0x31"
definition SCHED_EVENT_BUDGET_EXHAUST :: u8 where "SCHED_EVENT_BUDGET_EXHAUST = 0x32"
definition SCHED_EVENT_AUTH_DENY :: u8 where "SCHED_EVENT_AUTH_DENY = 0x33"
definition SCHED_EVENT_MODE_DENY :: u8 where "SCHED_EVENT_MODE_DENY = 0x34"

text \<open>The authority object behind an identity, if it is a live object of that kind with the right magic.\<close>

definition auth_object :: "u8 \<Rightarrow> u64 \<Rightarrow> kst \<Rightarrow> sched_auth_obj_t option" where
  "auth_object kind ptr st =
     (if ptr = 0 then None
      else case k_auth st ptr of
          None \<Rightarrow> None
        | Some a \<Rightarrow> if ao_magic a \<noteq> SCHED_AUTH_MAGIC \<or> ao_kind a \<noteq> kind then None else Some a)"

definition lookup_auth :: "k_env \<Rightarrow> nat option \<Rightarrow> nat \<Rightarrow> cap_type_t \<Rightarrow> u8 \<Rightarrow> kst \<Rightarrow> (u64 \<times> sched_auth_obj_t) option kres" where
  "lookup_auth env cspace sl ty kind st =
     kbind (with_cap (cap_lookup (cap_env_of env st) cspace sl) st)
       (\<lambda>found st1. case found of
            None \<Rightarrow> kret None st1
          | Some a \<Rightarrow>
              let i = ca_ident (k_cap st1) a in
              if unat (ci_type i) \<noteq> cap_type_val ty then kret None st1
              else kret (map_option (Pair (ci_object_ptr i)) (auth_object kind (ci_object_ptr i) st1)) st1)"

definition scheduler_auth_allowed :: "k_env \<Rightarrow> nat \<Rightarrow> mode_id_t \<Rightarrow> kst \<Rightarrow> bool kres" where
  "scheduler_auth_allowed env t active_mode st =
     (if \<not> th_sched_auth_required (k_thread st t) then kret True st
      else case th_owner (k_thread st t) of
          None \<Rightarrow> kret False st
        | Some p \<Rightarrow>
            kbind (lookup_auth env (pr_cspace (k_proc st p)) (unat (pr_sched_auth_root_slot (k_proc st p)))
                     CAP_TYPE_SCHED_AUTH_ROOT SCHED_AUTH_ROOT st)
              (\<lambda>root st1. case root of
                 None \<Rightarrow> kret False (upd_thread t (\<lambda>x. x\<lparr>th_sched_auth_valid := False\<rparr>)
                           (upd_proc p (\<lambda>x. x\<lparr>pr_sched_auth_root_valid := False\<rparr>) st1))
               | Some (root_ptr, r) \<Rightarrow>
                   let st2 = upd_proc p (\<lambda>x. x\<lparr>pr_sched_auth_root_valid := True, pr_max_total_budget := ao_max_total_budget r,
                               pr_refill_period_ticks := ao_refill_period_ticks r\<rparr>) st1
                   in kbind (lookup_auth env (pr_cspace (k_proc st2 p)) (unat (th_sched_auth_slot (k_thread st2 t)))
                               CAP_TYPE_SCHED_AUTH_THREAD SCHED_AUTH_THREAD st2)
                        (\<lambda>auth st3. case auth of
                           None \<Rightarrow> kret False (upd_thread t (\<lambda>x. x\<lparr>th_sched_auth_valid := False\<rparr>) st3)
                         | Some (_, a) \<Rightarrow>
                             if ao_root a \<noteq> root_ptr then kret False (upd_thread t (\<lambda>x. x\<lparr>th_sched_auth_valid := False\<rparr>) st3)
                             else kret (ao_mode_binding a = mode_u8 active_mode)
                                    (upd_thread t (\<lambda>x. x\<lparr>th_sched_auth_valid := True, th_sched_auth_mode := ao_mode_binding a\<rparr>) st3))))"

definition scheduler_lease_valid :: "nat \<Rightarrow> mode_id_t \<Rightarrow> u64 \<Rightarrow> kst \<Rightarrow> bool \<times> kst" where
  "scheduler_lease_valid t active_mode security_epoch st =
     (let th = k_thread st t in
      if (case th_owner th of None \<Rightarrow> False | Some p \<Rightarrow> pr_mode (k_proc st p) = MODE_KERNEL) then (True, st)
      else if th_lease_validated_epoch th = security_epoch then (th_lease_valid_cache th, st)
      else let valid = (\<not> le_epoch (th_lease th) < security_epoch
                        \<and> le_mode_mask (th_lease th) AND push_bit (unat (mode_u8 active_mode)) 1 \<noteq> 0)
           in (valid, upd_thread t (\<lambda>x. x\<lparr>th_lease_validated_epoch := security_epoch, th_lease_valid_cache := valid\<rparr>) st))"

definition process_budget_try_consume :: "nat option \<Rightarrow> u64 \<Rightarrow> kst \<Rightarrow> u64 \<times> kst" where
  "process_budget_try_consume proc request st =
     (case proc of
        None \<Rightarrow> (0, st)
      | Some p \<Rightarrow>
          if request = 0 then (0, st)
          else let cur = pr_remaining_process_budget (k_proc st p) in
            if cur = 0 then (0, st)
            else let consume = (if request < cur then request else cur)
                 in (consume, upd_proc p (\<lambda>x. x\<lparr>pr_remaining_process_budget := cur - consume\<rparr>) st))"

text \<open>Adding a grant to a budget, saturating at the bound.\<close>

definition add_budget :: "u64 \<Rightarrow> u64 \<Rightarrow> u64 \<Rightarrow> u64" where
  "add_budget bound budget grant = (if budget + grant < budget then bound else min (budget + grant) bound)"

definition refill_process :: "u64 \<Rightarrow> process_t \<Rightarrow> process_t" where
  "refill_process now x =
     (if \<not> pr_sched_auth_root_valid x then x
      else if pr_max_total_budget x = 0 then x
      else let period = (if pr_refill_period_ticks x < word_of_nat SCHED_MIN_REFILL_PERIOD
                         then word_of_nat SCHED_MIN_REFILL_PERIOD else pr_refill_period_ticks x);
               last = pr_last_process_refill x
           in if last = 0 then
                x\<lparr>pr_last_process_refill := now,
                  pr_remaining_process_budget := (if pr_remaining_process_budget x = 0 then pr_max_total_budget x
                                                  else pr_remaining_process_budget x)\<rparr>
              else if now \<le> last then x
              else let refills = (now - last) div period in
                if refills = 0 then x
                else x\<lparr>pr_last_process_refill := last + refills * period,
                       pr_remaining_process_budget :=
                         add_budget (pr_max_total_budget x) (pr_remaining_process_budget x) (refills * pr_max_total_budget x)\<rparr>)"

definition scheduler_refill_process_budget :: "nat option \<Rightarrow> u64 \<Rightarrow> kst \<Rightarrow> kst" where
  "scheduler_refill_process_budget proc now st = (case proc of None \<Rightarrow> st | Some p \<Rightarrow> upd_proc p (refill_process now) st)"

text \<open>The budget of the owner, if there is one, caps what a thread accumulates, except where the addition wraps around.\<close>

definition cap_by_owner :: "u64 option \<Rightarrow> u64 \<Rightarrow> u64" where
  "cap_by_owner proc_budget b = (case proc_budget of None \<Rightarrow> b | Some q \<Rightarrow> if q < b then q else b)"

definition refill_thread :: "u64 option \<Rightarrow> u64 \<Rightarrow> thread_t \<Rightarrow> thread_t" where
  "refill_thread proc_budget now x =
     (let period = (if th_refill_period_ticks x < word_of_nat SCHED_MIN_REFILL_PERIOD
                    then word_of_nat SCHED_MIN_REFILL_PERIOD else th_refill_period_ticks x);
          x1 = x\<lparr>th_refill_period_ticks := period\<rparr>
      in if th_last_thread_refill x = 0 then
           x1\<lparr>th_last_thread_refill := now,
              th_remaining_thread_budget := (if th_remaining_thread_budget x = 0
                then cap_by_owner proc_budget (ucast (th_max_slice x)) else th_remaining_thread_budget x)\<rparr>
         else if now \<le> th_last_thread_refill x then x1
         else let refills = (now - th_last_thread_refill x) div ucast period in
           if refills = 0 then x1
           else let grant = refills * ucast (th_max_slice x); b = th_remaining_thread_budget x in
             x1\<lparr>th_remaining_thread_budget :=
                  (if b + grant < b then th_max_accumulated x else cap_by_owner proc_budget (min (b + grant) (th_max_accumulated x))),
                th_last_thread_refill := th_last_thread_refill x + refills * ucast period\<rparr>)"

definition default_contract :: "thread_t \<Rightarrow> thread_t" where
  "default_contract x =
     x\<lparr>th_max_slice := (if th_max_slice x = 0 then word_of_nat DEFAULT_QUANTUM else th_max_slice x),
       th_max_accumulated := (if th_max_accumulated x = 0 then word_of_nat SCHED_DEFAULT_MAX_ACCUMULATED else th_max_accumulated x)\<rparr>"

definition scheduler_refill_budget :: "nat \<Rightarrow> u64 \<Rightarrow> kst \<Rightarrow> kst" where
  "scheduler_refill_budget t now st =
     (let st1 = upd_thread t default_contract st;
          owner = th_owner (k_thread st1 t);
          st2 = scheduler_refill_process_budget owner now st1
      in upd_thread t (refill_thread (map_option (\<lambda>p. pr_remaining_process_budget (k_proc st2 p)) owner) now) st2)"

section \<open>Choosing a thread\<close>

definition stall_check :: "k_env \<Rightarrow> nat \<Rightarrow> mode_id_t \<Rightarrow> nat \<Rightarrow> kst \<Rightarrow> kst" where
  "stall_check env c m t st =
     (let now = k_sched_global_tick st; last = th_last_dispatch_tick (k_thread st t) in
      if last > 0 \<and> now - last > word_of_nat SCHED_STALL_THRESHOLD then
        upd_thread t (\<lambda>x. x\<lparr>th_sched_tokens := th_sched_tokens x + 5\<rparr>)
          (k_strike env AUDIT_EVENT_SCHED_STALL AUDIT_RESULT_OK (word_of_nat (mode_val (en_mode (k_envelope c m st))))
             ((sched_meta (th_tid (k_thread st t)) 0)[1 := now - last]) st)
      else st)"

definition refresh_tokens :: "thread_t \<Rightarrow> thread_t" where
  "refresh_tokens x = x\<lparr>th_sched_tokens := (if th_sched_tokens x = 0 then if th_sched_weight x \<noteq> 0 then th_sched_weight x else 1
                                            else th_sched_tokens x)\<rparr>"

fun pick_loop :: "k_env \<Rightarrow> nat \<Rightarrow> mode_id_t \<Rightarrow> nat \<Rightarrow> kst \<Rightarrow> nat option \<times> kst" where
  "pick_loop env c m 0 st = (None, st)"
| "pick_loop env c m (Suc depth) st =
     (case ready_dequeue_locked c m st of
        (None, st1) \<Rightarrow> (None, st1)
      | (Some t, st1) \<Rightarrow>
          if th_state (k_thread st1 t) \<noteq> THREAD_READY then pick_loop env c m depth st1
          else let st2 = upd_thread t refresh_tokens (stall_check env c m t st1) in
            if th_sched_tokens (k_thread st2 t) > 0 then
              (Some t, upd_thread t (\<lambda>x. x\<lparr>th_sched_tokens := th_sched_tokens x - 1, th_last_dispatch_tick := k_sched_global_tick st\<rparr>) st2)
            else pick_loop env c m depth (ready_enqueue_locked c m t st2))"

definition scheduler_pick_next_weighted_locked :: "k_env \<Rightarrow> nat \<Rightarrow> mode_id_t \<Rightarrow> kst \<Rightarrow> nat option kres" where
  "scheduler_pick_next_weighted_locked env c m st =
     (case queue_depth st (en_ready_queue_head (k_envelope c m st)) of
        None \<Rightarrow> None
      | Some depth \<Rightarrow> (case pick_loop env c m depth st of (t, st1) \<Rightarrow> kret t st1))"

fun steal_loop :: "k_env \<Rightarrow> mode_id_t \<Rightarrow> nat \<Rightarrow> nat list \<Rightarrow> kst \<Rightarrow> nat option kres" where
  "steal_loop env m local_id [] st = kret None st"
| "steal_loop env m local_id (d # ds) st =
     (if d = local_id then steal_loop env m local_id ds st
      else if sc_active_mode (k_cpu st d) \<noteq> m
      then steal_loop env m local_id ds (upd_cpu (cpu_slot local_id) (\<lambda>u. u\<lparr>sc_denied_steal_mode := sc_denied_steal_mode u + 1\<rparr>) st)
      else kbind (scheduler_pick_next_weighted_locked env d (sched_envelope m) st)
             (\<lambda>stolen st1. if stolen \<noteq> None then kret stolen st1 else steal_loop env m local_id ds st1))"

definition scheduler_try_same_mode_steal :: "k_env \<Rightarrow> mode_id_t \<Rightarrow> nat \<Rightarrow> kst \<Rightarrow> nat option kres" where
  "scheduler_try_same_mode_steal env m local_id st = steal_loop env m local_id [0 ..< SCHED_MAX_CPUS] st"

section \<open>Set-up and metrics\<close>

definition zero_envelope :: "mode_id_t \<Rightarrow> scheduler_envelope_t" where
  "zero_envelope m = \<lparr>en_mode = m, en_ready_queue_head = None, en_ready_queue_tail = None, en_zombie_queue_head = None,
     en_zombie_queue_tail = None, en_dispatch_count = 0, en_denied_mode = 0, en_denied_auth = 0, en_budget_exhaustions = 0\<rparr>"

definition zero_cpu :: scheduler_cpu_state_t where
  "zero_cpu = \<lparr>sc_current_thread = None, sc_envelopes = zero_envelope, sc_schedule_count = 0, sc_switch_count = 0,
     sc_remote_enqueue = 0, sc_migrations = 0, sc_denied_enqueue = 0, sc_denied_wake = 0, sc_denied_dispatch = 0,
     sc_denied_no_auth = 0, sc_denied_mode_mismatch = 0, sc_denied_steal_mode = 0, sc_denied_steal_auth = 0,
     sc_budget_exhaustions = 0, sc_envelope_switches = 0, sc_tick_count = 0, sc_active_security_epoch = 0, sc_active_mode = MODE_VOID\<rparr>"

definition scheduler_cpu_init :: "k_env \<Rightarrow> kst \<Rightarrow> kst" where
  "scheduler_cpu_init env st =
     (if ke_cpu env \<ge> SCHED_MAX_CPUS then st
      else upd_cpu (ke_cpu env) (\<lambda>_. zero_cpu\<lparr>sc_active_mode := (if sched_mode_valid (ke_mode env) then ke_mode env else MODE_CASUAL),
             sc_active_security_epoch := ke_epoch env\<rparr>) st)"

text \<open>The static \<open>boot_process\<close> and \<open>boot_thread\<close> are the objects at the addresses \<open>bp\<close> and \<open>bt\<close>.\<close>

definition scheduler_init :: "k_env \<Rightarrow> nat \<Rightarrow> nat \<Rightarrow> kst \<Rightarrow> unit kres" where
  "scheduler_init env bp bt st =
     (let st1 = (scheduler_cpu_init env st)\<lparr>k_sched_global_mode := (if sched_mode_valid (ke_mode env) then ke_mode env else MODE_CASUAL),
                  k_sched_global_security_epoch := ke_epoch env\<rparr>;
          st2 = upd_proc bp (\<lambda>x. x\<lparr>pr_pml4_phys := table_of (read_cr3 (k_vmm st)), pr_pcid := 0, pr_pid := 0, pr_mode := MODE_KERNEL,
                  pr_thread_count := 1\<rparr>) st1;
          st3 = upd_thread bt (\<lambda>x. x\<lparr>th_tid := 0, th_owner := Some bp, th_state := THREAD_RUNNING,
                  th_ticks_remaining := word_of_nat DEFAULT_QUANTUM, th_sched_class := SCHED_CLASS_SYSTEM, th_last_cpu := 0,
                  th_last_dispatch_tick := 1, th_remaining_thread_budget := word_of_nat SCHED_DEFAULT_MAX_ACCUMULATED,
                  th_max_slice := word_of_nat DEFAULT_QUANTUM, th_refill_period_ticks := word_of_nat DEFAULT_QUANTUM,
                  th_max_accumulated := word_of_nat SCHED_DEFAULT_MAX_ACCUMULATED, th_last_thread_refill := 1,
                  th_sched_weight := 1, th_sched_tokens := 0, th_sched_auth_required := False, th_sched_auth_valid := True,
                  th_sched_auth_mode := mode_u8 MODE_KERNEL\<rparr>) st2
      in case pmm_alloc (ke_epoch env) COLOR_VOID 0 (k_pmm st3) of
           (ext_phys, pm) \<Rightarrow>
             if ext_phys = 0 then kpanic ''SCHEDULER: failed to allocate boot thread extended_state''
             else kret () (upd_cpu (sched_current_cpu_id env) (\<lambda>u. u\<lparr>sc_current_thread := Some bt\<rparr>)
                    (upd_thread bt (\<lambda>x. x\<lparr>th_extended_state := pmm_phys_to_virt pm ext_phys\<rparr>)
                    (upd_pmm (\<lambda>_. pm\<lparr>pm_mem := fast_zero (unat ext_phys) 4096 (pm_mem pm)\<rparr>) st3))))"

definition scheduler_on_mode_transition :: "mode_id_t \<Rightarrow> u64 \<Rightarrow> kst \<Rightarrow> kst" where
  "scheduler_on_mode_transition to_mode security_epoch st =
     (if \<not> sched_mode_valid to_mode then st
      else st\<lparr>k_sched_global_mode := to_mode, k_sched_global_security_epoch := security_epoch\<rparr>)"

record sched_metrics_t =
  mt_cpu :: scheduler_cpu_state_t
  mt_cpu_id :: nat
  mt_ready_depth :: nat
  mt_zombie_depth :: nat

definition scheduler_get_metrics :: "k_env \<Rightarrow> kst \<Rightarrow> sched_metrics_t kres" where
  "scheduler_get_metrics env st =
     (let c = sched_current_cpu_id env; st1 = sched_refresh_active_mode c st; e = k_envelope c (sched_active_envelope c st1) st1 in
      case (queue_depth st1 (en_ready_queue_head e), queue_depth st1 (en_zombie_queue_head e)) of
        (Some r, Some z) \<Rightarrow> kret \<lparr>mt_cpu = k_cpu st1 c, mt_cpu_id = ke_cpu env, mt_ready_depth = r, mt_zombie_depth = z\<rparr> st1
      | _ \<Rightarrow> None)"

section \<open>Minting scheduling authority\<close>

fun sched_mode_to_cap_mask :: "mode_id_t \<Rightarrow> u8" where
  "sched_mode_to_cap_mask MODE_VOID = 0x01"
| "sched_mode_to_cap_mask MODE_CASUAL = 0x02"
| "sched_mode_to_cap_mask MODE_SECURE = 0x04"
| "sched_mode_to_cap_mask MODE_LOCKDOWN = 0x08"
| "sched_mode_to_cap_mask MODE_GHOST = 0x10"
| "sched_mode_to_cap_mask MODE_KERNEL = CAP_MODE_VALID_MASK"
| "sched_mode_to_cap_mask (MODE_OTHER n) = 0"

text \<open>
  Making the identity of an authority object and inserting it; \<open>ptr\<close> is the address of the object, \<open>cell\<close> that of the identity.
  Where inserting fails the identity is released, and with it the object.
\<close>

definition publish_auth ::
    "k_env \<Rightarrow> nat option \<Rightarrow> u64 \<Rightarrow> cap_type_t \<Rightarrow> u16 \<Rightarrow> u8 \<Rightarrow> nat option \<Rightarrow> nat \<Rightarrow> kst \<Rightarrow> bool kres" where
  "publish_auth env cell ptr ty rights mode_mask cspace dst st =
     (case cap_identity_create cell ptr (word_of_nat (cap_type_val ty)) rights 0 mode_mask (k_cap st) of
        (None, c) \<Rightarrow> kret False (freed (FreedAuth ptr) (st\<lparr>k_cap := c, k_auth := (k_auth st)(ptr := None)\<rparr>))
      | (Some a, c) \<Rightarrow>
          (case cap_insert cspace dst (Some a) c of
             (r, c1) \<Rightarrow>
               if r \<noteq> 0 then
                 (case cap_identity_free a c1 of
                    None \<Rightarrow> None
                  | Some c2 \<Rightarrow> kbind (run_effects env (drop (length (ca_trace c1)) (ca_trace c2)) (st\<lparr>k_cap := c2\<rparr>)) (\<lambda>_ st1. kret False st1))
               else kret True (st\<lparr>k_cap := c1\<rparr>)))"

text \<open>\<open>ptr\<close> is what \<open>kzalloc\<close> returns for the authority object, 0 for NULL.\<close>

definition scheduler_mint_root_auth ::
    "k_env \<Rightarrow> u64 \<Rightarrow> nat option \<Rightarrow> nat option \<Rightarrow> u32 \<Rightarrow> mode_id_t \<Rightarrow> u64 \<Rightarrow> u64 \<Rightarrow> u64 \<Rightarrow> kst \<Rightarrow> int kres" where
  "scheduler_mint_root_auth env ptr cell proc dst_slot mode_binding max_total refill_period max_acc st =
     (case proc of
        None \<Rightarrow> kret (- 1) st
      | Some p \<Rightarrow>
          if pr_cspace (k_proc st p) = None then kret (- 1) st
          else if \<not> sched_mode_valid mode_binding \<or> mode_binding = MODE_KERNEL then kret (- 1) st
          else if max_total = 0 \<or> refill_period = 0 \<or> max_acc = 0 then kret (- 1) st
          else if sched_mode_to_cap_mask mode_binding = 0 then kret (- 1) st
          else if ptr = 0 then kret (- 1) st
          else let auth = \<lparr>ao_magic = SCHED_AUTH_MAGIC, ao_kind = SCHED_AUTH_ROOT, ao_mode_binding = mode_u8 mode_binding,
                     ao_max_total_budget = max_total, ao_refill_period_ticks = refill_period, ao_max_accumulated = max_acc,
                     ao_max_slice = 0, ao_weight = 0, ao_local_max_accumulated = 0, ao_root = 0, ao_owner_process = Some p,
                     ao_bound_thread = None\<rparr>
               in kbind (publish_auth env cell ptr CAP_TYPE_SCHED_AUTH_ROOT (CAP_RIGHT_READ OR CAP_RIGHT_GRANT)
                          (sched_mode_to_cap_mask mode_binding) (pr_cspace (k_proc st p)) (unat dst_slot)
                          (st\<lparr>k_auth := (k_auth st)(ptr \<mapsto> auth)\<rparr>))
                    (\<lambda>ok st1. if \<not> ok then kret (- 1) st1
                      else kret 0 (upd_proc p (\<lambda>x. x\<lparr>pr_sched_auth_root_slot := dst_slot, pr_sched_auth_root_valid := True,
                             pr_max_total_budget := max_total, pr_refill_period_ticks := refill_period,
                             pr_remaining_process_budget := max_total, pr_last_process_refill := 0\<rparr>) st1)))"

definition scheduler_derive_thread_auth ::
    "k_env \<Rightarrow> u64 \<Rightarrow> nat option \<Rightarrow> nat option \<Rightarrow> nat option \<Rightarrow> u32 \<Rightarrow> u32 \<Rightarrow> u32 \<Rightarrow> u32 \<Rightarrow> u64 \<Rightarrow> kst \<Rightarrow> int kres" where
  "scheduler_derive_thread_auth env ptr cell proc thread root_slot dst_slot max_slice weight local_max st =
     (case (proc, thread) of
        (Some p, Some t) \<Rightarrow>
          if pr_cspace (k_proc st p) = None then kret (- 1) st
          else if max_slice = 0 \<or> weight = 0 \<or> local_max = 0 then kret (- 1) st
          else kbind (lookup_auth env (pr_cspace (k_proc st p)) (unat root_slot) CAP_TYPE_SCHED_AUTH_ROOT SCHED_AUTH_ROOT st)
            (\<lambda>root st1. case root of
               None \<Rightarrow> kret (- 1) st1
             | Some (root_ptr, r) \<Rightarrow>
                 if ucast max_slice > ao_max_total_budget r then kret (- 1) st1
                 else if local_max > ao_max_accumulated r then kret (- 1) st1
                 else if ptr = 0 then kret (- 1) st1
                 else let derived = r\<lparr>ao_kind := SCHED_AUTH_THREAD, ao_max_slice := max_slice, ao_weight := weight,
                            ao_local_max_accumulated := local_max, ao_root := root_ptr, ao_owner_process := Some p,
                            ao_bound_thread := Some t\<rparr>
                      in kbind (publish_auth env cell ptr CAP_TYPE_SCHED_AUTH_THREAD CAP_RIGHT_READ
                                 (sched_mode_to_cap_mask (mode_of_val (unat (ao_mode_binding r)))) (pr_cspace (k_proc st1 p)) (unat dst_slot)
                                 (st1\<lparr>k_auth := (k_auth st1)(ptr \<mapsto> derived)\<rparr>))
                           (\<lambda>ok st2. if \<not> ok then kret (- 1) st2
                             else kret 0 (upd_thread t (\<lambda>x. x\<lparr>th_sched_auth_slot := ucast dst_slot, th_sched_auth_mode := ao_mode_binding r,
                                    th_sched_weight := (if weight > 255 then 255 else ucast weight), th_sched_tokens := 0,
                                    th_max_slice := max_slice, th_max_accumulated := local_max,
                                    th_refill_period_ticks := ucast (ao_refill_period_ticks r),
                                    th_remaining_thread_budget := ucast max_slice, th_sched_auth_required := True,
                                    th_sched_auth_valid := True\<rparr>) st2)))
      | _ \<Rightarrow> kret (- 1) st)"

end
