(* ===== verification/Schedule.thy ===== *)
theory Schedule
  imports Sched
begin

text \<open>
  The operations of \<^verbatim>\<open>scheduler.c\<close> that move threads: adding, waking and blocking, the zombie queue and
  the reaper, dispatch, revocation and the timer tick.
\<close>

section \<open>Adding and waking\<close>

definition deny :: "nat \<Rightarrow> thread_state_t \<Rightarrow> kst \<Rightarrow> bool kres" where
  "deny t s st = kbind (scheduler_set_state t s st) (\<lambda>_ st1. kret False st1)"

definition count_no_auth :: "nat \<Rightarrow> mode_id_t \<Rightarrow> kst \<Rightarrow> kst" where
  "count_no_auth c m st = upd_env c m (\<lambda>e. e\<lparr>en_denied_auth := en_denied_auth e + 1\<rparr>)
     (upd_cpu c (\<lambda>u. u\<lparr>sc_denied_no_auth := sc_denied_no_auth u + 1\<rparr>) st)"

definition count_exhausted :: "nat \<Rightarrow> mode_id_t \<Rightarrow> kst \<Rightarrow> kst" where
  "count_exhausted c m st = upd_env c m (\<lambda>e. e\<lparr>en_budget_exhaustions := en_budget_exhaustions e + 1\<rparr>)
     (upd_cpu c (\<lambda>u. u\<lparr>sc_budget_exhaustions := sc_budget_exhaustions u + 1\<rparr>) st)"

definition count_mismatch :: "nat \<Rightarrow> mode_id_t \<Rightarrow> kst \<Rightarrow> kst" where
  "count_mismatch c m st = upd_env c m (\<lambda>e. e\<lparr>en_denied_mode := en_denied_mode e + 1\<rparr>)
     (upd_cpu c (\<lambda>u. u\<lparr>sc_denied_mode_mismatch := sc_denied_mode_mismatch u + 1\<rparr>) st)"

definition process_exhausted :: "nat \<Rightarrow> kst \<Rightarrow> bool" where
  "process_exhausted t st \<longleftrightarrow>
     (case th_owner (k_thread st t) of None \<Rightarrow> False | Some p \<Rightarrow> pr_remaining_process_budget (k_proc st p) = 0)
     \<and> th_sched_class (k_thread st t) \<noteq> SCHED_CLASS_SYSTEM"

definition thread_exhausted :: "nat \<Rightarrow> kst \<Rightarrow> bool" where
  "thread_exhausted t st \<longleftrightarrow> th_remaining_thread_budget (k_thread st t) = 0 \<and> th_sched_class (k_thread st t) \<noteq> SCHED_CLASS_SYSTEM"

text \<open>
  The part \<open>scheduler_add\<close> and \<open>scheduler_wake\<close> have in common, from the refill to the insertion into the run queue of
  CPU \<open>c\<close>; the result says whether the thread was inserted.  They differ in the counter \<open>count_refused\<close>.
\<close>

definition admit :: "k_env \<Rightarrow> nat \<Rightarrow> nat \<Rightarrow> nat option \<Rightarrow> (scheduler_cpu_state_t \<Rightarrow> scheduler_cpu_state_t) \<Rightarrow> kst \<Rightarrow> bool kres" where
  "admit env c t actor count_refused st =
     (let tm = sched_thread_mode (Some t) st; m = sched_envelope tm in
      kbind (scheduler_auth_allowed env t (sc_active_mode (k_cpu st c)) (scheduler_refill_budget t (k_sched_global_tick st) st))
        (\<lambda>ok st1.
          if \<not> ok then deny t THREAD_BLOCKED_AUTH
            (log_sched env (owner_pid t st1) SCHED_EVENT_AUTH_DENY (th_tid (k_thread st1 t)) (count_no_auth c m st1))
          else case scheduler_lease_valid t (sc_active_mode (k_cpu st1 c)) (sc_active_security_epoch (k_cpu st1 c)) st1 of
            (lease, st2) \<Rightarrow>
              if \<not> lease then deny t THREAD_BLOCKED_AUTH (count_no_auth c m st2)
              else if process_exhausted t st2 then deny t THREAD_BLOCKED_AUTH (count_exhausted c m st2)
              else if tm \<noteq> sc_active_mode (k_cpu st2 c) \<and> tm \<noteq> MODE_KERNEL then
                deny t THREAD_SUSPENDED_MODE
                  (log_sched env (owner_pid t st2) SCHED_EVENT_MODE_DENY (th_tid (k_thread st2 t)) (count_mismatch c m st2))
              else let st3 = upd_thread t (\<lambda>x. x\<lparr>th_last_dispatch_tick :=
                          (if th_last_dispatch_tick x = 0 then k_sched_global_tick st2 else th_last_dispatch_tick x)\<rparr>) st2 in
                if thread_exhausted t st3 then deny t THREAD_BLOCKED_AUTH (count_exhausted c m st3)
                else if \<not> scheduler_mode_allowed env (Some t) actor st3 then deny t THREAD_BLOCKED (upd_cpu c count_refused st3)
                else kbind (scheduler_set_state t THREAD_READY st3)
                       (\<lambda>_ st4. kret True (ready_enqueue_locked c m t (upd_thread t (\<lambda>x. x\<lparr>th_last_cpu := c\<rparr>) st4)))))"

definition count_remote :: "k_env \<Rightarrow> nat \<Rightarrow> kst \<Rightarrow> kst" where
  "count_remote env c st =
     (if c \<noteq> sched_current_cpu_id env
      then upd_cpu (sched_current_cpu_id env) (\<lambda>u. u\<lparr>sc_remote_enqueue := sc_remote_enqueue u + 1\<rparr>) st else st)"

definition scheduler_add :: "k_env \<Rightarrow> nat option \<Rightarrow> kst \<Rightarrow> unit kres" where
  "scheduler_add env thread st =
     (case thread of
        None \<Rightarrow> kret () st
      | Some t \<Rightarrow>
          let c = sched_select_target_cpu env (Some t) st;
              actor = scheduler_get_current env st;
              st1 = sched_refresh_active_mode c st;
              m = sched_envelope (sched_thread_mode (Some t) st)
          in if th_state (k_thread st1 t) = THREAD_ZOMBIE then kpanic ''SCHEDULER: attempted to enqueue zombie''
             else if th_sched_class (k_thread st1 t) \<noteq> SCHED_CLASS_SYSTEM \<and> \<not> th_sched_auth_required (k_thread st1 t) then
               kbind (deny t THREAD_BLOCKED_AUTH
                 (log_sched env (owner_pid t st1) SCHED_EVENT_AUTH_DENY (th_tid (k_thread st1 t)) (count_no_auth c m st1)))
                 (\<lambda>_ st2. kret () st2)
             else kbind (admit env c t actor (\<lambda>u. u\<lparr>sc_denied_enqueue := sc_denied_enqueue u + 1\<rparr>) st1)
                    (\<lambda>ok st2. kret () (if ok then count_remote env c st2 else st2)))"

definition scheduler_block :: "nat option \<Rightarrow> kst \<Rightarrow> unit kres" where
  "scheduler_block thread st = (case thread of None \<Rightarrow> kret () st | Some t \<Rightarrow> scheduler_set_state t THREAD_BLOCKED st)"

definition scheduler_wake :: "k_env \<Rightarrow> nat option \<Rightarrow> kst \<Rightarrow> unit kres" where
  "scheduler_wake env thread st =
     (case thread of
        None \<Rightarrow> kret () st
      | Some t \<Rightarrow>
          let c = sched_select_target_cpu env (Some t) st;
              actor = scheduler_get_current env st;
              st1 = sched_refresh_active_mode c st
          in if th_state (k_thread st1 t) = THREAD_ZOMBIE then kret () (count_remote env c st1)
             else kbind (admit env c t actor (\<lambda>u. u\<lparr>sc_denied_wake := sc_denied_wake u + 1\<rparr>) st1)
                    (\<lambda>ok st2. kret () (if ok then count_remote env c st2 else st2)))"

section \<open>Zombies\<close>

definition scheduler_add_zombie :: "k_env \<Rightarrow> nat option \<Rightarrow> kst \<Rightarrow> unit kres" where
  "scheduler_add_zombie env thread st =
     (case thread of
        None \<Rightarrow> kret () st
      | Some t \<Rightarrow>
          kbind (scheduler_set_state t THREAD_ZOMBIE st)
            (\<lambda>_ st1. kret () (zombie_enqueue_locked (sched_current_cpu_id env) (sched_envelope (sched_thread_mode (Some t) st)) t st1)))"

fun reap_collect :: "nat \<Rightarrow> mode_id_t \<Rightarrow> nat \<Rightarrow> kst \<Rightarrow> nat list \<times> kst" where
  "reap_collect c m 0 st = ([], st)"
| "reap_collect c m (Suc budget) st =
     (case en_zombie_queue_head (k_envelope c m st) of
        None \<Rightarrow> ([], st)
      | Some victim \<Rightarrow>
          let nxt = th_next (k_thread st victim);
              st1 = upd_thread victim (\<lambda>x. x\<lparr>th_next := None\<rparr>)
                      (upd_env c m (\<lambda>e. e\<lparr>en_zombie_queue_head := nxt,
                         en_zombie_queue_tail := (if nxt = None then None else en_zombie_queue_tail e)\<rparr>) st)
          in if sc_current_thread (k_cpu st c) = Some victim then ([], zombie_enqueue_locked c m victim st1)
             else case reap_collect c m budget st1 of (vs, st2) \<Rightarrow> (victim # vs, st2))"

fun destroy_threads :: "k_env \<Rightarrow> nat list \<Rightarrow> kst \<Rightarrow> unit kres" where
  "destroy_threads env [] st = kret () st"
| "destroy_threads env (t # ts) st = kbind (thread_destroy env (Some t) st) (\<lambda>_ st1. destroy_threads env ts st1)"

definition scheduler_reap :: "k_env \<Rightarrow> kst \<Rightarrow> unit kres" where
  "scheduler_reap env st =
     (let c = sched_current_cpu_id env; st1 = sched_refresh_active_mode c st in
      case reap_collect c (sched_active_envelope c st1) SCHED_REAP_BUDGET st1 of (vs, st2) \<Rightarrow> destroy_threads env vs st2)"

section \<open>Dispatch\<close>

datatype sched_outcome = SchedKept | SchedSwitched nat | SchedIdle

text \<open>The first loop over candidates: those the mode policy does not allow next to the old thread are blocked.\<close>

partial_function (option) skip_denied :: "k_env \<Rightarrow> nat \<Rightarrow> mode_id_t \<Rightarrow> nat option \<Rightarrow> kst \<Rightarrow> nat option \<Rightarrow> nat option kres" where
  "skip_denied env c m next st old =
     (case next of
        None \<Rightarrow> kret None st
      | Some t \<Rightarrow>
          if scheduler_mode_allowed env (Some t) old st then kret (Some t) st
          else kbind (scheduler_set_state t THREAD_BLOCKED (upd_cpu c (\<lambda>u. u\<lparr>sc_denied_dispatch := sc_denied_dispatch u + 1\<rparr>) st))
                 (\<lambda>_ st1. kbind (scheduler_pick_next_weighted_locked env c m st1)
                 (\<lambda>n st2. skip_denied env c m n st2 old)))"

text \<open>The checks of the second loop on one candidate.\<close>

definition runnable :: "k_env \<Rightarrow> nat \<Rightarrow> mode_id_t \<Rightarrow> nat \<Rightarrow> kst \<Rightarrow> bool kres" where
  "runnable env c m t st =
     (let tm = sched_thread_mode (Some t) st in
      kbind (scheduler_auth_allowed env t (sc_active_mode (k_cpu st c)) (scheduler_refill_budget t (k_sched_global_tick st) st))
        (\<lambda>ok st1.
          if \<not> ok then deny t THREAD_BLOCKED_AUTH (count_no_auth c m st1)
          else case scheduler_lease_valid t (sc_active_mode (k_cpu st1 c)) (sc_active_security_epoch (k_cpu st1 c)) st1 of
            (lease, st2) \<Rightarrow>
              if \<not> lease then deny t THREAD_BLOCKED_AUTH (count_no_auth c m st2)
              else if tm \<noteq> sc_active_mode (k_cpu st2 c) \<and> tm \<noteq> MODE_KERNEL then deny t THREAD_SUSPENDED_MODE (count_mismatch c m st2)
              else if thread_exhausted t st2 then deny t THREAD_BLOCKED_AUTH (count_exhausted c m st2)
              else if process_exhausted t st2 then deny t THREAD_BLOCKED_AUTH (count_exhausted c m st2)
              else kret True st2))"

partial_function (option) find_runnable :: "k_env \<Rightarrow> nat \<Rightarrow> mode_id_t \<Rightarrow> nat option \<Rightarrow> kst \<Rightarrow> nat option kres" where
  "find_runnable env c m next st =
     (case next of
        None \<Rightarrow> kret None st
      | Some t \<Rightarrow>
          kbind (runnable env c m t st)
            (\<lambda>ok st1. if ok then kret (Some t) st1
              else kbind (scheduler_pick_next_weighted_locked env c m st1) (\<lambda>n st2. find_runnable env c m n st2)))"

definition canary_broken :: "nat option \<Rightarrow> kst \<Rightarrow> bool" where
  "canary_broken old st =
     (case old of
        None \<Rightarrow> False
      | Some t \<Rightarrow>
          let th = k_thread st t in
          th_tid th > 0 \<and> th_stack_canary th \<noteq> 0 \<and>
          read_word (unat (pmm_virt_to_phys (k_pmm st) (th_kernel_stack_top th - word_of_nat THREAD_KSTACK_BYTES))) 8 (pm_mem (k_pmm st))
            \<noteq> th_stack_canary th)"

definition requeue_old :: "nat \<Rightarrow> nat option \<Rightarrow> nat \<Rightarrow> kst \<Rightarrow> unit kres" where
  "requeue_old c old t st =
     (case old of
        None \<Rightarrow> kret () st
      | Some q \<Rightarrow>
          if th_state (k_thread st q) = THREAD_RUNNING \<and> q \<noteq> t then
            kbind (scheduler_set_state q THREAD_READY st)
              (\<lambda>_ st1. let m = sched_envelope (sched_thread_mode (Some q) st1) in
                kret () (if th_sched_tokens (k_thread st1 q) > 0 then ready_enqueue_head_locked c m q st1 else ready_enqueue_locked c m q st1))
          else kret () st)"

text \<open>The time granted to the dispatched thread, taken from its own budget and from that of its process.\<close>

definition slice_grant :: "thread_t \<Rightarrow> u64" where
  "slice_grant th =
     (let q = word_of_nat DEFAULT_QUANTUM; s = ucast (th_max_slice th);
          g = (if th_max_slice th > 0 \<and> q > s then s else q)
      in if th_sched_class th \<noteq> SCHED_CLASS_SYSTEM \<and> th_remaining_thread_budget th < g then th_remaining_thread_budget th else g)"

definition take_grant :: "nat \<Rightarrow> kst \<Rightarrow> u64 \<times> kst" where
  "take_grant t st =
     (let th = k_thread st t; g = slice_grant th in
      if th_sched_class th = SCHED_CLASS_SYSTEM then (g, st)
      else case th_owner th of None \<Rightarrow> (g, st) | Some p \<Rightarrow> process_budget_try_consume (Some p) g st)"

definition dispatch :: "k_env \<Rightarrow> nat \<Rightarrow> mode_id_t \<Rightarrow> nat option \<Rightarrow> nat \<Rightarrow> kst \<Rightarrow> bool kres" where
  "dispatch env c m old t st =
     kbind (requeue_old c old t st)
       (\<lambda>_ st1. kbind (scheduler_set_state t THREAD_RUNNING st1)
       (\<lambda>_ st2. case take_grant t st2 of (grant, st3) \<Rightarrow>
          let normal = (th_sched_class (k_thread st3 t) \<noteq> SCHED_CLASS_SYSTEM) in
          if normal \<and> grant = 0 then
            deny t THREAD_BLOCKED_AUTH (log_sched env (owner_pid t st3) SCHED_EVENT_BUDGET_EXHAUST 0 st3)
          else kret True
            (upd_env c m (\<lambda>e. e\<lparr>en_dispatch_count := en_dispatch_count e + 1\<rparr>)
            (upd_cpu c (\<lambda>u. u\<lparr>sc_current_thread := Some t\<rparr>)
            (upd_thread t (\<lambda>x. x\<lparr>th_remaining_thread_budget := (if normal then th_remaining_thread_budget x - grant
                                                                 else th_remaining_thread_budget x),
                                th_ticks_remaining := ucast grant, th_last_cpu := ke_cpu env\<rparr>) st3)))))"

text \<open>After the lock is released: nothing more if the thread keeps the CPU, else the address space is switched.\<close>

definition switch_to :: "k_env \<Rightarrow> nat \<Rightarrow> nat option \<Rightarrow> nat \<Rightarrow> kst \<Rightarrow> sched_outcome kres" where
  "switch_to env c old t st =
     (if old = Some t then kret SchedKept st
      else case old of
          None \<Rightarrow> kpanic ''NULL current thread''
        | Some q \<Rightarrow>
            let st1 = upd_cpu c (\<lambda>u. u\<lparr>sc_switch_count := sc_switch_count u + 1,
                        sc_migrations := (if th_last_cpu (k_thread st q) \<noteq> th_last_cpu (k_thread st t)
                                          then sc_migrations u + 1 else sc_migrations u)\<rparr>) st
            in (case (th_owner (k_thread st1 q), th_owner (k_thread st1 t)) of
                  (Some po, Some pn) \<Rightarrow>
                    let o' = k_proc st1 po; n' = k_proc st1 pn in
                    if pr_pml4_phys o' \<noteq> pr_pml4_phys n' then
                      if pr_mode n' \<noteq> sc_active_mode (k_cpu st1 c) \<and> pr_mode n' \<noteq> MODE_KERNEL then kpanic ''SCHED_PCID_VIOLATION''
                      else (case vmm_switch (pr_pml4_phys n') (pr_pcid n') (pr_mode n') (vm_switch (k_vmm st1)) of
                              None \<Rightarrow> kpanic ''VMM SWITCH VIOLATION''
                            | Some sw \<Rightarrow> kret (SchedSwitched t) (st1\<lparr>k_vmm := (k_vmm st1)\<lparr>vm_switch := sw\<rparr>\<rparr>))
                    else kret (SchedSwitched t) st1
                | _ \<Rightarrow> kret (SchedSwitched t) st1))"

definition take_stolen :: "nat \<Rightarrow> nat \<Rightarrow> kst \<Rightarrow> kst" where
  "take_stolen c t st =
     upd_cpu c (\<lambda>u. u\<lparr>sc_migrations := sc_migrations u + 1, sc_remote_enqueue := sc_remote_enqueue u + 1\<rparr>)
       (ready_enqueue_locked c (sched_active_envelope c st) t (upd_thread t (\<lambda>x. x\<lparr>th_last_cpu := c\<rparr>) st))"

definition old_running :: "nat option \<Rightarrow> kst \<Rightarrow> bool" where
  "old_running old st = (case old of None \<Rightarrow> False | Some t \<Rightarrow> th_state (k_thread st t) = THREAD_RUNNING)"

partial_function (option) retry_pick :: "k_env \<Rightarrow> kst \<Rightarrow> sched_outcome kres" where
  "retry_pick env st =
     (let c = sched_current_cpu_id env; st1 = sched_refresh_active_mode c st; m = sched_active_envelope c st1;
          old = sc_current_thread (k_cpu st1 c)
      in if en_ready_queue_head (k_envelope c m st1) = None then
           kbind (scheduler_try_same_mode_steal env (sc_active_mode (k_cpu st1 c)) c st1)
             (\<lambda>stolen st2. case stolen of
                Some t \<Rightarrow> retry_pick env (take_stolen c t st2)
              | None \<Rightarrow> if old_running old st2 then kret SchedKept st2
                        else kbind (scheduler_reap env st2) (\<lambda>_ st3. kret SchedIdle st3))
         else if canary_broken old st1 then kpanic ''SCHEDULER: Stack Overflow detected!''
         else kbind (scheduler_pick_next_weighted_locked env c m st1)
           (\<lambda>n st2. kbind (skip_denied env c m n st2 old)
           (\<lambda>n st3. kbind (find_runnable env c m n st3)
           (\<lambda>n st4. case n of
                None \<Rightarrow> retry_pick env st4
              | Some t \<Rightarrow> kbind (dispatch env c m old t st4)
                            (\<lambda>ok st5. if ok then switch_to env c old t st5 else retry_pick env st5)))))"

definition schedule :: "k_env \<Rightarrow> kst \<Rightarrow> sched_outcome kres" where
  "schedule env st =
     (let c = sched_current_cpu_id env in
      retry_pick env (upd_cpu c (\<lambda>u. u\<lparr>sc_schedule_count := sc_schedule_count u + 1\<rparr>) (sched_refresh_active_mode c st)))"

section \<open>Revocation\<close>

definition sched_modes :: "mode_id_t list" where
  "sched_modes = [MODE_VOID, MODE_CASUAL, MODE_SECURE, MODE_LOCKDOWN, MODE_GHOST, MODE_KERNEL]"

definition all_envelopes :: "(nat \<times> mode_id_t) list" where
  "all_envelopes = List.product [0 ..< SCHED_MAX_CPUS] sched_modes"

definition stop_thread :: "nat \<Rightarrow> kst \<Rightarrow> unit kres" where
  "stop_thread t st =
     kbind (scheduler_set_state t THREAD_BLOCKED_AUTH st) (\<lambda>_ st1. kret () (upd_thread t (\<lambda>x. x\<lparr>th_ticks_remaining := 0\<rparr>) st1))"

fun revoke_thread_scan :: "nat \<Rightarrow> (nat \<times> mode_id_t) list \<Rightarrow> kst \<Rightarrow> unit kres" where
  "revoke_thread_scan t [] st = kret () st"
| "revoke_thread_scan t ((c, m) # es) st =
     kbind (ready_remove_locked c m t st)
       (\<lambda>_ st1. kbind (if th_state (k_thread st1 t) \<in> {THREAD_READY, THREAD_RUNNING} then stop_thread t st1 else kret () st1)
       (\<lambda>_ st2. revoke_thread_scan t es (if sc_current_thread (k_cpu st2 c) = Some t then sched_request_resched c st2 else st2)))"

text \<open>The result tells what the final call of \<open>schedule\<close> did, if there was one.\<close>

definition scheduler_revoke_thread_immediate :: "k_env \<Rightarrow> nat option \<Rightarrow> kst \<Rightarrow> sched_outcome option kres" where
  "scheduler_revoke_thread_immediate env thread st =
     (case thread of
        None \<Rightarrow> kret None st
      | Some t \<Rightarrow>
          let st1 = upd_thread t (\<lambda>x. x\<lparr>th_sched_auth_valid := False, th_sched_tokens := 0\<rparr>) st;
              st2 = log_sched env (owner_pid t st1) SCHED_EVENT_REVOKE_THREAD (th_tid (k_thread st1 t)) st1
          in kbind (revoke_thread_scan t all_envelopes st2)
               (\<lambda>_ st3. if scheduler_get_current env st3 = Some t
                 then kbind (schedule env st3) (\<lambda>r st4. kret (Some r) st4) else kret None st3))"

partial_function (option) revoke_queue :: "nat \<Rightarrow> mode_id_t \<Rightarrow> nat \<Rightarrow> nat option \<Rightarrow> kst \<Rightarrow> nat option \<Rightarrow> unit kres" where
  "revoke_queue c m p cur st prev =
     (case cur of
        None \<Rightarrow> kret () st
      | Some t \<Rightarrow>
          let nxt = th_next (k_thread st t) in
          if th_owner (k_thread st t) = Some p then
            let st1 = upd_thread t (\<lambda>x. x\<lparr>th_sched_auth_valid := False\<rparr>) (ready_unlink c m prev t st) in
            kbind (if th_state (k_thread st1 t) \<in> {THREAD_READY, THREAD_RUNNING} then stop_thread t st1 else kret () st1)
              (\<lambda>_ st2. revoke_queue c m p nxt st2 prev)
          else revoke_queue c m p nxt st (Some t))"

definition revoke_current :: "nat \<Rightarrow> nat \<Rightarrow> kst \<Rightarrow> unit kres" where
  "revoke_current c p st =
     (case sc_current_thread (k_cpu st c) of
        None \<Rightarrow> kret () st
      | Some t \<Rightarrow>
          if th_owner (k_thread st t) \<noteq> Some p then kret () st
          else let st1 = upd_thread t (\<lambda>x. x\<lparr>th_sched_auth_valid := False\<rparr>) st in
            kbind (if th_state (k_thread st1 t) = THREAD_RUNNING then stop_thread t st1 else kret () st1)
              (\<lambda>_ st2. kret () (sched_request_resched c st2)))"

fun revoke_process_scan :: "nat \<Rightarrow> (nat \<times> mode_id_t) list \<Rightarrow> kst \<Rightarrow> unit kres" where
  "revoke_process_scan p [] st = kret () st"
| "revoke_process_scan p ((c, m) # es) st =
     kbind (revoke_queue c m p (en_ready_queue_head (k_envelope c m st)) st None)
       (\<lambda>_ st1. kbind (revoke_current c p st1) (\<lambda>_ st2. revoke_process_scan p es st2))"

definition scheduler_revoke_process_immediate :: "k_env \<Rightarrow> nat option \<Rightarrow> kst \<Rightarrow> sched_outcome option kres" where
  "scheduler_revoke_process_immediate env proc st =
     (case proc of
        None \<Rightarrow> kret None st
      | Some p \<Rightarrow>
          let st1 = upd_proc p (\<lambda>x. x\<lparr>pr_sched_auth_root_valid := False, pr_remaining_process_budget := 0\<rparr>) st;
              st2 = log_sched env (pr_pid (k_proc st1 p)) SCHED_EVENT_REVOKE_PROCESS (pr_sched_auth_root_slot (k_proc st1 p)) st1
          in kbind (revoke_process_scan p all_envelopes st2)
               (\<lambda>_ st3. if current_owner env st3 = Some p
                 then kbind (schedule env st3) (\<lambda>r st4. kret (Some r) st4) else kret None st3))"

section \<open>The timer tick\<close>

definition authority_lost :: "nat \<Rightarrow> kst \<Rightarrow> bool" where
  "authority_lost t st =
     (let th = k_thread st t in
      th_sched_class th \<noteq> SCHED_CLASS_SYSTEM \<and> th_sched_auth_required th \<and>
      (\<not> th_sched_auth_valid th \<or>
       (case th_owner th of
          None \<Rightarrow> True
        | Some p \<Rightarrow> \<not> pr_sched_auth_root_valid (k_proc st p) \<or> pr_remaining_process_budget (k_proc st p) = 0)))"

definition timer_handler :: "k_env \<Rightarrow> kst \<Rightarrow> sched_outcome option kres" where
  "timer_handler env st =
     (let c = sched_current_cpu_id env in
      case sc_current_thread (k_cpu st c) of
        None \<Rightarrow> kret None st
      | Some t \<Rightarrow>
          let st1 = sched_refresh_active_mode c ((upd_cpu c (\<lambda>u. u\<lparr>sc_tick_count := sc_tick_count u + 1\<rparr>) st)
                      \<lparr>k_sched_global_tick := k_sched_global_tick st + 1\<rparr>)
          in case sched_consume_resched_request c st1 of (force, st2) \<Rightarrow>
            let lost = authority_lost t st2;
                st3 = (if lost then log_sched env (owner_pid t st2) SCHED_EVENT_AUTH_DENY (th_tid (k_thread st2 t))
                                      (upd_thread t (\<lambda>x. x\<lparr>th_ticks_remaining := 0\<rparr>) st2) else st2);
                st4 = upd_thread t (\<lambda>x. x\<lparr>th_ticks_remaining := (if th_ticks_remaining x > 0 then th_ticks_remaining x - 1 else 0)\<rparr>) st3;
                count = sc_schedule_count (k_cpu st4 c)
            in kbind (if count \<noteq> 0 \<and> count mod 100 = 0 then scheduler_reap env st4 else kret () st4)
                 (\<lambda>_ st5. if th_ticks_remaining (k_thread st5 t) = 0 \<or> force \<or> lost
                   then kbind (schedule env st5) (\<lambda>r st6. kret (Some r) st6) else kret None st5))"

end
