(* ===== verification/Sched_Inv.thy ===== *)
theory Sched_Inv
  imports Schedule Capability_Run Linked_List
begin

text \<open>
  The run queues of the scheduler as lists.  \<open>quiet\<close> relates states that differ only in bookkeeping (counters, budgets,
  tokens, caches, logs); \<open>queues\<close> names the list behind every queue.  The primitives of the scheduler are then
  described by what they do to those lists and to the states of the threads.
\<close>

section \<open>Bookkeeping\<close>

definition tcore :: "thread_t \<Rightarrow> thread_t" where
  "tcore x = x\<lparr>th_ticks_remaining := 0, th_last_cpu := 0, th_remaining_thread_budget := 0, th_max_accumulated := 0,
     th_last_thread_refill := 0, th_max_slice := 0, th_refill_period_ticks := 0, th_sched_tokens := 0, th_sched_auth_mode := 0,
     th_sched_auth_valid := False, th_lease_validated_epoch := 0, th_lease_valid_cache := False, th_last_dispatch_tick := 0,
     th_next := None\<rparr>"

definition pcore :: "process_t \<Rightarrow> process_t" where
  "pcore x = x\<lparr>pr_remaining_process_budget := 0, pr_max_total_budget := 0, pr_refill_period_ticks := 0,
     pr_last_process_refill := 0, pr_sched_auth_root_valid := False\<rparr>"

definition ccore :: "scheduler_cpu_state_t \<Rightarrow> nat option \<times> mode_id_t \<times> u64" where
  "ccore u = (sc_current_thread u, sc_active_mode u, sc_active_security_epoch u)"

definition auth_same :: "cap_st \<Rightarrow> cap_st \<Rightarrow> bool" where
  "auth_same c c' \<longleftrightarrow> (cap_inv c \<longrightarrow> cap_inv c') \<and> ca_cnode c' = ca_cnode c \<and>
     (cap_inv c \<longrightarrow> (\<forall>a. alive c' a = alive c a)) \<and> (\<forall>a. same_auth (ca_ident c' a) (ca_ident c a))"

definition quiet :: "kst \<Rightarrow> kst \<Rightarrow> bool" where
  "quiet st st' \<longleftrightarrow> k_vmm st' = k_vmm st \<and> k_pcid st' = k_pcid st \<and> k_lattice st' = k_lattice st \<and> k_auth st' = k_auth st \<and>
     (\<forall>t. tcore (k_thread st' t) = tcore (k_thread st t)) \<and> (\<forall>p. pcore (k_proc st' p) = pcore (k_proc st p)) \<and>
     (\<forall>c. ccore (k_cpu st' c) = ccore (k_cpu st c)) \<and> k_sched_global_mode st' = k_sched_global_mode st \<and>
     k_sched_global_security_epoch st' = k_sched_global_security_epoch st \<and> k_sched_global_tick st' = k_sched_global_tick st \<and>
     k_force_resched st' = k_force_resched st \<and> k_process_registry st' = k_process_registry st \<and> k_next_pid st' = k_next_pid st \<and>
     k_next_tid st' = k_next_tid st \<and> k_freed st' = k_freed st \<and> auth_same (k_cap st) (k_cap st')"

lemma auth_same_refl [simp]: "auth_same c c"
  by (simp add: auth_same_def same_auth_def)

lemma auth_same_trans: "auth_same a b \<Longrightarrow> auth_same b c \<Longrightarrow> auth_same a c"
  by (auto simp: auth_same_def same_auth_def)

lemma quiet_refl [simp]: "quiet st st"
  by (simp add: quiet_def)

lemma quiet_trans: "quiet a b \<Longrightarrow> quiet b c \<Longrightarrow> quiet a c"
  unfolding quiet_def using auth_same_trans by auto

lemma tcoreD:
  assumes "tcore x = tcore y"
  shows "th_state x = th_state y" "th_owner x = th_owner y" "th_sched_class x = th_sched_class y" "th_tid x = th_tid y"
    "th_stack_canary x = th_stack_canary y" "th_kernel_stack_top x = th_kernel_stack_top y" "th_sched_auth_required x = th_sched_auth_required y"
    "th_sched_auth_slot x = th_sched_auth_slot y" "th_lease x = th_lease y" "th_extended_state x = th_extended_state y"
    "th_wait_next x = th_wait_next y" "th_ipc_payload x = th_ipc_payload y"
  using arg_cong[OF assms, of th_state] arg_cong[OF assms, of th_owner] arg_cong[OF assms, of th_sched_class] arg_cong[OF assms, of th_tid]
    arg_cong[OF assms, of th_stack_canary] arg_cong[OF assms, of th_kernel_stack_top] arg_cong[OF assms, of th_sched_auth_required]
    arg_cong[OF assms, of th_sched_auth_slot] arg_cong[OF assms, of th_lease] arg_cong[OF assms, of th_extended_state]
    arg_cong[OF assms, of th_wait_next] arg_cong[OF assms, of th_ipc_payload]
  by (simp_all add: tcore_def)

lemma pcoreD:
  assumes "pcore x = pcore y"
  shows "pr_mode x = pr_mode y" "pr_cspace x = pr_cspace y" "pr_sched_auth_root_slot x = pr_sched_auth_root_slot y" "pr_pid x = pr_pid y"
    "pr_pml4_phys x = pr_pml4_phys y" "pr_pcid x = pr_pcid y"
  using arg_cong[OF assms, of pr_mode] arg_cong[OF assms, of pr_cspace] arg_cong[OF assms, of pr_sched_auth_root_slot]
    arg_cong[OF assms, of pr_pid] arg_cong[OF assms, of pr_pml4_phys] arg_cong[OF assms, of pr_pcid]
  by (simp_all add: pcore_def)

lemma ccoreD:
  assumes "ccore x = ccore y"
  shows "sc_current_thread x = sc_current_thread y" "sc_active_mode x = sc_active_mode y"
    "sc_active_security_epoch x = sc_active_security_epoch y"
  using assms by (simp_all add: ccore_def)

lemma quiet_thread:
  assumes "quiet st st'"
  shows "th_state (k_thread st' t) = th_state (k_thread st t)" "th_owner (k_thread st' t) = th_owner (k_thread st t)"
    "th_sched_class (k_thread st' t) = th_sched_class (k_thread st t)"
    "th_sched_auth_required (k_thread st' t) = th_sched_auth_required (k_thread st t)"
    "th_sched_auth_slot (k_thread st' t) = th_sched_auth_slot (k_thread st t)"
    "th_lease (k_thread st' t) = th_lease (k_thread st t)"
  using assms tcoreD[of "k_thread st' t" "k_thread st t"] by (auto simp: quiet_def)

lemma quiet_proc:
  assumes "quiet st st'"
  shows "pr_mode (k_proc st' p) = pr_mode (k_proc st p)" "pr_cspace (k_proc st' p) = pr_cspace (k_proc st p)"
    "pr_sched_auth_root_slot (k_proc st' p) = pr_sched_auth_root_slot (k_proc st p)"
  using assms pcoreD[of "k_proc st' p" "k_proc st p"] by (auto simp: quiet_def)

lemma quiet_cpu:
  assumes "quiet st st'"
  shows "sc_current_thread (k_cpu st' c) = sc_current_thread (k_cpu st c)" "sc_active_mode (k_cpu st' c) = sc_active_mode (k_cpu st c)"
    "sc_active_security_epoch (k_cpu st' c) = sc_active_security_epoch (k_cpu st c)"
  using assms ccoreD[of "k_cpu st' c" "k_cpu st c"] by (auto simp: quiet_def)

lemma quiet_mode:
  assumes "quiet st st'"
  shows "sched_thread_mode t st' = sched_thread_mode t st" "scheduler_mode_allowed env t a st' = scheduler_mode_allowed env t a st"
    "sched_active_envelope c st' = sched_active_envelope c st" "scheduler_get_current env st' = scheduler_get_current env st"
    "old_running t st' = old_running t st"
  using quiet_thread[OF assms] quiet_proc[OF assms] quiet_cpu[OF assms]
  by (auto simp: sched_thread_mode_def scheduler_mode_allowed_def sched_active_envelope_def scheduler_get_current_def old_running_def
      Let_def split: option.splits)

text \<open>Updates of bookkeeping fields.\<close>

lemma quiet_upd_thread [simp]: "(\<And>x. tcore (f x) = tcore x) \<Longrightarrow> quiet st (upd_thread t f st)"
  by (simp add: quiet_def upd_thread_def)

lemma quiet_upd_proc [simp]: "(\<And>x. pcore (f x) = pcore x) \<Longrightarrow> quiet st (upd_proc t f st)"
  by (simp add: quiet_def upd_proc_def)

lemma quiet_upd_cpu [simp]: "(\<And>x. ccore (f x) = ccore x) \<Longrightarrow> quiet st (upd_cpu t f st)"
  by (simp add: quiet_def upd_cpu_def)

lemma quiet_upd_env [simp]: "quiet st (upd_env c m f st)"
  by (simp add: upd_env_def ccore_def)

lemma quiet_log [simp]: "quiet st (log_sched env pid ev d st)" "quiet st (log_lattice env pid v n a b st)"
  by (simp_all add: quiet_def log_sched_def log_lattice_def)

lemma auth_same_audit [simp]: "auth_same c (c\<lparr>ca_audit := a\<rparr>)"
proof -
  have "same_store c (c\<lparr>ca_audit := a\<rparr>)" by (simp add: same_store_def)
  from same_store_facts[OF this] show ?thesis by (simp add: auth_same_def same_auth_def)
qed

lemma quiet_strike [simp]: "quiet st (k_strike env ev r t meta st)"
  by (simp add: quiet_def k_strike_def)

text \<open>The same below further updates.\<close>

lemma quiet_steps [simp]:
  "quiet st0 st \<Longrightarrow> (\<And>x. tcore (f x) = tcore x) \<Longrightarrow> quiet st0 (upd_thread t f st)"
  "quiet st0 st \<Longrightarrow> (\<And>x. pcore (pf x) = pcore x) \<Longrightarrow> quiet st0 (upd_proc p pf st)"
  "quiet st0 st \<Longrightarrow> (\<And>x. ccore (cf x) = ccore x) \<Longrightarrow> quiet st0 (upd_cpu c cf st)"
  "quiet st0 st \<Longrightarrow> quiet st0 (upd_env c m ef st)" "quiet st0 st \<Longrightarrow> quiet st0 (log_sched env pid ev d st)"
  "quiet st0 st \<Longrightarrow> quiet st0 (k_strike env ev' r tg meta st)"
  by (rule quiet_trans, assumption, simp)+

section \<open>Queues\<close>

datatype qkey = RQ nat mode_id_t | ZQ nat mode_id_t

abbreviation nx :: "kst \<Rightarrow> nat \<Rightarrow> nat option" where
  "nx st t \<equiv> th_next (k_thread st t)"

fun qhead :: "kst \<Rightarrow> qkey \<Rightarrow> nat option" where
  "qhead st (RQ c m) = en_ready_queue_head (k_envelope c m st)"
| "qhead st (ZQ c m) = en_zombie_queue_head (k_envelope c m st)"

fun qtail :: "kst \<Rightarrow> qkey \<Rightarrow> nat option" where
  "qtail st (RQ c m) = en_ready_queue_tail (k_envelope c m st)"
| "qtail st (ZQ c m) = en_zombie_queue_tail (k_envelope c m st)"

definition links_of :: "kst \<Rightarrow> (nat \<Rightarrow> nat option) \<times> (qkey \<Rightarrow> nat option) \<times> (qkey \<Rightarrow> nat option)" where
  "links_of st = (nx st, qhead st, qtail st)"

definition queues :: "kst \<Rightarrow> (qkey \<Rightarrow> nat list) \<Rightarrow> bool" where
  "queues st Q \<longleftrightarrow> (\<forall>k. queue (nx st) (qhead st k) (qtail st k) (Q k)) \<and> (\<forall>k k'. k \<noteq> k' \<longrightarrow> set (Q k) \<inter> set (Q k') = {})"

lemma queues_links: "links_of st' = links_of st \<Longrightarrow> queues st' Q = queues st Q"
  by (simp add: queues_def links_of_def)

lemma queuesD:
  assumes "queues st Q"
  shows "queue (nx st) (qhead st k) (qtail st k) (Q k)" "k \<noteq> k' \<Longrightarrow> t \<in> set (Q k) \<Longrightarrow> t \<notin> set (Q k')"
  using assms by (auto simp: queues_def)

text \<open>A step that touches one queue only.\<close>

lemma queues_update:
  assumes q: "queues st Q" and k: "queue (nx st') (qhead st' k) (qtail st' k) xs"
    and heads: "\<And>k'. k' \<noteq> k \<Longrightarrow> qhead st' k' = qhead st k' \<and> qtail st' k' = qtail st k'"
    and nexts: "\<And>k' t. k' \<noteq> k \<Longrightarrow> t \<in> set (Q k') \<Longrightarrow> nx st' t = nx st t"
    and new: "\<And>k'. k' \<noteq> k \<Longrightarrow> set xs \<inter> set (Q k') = {}"
  shows "queues st' (Q(k := xs))"
proof -
  have "queue (nx st') (qhead st' k') (qtail st' k') (Q k')" if "k' \<noteq> k" for k'
    using queuesD(1)[OF q, of k'] queue_cong[of "Q k'" "nx st'" "nx st"] heads[OF that] nexts[OF that] by simp
  moreover have "set (Q k1) \<inter> set (Q k2) = {}" if "k1 \<noteq> k2" for k1 k2 using q that by (auto simp: queues_def)
  ultimately show ?thesis using k new by (simp add: queues_def) (metis inf_commute)
qed

lemma links_upd_thread [simp]: "(\<And>x. th_next (f x) = th_next x) \<Longrightarrow> links_of (upd_thread t f st) = links_of st"
proof -
  assume a: "\<And>x. th_next (f x) = th_next x"
  have "qhead (upd_thread t f st) k = qhead st k \<and> qtail (upd_thread t f st) k = qtail st k" for k
    by (cases k) (simp_all add: upd_thread_def k_envelope_def)
  then show ?thesis using a by (auto simp: links_of_def upd_thread_def fun_eq_iff)
qed

lemma qkey_upd [simp]:
  "qhead (upd_thread t f st) = qhead st" "qtail (upd_thread t f st) = qtail st"
  "qhead (upd_proc p pf st) = qhead st" "qtail (upd_proc p pf st) = qtail st"
  "qhead (st\<lparr>k_cap := cs\<rparr>) = qhead st" "qtail (st\<lparr>k_cap := cs\<rparr>) = qtail st"
  "qhead (st\<lparr>k_fate := fs\<rparr>) = qhead st" "qtail (st\<lparr>k_fate := fs\<rparr>) = qtail st"
proof -
  have "qhead (upd_thread t f st) k = qhead st k" "qtail (upd_thread t f st) k = qtail st k"
    "qhead (upd_proc p pf st) k = qhead st k" "qtail (upd_proc p pf st) k = qtail st k"
    "qhead (st\<lparr>k_cap := cs\<rparr>) k = qhead st k" "qtail (st\<lparr>k_cap := cs\<rparr>) k = qtail st k"
    "qhead (st\<lparr>k_fate := fs\<rparr>) k = qhead st k" "qtail (st\<lparr>k_fate := fs\<rparr>) k = qtail st k" for k
    by (cases k; simp add: upd_thread_def upd_proc_def k_envelope_def)+
  then show "qhead (upd_thread t f st) = qhead st" "qtail (upd_thread t f st) = qtail st"
  "qhead (upd_proc p pf st) = qhead st" "qtail (upd_proc p pf st) = qtail st"
  "qhead (st\<lparr>k_cap := cs\<rparr>) = qhead st" "qtail (st\<lparr>k_cap := cs\<rparr>) = qtail st"
  "qhead (st\<lparr>k_fate := fs\<rparr>) = qhead st" "qtail (st\<lparr>k_fate := fs\<rparr>) = qtail st" by (simp_all add: fun_eq_iff)
qed

lemma links_upd [simp]:
  "links_of (upd_proc p pf st) = links_of st" "links_of (log_sched env pid ev d st) = links_of st"
  "links_of (k_strike env ev' r tg meta st) = links_of st" "links_of (st\<lparr>k_cap := cs\<rparr>) = links_of st"
  by (simp_all add: links_of_def log_sched_def k_strike_def) (simp_all add: upd_proc_def)

lemma links_upd_cpu [simp]: "(\<And>x. sc_envelopes (f x) = sc_envelopes x) \<Longrightarrow> links_of (upd_cpu c f st) = links_of st"
proof -
  assume a: "\<And>x. sc_envelopes (f x) = sc_envelopes x"
  have "qhead (upd_cpu c f st) k = qhead st k \<and> qtail (upd_cpu c f st) k = qtail st k" for k
    using a by (cases k) (simp_all add: upd_cpu_def k_envelope_def)
  then show ?thesis by (simp add: links_of_def fun_eq_iff upd_cpu_def)
qed

definition elinks :: "scheduler_envelope_t \<Rightarrow> nat option \<times> nat option \<times> nat option \<times> nat option" where
  "elinks e = (en_ready_queue_head e, en_ready_queue_tail e, en_zombie_queue_head e, en_zombie_queue_tail e)"

lemma links_upd_env [simp]: "(\<And>x. elinks (f x) = elinks x) \<Longrightarrow> links_of (upd_env c m f st) = links_of st"
proof -
  assume a: "\<And>x. elinks (f x) = elinks x"
  have "qhead (upd_env c m f st) k = qhead st k \<and> qtail (upd_env c m f st) k = qtail st k" for k
    using a[of "k_envelope c m st"] by (cases k) (auto simp: upd_env_def upd_cpu_def k_envelope_def elinks_def)
  then show ?thesis by (simp add: links_of_def fun_eq_iff upd_env_def upd_cpu_def)
qed

text \<open>Bookkeeping that leaves the queues alone.\<close>

definition still :: "kst \<Rightarrow> kst \<Rightarrow> bool" where
  "still st st' \<longleftrightarrow> quiet st st' \<and> links_of st' = links_of st"

lemma still_refl [simp]: "still st st"
  by (simp add: still_def)

lemma still_trans: "still a b \<Longrightarrow> still b c \<Longrightarrow> still a c"
  using quiet_trans by (auto simp: still_def)

lemma stillI: "quiet st st' \<Longrightarrow> links_of st' = links_of st \<Longrightarrow> still st st'"
  by (simp add: still_def)

lemma still_queues: "still st st' \<Longrightarrow> queues st' Q = queues st Q"
  using queues_links[of st' st Q] by (simp add: still_def)

lemma still_quiet: "still st st' \<Longrightarrow> quiet st st'"
  by (simp add: still_def)

lemma still_upd_thread [simp]: "(\<And>x. tcore (f x) = tcore x \<and> th_next (f x) = th_next x) \<Longrightarrow> still st (upd_thread t f st)"
  by (simp add: still_def)

lemma still_upd_proc [simp]: "(\<And>x. pcore (f x) = pcore x) \<Longrightarrow> still st (upd_proc p f st)"
  by (simp add: still_def)

lemma still_upd_cpu [simp]: "(\<And>x. ccore (f x) = ccore x \<and> sc_envelopes (f x) = sc_envelopes x) \<Longrightarrow> still st (upd_cpu c f st)"
  by (simp add: still_def)

lemma still_upd_env [simp]: "(\<And>x. elinks (f x) = elinks x) \<Longrightarrow> still st (upd_env c m f st)"
  by (simp add: still_def)

lemma still_log [simp]: "still st (log_sched env pid ev d st)" "still st (k_strike env ev' r t meta st)"
  by (simp_all add: still_def)

lemma still_steps [simp]:
  "still st0 st \<Longrightarrow> (\<And>x. tcore (f x) = tcore x \<and> th_next (f x) = th_next x) \<Longrightarrow> still st0 (upd_thread t f st)"
  "still st0 st \<Longrightarrow> (\<And>x. pcore (pf x) = pcore x) \<Longrightarrow> still st0 (upd_proc p pf st)"
  "still st0 st \<Longrightarrow> (\<And>x. ccore (cf x) = ccore x \<and> sc_envelopes (cf x) = sc_envelopes x) \<Longrightarrow> still st0 (upd_cpu c cf st)"
  "still st0 st \<Longrightarrow> (\<And>x. elinks (ef x) = elinks x) \<Longrightarrow> still st0 (upd_env c m ef st)"
  "still st0 st \<Longrightarrow> still st0 (log_sched env pid ev d st)" "still st0 st \<Longrightarrow> still st0 (k_strike env ev' r tg meta st)"
  by (rule still_trans, assumption, simp)+

section \<open>Queue operations\<close>

lemma envelope_upd_env: "k_envelope c' m' (upd_env c m f st) = (if c' = c \<and> m' = m then f (k_envelope c m st) else k_envelope c' m' st)"
  by (simp add: k_envelope_def upd_env_def upd_cpu_def)

lemma envelope_upd_thread [simp]: "k_envelope c m (upd_thread t f st) = k_envelope c m st" "k_envelope c m (set_next p v st) = k_envelope c m st"
  by (auto simp: k_envelope_def upd_thread_def set_next_def split: option.splits)

lemma thread_upd: "k_thread (upd_thread t f st) x = (if x = t then f (k_thread st t) else k_thread st x)"
  "k_thread (upd_env c m g' st) = k_thread st" "k_thread (upd_cpu c h st) = k_thread st" "k_thread (upd_proc p h' st) = k_thread st"
  by (auto simp: upd_thread_def upd_env_def upd_cpu_def upd_proc_def)

lemma nx_set_next: "nx (set_next p v st) x = (if p = Some x then v else nx st x)"
  by (auto simp: set_next_def thread_upd split: option.splits)

lemma quiet_set_next [simp]: "quiet st (set_next p v st)"
  by (auto simp: set_next_def tcore_def split: option.splits)

lemma queues_push:
  assumes q: "queues st Q" and t: "\<And>k. t \<notin> set (Q k)"
    and n: "\<And>x. nx st' x = (if Q k \<noteq> [] \<and> x = last (Q k) then Some t else if x = t then None else nx st x)"
    and heads: "\<And>k'. qhead st' k' = (if k' = k \<and> Q k = [] then Some t else qhead st k')"
      "\<And>k'. qtail st' k' = (if k' = k then Some t else qtail st k')"
  shows "queues st' (Q(k := Q k @ [t]))"
proof -
  have last: "last (Q k) \<in> set (Q k) \<and> last (Q k) \<noteq> t" if "Q k \<noteq> []" using t[of k] last_in_set[OF that] by auto
  have "queue (nx st') (if Q k = [] then Some t else qhead st k) (Some t) (Q k @ [t])"
    by (rule queue_push[OF queuesD(1)[OF q, of k]]) (use t n last in auto)
  moreover have "nx st' x = nx st x" if k': "k' \<noteq> k" and x: "x \<in> set (Q k')" for k' x
  proof -
    have "Q k = [] \<or> x \<noteq> last (Q k)" using queuesD(2)[OF q k' x] last by auto
    then show ?thesis using n[of x] t[of k'] x by auto
  qed
  ultimately show ?thesis
    using queuesD(2)[OF q] t heads by (intro queues_update[OF q]) (auto split: if_splits)
qed

lemma ready_enqueue_ok:
  assumes q: "queues st Q" and t: "\<And>k. t \<notin> set (Q k)"
  shows "queues (ready_enqueue_locked c m t st) (Q(RQ c m := Q (RQ c m) @ [t]))" "quiet st (ready_enqueue_locked c m t st)"
proof -
  let ?st = "ready_enqueue_locked c m t st"
  note k = queuesD(1)[OF q, of "RQ c m"]
  note hd = queue_head[OF k, simplified] and tl = queue_tail[OF k, simplified]
  show "queues ?st (Q(RQ c m := Q (RQ c m) @ [t]))"
  proof (rule queues_push[OF q t])
    show "nx ?st x = (if Q (RQ c m) \<noteq> [] \<and> x = last (Q (RQ c m)) then Some t else if x = t then None else nx st x)" for x
      using hd tl by (auto simp: ready_enqueue_locked_def nx_set_next thread_upd)
    show "qhead ?st k' = (if k' = RQ c m \<and> Q (RQ c m) = [] then Some t else qhead st k')"
      "qtail ?st k' = (if k' = RQ c m then Some t else qtail st k')" for k'
      using hd by (cases k'; auto simp: ready_enqueue_locked_def envelope_upd_env)+
  qed
  have a: "quiet st (upd_thread t (\<lambda>x. x\<lparr>th_next := None\<rparr>) st)" by (simp add: tcore_def)
  show "quiet st ?st"
    unfolding ready_enqueue_locked_def Let_def
    by (auto split: option.splits intro: quiet_trans[OF a quiet_upd_env] quiet_trans[OF quiet_trans[OF a quiet_set_next] quiet_upd_env])
qed

lemma zombie_enqueue_ok:
  assumes q: "queues st Q" and t: "\<And>k. t \<notin> set (Q k)"
  shows "queues (zombie_enqueue_locked c m t st) (Q(ZQ c m := Q (ZQ c m) @ [t]))" "quiet st (zombie_enqueue_locked c m t st)"
proof -
  let ?st = "zombie_enqueue_locked c m t st"
  note k = queuesD(1)[OF q, of "ZQ c m"]
  note hd = queue_head[OF k, simplified] and tl = queue_tail[OF k, simplified]
  show "queues ?st (Q(ZQ c m := Q (ZQ c m) @ [t]))"
  proof (rule queues_push[OF q t])
    show "nx ?st x = (if Q (ZQ c m) \<noteq> [] \<and> x = last (Q (ZQ c m)) then Some t else if x = t then None else nx st x)" for x
      using hd tl by (auto simp: zombie_enqueue_locked_def nx_set_next thread_upd)
    show "qhead ?st k' = (if k' = ZQ c m \<and> Q (ZQ c m) = [] then Some t else qhead st k')"
      "qtail ?st k' = (if k' = ZQ c m then Some t else qtail st k')" for k'
      using hd by (cases k'; auto simp: zombie_enqueue_locked_def envelope_upd_env)+
  qed
  have a: "quiet st (upd_thread t (\<lambda>x. x\<lparr>th_next := None\<rparr>) st)" by (simp add: tcore_def)
  show "quiet st ?st"
    unfolding zombie_enqueue_locked_def Let_def
    by (auto split: option.splits intro: quiet_trans[OF a quiet_upd_env] quiet_trans[OF quiet_trans[OF a quiet_set_next] quiet_upd_env])
qed

lemma ready_enqueue_head_ok:
  assumes q: "queues st Q" and t: "\<And>k. t \<notin> set (Q k)"
  shows "queues (ready_enqueue_head_locked c m t st) (Q(RQ c m := t # Q (RQ c m)))" "quiet st (ready_enqueue_head_locked c m t st)"
proof -
  let ?st = "ready_enqueue_head_locked c m t st"
  note k = queuesD(1)[OF q, of "RQ c m"]
  have n: "nx ?st x = (if x = t then qhead st (RQ c m) else nx st x)" for x
    by (simp add: ready_enqueue_head_locked_def Let_def thread_upd)
  have heads: "qhead ?st k' = (if k' = RQ c m then Some t else qhead st k')"
    "qtail ?st k' = (if k' = RQ c m then if qtail st k' = None then Some t else qtail st k' else qtail st k')" for k'
    by (cases k'; auto simp: ready_enqueue_head_locked_def Let_def envelope_upd_env)+
  have "queue (nx ?st) (Some t) (if qtail st (RQ c m) = None then Some t else qtail st (RQ c m)) (t # Q (RQ c m))"
    by (rule queue_push_head[OF k]) (use n t[of "RQ c m"] in auto)
  then have "queue (nx ?st) (qhead ?st (RQ c m)) (qtail ?st (RQ c m)) (t # Q (RQ c m))" unfolding heads by simp
  then show "queues ?st (Q(RQ c m := t # Q (RQ c m)))"
    using queuesD(2)[OF q] t n heads by (intro queues_update[OF q]) (auto split: if_splits simp del: qhead.simps qtail.simps)
  have a: "quiet st (upd_thread t (\<lambda>x. x\<lparr>th_next := qhead st (RQ c m)\<rparr>) st)" by (simp add: tcore_def)
  show "quiet st ?st"
    unfolding ready_enqueue_head_locked_def Let_def using quiet_trans[OF a] by simp
qed

text \<open>Taking the first element out of a queue.\<close>

lemma queues_pop:
  assumes q: "queues st Q" and k: "Q k = t # xs"
    and n: "\<And>x. x \<noteq> t \<Longrightarrow> nx st' x = nx st x"
    and heads: "\<And>k'. qhead st' k' = (if k' = k then nx st t else qhead st k')"
      "\<And>k'. qtail st' k' = (if k' = k \<and> nx st t = None then None else qtail st k')"
  shows "queues st' (Q(k := xs))"
proof -
  note Qk = queuesD(1)[OF q, of k, unfolded k]
  have d: "t \<notin> set xs" using queue_distinct[OF Qk] by simp
  have "queue (nx st') (nx st t) (if nx st t = None then None else qtail st k) xs"
    by (rule queue_pop[OF Qk], rule n) (use d in auto)
  then have "queue (nx st') (qhead st' k) (qtail st' k) xs" using heads[of k] by auto
  moreover have "t' \<noteq> t" if "t' \<in> set (Q k')" "k' \<noteq> k" for t' k' using queuesD(2)[OF q that(2,1)] k by auto
  moreover have "set xs \<inter> set (Q k') = {}" if "k' \<noteq> k" for k' using queuesD(2)[OF q, of k k'] k that by auto
  ultimately show ?thesis using n heads by (intro queues_update[OF q]) auto
qed

lemma ready_dequeue_ok:
  assumes q: "queues st Q"
  shows "Q (RQ c m) = [] \<Longrightarrow> ready_dequeue_locked c m st = (None, st)"
    "Q (RQ c m) = t # xs \<Longrightarrow> \<exists>st'. ready_dequeue_locked c m st = (Some t, st') \<and> queues st' (Q(RQ c m := xs)) \<and> quiet st st'"
proof -
  note k = queuesD(1)[OF q, of "RQ c m"]
  show "Q (RQ c m) = [] \<Longrightarrow> ready_dequeue_locked c m st = (None, st)"
    using queue_head[OF k] by (simp add: ready_dequeue_locked_def)
  assume c: "Q (RQ c m) = t # xs"
  then have hd: "en_ready_queue_head (k_envelope c m st) = Some t" using queue_head[OF k] by simp
  let ?st = "snd (ready_dequeue_locked c m st)"
  have "queues ?st (Q(RQ c m := xs))"
  proof (rule queues_pop[OF q c])
    show "nx ?st x = nx st x" if "x \<noteq> t" for x using that hd by (simp add: ready_dequeue_locked_def thread_upd Let_def)
    show "qhead ?st k' = (if k' = RQ c m then nx st t else qhead st k')"
      "qtail ?st k' = (if k' = RQ c m \<and> nx st t = None then None else qtail st k')" for k'
      using hd by (cases k'; auto simp: ready_dequeue_locked_def envelope_upd_env Let_def)+
  qed
  moreover have "quiet st ?st"
    using hd by (simp add: ready_dequeue_locked_def Let_def tcore_def)
  ultimately show "\<exists>st'. ready_dequeue_locked c m st = (Some t, st') \<and> queues st' (Q(RQ c m := xs)) \<and> quiet st st'"
    using hd by (simp add: ready_dequeue_locked_def Let_def)
qed

section \<open>Choosing a thread\<close>

lemma queue_depth_path: "path (nx st) h xs \<Longrightarrow> queue_depth st h = Some (length xs)"
  by (induction xs arbitrary: h) (simp_all add: queue_depth.simps)

lemma queue_depth_ok:
  assumes "queues st Q"
  shows "queue_depth st (qhead st k) = Some (length (Q k))"
  using queuesD(1)[OF assms, of k] queue_depth_path by (auto simp: queue_def)

lemma stall_still: "still st0 st \<Longrightarrow> still st0 (stall_check env c m t st)"
  by (simp add: stall_check_def Let_def tcore_def)

lemma pick_ok:
  assumes q: "queues st Q" and r: "\<forall>t\<in>set (Q (RQ c m)). th_state (k_thread st t) = THREAD_READY"
  shows "Q (RQ c m) = [] \<Longrightarrow> scheduler_pick_next_weighted_locked env c m st = kret None st"
    "Q (RQ c m) = t # xs \<Longrightarrow> \<exists>st'. scheduler_pick_next_weighted_locked env c m st = kret (Some t) st' \<and>
       queues st' (Q(RQ c m := xs)) \<and> quiet st st'"
proof -
  note d = queue_depth_ok[OF q, of "RQ c m", simplified]
  show "Q (RQ c m) = [] \<Longrightarrow> scheduler_pick_next_weighted_locked env c m st = kret None st"
    using d by (simp add: scheduler_pick_next_weighted_locked_def)
  assume c: "Q (RQ c m) = t # xs"
  obtain st1 where D: "ready_dequeue_locked c m st = (Some t, st1)" "queues st1 (Q(RQ c m := xs))" "quiet st st1"
    using ready_dequeue_ok(2)[OF q c] by blast
  define st2 where "st2 = upd_thread t refresh_tokens (stall_check env c m t st1)"
  have s2: "still st1 st2" unfolding st2_def using stall_still[OF still_refl] by (simp add: refresh_tokens_def tcore_def)
  have pos: "th_sched_tokens (k_thread st2 t) > 0"
    by (simp add: st2_def thread_upd refresh_tokens_def word_gt_0)
  define st3 where "st3 = upd_thread t (\<lambda>x. x\<lparr>th_sched_tokens := th_sched_tokens x - 1, th_last_dispatch_tick := k_sched_global_tick st\<rparr>) st2"
  have s3: "still st1 st3" unfolding st3_def using s2 by (simp add: tcore_def)
  have "th_state (k_thread st1 t) = THREAD_READY" using quiet_thread(1)[OF D(3), of t] r c by simp
  then have "pick_loop env c m (Suc (length xs)) st = (Some t, st3)"
    using D(1) pos by (simp add: st2_def[symmetric] st3_def[symmetric] Let_def)
  then show "\<exists>st'. scheduler_pick_next_weighted_locked env c m st = kret (Some t) st' \<and> queues st' (Q(RQ c m := xs)) \<and> quiet st st'"
    using d c s3 D still_queues[OF s3] quiet_trans[OF D(3) still_quiet[OF s3]]
    by (auto simp: scheduler_pick_next_weighted_locked_def simp del: pick_loop.simps)
qed

section \<open>Budgets, authority and leases\<close>

lemma refill_still: "still st0 st \<Longrightarrow> still st0 (scheduler_refill_budget t now st)"
  by (simp add: scheduler_refill_budget_def scheduler_refill_process_budget_def Let_def default_contract_def refill_thread_def
      refill_process_def tcore_def pcore_def split: option.splits)

lemma lease_still:
  assumes "scheduler_lease_valid t m e st = (b, st')"
  shows "still st st'"
  using assms by (auto simp: scheduler_lease_valid_def Let_def tcore_def split: if_splits)

text \<open>The authority object a C-Node slot gives access to in the current mode.\<close>

definition auth_at :: "k_env \<Rightarrow> kst \<Rightarrow> nat option \<Rightarrow> nat \<Rightarrow> cap_type_t \<Rightarrow> u8 \<Rightarrow> (u64 \<times> sched_auth_obj_t) option" where
  "auth_at env st cspace sl ty kind =
     (case cspace of
        None \<Rightarrow> None
      | Some r \<Rightarrow>
          if sl < CNODE_SLOTS then
            (case slot (k_cap st) r sl of
               None \<Rightarrow> None
             | Some a \<Rightarrow>
                 if usable (cap_env_of env st) (k_cap st) a \<and> unat (ci_type (ca_ident (k_cap st) a)) = cap_type_val ty
                 then map_option (Pair (ci_object_ptr (ca_ident (k_cap st) a))) (auth_object kind (ci_object_ptr (ca_ident (k_cap st) a)) st)
                 else None)
          else None)"

text \<open>A thread holds the right to run in a mode: its process a root authority, itself one derived from that root.\<close>

definition authorised :: "k_env \<Rightarrow> kst \<Rightarrow> nat \<Rightarrow> mode_id_t \<Rightarrow> bool" where
  "authorised env st t m \<longleftrightarrow> \<not> th_sched_auth_required (k_thread st t) \<or>
     (case th_owner (k_thread st t) of
        None \<Rightarrow> False
      | Some p \<Rightarrow> \<exists>root_ptr r ptr a.
          auth_at env st (pr_cspace (k_proc st p)) (unat (pr_sched_auth_root_slot (k_proc st p))) CAP_TYPE_SCHED_AUTH_ROOT SCHED_AUTH_ROOT
            = Some (root_ptr, r) \<and>
          auth_at env st (pr_cspace (k_proc st p)) (unat (th_sched_auth_slot (k_thread st t))) CAP_TYPE_SCHED_AUTH_THREAD SCHED_AUTH_THREAD
            = Some (ptr, a) \<and>
          ao_root a = root_ptr \<and> ao_mode_binding a = mode_u8 m)"

lemma quiet_cap: "quiet st st' \<Longrightarrow> cap_inv (k_cap st) \<Longrightarrow> cap_inv (k_cap st')"
  by (simp add: quiet_def auth_same_def)

lemma quiet_auth_at:
  assumes q: "quiet st st'" and inv: "cap_inv (k_cap st)"
  shows "auth_at env st' cs sl ty kind = auth_at env st cs sl ty kind"
proof -
  have a: "auth_same (k_cap st) (k_cap st')" and k: "k_auth st' = k_auth st" using q by (auto simp: quiet_def)
  have s: "slot (k_cap st') = slot (k_cap st)" using a by (simp add: auth_same_def slot_def fun_eq_iff)
  have i: "ci_object_ptr (ca_ident (k_cap st') x) = ci_object_ptr (ca_ident (k_cap st) x)"
    "ci_type (ca_ident (k_cap st') x) = ci_type (ca_ident (k_cap st) x)"
    "ci_allowed_modes (ca_ident (k_cap st') x) = ci_allowed_modes (ca_ident (k_cap st) x)" for x
    using a by (auto simp: auth_same_def same_auth_def)
  have u: "usable (cap_env_of env st') (k_cap st') x = usable (cap_env_of env st) (k_cap st) x" for x
    using a inv i by (simp add: usable_def auth_same_def cap_env_of_def)
  show ?thesis unfolding auth_at_def s i u auth_object_def k by (rule refl)
qed

lemma quiet_authorised: "quiet st st' \<Longrightarrow> cap_inv (k_cap st) \<Longrightarrow> authorised env st' t m = authorised env st t m"
  using quiet_auth_at[of st st' env] quiet_thread[of st st'] quiet_proc[of st st'] by (simp add: authorised_def cong: option.case_cong)

lemma lookup_auth_ok:
  assumes inv: "cap_inv (k_cap st)"
  shows "\<exists>st'. lookup_auth env cs sl ty kind st = kret (auth_at env st cs sl ty kind) st' \<and> still st st'"
proof -
  obtain K rank N where K: "lineage_inv (k_cap st) K rank N" using inv by (auto simp: cap_inv_def)
  obtain c' where L: "cap_lookup (cap_env_of env st) cs sl (k_cap st) = Some (case cs of None \<Rightarrow> None | Some r \<Rightarrow>
              if sl < CNODE_SLOTS then
                (case slot (k_cap st) r sl of None \<Rightarrow> None | Some a \<Rightarrow> if usable (cap_env_of env st) (k_cap st) a then Some a else None)
              else None, c')" "lookup_frame (k_cap st) c'"
    using lookup_spec[OF K, of "cap_env_of env st" cs sl] by blast
  have core: "core (ca_ident c' a) = core (ca_ident (k_cap st) a)" for a
    using lookup_frame_core[OF L(2)] by (simp add: same_core_def)
  have same: "same_auth (ca_ident c' a) (ca_ident (k_cap st) a)" for a
    using core_fields[OF core[of a]] by (simp add: same_auth_def)
  have s: "still st (st\<lparr>k_cap := c'\<rparr>)"
    using lookup_inv[OF inv L(2)] lookup_alive[OF inv L(2)] same L(2)
    by (simp add: still_def quiet_def auth_same_def lookup_frame_def)
  have "lookup_auth env cs sl ty kind st = kret (auth_at env st cs sl ty kind) (st\<lparr>k_cap := c'\<rparr>)"
    using same L(1) by (auto simp: lookup_auth_def with_cap_def auth_at_def same_auth_def auth_object_def split: option.splits)
  then show ?thesis using s by blast
qed

lemma auth_allowed_ok:
  assumes inv: "cap_inv (k_cap st)"
  shows "\<exists>st'. scheduler_auth_allowed env t m st = kret (authorised env st t m) st' \<and> still st st'"
proof (cases "th_sched_auth_required (k_thread st t)")
  case True
  show ?thesis
  proof (cases "th_owner (k_thread st t)")
    case None
    then show ?thesis using True by (auto simp: scheduler_auth_allowed_def authorised_def)
  next
    case (Some p)
    let ?rs = "unat (pr_sched_auth_root_slot (k_proc st p))" and ?cs = "pr_cspace (k_proc st p)"
    obtain st1 where A: "lookup_auth env ?cs ?rs CAP_TYPE_SCHED_AUTH_ROOT SCHED_AUTH_ROOT st =
        kret (auth_at env st ?cs ?rs CAP_TYPE_SCHED_AUTH_ROOT SCHED_AUTH_ROOT) st1" "still st st1"
      using lookup_auth_ok[OF inv] by blast
    show ?thesis
    proof (cases "auth_at env st ?cs ?rs CAP_TYPE_SCHED_AUTH_ROOT SCHED_AUTH_ROOT")
      case None
      then show ?thesis using A True Some by (auto simp: scheduler_auth_allowed_def authorised_def tcore_def pcore_def)
    next
      case (Some rr)
      then obtain rp r where rr: "auth_at env st ?cs ?rs CAP_TYPE_SCHED_AUTH_ROOT SCHED_AUTH_ROOT = Some (rp, r)" by (cases rr) auto
      define st2 where "st2 = upd_proc p (\<lambda>x. x\<lparr>pr_sched_auth_root_valid := True, pr_max_total_budget := ao_max_total_budget r,
                               pr_refill_period_ticks := ao_refill_period_ticks r\<rparr>) st1"
      have s2: "still st st2" unfolding st2_def using A(2) by (simp add: pcore_def)
      note q2 = still_quiet[OF s2]
      let ?ts = "unat (th_sched_auth_slot (k_thread st t))"
      obtain st3 where B: "lookup_auth env ?cs ?ts CAP_TYPE_SCHED_AUTH_THREAD SCHED_AUTH_THREAD st2 =
          kret (auth_at env st2 ?cs ?ts CAP_TYPE_SCHED_AUTH_THREAD SCHED_AUTH_THREAD) st3" "still st2 st3"
        using lookup_auth_ok[OF quiet_cap[OF q2 inv]] by blast
      note s3 = still_trans[OF s2 B(2)]
      show ?thesis
        using A(1) rr B(1) s3 True \<open>th_owner (k_thread st t) = Some p\<close> quiet_auth_at[OF q2 inv] quiet_proc(2)[OF q2] quiet_thread(5)[OF q2]
        by (auto simp: scheduler_auth_allowed_def authorised_def tcore_def st2_def[symmetric] split: option.splits)
    qed
  qed
qed (auto simp: scheduler_auth_allowed_def authorised_def)

end
