(* ===== verification/Sched_Pick.thy ===== *)
theory Sched_Pick
  imports Sched_Inv
begin

text \<open>
  What one search of \<open>schedule\<close> does.  The invariant \<open>sched_inv\<close> says that every run queue holds ready threads of its own mode
  and every zombie queue dead ones; the candidate loops consume a prefix of the run queue; the search ends because
  every turn takes a thread out of the run queues of the mode or moves one to the searching CPU.
\<close>

section \<open>Invariant\<close>

definition sched_inv :: "kst \<Rightarrow> (qkey \<Rightarrow> nat list) \<Rightarrow> bool" where
  "sched_inv st Q \<longleftrightarrow> queues st Q \<and>
     (\<forall>c m. \<forall>t\<in>set (Q (RQ c m)). th_state (k_thread st t) = THREAD_READY \<and> sched_thread_mode (Some t) st = m) \<and>
     (\<forall>c m. \<forall>t\<in>set (Q (ZQ c m)). th_state (k_thread st t) = THREAD_ZOMBIE)"

abbreviation unqueued :: "(qkey \<Rightarrow> nat list) \<Rightarrow> nat \<Rightarrow> bool" where
  "unqueued Q t \<equiv> \<forall>k. t \<notin> set (Q k)"

definition set_st :: "nat \<Rightarrow> thread_state_t \<Rightarrow> kst \<Rightarrow> kst" where
  "set_st t s st = upd_thread t (\<lambda>x. x\<lparr>th_state := s\<rparr>) st"

lemma sched_invD:
  assumes "sched_inv st Q"
  shows "queues st Q" "t \<in> set (Q (RQ c m)) \<Longrightarrow> th_state (k_thread st t) = THREAD_READY"
    "t \<in> set (Q (RQ c m)) \<Longrightarrow> sched_thread_mode (Some t) st = m" "t \<in> set (Q (ZQ c m)) \<Longrightarrow> th_state (k_thread st t) = THREAD_ZOMBIE"
  using assms by (auto simp: sched_inv_def)

lemma unqueued_state:
  assumes "sched_inv st Q" and "th_state (k_thread st t) \<notin> {THREAD_READY, THREAD_ZOMBIE}"
  shows "unqueued Q t"
proof
  fix k show "t \<notin> set (Q k)" using sched_invD[OF assms(1)] assms(2) by (cases k) auto
qed

lemma sched_inv_quiet:
  assumes "sched_inv st Q" and "quiet st st'" and "queues st' Q'" and "\<And>k. set (Q' k) \<subseteq> set (Q k)"
  shows "sched_inv st' Q'"
  using assms(1,3,4) quiet_thread(1)[OF assms(2)] quiet_mode(1)[OF assms(2)] unfolding sched_inv_def by (metis subsetD)

lemma sched_inv_still: "sched_inv st Q \<Longrightarrow> still st st' \<Longrightarrow> sched_inv st' Q"
  using sched_inv_quiet[of st Q st' Q] still_queues[of st st' Q] still_quiet[of st st'] by (simp add: sched_inv_def)

lemma set_st_simps [simp]:
  "links_of (set_st t s st) = links_of st" "k_cap (set_st t s st) = k_cap st" "k_proc (set_st t s st) = k_proc st"
  "k_cpu (set_st t s st) = k_cpu st" "th_owner (k_thread (set_st t s st) x) = th_owner (k_thread st x)"
  "th_state (k_thread (set_st t s st) x) = (if x = t then s else th_state (k_thread st x))"
  "sched_thread_mode y (set_st t s st) = sched_thread_mode y st"
proof -
  show "links_of (set_st t s st) = links_of st" by (simp add: set_st_def)
qed (auto simp: set_st_def thread_upd sched_thread_mode_def upd_thread_def split: option.splits)

lemma sched_inv_set_st:
  assumes "sched_inv st Q" and "unqueued Q t"
  shows "sched_inv (set_st t s st) Q"
  using assms queues_links[of "set_st t s st" st Q] unfolding sched_inv_def by (auto simp del: qhead.simps)

lemma tcore_state: "tcore (x\<lparr>th_state := s\<rparr>) = (tcore x)\<lparr>th_state := s\<rparr>"
  by (simp add: tcore_def)

lemma quiet_set_st: "quiet st st' \<Longrightarrow> quiet (set_st t s st) (set_st t s st')"
  by (auto simp: quiet_def set_st_def upd_thread_def tcore_state)

lemma still_set_st: "still st st' \<Longrightarrow> still (set_st t s st) (set_st t s st')"
  by (simp add: still_def quiet_set_st)

lemma set_state_ok:
  "scheduler_transition_valid (th_state (k_thread st t)) s \<Longrightarrow> scheduler_set_state t s st = kret () (set_st t s st)"
  by (simp add: scheduler_set_state_def set_st_def)

section \<open>States of threads\<close>

text \<open>States that differ in bookkeeping and in the states of the threads in \<open>A\<close>.\<close>

definition level :: "nat set \<Rightarrow> kst \<Rightarrow> kst" where
  "level A st = st\<lparr>k_thread := (\<lambda>t. if t \<in> A then (k_thread st t)\<lparr>th_state := THREAD_READY\<rparr> else k_thread st t)\<rparr>"

definition quieta :: "nat set \<Rightarrow> kst \<Rightarrow> kst \<Rightarrow> bool" where
  "quieta A st st' \<longleftrightarrow> quiet (level A st) (level A st')"

lemma quieta_trans: "quieta A a b \<Longrightarrow> quieta A b c \<Longrightarrow> quieta A a c"
  unfolding quieta_def by (rule quiet_trans)

lemma level_quiet: "quiet st st' \<Longrightarrow> quiet (level A st) (level A st')"
  by (auto simp: quiet_def level_def tcore_state)

lemma quiet_quieta: "quiet st st' \<Longrightarrow> quieta A st st'"
  by (simp add: quieta_def level_quiet)

lemma quieta_mono: "quieta A st st' \<Longrightarrow> A \<subseteq> B \<Longrightarrow> quieta B st st'"
proof -
  assume "quieta A st st'" "A \<subseteq> B"
  moreover have "level B (level A st) = level B st" if "A \<subseteq> B" for st
    using that by (intro kst.equality) (auto simp: level_def fun_eq_iff)
  ultimately show ?thesis unfolding quieta_def using level_quiet[of "level A st" "level A st'" B] by simp
qed

lemma quieta_set_st: "quieta {t} st (set_st t s st)"
  by (auto simp: quieta_def quiet_def level_def set_st_def upd_thread_def)

lemma level_simps [simp]:
  "k_cpu (level A st) = k_cpu st" "k_proc (level A st) = k_proc st" "k_cap (level A st) = k_cap st"
  "th_owner (k_thread (level A st) t) = th_owner (k_thread st t)"
  "th_sched_auth_required (k_thread (level A st) t) = th_sched_auth_required (k_thread st t)"
  "th_sched_auth_slot (k_thread (level A st) t) = th_sched_auth_slot (k_thread st t)"
  "t \<notin> A \<Longrightarrow> k_thread (level A st) t = k_thread st t" "k_auth (level A st) = k_auth st"
  "k_sched_global_mode (level A st) = k_sched_global_mode st" "k_sched_global_security_epoch (level A st) = k_sched_global_security_epoch st"
  by (auto simp: level_def)

lemma level_mode [simp]: "sched_thread_mode t (level A st) = sched_thread_mode t st" "authorised env (level A st) t' m = authorised env st t' m"
  "sched_active_envelope c (level A st) = sched_active_envelope c st"
  by (auto simp: sched_thread_mode_def authorised_def auth_at_def auth_object_def cap_env_of_def usable_def sched_active_envelope_def
      split: option.splits cong: option.case_cong)

lemma quieta_facts:
  assumes "quieta A st st'"
  shows "sched_thread_mode t st' = sched_thread_mode t st" "cap_inv (k_cap st) \<Longrightarrow> cap_inv (k_cap st')"
    "t' \<notin> A \<Longrightarrow> th_state (k_thread st' t') = th_state (k_thread st t')"
    "sc_current_thread (k_cpu st' c) = sc_current_thread (k_cpu st c)" "sc_active_mode (k_cpu st' c) = sc_active_mode (k_cpu st c)"
    "sc_active_security_epoch (k_cpu st' c) = sc_active_security_epoch (k_cpu st c)"
    "sched_active_envelope c st' = sched_active_envelope c st" "th_owner (k_thread st' t') = th_owner (k_thread st t')"
    "k_sched_global_mode st' = k_sched_global_mode st" "k_sched_global_security_epoch st' = k_sched_global_security_epoch st"
    "cap_inv (k_cap st) \<Longrightarrow> authorised env st' t' m = authorised env st t' m"
proof -
  note q = assms[unfolded quieta_def]
  show "sched_thread_mode t st' = sched_thread_mode t st" "sched_active_envelope c st' = sched_active_envelope c st"
    using quiet_mode(1)[OF q, of t] quiet_mode(3)[OF q, of c] by simp_all
  show "cap_inv (k_cap st) \<Longrightarrow> cap_inv (k_cap st')" using quiet_cap[OF q] by simp
  show "t' \<notin> A \<Longrightarrow> th_state (k_thread st' t') = th_state (k_thread st t')" using quiet_thread(1)[OF q, of t'] by simp
  show "th_owner (k_thread st' t') = th_owner (k_thread st t')" using quiet_thread(2)[OF q, of t'] by simp
  show "sc_current_thread (k_cpu st' c) = sc_current_thread (k_cpu st c)" "sc_active_mode (k_cpu st' c) = sc_active_mode (k_cpu st c)"
    "sc_active_security_epoch (k_cpu st' c) = sc_active_security_epoch (k_cpu st c)"
    using quiet_cpu[OF q, of c] by simp_all
  show "k_sched_global_mode st' = k_sched_global_mode st" "k_sched_global_security_epoch st' = k_sched_global_security_epoch st"
    using q by (simp_all add: quiet_def)
  show "authorised env st' t' m = authorised env st t' m" if "cap_inv (k_cap st)"
    using quiet_authorised[OF q, of env t' m] that by simp
qed

section \<open>The candidate loops\<close>

text \<open>\<open>L\<close> is the candidate taken out of the run queue, followed by the rest of that queue.\<close>

definition cand_inv :: "kst \<Rightarrow> (qkey \<Rightarrow> nat list) \<Rightarrow> nat \<Rightarrow> mode_id_t \<Rightarrow> nat list \<Rightarrow> bool" where
  "cand_inv st Q c m L \<longleftrightarrow> sched_inv st (Q(RQ c m := tl L)) \<and>
     (L \<noteq> [] \<longrightarrow> unqueued (Q(RQ c m := tl L)) (hd L) \<and> th_state (k_thread st (hd L)) = THREAD_READY \<and>
       sched_thread_mode (Some (hd L)) st = m)"

definition first :: "nat list \<Rightarrow> nat option" where
  "first L = (if L = [] then None else Some (hd L))"

lemma pick_cand:
  assumes inv: "sched_inv st Q"
  shows "\<exists>st'. scheduler_pick_next_weighted_locked env c m st = kret (first (Q (RQ c m))) st' \<and>
    cand_inv st' Q c m (Q (RQ c m)) \<and> quiet st st'"
proof (cases "Q (RQ c m)")
  case Nil
  have "Q(RQ c m := []) = Q" using Nil by (metis fun_upd_triv)
  then show ?thesis using pick_ok(1)[OF sched_invD(1)[OF inv], of c m env] Nil inv sched_invD(2)[OF inv, of _ c m]
    by (auto simp: cand_inv_def first_def)
next
  case (Cons t xs)
  obtain st' where P: "scheduler_pick_next_weighted_locked env c m st = kret (Some t) st'" "queues st' (Q(RQ c m := xs))" "quiet st st'"
    using pick_ok(2)[OF sched_invD(1)[OF inv] _ Cons, of env] sched_invD(2)[OF inv, of _ c m] by blast
  have "sched_inv st' (Q(RQ c m := xs))"
    by (rule sched_inv_quiet[OF inv P(3,2)]) (use Cons in auto)
  moreover have "distinct (t # xs)" using queue_distinct[OF queuesD(1)[OF sched_invD(1)[OF inv], of "RQ c m"]] Cons by simp
  moreover have "t \<notin> set (Q k)" if "k \<noteq> RQ c m" for k using queuesD(2)[OF sched_invD(1)[OF inv], of "RQ c m" k t] Cons that by auto
  moreover have "th_state (k_thread st' t) = THREAD_READY" "sched_thread_mode (Some t) st' = m"
    using sched_invD(2,3)[OF inv, of t c m] Cons quiet_thread(1)[OF P(3), of t] quiet_mode(1)[OF P(3), of "Some t"] by auto
  ultimately show ?thesis using P Cons by (auto simp: cand_inv_def first_def)
qed

text \<open>Refusing the candidate and picking the next one.\<close>

lemma refuse_cand:
  assumes c: "cand_inv st Q c m (t # L)" and s: "still (set_st t s st) st1"
  shows "\<exists>st2. scheduler_pick_next_weighted_locked env c m st1 = kret (first L) st2 \<and> cand_inv st2 Q c m L \<and>
    quieta {t} st st2 \<and> th_state (k_thread st2 t) = s"
proof -
  have inv: "sched_inv st (Q(RQ c m := L))" and u: "unqueued (Q(RQ c m := L)) t" using c by (simp_all add: cand_inv_def)
  have inv1: "sched_inv st1 (Q(RQ c m := L))" by (rule sched_inv_still[OF sched_inv_set_st[OF inv u] s])
  obtain st2 where P: "scheduler_pick_next_weighted_locked env c m st1 = kret (first L) st2" "cand_inv st2 Q c m L" "quiet st1 st2"
    using pick_cand[OF inv1, of env c m] by (auto simp: cand_inv_def)
  note s2 = quiet_trans[OF still_quiet[OF s] P(3)]
  have "quieta {t} st st2" using quieta_trans[OF quieta_set_st quiet_quieta[OF s2]] .
  moreover have "th_state (k_thread st2 t) = s" using quiet_thread(1)[OF s2, of t] by simp
  ultimately show ?thesis using P by blast
qed

text \<open>What the second loop has checked of the thread it stops at.\<close>

definition admitted :: "k_env \<Rightarrow> nat \<Rightarrow> nat \<Rightarrow> kst \<Rightarrow> bool" where
  "admitted env c t st \<longleftrightarrow> authorised env st t (sc_active_mode (k_cpu st c)) \<and>
     ((\<exists>p. th_owner (k_thread st t) = Some p \<and> pr_mode (k_proc st p) = MODE_KERNEL) \<or>
      th_lease_validated_epoch (k_thread st t) = sc_active_security_epoch (k_cpu st c) \<and> th_lease_valid_cache (k_thread st t)) \<and>
     (sched_thread_mode (Some t) st = sc_active_mode (k_cpu st c) \<or> sched_thread_mode (Some t) st = MODE_KERNEL) \<and>
     \<not> thread_exhausted t st \<and> \<not> process_exhausted t st"

lemma lease_result:
  assumes "scheduler_lease_valid t m e st = (True, st')"
  shows "(\<exists>p. th_owner (k_thread st' t) = Some p \<and> pr_mode (k_proc st' p) = MODE_KERNEL) \<or>
    th_lease_validated_epoch (k_thread st' t) = e \<and> th_lease_valid_cache (k_thread st' t)"
  using assms by (auto simp: scheduler_lease_valid_def Let_def thread_upd upd_thread_def split: if_splits option.splits)

lemma still_counts:
  "still st (count_no_auth c m st)" "still st (count_exhausted c m st)" "still st (count_mismatch c m st)"
  by (simp_all add: count_no_auth_def count_exhausted_def count_mismatch_def ccore_def elinks_def)

lemma deny_ok:
  assumes "still st st1" and "scheduler_transition_valid (th_state (k_thread st t)) s"
  shows "\<exists>st'. deny t s st1 = kret False st' \<and> still (set_st t s st) st'"
proof -
  have "th_state (k_thread st1 t) = th_state (k_thread st t)" using quiet_thread(1)[OF still_quiet[OF assms(1)]] .
  then show ?thesis using assms by (auto simp: deny_def set_state_ok still_set_st)
qed

lemma runnable_ok:
  assumes inv: "cap_inv (k_cap st)" and r: "th_state (k_thread st t) = THREAD_READY"
  shows "(\<exists>st'. runnable env c m t st = kret True st' \<and> still st st' \<and> admitted env c t st') \<or>
    (\<exists>s st'. runnable env c m t st = kret False st' \<and> still (set_st t s st) st' \<and> s \<in> {THREAD_BLOCKED_AUTH, THREAD_SUSPENDED_MODE})"
proof -
  define st0 where "st0 = scheduler_refill_budget t (k_sched_global_tick st) st"
  have s0: "still st st0" unfolding st0_def by (rule refill_still) simp
  obtain st1 where A: "scheduler_auth_allowed env t (sc_active_mode (k_cpu st c)) st0
      = kret (authorised env st0 t (sc_active_mode (k_cpu st c))) st1" "still st0 st1"
    using auth_allowed_ok[OF quiet_cap[OF still_quiet[OF s0] inv]] by blast
  note s1 = still_trans[OF s0 A(2)]
  obtain lease st2 where L: "scheduler_lease_valid t (sc_active_mode (k_cpu st1 c)) (sc_active_security_epoch (k_cpu st1 c)) st1 = (lease, st2)"
    by (cases "scheduler_lease_valid t (sc_active_mode (k_cpu st1 c)) (sc_active_security_epoch (k_cpu st1 c)) st1")
  note s2 = still_trans[OF s1 lease_still[OF L]]
  let ?tm = "sched_thread_mode (Some t) st"
  have no: ?thesis if a: "runnable env c m t st = deny t s stx" and b: "still st stx" and d: "s \<in> {THREAD_BLOCKED_AUTH, THREAD_SUSPENDED_MODE}" for stx s
  proof -
    obtain st' where "deny t s stx = kret False st'" "still (set_st t s st) st'"
      using deny_ok[OF b, of t s] d r by auto
    then show ?thesis using a d by (intro disjI2 exI[of _ s] exI[of _ st']) simp
  qed
  have R: "runnable env c m t st =
    (if \<not> authorised env st0 t (sc_active_mode (k_cpu st c)) then deny t THREAD_BLOCKED_AUTH (count_no_auth c m st1)
     else if \<not> lease then deny t THREAD_BLOCKED_AUTH (count_no_auth c m st2)
     else if ?tm \<noteq> sc_active_mode (k_cpu st2 c) \<and> ?tm \<noteq> MODE_KERNEL then deny t THREAD_SUSPENDED_MODE (count_mismatch c m st2)
     else if thread_exhausted t st2 \<or> process_exhausted t st2 then deny t THREAD_BLOCKED_AUTH (count_exhausted c m st2)
     else kret True st2)"
    using A(1) L by (simp add: runnable_def Let_def st0_def[symmetric])
  note st1' = still_trans[OF s1 still_counts(1)] and st2' = still_trans[OF s2 still_counts(1)] still_trans[OF s2 still_counts(2)]
    still_trans[OF s2 still_counts(3)]
  consider (auth) "\<not> authorised env st0 t (sc_active_mode (k_cpu st c))"
    | (lease) "authorised env st0 t (sc_active_mode (k_cpu st c))" "\<not> lease"
    | (mode) "authorised env st0 t (sc_active_mode (k_cpu st c))" lease "?tm \<noteq> sc_active_mode (k_cpu st2 c) \<and> ?tm \<noteq> MODE_KERNEL"
    | (budget) "authorised env st0 t (sc_active_mode (k_cpu st c))" lease "\<not> (?tm \<noteq> sc_active_mode (k_cpu st2 c) \<and> ?tm \<noteq> MODE_KERNEL)"
        "thread_exhausted t st2 \<or> process_exhausted t st2"
    | (ok) "authorised env st0 t (sc_active_mode (k_cpu st c))" lease "\<not> (?tm \<noteq> sc_active_mode (k_cpu st2 c) \<and> ?tm \<noteq> MODE_KERNEL)"
        "\<not> (thread_exhausted t st2 \<or> process_exhausted t st2)" by blast
  then show ?thesis
  proof cases
    case auth
    then show ?thesis by (intro no[OF _ st1']) (use R in auto)
  next
    case lease
    then show ?thesis by (intro no[OF _ st2'(1)]) (use R in auto)
  next
    case mode
    then show ?thesis by (intro no[OF _ st2'(3)]) (use R in auto)
  next
    case budget
    then show ?thesis by (intro no[OF _ st2'(2)]) (use R in auto)
  next
    case ok
    have "authorised env st2 t (sc_active_mode (k_cpu st2 c))"
      using ok(1) quiet_authorised[OF still_quiet[OF s0] inv] quiet_authorised[OF still_quiet[OF s2] inv]
        quiet_cpu(2)[OF still_quiet[OF s2]] by simp
    moreover have "sched_thread_mode (Some t) st2 = ?tm" using quiet_mode(1)[OF still_quiet[OF s2]] by simp
    moreover have "sc_active_security_epoch (k_cpu st2 c) = sc_active_security_epoch (k_cpu st1 c)"
      using quiet_cpu(3)[OF still_quiet[OF lease_still[OF L]]] by simp
    ultimately have "admitted env c t st2" using ok lease_result[of t _ _ st1 st2] L unfolding admitted_def by auto
    then show ?thesis using R ok s2 by auto
  qed
qed

lemma cand_distinct: "cand_inv st Q c m L \<Longrightarrow> distinct L"
proof (cases L)
  case (Cons t xs)
  assume "cand_inv st Q c m L"
  then have "sched_inv st (Q(RQ c m := xs))" and u: "unqueued (Q(RQ c m := xs)) t" using Cons by (simp_all add: cand_inv_def)
  then have "distinct ((Q(RQ c m := xs)) (RQ c m))" using queue_distinct queuesD(1)[OF sched_invD(1)] by blast
  then show ?thesis using u[THEN spec, of "RQ c m"] Cons by simp
qed simp

text \<open>The loops end with a suffix \<open>R\<close> of the candidates; the threads before it have been refused.\<close>

definition refused :: "kst \<Rightarrow> nat list \<Rightarrow> kst \<Rightarrow> bool" where
  "refused st D st' \<longleftrightarrow> quieta (set D) st st' \<and>
     (\<forall>t\<in>set D. th_state (k_thread st' t) \<in> {THREAD_BLOCKED, THREAD_BLOCKED_AUTH, THREAD_SUSPENDED_MODE})"

lemma refused_Nil: "quiet st st' \<Longrightarrow> refused st [] st'"
  by (simp add: refused_def quiet_quieta)

lemma refused_trans:
  assumes "refused st D st1" and "refused st1 D' st2" and "set D \<inter> set D' = {}"
  shows "refused st (D @ D') st2"
proof -
  have "quieta (set (D @ D')) st st1" "quieta (set (D @ D')) st1 st2" using assms(1,2) quieta_mono by (auto simp: refused_def)
  moreover have "th_state (k_thread st2 t) = th_state (k_thread st1 t)" if "t \<in> set D" for t
    using assms(2,3) that quieta_facts(3)[of "set D'" st1 st2 t] by (auto simp: refused_def)
  ultimately show ?thesis using assms(1,2) quieta_trans by (auto simp: refused_def)
qed

lemma refused_one:
  "quieta {t} st st' \<Longrightarrow> th_state (k_thread st' t) = s \<Longrightarrow> s \<in> {THREAD_BLOCKED, THREAD_BLOCKED_AUTH, THREAD_SUSPENDED_MODE} \<Longrightarrow> refused st [t] st'"
  by (simp add: refused_def)

lemma skip_denied_ok:
  assumes "cand_inv st Q c m L"
  shows "\<exists>D R st'. L = D @ R \<and> skip_denied env c m (first L) st old = kret (first R) st' \<and> cand_inv st' Q c m R \<and> refused st D st'"
  using assms
proof (induction L arbitrary: st)
  case Nil
  then show ?case by (intro exI[of _ "[]"] exI[of _ st]) (simp add: first_def skip_denied.simps refused_Nil)
next
  case (Cons t L)
  show ?case
  proof (cases "scheduler_mode_allowed env (Some t) old st")
    case True
    then show ?thesis using Cons.prems
      by (intro exI[of _ "[]"] exI[of _ "t # L"] exI[of _ st]) (simp add: first_def skip_denied.simps refused_Nil)
  next
    case False
    let ?st1 = "upd_cpu c (\<lambda>u. u\<lparr>sc_denied_dispatch := sc_denied_dispatch u + 1\<rparr>) st"
    have s1: "still st ?st1" by (simp add: ccore_def)
    have r: "th_state (k_thread st t) = THREAD_READY" using Cons.prems by (simp add: cand_inv_def)
    then have set: "scheduler_set_state t THREAD_BLOCKED ?st1 = kret () (set_st t THREAD_BLOCKED ?st1)"
      by (intro set_state_ok) (simp add: thread_upd)
    obtain st2 where P: "scheduler_pick_next_weighted_locked env c m (set_st t THREAD_BLOCKED ?st1) = kret (first L) st2"
        "cand_inv st2 Q c m L" "quieta {t} st st2" "th_state (k_thread st2 t) = THREAD_BLOCKED"
      using refuse_cand[OF Cons.prems still_set_st[OF s1], of env] by blast
    obtain D R st' where I: "L = D @ R" "skip_denied env c m (first L) st2 old = kret (first R) st'" "cand_inv st' Q c m R" "refused st2 D st'"
      using Cons.IH[OF P(2)] by blast
    have "refused st ([t] @ D) st'"
      by (rule refused_trans[OF refused_one[OF P(3,4)] I(4)]) (use cand_distinct[OF Cons.prems] I(1) in auto)
    moreover have "skip_denied env c m (first (t # L)) st old = kret (first R) st'"
      using False set P(1) I(2) by (simp add: skip_denied.simps[of env c m "Some t"] first_def)
    ultimately show ?thesis using I by (intro exI[of _ "t # D"] exI[of _ R] exI[of _ st']) simp
  qed
qed

lemma find_runnable_ok:
  assumes "cand_inv st Q c m L" and "cap_inv (k_cap st)"
  shows "\<exists>D R st'. L = D @ R \<and> find_runnable env c m (first L) st = kret (first R) st' \<and> cand_inv st' Q c m R \<and> refused st D st' \<and>
    (R \<noteq> [] \<longrightarrow> admitted env c (hd R) st')"
  using assms
proof (induction L arbitrary: st)
  case Nil
  then show ?case by (intro exI[of _ "[]"] exI[of _ st]) (simp add: first_def find_runnable.simps refused_Nil)
next
  case (Cons t L)
  have r: "th_state (k_thread st t) = THREAD_READY" using Cons.prems by (simp add: cand_inv_def)
  consider (yes) st1 where "runnable env c m t st = kret True st1" "still st st1" "admitted env c t st1"
    | (no) s st1 where "runnable env c m t st = kret False st1" "still (set_st t s st) st1" "s \<in> {THREAD_BLOCKED_AUTH, THREAD_SUSPENDED_MODE}"
    using runnable_ok[OF Cons.prems(2) r, of env c m] by blast
  then show ?case
  proof cases
    case yes
    have "cand_inv st1 Q c m (t # L)"
      using Cons.prems(1) sched_inv_still[OF _ yes(2)] quiet_thread(1)[OF still_quiet[OF yes(2)]] quiet_mode(1)[OF still_quiet[OF yes(2)]]
      by (simp add: cand_inv_def)
    then show ?thesis using yes
      by (intro exI[of _ "[]"] exI[of _ "t # L"] exI[of _ st1]) (simp add: first_def find_runnable.simps refused_Nil still_quiet)
  next
    case no
    obtain st2 where P: "scheduler_pick_next_weighted_locked env c m st1 = kret (first L) st2"
        "cand_inv st2 Q c m L" "quieta {t} st st2" "th_state (k_thread st2 t) = s"
      using refuse_cand[OF Cons.prems(1) no(2), of env] by blast
    obtain D R st' where I: "L = D @ R" "find_runnable env c m (first L) st2 = kret (first R) st'" "cand_inv st' Q c m R" "refused st2 D st'"
        "R \<noteq> [] \<longrightarrow> admitted env c (hd R) st'"
      using Cons.IH[OF P(2) quieta_facts(2)[OF P(3) Cons.prems(2)]] by blast
    have "refused st ([t] @ D) st'"
      by (rule refused_trans[OF refused_one[OF P(3,4)] I(4)]) (use cand_distinct[OF Cons.prems(1)] I(1) no(3) in auto)
    moreover have "find_runnable env c m (first (t # L)) st = kret (first R) st'"
      using no(1) P(1) I(2) by (simp add: find_runnable.simps[of env c m "Some t"] first_def)
    ultimately show ?thesis using I by (intro exI[of _ "t # D"] exI[of _ R] exI[of _ st']) simp
  qed
qed

section \<open>Dispatch\<close>

text \<open>Threads that differ in their link only.\<close>

definition relinked :: "thread_t \<Rightarrow> thread_t \<Rightarrow> bool" where
  "relinked x y \<longleftrightarrow> y\<lparr>th_next := None\<rparr> = x\<lparr>th_next := None\<rparr>"

lemma relinkedD:
  assumes "relinked x y"
  shows "th_remaining_thread_budget y = th_remaining_thread_budget x" "th_max_slice y = th_max_slice x" "th_sched_class y = th_sched_class x"
    "th_owner y = th_owner x" "th_state y = th_state x" "slice_grant y = slice_grant x"
proof -
  note a = assms[unfolded relinked_def]
  show 1: "th_remaining_thread_budget y = th_remaining_thread_budget x" "th_max_slice y = th_max_slice x" "th_sched_class y = th_sched_class x"
    "th_owner y = th_owner x" "th_state y = th_state x"
    using arg_cong[OF a, of th_remaining_thread_budget] arg_cong[OF a, of th_max_slice] arg_cong[OF a, of th_sched_class]
      arg_cong[OF a, of th_owner] arg_cong[OF a, of th_state] by simp_all
  show "slice_grant y = slice_grant x" by (simp add: slice_grant_def 1 Let_def)
qed

lemma enqueue_fields:
  "relinked (k_thread st t) (k_thread (ready_enqueue_locked c m q st) t)"
  "relinked (k_thread st t) (k_thread (ready_enqueue_head_locked c m q st) t)"
  "k_proc (ready_enqueue_locked c m q st) = k_proc st" "k_proc (ready_enqueue_head_locked c m q st) = k_proc st"
proof -
  show "relinked (k_thread st t) (k_thread (ready_enqueue_locked c m q st) t)"
    "relinked (k_thread st t) (k_thread (ready_enqueue_head_locked c m q st) t)"
    by (auto simp: relinked_def ready_enqueue_locked_def ready_enqueue_head_locked_def Let_def set_next_def thread_upd split: option.splits)
  show "k_proc (ready_enqueue_locked c m q st) = k_proc st" "k_proc (ready_enqueue_head_locked c m q st) = k_proc st"
    by (auto simp: ready_enqueue_locked_def ready_enqueue_head_locked_def Let_def upd_env_def upd_cpu_def set_next_def upd_thread_def
        split: option.splits)
qed

text \<open>The queues after the old thread has been put back.\<close>

definition requeued :: "(qkey \<Rightarrow> nat list) \<Rightarrow> qkey \<Rightarrow> nat \<Rightarrow> bool \<Rightarrow> qkey \<Rightarrow> nat list" where
  "requeued Q k q front = Q(k := if front then q # Q k else Q k @ [q])"

lemma requeue_ok:
  assumes inv: "sched_inv st Q" and r: "th_state (k_thread st q) = THREAD_RUNNING" and t: "q \<noteq> t"
  shows "\<exists>st' front. requeue_old c (Some q) t st = kret () st' \<and> quieta {q} st st' \<and> k_proc st' = k_proc st \<and>
    sched_inv st' (requeued Q (RQ c (sched_thread_mode (Some q) st)) q front) \<and> th_state (k_thread st' q) = THREAD_READY \<and>
    relinked (k_thread st t) (k_thread st' t)"
proof -
  let ?m = "sched_thread_mode (Some q) st" and ?st1 = "set_st q THREAD_READY st"
  have u: "unqueued Q q" using unqueued_state[OF inv] r by simp
  have inv1: "sched_inv ?st1 Q" by (rule sched_inv_set_st[OF inv u])
  have em: "sched_envelope (sched_thread_mode (Some q) ?st1) = ?m"
    by (auto simp: sched_envelope_def sched_thread_mode_def sched_mode_valid_def split: option.splits)
  define front where "front = (th_sched_tokens (k_thread ?st1 q) > 0)"
  define st2 where "st2 = (if front then ready_enqueue_head_locked c ?m q ?st1 else ready_enqueue_locked c ?m q ?st1)"
  have R: "requeue_old c (Some q) t st = kret () st2"
    using r t em by (simp add: requeue_old_def set_state_ok st2_def front_def Let_def)
  have Q2: "queues st2 (requeued Q (RQ c ?m) q front)" and q2: "quiet ?st1 st2"
    using ready_enqueue_ok[OF sched_invD(1)[OF inv1], of q c ?m] ready_enqueue_head_ok[OF sched_invD(1)[OF inv1], of q c ?m] u
    by (auto simp: st2_def requeued_def)
  have "sched_inv st2 (requeued Q (RQ c ?m) q front)"
  proof -
    have "th_state (k_thread st2 x) = th_state (k_thread ?st1 x)" "sched_thread_mode (Some x) st2 = sched_thread_mode (Some x) ?st1" for x
      using quiet_thread(1)[OF q2] quiet_mode(1)[OF q2] by auto
    then show ?thesis using Q2 inv1 by (auto simp: sched_inv_def requeued_def split: if_splits)
  qed
  moreover have "quieta {q} st st2" using quieta_trans[OF quieta_set_st quiet_quieta[OF q2]] .
  moreover have "th_state (k_thread st2 q) = THREAD_READY" using quiet_thread(1)[OF q2, of q] by simp
  moreover have "relinked (k_thread st t) (k_thread st2 t)" "k_proc st2 = k_proc st"
  proof -
    have "k_thread ?st1 t = k_thread st t" "k_proc ?st1 = k_proc st" using t by (simp_all add: set_st_def upd_thread_def)
    then show "relinked (k_thread st t) (k_thread st2 t)" "k_proc st2 = k_proc st"
      using enqueue_fields(1,2)[of ?st1 t c ?m q] enqueue_fields(3,4)[of c ?m q ?st1] by (simp_all add: st2_def)
  qed
  ultimately show ?thesis using R by blast
qed

lemma requeue_none:
  "\<not> old_running old st \<or> old = Some t \<Longrightarrow> requeue_old c old t st = kret () st"
  by (auto simp: requeue_old_def old_running_def split: option.splits)

text \<open>The time a thread is given.\<close>

definition grant :: "nat \<Rightarrow> kst \<Rightarrow> u64" where
  "grant t st = fst (take_grant t st)"

lemma quantum_word: "(word_of_nat DEFAULT_QUANTUM :: u64) = 10"
  by (simp add: DEFAULT_QUANTUM_def)

lemma unat_widen: "unat (ucast (w :: u32) :: u64) = unat w"
proof -
  have "unat w < 2 ^ 32" using unsigned_less[of w, where ?'a = nat] by simp
  then have "take_bit 64 (unat w) = unat w" by (simp add: take_bit_nat_eq_self_iff)
  then show ?thesis by (simp add: unsigned_ucast_eq)
qed

lemma slice_grant_bounds:
  assumes "th_sched_class th \<noteq> SCHED_CLASS_SYSTEM \<Longrightarrow> th_remaining_thread_budget th \<noteq> 0"
  shows "0 < slice_grant th" "slice_grant th \<le> 10"
    "th_sched_class th \<noteq> SCHED_CLASS_SYSTEM \<Longrightarrow> slice_grant th \<le> th_remaining_thread_budget th"
proof -
  have pos: "(0 :: u64) < ucast (th_max_slice th)" if "0 < th_max_slice th"
    using that by (simp add: word_less_nat_alt unat_widen)
  show "0 < slice_grant th" "slice_grant th \<le> 10"
    "th_sched_class th \<noteq> SCHED_CLASS_SYSTEM \<Longrightarrow> slice_grant th \<le> th_remaining_thread_budget th"
    using assms pos by (auto simp: slice_grant_def Let_def quantum_word word_gt_0)
qed

lemma take_grant_ok:
  assumes e: "\<not> thread_exhausted t st" "\<not> process_exhausted t st"
  shows "\<exists>st'. take_grant t st = (grant t st, st') \<and> still st st' \<and> k_thread st' = k_thread st \<and> 0 < grant t st \<and> grant t st \<le> 10 \<and>
    (th_sched_class (k_thread st t) \<noteq> SCHED_CLASS_SYSTEM \<longrightarrow> grant t st \<le> th_remaining_thread_budget (k_thread st t) \<and>
       (\<forall>p. th_owner (k_thread st t) = Some p \<longrightarrow> grant t st \<le> pr_remaining_process_budget (k_proc st p) \<and>
          pr_remaining_process_budget (k_proc st' p) = pr_remaining_process_budget (k_proc st p) - grant t st))"
proof -
  let ?th = "k_thread st t"
  have b: "0 < slice_grant ?th" "slice_grant ?th \<le> 10" "th_sched_class ?th \<noteq> SCHED_CLASS_SYSTEM \<Longrightarrow> slice_grant ?th \<le> th_remaining_thread_budget ?th"
    using slice_grant_bounds[of ?th] e(1) by (auto simp: thread_exhausted_def)
  show ?thesis
  proof (cases "th_sched_class ?th = SCHED_CLASS_SYSTEM \<or> th_owner ?th = None")
    case True
    then have "take_grant t st = (slice_grant ?th, st)" by (auto simp: take_grant_def Let_def)
    then show ?thesis using b True by (auto simp: grant_def)
  next
    case False
    then obtain p where p: "th_owner ?th = Some p" by blast
    let ?cur = "pr_remaining_process_budget (k_proc st p)" and ?s = "slice_grant ?th"
    have cur: "?cur \<noteq> 0" using e(2) False p by (simp add: process_exhausted_def)
    define g where "g = (if ?s < ?cur then ?s else ?cur)"
    have T: "take_grant t st = (g, upd_proc p (\<lambda>x. x\<lparr>pr_remaining_process_budget := ?cur - g\<rparr>) st)"
      using False p cur b(1) by (simp add: take_grant_def process_budget_try_consume_def Let_def g_def word_gt_0)
    have "0 < g" "g \<le> ?s" "g \<le> ?cur" using b(1) cur by (auto simp: g_def word_gt_0)
    moreover have "still st (upd_proc p (\<lambda>x. x\<lparr>pr_remaining_process_budget := ?cur - g\<rparr>) st)" by (simp add: pcore_def)
    moreover have "k_proc (upd_proc p (\<lambda>x. x\<lparr>pr_remaining_process_budget := ?cur - g\<rparr>) st) p = (k_proc st p)\<lparr>pr_remaining_process_budget := ?cur - g\<rparr>"
      by (simp add: upd_proc_def)
    ultimately show ?thesis using T p b False by (auto simp: grant_def thread_upd intro: order_trans)
  qed
qed

text \<open>The thread that was found is dispatched; the queues after that are \<open>Q'\<close>.\<close>

definition dispatched :: "kst \<Rightarrow> nat \<Rightarrow> nat option \<Rightarrow> nat \<Rightarrow> kst \<Rightarrow> bool" where
  "dispatched st c old t st' \<longleftrightarrow>
     th_state (k_thread st' t) = THREAD_RUNNING \<and> sc_current_thread (k_cpu st' c) = Some t \<and>
     (\<forall>q. old = Some q \<longrightarrow> q \<noteq> t \<longrightarrow> th_state (k_thread st' q) =
        (if th_state (k_thread st q) = THREAD_RUNNING then THREAD_READY else th_state (k_thread st q))) \<and>
     (\<forall>x. x \<noteq> t \<longrightarrow> old \<noteq> Some x \<longrightarrow> th_state (k_thread st' x) = th_state (k_thread st x)) \<and>
     (\<forall>d. d \<noteq> c \<longrightarrow> sc_current_thread (k_cpu st' d) = sc_current_thread (k_cpu st d)) \<and>
     0 < grant t st \<and> grant t st \<le> 10 \<and> th_ticks_remaining (k_thread st' t) = ucast (grant t st) \<and>
     (th_sched_class (k_thread st t) \<noteq> SCHED_CLASS_SYSTEM \<longrightarrow>
        unat (th_remaining_thread_budget (k_thread st' t)) + unat (grant t st) = unat (th_remaining_thread_budget (k_thread st t)) \<and>
        (\<forall>p. th_owner (k_thread st t) = Some p \<longrightarrow>
           unat (pr_remaining_process_budget (k_proc st' p)) + unat (grant t st) = unat (pr_remaining_process_budget (k_proc st p))))"

lemma requeue_any:
  assumes inv: "sched_inv st Q"
  shows "\<exists>st' Q'. requeue_old c old t st = kret () st' \<and> quieta (case old of None \<Rightarrow> {} | Some q \<Rightarrow> {q} - {t}) st st' \<and>
    k_proc st' = k_proc st \<and> sched_inv st' Q' \<and> relinked (k_thread st t) (k_thread st' t) \<and>
    (\<forall>q. old = Some q \<longrightarrow> q \<noteq> t \<longrightarrow> th_state (k_thread st' q) =
        (if th_state (k_thread st q) = THREAD_RUNNING then THREAD_READY else th_state (k_thread st q))) \<and>
    (\<forall>k. set (Q' k) \<subseteq> set (Q k) \<union> (case old of None \<Rightarrow> {} | Some q \<Rightarrow> {q} - {t}))"
proof (cases "\<exists>q. old = Some q \<and> q \<noteq> t \<and> th_state (k_thread st q) = THREAD_RUNNING")
  case True
  then obtain q where q: "old = Some q" "q \<noteq> t" "th_state (k_thread st q) = THREAD_RUNNING" by blast
  have D: "{q} - {t} = {q}" using q(2) by auto
  obtain st' front where R: "requeue_old c (Some q) t st = kret () st'" "quieta {q} st st'" "k_proc st' = k_proc st"
      "sched_inv st' (requeued Q (RQ c (sched_thread_mode (Some q) st)) q front)" "th_state (k_thread st' q) = THREAD_READY"
      "relinked (k_thread st t) (k_thread st' t)"
    using requeue_ok[OF inv q(3,2), of c] by blast
  show ?thesis unfolding q(1) option.case D
    by (rule exI[of _ st'], rule exI[of _ "requeued Q (RQ c (sched_thread_mode (Some q) st)) q front"])
      (use R q in \<open>auto simp: requeued_def split: if_splits\<close>)
next
  case False
  then have "requeue_old c old t st = kret () st" by (intro requeue_none) (auto simp: old_running_def split: option.splits)
  then show ?thesis using inv False by (auto simp: relinked_def quiet_quieta)
qed

lemma quieta_current: "quieta A (upd_cpu c (\<lambda>u. u\<lparr>sc_current_thread := x\<rparr>) st) st' \<Longrightarrow> sc_current_thread (k_cpu st' d) = (if d = c then x else sc_current_thread (k_cpu st d))"
  using quieta_facts(4)[of A "upd_cpu c (\<lambda>u. u\<lparr>sc_current_thread := x\<rparr>) st" st' d] by (simp add: upd_cpu_def)

lemma quieta_set_current:
  assumes "quieta A st st'"
  shows "quieta A (upd_cpu c (\<lambda>u. u\<lparr>sc_current_thread := x\<rparr>) st) (upd_cpu c (\<lambda>u. u\<lparr>sc_current_thread := x\<rparr>) st')"
proof -
  have "level A (upd_cpu c f st) = upd_cpu c f (level A st)" for f st
    by (rule kst.equality) (simp_all add: level_def upd_cpu_def fun_eq_iff)
  moreover have "quiet (upd_cpu c (\<lambda>u. u\<lparr>sc_current_thread := x\<rparr>) s) (upd_cpu c (\<lambda>u. u\<lparr>sc_current_thread := x\<rparr>) s')" if "quiet s s'" for s s'
    using that by (auto simp: quiet_def upd_cpu_def ccore_def)
  ultimately show ?thesis using assms by (simp add: quieta_def)
qed

lemma dispatch_ok:
  assumes c: "cand_inv st Q c m (t # L)" and a: "admitted env c t st"
  shows "\<exists>st' Q'. dispatch env c m old t st = kret True st' \<and> sched_inv st' Q' \<and> dispatched st c old t st' \<and>
    quieta ({t} \<union> set_option old) (upd_cpu c (\<lambda>u. u\<lparr>sc_current_thread := Some t\<rparr>) st) st'"
proof -
  let ?Q = "Q(RQ c m := L)"
  let ?O = "case old of None \<Rightarrow> {} | Some q \<Rightarrow> {q} - {t}"
  have inv: "sched_inv st ?Q" and u: "unqueued ?Q t" and r: "th_state (k_thread st t) = THREAD_READY"
    using c by (simp_all add: cand_inv_def)
  obtain st1 Q1 where R: "requeue_old c old t st = kret () st1" "quieta ?O st st1" "k_proc st1 = k_proc st" "sched_inv st1 Q1"
      "relinked (k_thread st t) (k_thread st1 t)"
      "\<forall>q. old = Some q \<longrightarrow> q \<noteq> t \<longrightarrow> th_state (k_thread st1 q) =
        (if th_state (k_thread st q) = THREAD_RUNNING then THREAD_READY else th_state (k_thread st q))"
      "\<forall>k. set (Q1 k) \<subseteq> set (?Q k) \<union> ?O"
    using requeue_any[OF inv, of c old t] by blast
  have u1: "unqueued Q1 t" using R(7) u by (fastforce split: option.splits)
  let ?st2 = "set_st t THREAD_RUNNING st1"
  have set: "scheduler_set_state t THREAD_RUNNING st1 = kret () ?st2"
    using r relinkedD(5)[OF R(5)] by (intro set_state_ok) simp
  have inv2: "sched_inv ?st2 Q1" by (rule sched_inv_set_st[OF R(4) u1])
  have f2: "th_remaining_thread_budget (k_thread ?st2 t) = th_remaining_thread_budget (k_thread st t)"
    "th_sched_class (k_thread ?st2 t) = th_sched_class (k_thread st t)" "th_owner (k_thread ?st2 t) = th_owner (k_thread st t)"
    "slice_grant (k_thread ?st2 t) = slice_grant (k_thread st t)" "k_proc ?st2 = k_proc st"
    using relinkedD[OF R(5)] R(3) by (simp_all add: set_st_def thread_upd slice_grant_def Let_def upd_thread_def)
  have g: "grant t ?st2 = grant t st"
    by (auto simp: grant_def take_grant_def process_budget_try_consume_def Let_def f2 R(3) relinkedD(4)[OF R(5)] split: option.splits)
  have ex: "\<not> thread_exhausted t ?st2" "\<not> process_exhausted t ?st2"
    using a by (auto simp: admitted_def thread_exhausted_def process_exhausted_def f2 simp del: set_st_simps split: option.splits)
  obtain st3 where T: "take_grant t ?st2 = (grant t st, st3)" "still ?st2 st3" "k_thread st3 = k_thread ?st2" "0 < grant t st" "grant t st \<le> 10"
      "th_sched_class (k_thread st t) \<noteq> SCHED_CLASS_SYSTEM \<longrightarrow> grant t st \<le> th_remaining_thread_budget (k_thread st t) \<and>
       (\<forall>p. th_owner (k_thread st t) = Some p \<longrightarrow> grant t st \<le> pr_remaining_process_budget (k_proc st p) \<and>
          pr_remaining_process_budget (k_proc st3 p) = pr_remaining_process_budget (k_proc st p) - grant t st)"
    using take_grant_ok[OF ex] unfolding g f2 by blast
  define normal where "normal = (th_sched_class (k_thread st3 t) \<noteq> SCHED_CLASS_SYSTEM)"
  define st4 where "st4 = upd_thread t (\<lambda>x. x\<lparr>th_remaining_thread_budget := (if normal then th_remaining_thread_budget x - grant t st
                                                                 else th_remaining_thread_budget x),
                                th_ticks_remaining := ucast (grant t st), th_last_cpu := ke_cpu env\<rparr>) st3"
  define st5 where "st5 = upd_cpu c (\<lambda>u. u\<lparr>sc_current_thread := Some t\<rparr>) st4"
  define st6 where "st6 = upd_env c m (\<lambda>e. e\<lparr>en_dispatch_count := en_dispatch_count e + 1\<rparr>) st5"
  have D: "dispatch env c m old t st = kret True st6"
    using R(1) set T(1,4) by (simp add: dispatch_def Let_def st6_def st5_def st4_def normal_def word_gt_0)
  have s4: "still ?st2 st4" unfolding st4_def using T(2) by (simp add: tcore_def)
  have s6: "still st5 st6" unfolding st6_def by (simp add: elinks_def)
  have inv5: "sched_inv st5 Q1"
  proof -
    have "sched_inv st4 Q1" by (rule sched_inv_still[OF inv2 s4])
    moreover have "links_of st5 = links_of st4" by (simp add: st5_def)
    then have "queues st5 Q1 = queues st4 Q1" by (rule queues_links)
    moreover have "sched_thread_mode x st5 = sched_thread_mode x st4" "k_thread st5 = k_thread st4" for x
      by (auto simp: sched_thread_mode_def st5_def upd_cpu_def split: option.splits)
    ultimately show ?thesis by (simp add: sched_inv_def)
  qed
  have "quieta ({t} \<union> set_option old) st st4"
  proof -
    have "quieta ({t} \<union> set_option old) st st1" by (rule quieta_mono[OF R(2)]) (auto split: option.splits)
    moreover have "quieta ({t} \<union> set_option old) st1 ?st2" by (rule quieta_mono[OF quieta_set_st]) simp
    ultimately show ?thesis using quieta_trans quiet_quieta[OF still_quiet[OF s4]] by blast
  qed
  then have q5: "quieta ({t} \<union> set_option old) (upd_cpu c (\<lambda>u. u\<lparr>sc_current_thread := Some t\<rparr>) st) st5"
    unfolding st5_def by (rule quieta_set_current)
  have q6: "quieta ({t} \<union> set_option old) (upd_cpu c (\<lambda>u. u\<lparr>sc_current_thread := Some t\<rparr>) st) st6"
    using quieta_trans[OF q5 quiet_quieta[OF still_quiet[OF s6]]] .
  have st: "th_state (k_thread st6 x) = (if x = t then THREAD_RUNNING else th_state (k_thread st1 x))" for x
    using quiet_thread(1)[OF still_quiet[OF s4], of x] by (simp add: st6_def st5_def thread_upd)
  have ticks: "th_ticks_remaining (k_thread st6 t) = ucast (grant t st)" by (simp add: st6_def st5_def st4_def thread_upd)
  have "dispatched st c old t st6"
    unfolding dispatched_def
  proof (intro conjI allI impI)
    show "th_state (k_thread st6 x) = th_state (k_thread st x)" if "x \<noteq> t" "old \<noteq> Some x" for x
      using st[of x] quieta_facts(3)[OF R(2), of x] that by (cases old) auto
    show "sc_current_thread (k_cpu st6 d) = sc_current_thread (k_cpu st d)" if "d \<noteq> c" for d
      using quieta_current[OF q6, of d] that by simp
    show "unat (th_remaining_thread_budget (k_thread st6 t)) + unat (grant t st) = unat (th_remaining_thread_budget (k_thread st t))"
      if "th_sched_class (k_thread st t) \<noteq> SCHED_CLASS_SYSTEM"
      using T(3,6) that f2 by (simp add: st6_def st5_def st4_def thread_upd normal_def unat_sub word_le_nat_alt)
    show "unat (pr_remaining_process_budget (k_proc st6 p)) + unat (grant t st) = unat (pr_remaining_process_budget (k_proc st p))"
      if "th_sched_class (k_thread st t) \<noteq> SCHED_CLASS_SYSTEM" "th_owner (k_thread st t) = Some p" for p
      using T(6) that by (simp add: st6_def st5_def st4_def upd_env_def upd_cpu_def upd_thread_def unat_sub word_le_nat_alt)
  qed (use R(6) T(4,5) st ticks quieta_current[OF q6, of c] in auto)
  then show ?thesis using D q6 sched_inv_still[OF inv5 s6] by blast
qed

end
