(* ===== verification/Sched_Search.thy ===== *)
theory Sched_Search
  imports Sched_Pick
begin

text \<open>
  The search of \<open>schedule\<close> as a whole: stealing, the retry loop and its termination.
\<close>

section \<open>Stealing\<close>

lemma steal_ok:
  assumes inv: "sched_inv st Q"
  shows "\<exists>r st'. steal_loop env m c ds st = kret r st' \<and>
    (r = None \<and> still st st' \<and> (\<forall>d\<in>set ds. d \<noteq> c \<longrightarrow> sc_active_mode (k_cpu st d) = m \<longrightarrow> Q (RQ d (sched_envelope m)) = []) \<or>
     (\<exists>t d xs. r = Some t \<and> d \<in> set ds \<and> d \<noteq> c \<and> Q (RQ d (sched_envelope m)) = t # xs \<and> quiet st st' \<and>
        cand_inv st' Q d (sched_envelope m) (t # xs)))"
  using inv
proof (induction ds arbitrary: st)
  case (Cons d ds)
  let ?M = "sched_envelope m"
  have skip: ?case if S: "steal_loop env m c (d # ds) st = steal_loop env m c ds st1" and s: "still st st1"
    and e: "d \<noteq> c \<longrightarrow> sc_active_mode (k_cpu st d) = m \<longrightarrow> Q (RQ d ?M) = []" for st1
  proof -
    have "sc_active_mode (k_cpu st1 x) = sc_active_mode (k_cpu st x)" for x using quiet_cpu(2)[OF still_quiet[OF s]] .
    then show ?thesis
      using Cons.IH[OF sched_inv_still[OF Cons.prems s]] S e still_trans[OF s] quiet_trans[OF still_quiet[OF s]] by fastforce
  qed
  show ?case
  proof (cases "d = c \<or> sc_active_mode (k_cpu st d) \<noteq> m")
    case True
    let ?st1 = "if d = c then st else upd_cpu (cpu_slot c) (\<lambda>u. u\<lparr>sc_denied_steal_mode := sc_denied_steal_mode u + 1\<rparr>) st"
    have "still st ?st1" by (simp add: ccore_def)
    then show ?thesis by (rule skip[rotated]) (use True in auto)
  next
    case False
    show ?thesis
    proof (cases "Q (RQ d ?M)")
      case Nil
      then have "scheduler_pick_next_weighted_locked env d ?M st = kret None st"
        using pick_ok(1)[OF sched_invD(1)[OF Cons.prems], of d ?M env] sched_invD(2)[OF Cons.prems, of _ d ?M] by simp
      then show ?thesis by (intro skip[of st]) (use False Nil in auto)
    next
      case (Cons t xs)
      obtain st' where "scheduler_pick_next_weighted_locked env d ?M st = kret (Some t) st'" "cand_inv st' Q d ?M (t # xs)" "quiet st st'"
        using pick_cand[OF Cons.prems, of env d ?M] Cons by (auto simp: first_def)
      then show ?thesis using False Cons by (intro exI[of _ "Some t"] exI[of _ st']) auto
    qed
  qed
qed simp

lemma take_stolen_ok:
  assumes c: "cand_inv st Q d M (t # xs)" and m: "sched_active_envelope c st = M" and dc: "d \<noteq> c" and e: "Q (RQ c M) = []"
  shows "sched_inv (take_stolen c t st) (Q(RQ d M := xs, RQ c M := [t]))" "quiet st (take_stolen c t st)"
proof -
  let ?Q = "Q(RQ d M := xs)" and ?st1 = "upd_thread t (\<lambda>x. x\<lparr>th_last_cpu := c\<rparr>) st"
  have inv: "sched_inv st ?Q" and u: "unqueued ?Q t" and r: "th_state (k_thread st t) = THREAD_READY" "sched_thread_mode (Some t) st = M"
    using c by (simp_all add: cand_inv_def)
  have s1: "still st ?st1" by (simp add: tcore_def)
  note inv1 = sched_inv_still[OF inv s1]
  let ?st2 = "ready_enqueue_locked c M t ?st1"
  have Q2: "queues ?st2 (?Q(RQ c M := [t]))" and q2: "quiet ?st1 ?st2"
    using ready_enqueue_ok[OF sched_invD(1)[OF inv1], of t c M] u e dc by auto
  note q02 = quiet_trans[OF still_quiet[OF s1] q2]
  have "sched_inv ?st2 (?Q(RQ c M := [t]))"
    using inv Q2 r quiet_thread(1)[OF q02] quiet_mode(1)[OF q02] unfolding sched_inv_def by auto
  moreover have T: "take_stolen c t st = upd_cpu c (\<lambda>u. u\<lparr>sc_migrations := sc_migrations u + 1, sc_remote_enqueue := sc_remote_enqueue u + 1\<rparr>) ?st2"
    using m by (simp add: take_stolen_def)
  moreover have s3: "still ?st2 (take_stolen c t st)" unfolding T by (simp add: ccore_def)
  ultimately show "sched_inv (take_stolen c t st) (?Q(RQ c M := [t]))" "quiet st (take_stolen c t st)"
    using sched_inv_still[OF _ s3] quiet_trans[OF q02 still_quiet[OF s3]] by auto
qed

section \<open>The active mode\<close>

definition fresh :: "nat \<Rightarrow> kst \<Rightarrow> bool" where
  "fresh c st \<longleftrightarrow> sc_active_mode (k_cpu st c) = sched_envelope (k_sched_global_mode st) \<and>
     sc_active_security_epoch (k_cpu st c) = k_sched_global_security_epoch st"

lemma refresh_fresh:
  assumes "fresh c st"
  shows "sched_refresh_active_mode c st = st"
proof -
  let ?f = "\<lambda>u. u\<lparr>sc_active_security_epoch := k_sched_global_security_epoch st\<rparr>"
  have "?f (k_cpu st c) = k_cpu st c" using assms by (simp add: fresh_def)
  then have "(k_cpu st)(c := ?f (k_cpu st c)) = k_cpu st" by (simp only: fun_upd_triv)
  then have "upd_cpu c ?f st = st" by (simp add: upd_cpu_def)
  then show ?thesis using assms by (simp add: fresh_def sched_refresh_active_mode_def sched_envelope_def)
qed

lemma quieta_fresh:
  assumes "fresh c st" and "quieta A st st'"
  shows "fresh c st'"
  using assms(1) quieta_facts(5,6,9,10)[OF assms(2)] by (simp add: fresh_def)

section \<open>What the search leaves\<close>

definition pool :: "(qkey \<Rightarrow> nat list) \<Rightarrow> mode_id_t \<Rightarrow> nat set" where
  "pool Q M = (\<Union>d. set (Q (RQ d M)))"

text \<open>
  Of the threads waiting in mode \<open>M\<close> the search took out those in \<open>X\<close> and refused the others
  that no longer wait; everything else of the state differs in bookkeeping only.
\<close>

definition searched :: "mode_id_t \<Rightarrow> kst \<Rightarrow> (qkey \<Rightarrow> nat list) \<Rightarrow> kst \<Rightarrow> (qkey \<Rightarrow> nat list) \<Rightarrow> nat set \<Rightarrow> bool" where
  "searched M st Q st' Q' X \<longleftrightarrow> quieta (pool Q M) st st' \<and> pool Q' M \<union> X \<subseteq> pool Q M \<and> (\<forall>k. (\<forall>d. k \<noteq> RQ d M) \<longrightarrow> Q' k = Q k) \<and>
     (\<forall>t\<in>pool Q M. t \<in> pool Q' M \<or> t \<in> X \<or> th_state (k_thread st' t) \<in> {THREAD_BLOCKED, THREAD_BLOCKED_AUTH, THREAD_SUSPENDED_MODE})"

lemma searched_trans:
  assumes a: "searched M st Q st1 Q1 {}" and b: "searched M st1 Q1 st2 Q2 X"
  shows "searched M st Q st2 Q2 X"
  unfolding searched_def
proof (intro conjI ballI)
  have sub: "pool Q1 M \<subseteq> pool Q M" using a by (simp add: searched_def)
  show "quieta (pool Q M) st st2" using a b quieta_mono[OF _ sub] quieta_trans by (auto simp: searched_def)
  show "pool Q2 M \<union> X \<subseteq> pool Q M" using sub b by (auto simp: searched_def)
  show "\<forall>k. (\<forall>d. k \<noteq> RQ d M) \<longrightarrow> Q2 k = Q k" using a b by (simp add: searched_def)
  fix t assume "t \<in> pool Q M"
  then show "t \<in> pool Q2 M \<or> t \<in> X \<or> th_state (k_thread st2 t) \<in> {THREAD_BLOCKED, THREAD_BLOCKED_AUTH, THREAD_SUSPENDED_MODE}"
    using a b quieta_facts(3)[of "pool Q1 M" st1 st2 t] by (cases "t \<in> pool Q1 M") (auto simp: searched_def)
qed

lemma searched_still: "still st st' \<Longrightarrow> searched M st Q st' Q {}"
  by (simp add: searched_def quiet_quieta still_quiet)

lemma pool_upd: "pool (Q(RQ d M := xs)) M \<subseteq> (pool Q M) \<union> set xs" "set (Q (RQ d M)) \<subseteq> pool Q M"
  by (auto simp: pool_def split: if_splits)

lemma pool_steal:
  assumes q: "Q (RQ d M) = t # xs" and e: "Q (RQ c M) = []" and d: "d \<noteq> c"
  shows "pool (Q(RQ d M := xs, RQ c M := [t])) M = pool Q M" (is "pool ?Q M = _")
proof (intro equalityI subsetI)
  have "pool ?Q M \<subseteq> pool Q M \<union> set xs \<union> {t}"
    using pool_upd(1)[of "Q(RQ d M := xs)" c M "[t]"] pool_upd(1)[of Q d M xs] by auto
  then show "x \<in> pool Q M" if "x \<in> pool ?Q M" for x using that pool_upd(2)[of Q d M] q by auto
  fix x assume "x \<in> pool Q M"
  then obtain y where y: "x \<in> set (Q (RQ y M))" by (auto simp: pool_def)
  have "x \<in> set (?Q (RQ c M)) \<or> x \<in> set (?Q (RQ y M))" using y q e d by (cases "y = d"; cases "y = c") auto
  then show "x \<in> pool ?Q M" using pool_upd(2)[of ?Q] by blast
qed

definition weight :: "nat \<Rightarrow> (qkey \<Rightarrow> nat list) \<Rightarrow> mode_id_t \<Rightarrow> nat" where
  "weight c Q M = 2 * (\<Sum>d<SCHED_MAX_CPUS. length (Q (RQ d M))) + (if Q (RQ c M) = [] then 1 else 0)"

lemma sum_upd:
  assumes "d < (n::nat)"
  shows "(\<Sum>x<n. length ((Q(RQ d M := xs)) (RQ x M))) + length (Q (RQ d M)) = (\<Sum>x<n. length (Q (RQ x M))) + length xs"
  using assms
proof (induction n)
  case (Suc n)
  have "(\<Sum>x<n. length ((Q(RQ n M := xs)) (RQ x M))) = (\<Sum>x<n. length (Q (RQ x M)))" by (rule sum.cong) auto
  then show ?case using Suc by (cases "d = n") auto
qed simp

lemma weight_steal:
  assumes "d < SCHED_MAX_CPUS" "c < SCHED_MAX_CPUS" "d \<noteq> c" "Q (RQ d M) = t # xs" "Q (RQ c M) = []"
  shows "weight c (Q(RQ d M := xs, RQ c M := [t])) M < weight c Q M"
  using sum_upd[OF assms(1), of Q M xs] sum_upd[OF assms(2), of "Q(RQ d M := xs)" M "[t]"] assms(3-5) by (simp add: weight_def)

lemma weight_drop:
  assumes "c < SCHED_MAX_CPUS" "Q (RQ c M) \<noteq> []"
  shows "weight c (Q(RQ c M := [])) M < weight c Q M"
  using sum_upd[OF assms(1), of Q M "[]"] assms(2) by (cases "Q (RQ c M)") (simp_all add: weight_def)

section \<open>The retry loop\<close>

lemma local_search:
  assumes inv: "sched_inv st Q" and cap: "cap_inv (k_cap st)"
  shows "\<exists>n1 st1 n2 st2 R st'. scheduler_pick_next_weighted_locked env c M st = kret n1 st1 \<and>
    skip_denied env c M n1 st1 old = kret n2 st2 \<and> find_runnable env c M n2 st2 = kret (first R) st' \<and>
    cand_inv st' Q c M R \<and> (R \<noteq> [] \<longrightarrow> admitted env c (hd R) st') \<and> searched M st Q st' (Q(RQ c M := tl R)) (set_option (first R))"
proof -
  let ?L = "Q (RQ c M)"
  obtain st1 where P: "scheduler_pick_next_weighted_locked env c M st = kret (first ?L) st1" "cand_inv st1 Q c M ?L" "quiet st st1"
    using pick_cand[OF inv] by blast
  obtain D1 R1 st2 where S: "?L = D1 @ R1" "skip_denied env c M (first ?L) st1 old = kret (first R1) st2" "cand_inv st2 Q c M R1" "refused st1 D1 st2"
    using skip_denied_ok[OF P(2)] by blast
  have "cap_inv (k_cap st2)" using quieta_facts(2)[OF _ quiet_cap[OF P(3) cap]] S(4) by (auto simp: refused_def)
  then obtain D2 R st3 where F: "R1 = D2 @ R" "find_runnable env c M (first R1) st2 = kret (first R) st3" "cand_inv st3 Q c M R" "refused st2 D2 st3"
      "R \<noteq> [] \<longrightarrow> admitted env c (hd R) st3"
    using find_runnable_ok[OF S(3)] by blast
  have d: "distinct ?L" by (rule cand_distinct[OF P(2)])
  have rf: "refused st1 (D1 @ D2) st3" by (rule refused_trans[OF S(4) F(4)]) (use d S(1) F(1) in auto)
  have LR: "?L = (D1 @ D2) @ R" using S(1) F(1) by simp
  have "searched M st Q st3 (Q(RQ c M := tl R)) (set_option (first R))"
    unfolding searched_def
  proof (intro conjI ballI)
    have "quieta (set (D1 @ D2)) st st3" using quieta_trans[OF quiet_quieta[OF P(3)]] rf by (auto simp: refused_def)
    then show "quieta (pool Q M) st st3" by (rule quieta_mono) (use LR in \<open>auto simp: pool_def intro!: exI[of _ c]\<close>)
    have tl: "set (tl R) \<subseteq> set R" "set_option (first R) \<subseteq> set R" by (cases R; auto simp: first_def)+
    have RL: "set R \<subseteq> pool Q M" using LR pool_upd(2)[of Q c M] by auto
    show "pool (Q(RQ c M := tl R)) M \<union> set_option (first R) \<subseteq> pool Q M" using tl RL pool_upd(1)[of Q c M "tl R"] by auto
    fix t assume t: "t \<in> pool Q M"
    show "t \<in> pool (Q(RQ c M := tl R)) M \<or> t \<in> set_option (first R) \<or>
        th_state (k_thread st3 t) \<in> {THREAD_BLOCKED, THREAD_BLOCKED_AUTH, THREAD_SUSPENDED_MODE}"
    proof (cases "t \<in> set (D1 @ D2)")
      case True then show ?thesis using rf by (auto simp: refused_def)
    next
      case False
      obtain x where x: "t \<in> set (Q (RQ x M))" using t by (auto simp: pool_def)
      then have "t \<in> pool (Q(RQ c M := tl R)) M \<or> t \<in> set_option (first R)"
        using False LR by (cases "x = c"; cases R) (auto simp: pool_def first_def intro: exI[of _ c] exI[of _ x])
      then show ?thesis by blast
    qed
  qed simp
  then show ?thesis using P(1) S(2) F by blast
qed

definition nothing_to_run :: "kst \<Rightarrow> mode_id_t \<Rightarrow> (qkey \<Rightarrow> nat list) \<Rightarrow> nat \<Rightarrow> bool" where
  "nothing_to_run st M Q c \<longleftrightarrow> (\<forall>d<SCHED_MAX_CPUS. sc_active_mode (k_cpu st d) = sc_active_mode (k_cpu st c) \<longrightarrow> Q (RQ d M) = [])"

definition search_result :: "k_env \<Rightarrow> mode_id_t \<Rightarrow> kst \<Rightarrow> (qkey \<Rightarrow> nat list) \<Rightarrow> kst \<Rightarrow> (qkey \<Rightarrow> nat list) \<Rightarrow> nat option \<Rightarrow> bool" where
  "search_result env M st Q st' Q' n \<longleftrightarrow> sched_inv st' Q' \<and> searched M st Q st' Q' (set_option n) \<and>
     (case n of None \<Rightarrow> nothing_to_run st' M Q' (sched_current_cpu_id env)
      | Some t \<Rightarrow> unqueued Q' t \<and> th_state (k_thread st' t) = THREAD_READY \<and> sched_thread_mode n st' = M \<and>
                  admitted env (sched_current_cpu_id env) t st')"

lemma search_result_trans:
  assumes "searched M st Q st1 Q1 {}" and "search_result env M st1 Q1 st2 Q2 n"
  shows "search_result env M st Q st2 Q2 n"
  using assms searched_trans by (auto simp: search_result_def)

text \<open>The three ways the retry loop can go on: the stack check fails, nothing can run, or a thread is dispatched.\<close>

definition retry_result :: "k_env \<Rightarrow> nat option \<Rightarrow> mode_id_t \<Rightarrow> kst \<Rightarrow> (qkey \<Rightarrow> nat list) \<Rightarrow> sched_outcome kres \<Rightarrow> bool" where
  "retry_result env old M st Q r \<longleftrightarrow> r = kpanic ''SCHEDULER: Stack Overflow detected!'' \<or>
    (\<exists>st' Q'. search_result env M st Q st' Q' None \<and>
       r = (if old_running old st' then kret SchedKept st' else kbind (scheduler_reap env st') (\<lambda>_ st3. kret SchedIdle st3))) \<or>
    (\<exists>t st' Q'. search_result env M st Q st' Q' (Some t) \<and>
       r = kbind (dispatch env (sched_current_cpu_id env) M old t st')
             (\<lambda>ok st5. if ok then switch_to env (sched_current_cpu_id env) old t st5 else retry_pick env st5))"

lemma retry_result_trans:
  assumes "searched M st Q st1 Q1 {}" and "retry_result env old M st1 Q1 r"
  shows "retry_result env old M st Q r"
  using assms(2) search_result_trans[OF assms(1)] unfolding retry_result_def by blast

lemma retry_steal:
  assumes inv: "sched_inv st Q" and fr: "fresh c st" and m: "sched_active_envelope c st = M" and old: "sc_current_thread (k_cpu st c) = old"
    and c: "c = sched_current_cpu_id env" and e: "Q (RQ c M) = []"
  shows "retry_result env old M st Q (retry_pick env st) \<or>
    (\<exists>st' Q'. retry_pick env st = retry_pick env st' \<and> sched_inv st' Q' \<and> searched M st Q st' Q' {} \<and> quiet st st' \<and> weight c Q' M < weight c Q M)"
proof -
  have c64: "c < SCHED_MAX_CPUS" by (simp add: c sched_current_cpu_id_def SCHED_MAX_CPUS_def)
  have h: "en_ready_queue_head (k_envelope c M st) = None" using queuesD(1)[OF sched_invD(1)[OF inv], of "RQ c M"] e queue_head by fastforce
  let ?a = "sc_active_mode (k_cpu st c)"
  have M: "M = sched_envelope ?a" using m by (simp add: sched_active_envelope_def)
  obtain r st' where S: "scheduler_try_same_mode_steal env ?a c st = kret r st'"
    and cs: "r = None \<and> still st st' \<and> (\<forall>d\<in>set [0..<SCHED_MAX_CPUS]. d \<noteq> c \<longrightarrow> sc_active_mode (k_cpu st d) = ?a \<longrightarrow> Q (RQ d M) = []) \<or>
     (\<exists>t d xs. r = Some t \<and> d \<in> set [0..<SCHED_MAX_CPUS] \<and> d \<noteq> c \<and> Q (RQ d M) = t # xs \<and> quiet st st' \<and> cand_inv st' Q d M (t # xs))"
    using steal_ok[OF inv, of env ?a c "[0..<SCHED_MAX_CPUS]"] unfolding scheduler_try_same_mode_steal_def M by blast
  have unf: "retry_pick env st = (case r of Some t \<Rightarrow> retry_pick env (take_stolen c t st')
      | None \<Rightarrow> if old_running old st' then kret SchedKept st' else kbind (scheduler_reap env st') (\<lambda>_ st3. kret SchedIdle st3))"
    using S h m old refresh_fresh[OF fr] unfolding c by (subst retry_pick.simps) (simp add: Let_def)
  from cs show ?thesis
  proof (elim disjE conjE exE)
    assume r: "r = None" and s: "still st st'" and n: "\<forall>d\<in>set [0..<SCHED_MAX_CPUS]. d \<noteq> c \<longrightarrow> sc_active_mode (k_cpu st d) = ?a \<longrightarrow> Q (RQ d M) = []"
    have "Q (RQ d M) = []" if "d < SCHED_MAX_CPUS" "sc_active_mode (k_cpu st d) = ?a" for d using n e that by (cases "d = c") auto
    then have "search_result env M st Q st' Q None"
      using sched_inv_still[OF inv s] searched_still[OF s] quiet_cpu(2)[OF still_quiet[OF s]]
      by (auto simp: search_result_def nothing_to_run_def c)
    then show ?thesis using unf r unfolding retry_result_def by auto
  next
    fix t d xs assume r: "r = Some t" and d: "d \<in> set [0..<SCHED_MAX_CPUS]" "d \<noteq> c" and q: "Q (RQ d M) = t # xs" and qt: "quiet st st'" and ci: "cand_inv st' Q d M (t # xs)"
    have m': "sched_active_envelope c st' = M" using quiet_mode(3)[OF qt] m by simp
    note T = take_stolen_ok[OF ci m' d(2) e]
    let ?Q = "Q(RQ d M := xs, RQ c M := [t])"
    have "pool ?Q M = pool Q M" by (rule pool_steal[OF q e d(2)])
    then have "searched M st Q (take_stolen c t st') ?Q {}"
      using quiet_quieta[OF quiet_trans[OF qt T(2)]] by (auto simp: searched_def)
    then show ?thesis using T quiet_trans[OF qt T(2)] unf r weight_steal[OF _ c64 d(2) q e] d(1) by auto
  qed
qed

lemma retry_local:
  assumes inv: "sched_inv st Q" and cap: "cap_inv (k_cap st)" and fr: "fresh c st" and m: "sched_active_envelope c st = M"
    and old: "sc_current_thread (k_cpu st c) = old" and c: "c = sched_current_cpu_id env" and e: "Q (RQ c M) \<noteq> []"
  shows "retry_result env old M st Q (retry_pick env st) \<or>
    (\<exists>st' Q'. retry_pick env st = retry_pick env st' \<and> sched_inv st' Q' \<and> searched M st Q st' Q' {} \<and> weight c Q' M < weight c Q M)"
proof (cases "canary_broken old st")
  case True
  obtain y where "en_ready_queue_head (k_envelope c M st) = Some y"
    using queuesD(1)[OF sched_invD(1)[OF inv], of "RQ c M"] e queue_head by fastforce
  then have "retry_pick env st = kpanic ''SCHEDULER: Stack Overflow detected!''"
    using True m old refresh_fresh[OF fr] unfolding c by (subst retry_pick.simps) (simp add: Let_def)
  then show ?thesis by (simp add: retry_result_def)
next
  case False
  have c64: "c < SCHED_MAX_CPUS" by (simp add: c sched_current_cpu_id_def SCHED_MAX_CPUS_def)
  obtain y where h: "en_ready_queue_head (k_envelope c M st) = Some y"
    using queuesD(1)[OF sched_invD(1)[OF inv], of "RQ c M"] e queue_head by fastforce
  obtain n1 st1 n2 st2 R st' where P: "scheduler_pick_next_weighted_locked env c M st = kret n1 st1" "skip_denied env c M n1 st1 old = kret n2 st2"
      "find_runnable env c M n2 st2 = kret (first R) st'" and ci: "cand_inv st' Q c M R" and ad: "R \<noteq> [] \<longrightarrow> admitted env c (hd R) st'"
      and sr: "searched M st Q st' (Q(RQ c M := tl R)) (set_option (first R))"
    using local_search[OF inv cap] by blast
  have unf: "retry_pick env st = (case first R of None \<Rightarrow> retry_pick env st'
      | Some t \<Rightarrow> kbind (dispatch env c M old t st') (\<lambda>ok st5. if ok then switch_to env c old t st5 else retry_pick env st5))"
    using P h False m old refresh_fresh[OF fr] unfolding c by (subst retry_pick.simps) (simp add: Let_def split: option.split cong: if_cong)
  show ?thesis
  proof (cases R)
    case Nil
    then show ?thesis using unf ci sr weight_drop[of c Q M, OF c64 e] by (intro disjI2 exI[of _ st'] exI[of _ "Q(RQ c M := [])"]) (auto simp: cand_inv_def first_def)
  next
    case (Cons t L)
    then have "search_result env M st Q st' (Q(RQ c M := L)) (Some t)"
      using ci sr ad c by (auto simp: search_result_def cand_inv_def first_def)
    moreover have "retry_pick env st = kbind (dispatch env c M old t st') (\<lambda>ok st5. if ok then switch_to env c old t st5 else retry_pick env st5)"
      using unf Cons by (simp add: first_def)
    ultimately show ?thesis unfolding retry_result_def c by blast
  qed
qed

lemma retry_pick_ok:
  assumes "sched_inv st Q" and "cap_inv (k_cap st)" and "fresh c st" and "sched_active_envelope c st = M"
    and "sc_current_thread (k_cpu st c) = old" and c: "c = sched_current_cpu_id env"
  shows "retry_result env old M st Q (retry_pick env st)"
  using assms(1-5)
proof (induction "weight c Q M" arbitrary: st Q rule: less_induct)
  case less
  from retry_steal[OF less.prems(1,3-5) c] retry_local[OF less.prems c]
  consider (settled) "retry_result env old M st Q (retry_pick env st)"
    | (again) st' Q' where "retry_pick env st = retry_pick env st'" "sched_inv st' Q'" "searched M st Q st' Q' {}" "weight c Q' M < weight c Q M"
    by blast
  then show ?case
  proof cases
    case again
    then have q: "quieta (pool Q M) st st'" by (simp add: searched_def)
    have "retry_result env old M st' Q' (retry_pick env st')"
      using less.hyps[OF again(4,2) quieta_facts(2)[OF q less.prems(2)] quieta_fresh[OF less.prems(3) q]] quieta_facts(4,7)[OF q] less.prems(4,5)
      by simp
    then show ?thesis using retry_result_trans[OF again(3)] again(1) by simp
  qed
qed

end
