(* ===== verification/Spec2Isabelle.thy ===== *)
theory Spec2Isabelle
  imports Mode_Policy Capability_Run Kernel_Heap Slab_Annihilate Vmm_Fault Sched_Search
begin

text \<open>
  A verification development for the Reaper-OS microkernel (\<^verbatim>\<open>src/kernel\<close>).

  \<^bold>\<open>The program.\<close>  The kernel boots from a memory map, hands out physical frames
  (\<^verbatim>\<open>pmm.c\<close>), address-space identifiers (\<^verbatim>\<open>pcid.c\<close>) and
  capabilities (\<^verbatim>\<open>capability.c\<close>), and moves between the security modes Void, Casual, Secure,
  Lockdown and Ghost (\<^verbatim>\<open>mode.c\<close>).  A change of mode switches the protection-key
  register (\<^verbatim>\<open>pku.c\<close>), the page-table identifier (\<^verbatim>\<open>vmm.c\<close>) and the scheduler's copy of
  the mode, is logged in a hash-chained history, and is recorded in the audit ring
  (\<^verbatim>\<open>audit.c\<close>), whose entries are chained by BLAKE3 (\<^verbatim>\<open>blake3/\<close>).  Capability
  lookups consult the current mode and strike the audit ring when they are denied.

  \<^bold>\<open>Method.\<close>  C structs are records, enums are datatypes with their numeric values as
  functions, fixed-width integers are words of that width, and every operation is a function on an
  explicit state.  Where the code may fail the result carries the failure; a pointer walk that is not bounded by
  the code is a partial function into \<open>option\<close>, and the theorems prove that it returns.
  Spinlocks, atomics and barriers have no counterpart: operations are atomic steps, and concurrency appears only as
  the order of steps.  Hardware and the code of other components enter as arguments of an operation (time stamp,
  tick, current thread, the cell a slab allocation returns).

  \<^bold>\<open>The theories.\<close>
  \<^item> \<open>Reaper_Prelude\<close>: word types, the byte-addressed memory and its scrubbing, little-endian bytes
    (\<^verbatim>\<open>utils.h\<close>), generic lemmas.  \<open>Resource_Pool\<close>: a locale for allocators with an
    \<open>acquire\<close> and a \<open>drop\<close> operation, and the theorem that no resource is ever held twice along a run;
    interpreted by the frame allocator and by the PCID allocator.
  \<^item> \<open>Pmm\<close> models \<^verbatim>\<open>pmm.c\<close> function by function: bitmap, per-frame ledger with
    intrusive buddy lists, zones, boot from the memory map, allocation, release, transfer, direct map.  \<open>Pmm_Buddy\<close>
    relates the intrusive lists to HOL lists and proves that splitting and merging keep the buddy
    invariant; the walk through a free list ends because the list is acyclic.  \<open>Pmm_Alloc\<close> lifts
    this to the entry points (safety, liveness, round trip, boot, exclusive ownership, the frame-zero defect).
  \<^item> \<open>Blake3\<close> models the portable hasher; the incremental interface equals the one-pass reference on
    inputs up to one chunk (1024 bytes), which covers every record the kernel hashes.
  \<^item> \<open>Mode_Types\<close> holds the modes; \<open>Audit_Ring\<close> models \<^verbatim>\<open>audit.c\<close> (append-only, tamper-evident,
    and what happens when the ring is full).
  \<^item> \<open>Pcid\<close> models \<^verbatim>\<open>pcid.c\<close> and \<open>vmm_switch\<close> (\<^verbatim>\<open>vmm.c\<close>): disjoint ranges, exclusive identifiers, flushing
    before reuse.
  \<^item> \<open>Fate\<close> models the transition history and the CMOS boot record of \<^verbatim>\<open>mode.c\<close>; \<open>Mode\<close> models the
    compile/verify/apply/rollback pipeline and the boot sequence; \<open>Mode_Policy\<close> states the transition table
    as a specification, proves that the pipeline decides exactly that table, that every log is a
    path of legal edges, and what boot does with a stored mode.
  \<^item> \<open>Capability\<close> models \<^verbatim>\<open>capability.c\<close>; \<open>Capability_Inv\<close> holds the lineage invariant
    (doubly linked children lists, ranks, exact reference counts) and releases; \<open>Capability_Ops\<close>
    proves minting, retyping, copying and revocation against it; \<open>Capability_Run\<close> lifts the results to arbitrary
    sequences of operations.

  \<^bold>\<open>Assumptions that appear as hypotheses.\<close>  The allocator invariant for releases of blocks in use; fewer than
  \<open>2 ^ 25\<close> C-Nodes (so that a 32-bit reference count is exact) and a revocation epoch that has not wrapped; a slab
  allocation returns a cell not in use; the fate log has seen fewer than \<open>2 ^ 64\<close> records.

  \<^bold>\<open>Not modelled.\<close>  Console, serial port and kernel log (output only); GDT, IDT, interrupt entry, CET and
  boot assembly (hardware set-up without state the rest of the kernel reads back); ACPI, DMAR, IOMMU and DMA
  drivers; the Limine boot loader (third-party); the user programs; the self tests of \<^verbatim>\<open>main.c\<close>; the shell
  scripts.  Still to come, in this order: slab and kmalloc, page-table mapping in \<^verbatim>\<open>vmm.c\<close>, IPC and the system-call
  layer, the scheduler, processes, threads, lattices, the ELF loader and genesis.
\<close>

end
